(* ===== verification/Prelude.thy ===== *)
theory Prelude
  imports Main "HOL-Library.Word" "HOL-Library.Monad_Syntax" "HOL-Library.Multiset"
begin

text \<open>
  The vocabulary shared by the component theories of the DoglinkOS-2nd development: the
  kernel's integer types, the arithmetic of \<^verbatim>\<open>core\<close> that the kernel uses
  (\<^verbatim>\<open>checked_add\<close>, \<^verbatim>\<open>saturating_add\<close>, \<^verbatim>\<open>div_ceil\<close>,
  \<^verbatim>\<open>from_le_bytes\<close> and their kin), slices and vectors as lists with checked indexing,
  and the list and word lemmas the components have in common.

  Conventions. A \<^verbatim>\<open>usize\<close> that counts or indexes is a \<^typ>\<open>nat\<close>, with the 64-bit
  limit written out where the source can reach it; a register, a descriptor field or any
  value on which the source works bitwise is a word of its width. A function that can panic
  returns an \<^typ>\<open>'a option\<close> and \<^term>\<open>None\<close> is the panic (an index out of range, an
  \<^verbatim>\<open>unwrap\<close> of nothing, an arithmetic overflow in a build with overflow checks). A
  \<^verbatim>\<open>Result<T, E>\<close> is a sum \<^typ>\<open>'e + 't\<close> with the error on the left. Where a
  theorem shows that a function returns \<^term>\<open>Some\<close>, no overflow happened, so a build without
  overflow checks computes the same value.
\<close>

unbundle bit_operations_syntax

section \<open>Integer types\<close>

type_synonym u8 = "8 word"
type_synonym u16 = "16 word"
type_synonym u32 = "32 word"
type_synonym u64 = "64 word"
type_synonym usize = nat
type_synonym bytes = "u8 list"

named_theorems dlos_defs \<open>definitions that are unfolded in component proofs\<close>
named_theorems dlos_bytes \<open>facts on encoding integers as bytes\<close>

abbreviation USIZE_LIMIT :: nat where "USIZE_LIMIT \<equiv> 2 ^ 64"

section \<open>Arithmetic of the standard library\<close>

definition checked_add :: "nat \<Rightarrow> nat \<Rightarrow> nat option" where
  "checked_add a b = (if a + b < USIZE_LIMIT then Some (a + b) else None)"

definition checked_mul :: "nat \<Rightarrow> nat \<Rightarrow> nat option" where
  "checked_mul a b = (if a * b < USIZE_LIMIT then Some (a * b) else None)"

definition checked_sub :: "nat \<Rightarrow> nat \<Rightarrow> nat option" where
  "checked_sub a b = (if b \<le> a then Some (a - b) else None)"

definition saturating_add :: "nat \<Rightarrow> nat \<Rightarrow> nat" where
  "saturating_add a b = min (a + b) (USIZE_LIMIT - 1)"

definition saturating_mul :: "nat \<Rightarrow> nat \<Rightarrow> nat" where
  "saturating_mul a b = min (a * b) (USIZE_LIMIT - 1)"

definition saturating_add_signed :: "nat \<Rightarrow> int \<Rightarrow> nat" where
  "saturating_add_signed a d = min (nat (int a + d)) (USIZE_LIMIT - 1)"

definition div_ceil :: "nat \<Rightarrow> nat \<Rightarrow> nat" where
  "div_ceil a b = a div b + (if a mod b = 0 then 0 else 1)"

fun power_of_two_from :: "nat \<Rightarrow> nat \<Rightarrow> bool" where
  "power_of_two_from 0 n = False"
| "power_of_two_from (Suc k) n = (n = 1 \<or> (n \<noteq> 0 \<and> even n \<and> power_of_two_from k (n div 2)))"

definition is_power_of_two :: "nat \<Rightarrow> bool" where
  "is_power_of_two n = power_of_two_from 64 n"

definition is_multiple_of :: "nat \<Rightarrow> nat \<Rightarrow> bool" where
  "is_multiple_of a b = (if b = 0 then a = 0 else a mod b = 0)"

definition wsat_add :: "'a::len word \<Rightarrow> 'a word \<Rightarrow> 'a word" where
  "wsat_add a b = (if unat a + unat b < 2 ^ LENGTH('a) then a + b else - 1)"

definition wsat_sub :: "'a::len word \<Rightarrow> 'a word \<Rightarrow> 'a word" where
  "wsat_sub a b = (if b \<le> a then a - b else 0)"

definition of_bool_word :: "bool \<Rightarrow> 'a::len word" where
  "of_bool_word b = (if b then 1 else 0)"

section \<open>Slices and vectors\<close>

definition nth_opt :: "'a list \<Rightarrow> nat \<Rightarrow> 'a option" where
  "nth_opt xs i = (if i < length xs then Some (xs ! i) else None)"

definition upd_opt :: "'a list \<Rightarrow> nat \<Rightarrow> 'a \<Rightarrow> 'a list option" where
  "upd_opt xs i v = (if i < length xs then Some (xs[i := v]) else None)"

fun position :: "('a \<Rightarrow> bool) \<Rightarrow> 'a list \<Rightarrow> nat option" where
  "position P [] = None"
| "position P (x # xs) = (if P x then Some 0 else map_option Suc (position P xs))"

definition swap_remove :: "'a list \<Rightarrow> nat \<Rightarrow> 'a list" where
  "swap_remove xs i = butlast (xs[i := last xs])"

definition slice :: "'a list \<Rightarrow> nat \<Rightarrow> nat \<Rightarrow> 'a list option" where
  "slice xs l r = (if l \<le> r \<and> r \<le> length xs then Some (take (r - l) (drop l xs)) else None)"

definition copy_into :: "'a list \<Rightarrow> nat \<Rightarrow> 'a list \<Rightarrow> 'a list option" where
  "copy_into dst at src =
     (if at + length src \<le> length dst
      then Some (take at dst @ src @ drop (at + length src) dst) else None)"

definition starts_with :: "'a list \<Rightarrow> 'a list \<Rightarrow> bool" where
  "starts_with xs pre = (take (length pre) xs = pre)"

definition strip_prefix :: "'a list \<Rightarrow> 'a list \<Rightarrow> 'a list option" where
  "strip_prefix xs pre = (if starts_with xs pre then Some (drop (length pre) xs) else None)"

section \<open>Errors that are passed on\<close>

text \<open>
  \<open>try_bind m f\<close> is the \<^verbatim>\<open>?\<close> operator in a function that may also panic: a panic and an
  error of \<open>m\<close> are passed on, a value goes to \<open>f\<close>.
\<close>

definition try_bind :: "('e + 'a) option \<Rightarrow> ('a \<Rightarrow> ('e + 'b) option) \<Rightarrow> ('e + 'b) option" where
  "try_bind m f = (case m of None \<Rightarrow> None | Some (Inl e) \<Rightarrow> Some (Inl e) | Some (Inr x) \<Rightarrow> f x)"

lemma try_bind_simps [simp]:
  "try_bind None f = None"
  "try_bind (Some (Inl e)) f = Some (Inl e)"
  "try_bind (Some (Inr x)) f = f x"
  by (simp_all add: try_bind_def)

lemma try_bind_cong [fundef_cong]:
  "\<lbrakk>m = m'; \<And>x. m' = Some (Inr x) \<Longrightarrow> f x = f' x\<rbrakk> \<Longrightarrow> try_bind m f = try_bind m' f'"
  by (auto simp: try_bind_def split: option.splits sum.splits)

lemma try_bind_weak_cong: "m = m' \<Longrightarrow> try_bind m f = try_bind m' f"
  by simp

lemma try_bind_Inr:
  "try_bind m f = Some (Inr y) \<longleftrightarrow> (\<exists>x. m = Some (Inr x) \<and> f x = Some (Inr y))"
  by (auto simp: try_bind_def split: option.splits sum.splits)

lemma try_bind_not_None:
  "try_bind m f \<noteq> None \<longleftrightarrow> m \<noteq> None \<and> (\<forall>x. m = Some (Inr x) \<longrightarrow> f x \<noteq> None)"
  by (auto simp: try_bind_def split: option.splits sum.splits)

section \<open>Bytes of integers\<close>

definition u16_from_le :: "u8 \<Rightarrow> u8 \<Rightarrow> u16" where
  "u16_from_le b0 b1 = ucast b0 OR push_bit 8 (ucast b1)"

definition u16_from_be :: "u8 \<Rightarrow> u8 \<Rightarrow> u16" where
  "u16_from_be b0 b1 = u16_from_le b1 b0"

definition u16_to_be :: "u16 \<Rightarrow> bytes" where
  "u16_to_be w = [ucast (drop_bit 8 w), ucast w]"

definition u32_from_le :: "u8 \<Rightarrow> u8 \<Rightarrow> u8 \<Rightarrow> u8 \<Rightarrow> u32" where
  "u32_from_le b0 b1 b2 b3 =
     ucast b0 OR push_bit 8 (ucast b1) OR push_bit 16 (ucast b2) OR push_bit 24 (ucast b3)"

definition u32_from_be :: "u8 \<Rightarrow> u8 \<Rightarrow> u8 \<Rightarrow> u8 \<Rightarrow> u32" where
  "u32_from_be b0 b1 b2 b3 = u32_from_le b3 b2 b1 b0"

definition u32_to_le :: "u32 \<Rightarrow> bytes" where
  "u32_to_le w = [ucast w, ucast (drop_bit 8 w), ucast (drop_bit 16 w), ucast (drop_bit 24 w)]"

definition u32_to_be :: "u32 \<Rightarrow> bytes" where
  "u32_to_be w = rev (u32_to_le w)"

definition u64_to_le :: "u64 \<Rightarrow> bytes" where
  "u64_to_le w = u32_to_le (ucast w) @ u32_to_le (ucast (drop_bit 32 w))"

definition u64_of_u32s :: "u32 \<Rightarrow> u32 \<Rightarrow> u64" where
  "u64_of_u32s lo hi = ucast lo OR push_bit 32 (ucast hi)"

section \<open>UTF-8 validity, as \<^verbatim>\<open>core::str::from_utf8\<close> decides it\<close>

definition utf8_cont :: "u8 \<Rightarrow> bool" where
  "utf8_cont b = (0x80 \<le> b \<and> b \<le> 0xBF)"

fun utf8_valid :: "bytes \<Rightarrow> bool" where
  "utf8_valid [] = True"
| "utf8_valid (a # bs) =
     (if a < 0x80 then utf8_valid bs
      else if 0xC2 \<le> a \<and> a \<le> 0xDF then
        (case bs of b # r \<Rightarrow> utf8_cont b \<and> utf8_valid r | _ \<Rightarrow> False)
      else if 0xE0 \<le> a \<and> a \<le> 0xEF then
        (case bs of b # c # r \<Rightarrow>
            (if a = 0xE0 then 0xA0 \<le> b \<and> b \<le> 0xBF
             else if a = 0xED then 0x80 \<le> b \<and> b \<le> 0x9F else utf8_cont b) \<and>
            utf8_cont c \<and> utf8_valid r
         | _ \<Rightarrow> False)
      else if 0xF0 \<le> a \<and> a \<le> 0xF4 then
        (case bs of b # c # d # r \<Rightarrow>
            (if a = 0xF0 then 0x90 \<le> b \<and> b \<le> 0xBF
             else if a = 0xF4 then 0x80 \<le> b \<and> b \<le> 0x8F else utf8_cont b) \<and>
            utf8_cont c \<and> utf8_cont d \<and> utf8_valid r
         | _ \<Rightarrow> False)
      else False)"

section \<open>Lemmas\<close>

subsection \<open>Options and checked indexing\<close>

lemma nth_opt_Some [simp]: "i < length xs \<Longrightarrow> nth_opt xs i = Some (xs ! i)"
  by (simp add: nth_opt_def)

lemma nth_opt_None [simp]: "length xs \<le> i \<Longrightarrow> nth_opt xs i = None"
  by (simp add: nth_opt_def)

lemma nth_opt_eq_Some: "nth_opt xs i = Some x \<longleftrightarrow> i < length xs \<and> xs ! i = x"
  by (auto simp: nth_opt_def)

lemma upd_opt_Some [simp]: "i < length xs \<Longrightarrow> upd_opt xs i v = Some (xs[i := v])"
  by (simp add: upd_opt_def)

lemma upd_opt_None [simp]: "length xs \<le> i \<Longrightarrow> upd_opt xs i v = None"
  by (simp add: upd_opt_def)

lemma upd_opt_eq_Some: "upd_opt xs i v = Some ys \<longleftrightarrow> i < length xs \<and> ys = xs[i := v]"
  by (auto simp: upd_opt_def)

lemma position_None: "position P xs = None \<longleftrightarrow> (\<forall>x\<in>set xs. \<not> P x)"
  by (induction xs) auto

lemma position_Some:
  "position P xs = Some i \<longleftrightarrow> i < length xs \<and> P (xs ! i) \<and> (\<forall>j<i. \<not> P (xs ! j))"
proof (induction xs arbitrary: i)
  case Nil
  then show ?case by simp
next
  case (Cons x xs)
  show ?case
  proof (cases i)
    case 0
    then show ?thesis by auto
  next
    case (Suc k)
    have "(\<forall>j<Suc k. \<not> P ((x # xs) ! j)) \<longleftrightarrow> \<not> P x \<and> (\<forall>j<k. \<not> P (xs ! j))"
      by (auto simp: less_Suc_eq_0_disj)
    then show ?thesis using Cons.IH [of k] Suc by auto
  qed
qed

lemma position_SomeD:
  assumes "position P xs = Some i"
  shows "i < length xs" and "P (xs ! i)"
  using assms by (auto simp: position_Some)

lemma length_copy_into: "copy_into dst at src = Some r \<Longrightarrow> length r = length dst"
  by (auto simp: copy_into_def split: if_splits)

subsection \<open>Division and alignment\<close>

lemma div_ceil_eq:
  assumes "0 < b"
  shows "div_ceil a b = (a + b - 1) div b"
proof -
  define q r where "q = a div b" and "r = a mod b"
  have a: "a = b * q + r" and r: "r < b" using assms by (simp_all add: q_def r_def)
  show ?thesis
  proof (cases "r = 0")
    case True
    have "a + b - 1 = b * q + (b - 1)" using a True assms by simp
    also have "\<dots> div b = q" using assms by (subst div_mult_self4) auto
    finally have "(a + b - 1) div b = q" .
    with True show ?thesis by (simp add: div_ceil_def q_def r_def)
  next
    case False
    have "a + b - 1 = b * (q + 1) + (r - 1)" using a False by (simp add: algebra_simps)
    also have "\<dots> div b = q + 1" using r assms by (subst div_mult_self4) auto
    finally show ?thesis using False by (simp add: div_ceil_def q_def r_def)
  qed
qed

lemma div_ceil_bounds:
  assumes "0 < b"
  shows "a \<le> div_ceil a b * b" and "div_ceil a b * b < a + b"
proof -
  have "(a + b - 1) = (a + b - 1) div b * b + (a + b - 1) mod b" by simp
  moreover have "(a + b - 1) mod b < b" using assms by simp
  ultimately show "a \<le> div_ceil a b * b" and "div_ceil a b * b < a + b"
    using assms unfolding div_ceil_eq [OF assms] by linarith+
qed

lemma div_ceil_mono: "a \<le> c \<Longrightarrow> 0 < b \<Longrightarrow> div_ceil a b \<le> div_ceil c b"
  by (simp add: div_ceil_eq div_le_mono)

lemma power_of_two_fromD: "power_of_two_from k n \<Longrightarrow> \<exists>e<k. n = 2 ^ e"
proof (induction k n rule: power_of_two_from.induct)
  case (1 n)
  then show ?case by simp
next
  case (2 k n)
  show ?case
  proof (cases "n = 1")
    case True
    then show ?thesis by (intro exI [of _ 0]) simp
  next
    case False
    with 2 obtain e where "e < k" and "n div 2 = 2 ^ e" and "even n" by auto
    then show ?thesis by (intro exI [of _ "Suc e"]) auto
  qed
qed

lemma power_of_two_fromI: "e < k \<Longrightarrow> power_of_two_from k (2 ^ e)"
proof (induction k arbitrary: e)
  case 0
  then show ?case by simp
next
  case (Suc k)
  then show ?case by (cases e) auto
qed

lemma is_power_of_two_iff: "is_power_of_two n \<longleftrightarrow> (\<exists>e<64. n = 2 ^ e)"
  unfolding is_power_of_two_def using power_of_two_fromD power_of_two_fromI by blast

lemma is_power_of_two_pos: "is_power_of_two n \<Longrightarrow> 0 < n"
  by (auto simp: is_power_of_two_iff)

lemma is_multiple_of_dvd: "is_multiple_of a b \<longleftrightarrow> b dvd a"
  by (auto simp: is_multiple_of_def)

lemma unat_less: "unat (w :: 'a::len word) < 2 ^ LENGTH('a)"
  by (rule unsigned_less)

subsection \<open>Byte encodings\<close>

lemma u16_be_roundtrip [dlos_bytes]:
  "u16_from_be (ucast (drop_bit 8 w)) (ucast w) = (w :: u16)"
  unfolding u16_from_be_def u16_from_le_def
  by (rule bit_word_eqI) (auto simp: bit_simps)

lemma u32_le_roundtrip [dlos_bytes]:
  "u32_from_le (ucast w) (ucast (drop_bit 8 w)) (ucast (drop_bit 16 w)) (ucast (drop_bit 24 w))
     = (w :: u32)"
proof (rule bit_word_eqI)
  fix n
  assume "n < LENGTH(32)"
  then have "n < 8 \<or> (8 \<le> n \<and> n < 16) \<or> (16 \<le> n \<and> n < 24) \<or> (24 \<le> n \<and> n < 32)"
    by auto
  then show "bit (u32_from_le (ucast w) (ucast (drop_bit 8 w)) (ucast (drop_bit 16 w))
      (ucast (drop_bit 24 w))) n = bit w n"
    by (elim disjE) (auto simp: u32_from_le_def bit_simps)
qed

lemma u32_to_le_from_le [dlos_bytes]: "u32_to_le (u32_from_le a b c d) = [a, b, c, d]"
proof -
  have "(ucast (u32_from_le a b c d) :: u8) = a"
    and "(ucast (drop_bit 8 (u32_from_le a b c d)) :: u8) = b"
    and "(ucast (drop_bit 16 (u32_from_le a b c d)) :: u8) = c"
    and "(ucast (drop_bit 24 (u32_from_le a b c d)) :: u8) = d"
    by (rule bit_word_eqI, auto simp: u32_from_le_def bit_simps dest: bit_imp_le_length)+
  then show ?thesis by (simp add: u32_to_le_def)
qed

lemma u32_from_le_eq: "u32_from_le a b c d = w \<longleftrightarrow> u32_to_le w = [a, b, c, d]"
proof
  show "u32_to_le w = [a, b, c, d]" if "u32_from_le a b c d = w"
    using u32_to_le_from_le that by blast
  show "u32_from_le a b c d = w" if "u32_to_le w = [a, b, c, d]"
    using u32_le_roundtrip [of w] that by (simp add: u32_to_le_def)
qed

lemma length_u32_to_le [simp]: "length (u32_to_le w) = 4"
  by (simp add: u32_to_le_def)

lemma length_u64_to_le [simp]: "length (u64_to_le x) = 8"
  by (simp add: u64_to_le_def)

definition u64_from_le :: "bytes \<Rightarrow> u64" where
  "u64_from_le bs = u64_of_u32s (u32_from_le (bs ! 0) (bs ! 1) (bs ! 2) (bs ! 3)) (u32_from_le (bs ! 4) (bs ! 5) (bs ! 6) (bs ! 7))"

lemma u64_le_roundtrip [dlos_bytes]: "u64_from_le (u64_to_le w) = w"
proof -
  have "u64_from_le (u64_to_le w) = u64_of_u32s (ucast w) (ucast (drop_bit 32 w))"
    using u32_le_roundtrip [of "ucast w"] u32_le_roundtrip [of "ucast (drop_bit 32 w)"]
    by (simp add: u64_from_le_def u64_to_le_def u32_to_le_def)
  also have "\<dots> = w" unfolding u64_of_u32s_def by (rule bit_word_eqI) (auto simp: bit_simps)
  finally show ?thesis .
qed

lemma length_u32_to_be [simp]: "length (u32_to_be w) = 4"
  by (simp add: u32_to_be_def)

lemma length_u16_to_be [simp]: "length (u16_to_be w) = 2"
  by (simp add: u16_to_be_def)

text \<open>
  A loop that waits for the hardware: it goes on while the test says busy. The value \<^term>\<open>None\<close> means that it panics or does not return.
\<close>

partial_function (option) wait_while :: "('s \<Rightarrow> (bool \<times> 's) option) \<Rightarrow> 's \<Rightarrow> 's option" where
  "wait_while busy s = Option.bind (busy s) (\<lambda>(b, s). if b then wait_while busy s else Some s)"

text \<open>A loop over a list whose body changes a state and may panic.\<close>

fun for_each :: "('a \<Rightarrow> 's \<Rightarrow> 's option) \<Rightarrow> 'a list \<Rightarrow> 's \<Rightarrow> 's option" where
  "for_each f [] s = Some s"
| "for_each f (x # xs) s = do { s \<leftarrow> f x s; for_each f xs s }"

end
