(* ===== verification/Bitmap.thy ===== *)
theory Bitmap
  imports Prelude
begin

text \<open>
  The page manager of \<^verbatim>\<open>kernel/src/mm/bitmap.rs\<close>: one bit per physical page (set when
  the page is free) in 64-bit words, and one reference counter byte per page. The single-bit
  accessors \<^verbatim>\<open>get_bit\<close> and \<^verbatim>\<open>set_bit\<close> come from the \<^verbatim>\<open>bit_field\<close>
  crate; they are the argument \<open>bo\<close> of the operations, and the locale \<open>bit_field\<close> states the
  documented laws of the two. The lemmas of the locale describe every operation by its effect on
  the set of free pages.
\<close>

section \<open>The operations\<close>

record bit_ops =
  get_bit :: "u64 \<Rightarrow> nat \<Rightarrow> bool"
  set_bit_to :: "u64 \<Rightarrow> nat \<Rightarrow> bool \<Rightarrow> u64"

record page_man =
  bmp :: "u64 list"
  refcnt :: "u8 list"

definition calc_size :: "nat \<Rightarrow> (nat \<times> nat \<times> nat) option" where
  "calc_size len =
     (let tmp = div_ceil len 64 in
      do { t8 \<leftarrow> checked_mul tmp 8; total \<leftarrow> checked_add t8 len; Some (tmp, len, total) })"

definition pm_new :: "u64 list \<Rightarrow> u8 list \<Rightarrow> page_man" where
  "pm_new b r = \<lparr>bmp = map (\<lambda>_. 0) b, refcnt = map (\<lambda>_. 0) r\<rparr>"

definition pm_len :: "page_man \<Rightarrow> nat" where
  "pm_len pm = length (bmp pm) * 64"

definition pm_set :: "bit_ops \<Rightarrow> page_man \<Rightarrow> nat \<Rightarrow> bool \<Rightarrow> page_man option" where
  "pm_set bo pm pos v =
     (let byte_pos = pos div 64; bit_pos = pos mod 64 in
      do { w \<leftarrow> nth_opt (bmp pm) byte_pos;
           Some (pm\<lparr>bmp := (bmp pm)[byte_pos := set_bit_to bo w bit_pos v]\<rparr>) })"

definition pm_get :: "bit_ops \<Rightarrow> page_man \<Rightarrow> nat \<Rightarrow> bool option" where
  "pm_get bo pm pos =
     (let byte_pos = pos div 64; bit_pos = pos mod 64 in
      do { w \<leftarrow> nth_opt (bmp pm) byte_pos; Some (get_bit bo w bit_pos) })"

function pm_set_range :: "bit_ops \<Rightarrow> page_man \<Rightarrow> nat \<Rightarrow> nat \<Rightarrow> bool \<Rightarrow> page_man option" where
  "pm_set_range bo pm l r v =
     (if l < r then do { pm' \<leftarrow> pm_set bo pm l v; pm_set_range bo pm' (l + 1) r v } else Some pm)"
  by pat_completeness auto
termination
  by (relation "measure (\<lambda>(bo, pm, l, r, v). r - l)") auto

definition pm_incref :: "page_man \<Rightarrow> nat \<Rightarrow> page_man option" where
  "pm_incref pm pos =
     do { c \<leftarrow> nth_opt (refcnt pm) pos;
          if c = 255 then None else Some (pm\<lparr>refcnt := (refcnt pm)[pos := c + 1]\<rparr>) }"

definition pm_decref :: "page_man \<Rightarrow> nat \<Rightarrow> page_man option" where
  "pm_decref pm pos =
     do { c \<leftarrow> nth_opt (refcnt pm) pos;
          if c = 0 then None else Some (pm\<lparr>refcnt := (refcnt pm)[pos := c - 1]\<rparr>) }"

definition pm_getref :: "page_man \<Rightarrow> nat \<Rightarrow> u8 option" where
  "pm_getref pm pos = nth_opt (refcnt pm) pos"

text \<open>The set of free pages, the abstract value of a page manager.\<close>

definition free_page :: "bit_ops \<Rightarrow> page_man \<Rightarrow> nat \<Rightarrow> bool" where
  "free_page bo pm i \<longleftrightarrow> i < pm_len pm \<and> get_bit bo (bmp pm ! (i div 64)) (i mod 64)"

definition free_set :: "bit_ops \<Rightarrow> page_man \<Rightarrow> nat set" where
  "free_set bo pm = {i. free_page bo pm i}"

text \<open>An implementation of the two accessors with the word library, for concrete inputs.\<close>

definition word_bits :: bit_ops where
  "word_bits = \<lparr>get_bit = bit,
     set_bit_to = (\<lambda>w i v. if v then Bit_Operations.set_bit i w else Bit_Operations.unset_bit i w)\<rparr>"

section \<open>Lemmas\<close>

declare pm_set_range.simps [simp del]

locale bit_field =
  fixes bo :: bit_ops
  assumes get_set: "\<lbrakk>i < 64; j < 64\<rbrakk> \<Longrightarrow>
      get_bit bo (set_bit_to bo w i v) j = (if j = i then v else get_bit bo w j)"
    and get_zero: "j < 64 \<Longrightarrow> \<not> get_bit bo 0 j"
begin

lemma pm_get_free: "i < pm_len pm \<Longrightarrow> pm_get bo pm i = Some (free_page bo pm i)"
  by (simp add: pm_get_def free_page_def pm_len_def Let_def less_mult_imp_div_less)

lemma pm_set_free:
  assumes "i < pm_len pm"
  obtains pm' where "pm_set bo pm i v = Some pm'" and "pm_len pm' = pm_len pm"
    and "refcnt pm' = refcnt pm"
    and "free_set bo pm' = (if v then insert i (free_set bo pm) else free_set bo pm - {i})"
proof -
  let ?w = "bmp pm ! (i div 64)"
  let ?pm = "pm\<lparr>bmp := (bmp pm)[i div 64 := set_bit_to bo ?w (i mod 64) v]\<rparr>"
  have div: "i div 64 < length (bmp pm)"
    using assms by (simp add: pm_len_def less_mult_imp_div_less)
  have "free_page bo ?pm j = (if j = i then v else free_page bo pm j)" for j
  proof (cases "j div 64 = i div 64")
    case True
    have "j mod 64 = i mod 64 \<longleftrightarrow> j = i" using True by (metis div_mult_mod_eq)
    with True div assms show ?thesis
      by (auto simp: free_page_def pm_len_def get_set)
  next
    case False
    then have "j \<noteq> i" by auto
    with False show ?thesis by (simp add: free_page_def pm_len_def)
  qed
  then have "free_set bo ?pm = (if v then insert i (free_set bo pm) else free_set bo pm - {i})"
    by (auto simp: free_set_def)
  then show thesis
    using div by (intro that [of ?pm]) (simp_all add: pm_set_def Let_def pm_len_def)
qed

lemma pm_set_range_free:
  assumes "r \<le> pm_len pm"
  obtains pm' where "pm_set_range bo pm l r v = Some pm'" and "pm_len pm' = pm_len pm"
    and "refcnt pm' = refcnt pm"
    and "free_set bo pm' = (if v then free_set bo pm \<union> {l..<r} else free_set bo pm - {l..<r})"
  using assms
proof (induction "r - l" arbitrary: l pm thesis)
  case 0
  then show ?case by (simp add: pm_set_range.simps [of bo pm l])
next
  case (Suc n)
  from Suc.hyps(2) Suc.prems(2) have lr: "l < r" and ll: "l < pm_len pm" by auto
  from pm_set_free [OF ll, of v] obtain pm1 where pm1: "pm_set bo pm l v = Some pm1"
    "pm_len pm1 = pm_len pm" "refcnt pm1 = refcnt pm"
    "free_set bo pm1 = (if v then insert l (free_set bo pm) else free_set bo pm - {l})" by blast
  have "n = r - (l + 1)" and "r \<le> pm_len pm1" using Suc pm1 by auto
  then obtain pm2 where pm2: "pm_set_range bo pm1 (l + 1) r v = Some pm2"
    "pm_len pm2 = pm_len pm1" "refcnt pm2 = refcnt pm1"
    "free_set bo pm2 =
       (if v then free_set bo pm1 \<union> {l + 1..<r} else free_set bo pm1 - {l + 1..<r})"
    using Suc.hyps(1) by blast
  have "{l..<r} = insert l {l + 1..<r}" using lr by auto
  then show ?case
    using pm1 pm2 lr by (intro Suc.prems(1) [of pm2]) (auto simp: pm_set_range.simps [of bo pm l])
qed

lemma free_set_new: "free_set bo (pm_new b r) = {}"
  by (auto simp: free_set_def free_page_def pm_new_def pm_len_def get_zero less_mult_imp_div_less)

lemma free_set_less: "i \<in> free_set bo pm \<Longrightarrow> i < pm_len pm"
  by (simp add: free_set_def free_page_def)

end

lemma pm_len_new [simp]: "pm_len (pm_new b r) = length b * 64"
  by (simp add: pm_new_def pm_len_def)

interpretation word_bits: bit_field word_bits
  by unfold_locales (auto simp: word_bits_def bit_simps)

lemma pm_incref_getref:
  assumes "pm_incref pm i = Some pm'"
  shows "bmp pm' = bmp pm" and "length (refcnt pm') = length (refcnt pm)"
    and "pm_getref pm' j =
      (if j = i then map_option (\<lambda>c. c + 1) (pm_getref pm j) else pm_getref pm j)"
  using assms
  by (auto simp: pm_incref_def pm_getref_def nth_opt_def split: if_splits bind_splits)

lemma pm_decref_getref:
  assumes "pm_decref pm i = Some pm'"
  shows "bmp pm' = bmp pm" and "length (refcnt pm') = length (refcnt pm)"
    and "pm_getref pm' j =
      (if j = i then map_option (\<lambda>c. c - 1) (pm_getref pm j) else pm_getref pm j)"
  using assms
  by (auto simp: pm_decref_def pm_getref_def nth_opt_def split: if_splits bind_splits)

lemma pm_incref_free: "pm_incref pm i = Some pm' \<Longrightarrow> free_set bo pm' = free_set bo pm"
  by (simp add: pm_incref_getref(1) free_set_def free_page_def pm_len_def)

lemma pm_decref_free: "pm_decref pm i = Some pm' \<Longrightarrow> free_set bo pm' = free_set bo pm"
  by (simp add: pm_decref_getref(1) free_set_def free_page_def pm_len_def)

text \<open>Taking a reference and dropping it gives the page manager back.\<close>

lemma pm_incref_decref: "pm_incref pm i = Some pm' \<Longrightarrow> pm_decref pm' i = Some pm"
proof -
  assume a: "pm_incref pm i = Some pm'"
  then have "i < length (refcnt pm)" and c: "refcnt pm ! i \<noteq> 255"
    and pm': "pm' = pm\<lparr>refcnt := (refcnt pm)[i := refcnt pm ! i + 1]\<rparr>"
    by (auto simp: pm_incref_def nth_opt_def split: if_splits)
  moreover have "refcnt pm ! i + 1 \<noteq> 0"
  proof
    assume "refcnt pm ! i + 1 = 0"
    then have "refcnt pm ! i = - 1" by (simp add: eq_neg_iff_add_eq_0)
    with c show False by simp
  qed
  ultimately show ?thesis by (simp add: pm_decref_def)
qed

end
