(* ===== verification/PageAlloc.thy ===== *)
theory PageAlloc
  imports Bitmap
begin

text \<open>
  The physical page allocator of \<^verbatim>\<open>kernel/src/mm/page_alloc.rs\<close>. Its state is the
  page manager behind \<^verbatim>\<open>ALLOCATOR_STATE\<close>; a physical address is a \<^typ>\<open>nat\<close> and a
  computation that leaves 64 bits is a panic. The boot loader's memory map is an argument of
  \<open>allocator_init\<close>, and so is its constant \<^verbatim>\<open>MEMMAP_USABLE\<close>. The locale
  \<open>page_allocator\<close> is the contract the users of physical memory rely on; it is interpreted on
  the definitions of this theory.
\<close>

section \<open>The operations\<close>

definition PAGE_SIZE :: nat where
  "PAGE_SIZE = 4096"

record memmap_entry =
  me_base :: nat
  me_length :: nat
  me_type :: nat

fun set_regions :: "bit_ops \<Rightarrow> page_man \<Rightarrow> memmap_entry list \<Rightarrow> page_man option" where
  "set_regions bo pm [] = Some pm"
| "set_regions bo pm (region # rs) =
     (let start_page = me_base region div 4096;
          end_page = start_page + me_length region div 4096 in
      do { pm' \<leftarrow> pm_set_range bo pm start_page end_page True; set_regions bo pm' rs })"

text \<open>
  \<open>mem64\<close> and \<open>mem8\<close> are the contents of physical memory, read through the direct mapping, at the
  moment the two buffers of the page manager are carved out of it.
\<close>

definition allocator_init ::
  "bit_ops \<Rightarrow> nat \<Rightarrow> (nat \<Rightarrow> u64) \<Rightarrow> (nat \<Rightarrow> u8) \<Rightarrow> memmap_entry list \<Rightarrow> page_man option" where
  "allocator_init bo MEMMAP_USABLE mem64 mem8 entries =
     (let usable_mem = filter (\<lambda>e. me_type e = MEMMAP_USABLE) entries in
      do { e \<leftarrow> (if usable_mem = [] then None else Some (last usable_mem));
           max_address \<leftarrow> checked_add (me_base e) (me_length e);
           (words, len, total) \<leftarrow> calc_size (max_address div 4096);
           region \<leftarrow> List.find (\<lambda>r. total \<le> me_length r) usable_mem;
           let bitmap_address = me_base region;
           let pm = pm_new (map (\<lambda>i. mem64 (bitmap_address + 8 * i)) [0..<words])
                           (map (\<lambda>i. mem8 (bitmap_address + words * 8 + i)) [0..<len]);
           pm1 \<leftarrow> set_regions bo pm usable_mem;
           let bitmap_start_page = bitmap_address div 4096;
           let bitmap_end_page = bitmap_start_page + div_ceil total 4096;
           pm_set_range bo pm1 bitmap_start_page bitmap_end_page False })"

function find_loop ::
  "bit_ops \<Rightarrow> page_man \<Rightarrow> nat \<Rightarrow> nat \<Rightarrow> nat \<Rightarrow> nat \<Rightarrow> nat \<Rightarrow> (page_man \<times> nat option) option" where
  "find_loop bo state cnt alignment_pages limit i current_size =
     (if i < limit then
        do { free \<leftarrow> pm_get bo state i;
             let current_size = (if free then current_size + 1 else 0);
             if current_size = cnt then
               do { d \<leftarrow> checked_sub i cnt;
                    let start = d + 1;
                    if is_multiple_of start alignment_pages then
                      do { state' \<leftarrow> pm_set_range bo state start (i + 1) False;
                           a \<leftarrow> checked_mul start PAGE_SIZE;
                           Some (state', Some a) }
                    else find_loop bo state cnt alignment_pages limit (i + 1) (current_size - 1) }
             else find_loop bo state cnt alignment_pages limit (i + 1) current_size }
      else Some (state, None))"
  by pat_completeness auto
termination
  by (relation "measure (\<lambda>(bo, state, cnt, ap, limit, i, cur). limit - i)") auto

definition find_aligned_continuous_mem ::
  "bit_ops \<Rightarrow> page_man \<Rightarrow> nat \<Rightarrow> nat \<Rightarrow> (page_man \<times> nat option) option" where
  "find_aligned_continuous_mem bo state cnt alignment =
     (if cnt = 0 \<or> \<not> is_power_of_two alignment \<or> alignment < PAGE_SIZE \<or>
         \<not> is_multiple_of alignment PAGE_SIZE
      then Some (state, None)
      else find_loop bo state cnt (alignment div PAGE_SIZE) (pm_len state) 0 0)"

definition find_continuous_mem ::
  "bit_ops \<Rightarrow> page_man \<Rightarrow> nat \<Rightarrow> (page_man \<times> nat option) option" where
  "find_continuous_mem bo state cnt = find_aligned_continuous_mem bo state cnt PAGE_SIZE"

text \<open>The list returned with the new state holds the pages a double-free warning is printed for.\<close>

function dealloc_loop ::
  "bit_ops \<Rightarrow> page_man \<Rightarrow> nat \<Rightarrow> nat \<Rightarrow> (page_man \<times> nat list) option" where
  "dealloc_loop bo allocator index end =
     (if index < end then
        do { free \<leftarrow> pm_get bo allocator index;
             allocator' \<leftarrow> pm_set bo allocator index True;
             (allocator'', warnings) \<leftarrow> dealloc_loop bo allocator' (index + 1) end;
             Some (allocator'', if free then index * PAGE_SIZE # warnings else warnings) }
      else Some (allocator, []))"
  by pat_completeness auto
termination
  by (relation "measure (\<lambda>(bo, allocator, index, end). end - index)") auto

definition dealloc_continuous_mem ::
  "bit_ops \<Rightarrow> page_man \<Rightarrow> nat \<Rightarrow> nat \<Rightarrow> (page_man \<times> nat list) option" where
  "dealloc_continuous_mem bo allocator addr cnt =
     (if cnt = 0 \<or> \<not> is_multiple_of addr PAGE_SIZE then Some (allocator, [])
      else let start = addr div PAGE_SIZE in
        dealloc_loop bo allocator start (min (saturating_add start cnt) (pm_len allocator)))"

function alloc_page_loop ::
  "bit_ops \<Rightarrow> page_man \<Rightarrow> nat \<Rightarrow> (page_man \<times> nat option) option" where
  "alloc_page_loop bo state i =
     (if i < pm_len state then
        do { free \<leftarrow> pm_get bo state i;
             if free then
               do { state' \<leftarrow> pm_set bo state i False;
                    a \<leftarrow> checked_mul i PAGE_SIZE;
                    Some (state', Some a) }
             else alloc_page_loop bo state (i + 1) }
      else Some (state, None))"
  by pat_completeness auto
termination
  by (relation "measure (\<lambda>(bo, state, i). pm_len state - i)") auto

definition alloc_physical_page :: "bit_ops \<Rightarrow> page_man \<Rightarrow> (page_man \<times> nat option) option" where
  "alloc_physical_page bo state = alloc_page_loop bo state 0"

definition dealloc_physical_page ::
  "bit_ops \<Rightarrow> page_man \<Rightarrow> nat \<Rightarrow> (page_man \<times> nat list) option" where
  "dealloc_physical_page bo alc addr =
     (let index = addr div PAGE_SIZE in
      do { free \<leftarrow> pm_get bo alc index;
           alc' \<leftarrow> pm_set bo alc index True;
           Some (alc', if free then [addr] else []) })"

definition page_incref :: "page_man \<Rightarrow> nat \<Rightarrow> page_man option" where
  "page_incref alc addr = pm_incref alc (addr div 4096)"

definition page_decref :: "page_man \<Rightarrow> nat \<Rightarrow> page_man option" where
  "page_decref alc addr = pm_decref alc (addr div 4096)"

definition page_getref :: "page_man \<Rightarrow> nat \<Rightarrow> u8 option" where
  "page_getref alc addr = pm_getref alc (addr div 4096)"

text \<open>The frame allocator unwraps, so that running out of memory is a panic.\<close>

definition allocate_frame :: "bit_ops \<Rightarrow> page_man \<Rightarrow> (page_man \<times> nat) option" where
  "allocate_frame bo alc =
     do { (alc', r) \<leftarrow> alloc_physical_page bo alc; a \<leftarrow> r; Some (alc', a) }"

definition deallocate_frame :: "bit_ops \<Rightarrow> page_man \<Rightarrow> nat \<Rightarrow> (page_man \<times> nat list) option" where
  "deallocate_frame bo alc frame = dealloc_physical_page bo alc frame"

definition within_stack_range :: "u64 \<Rightarrow> bool" where
  "within_stack_range ua =
     (let STACK_BEGIN = push_bit 47 1; STACK_END = STACK_BEGIN - push_bit 23 1 in
      STACK_END \<le> ua \<and> ua < STACK_BEGIN)"

definition is_write_protection_fault :: "u64 \<Rightarrow> bool" where
  "is_write_protection_fault code = (let both = 1 OR 2 in code AND both = both)"

declare find_loop.simps [simp del] dealloc_loop.simps [simp del] alloc_page_loop.simps [simp del]

section \<open>Runs of free pages\<close>

text \<open>The pages of the block of \<open>cnt\<close> pages at an address.\<close>

definition pages :: "nat \<Rightarrow> nat \<Rightarrow> nat set" where
  "pages a cnt = {a div PAGE_SIZE..<a div PAGE_SIZE + cnt}"

fun run_len :: "nat set \<Rightarrow> nat \<Rightarrow> nat" where
  "run_len F 0 = 0"
| "run_len F (Suc i) = (if i \<in> F then Suc (run_len F i) else 0)"

lemma run_len_ge: "cnt \<le> run_len F i \<longleftrightarrow> cnt \<le> i \<and> {i - cnt..<i} \<subseteq> F"
proof (induction i arbitrary: cnt)
  case 0
  then show ?case by simp
next
  case (Suc i)
  show ?case
  proof (cases cnt)
    case 0
    then show ?thesis by simp
  next
    case (Suc c)
    then have "{Suc i - cnt..<Suc i} \<subseteq> F \<longleftrightarrow> i \<in> F \<and> {i - c..<i} \<subseteq> F" if "c \<le> i"
      using that by (auto simp: less_Suc_eq)
    then show ?thesis using Suc.IH [of c] Suc by auto
  qed
qed

text \<open>\<open>run_end F cnt ap j\<close>: an admissible block of \<open>cnt\<close> pages ends with page \<open>j\<close>.\<close>

definition run_end :: "nat set \<Rightarrow> nat \<Rightarrow> nat \<Rightarrow> nat \<Rightarrow> bool" where
  "run_end F cnt ap j \<longleftrightarrow> cnt \<le> run_len F (Suc j) \<and> ap dvd (Suc j - cnt)"

lemma run_end_run:
  assumes "run_end F cnt ap j" and "0 < cnt"
  shows "{Suc j - cnt..<Suc j} \<subseteq> F" and "cnt \<le> Suc j" and "ap dvd (Suc j - cnt)"
  using assms by (auto simp: run_end_def run_len_ge simp del: run_len.simps)

lemma run_endI: "{s..<s + cnt} \<subseteq> F \<Longrightarrow> 0 < cnt \<Longrightarrow> ap dvd s \<Longrightarrow> run_end F cnt ap (s + cnt - 1)"
  by (simp add: run_end_def run_len_ge del: run_len.simps)

text \<open>
  The invariant of the allocator: page 0 is not free (the loader never reports it usable) and
  every managed page has an address of 64 bits.
\<close>

definition alloc_inv :: "bit_ops \<Rightarrow> page_man \<Rightarrow> bool" where
  "alloc_inv bo pm \<longleftrightarrow> 0 \<notin> free_set bo pm \<and> pm_len pm * PAGE_SIZE \<le> USIZE_LIMIT"

lemma run_len_le: "0 \<notin> F \<Longrightarrow> run_len F (Suc i) \<le> i"
  by (induction i) auto

text \<open>What one round of the search does: the end of a block is found, or the search moves on.\<close>

context bit_field
begin

lemma find_loop_step:
  assumes "i < pm_len pm" and "c = (if i \<in> free_set bo pm then cur + 1 else 0)"
  shows "find_loop bo pm cnt ap (pm_len pm) i cur =
    (if c = cnt then
       do { d \<leftarrow> checked_sub i cnt;
            if ap dvd d + 1 then
              do { state' \<leftarrow> pm_set_range bo pm (d + 1) (i + 1) False;
                   a \<leftarrow> checked_mul (d + 1) PAGE_SIZE; Some (state', Some a) }
            else find_loop bo pm cnt ap (pm_len pm) (i + 1) (c - 1) }
     else find_loop bo pm cnt ap (pm_len pm) (i + 1) c)"
  using pm_get_free [OF assms(1)]
  unfolding find_loop.simps [of bo pm cnt ap "pm_len pm" i cur] assms(2)
  by (simp add: assms(1) free_set_def Let_def is_multiple_of_dvd cong: if_cong)

lemma find_loop_hit:
  assumes inv: "alloc_inv bo pm" and i: "i < pm_len pm" and cnt: "0 < cnt"
    and cur: "cur = min (run_len (free_set bo pm) i) (cnt - 1)"
    and re: "run_end (free_set bo pm) cnt ap i"
  obtains pm' where
    "find_loop bo pm cnt ap (pm_len pm) i cur = Some (pm', Some ((Suc i - cnt) * PAGE_SIZE))"
    and "pm_len pm' = pm_len pm" and "refcnt pm' = refcnt pm"
    and "free_set bo pm' = free_set bo pm - {Suc i - cnt..<Suc i}"
proof -
  let ?F = "free_set bo pm"
  have ge: "cnt \<le> run_len ?F (Suc i)" and dvd: "ap dvd Suc i - cnt"
    using re by (simp_all add: run_end_def del: run_len.simps)
  have ci: "cnt \<le> i" using ge run_len_le [of ?F i] inv by (simp add: alloc_inv_def)
  have c: "cnt = (if i \<in> ?F then cur + 1 else 0)" using ge cur cnt by (auto split: if_splits)
  obtain pm' where pm': "pm_set_range bo pm (i - cnt + 1) (i + 1) False = Some pm'"
    "pm_len pm' = pm_len pm" "refcnt pm' = refcnt pm"
    "free_set bo pm' = ?F - {i - cnt + 1..<i + 1}"
    using pm_set_range_free [of "i + 1" pm "i - cnt + 1" False] i by auto
  have "(i - cnt + 1) * PAGE_SIZE \<le> i * PAGE_SIZE" using ci cnt by (intro mult_right_mono) auto
  also have "\<dots> < pm_len pm * PAGE_SIZE" using i by (simp add: PAGE_SIZE_def)
  finally have lt: "(i - cnt + 1) * PAGE_SIZE < USIZE_LIMIT"
    using inv by (simp add: alloc_inv_def)
  have s: "Suc i - cnt = i - cnt + 1" using ci by simp
  show thesis
    using find_loop_step [OF i c, of cnt ap] pm' lt dvd ci
    by (intro that [of pm']) (simp_all add: s checked_sub_def checked_mul_def)
qed

lemma find_loop_miss:
  assumes inv: "alloc_inv bo pm" and i: "i < pm_len pm" and cnt: "0 < cnt"
    and cur: "cur = min (run_len (free_set bo pm) i) (cnt - 1)"
    and re: "\<not> run_end (free_set bo pm) cnt ap i"
  shows "find_loop bo pm cnt ap (pm_len pm) i cur = find_loop bo pm cnt ap (pm_len pm) (i + 1)
      (min (run_len (free_set bo pm) (i + 1)) (cnt - 1))"
proof -
  let ?F = "free_set bo pm"
  define c where "c = (if i \<in> ?F then cur + 1 else 0)"
  have c: "c = min (run_len ?F (Suc i)) cnt" using cur cnt by (auto simp: c_def)
  show ?thesis
  proof (cases "c = cnt")
    case True
    then have ge: "cnt \<le> run_len ?F (Suc i)" using c by simp
    then have "\<not> ap dvd (Suc i - cnt)" using re by (simp add: run_end_def del: run_len.simps)
    moreover have "cnt \<le> i" using ge run_len_le [of ?F i] inv by (simp add: alloc_inv_def)
    ultimately show ?thesis
      using find_loop_step [OF i c_def, of cnt ap] True ge
      using cnt by (simp add: checked_sub_def Suc_diff_le min_absorb2 del: run_len.simps)
  next
    case False
    then have "min (run_len ?F (Suc i)) (cnt - 1) = c" using c cnt by linarith
    then show ?thesis using find_loop_step [OF i c_def, of cnt ap] False by simp
  qed
qed

lemma find_loop_correct:
  assumes inv: "alloc_inv bo pm" and cnt: "0 < cnt"
    and cur: "cur = min (run_len (free_set bo pm) i) (cnt - 1)"
  shows "(find_loop bo pm cnt ap (pm_len pm) i cur = Some (pm, None) \<and>
      (\<forall>j\<in>{i..<pm_len pm}. \<not> run_end (free_set bo pm) cnt ap j)) \<or>
    (\<exists>pm' j. find_loop bo pm cnt ap (pm_len pm) i cur =
        Some (pm', Some ((Suc j - cnt) * PAGE_SIZE)) \<and> i \<le> j \<and> j < pm_len pm \<and>
      run_end (free_set bo pm) cnt ap j \<and> (\<forall>k\<in>{i..<j}. \<not> run_end (free_set bo pm) cnt ap k) \<and>
      pm_len pm' = pm_len pm \<and> refcnt pm' = refcnt pm \<and>
      free_set bo pm' = free_set bo pm - {Suc j - cnt..<Suc j})"
  using cur
proof (induction "pm_len pm - i" arbitrary: i cur)
  case 0
  then show ?case by (auto simp: find_loop.simps [of bo pm])
next
  case (Suc n)
  let ?F = "free_set bo pm"
  have i: "i < pm_len pm" using Suc.hyps(2) by simp
  show ?case
  proof (cases "run_end ?F cnt ap i")
    case True
    then obtain pm' where "find_loop bo pm cnt ap (pm_len pm) i cur =
        Some (pm', Some ((Suc i - cnt) * PAGE_SIZE))" and "pm_len pm' = pm_len pm"
      and "refcnt pm' = refcnt pm" and "free_set bo pm' = ?F - {Suc i - cnt..<Suc i}"
      using find_loop_hit [OF inv i cnt Suc.prems] by blast
    with True i show ?thesis by (intro disjI2 exI [of _ pm'] exI [of _ i]) simp
  next
    case False
    have split: "(\<forall>k\<in>{i..<m}. \<not> run_end ?F cnt ap k) =
        (\<forall>k\<in>{i + 1..<m}. \<not> run_end ?F cnt ap k)" for m
      using False by (metis Suc_eq_plus1 atLeastLessThan_iff le_eq_less_or_eq Suc_leI Suc_leD)
    have "n = pm_len pm - (i + 1)" using Suc.hyps(2) by simp
    from Suc.hyps(1) [OF this refl] show ?thesis
      unfolding split find_loop_miss [OF inv i cnt Suc.prems False]
      by (elim disjE exE conjE) (auto simp del: run_len.simps)
  qed
qed

end

section \<open>The contract of the allocator\<close>

text \<open>
  What the users of physical memory rely on: an allocation takes a free, aligned block away from
  the free pages or fails and changes nothing, and it fails only when there is no such block; a
  deallocation gives exactly the managed pages of the block back.
\<close>

definition valid_request :: "nat \<Rightarrow> nat \<Rightarrow> bool" where
  "valid_request cnt al \<longleftrightarrow> 0 < cnt \<and> is_power_of_two al \<and> PAGE_SIZE dvd al"

locale page_allocator =
  fixes invar :: "'s \<Rightarrow> bool"
    and free :: "'s \<Rightarrow> nat set"
    and total :: "'s \<Rightarrow> nat"
    and alloc :: "'s \<Rightarrow> nat \<Rightarrow> nat \<Rightarrow> ('s \<times> nat option) option"
    and dealloc :: "'s \<Rightarrow> nat \<Rightarrow> nat \<Rightarrow> ('s \<times> nat list) option"
  assumes free_total: "free s \<subseteq> {..<total s}"
    and alloc_law: "invar s \<Longrightarrow>
      (alloc s cnt al = Some (s, None) \<and>
        (valid_request cnt al \<longrightarrow> (\<forall>a. al dvd a \<longrightarrow> \<not> pages a cnt \<subseteq> free s))) \<or>
      (\<exists>s' a. alloc s cnt al = Some (s', Some a) \<and> valid_request cnt al \<and> 0 < a \<and> al dvd a \<and>
        pages a cnt \<subseteq> free s \<and> free s' = free s - pages a cnt \<and> total s' = total s \<and> invar s')"
    and dealloc_law: "\<lbrakk>invar s; PAGE_SIZE dvd a; 0 < a\<rbrakk> \<Longrightarrow>
      \<exists>s' ws. dealloc s a cnt = Some (s', ws) \<and> total s' = total s \<and> invar s' \<and>
        free s' = free s \<union> (pages a cnt \<inter> {..<total s}) \<and>
        (ws = [] \<longleftrightarrow> pages a cnt \<inter> free s = {})"
begin

lemma alloc_SomeE:
  assumes "invar s" and "alloc s cnt al = Some (s', Some a)"
  obtains "valid_request cnt al" and "0 < a" and "al dvd a" and "PAGE_SIZE dvd a"
    and "pages a cnt \<subseteq> free s" and "free s' = free s - pages a cnt" and "total s' = total s"
    and "invar s'"
  using alloc_law [OF assms(1), of cnt al] assms(2)
  by (auto simp: valid_request_def dest: dvd_trans)

lemma alloc_NoneD: "\<lbrakk>invar s; alloc s cnt al = Some (s', None)\<rbrakk> \<Longrightarrow> s' = s"
  using alloc_law [of s cnt al] by auto

lemma alloc_total: "invar s \<Longrightarrow> \<exists>s' r. alloc s cnt al = Some (s', r)"
  using alloc_law [of s cnt al] by auto

text \<open>A block that was allocated and is given back restores the set of free pages, silently.\<close>

lemma alloc_dealloc:
  assumes "invar s" and "alloc s cnt al = Some (s1, Some a)"
  shows "\<exists>s2. dealloc s1 a cnt = Some (s2, []) \<and> free s2 = free s \<and> invar s2"
proof -
  from assms have a: "0 < a" "PAGE_SIZE dvd a" "pages a cnt \<subseteq> free s"
    "free s1 = free s - pages a cnt" "total s1 = total s" "invar s1"
    by (auto elim: alloc_SomeE)
  from dealloc_law [OF a(6,2,1), of cnt] obtain s2 ws where
    s2: "dealloc s1 a cnt = Some (s2, ws)" "invar s2"
    "free s2 = free s1 \<union> (pages a cnt \<inter> {..<total s1})"
    "ws = [] \<longleftrightarrow> pages a cnt \<inter> free s1 = {}" by auto
  moreover have "ws = []" using s2(4) a(4) by auto
  moreover have "free s2 = free s" using s2(3) a(3-5) free_total [of s] by auto
  ultimately show ?thesis by auto
qed

text \<open>Two blocks that are live at the same time have no page in common.\<close>

lemma alloc_disjoint:
  assumes "invar s" and "alloc s cnt al = Some (s1, Some a)"
    and "alloc s1 cnt' al' = Some (s2, Some a')"
  shows "pages a cnt \<inter> pages a' cnt' = {}"
proof -
  from assms(1,2) have "invar s1" and "free s1 = free s - pages a cnt" by (auto elim: alloc_SomeE)
  moreover from this(1) assms(3) have "pages a' cnt' \<subseteq> free s1" by (auto elim: alloc_SomeE)
  ultimately show ?thesis by blast
qed

end

section \<open>The kernel's allocator keeps the contract\<close>

lemma PAGE_SIZE_pos [simp]: "0 < PAGE_SIZE"
  by (simp add: PAGE_SIZE_def)

lemma pages_mult [simp]: "pages (s * PAGE_SIZE) cnt = {s..<s + cnt}"
  by (simp add: pages_def PAGE_SIZE_def)

context bit_field
begin

lemma find_aligned_correct:
  assumes inv: "alloc_inv bo pm" and al: "is_power_of_two al" "PAGE_SIZE dvd al" and cnt: "0 < cnt"
  shows "(find_aligned_continuous_mem bo pm cnt al = Some (pm, None) \<and>
      (\<forall>a. al dvd a \<longrightarrow> \<not> pages a cnt \<subseteq> free_set bo pm)) \<or>
    (\<exists>pm' a. find_aligned_continuous_mem bo pm cnt al = Some (pm', Some a) \<and> 0 < a \<and> al dvd a \<and>
      pages a cnt \<subseteq> free_set bo pm \<and> free_set bo pm' = free_set bo pm - pages a cnt \<and>
      (\<forall>a'<a. al dvd a' \<longrightarrow> \<not> pages a' cnt \<subseteq> free_set bo pm) \<and>
      pm_len pm' = pm_len pm \<and> refcnt pm' = refcnt pm)"
proof -
  let ?F = "free_set bo pm" and ?ap = "al div PAGE_SIZE"
  have al0: "0 < al" using al(1) by (rule is_power_of_two_pos)
  have alap: "al = ?ap * PAGE_SIZE" using al(2) by simp
  have eq: "find_aligned_continuous_mem bo pm cnt al = find_loop bo pm cnt ?ap (pm_len pm) 0 0"
    using al cnt al0 by (auto simp: find_aligned_continuous_mem_def is_multiple_of_dvd dest: dvd_imp_le)
  have blk: "\<exists>s. a = s * PAGE_SIZE \<and> run_end ?F cnt ?ap (s + cnt - 1) \<and> s + cnt - 1 < pm_len pm"
    if a: "al dvd a" "pages a cnt \<subseteq> ?F" for a
  proof -
    obtain q where "a = (?ap * q) * PAGE_SIZE" using a(1) alap by (metis dvdE mult.assoc mult.commute)
    moreover have "{?ap * q..<?ap * q + cnt} \<subseteq> ?F" using a(2) calculation by simp
    moreover have "?ap * q + cnt - 1 \<in> ?F" using cnt calculation(2) by auto
    ultimately show ?thesis using cnt free_set_less
      by (intro exI [of _ "?ap * q"]) (auto intro: run_endI [simplified])
  qed
  have "0 = min (run_len ?F 0) (cnt - 1)" by simp
  from find_loop_correct [OF inv cnt this, of ?ap] show ?thesis unfolding eq
  proof (elim disjE exE conjE, goal_cases)
    case 1
    then show ?case using blk by fastforce
  next
    case (2 pm' j)
    define s where "s = Suc j - cnt"
    have s: "{s..<Suc j} \<subseteq> ?F" "cnt \<le> Suc j" "?ap dvd s" "Suc j = s + cnt"
      using run_end_run [OF 2(4) cnt] by (auto simp: s_def)
    have "s \<in> ?F" using s(1,4) cnt by auto
    then have "s \<noteq> 0" using inv by (metis alloc_inv_def)
    moreover have "\<not> pages a' cnt \<subseteq> ?F" if lt: "a' < s * PAGE_SIZE" and "al dvd a'" for a'
    proof
      assume "pages a' cnt \<subseteq> ?F"
      with blk [OF \<open>al dvd a'\<close>] obtain t where t: "a' = t * PAGE_SIZE"
        "run_end ?F cnt ?ap (t + cnt - 1)" by auto
      then have "t + cnt - 1 < j" using lt s(4) cnt by auto
      with 2(5) t show False by auto
    qed
    moreover have "al dvd s * PAGE_SIZE" using s(3) alap by (metis dvd_refl mult_dvd_mono)
    ultimately show ?case using 2 s
      by (intro disjI2 exI [of _ pm'] exI [of _ "s * PAGE_SIZE"])
        (simp add: s_def [symmetric])
  qed
qed

end

context bit_field
begin

lemma find_aligned_invalid:
  "\<not> valid_request cnt al \<Longrightarrow> find_aligned_continuous_mem bo pm cnt al = Some (pm, None)"
  by (auto simp: valid_request_def find_aligned_continuous_mem_def is_multiple_of_dvd)

lemma dealloc_loop_correct:
  assumes "end \<le> pm_len pm"
  shows "\<exists>pm' ws. dealloc_loop bo pm i end = Some (pm', ws) \<and> pm_len pm' = pm_len pm \<and>
    refcnt pm' = refcnt pm \<and> free_set bo pm' = free_set bo pm \<union> {i..<end} \<and>
    ws = map (\<lambda>k. k * PAGE_SIZE) (filter (\<lambda>k. k \<in> free_set bo pm) [i..<end])"
  using assms
proof (induction "end - i" arbitrary: i pm)
  case 0
  then show ?case by (simp add: dealloc_loop.simps [of bo pm i])
next
  case (Suc n)
  then have i: "i < pm_len pm" and lt: "i < end" by auto
  from pm_set_free [OF i, of True] obtain pm1 where pm1: "pm_set bo pm i True = Some pm1"
    "pm_len pm1 = pm_len pm" "refcnt pm1 = refcnt pm"
    "free_set bo pm1 = insert i (free_set bo pm)" by auto
  have "n = end - (i + 1)" and "end \<le> pm_len pm1" using Suc pm1 by auto
  from Suc.hyps(1) [OF this] obtain pm2 where pm2: "dealloc_loop bo pm1 (i + 1) end = Some (pm2,
      map (\<lambda>k. k * PAGE_SIZE) (filter (\<lambda>k. k \<in> free_set bo pm1) [i + 1..<end]))"
    "pm_len pm2 = pm_len pm1" "refcnt pm2 = refcnt pm1"
    "free_set bo pm2 = free_set bo pm1 \<union> {i + 1..<end}" by auto
  have "filter (\<lambda>k. k \<in> free_set bo pm1) [i + 1..<end] =
      filter (\<lambda>k. k \<in> free_set bo pm) [i + 1..<end]"
    using pm1(4) by (intro filter_cong) auto
  moreover have "[i..<end] = i # [i + 1..<end]" and "{i..<end} = insert i {i + 1..<end}"
    using lt by (auto simp: upt_conv_Cons)
  moreover have "pm_get bo pm i = Some (i \<in> free_set bo pm)"
    using pm_get_free [OF i] by (simp add: free_set_def)
  ultimately show ?case
    using pm1 pm2 lt by (auto simp: dealloc_loop.simps [of bo pm i])
qed

lemma dealloc_continuous_correct:
  assumes "alloc_inv bo pm" and "PAGE_SIZE dvd a"
  shows "\<exists>pm' ws. dealloc_continuous_mem bo pm a cnt = Some (pm', ws) \<and> pm_len pm' = pm_len pm \<and>
    refcnt pm' = refcnt pm \<and> free_set bo pm' = free_set bo pm \<union> (pages a cnt \<inter> {..<pm_len pm}) \<and>
    (ws = [] \<longleftrightarrow> pages a cnt \<inter> free_set bo pm = {})"
proof (cases "cnt = 0")
  case True
  then show ?thesis by (simp add: dealloc_continuous_mem_def pages_def)
next
  case False
  let ?s = "a div PAGE_SIZE"
  have "pm_len pm < USIZE_LIMIT - 1"
    using assms(1) by (simp add: alloc_inv_def PAGE_SIZE_def)
  then have e: "min (saturating_add ?s cnt) (pm_len pm) = min (?s + cnt) (pm_len pm)"
    by (simp add: saturating_add_def)
  have set: "{?s..<min (?s + cnt) (pm_len pm)} = pages a cnt \<inter> {..<pm_len pm}"
    by (auto simp: pages_def)
  have "filter (\<lambda>k. k \<in> free_set bo pm) [?s..<min (?s + cnt) (pm_len pm)] = [] \<longleftrightarrow>
      pages a cnt \<inter> free_set bo pm = {}"
    unfolding filter_empty_conv set_upt set using free_set_less by blast
  with dealloc_loop_correct [of "min (?s + cnt) (pm_len pm)" pm ?s] show ?thesis
    using False assms(2) unfolding set
    by (auto simp: dealloc_continuous_mem_def is_multiple_of_dvd e Let_def)
qed

lemma alloc_page_loop_correct:
  assumes "alloc_inv bo pm"
  shows "(alloc_page_loop bo pm i = Some (pm, None) \<and> (\<forall>k\<ge>i. k \<notin> free_set bo pm)) \<or>
    (\<exists>pm' k. alloc_page_loop bo pm i = Some (pm', Some (k * PAGE_SIZE)) \<and> i \<le> k \<and>
      k \<in> free_set bo pm \<and> (\<forall>m\<in>{i..<k}. m \<notin> free_set bo pm) \<and> pm_len pm' = pm_len pm \<and>
      refcnt pm' = refcnt pm \<and> free_set bo pm' = free_set bo pm - {k})"
proof (induction "pm_len pm - i" arbitrary: i)
  case 0
  then show ?case using free_set_less by (force simp: alloc_page_loop.simps [of bo pm])
next
  case (Suc n)
  then have i: "i < pm_len pm" and n: "n = pm_len pm - (i + 1)" by auto
  have get: "pm_get bo pm i = Some (i \<in> free_set bo pm)"
    using pm_get_free [OF i] by (simp add: free_set_def)
  show ?case
  proof (cases "i \<in> free_set bo pm")
    case True
    from pm_set_free [OF i, of False] obtain pm1 where "pm_set bo pm i False = Some pm1"
      "pm_len pm1 = pm_len pm" "refcnt pm1 = refcnt pm" "free_set bo pm1 = free_set bo pm - {i}"
      by auto
    moreover have "i * PAGE_SIZE < USIZE_LIMIT"
      using i assms unfolding alloc_inv_def PAGE_SIZE_def by linarith
    ultimately show ?thesis
      using True i get
      by (intro disjI2 exI [of _ pm1] exI [of _ i])
        (simp add: alloc_page_loop.simps [of bo pm i] checked_mul_def)
  next
    case False
    have "alloc_page_loop bo pm i = alloc_page_loop bo pm (i + 1)"
      using False i get by (simp add: alloc_page_loop.simps [of bo pm i])
    moreover have "(\<forall>m\<in>{i..<k}. m \<notin> free_set bo pm) = (\<forall>m\<in>{i + 1..<k}. m \<notin> free_set bo pm)"
      and "(\<forall>m\<ge>i. m \<notin> free_set bo pm) = (\<forall>m\<ge>i + 1. m \<notin> free_set bo pm)" for k
      using False by (metis Suc_eq_plus1 atLeastLessThan_iff le_eq_less_or_eq Suc_leI Suc_leD)+
    ultimately show ?thesis
      using Suc.hyps(1) [OF n] by (elim disjE exE conjE) auto
  qed
qed

end

sublocale bit_field \<subseteq> kernel: page_allocator "alloc_inv bo" "free_set bo" pm_len
  "find_aligned_continuous_mem bo" "dealloc_continuous_mem bo"
proof
  show "free_set bo s \<subseteq> {..<pm_len s}" for s using free_set_less by auto
next
  fix s cnt al
  assume inv: "alloc_inv bo s"
  show "(find_aligned_continuous_mem bo s cnt al = Some (s, None) \<and>
      (valid_request cnt al \<longrightarrow> (\<forall>a. al dvd a \<longrightarrow> \<not> pages a cnt \<subseteq> free_set bo s))) \<or>
    (\<exists>s' a. find_aligned_continuous_mem bo s cnt al = Some (s', Some a) \<and> valid_request cnt al \<and>
      0 < a \<and> al dvd a \<and> pages a cnt \<subseteq> free_set bo s \<and>
      free_set bo s' = free_set bo s - pages a cnt \<and> pm_len s' = pm_len s \<and> alloc_inv bo s')"
  proof (cases "valid_request cnt al")
    case True
    then have "is_power_of_two al" "PAGE_SIZE dvd al" "0 < cnt" by (simp_all add: valid_request_def)
    from find_aligned_correct [OF inv this] True inv show ?thesis
      by (elim disjE exE conjE) (auto simp: alloc_inv_def)
  next
    case False
    then show ?thesis using find_aligned_invalid by simp
  qed
next
  fix s a cnt
  assume inv: "alloc_inv bo s" and a: "PAGE_SIZE dvd a" and pos: "0 < a"
  have "0 \<notin> pages a cnt" using a pos by (auto simp: pages_def elim!: dvdE)
  with inv dealloc_continuous_correct [OF inv a, of cnt]
  show "\<exists>s' ws. dealloc_continuous_mem bo s a cnt = Some (s', ws) \<and> pm_len s' = pm_len s \<and>
      alloc_inv bo s' \<and> free_set bo s' = free_set bo s \<union> (pages a cnt \<inter> {..<pm_len s}) \<and>
      (ws = [] \<longleftrightarrow> pages a cnt \<inter> free_set bo s = {})"
    by (auto simp: alloc_inv_def)
qed

context bit_field
begin

lemmas kernel_allocator = kernel.page_allocator_axioms
lemmas kernel_alloc_dealloc = kernel.alloc_dealloc
lemmas kernel_alloc_disjoint = kernel.alloc_disjoint

end

section \<open>Start-up\<close>

definition usable_pages :: "memmap_entry list \<Rightarrow> nat set" where
  "usable_pages es = (\<Union>e\<in>set es. pages (me_base e) (me_length e div 4096))"

text \<open>
  What the boot protocol promises of the usable entries: they are page aligned, sorted and
  disjoint, they do not wrap, and page 0 is not among them.
\<close>

definition memmap_ok :: "memmap_entry list \<Rightarrow> bool" where
  "memmap_ok es \<longleftrightarrow> es \<noteq> [] \<and>
     (\<forall>e\<in>set es. 0 < me_base e \<and> PAGE_SIZE dvd me_base e \<and> PAGE_SIZE dvd me_length e \<and>
        me_base e + me_length e < USIZE_LIMIT) \<and>
     sorted_wrt (\<lambda>e f. me_base e + me_length e \<le> me_base f) es"

definition managed_pages :: "memmap_entry list \<Rightarrow> nat" where
  "managed_pages es = (me_base (last es) + me_length (last es)) div 4096"

definition bitmap_bytes :: "memmap_entry list \<Rightarrow> nat" where
  "bitmap_bytes es = div_ceil (managed_pages es) 64 * 8 + managed_pages es"

lemma sorted_wrt_last:
  assumes "sorted_wrt R xs" and "x \<in> set xs"
  shows "x = last xs \<or> R x (last xs)"
proof -
  obtain ys where xs: "xs = ys @ [last xs]" using assms(2) by (metis append_butlast_last_id empty_iff empty_set)
  have "x \<in> set ys \<or> x = last xs" using assms(2) xs by (metis Un_iff empty_iff insert_iff list.set set_append)
  moreover have "R x (last xs)" if "x \<in> set ys"
    using assms(1) that xs by (metis sorted_wrt_append list.set_intros(1))
  ultimately show ?thesis by blast
qed

lemma memmap_end:
  assumes "memmap_ok es" and "e \<in> set es"
  shows "me_base e div 4096 + me_length e div 4096 \<le> managed_pages es"
proof -
  have "me_base e + me_length e \<le> me_base (last es) + me_length (last es)"
    using assms sorted_wrt_last [of "\<lambda>e f. me_base e + me_length e \<le> me_base f" es e]
    by (auto simp: memmap_ok_def)
  then have "(me_base e + me_length e) div 4096 \<le> managed_pages es"
    by (simp add: managed_pages_def div_le_mono)
  moreover have "(me_base e + me_length e) div 4096 = me_base e div 4096 + me_length e div 4096"
    using assms by (intro div_plus_div_distrib_dvd_left) (auto simp: memmap_ok_def PAGE_SIZE_def)
  ultimately show ?thesis by simp
qed

context bit_field
begin

lemma set_regions_free:
  assumes "\<And>e. e \<in> set es \<Longrightarrow> me_base e div 4096 + me_length e div 4096 \<le> pm_len pm"
  shows "\<exists>pm'. set_regions bo pm es = Some pm' \<and> pm_len pm' = pm_len pm \<and>
    refcnt pm' = refcnt pm \<and> free_set bo pm' = free_set bo pm \<union> usable_pages es"
  using assms
proof (induction es arbitrary: pm)
  case Nil
  then show ?case by (simp add: usable_pages_def)
next
  case (Cons e es)
  have "me_base e div 4096 + me_length e div 4096 \<le> pm_len pm" using Cons.prems by simp
  from pm_set_range_free [OF this, of "me_base e div 4096" True] obtain pm1 where
    pm1: "pm_set_range bo pm (me_base e div 4096) (me_base e div 4096 + me_length e div 4096) True
      = Some pm1" "pm_len pm1 = pm_len pm" "refcnt pm1 = refcnt pm"
    "free_set bo pm1 = free_set bo pm \<union> pages (me_base e) (me_length e div 4096)"
    by (auto simp: pages_def PAGE_SIZE_def)
  from Cons.IH [of pm1] Cons.prems pm1 show ?case
    by (auto simp: Let_def usable_pages_def)
qed

lemma allocator_init_correct:
  assumes ok: "memmap_ok us" and us: "us = filter (\<lambda>e. me_type e = usable) entries"
    and room: "r \<in> set us" "bitmap_bytes us \<le> me_length r"
  shows "\<exists>pm region. allocator_init bo usable mem64 mem8 entries = Some pm \<and> region \<in> set us \<and>
    bitmap_bytes us \<le> me_length region \<and> alloc_inv bo pm \<and>
    free_set bo pm = usable_pages us - pages (me_base region) (div_ceil (bitmap_bytes us) 4096) \<and>
    length (refcnt pm) = managed_pages us \<and> set (refcnt pm) \<subseteq> {0}"
proof -
  let ?m = "managed_pages us" and ?w = "div_ceil (managed_pages us) 64"
  obtain region where find: "List.find (\<lambda>r. bitmap_bytes us \<le> me_length r) us = Some region"
    using room by (cases "List.find (\<lambda>r. bitmap_bytes us \<le> me_length r) us") (auto simp: find_None_iff)
  then have reg: "region \<in> set us" "bitmap_bytes us \<le> me_length region"
    by (auto simp: find_Some_iff)
  have top: "me_base (last us) + me_length (last us) < USIZE_LIMIT" using ok by (auto simp: memmap_ok_def)
  then have m: "?m < 2 ^ 52" by (simp add: managed_pages_def)
  have "?w \<le> div_ceil (2 ^ 52) 64" using m by (intro div_ceil_mono) auto
  also have "\<dots> = 2 ^ 46" by (simp add: div_ceil_def)
  finally have w: "?w * 64 \<le> 2 ^ 52" "?m \<le> ?w * 64"
    using div_ceil_bounds [of 64 ?m] by simp_all
  define pm0 where "pm0 = pm_new (map (\<lambda>i. mem64 (me_base region + 8 * i)) [0..<?w])
      (map (\<lambda>i. mem8 (me_base region + ?w * 8 + i)) [0..<?m])"
  have len0: "pm_len pm0 = ?w * 64" by (simp add: pm0_def)
  have "me_base e div 4096 + me_length e div 4096 \<le> pm_len pm0" if "e \<in> set us" for e
    using memmap_end [OF ok that] w(2) len0 by simp
  from set_regions_free [of us, OF this] obtain pm1 where pm1:
    "set_regions bo pm0 us = Some pm1" "pm_len pm1 = pm_len pm0" "refcnt pm1 = refcnt pm0"
    "free_set bo pm1 = usable_pages us" using free_set_new by (auto simp: pm0_def)
  have "div_ceil (bitmap_bytes us) 4096 \<le> div_ceil (me_length region) 4096"
    using reg by (intro div_ceil_mono) auto
  also have "\<dots> = me_length region div 4096"
    using ok reg by (auto simp: memmap_ok_def div_ceil_def PAGE_SIZE_def)
  finally have "me_base region div 4096 + div_ceil (bitmap_bytes us) 4096 \<le> pm_len pm1"
    using memmap_end [OF ok reg(1)] w(2) pm1(2) len0 by simp
  from pm_set_range_free [OF this, of "me_base region div 4096" False] obtain pm2 where pm2:
    "pm_set_range bo pm1 (me_base region div 4096)
      (me_base region div 4096 + div_ceil (bitmap_bytes us) 4096) False = Some pm2"
    "pm_len pm2 = pm_len pm1" "refcnt pm2 = refcnt pm1"
    "free_set bo pm2 = usable_pages us - pages (me_base region) (div_ceil (bitmap_bytes us) 4096)"
    using pm1(4) by (auto simp: pages_def PAGE_SIZE_def)
  have "calc_size ?m = Some (?w, ?m, bitmap_bytes us)"
    using m w by (simp add: calc_size_def checked_mul_def checked_add_def bitmap_bytes_def Let_def)
  then have "allocator_init bo usable mem64 mem8 entries = Some pm2"
    using ok top find pm1(1) pm2(1)
    by (simp add: allocator_init_def us [symmetric] checked_add_def memmap_ok_def
        managed_pages_def [symmetric] pm0_def [symmetric] Let_def)
  moreover have "0 \<notin> usable_pages us"
    using ok by (auto simp: usable_pages_def pages_def memmap_ok_def elim!: dvdE)
  ultimately show ?thesis
    using reg pm2 pm1 len0 w(1)
    by (intro exI [of _ pm2] exI [of _ region])
      (auto simp: alloc_inv_def PAGE_SIZE_def pm0_def pm_new_def)
qed

end

section \<open>Properties\<close>

text \<open>A four-page machine for the witnesses: page 0 is taken and pages 1 to 3 are free.\<close>

definition small_pm :: page_man where
  "small_pm = \<lparr>bmp = [0xE], refcnt = [0, 0, 1, 0]\<rparr>"

definition small_map :: "memmap_entry list" where
  "small_map = [\<lparr>me_base = 4096, me_length = 8192, me_type = 0\<rparr>,
     \<lparr>me_base = 12288, me_length = 4096, me_type = 5\<rparr>,
     \<lparr>me_base = 16384, me_length = 4096, me_type = 0\<rparr>]"

lemma small_pm_inv: "alloc_inv word_bits small_pm"
  by (simp add: alloc_inv_def free_set_def free_page_def small_pm_def pm_len_def word_bits_def
      PAGE_SIZE_def)

text \<open>
  Property C8 (allocation). For a valid request the allocator returns, without panicking,
  the lowest aligned block of free pages, takes exactly these pages and touches no reference
  counter; when it reports failure its state is unchanged and no aligned block of free pages exists.
\<close>

theorem find_aligned_least_block:
  assumes "bit_field bo" and "alloc_inv bo pm" and "valid_request cnt al"
  shows "(find_aligned_continuous_mem bo pm cnt al = Some (pm, None) \<and>
      (\<forall>a. al dvd a \<longrightarrow> \<not> pages a cnt \<subseteq> free_set bo pm)) \<or>
    (\<exists>pm' a. find_aligned_continuous_mem bo pm cnt al = Some (pm', Some a) \<and> 0 < a \<and> al dvd a \<and>
      pages a cnt \<subseteq> free_set bo pm \<and> free_set bo pm' = free_set bo pm - pages a cnt \<and>
      (\<forall>a'<a. al dvd a' \<longrightarrow> \<not> pages a' cnt \<subseteq> free_set bo pm) \<and>
      pm_len pm' = pm_len pm \<and> refcnt pm' = refcnt pm)"
  using assms by (intro bit_field.find_aligned_correct) (simp_all add: valid_request_def)

lemma small_request: "valid_request 2 8192"
proof -
  have "is_power_of_two 8192" unfolding is_power_of_two_iff by (rule exI [of _ 13]) simp
  then show ?thesis by (simp add: valid_request_def PAGE_SIZE_def)
qed

lemmas alloc_eval = find_aligned_continuous_mem_def find_loop.simps pm_get_def pm_set_range.simps
  pm_set_def small_pm_def pm_len_def word_bits_def PAGE_SIZE_def is_multiple_of_def
  checked_sub_def checked_mul_def Let_def alloc_physical_page_def alloc_page_loop.simps
  dealloc_continuous_mem_def dealloc_loop.simps saturating_add_def

lemma small_alloc:
  "\<exists>pm'. find_aligned_continuous_mem word_bits small_pm 2 8192 = Some (pm', Some 8192)"
  using small_request by (simp add: alloc_eval valid_request_def)

theorem find_aligned_least_block_witness:
  "\<exists>pm' a. find_aligned_continuous_mem word_bits small_pm 2 8192 = Some (pm', Some a) \<and> a = 8192 \<and>
     pages a 2 \<subseteq> free_set word_bits small_pm"
proof -
  from small_alloc obtain pm' where
    e: "find_aligned_continuous_mem word_bits small_pm 2 8192 = Some (pm', Some 8192)" by blast
  have "pages 8192 2 \<subseteq> free_set word_bits small_pm"
    using find_aligned_least_block [OF word_bits.bit_field_axioms small_pm_inv small_request]
    unfolding e prod.inject option.inject by blast
  with e show ?thesis by blast
qed

text \<open>
  A block that was allocated and is given back with the same size
  leaves the set of free pages as it was, no reference counter changed and no double-free warning
  printed.
\<close>

lemma alloc_dealloc_restores:
  assumes "bit_field bo" and "alloc_inv bo pm"
    and "find_aligned_continuous_mem bo pm cnt al = Some (pm1, Some a)"
  shows "\<exists>pm2. dealloc_continuous_mem bo pm1 a cnt = Some (pm2, []) \<and>
    free_set bo pm2 = free_set bo pm \<and> alloc_inv bo pm2"
  by (rule bit_field.kernel_alloc_dealloc [OF assms])

lemma alloc_dealloc_restores_example:
  "\<exists>pm1 pm2. find_aligned_continuous_mem word_bits small_pm 2 8192 = Some (pm1, Some 8192) \<and>
     dealloc_continuous_mem word_bits pm1 8192 2 = Some (pm2, []) \<and>
     free_set word_bits pm2 = free_set word_bits small_pm"
  using small_alloc alloc_dealloc_restores [OF word_bits.bit_field_axioms small_pm_inv] by blast

text \<open>
  On a memory map that keeps the boot protocol, with one usable region
  large enough for the page manager's own tables, the allocator starts without a panic; the free
  pages are exactly the usable pages that do not hold these tables, every counter is zero and the
  allocator's invariant holds.
\<close>

lemma allocator_init_free_pages:
  assumes "bit_field bo" and "us = filter (\<lambda>e. me_type e = usable) entries" and "memmap_ok us"
    and "r \<in> set us" and "bitmap_bytes us \<le> me_length r"
  shows "\<exists>pm region. allocator_init bo usable mem64 mem8 entries = Some pm \<and> region \<in> set us \<and>
    bitmap_bytes us \<le> me_length region \<and> alloc_inv bo pm \<and>
    free_set bo pm = usable_pages us - pages (me_base region) (div_ceil (bitmap_bytes us) 4096) \<and>
    length (refcnt pm) = managed_pages us \<and> set (refcnt pm) \<subseteq> {0}"
  using bit_field.allocator_init_correct [OF assms(1,3,2,4,5)] .

lemma allocator_init_free_pages_example:
  "\<exists>pm. allocator_init word_bits 0 (\<lambda>_. 7) (\<lambda>_. 9) small_map = Some pm \<and>
     free_set word_bits pm \<subseteq> {1, 2, 4} \<and> alloc_inv word_bits pm"
proof -
  let ?us = "filter (\<lambda>e. me_type e = 0) small_map"
  have us: "?us = [\<lparr>me_base = 4096, me_length = 8192, me_type = 0\<rparr>,
      \<lparr>me_base = 16384, me_length = 4096, me_type = 0\<rparr>]"
    by (simp add: small_map_def)
  have ok: "memmap_ok ?us" unfolding us by (simp add: memmap_ok_def PAGE_SIZE_def)
  have bytes: "bitmap_bytes ?us \<le> me_length (hd ?us)" and hd: "hd ?us \<in> set ?us"
    unfolding us by (simp_all add: bitmap_bytes_def managed_pages_def div_ceil_def)
  have "usable_pages ?us \<subseteq> {1, 2, 4}"
    unfolding us by (auto simp: usable_pages_def pages_def PAGE_SIZE_def)
  with allocator_init_free_pages [OF word_bits.bit_field_axioms refl ok hd bytes, of "\<lambda>_. 7" "\<lambda>_. 9"]
  show ?thesis by blast
qed

text \<open>
  The page allocation behind demand paging, copy on write and the
  page tables takes exactly the lowest free page, and reports failure only when no page is free.
\<close>

lemma alloc_physical_page_least:
  assumes "bit_field bo" and "alloc_inv bo pm"
  shows "(alloc_physical_page bo pm = Some (pm, None) \<and> free_set bo pm = {}) \<or>
    (\<exists>pm' k. alloc_physical_page bo pm = Some (pm', Some (k * PAGE_SIZE)) \<and>
      k \<in> free_set bo pm \<and> (\<forall>m<k. m \<notin> free_set bo pm) \<and>
      free_set bo pm' = free_set bo pm - {k} \<and> refcnt pm' = refcnt pm \<and> alloc_inv bo pm')"
  using bit_field.alloc_page_loop_correct [OF assms, of 0] assms(2)
  unfolding alloc_physical_page_def
  by (elim disjE exE conjE) (auto simp: alloc_inv_def)

lemma alloc_physical_page_least_example:
  "\<exists>pm'. alloc_physical_page word_bits small_pm = Some (pm', Some 4096) \<and>
     free_set word_bits pm' = free_set word_bits small_pm - {1}"
proof -
  have "map_option snd (alloc_physical_page word_bits small_pm) = Some (Some (1 * PAGE_SIZE))"
    by (simp add: alloc_eval)
  with alloc_physical_page_least [OF word_bits.bit_field_axioms small_pm_inv] show ?thesis
    by (auto simp: PAGE_SIZE_def)
qed

end
