(* ===== verification/Dma.thy ===== *)
theory Dma
  imports PageAlloc
begin

text \<open>
  DMA buffers and MMIO ranges of \<^verbatim>\<open>kernel/src/mm/dma.rs\<close>, with the direct mapping of
  \<^verbatim>\<open>kernel/src/mm/mod.rs\<close>, and the allocator that \<^verbatim>\<open>kernel/src/blockdev/nvme.rs\<close> hands
  to the NVMe driver. The state is the page allocator together with the contents of physical memory.
  The life of several buffers is a step relation, and its invariant shows that live buffers never
  overlap each other or the free pages.
\<close>

section \<open>The operations\<close>

datatype dma_error = DmaEmpty | DmaInvalidAlignment | DmaOutOfMemory

datatype mmio_error = MmioEmpty | MmioAddressOverflow | MmioMappingMissing

record page_range =
  pr_base :: u64
  pr_pages :: nat
  pr_offset :: nat

definition page_range_new :: "u64 \<Rightarrow> nat \<Rightarrow> mmio_error + page_range" where
  "page_range_new address len =
     (if len = 0 then Inl MmioEmpty
      else
        let base = address AND NOT (of_nat PAGE_SIZE - 1);
            offset = unat (address - base) in
        case checked_add offset len of
          None \<Rightarrow> Inl MmioAddressOverflow
        | Some span \<Rightarrow>
            (case checked_add span (PAGE_SIZE - 1) of
               None \<Rightarrow> Inl MmioAddressOverflow
             | Some rounded \<Rightarrow>
                 let pages = rounded div PAGE_SIZE in
                 (case checked_add (unat base) ((pages - 1) * PAGE_SIZE) of
                    None \<Rightarrow> Inl MmioAddressOverflow
                  | Some _ \<Rightarrow> Inr \<lparr>pr_base = base, pr_pages = pages, pr_offset = offset\<rparr>)))"

record machine =
  allocator :: page_man
  ram :: "nat \<Rightarrow> u8"
  hhdm :: nat

definition phys_to_virt :: "machine \<Rightarrow> nat \<Rightarrow> nat option" where
  "phys_to_virt m addr = checked_add addr (hhdm m)"

text \<open>\<^verbatim>\<open>write_bytes\<close> of zeroes through the direct mapping.\<close>

definition zero_bytes :: "(nat \<Rightarrow> u8) \<Rightarrow> nat \<Rightarrow> nat \<Rightarrow> nat \<Rightarrow> u8" where
  "zero_bytes mem a n = (\<lambda>x. if a \<le> x \<and> x < a + n then 0 else mem x)"

record dma_buffer =
  physical_address :: nat
  virtual_address :: nat
  buf_pages :: nat
  buf_alignment :: nat

definition dma_new ::
  "bit_ops \<Rightarrow> machine \<Rightarrow> nat \<Rightarrow> nat \<Rightarrow> (machine \<times> (dma_error + dma_buffer)) option" where
  "dma_new bo m len alignment =
     (if len = 0 then Some (m, Inl DmaEmpty)
      else if \<not> is_power_of_two alignment then Some (m, Inl DmaInvalidAlignment)
      else
        let alignment = max alignment PAGE_SIZE in
        case checked_add len (PAGE_SIZE - 1) of
          None \<Rightarrow> Some (m, Inl DmaOutOfMemory)
        | Some rounded \<Rightarrow>
            let pages = rounded div PAGE_SIZE in
            do { (pm, r) \<leftarrow> find_aligned_continuous_mem bo (allocator m) pages alignment;
                 case r of
                   None \<Rightarrow> Some (m\<lparr>allocator := pm\<rparr>, Inl DmaOutOfMemory)
                 | Some pa \<Rightarrow>
                     do { va \<leftarrow> phys_to_virt m pa;
                          if va = 0 then None
                          else Some (m\<lparr>allocator := pm,
                                       ram := zero_bytes (ram m) pa (pages * PAGE_SIZE)\<rparr>,
                                     Inr \<lparr>physical_address = pa,
                                          virtual_address = va,
                                          buf_pages = pages, buf_alignment = alignment\<rparr>) } })"

definition dma_len :: "dma_buffer \<Rightarrow> nat" where
  "dma_len b = buf_pages b * PAGE_SIZE"

definition dma_drop :: "bit_ops \<Rightarrow> machine \<Rightarrow> dma_buffer \<Rightarrow> (machine \<times> nat list) option" where
  "dma_drop bo m b =
     do { (pm, warnings) \<leftarrow> dealloc_continuous_mem bo (allocator m) (physical_address b) (buf_pages b);
          Some (m\<lparr>allocator := pm\<rparr>, warnings) }"

text \<open>The kernel heap is carved out of physical memory at start-up.\<close>

definition HEAP_PAGES :: nat where
  "HEAP_PAGES = 2048"

definition mm_init ::
  "bit_ops \<Rightarrow> nat \<Rightarrow> (nat \<Rightarrow> u64) \<Rightarrow> (nat \<Rightarrow> u8) \<Rightarrow> memmap_entry list \<Rightarrow> nat \<Rightarrow> (machine \<times> nat \<times> nat) option" where
  "mm_init bo usable mem64 mem8 entries offset =
     do { pm \<leftarrow> allocator_init bo usable mem64 mem8 entries;
          (pm', r) \<leftarrow> find_continuous_mem bo pm HEAP_PAGES;
          a \<leftarrow> r;
          let m = \<lparr>allocator = pm', ram = mem8, hhdm = offset\<rparr>;
          heap \<leftarrow> phys_to_virt m a;
          Some (m, heap, 8 * 1024 * 1024) }"

text \<open>
  Mapping a device range. The page-table operations of the \<^verbatim>\<open>x86_64\<close> crate are a parameter:
  each takes a state and an address and gives its answer and the next state. The state
  \<^typ>\<open>'pt\<close> holds the page tables together with the frames they are built from, since
  \<^verbatim>\<open>map_to\<close> may take frames for new tables. The address types of the crate panic when they are made
  of an address that is not canonical, or of a physical address of more than 52 bits.
\<close>

datatype flag_update_error = ParentEntryHugePage | PageNotMapped

record 'pt mapper_ops =
  update_flags_4k :: "'pt \<Rightarrow> nat \<Rightarrow> u64 \<Rightarrow> flag_update_error option \<times> 'pt"
  update_flags_2m :: "'pt \<Rightarrow> nat \<Rightarrow> u64 \<Rightarrow> flag_update_error option \<times> 'pt"
  map_to_4k :: "'pt \<Rightarrow> nat \<Rightarrow> nat \<Rightarrow> u64 \<Rightarrow> bool \<times> 'pt"

definition canonical_address :: "nat \<Rightarrow> bool" where
  "canonical_address a \<longleftrightarrow> a < 2 ^ 47 \<or> 2 ^ 64 - 2 ^ 47 \<le> a \<and> a < 2 ^ 64"

definition MMIO_FLAGS :: u64 where
  "MMIO_FLAGS = 1 OR 2 OR 16"

definition mmio_map_page ::
  "'pt mapper_ops \<Rightarrow> 'pt \<Rightarrow> nat \<Rightarrow> nat \<Rightarrow> (bool \<times> 'pt) option" where
  "mmio_map_page mo pt virt phys =
     (if \<not> canonical_address virt then None
      else
        case update_flags_4k mo pt (virt div 4096 * 4096) MMIO_FLAGS of
          (None, pt) \<Rightarrow> Some (True, pt)
        | (Some ParentEntryHugePage, pt) \<Rightarrow>
            (let (err, pt) = update_flags_2m mo pt (virt div 2097152 * 2097152) MMIO_FLAGS in Some (err = None, pt))
        | (Some PageNotMapped, pt) \<Rightarrow>
            if phys < 2 ^ 52 then Some (map_to_4k mo pt (virt div 4096 * 4096) (phys div 4096 * 4096) MMIO_FLAGS) else None)"

function mmio_map_loop ::
  "'pt mapper_ops \<Rightarrow> nat \<Rightarrow> nat \<Rightarrow> nat \<Rightarrow> nat \<Rightarrow> 'pt \<Rightarrow> (bool \<times> 'pt) option" where
  "mmio_map_loop mo offset base range_pages page_index pt =
     (if page_index < range_pages then
        do { phys \<leftarrow> checked_add base (page_index * PAGE_SIZE);
             virt \<leftarrow> checked_add phys offset;
             (ok, pt) \<leftarrow> mmio_map_page mo pt virt phys;
             if ok then mmio_map_loop mo offset base range_pages (page_index + 1) pt else Some (False, pt) }
      else Some (True, pt))"
  by pat_completeness auto
termination
  by (relation "measure (\<lambda>(mo, offset, base, range_pages, page_index, pt). range_pages - page_index)") auto

record mmio_mapping =
  mm_physical_address :: nat
  mm_virtual_address :: nat
  mm_len :: nat
  mm_page_base :: nat
  mm_pages :: nat

definition mmio_map ::
  "'pt mapper_ops \<Rightarrow> nat \<Rightarrow> 'pt \<Rightarrow> u64 \<Rightarrow> nat \<Rightarrow> ((mmio_error + mmio_mapping) \<times> 'pt) option" where
  "mmio_map mo offset pt pa len =
     (case page_range_new pa len of
        Inl e \<Rightarrow> Some (Inl e, pt)
      | Inr rng \<Rightarrow>
          do { (ok, pt) \<leftarrow> mmio_map_loop mo offset (unat (pr_base rng)) (pr_pages rng) 0 pt;
               if \<not> ok then Some (Inl MmioMappingMissing, pt)
               else
                 do { virt \<leftarrow> checked_add (unat pa) offset;
                      if virt = 0 then None
                      else Some (Inr \<lparr>mm_physical_address = unat pa, mm_virtual_address = virt, mm_len = len,
                             mm_page_base = unat (pr_base rng), mm_pages = pr_pages rng\<rparr>, pt) } })"

text \<open>The allocator given to the NVMe driver.\<close>

definition nvme_allocate :: "bit_ops \<Rightarrow> machine \<Rightarrow> nat \<Rightarrow> (machine \<times> nat) option" where
  "nvme_allocate bo m len =
     do { (pm, r) \<leftarrow> find_continuous_mem bo (allocator m) (div_ceil len 4096);
          a \<leftarrow> r;
          res \<leftarrow> phys_to_virt m a;
          Some (m\<lparr>allocator := pm, ram := zero_bytes (ram m) a 4096\<rparr>, res) }"

definition nvme_deallocate :: "bit_ops \<Rightarrow> machine \<Rightarrow> nat \<Rightarrow> (machine \<times> nat list) option" where
  "nvme_deallocate bo m addr =
     do { off \<leftarrow> phys_to_virt m 0;
          a \<leftarrow> checked_sub addr off;
          (pm, warnings) \<leftarrow> dealloc_physical_page bo (allocator m) a;
          Some (m\<lparr>allocator := pm\<rparr>, warnings) }"

declare mmio_map_loop.simps [simp del]

section \<open>Page ranges\<close>

lemma page_mask_floor: "unat ((a :: u64) AND NOT (of_nat PAGE_SIZE - 1)) = unat a div 4096 * 4096"
proof -
  have m: "(of_nat PAGE_SIZE - 1 :: u64) = mask 12" by (simp add: PAGE_SIZE_def mask_eq_exp_minus_1)
  have "a AND NOT (mask 12) = push_bit 12 (drop_bit 12 a)"
    by (rule bit_word_eqI) (auto simp: bit_simps)
  moreover have "take_bit 64 (unat a) = unat a"
    using unat_less [of a] by (intro take_bit_nat_eq_self) simp
  ultimately have "unat (a AND NOT (mask 12)) = take_bit 64 (push_bit 12 (drop_bit 12 (unat a)))"
    by (simp add: unsigned_push_bit_eq unsigned_drop_bit_eq unat_drop_bit_eq)
  also have "push_bit 12 (drop_bit 12 (unat a)) = unat a div 4096 * 4096"
    by (simp add: push_bit_eq_mult drop_bit_eq_div)
  also have "take_bit 64 \<dots> = \<dots>"
    using unat_less [of a] by (intro take_bit_nat_eq_self) (simp add: order_le_less_trans [OF div_times_less_eq_dividend])
  finally show ?thesis by (simp add: m)
qed

lemma page_range_new_eq:
  assumes "0 < len"
  shows "page_range_new a len =
    (let off = unat a mod 4096; n = (off + len + 4095) div 4096 in
     if off + len + 4095 < USIZE_LIMIT \<and> unat a div 4096 * 4096 + (n - 1) * 4096 < USIZE_LIMIT
     then Inr \<lparr>pr_base = a AND NOT (of_nat PAGE_SIZE - 1), pr_pages = n, pr_offset = off\<rparr>
     else Inl MmioAddressOverflow)"
proof -
  have "unat (a - (a AND NOT (of_nat PAGE_SIZE - 1))) = unat a - unat a div 4096 * 4096"
    by (subst unat_sub) (simp_all only: page_mask_floor word_le_nat_alt div_times_less_eq_dividend)
  then have "unat (a - (a AND NOT (of_nat PAGE_SIZE - 1))) = unat a mod 4096"
    by (simp add: minus_div_mult_eq_mod)
  then show ?thesis
    using assms
    by (simp add: page_range_new_def page_mask_floor Let_def checked_add_def PAGE_SIZE_def [symmetric])
      (simp add: PAGE_SIZE_def)
qed

text \<open>
  A range that is accepted starts at the page of the address, its
  pages cover the bytes asked for and no page more; the range is not empty and its bytes end inside
  the 64-bit address space.
\<close>

lemma page_range_new_covers:
  assumes "page_range_new a len = Inr r"
  shows "0 < len \<and> PAGE_SIZE dvd unat (pr_base r) \<and> unat (pr_base r) + pr_offset r = unat a \<and>
    pr_offset r < PAGE_SIZE \<and> unat a + len \<le> unat (pr_base r) + pr_pages r * PAGE_SIZE \<and>
    unat (pr_base r) + (pr_pages r - 1) * PAGE_SIZE < unat a + len \<and> unat a + len \<le> USIZE_LIMIT"
proof -
  have len: "0 < len" using assms by (cases "len = 0") (auto simp: page_range_new_def)
  define off n where "off = unat a mod 4096" and "n = (off + len + 4095) div 4096"
  have lim: "unat a div 4096 * 4096 + (n - 1) * 4096 < USIZE_LIMIT"
    and r: "r = \<lparr>pr_base = a AND NOT (of_nat PAGE_SIZE - 1), pr_pages = n, pr_offset = off\<rparr>"
    using assms unfolding page_range_new_eq [OF len] off_def n_def Let_def
    by (auto split: if_splits)
  have split: "unat a div 4096 * 4096 + off = unat a" and off: "off < 4096"
    by (simp_all add: off_def)
  have "off + len \<le> n * 4096" and n: "(n - 1) * 4096 < off + len" and n0: "0 < n"
    using len unfolding n_def by linarith+
  moreover have "(unat a div 4096 + n) * 4096 \<le> 2 ^ 52 * 4096"
  proof -
    have "(unat a div 4096 + (n - 1)) * 4096 < 2 ^ 52 * 4096"
      using lim by (simp add: algebra_simps)
    then have "unat a div 4096 + (n - 1) < 2 ^ 52" unfolding mult_less_cancel2 by simp
    then have "unat a div 4096 + n \<le> 2 ^ 52" using n0 by simp
    then show ?thesis by (rule mult_right_mono) simp
  qed
  ultimately show ?thesis
    using len split off unfolding r page_range.simps page_mask_floor
    by (simp add: PAGE_SIZE_def algebra_simps)
qed

lemma page_range_new_covers_example:
  "\<exists>r. page_range_new 0x1234 4096 = Inr r \<and> pr_pages r = 2 \<and> pr_offset r = 0x234 \<and>
     unat (0x1234 :: u64) + 4096 \<le> unat (pr_base r) + pr_pages r * PAGE_SIZE"
proof -
  have "page_range_new 0x1234 4096 = Inr \<lparr>pr_base = 0x1000, pr_pages = 2, pr_offset = 0x234\<rparr>"
    by (simp add: page_range_new_eq PAGE_SIZE_def)
  note this page_range_new_covers [OF this]
  then show ?thesis by simp
qed

text \<open>
  With the direct map in the upper half and a device range that it covers, mapping does not panic, and it keeps what every
  operation of the mapper keeps.
\<close>

definition mapper_keeps :: "'pt mapper_ops \<Rightarrow> ('pt \<Rightarrow> bool) \<Rightarrow> bool" where
  "mapper_keeps mo I \<longleftrightarrow>
     (\<forall>pt a b f. I pt \<longrightarrow> I (snd (update_flags_4k mo pt a f)) \<and> I (snd (update_flags_2m mo pt a f)) \<and> I (snd (map_to_4k mo pt a b f)))"

lemma mmio_map_page_total:
  assumes "I pt" and "mapper_keeps mo I" and "2 ^ 64 - 2 ^ 47 \<le> virt" "virt < 2 ^ 64" "phys < 2 ^ 52"
  obtains ok pt' where "mmio_map_page mo pt virt phys = Some (ok, pt')" "I pt'"
proof -
  have c: "canonical_address virt" using assms(3,4) by (simp add: canonical_address_def)
  note k = assms(2) [unfolded mapper_keeps_def, rule_format, OF assms(1)]
  obtain r pt1 where u: "update_flags_4k mo pt (virt div 4096 * 4096) MMIO_FLAGS = (r, pt1)" by force
  have I1: "I pt1" using k [of "virt div 4096 * 4096" MMIO_FLAGS] u by (metis snd_conv)
  note k1 = assms(2) [unfolded mapper_keeps_def, rule_format, OF I1]
  obtain r2 pt2 where u2: "update_flags_2m mo pt1 (virt div 2097152 * 2097152) MMIO_FLAGS = (r2, pt2)" by force
  obtain r3 pt3 where u3: "map_to_4k mo pt1 (virt div 4096 * 4096) (phys div 4096 * 4096) MMIO_FLAGS = (r3, pt3)" by force
  have "I pt2" "I pt3" using k1 u2 u3 by (metis snd_conv)+
  with that c u u2 u3 I1 assms(5) show thesis
    by (cases r; cases "the r") (auto simp: mmio_map_page_def)
qed

lemma mmio_map_loop_total:
  assumes "I pt" and "mapper_keeps mo I" and "2 ^ 64 - 2 ^ 47 \<le> offset"
    and "\<And>i. i < n \<Longrightarrow> base + i * PAGE_SIZE + offset < 2 ^ 64"
  shows "\<exists>ok pt'. mmio_map_loop mo offset base n k pt = Some (ok, pt') \<and> I pt'"
  using assms
proof (induction mo offset base n k pt rule: mmio_map_loop.induct)
  case (1 mo offset base n k pt)
  show ?case
  proof (cases "k < n")
    case False
    then show ?thesis using 1(2) by (subst mmio_map_loop.simps) auto
  next
    case True
    let ?phys = "base + k * PAGE_SIZE" and ?virt = "base + k * PAGE_SIZE + offset"
    have lim: "?virt < 2 ^ 64" using 1(5) True by blast
    then have "?phys < 2 ^ 52" "2 ^ 64 - 2 ^ 47 \<le> ?virt" using 1(4) by simp_all
    then obtain ok pt' where p: "mmio_map_page mo pt ?virt ?phys = Some (ok, pt')" "I pt'"
      using mmio_map_page_total [OF 1(2,3) _ lim] by blast
    have c: "checked_add base (k * PAGE_SIZE) = Some ?phys" "checked_add ?phys offset = Some ?virt"
      using lim by (simp_all add: checked_add_def)
    show ?thesis
    proof (cases ok)
      case True
      with 1(1) [OF \<open>k < n\<close> c p(1) refl _ p(2) 1(3,4,5)] p(1) c \<open>k < n\<close> show ?thesis
        by (subst mmio_map_loop.simps) simp
    next
      case False
      with p c \<open>k < n\<close> show ?thesis by (subst mmio_map_loop.simps) auto
    qed
  qed
qed

lemma mmio_map_total:
  assumes "I pt" and "mapper_keeps mo I" and off: "2 ^ 64 - 2 ^ 47 \<le> offset" and fits: "offset + unat pa + len \<le> 2 ^ 64"
  shows "\<exists>r pt'. mmio_map mo offset pt pa len = Some (r, pt') \<and> I pt'"
proof (cases "page_range_new pa len")
  case (Inl err)
  then show ?thesis using assms(1) by (simp add: mmio_map_def)
next
  case (Inr r)
  note c = page_range_new_covers [OF Inr]
  have "unat (pr_base r) + i * PAGE_SIZE + offset < 2 ^ 64" if "i < pr_pages r" for i
  proof -
    have "i * PAGE_SIZE \<le> (pr_pages r - 1) * PAGE_SIZE" using that by (intro mult_le_mono1) simp
    moreover have "unat (pr_base r) + (pr_pages r - 1) * PAGE_SIZE < unat pa + len" using c by blast
    ultimately show ?thesis using fits by linarith
  qed
  from mmio_map_loop_total [OF assms(1,2) off this] obtain ok pt' where
    l: "mmio_map_loop mo offset (unat (pr_base r)) (pr_pages r) 0 pt = Some (ok, pt')" "I pt'" by blast
  have "checked_add (unat pa) offset = Some (unat pa + offset)" "unat pa + offset \<noteq> 0"
    using c fits off by (simp_all add: checked_add_def)
  with l show ?thesis by (auto simp: mmio_map_def Inr)
qed

section \<open>The life of DMA buffers\<close>

text \<open>The pages of a buffer, and what is true of every buffer that was handed out.\<close>

definition buffer_pages :: "dma_buffer \<Rightarrow> nat set" where
  "buffer_pages b = pages (physical_address b) (buf_pages b)"

definition buffer_ok :: "dma_buffer \<Rightarrow> bool" where
  "buffer_ok b \<longleftrightarrow> 0 < physical_address b \<and> PAGE_SIZE dvd physical_address b \<and>
     buf_alignment b dvd physical_address b \<and> 0 < buf_pages b"

text \<open>The direct mapping of every managed page has an address of 64 bits.\<close>

definition machine_ok :: "bit_ops \<Rightarrow> machine \<Rightarrow> bool" where
  "machine_ok bo m \<longleftrightarrow> alloc_inv bo (allocator m) \<and>
     pm_len (allocator m) * PAGE_SIZE + hhdm m \<le> USIZE_LIMIT"

lemma max_power_of_two: "is_power_of_two a \<Longrightarrow> is_power_of_two (max a PAGE_SIZE)"
  and max_page_dvd: "is_power_of_two a \<Longrightarrow> PAGE_SIZE dvd max a PAGE_SIZE"
  and max_alignment_dvd: "is_power_of_two a \<Longrightarrow> a dvd max a PAGE_SIZE"
proof -
  have P: "PAGE_SIZE = 2 ^ 12" by (simp add: PAGE_SIZE_def)
  assume "is_power_of_two a"
  then obtain e where e: "e < 64" "a = 2 ^ e" by (auto simp: is_power_of_two_iff)
  have "max (2 ^ e) (2 ^ k) = (2 :: nat) ^ max e k" for k by (simp add: max_def)
  then have m: "max a PAGE_SIZE = 2 ^ max e 12" unfolding P e(2) .
  have "max e 12 < 64" using e by simp
  then show "is_power_of_two (max a PAGE_SIZE)" unfolding is_power_of_two_iff m by blast
  show "PAGE_SIZE dvd max a PAGE_SIZE" unfolding m unfolding P by (intro le_imp_power_dvd) simp
  show "a dvd max a PAGE_SIZE" unfolding m unfolding e(2) by (intro le_imp_power_dvd) simp
qed

lemma rounded_pages: "(len + (PAGE_SIZE - 1)) div PAGE_SIZE = div_ceil len PAGE_SIZE"
  by (simp add: div_ceil_eq PAGE_SIZE_def)

lemma page_end_le:
  assumes "pages a n \<subseteq> {..<t}" and "0 < n" and "PAGE_SIZE dvd a"
  shows "a + n * PAGE_SIZE \<le> t * PAGE_SIZE"
proof -
  have "a div PAGE_SIZE + n - 1 \<in> pages a n" using assms(2) by (simp add: pages_def)
  then have "a div PAGE_SIZE + n \<le> t" using assms(1) by auto
  then have "(a div PAGE_SIZE + n) * PAGE_SIZE \<le> t * PAGE_SIZE" by (rule mult_right_mono) simp
  then show ?thesis using assms(3) by (simp add: algebra_simps)
qed

lemma dma_new_request:
  assumes "0 < len" and "is_power_of_two al" and "len + (PAGE_SIZE - 1) < USIZE_LIMIT"
  shows "dma_new bo m len al =
    do { (pm, r) \<leftarrow> find_aligned_continuous_mem bo (allocator m) (div_ceil len PAGE_SIZE) (max al PAGE_SIZE);
         case r of
           None \<Rightarrow> Some (m\<lparr>allocator := pm\<rparr>, Inl DmaOutOfMemory)
         | Some a \<Rightarrow>
             do { va \<leftarrow> phys_to_virt m a;
                  if va = 0 then None
                  else Some (m\<lparr>allocator := pm,
                               ram := zero_bytes (ram m) a (div_ceil len PAGE_SIZE * PAGE_SIZE)\<rparr>,
                             Inr \<lparr>physical_address = a, virtual_address = va,
                                  buf_pages = div_ceil len PAGE_SIZE,
                                  buf_alignment = max al PAGE_SIZE\<rparr>) } }"
proof -
  have c: "checked_add len (PAGE_SIZE - 1) = Some (len + (PAGE_SIZE - 1))"
    using assms(3) by (simp add: checked_add_def)
  show ?thesis
    using assms(1,2) unfolding dma_new_def c option.case Let_def rounded_pages by simp
qed

context bit_field
begin

lemma dma_new_cases:
  assumes ok: "machine_ok bo m"
  shows "(\<exists>e. dma_new bo m len al = Some (m, Inl e)) \<or>
    (\<exists>pm b. dma_new bo m len al = Some (m\<lparr>allocator := pm,
          ram := zero_bytes (ram m) (physical_address b) (dma_len b)\<rparr>, Inr b) \<and>
      buffer_ok b \<and> al dvd physical_address b \<and> buf_pages b = div_ceil len PAGE_SIZE \<and>
      virtual_address b = physical_address b + hhdm m \<and>
      buffer_pages b \<subseteq> free_set bo (allocator m) \<and>
      free_set bo pm = free_set bo (allocator m) - buffer_pages b \<and>
      pm_len pm = pm_len (allocator m) \<and> refcnt pm = refcnt (allocator m) \<and> alloc_inv bo pm)"
proof (cases "0 < len \<and> is_power_of_two al \<and> len + (PAGE_SIZE - 1) < USIZE_LIMIT")
  case False
  then show ?thesis by (auto simp: dma_new_def checked_add_def Let_def)
next
  case True
  let ?n = "div_ceil len PAGE_SIZE" and ?al = "max al PAGE_SIZE" and ?pm = "allocator m"
  have inv: "alloc_inv bo ?pm" using ok by (simp add: machine_ok_def)
  have n: "0 < ?n" using True div_ceil_bounds(1) [of PAGE_SIZE len] by (cases "?n = 0") auto
  from True have al: "is_power_of_two ?al" "PAGE_SIZE dvd ?al" "al dvd ?al"
    by (auto intro: max_power_of_two max_page_dvd max_alignment_dvd)
  note req = dma_new_request [of len al bo m]
  from find_aligned_correct [OF inv al(1,2) n] show ?thesis
  proof (elim disjE exE conjE, goal_cases)
    case 1
    then show ?case using True req by simp
  next
    case (2 pm a)
    define b where "b = \<lparr>physical_address = a, virtual_address = a + hhdm m, buf_pages = ?n,
      buf_alignment = ?al\<rparr>"
    have dvd: "PAGE_SIZE dvd a" using 2(3) al(2) by (rule dvd_trans [rotated])
    have "pages a ?n \<subseteq> {..<pm_len ?pm}" using 2(4) free_set_less by blast
    from page_end_le [OF this n dvd] have "a + hhdm m < USIZE_LIMIT"
      using ok n by (simp add: machine_ok_def PAGE_SIZE_def)
    then have "dma_new bo m len al = Some (m\<lparr>allocator := pm,
          ram := zero_bytes (ram m) (physical_address b) (dma_len b)\<rparr>, Inr b)"
      using True 2 req by (simp add: phys_to_virt_def checked_add_def b_def dma_len_def)
    moreover have "al dvd a" using al(3) 2(3) by (rule dvd_trans)
    ultimately show ?case
      using 2 dvd n inv
      by (intro disjI2 exI [of _ pm] exI [of _ b])
        (auto simp: b_def buffer_ok_def buffer_pages_def alloc_inv_def)
  qed
qed

lemma dma_drop_ok:
  assumes "machine_ok bo m" and "buffer_ok b" and "buffer_pages b \<subseteq> {..<pm_len (allocator m)}"
    and "buffer_pages b \<inter> free_set bo (allocator m) = {}"
  shows "\<exists>pm. dma_drop bo m b = Some (m\<lparr>allocator := pm\<rparr>, []) \<and> machine_ok bo (m\<lparr>allocator := pm\<rparr>) \<and>
    pm_len pm = pm_len (allocator m) \<and> free_set bo pm = free_set bo (allocator m) \<union> buffer_pages b"
proof -
  have "alloc_inv bo (allocator m)" using assms(1) by (simp add: machine_ok_def)
  from kernel.dealloc_law [OF this, of "physical_address b" "buf_pages b"] assms
  obtain pm ws where "dealloc_continuous_mem bo (allocator m) (physical_address b) (buf_pages b) =
      Some (pm, ws)" "pm_len pm = pm_len (allocator m)" "alloc_inv bo pm"
    "free_set bo pm = free_set bo (allocator m) \<union> buffer_pages b" "ws = []"
    by (auto simp: buffer_ok_def buffer_pages_def Int_absorb2)
  then show ?thesis using assms(1) by (auto simp: dma_drop_def machine_ok_def)
qed

end

text \<open>
  The drivers create and drop buffers in any order; a state is the machine with the list of the
  live buffers.
\<close>

inductive dma_step ::
  "bit_ops \<Rightarrow> machine \<times> dma_buffer list \<Rightarrow> machine \<times> dma_buffer list \<Rightarrow> bool"
  for bo :: bit_ops where
  step_new: "dma_new bo m len al = Some (m', Inr b) \<Longrightarrow> dma_step bo (m, bs) (m', b # bs)"
| step_fail: "dma_new bo m len al = Some (m', Inl e) \<Longrightarrow> dma_step bo (m, bs) (m', bs)"
| step_drop: "dma_drop bo m b = Some (m', ws) \<Longrightarrow>
    dma_step bo (m, bs1 @ b # bs2) (m', bs1 @ bs2)"

inductive_cases dma_stepE: "dma_step bo (m, bs) s'"

definition disjoint_buffers :: "dma_buffer list \<Rightarrow> bool" where
  "disjoint_buffers bs \<longleftrightarrow>
     (\<forall>i<length bs. \<forall>j<length bs. i \<noteq> j \<longrightarrow> buffer_pages (bs ! i) \<inter> buffer_pages (bs ! j) = {})"

text \<open>
  \<open>live_inv F (m, bs)\<close>: the free pages and the pages of the live buffers partition the set \<open>F\<close> of
  pages that were free before the first buffer was made.
\<close>

definition live_inv :: "bit_ops \<Rightarrow> nat set \<Rightarrow> machine \<times> dma_buffer list \<Rightarrow> bool" where
  "live_inv bo F s \<longleftrightarrow> (case s of (m, bs) \<Rightarrow>
     machine_ok bo m \<and> (\<forall>b\<in>set bs. buffer_ok b) \<and>
     sorted_wrt (\<lambda>b c. buffer_pages b \<inter> buffer_pages c = {}) bs \<and>
     (\<forall>b\<in>set bs. buffer_pages b \<inter> free_set bo (allocator m) = {}) \<and>
     free_set bo (allocator m) \<union> (\<Union>b\<in>set bs. buffer_pages b) = F \<and>
     F \<subseteq> {..<pm_len (allocator m)})"

lemma live_inv_disjoint: "live_inv bo F (m, bs) \<Longrightarrow> disjoint_buffers bs"
  unfolding live_inv_def disjoint_buffers_def sorted_wrt_iff_nth_less prod.case
  by (metis (no_types, lifting) inf_commute linorder_neqE_nat)

context bit_field
begin

lemma live_inv_new:
  assumes inv: "live_inv bo F (m, bs)" and new: "dma_new bo m len al = Some (m', Inr b)"
  shows "live_inv bo F (m', b # bs)"
proof -
  have ok: "machine_ok bo m" using inv by (simp add: live_inv_def)
  from dma_new_cases [OF ok, of len al] new obtain pm where
    m': "m' = m\<lparr>allocator := pm, ram := zero_bytes (ram m) (physical_address b) (dma_len b)\<rparr>"
    and b: "buffer_ok b" "buffer_pages b \<subseteq> free_set bo (allocator m)"
      "free_set bo pm = free_set bo (allocator m) - buffer_pages b"
      "pm_len pm = pm_len (allocator m)" "alloc_inv bo pm"
    by (elim disjE exE conjE) auto
  have "machine_ok bo m'" using ok b by (simp add: machine_ok_def m')
  moreover have "\<forall>c\<in>set bs. buffer_pages b \<inter> buffer_pages c = {}"
    using inv b(2) by (fastforce simp: live_inv_def)
  ultimately show ?thesis using inv b by (auto simp: live_inv_def m')
qed

lemma live_inv_fail:
  assumes "live_inv bo F (m, bs)" and "dma_new bo m len al = Some (m', Inl e)"
  shows "m' = m"
proof -
  have "machine_ok bo m" using assms(1) by (simp add: live_inv_def)
  from dma_new_cases [OF this, of len al] assms(2) show ?thesis by auto
qed

lemma live_inv_drop:
  assumes inv: "live_inv bo F (m, bs1 @ b # bs2)" and drop: "dma_drop bo m b = Some (m', ws)"
  shows "ws = []" and "live_inv bo F (m', bs1 @ bs2)"
proof -
  from inv have "machine_ok bo m" and "buffer_ok b"
    and "buffer_pages b \<subseteq> {..<pm_len (allocator m)}"
    and "buffer_pages b \<inter> free_set bo (allocator m) = {}" by (auto simp: live_inv_def)
  from dma_drop_ok [OF this] drop obtain pm where
    m': "m' = m\<lparr>allocator := pm\<rparr>" "ws = []" "machine_ok bo m'" "pm_len pm = pm_len (allocator m)"
    "free_set bo pm = free_set bo (allocator m) \<union> buffer_pages b" by auto
  show "ws = []" by (rule m'(2))
  from inv m' show "live_inv bo F (m', bs1 @ bs2)"
    by (auto simp: live_inv_def sorted_wrt_append)
qed

lemma live_inv_step:
  assumes "dma_step bo (m, bs) s'" and inv: "live_inv bo F (m, bs)"
  shows "live_inv bo F s'"
  using assms(1)
  apply (rule dma_stepE)
  subgoal using live_inv_new [OF inv] by blast
  subgoal using live_inv_fail [OF inv] inv by blast
  subgoal using live_inv_drop(2) inv by blast
  done

lemma live_inv_steps: "(dma_step bo)\<^sup>*\<^sup>* s s' \<Longrightarrow> live_inv bo F s \<Longrightarrow> live_inv bo F s'"
  by (induction rule: rtranclp_induct) (auto intro: live_inv_step split: prod.splits)

lemma live_inv_start:
  "machine_ok bo m \<Longrightarrow> live_inv bo (free_set bo (allocator m)) (m, [])"
  using free_set_less by (auto simp: live_inv_def)

end

text \<open>
  Property C5 (live DMA buffers). Whatever buffers the drivers create and drop, and in whatever
  order, no two live buffers share a page, none has a page the allocator considers free, every
  buffer is aligned as asked, and no page is lost: the free pages and the pages of the live buffers
  together are always the pages that were free at the start. Dropping a live buffer never panics
  and never prints a double-free warning.
\<close>

theorem dma_buffers_partition_memory:
  assumes "bit_field bo" and "machine_ok bo m0" and "(dma_step bo)\<^sup>*\<^sup>* (m0, []) (m, bs)"
  shows "disjoint_buffers bs \<and> (\<forall>b\<in>set bs. buffer_ok b) \<and>
    (\<forall>b\<in>set bs. buffer_pages b \<inter> free_set bo (allocator m) = {}) \<and>
    free_set bo (allocator m) \<union> (\<Union>b\<in>set bs. buffer_pages b) = free_set bo (allocator m0) \<and>
    (\<forall>b\<in>set bs. \<exists>m'. dma_drop bo m b = Some (m', []))"
proof -
  have inv: "live_inv bo (free_set bo (allocator m0)) (m, bs)"
    using bit_field.live_inv_steps [OF assms(1,3)] bit_field.live_inv_start [OF assms(1,2)] .
  have "\<exists>m'. dma_drop bo m b = Some (m', [])" if "b \<in> set bs" for b
    using inv that bit_field.dma_drop_ok [OF assms(1), of m b] by (fastforce simp: live_inv_def)
  with inv live_inv_disjoint [OF inv] show ?thesis by (auto simp: live_inv_def)
qed

definition small_machine :: machine where
  "small_machine = \<lparr>allocator = small_pm, ram = (\<lambda>_. 7), hhdm = 2 ^ 63\<rparr>"

lemma small_machine_ok: "machine_ok word_bits small_machine"
  using small_pm_inv by (simp add: machine_ok_def small_machine_def small_pm_def pm_len_def PAGE_SIZE_def)

lemma small_dma_new: "\<exists>m b. dma_new word_bits small_machine 4097 8192 = Some (m, Inr b)"
proof -
  have p: "is_power_of_two 8192" using small_request by (simp add: valid_request_def)
  have c: "div_ceil 4097 PAGE_SIZE = 2" and mx: "max 8192 PAGE_SIZE = 8192"
    by (simp_all add: div_ceil_def PAGE_SIZE_def)
  from small_alloc obtain pm where
    "find_aligned_continuous_mem word_bits small_pm 2 8192 = Some (pm, Some 8192)" by blast
  then show ?thesis
    using dma_new_request [of 4097 8192 word_bits small_machine] p unfolding c mx
    by (simp add: small_machine_def phys_to_virt_def checked_add_def PAGE_SIZE_def)
qed

theorem dma_buffers_partition_memory_witness:
  "\<exists>m b m'. dma_new word_bits small_machine 4097 8192 = Some (m, Inr b) \<and> buffer_ok b \<and>
     buffer_pages b \<inter> free_set word_bits (allocator m) = {} \<and>
     dma_drop word_bits m b = Some (m', [])"
proof -
  from small_dma_new obtain m b where
    new: "dma_new word_bits small_machine 4097 8192 = Some (m, Inr b)" by blast
  then have "(dma_step word_bits)\<^sup>*\<^sup>* (small_machine, []) (m, [b])"
    by (intro r_into_rtranclp step_new)
  from dma_buffers_partition_memory [OF word_bits.bit_field_axioms small_machine_ok this] new
  show ?thesis by auto
qed

text \<open>
  On a sound machine a request for a buffer never panics. When it
  succeeds the buffer has just enough pages for the length, is aligned as asked and to a page,
  was free before and is all zero now, while the rest of memory is as it was; when it fails nothing
  has changed, and the error tells an empty request, a bad alignment and lack of memory apart.
\<close>

lemma dma_new_zeroed_aligned:
  assumes "bit_field bo" and "machine_ok bo m"
  shows "\<exists>m' r. dma_new bo m len al = Some (m', r) \<and>
    (case r of
       Inl e \<Rightarrow> m' = m \<and> (e = DmaEmpty \<longleftrightarrow> len = 0) \<and>
         (e = DmaInvalidAlignment \<longleftrightarrow> len \<noteq> 0 \<and> \<not> is_power_of_two al)
     | Inr b \<Rightarrow> buffer_ok b \<and> al dvd physical_address b \<and>
         len \<le> dma_len b \<and> dma_len b < len + PAGE_SIZE \<and>
         buffer_pages b \<subseteq> free_set bo (allocator m) \<and>
         free_set bo (allocator m') = free_set bo (allocator m) - buffer_pages b \<and>
         (\<forall>x. ram m' x = (if physical_address b \<le> x \<and> x < physical_address b + dma_len b
                           then 0 else ram m x)))"
  using bit_field.dma_new_cases [OF assms, of len al]
proof (elim disjE exE conjE)
  fix e
  assume e: "dma_new bo m len al = Some (m, Inl e)"
  then have "(e = DmaEmpty \<longleftrightarrow> len = 0) \<and> (e = DmaInvalidAlignment \<longleftrightarrow> len \<noteq> 0 \<and> \<not> is_power_of_two al)"
    by (auto simp: dma_new_def Let_def split: if_splits option.splits bind_splits)
  with e show ?thesis by auto
next
  fix pm b
  assume "dma_new bo m len al = Some (m\<lparr>allocator := pm,
      ram := zero_bytes (ram m) (physical_address b) (dma_len b)\<rparr>, Inr b)"
    "buffer_ok b" "al dvd physical_address b" "buf_pages b = div_ceil len PAGE_SIZE"
    "buffer_pages b \<subseteq> free_set bo (allocator m)"
    "free_set bo pm = free_set bo (allocator m) - buffer_pages b"
  then show ?thesis
    using div_ceil_bounds [of PAGE_SIZE len] by (auto simp: dma_len_def zero_bytes_def)
qed

lemma dma_new_zeroed_aligned_example:
  "\<exists>m' b. dma_new word_bits small_machine 4097 8192 = Some (m', Inr b) \<and> ram small_machine 8192 = 7 \<and>
     8192 dvd physical_address b \<and> 4097 \<le> dma_len b \<and> ram m' (physical_address b) = 0"
proof -
  from small_dma_new obtain m' b where
    new: "dma_new word_bits small_machine 4097 8192 = Some (m', Inr b)" by blast
  from dma_new_zeroed_aligned [OF word_bits.bit_field_axioms small_machine_ok, of 4097 8192]
  have "8192 dvd physical_address b \<and> 4097 \<le> dma_len b \<and> ram m' (physical_address b) = 0"
    unfolding new by auto
  with new show ?thesis by (simp add: small_machine_def)
qed

section \<open>The NVMe allocator gives back one page only\<close>

lemma small_alloc_state:
  "find_aligned_continuous_mem word_bits small_pm 2 4096 =
     Some (\<lparr>bmp = [8], refcnt = [0, 0, 1, 0]\<rparr>, Some 4096)"
proof -
  have "is_power_of_two 4096" unfolding is_power_of_two_iff by (rule exI [of _ 12]) simp
  moreover have "unset_bit (Suc (Suc 0)) (unset_bit (Suc 0) 14) = (8 :: u64)"
    by (simp add: unset_bit_eq_and_not eval_nat_numeral)
  ultimately show ?thesis by (simp add: alloc_eval)
qed

text \<open>
  The NVMe driver's allocator rounds a request up to whole
  pages but gives only the first of them back: on a machine with pages 1 to 3 free, allocating
  8192 bytes and freeing them leaves page 2 taken forever, and only the first of the two pages
  was cleared.
\<close>

lemma nvme_deallocate_leaks:
  "\<exists>m1 addr m2. nvme_allocate word_bits small_machine 8192 = Some (m1, addr) \<and>
     nvme_deallocate word_bits m1 addr = Some (m2, []) \<and>
     2 \<in> free_set word_bits (allocator small_machine) \<and>
     2 \<notin> free_set word_bits (allocator m2) \<and> ram m1 (4096 + 4096) = 7"
proof -
  let ?pm = "\<lparr>bmp = [8 :: u64], refcnt = [0, 0, 1, 0 :: u8]\<rparr>"
  let ?m1 = "small_machine\<lparr>allocator := ?pm, ram := zero_bytes (ram small_machine) 4096 4096\<rparr>"
  have a: "nvme_allocate word_bits small_machine 8192 = Some (?m1, 4096 + 2 ^ 63)"
    using small_alloc_state
    by (simp add: nvme_allocate_def find_continuous_mem_def small_machine_def PAGE_SIZE_def
        div_ceil_def phys_to_virt_def checked_add_def)
  have bit: "set_bit (Suc 0) 8 = (10 :: u64)" by (simp add: set_bit_eq_or)
  have d: "nvme_deallocate word_bits ?m1 (4096 + 2 ^ 63) =
      Some (?m1\<lparr>allocator := \<lparr>bmp = [10], refcnt = [0, 0, 1, 0]\<rparr>\<rparr>, [])"
    by (simp add: nvme_deallocate_def small_machine_def phys_to_virt_def checked_add_def
        checked_sub_def dealloc_physical_page_def pm_get_def pm_set_def PAGE_SIZE_def word_bits_def
        bit)
  show ?thesis
    by (intro exI conjI, rule a, rule d)
      (simp_all add: free_set_def free_page_def small_machine_def small_pm_def pm_len_def
        word_bits_def zero_bytes_def)
qed

end
