(* ===== verification/Ring.thy ===== *)
theory Ring
  imports Prelude
begin

text \<open>
  The transfer request blocks of \<^verbatim>\<open>kernel/src/xhci/trb.rs\<close> and the rings of
  \<^verbatim>\<open>kernel/src/xhci/ring.rs\<close>. The locale \<open>fifo_queue\<close> is the contract of a bounded
  queue, shared by the event ring and by the message queues of the IPC component; the event ring is
  shown to keep it across wrap-arounds of its cycle bit.
\<close>

section \<open>Transfer request blocks\<close>

record Trb =
  parameter :: u64
  status :: u32
  control :: u32

definition trb_default :: Trb where
  "trb_default = \<lparr>parameter = 0, status = 0, control = 0\<rparr>"

definition TRB_CYCLE :: u32 where "TRB_CYCLE = 1"
definition TRB_TC :: u32 where "TRB_TC = push_bit 1 1"
definition TRB_CHAIN :: u32 where "TRB_CHAIN = push_bit 4 1"
definition TRB_TYPE_MASK :: u32 where "TRB_TYPE_MASK = push_bit 10 0x3f"
definition TRB_TYPE_NORMAL :: u32 where "TRB_TYPE_NORMAL = push_bit 10 1"
definition TRB_TYPE_SETUP_STAGE :: u32 where "TRB_TYPE_SETUP_STAGE = push_bit 10 2"
definition TRB_TYPE_DATA_STAGE :: u32 where "TRB_TYPE_DATA_STAGE = push_bit 10 3"
definition TRB_TYPE_STATUS_STAGE :: u32 where "TRB_TYPE_STATUS_STAGE = push_bit 10 4"
definition TRB_TYPE_LINK :: u32 where "TRB_TYPE_LINK = push_bit 10 6"
definition TRB_TYPE_TRANSFER_EVENT :: u32 where "TRB_TYPE_TRANSFER_EVENT = push_bit 10 32"
definition TRB_TYPE_COMMAND_COMPLETION :: u32 where "TRB_TYPE_COMMAND_COMPLETION = push_bit 10 33"
definition TRB_TYPE_PORT_STATUS_CHANGE :: u32 where "TRB_TYPE_PORT_STATUS_CHANGE = push_bit 10 34"

lemmas trb_consts = TRB_CYCLE_def TRB_TC_def TRB_CHAIN_def TRB_TYPE_MASK_def TRB_TYPE_NORMAL_def
  TRB_TYPE_SETUP_STAGE_def TRB_TYPE_DATA_STAGE_def TRB_TYPE_STATUS_STAGE_def TRB_TYPE_LINK_def
  TRB_TYPE_TRANSFER_EVENT_def TRB_TYPE_COMMAND_COMPLETION_def TRB_TYPE_PORT_STATUS_CHANGE_def

datatype CompletionCode = Invalid | Success | DataBufferError | TrbError | StallError
  | ShortPacket | RingUnderrun | RingOverrun | EventRingFull | CommandAborted | Stop
  | ContextStateError | NoSlotsAvailable | Unknown

definition from_status :: "u32 \<Rightarrow> CompletionCode" where
  "from_status s =
     (let c = ucast (drop_bit 24 s AND 0xff) :: u8 in
      if c = 0 then Invalid else if c = 1 then Success else if c = 2 then DataBufferError
      else if c = 5 then TrbError else if c = 6 then StallError else if c = 9 then NoSlotsAvailable
      else if c = 13 then ShortPacket else if c = 14 then RingUnderrun
      else if c = 15 then RingOverrun else if c = 19 then ContextStateError
      else if c = 21 then EventRingFull else if c = 25 then CommandAborted
      else if c = 26 then Stop else Unknown)"

definition port_status_change_event :: "Trb \<Rightarrow> u8 option" where
  "port_status_change_event event =
     (if control event AND TRB_TYPE_MASK \<noteq> TRB_TYPE_PORT_STATUS_CHANGE then None
      else let port_id = ucast (parameter event AND 0xff) in
        if port_id \<noteq> 0 then Some port_id else None)"

definition link_trb :: "u64 \<Rightarrow> bool \<Rightarrow> Trb" where
  "link_trb nxt c =
     \<lparr>parameter = nxt, status = 0,
      control = TRB_TYPE_LINK OR TRB_TC OR (of_bool_word c * TRB_CYCLE)\<rparr>"

section \<open>Rings\<close>

datatype RingError = RingFull | RingEmpty

record producer_ring =
  p_entries :: "Trb list"
  p_index :: nat
  p_cycle :: bool
  p_len :: nat

definition producer_new :: "nat \<Rightarrow> producer_ring option" where
  "producer_new usable_entries =
     (if usable_entries < 2 then None
      else Some \<lparr>p_entries = (replicate (usable_entries + 1) trb_default)
                               [usable_entries := link_trb 0 True],
                 p_index = 0, p_cycle = True, p_len = 0\<rparr>)"

definition p_capacity :: "producer_ring \<Rightarrow> nat" where
  "p_capacity r = length (p_entries r) - 1"

definition producer_push :: "producer_ring \<Rightarrow> Trb \<Rightarrow> (producer_ring \<times> (RingError + nat)) option" where
  "producer_push r trb =
     (if p_len r = p_capacity r then Some (r, Inl RingFull)
      else
        let trb = trb\<lparr>control := (control trb AND NOT TRB_CYCLE) OR of_bool_word (p_cycle r)\<rparr>;
            at = p_index r in
        do { es \<leftarrow> upd_opt (p_entries r) at trb;
             let nxt = (p_index r + 1) mod p_capacity r;
             let c = (if nxt = 0 then \<not> p_cycle r else p_cycle r);
             es' \<leftarrow> upd_opt es (p_capacity r) (link_trb 0 c);
             Some (\<lparr>p_entries = es', p_index = nxt, p_cycle = c, p_len = p_len r + 1\<rparr>, Inr at) })"

record event_ring =
  e_entries :: "Trb list"
  consumer :: nat
  consumer_cycle :: bool
  producer :: nat
  producer_cycle :: bool
  used :: nat

definition event_new :: "nat \<Rightarrow> event_ring option" where
  "event_new n =
     (if n = 0 then None
      else Some \<lparr>e_entries = replicate n trb_default, consumer = 0, consumer_cycle = True,
                 producer = 0, producer_cycle = True, used = 0\<rparr>)"

definition publish :: "event_ring \<Rightarrow> Trb \<Rightarrow> (RingError + event_ring) option" where
  "publish r trb =
     (if used r = length (e_entries r) then Some (Inl RingFull)
      else
        do { es \<leftarrow> upd_opt (e_entries r) (producer r)
                   (trb\<lparr>control := control trb OR of_bool_word (producer_cycle r)\<rparr>);
             let p = (producer r + 1) mod length es;
             Some (Inr (r\<lparr>e_entries := es, producer := p,
                        producer_cycle := (if p = 0 then \<not> producer_cycle r else producer_cycle r),
                        used := used r + 1\<rparr>)) })"

definition pop :: "event_ring \<Rightarrow> (RingError + (event_ring \<times> Trb)) option" where
  "pop r =
     (if used r = 0 then Some (Inl RingEmpty)
      else
        do { trb \<leftarrow> nth_opt (e_entries r) (consumer r);
             if (control trb AND TRB_CYCLE \<noteq> 0) \<noteq> consumer_cycle r then Some (Inl RingEmpty)
             else
               let es = (e_entries r)[consumer r := trb_default];
                   c = consumer r + 1;
                   wrap = (c = length es) in
               Some (Inr (r\<lparr>e_entries := es, consumer := (if wrap then 0 else c),
                          consumer_cycle := (if wrap then \<not> consumer_cycle r else consumer_cycle r),
                          used := used r - 1\<rparr>, trb)) })"

section \<open>The contract of a bounded queue\<close>

fun put_all :: "('s \<Rightarrow> 'a \<Rightarrow> 's option) \<Rightarrow> 's \<Rightarrow> 'a list \<Rightarrow> 's option" where
  "put_all put s [] = Some s"
| "put_all put s (x # xs) = do { s' \<leftarrow> put s x; put_all put s' xs }"

fun get_all :: "('s \<Rightarrow> ('s \<times> 'a) option) \<Rightarrow> nat \<Rightarrow> 's \<Rightarrow> ('s \<times> 'a list) option" where
  "get_all get 0 s = Some (s, [])"
| "get_all get (Suc n) s =
     do { (s', x) \<leftarrow> get s; (s'', xs) \<leftarrow> get_all get n s'; Some (s'', x # xs) }"

text \<open>
  \<open>put\<close> returns \<^term>\<open>None\<close> when the queue is full and \<open>get\<close> when it is empty. \<open>ok\<close> selects the
  elements a client may put in and \<open>view\<close> is what the queue keeps of an element.
\<close>

locale fifo_queue =
  fixes invar :: "'s \<Rightarrow> bool"
    and content :: "'s \<Rightarrow> 'b list"
    and capacity :: "'s \<Rightarrow> nat"
    and ok :: "'a \<Rightarrow> bool"
    and view :: "'a \<Rightarrow> 'b"
    and put :: "'s \<Rightarrow> 'a \<Rightarrow> 's option"
    and get :: "'s \<Rightarrow> ('s \<times> 'a) option"
  assumes bounded: "invar s \<Longrightarrow> length (content s) \<le> capacity s"
    and put_full: "\<lbrakk>invar s; length (content s) = capacity s\<rbrakk> \<Longrightarrow> put s x = None"
    and put_room: "\<lbrakk>invar s; ok x; length (content s) < capacity s\<rbrakk> \<Longrightarrow>
      \<exists>s'. put s x = Some s' \<and> invar s' \<and> content s' = content s @ [view x] \<and>
        capacity s' = capacity s"
    and get_empty: "\<lbrakk>invar s; content s = []\<rbrakk> \<Longrightarrow> get s = None"
    and get_some: "\<lbrakk>invar s; content s = y # ys\<rbrakk> \<Longrightarrow>
      \<exists>s' x. get s = Some (s', x) \<and> view x = y \<and> invar s' \<and> content s' = ys \<and>
        capacity s' = capacity s"
begin

lemma put_all_content:
  assumes "invar s" and "\<forall>x\<in>set xs. ok x" and "length (content s) + length xs \<le> capacity s"
  shows "\<exists>s'. put_all put s xs = Some s' \<and> invar s' \<and> content s' = content s @ map view xs \<and>
    capacity s' = capacity s"
  using assms
proof (induction xs arbitrary: s)
  case Nil
  then show ?case by simp
next
  case (Cons x xs)
  then obtain s1 where "put s x = Some s1" "invar s1" "content s1 = content s @ [view x]"
    "capacity s1 = capacity s" using put_room [of s x] by auto
  with Cons.IH [of s1] Cons.prems show ?case by auto
qed

lemma get_all_content:
  assumes "invar s" and "content s = ys @ zs"
  shows "\<exists>s' xs. get_all get (length ys) s = Some (s', xs) \<and> map view xs = ys \<and> content s' = zs \<and>
    invar s' \<and> capacity s' = capacity s"
  using assms
proof (induction ys arbitrary: s)
  case Nil
  then show ?case by simp
next
  case (Cons y ys)
  then obtain s1 x where "get s = Some (s1, x)" "view x = y" "invar s1" "content s1 = ys @ zs"
    "capacity s1 = capacity s" using get_some [of s y "ys @ zs"] by auto
  with Cons.IH [of s1] show ?case by fastforce
qed

text \<open>What goes into an empty queue comes out of it, in order, and the queue is empty again.\<close>

lemma put_all_get_all:
  assumes "invar s" and "content s = []" and "\<forall>x\<in>set xs. ok x" and "length xs \<le> capacity s"
  shows "\<exists>s1 s2 ys. put_all put s xs = Some s1 \<and> get_all get (length xs) s1 = Some (s2, ys) \<and>
    map view ys = map view xs \<and> content s2 = [] \<and> invar s2 \<and> capacity s2 = capacity s"
proof -
  from put_all_content [of s xs] assms obtain s1 where s1: "put_all put s xs = Some s1" "invar s1"
    "content s1 = map view xs" "capacity s1 = capacity s" by auto
  from get_all_content [of s1 "map view xs" "[]"] s1 show ?thesis by auto
qed

end

section \<open>The event ring is such a queue\<close>

definition trb_cycle :: "Trb \<Rightarrow> bool" where
  "trb_cycle t \<longleftrightarrow> control t AND TRB_CYCLE \<noteq> 0"

definition strip_cycle :: "Trb \<Rightarrow> Trb" where
  "strip_cycle t = t\<lparr>control := control t AND NOT TRB_CYCLE\<rparr>"

text \<open>Position \<open>k\<close> of the queue, counted from the consumer, and the cycle state it must have.\<close>

definition ring_pos :: "event_ring \<Rightarrow> nat \<Rightarrow> nat" where
  "ring_pos r k = (consumer r + k) mod length (e_entries r)"

definition ring_cycle :: "event_ring \<Rightarrow> nat \<Rightarrow> bool" where
  "ring_cycle r k = (if consumer r + k < length (e_entries r) then consumer_cycle r
                     else \<not> consumer_cycle r)"

definition event_inv :: "event_ring \<Rightarrow> bool" where
  "event_inv r \<longleftrightarrow> consumer r < length (e_entries r) \<and> used r \<le> length (e_entries r) \<and>
     producer r = ring_pos r (used r) \<and> producer_cycle r = ring_cycle r (used r) \<and>
     (\<forall>k<used r. trb_cycle (e_entries r ! ring_pos r k) = ring_cycle r k)"

definition event_content :: "event_ring \<Rightarrow> Trb list" where
  "event_content r = map (\<lambda>k. strip_cycle (e_entries r ! ring_pos r k)) [0..<used r]"

definition event_capacity :: "event_ring \<Rightarrow> nat" where
  "event_capacity r = length (e_entries r)"

definition event_put :: "event_ring \<Rightarrow> Trb \<Rightarrow> event_ring option" where
  "event_put r t = (case publish r t of Some (Inr r') \<Rightarrow> Some r' | _ \<Rightarrow> None)"

definition event_get :: "event_ring \<Rightarrow> (event_ring \<times> Trb) option" where
  "event_get r = (case pop r of Some (Inr x) \<Rightarrow> Some x | _ \<Rightarrow> None)"

lemma slot_eq:
  assumes "consumer r < length (e_entries r)" and "k \<le> length (e_entries r)"
  shows "ring_pos r k = (if consumer r + k < length (e_entries r) then consumer r + k
    else consumer r + k - length (e_entries r))"
  using assms by (simp add: ring_pos_def mod_if)

lemma slot_less: "consumer r < length (e_entries r) \<Longrightarrow> ring_pos r k < length (e_entries r)"
  by (auto simp: ring_pos_def intro!: mod_less_divisor)

lemma slot_inj:
  assumes "consumer r < length (e_entries r)" and "j < k" and "k < length (e_entries r)"
  shows "ring_pos r j \<noteq> ring_pos r k"
  using assms by (auto simp: slot_eq)

lemma trb_cycle_odd: "trb_cycle t \<longleftrightarrow> odd (control t)"
  by (simp add: trb_cycle_def TRB_CYCLE_def and_one_eq odd_iff_mod_2_eq_one)

lemma trb_cycle_or [simp]: "trb_cycle (t\<lparr>control := c OR of_bool_word b\<rparr>) \<longleftrightarrow> b \<or> odd c"
  by (auto simp: trb_cycle_odd of_bool_word_def even_or_iff)

lemma strip_cycle_or [simp]: "strip_cycle (t\<lparr>control := control t OR of_bool_word b\<rparr>) = strip_cycle t"
proof -
  have "(control t OR of_bool_word b) AND NOT TRB_CYCLE = control t AND NOT TRB_CYCLE"
    by (rule bit_word_eqI) (auto simp: of_bool_word_def TRB_CYCLE_def bit_simps)
  then show ?thesis by (simp add: strip_cycle_def)
qed

lemma event_put_ok:
  assumes inv: "event_inv r" and even: "even (control t)" and room: "used r < length (e_entries r)"
  shows "\<exists>r'. event_put r t = Some r' \<and> event_inv r' \<and>
    event_content r' = event_content r @ [strip_cycle t] \<and> event_capacity r' = event_capacity r"
proof -
  let ?n = "length (e_entries r)"
  define t' where "t' = t\<lparr>control := control t OR of_bool_word (producer_cycle r)\<rparr>"
  define p where "p = (producer r + 1) mod ?n"
  define r' where "r' = r\<lparr>e_entries := (e_entries r)[producer r := t'], producer := p,
    producer_cycle := (if p = 0 then \<not> producer_cycle r else producer_cycle r), used := used r + 1\<rparr>"
  have c: "consumer r < ?n" and pr: "producer r = ring_pos r (used r)"
    and pc: "producer_cycle r = ring_cycle r (used r)"
    using inv by (simp_all add: event_inv_def)
  have less: "producer r < ?n" using c pr slot_less by simp
  have put: "event_put r t = Some r'"
    using room less by (simp add: event_put_def publish_def t'_def p_def r'_def Let_def)
  have ring_pos': "ring_pos r' k = ring_pos r k" "ring_cycle r' k = ring_cycle r k" for k
    by (simp_all add: ring_pos_def ring_cycle_def r'_def)
  have fields: "used r' = used r + 1" "consumer r' = consumer r" "producer r' = p"
    "producer_cycle r' = (if p = 0 then \<not> producer_cycle r else producer_cycle r)"
    "length (e_entries r') = ?n"
    by (simp_all add: r'_def)
  have nth: "e_entries r' ! ring_pos r k = (if k = used r then t' else e_entries r ! ring_pos r k)"
    if "k \<le> used r" for k
    using that less slot_inj [of r k "used r"] c room by (auto simp: r'_def pr)
  have "p = ring_pos r (used r + 1)" by (simp add: p_def pr ring_pos_def mod_simps)
  moreover have "producer_cycle r' = ring_cycle r (used r + 1)"
    unfolding fields using pc room c calculation by (auto simp: ring_cycle_def slot_eq split: if_splits)
  moreover have "trb_cycle (e_entries r' ! ring_pos r k) = ring_cycle r k" if "k < used r + 1" for k
    using nth [of k] that inv even by (auto simp: event_inv_def t'_def pc)
  ultimately have "event_inv r'"
    using c room unfolding event_inv_def ring_pos' fields by simp
  moreover have "event_content r' = event_content r @ [strip_cycle t]"
    unfolding event_content_def fields ring_pos' by (simp add: nth t'_def cong: map_cong)
  ultimately show ?thesis using put by (simp add: event_capacity_def fields)
qed

lemma event_get_ok:
  assumes inv: "event_inv r" and used: "0 < used r"
  shows "\<exists>r' t. event_get r = Some (r', t) \<and> event_inv r' \<and>
    event_content r = strip_cycle t # event_content r' \<and> event_capacity r' = event_capacity r"
proof -
  let ?n = "length (e_entries r)"
  define t where "t = e_entries r ! consumer r"
  define w where "w \<longleftrightarrow> consumer r + 1 = ?n"
  define r' where "r' = r\<lparr>e_entries := (e_entries r)[consumer r := trb_default],
    consumer := (if w then 0 else consumer r + 1),
    consumer_cycle := (if w then \<not> consumer_cycle r else consumer_cycle r), used := used r - 1\<rparr>"
  have c: "consumer r < ?n" and un: "used r \<le> ?n"
    and cy: "\<And>k. k < used r \<Longrightarrow> trb_cycle (e_entries r ! ring_pos r k) = ring_cycle r k"
    using inv by (simp_all add: event_inv_def)
  have s0: "ring_pos r 0 = consumer r" using c by (simp add: slot_eq)
  have "trb_cycle t = consumer_cycle r"
    using cy [OF used] c by (simp add: t_def s0 ring_cycle_def)
  then have get: "event_get r = Some (r', t)"
    using used c by (auto simp: event_get_def pop_def trb_cycle_def t_def r'_def w_def Let_def)
  have fields: "used r' = used r - 1" "producer r' = producer r"
    "producer_cycle r' = producer_cycle r" "length (e_entries r') = ?n" "consumer r' < ?n"
    using c by (auto simp: r'_def w_def)
  have ne: "e_entries r \<noteq> []" using c by auto
  have ring_pos': "ring_pos r' k = ring_pos r (k + 1)" "ring_cycle r' k = ring_cycle r (k + 1)" if "k < ?n" for k
    using that c ne by (auto simp: slot_eq ring_cycle_def r'_def w_def)
  have nth: "e_entries r' ! ring_pos r (k + 1) = e_entries r ! ring_pos r (k + 1)" if "k + 1 < used r" for k
    using that slot_inj [of r 0 "k + 1"] c un by (simp add: r'_def s0)
  have "event_inv r'"
    using inv used un nth fields ring_pos' cy unfolding event_inv_def by auto
  moreover have "event_content r' = map (\<lambda>k. strip_cycle (e_entries r ! ring_pos r k)) [1..<used r]"
    unfolding event_content_def fields using un used
    by (intro nth_equalityI) (auto simp: ring_pos' nth [simplified])
  moreover have "[0..<used r] = 0 # [1..<used r]" using used by (simp add: upt_rec)
  ultimately show ?thesis
    using get by (auto simp: event_content_def [of r] t_def s0 event_capacity_def fields)
qed

interpretation er: fifo_queue event_inv event_content event_capacity "\<lambda>t. even (control t)"
  strip_cycle event_put event_get
proof
  fix s x y ys
  assume inv: "event_inv s"
  show "length (event_content s) \<le> event_capacity s"
    using inv by (simp add: event_content_def event_capacity_def event_inv_def)
  show "event_put s x = None" if "length (event_content s) = event_capacity s"
    using that by (simp add: event_put_def publish_def event_content_def event_capacity_def)
  show "\<exists>s'. event_put s x = Some s' \<and> event_inv s' \<and>
      event_content s' = event_content s @ [strip_cycle x] \<and> event_capacity s' = event_capacity s"
    if "even (control x)" and "length (event_content s) < event_capacity s"
    using event_put_ok [OF inv that(1)] that(2)
    by (simp add: event_content_def [of s] event_capacity_def [of s])
  show "event_get s = None" if "event_content s = []"
    using that by (simp add: event_get_def pop_def event_content_def)
  show "\<exists>s' x. event_get s = Some (s', x) \<and> strip_cycle x = y \<and> event_inv s' \<and>
      event_content s' = ys \<and> event_capacity s' = event_capacity s"
    if "event_content s = y # ys"
  proof -
    have "0 < used s" using that by (cases "used s") (simp_all add: event_content_def)
    from event_get_ok [OF inv this] that show ?thesis by auto
  qed
qed

lemma event_new_inv:
  assumes "event_new n = Some r"
  shows "event_inv r" and "event_content r = []" and "event_capacity r = n"
  using assms by (auto simp: event_new_def event_inv_def event_content_def event_capacity_def
      ring_pos_def ring_cycle_def split: if_splits)


text \<open>A ring of two entries that starts its second round.\<close>

definition second_round :: event_ring where
  "second_round = \<lparr>e_entries = [trb_default, trb_default], consumer = 1, consumer_cycle = False,
     producer = 1, producer_cycle = False, used = 0\<rparr>"


text \<open>
  \<^verbatim>\<open>publish\<close> sets the cycle bit of a TRB but never
  clears it: on the second round of a one-entry ring a TRB whose cycle bit is set is accepted, and
  from then on the ring is full for the producer and empty for the consumer.
\<close>

lemma event_ring_stuck:
  "\<exists>r0 r1 r2 r3. event_new 1 = Some r0 \<and> publish r0 trb_default = Some (Inr r1) \<and>
     (\<exists>t. pop r1 = Some (Inr (r2, t))) \<and>
     publish r2 (trb_default\<lparr>control := TRB_CYCLE\<rparr>) = Some (Inr r3) \<and>
     pop r3 = Some (Inl RingEmpty) \<and> (\<forall>t. publish r3 t = Some (Inl RingFull))"
  by (simp add: event_new_def publish_def pop_def trb_default_def TRB_CYCLE_def of_bool_word_def
      Let_def)

section \<open>The producer ring\<close>

definition producer_inv :: "producer_ring \<Rightarrow> bool" where
  "producer_inv r \<longleftrightarrow> 2 \<le> p_capacity r \<and> length (p_entries r) = p_capacity r + 1 \<and>
     p_len r \<le> p_capacity r \<and> p_index r = p_len r mod p_capacity r \<and>
     p_cycle r = (p_len r < p_capacity r) \<and>
     p_entries r ! p_capacity r = link_trb 0 (p_cycle r)"

lemma producer_new_inv: "producer_new n = Some r \<Longrightarrow> producer_inv r \<and> p_capacity r = n \<and> p_len r = 0"
  by (auto simp: producer_new_def producer_inv_def p_capacity_def split: if_splits
      simp del: replicate_Suc)

text \<open>
  A push into a ring that is not full stores the TRB, with the
  ring's cycle bit, in the next free entry and returns that entry's index, leaves every other entry
  but the link TRB alone, and keeps the invariant: the link TRB always carries the cycle state
  of the next round. A full ring refuses and is unchanged.
\<close>

lemma producer_push_next_entry:
  assumes "producer_inv r"
  shows "\<exists>r' res. producer_push r t = Some (r', res) \<and> producer_inv r' \<and>
    p_capacity r' = p_capacity r \<and>
    (if p_len r = p_capacity r then r' = r \<and> res = Inl RingFull
     else res = Inr (p_len r) \<and> p_len r' = p_len r + 1 \<and>
       trb_cycle (p_entries r' ! p_len r) \<and>
       strip_cycle (p_entries r' ! p_len r) = strip_cycle t \<and>
       (\<forall>i<p_capacity r. i \<noteq> p_len r \<longrightarrow> p_entries r' ! i = p_entries r ! i))"
proof (cases "p_len r = p_capacity r")
  case True
  then show ?thesis using assms by (simp add: producer_push_def)
next
  case False
  let ?c = "p_capacity r" and ?w = "Suc (p_len r) = p_capacity r"
  let ?t = "t\<lparr>control := (control t AND NOT TRB_CYCLE) OR of_bool_word True\<rparr>"
  let ?r = "\<lparr>p_entries = (p_entries r)[p_len r := ?t, ?c := link_trb 0 (\<not> ?w)],
    p_index = Suc (p_len r) mod ?c, p_cycle = \<not> ?w, p_len = Suc (p_len r)\<rparr>"
  from False assms have lt: "p_len r < ?c" and idx: "p_index r = p_len r" and cy: "p_cycle r"
    and len: "length (p_entries r) = Suc ?c" and two: "2 \<le> ?c"
    by (auto simp: producer_inv_def)
  have z: "Suc (p_len r) mod ?c = 0 \<longleftrightarrow> ?w" using lt by (auto simp: mod_if Suc_lessI)
  have push: "producer_push r t = Some (?r, Inr (p_len r))"
    using False lt idx cy len z by (auto simp: producer_push_def Let_def)
  have cap: "p_capacity ?r = ?c" using len by (simp add: p_capacity_def)
  have "strip_cycle ?t = strip_cycle t"
  proof -
    have "((control t AND NOT TRB_CYCLE) OR of_bool_word True) AND NOT TRB_CYCLE =
        control t AND NOT TRB_CYCLE"
      by (rule bit_word_eqI) (auto simp: of_bool_word_def TRB_CYCLE_def bit_simps)
    then show ?thesis by (simp add: strip_cycle_def)
  qed
  moreover have "producer_inv ?r"
    unfolding producer_inv_def cap using lt two len by (auto simp: mod_if)
  ultimately show ?thesis
    using push cap lt len False by (intro exI [of _ ?r] exI [of _ "Inr (p_len r)"]) auto
qed

lemma producer_push_next_entry_example:
  "\<exists>r r' res. producer_new 3 = Some r \<and> producer_push r trb_default = Some (r', res) \<and>
     res = Inr 0 \<and> trb_cycle (p_entries r' ! 0)"
proof -
  obtain r where new: "producer_new 3 = Some r" by (simp add: producer_new_def)
  then have "producer_inv r" and "p_capacity r = 3" and "p_len r = 0"
    using producer_new_inv by auto
  with producer_push_next_entry [of r trb_default] new show ?thesis by auto
qed

text \<open>
  A port status change event is recognised exactly when the TRB has
  that type, whatever its cycle bit, and names a port other than 0; the port is the low byte of
  the parameter.
\<close>

lemma port_status_change_event_iff:
  "port_status_change_event e = Some p \<longleftrightarrow>
     control e AND TRB_TYPE_MASK = TRB_TYPE_PORT_STATUS_CHANGE \<and> p \<noteq> 0 \<and> p = ucast (parameter e)"
proof -
  have "(ucast (parameter e AND 0xff) :: u8) = ucast (parameter e)"
  proof -
    have m: "(0xff :: u64) = mask 8" by (simp add: mask_eq_exp_minus_1)
    show ?thesis unfolding m by (intro bit_word_eqI) (simp add: bit_simps)
  qed
  then show ?thesis by (auto simp: port_status_change_event_def Let_def)
qed

end
