(* ===== verification/UsbDesc.thy ===== *)
theory UsbDesc
  imports Prelude
begin

text \<open>
  The descriptor parser of \<^verbatim>\<open>kernel/src/xhci/usb.rs\<close>, which reads the configuration
  descriptor a USB device sends, together with the control requests of the same file. The bytes come
  from the device, so that the parser has to accept every byte string: an index out of range is a
  panic (\<^term>\<open>None\<close>) and the theorems show that it never happens. The loops over the
  descriptors are shown to compute a single pass over the list of raw descriptors.
\<close>

section \<open>Raw descriptors\<close>

datatype DescriptorError = Truncated | ZeroLength | InvalidLength | MissingDevice
  | MissingConfiguration | Unsupported

record interface_descriptor =
  i_number :: u8
  alternate_setting :: u8
  i_class :: u8
  i_subclass :: u8
  i_protocol :: u8

record endpoint_descriptor =
  e_address :: u8
  e_attributes :: u8
  e_max_packet_size :: u16
  e_interval :: u8

record hid_boot_endpoint =
  h_configuration_value :: u8
  h_interface_number :: u8
  h_endpoint_address :: u8
  h_max_packet_size :: u16
  h_interval :: u8
  h_protocol :: u8

record msc_bot_interface =
  m_configuration_value :: u8
  m_interface_number :: u8
  bulk_in :: endpoint_descriptor
  bulk_out :: endpoint_descriptor

definition configuration_parse :: "bytes \<Rightarrow> (DescriptorError + (bytes \<times> u8)) option" where
  "configuration_parse data =
     (if length data < 2 then Some (Inl Truncated)
      else do {
        d0 \<leftarrow> nth_opt data 0;
        d1 \<leftarrow> nth_opt data 1;
        if d0 = 0 then Some (Inl ZeroLength)
        else if d1 \<noteq> 2 then Some (Inl MissingConfiguration)
        else if d0 \<noteq> 9 then Some (Inl InvalidLength)
        else if length data < 9 then Some (Inl Truncated)
        else do {
          d2 \<leftarrow> nth_opt data 2;
          d3 \<leftarrow> nth_opt data 3;
          d5 \<leftarrow> nth_opt data 5;
          let total_length = unat (u16_from_le d2 d3);
          if total_length < 9 \<or> length data < total_length then Some (Inl Truncated)
          else if d5 = 0 then Some (Inl MissingConfiguration)
          else do { bs \<leftarrow> slice data 0 total_length; Some (Inr (bs, d5)) } } })"

text \<open>An iterator is the byte string and an offset; each operation returns the new offset.\<close>

definition next_raw :: "bytes \<Rightarrow> nat \<Rightarrow> (DescriptorError + (nat \<times> bytes option)) option" where
  "next_raw bs offset =
     (if offset = length bs then Some (Inr (offset, None))
      else do {
        rest \<leftarrow> checked_sub (length bs) offset;
        if rest < 2 then Some (Inl Truncated)
        else do {
          b \<leftarrow> nth_opt bs offset;
          let len = unat b;
          if len = 0 then Some (Inl ZeroLength)
          else if len < 2 then Some (Inl InvalidLength)
          else (case checked_add offset len of
              None \<Rightarrow> Some (Inl Truncated)
            | Some end \<Rightarrow>
                if length bs < end then Some (Inl Truncated)
                else do { d \<leftarrow> slice bs offset end; Some (Inr (end, Some d)) }) } })"

lemma next_raw_advance:
  "next_raw bs offset = Some (Inr (offset', Some raw)) \<Longrightarrow>
     offset + 2 \<le> offset' \<and> offset' \<le> length bs \<and> 2 \<le> length raw"
  by (auto simp: next_raw_def Let_def slice_def checked_sub_def checked_add_def
      split: if_splits option.splits bind_splits)

function next_interface ::
  "bytes \<Rightarrow> nat \<Rightarrow> (DescriptorError + (nat \<times> interface_descriptor option)) option" where
  "next_interface bs offset =
     try_bind (next_raw bs offset) (\<lambda>(offset', r).
       (case r of
          None \<Rightarrow> Some (Inr (offset', None))
        | Some raw \<Rightarrow> do {
            r1 \<leftarrow> nth_opt raw 1;
            if r1 = 4 then
              (if length raw < 9 then Some (Inl InvalidLength)
               else do {
                 r2 \<leftarrow> nth_opt raw 2; r3 \<leftarrow> nth_opt raw 3; r5 \<leftarrow> nth_opt raw 5;
                 r6 \<leftarrow> nth_opt raw 6; r7 \<leftarrow> nth_opt raw 7;
                 Some (Inr (offset', Some \<lparr>i_number = r2, alternate_setting = r3, i_class = r5,
                                           i_subclass = r6, i_protocol = r7\<rparr>)) })
            else next_interface bs offset' }))"
  by pat_completeness auto
termination
  by (relation "measure (\<lambda>(bs, offset). length bs - offset)") (auto dest!: next_raw_advance)

function next_endpoint ::
  "bytes \<Rightarrow> nat \<Rightarrow> (DescriptorError + (nat \<times> endpoint_descriptor option)) option" where
  "next_endpoint bs offset =
     (if offset < length bs then
        let start = offset in
        try_bind (next_raw bs offset) (\<lambda>(offset', r).
          (case r of
             None \<Rightarrow> Some (Inr (offset', None))
           | Some raw \<Rightarrow> do {
               r1 \<leftarrow> nth_opt raw 1;
               if r1 = 4 then Some (Inr (start, None))
               else if r1 = 5 then
                 (if length raw < 7 then Some (Inl InvalidLength)
                  else do {
                    r2 \<leftarrow> nth_opt raw 2; r3 \<leftarrow> nth_opt raw 3; r4 \<leftarrow> nth_opt raw 4;
                    r5 \<leftarrow> nth_opt raw 5; r6 \<leftarrow> nth_opt raw 6;
                    Some (Inr (offset', Some \<lparr>e_address = r2, e_attributes = r3 AND 0x03,
                       e_max_packet_size = u16_from_le r4 r5 AND 0x07ff, e_interval = r6\<rparr>)) })
               else next_endpoint bs offset' }))
      else Some (Inr (offset, None)))"
  by pat_completeness auto
termination
  by (relation "measure (\<lambda>(bs, offset). length bs - offset)") (auto dest!: next_raw_advance)

declare next_interface.simps [simp del] next_endpoint.simps [simp del]

lemma next_interface_advance:
  "next_interface bs offset = Some (Inr (offset', Some i)) \<Longrightarrow> offset < offset' \<and> offset' \<le> length bs"
proof (induction bs offset rule: next_interface.induct)
  case (1 bs offset)
  from "1.prems" obtain o1 r where r: "next_raw bs offset = Some (Inr (o1, r))"
    by (subst (asm) next_interface.simps) (auto simp: try_bind_Inr)
  with "1.prems" obtain raw where raw: "r = Some raw"
    by (subst (asm) next_interface.simps) (cases r; simp)
  note adv = next_raw_advance [OF r [unfolded raw]]
  show ?case
  proof (cases "raw ! 1 = 4")
    case True
    then show ?thesis using "1.prems" r raw adv
      by (subst (asm) next_interface.simps) (auto split: if_splits)
  next
    case False
    then have "next_interface bs o1 = Some (Inr (offset', Some i))"
      using "1.prems" r raw adv by (subst (asm) next_interface.simps) simp
    moreover have "nth_opt raw 1 = Some (raw ! 1)" using adv by simp
    ultimately show ?thesis using "1.IH" [OF r refl raw] False adv by fastforce
  qed
qed

lemma next_endpoint_advance:
  "next_endpoint bs offset = Some (Inr (offset', r)) \<Longrightarrow>
     offset \<le> offset' \<and> (offset \<le> length bs \<longrightarrow> offset' \<le> length bs) \<and>
     (r \<noteq> None \<longrightarrow> offset < offset' \<and> offset' \<le> length bs)"
proof (induction bs offset rule: next_endpoint.induct)
  case (1 bs offset)
  show ?case
  proof (cases "offset < length bs")
    case False
    then show ?thesis using "1.prems" by (subst (asm) next_endpoint.simps) simp
  next
    case lt: True
    from "1.prems" lt obtain o1 s where s: "next_raw bs offset = Some (Inr (o1, s))"
      by (subst (asm) next_endpoint.simps) (auto simp: try_bind_Inr)
    show ?thesis
    proof (cases s)
      case None
      then have "o1 = offset" using s by (auto simp: next_raw_def Let_def checked_sub_def checked_add_def
          split: if_splits option.splits bind_splits)
      with None s "1.prems" lt show ?thesis by (subst (asm) next_endpoint.simps) auto
    next
      case (Some raw)
      note adv = next_raw_advance [OF s [unfolded Some]]
      have r1: "nth_opt raw 1 = Some (raw ! 1)" using adv by simp
      show ?thesis
      proof (cases "raw ! 1 = 4 \<or> raw ! 1 = 5")
        case True
        then show ?thesis using "1.prems" s Some adv lt r1
          by (subst (asm) next_endpoint.simps) (auto split: if_splits)
      next
        case False
        then have "next_endpoint bs o1 = Some (Inr (offset', r))"
          using "1.prems" s Some lt r1 by (subst (asm) next_endpoint.simps) simp
        with "1.IH" [OF lt refl s refl Some r1] False adv show ?thesis by fastforce
      qed
    qed
  qed
qed

section \<open>Selecting an interface\<close>

function hid_endpoints ::
  "bytes \<Rightarrow> u8 \<Rightarrow> interface_descriptor \<Rightarrow> nat \<Rightarrow> hid_boot_endpoint option \<Rightarrow>
     (DescriptorError + (nat \<times> hid_boot_endpoint option)) option" where
  "hid_endpoints bs cv iface offset selected =
     (let hid_boot = alternate_setting iface = 0 \<and> i_class iface = 0x03 \<and>
            i_subclass iface = 0x01 \<and> (i_protocol iface = 1 \<or> i_protocol iface = 2) in
        try_bind (next_endpoint bs offset) (\<lambda>(offset', r).
          (case r of
             None \<Rightarrow> Some (Inr (offset', selected))
           | Some ep \<Rightarrow>
               if hid_boot \<and> e_address ep AND 0x80 \<noteq> 0 \<and> e_attributes ep = 0x03 \<and>
                  e_max_packet_size ep \<noteq> 0 \<and> e_interval ep \<noteq> 0 then
                 (if selected \<noteq> None then Some (Inl Unsupported)
                  else hid_endpoints bs cv iface offset'
                    (Some \<lparr>h_configuration_value = cv, h_interface_number = i_number iface,
                           h_endpoint_address = e_address ep,
                           h_max_packet_size = e_max_packet_size ep,
                           h_interval = e_interval ep, h_protocol = i_protocol iface\<rparr>))
               else hid_endpoints bs cv iface offset' selected)))"
  by pat_completeness auto
termination
  by (relation "measure (\<lambda>(bs, cv, iface, offset, selected). length bs - offset)")
    (auto dest!: next_endpoint_advance)

declare hid_endpoints.simps [simp del]

lemma hid_endpoints_advance:
  "hid_endpoints bs cv iface offset selected = Some (Inr (offset', r)) \<Longrightarrow> offset \<le> offset'"
proof (induction bs cv iface offset selected rule: hid_endpoints.induct)
  case (1 bs cv iface offset selected)
  from "1.prems" obtain o1 s where s: "next_endpoint bs offset = Some (Inr (o1, s))"
    by (subst (asm) hid_endpoints.simps) (auto simp: try_bind_Inr Let_def)
  have adv: "offset \<le> o1" using next_endpoint_advance [OF s] by simp
  show ?case
  proof (cases s)
    case None
    then show ?thesis using "1.prems" s adv by (subst (asm) hid_endpoints.simps) (simp add: Let_def)
  next
    case (Some ep)
    have "o1 \<le> offset'"
      using "1.prems" "1.IH" [OF refl s refl Some] s Some
      by (subst (asm) hid_endpoints.simps) (auto simp: Let_def split: if_splits)
    then show ?thesis using adv by auto
  qed
qed

function hid_interfaces ::
  "bytes \<Rightarrow> u8 \<Rightarrow> nat \<Rightarrow> hid_boot_endpoint option \<Rightarrow>
     (DescriptorError + hid_boot_endpoint option) option" where
  "hid_interfaces bs cv offset selected =
     try_bind (next_interface bs offset) (\<lambda>(offset', r).
       (case r of
          None \<Rightarrow> Some (Inr selected)
        | Some iface \<Rightarrow>
            try_bind (hid_endpoints bs cv iface offset' selected) (\<lambda>(offset'', selected').
              hid_interfaces bs cv offset'' selected')))"
  by pat_completeness auto
termination
  by (relation "measure (\<lambda>(bs, cv, offset, selected). length bs - offset)")
    (auto dest!: next_interface_advance hid_endpoints_advance)

definition parse_hid_boot_endpoint :: "bytes \<Rightarrow> (DescriptorError + hid_boot_endpoint) option" where
  "parse_hid_boot_endpoint data =
     try_bind (configuration_parse data) (\<lambda>(bs, cv).
       try_bind (hid_interfaces bs cv 9 None) (\<lambda>selected.
         (case selected of None \<Rightarrow> Some (Inl Unsupported) | Some e \<Rightarrow> Some (Inr e))))"

definition parse_configuration :: "bytes \<Rightarrow> (DescriptorError + hid_boot_endpoint) option" where
  "parse_configuration data = parse_hid_boot_endpoint data"

definition is_bot :: "interface_descriptor \<Rightarrow> bool" where
  "is_bot iface \<longleftrightarrow> alternate_setting iface = 0 \<and> i_class iface = 0x08 \<and>
     i_subclass iface = 0x06 \<and> i_protocol iface = 0x50"

type_synonym bulk_pair = "endpoint_descriptor option \<times> endpoint_descriptor option"

function msc_endpoints ::
  "bytes \<Rightarrow> bool \<Rightarrow> nat \<Rightarrow> bulk_pair \<Rightarrow> (DescriptorError + (nat \<times> bulk_pair)) option" where
  "msc_endpoints bs bot_if offset bulk =
     try_bind (next_endpoint bs offset) (\<lambda>(offset', r).
       (case r of
          None \<Rightarrow> Some (Inr (offset', bulk))
        | Some ep \<Rightarrow>
            if bot_if \<and> e_attributes ep = 0x02 \<and> e_max_packet_size ep \<noteq> 0 then
              (if e_address ep AND 0x80 \<noteq> 0 then
                 (if fst bulk \<noteq> None then Some (Inl Unsupported)
                  else msc_endpoints bs bot_if offset' (Some ep, snd bulk))
               else
                 (if snd bulk \<noteq> None then Some (Inl Unsupported)
                  else msc_endpoints bs bot_if offset' (fst bulk, Some ep)))
            else msc_endpoints bs bot_if offset' bulk))"
  by pat_completeness auto
termination
  by (relation "measure (\<lambda>(bs, bot_if, offset, bulk). length bs - offset)")
    (auto dest!: next_endpoint_advance)

declare msc_endpoints.simps [simp del]

lemma msc_endpoints_advance:
  "msc_endpoints bs bot_if offset bulk = Some (Inr (offset', r)) \<Longrightarrow> offset \<le> offset'"
proof (induction bs bot_if offset bulk rule: msc_endpoints.induct)
  case (1 bs bot_if offset bulk)
  from "1.prems" obtain o1 s where s: "next_endpoint bs offset = Some (Inr (o1, s))"
    by (subst (asm) msc_endpoints.simps) (auto simp: try_bind_Inr)
  have adv: "offset \<le> o1" using next_endpoint_advance [OF s] by simp
  show ?case
  proof (cases s)
    case None
    then show ?thesis using "1.prems" s adv by (subst (asm) msc_endpoints.simps) simp
  next
    case (Some ep)
    have "o1 \<le> offset'"
      using "1.prems" "1.IH" [OF s refl Some] s Some
      by (subst (asm) msc_endpoints.simps) (auto split: if_splits)
    then show ?thesis using adv by auto
  qed
qed

function msc_interfaces ::
  "bytes \<Rightarrow> u8 \<Rightarrow> nat \<Rightarrow> msc_bot_interface option \<Rightarrow>
     (DescriptorError + msc_bot_interface option) option" where
  "msc_interfaces bs cv offset selected =
     try_bind (next_interface bs offset) (\<lambda>(offset', r).
       (case r of
          None \<Rightarrow> Some (Inr selected)
        | Some iface \<Rightarrow>
            try_bind (msc_endpoints bs (is_bot iface) offset' (None, None)) (\<lambda>(offset'', bulk).
              (case (is_bot iface, bulk) of
                 (True, Some b_in, Some b_out) \<Rightarrow>
                   (if selected \<noteq> None then Some (Inl Unsupported)
                    else msc_interfaces bs cv offset''
                      (Some \<lparr>m_configuration_value = cv, m_interface_number = i_number iface,
                             bulk_in = b_in, bulk_out = b_out\<rparr>))
               | _ \<Rightarrow> msc_interfaces bs cv offset'' selected))))"
  by pat_completeness auto
termination
  by (relation "measure (\<lambda>(bs, cv, offset, selected). length bs - offset)")
    (auto dest!: next_interface_advance msc_endpoints_advance)

definition parse_msc_bot_interface :: "bytes \<Rightarrow> (DescriptorError + msc_bot_interface) option" where
  "parse_msc_bot_interface data =
     try_bind (configuration_parse data) (\<lambda>(bs, cv).
       try_bind (msc_interfaces bs cv 9 None) (\<lambda>selected.
         (case selected of None \<Rightarrow> Some (Inl Unsupported) | Some e \<Rightarrow> Some (Inr e))))"

declare hid_interfaces.simps [simp del] msc_interfaces.simps [simp del]

section \<open>Control requests\<close>

record setup_request =
  bm_request_type :: u8
  s_request :: u8
  s_value :: u16
  s_index :: u16
  s_length :: u16

definition get_descriptor :: "u8 \<Rightarrow> u16 \<Rightarrow> setup_request" where
  "get_descriptor descriptor_type len =
     \<lparr>bm_request_type = 0x80, s_request = 6, s_value = push_bit 8 (ucast descriptor_type),
      s_index = 0, s_length = len\<rparr>"

definition set_configuration :: "u8 \<Rightarrow> setup_request" where
  "set_configuration v =
     \<lparr>bm_request_type = 0, s_request = 9, s_value = ucast v, s_index = 0, s_length = 0\<rparr>"

definition set_idle :: "u8 \<Rightarrow> setup_request" where
  "set_idle iface =
     \<lparr>bm_request_type = 0x21, s_request = 10, s_value = 0, s_index = ucast iface, s_length = 0\<rparr>"

section \<open>A single pass over the raw descriptors\<close>

lemma next_raw_cases:
  assumes "offset \<le> length bs"
  obtains (end_of) "offset = length bs" and "next_raw bs offset = Some (Inr (offset, None))"
  | (error) e where "offset < length bs" and "next_raw bs offset = Some (Inl e)"
  | (raw) offset' raw where "next_raw bs offset = Some (Inr (offset', Some raw))"
      and "offset < length bs" and "offset < offset'" and "offset' \<le> length bs" and "2 \<le> length raw"
proof (cases "offset = length bs")
  case True
  then show thesis by (intro end_of) (simp_all add: next_raw_def)
next
  case False
  with assms have lt: "offset < length bs" by simp
  have "next_raw bs offset \<noteq> None" and "\<And>o'. next_raw bs offset \<noteq> Some (Inr (o', None))"
    using lt by (auto simp: next_raw_def Let_def checked_sub_def checked_add_def slice_def split: if_splits)
  then obtain x where x: "next_raw bs offset = Some x" and ne: "\<And>o'. x \<noteq> Inr (o', None)" by auto
  show thesis
  proof (cases x)
    case (Inl e)
    with x lt show thesis by (intro error) auto
  next
    case (Inr y)
    with x ne obtain o' r where "next_raw bs offset = Some (Inr (o', Some r))"
      by (metis option.exhaust prod.exhaust)
    with next_raw_advance [OF this] lt show thesis by (intro raw) auto
  qed
qed

function raw_list :: "bytes \<Rightarrow> nat \<Rightarrow> bytes list \<times> DescriptorError option" where
  "raw_list bs offset =
     (case next_raw bs offset of
        Some (Inr (offset', Some raw)) \<Rightarrow>
          (let (ds, e) = raw_list bs offset' in (raw # ds, e))
      | Some (Inl e) \<Rightarrow> ([], Some e)
      | _ \<Rightarrow> ([], None))"
  by pat_completeness auto
termination
  by (relation "measure (\<lambda>(bs, offset). length bs - offset)") (auto dest!: next_raw_advance)

declare raw_list.simps [simp del]

definition decode_interface :: "bytes \<Rightarrow> interface_descriptor" where
  "decode_interface d = \<lparr>i_number = d ! 2, alternate_setting = d ! 3, i_class = d ! 5,
     i_subclass = d ! 6, i_protocol = d ! 7\<rparr>"

definition decode_endpoint :: "bytes \<Rightarrow> endpoint_descriptor" where
  "decode_endpoint d = \<lparr>e_address = d ! 2, e_attributes = d ! 3 AND 0x03,
     e_max_packet_size = u16_from_le (d ! 4) (d ! 5) AND 0x07ff, e_interval = d ! 6\<rparr>"

definition is_hid_boot :: "interface_descriptor \<Rightarrow> bool" where
  "is_hid_boot iface \<longleftrightarrow> alternate_setting iface = 0 \<and> i_class iface = 0x03 \<and>
     i_subclass iface = 0x01 \<and> (i_protocol iface = 1 \<or> i_protocol iface = 2)"

definition is_interrupt_in :: "endpoint_descriptor \<Rightarrow> bool" where
  "is_interrupt_in ep \<longleftrightarrow> e_address ep AND 0x80 \<noteq> 0 \<and> e_attributes ep = 0x03 \<and>
     e_max_packet_size ep \<noteq> 0 \<and> e_interval ep \<noteq> 0"

definition hid_endpoint_of :: "u8 \<Rightarrow> interface_descriptor \<Rightarrow> endpoint_descriptor \<Rightarrow> hid_boot_endpoint" where
  "hid_endpoint_of cv iface ep =
     \<lparr>h_configuration_value = cv, h_interface_number = i_number iface,
      h_endpoint_address = e_address ep, h_max_packet_size = e_max_packet_size ep,
      h_interval = e_interval ep, h_protocol = i_protocol iface\<rparr>"

text \<open>
  The specification of the selection: one pass over the raw descriptors that remembers the current
  interface and the endpoint selected so far.
\<close>

fun hid_scan ::
  "u8 \<Rightarrow> interface_descriptor option \<Rightarrow> hid_boot_endpoint option \<Rightarrow> bytes list \<Rightarrow>
     DescriptorError option \<Rightarrow> DescriptorError + hid_boot_endpoint option" where
  "hid_scan cv cur sel [] err = (case err of None \<Rightarrow> Inr sel | Some e \<Rightarrow> Inl e)"
| "hid_scan cv cur sel (d # ds) err =
     (if d ! 1 = 4 then
        (if length d < 9 then Inl InvalidLength
         else hid_scan cv (Some (decode_interface d)) sel ds err)
      else
        (case cur of
           Some iface \<Rightarrow>
             if d ! 1 = 5 then
               (if length d < 7 then Inl InvalidLength
                else if is_hid_boot iface \<and> is_interrupt_in (decode_endpoint d) then
                  (if sel \<noteq> None then Inl Unsupported
                   else hid_scan cv cur (Some (hid_endpoint_of cv iface (decode_endpoint d))) ds err)
                else hid_scan cv cur sel ds err)
             else hid_scan cv cur sel ds err
         | None \<Rightarrow> hid_scan cv cur sel ds err))"

lemma next_interface_raw:
  assumes "next_raw bs offset = Some (Inr (o1, Some raw))" and "2 \<le> length raw"
  shows "next_interface bs offset =
    (if raw ! 1 = 4 then
       (if length raw < 9 then Some (Inl InvalidLength)
        else Some (Inr (o1, Some (decode_interface raw))))
     else next_interface bs o1)"
  using assms by (subst next_interface.simps) (simp add: decode_interface_def)

lemma next_endpoint_raw:
  assumes "next_raw bs offset = Some (Inr (o1, Some raw))" and "2 \<le> length raw"
    and "offset < length bs"
  shows "next_endpoint bs offset =
    (if raw ! 1 = 4 then Some (Inr (offset, None))
     else if raw ! 1 = 5 then
       (if length raw < 7 then Some (Inl InvalidLength)
        else Some (Inr (o1, Some (decode_endpoint raw))))
     else next_endpoint bs o1)"
  using assms by (subst next_endpoint.simps) (simp add: decode_endpoint_def)

text \<open>The rest of the work once an interface was read.\<close>

definition hid_rest ::
  "bytes \<Rightarrow> u8 \<Rightarrow> interface_descriptor \<Rightarrow> nat \<Rightarrow> hid_boot_endpoint option \<Rightarrow>
     (DescriptorError + hid_boot_endpoint option) option" where
  "hid_rest bs cv iface offset sel =
     try_bind (hid_endpoints bs cv iface offset sel) (\<lambda>(o1, s). hid_interfaces bs cv o1 s)"

lemma hid_interfaces_raw:
  assumes "next_raw bs offset = Some (Inr (o1, Some raw))" and "2 \<le> length raw"
  shows "hid_interfaces bs cv offset sel =
    (if raw ! 1 = 4 then
       (if length raw < 9 then Some (Inl InvalidLength)
        else hid_rest bs cv (decode_interface raw) o1 sel)
     else hid_interfaces bs cv o1 sel)"
  using next_interface_raw [OF assms]
  by (simp add: hid_interfaces.simps [of bs cv offset] hid_interfaces.simps [of bs cv o1] hid_rest_def)

lemma hid_endpoints_skip:
  "next_endpoint bs offset = next_endpoint bs o1 \<Longrightarrow>
     hid_endpoints bs cv iface offset sel = hid_endpoints bs cv iface o1 sel"
  unfolding hid_endpoints.simps [of bs cv iface offset sel] hid_endpoints.simps [of bs cv iface o1 sel]
  by simp

lemma hid_rest_raw:
  assumes "next_raw bs offset = Some (Inr (o1, Some raw))" and "2 \<le> length raw"
    and "offset < length bs"
  shows "hid_rest bs cv iface offset sel =
    (if raw ! 1 = 4 then hid_interfaces bs cv offset sel
     else if raw ! 1 = 5 then
       (if length raw < 7 then Some (Inl InvalidLength)
        else if is_hid_boot iface \<and> is_interrupt_in (decode_endpoint raw) then
          (if sel \<noteq> None then Some (Inl Unsupported)
           else hid_rest bs cv iface o1 (Some (hid_endpoint_of cv iface (decode_endpoint raw))))
        else hid_rest bs cv iface o1 sel)
     else hid_rest bs cv iface o1 sel)"
proof (cases "raw ! 1 = 4 \<or> raw ! 1 = 5")
  case True
  with next_endpoint_raw [OF assms] show ?thesis
    by (auto simp: hid_rest_def hid_endpoints.simps [of bs cv iface offset] is_hid_boot_def
        is_interrupt_in_def hid_endpoint_of_def)
next
  case False
  with next_endpoint_raw [OF assms] have "next_endpoint bs offset = next_endpoint bs o1" by simp
  from hid_endpoints_skip [OF this] False show ?thesis by (simp add: hid_rest_def)
qed

lemma raw_list_raw:
  "next_raw bs offset = Some (Inr (o1, Some raw)) \<Longrightarrow>
     raw_list bs offset = (raw # fst (raw_list bs o1), snd (raw_list bs o1))"
  by (simp add: raw_list.simps [of bs offset] split_beta)

lemma hid_scan_correct:
  assumes "offset \<le> length bs"
  shows "hid_interfaces bs cv offset sel =
      Some (hid_scan cv None sel (fst (raw_list bs offset)) (snd (raw_list bs offset))) \<and>
    (\<forall>iface. hid_rest bs cv iface offset sel =
      Some (hid_scan cv (Some iface) sel (fst (raw_list bs offset)) (snd (raw_list bs offset))))"
  using assms
proof (induction "length bs - offset" arbitrary: offset sel rule: less_induct)
  case less
  from less.prems show ?case
  proof (cases rule: next_raw_cases)
    case end_of
    then have "next_interface bs offset = Some (Inr (offset, None))"
      and "next_endpoint bs offset = Some (Inr (offset, None))"
      by (subst next_interface.simps, simp, subst next_endpoint.simps, simp)
    then have "hid_interfaces bs cv offset sel = Some (Inr sel)"
      and "\<And>i. hid_endpoints bs cv i offset sel = Some (Inr (offset, sel))"
      by (subst hid_interfaces.simps, simp, subst hid_endpoints.simps, simp)
    moreover have "raw_list bs offset = ([], None)" using end_of(2) by (subst raw_list.simps) simp
    ultimately show ?thesis by (simp add: hid_rest_def)
  next
    case (error e)
    then have "next_interface bs offset = Some (Inl e)" and "next_endpoint bs offset = Some (Inl e)"
      by (subst next_interface.simps, simp, subst next_endpoint.simps, simp)
    then have "hid_interfaces bs cv offset sel = Some (Inl e)"
      and "\<And>i. hid_endpoints bs cv i offset sel = Some (Inl e)"
      by (subst hid_interfaces.simps, simp, subst hid_endpoints.simps, simp)
    moreover have "raw_list bs offset = ([], Some e)" using error(2) by (subst raw_list.simps) simp
    ultimately show ?thesis by (simp add: hid_rest_def)
  next
    case (raw o1 d)
    then have "length bs - o1 < length bs - offset" and "o1 \<le> length bs" by auto
    note IH = less.hyps [OF this]
    show ?thesis
      unfolding hid_rest_raw [OF raw(1,5,2)] hid_interfaces_raw [OF raw(1,5)] raw_list_raw [OF raw(1)]
      by (auto simp: IH)
  qed
qed

lemma configuration_parse_ok:
  "configuration_parse data \<noteq> None"
  "configuration_parse data = Some (Inr (bs, cv)) \<Longrightarrow>
     9 \<le> length bs \<and> length bs \<le> length data \<and> cv \<noteq> 0"
  by (auto simp: configuration_parse_def slice_def nth_opt_def Let_def split: if_splits)

lemma hid_scan_sound:
  assumes "hid_scan cv cur sel ds err = Inr (Some h)"
    and "\<And>i. cur = Some i \<Longrightarrow> i \<in> I" and "\<And>x. sel = Some x \<Longrightarrow> P x"
    and "\<And>d. d \<in> set ds \<Longrightarrow> d ! 1 = 4 \<Longrightarrow> 9 \<le> length d \<Longrightarrow> decode_interface d \<in> I"
    and "\<And>d i. d \<in> set ds \<Longrightarrow> d ! 1 = 5 \<Longrightarrow> 7 \<le> length d \<Longrightarrow> i \<in> I \<Longrightarrow> is_hid_boot i \<Longrightarrow>
      is_interrupt_in (decode_endpoint d) \<Longrightarrow> P (hid_endpoint_of cv i (decode_endpoint d))"
  shows "P h"
  using assms
proof (induction cv cur sel ds err rule: hid_scan.induct)
  case (1 cv cur sel err)
  then show ?case by (auto split: option.splits)
next
  case (2 cv cur sel d ds err)
  show ?case
  proof (cases "d ! 1 = 4")
    case True
    with "2.prems"(1) have "9 \<le> length d" by (auto split: if_splits)
    with True "2.IH"(1) "2.prems" show ?thesis by (fastforce split: if_splits)
  next
    case False
    show ?thesis
    proof (cases cur)
      case None
      with False "2.IH" "2.prems" show ?thesis by auto
    next
      case (Some i)
      with False "2.IH" "2.prems" show ?thesis by (fastforce split: if_splits)
    qed
  qed
qed

section \<open>The mass-storage selection\<close>

lemma next_interface_total: "offset \<le> length bs \<Longrightarrow> next_interface bs offset \<noteq> None"
proof (induction "length bs - offset" arbitrary: offset rule: less_induct)
  case less
  from less.prems show ?case
  proof (cases rule: next_raw_cases)
    case (raw o1 d)
    with less.hyps [of o1] show ?thesis unfolding next_interface_raw [OF raw(1,5)] by auto
  qed (subst next_interface.simps, simp)+
qed

lemma next_endpoint_total: "offset \<le> length bs \<Longrightarrow> next_endpoint bs offset \<noteq> None"
proof (induction "length bs - offset" arbitrary: offset rule: less_induct)
  case less
  from less.prems show ?case
  proof (cases rule: next_raw_cases)
    case (raw o1 d)
    with less.hyps [of o1] show ?thesis unfolding next_endpoint_raw [OF raw(1,5,2)] by auto
  qed (subst next_endpoint.simps, simp)+
qed

definition is_bulk :: "endpoint_descriptor \<Rightarrow> bool" where
  "is_bulk ep \<longleftrightarrow> e_attributes ep = 0x02 \<and> e_max_packet_size ep \<noteq> 0"

definition bulk_pair_ok :: "bulk_pair \<Rightarrow> bool" where
  "bulk_pair_ok b \<longleftrightarrow>
     (case fst b of None \<Rightarrow> True | Some ep \<Rightarrow> is_bulk ep \<and> e_address ep AND 0x80 \<noteq> 0) \<and>
     (case snd b of None \<Rightarrow> True | Some ep \<Rightarrow> is_bulk ep \<and> e_address ep AND 0x80 = 0)"

lemma msc_endpoints_ok:
  assumes "offset \<le> length bs" and "bulk_pair_ok bulk"
  shows "\<exists>r. msc_endpoints bs b offset bulk = Some r \<and>
    (\<forall>offset' bulk'. r = Inr (offset', bulk') \<longrightarrow> offset' \<le> length bs \<and> bulk_pair_ok bulk')"
  using assms
proof (induction "length bs - offset" arbitrary: offset bulk rule: less_induct)
  case less
  obtain r where r: "next_endpoint bs offset = Some r" using next_endpoint_total [OF less.prems(1)] by auto
  show ?case
  proof (cases r)
    case (Inl e)
    with r show ?thesis by (subst msc_endpoints.simps) simp
  next
    case (Inr p)
    then obtain o1 s where p: "next_endpoint bs offset = Some (Inr (o1, s))" using r by (cases p) auto
    note adv = next_endpoint_advance [OF p]
    show ?thesis
    proof (cases s)
      case None
      with p less.prems adv show ?thesis by (subst msc_endpoints.simps) auto
    next
      case (Some ep)
      with adv have IH: "bulk_pair_ok q \<Longrightarrow> \<exists>r. msc_endpoints bs b o1 q = Some r \<and>
          (\<forall>offset' bulk'. r = Inr (offset', bulk') \<longrightarrow> offset' \<le> length bs \<and> bulk_pair_ok bulk')" for q
        using less.hyps [of o1 q] by auto
      have "bulk_pair_ok (Some ep, snd bulk)" if "is_bulk ep" "e_address ep AND 0x80 \<noteq> 0"
        using less.prems(2) that by (simp add: bulk_pair_ok_def)
      moreover have "bulk_pair_ok (fst bulk, Some ep)" if "is_bulk ep" "e_address ep AND 0x80 = 0"
        using less.prems(2) that by (simp add: bulk_pair_ok_def)
      ultimately show ?thesis
        using p Some less.prems(2) IH
        by (subst msc_endpoints.simps) (auto simp: is_bulk_def simp del: split_paired_All)
    qed
  qed
qed

definition msc_ok :: "u8 \<Rightarrow> msc_bot_interface \<Rightarrow> bool" where
  "msc_ok cv m \<longleftrightarrow> m_configuration_value m = cv \<and>
     is_bulk (bulk_in m) \<and> e_address (bulk_in m) AND 0x80 \<noteq> 0 \<and>
     is_bulk (bulk_out m) \<and> e_address (bulk_out m) AND 0x80 = 0"

lemma msc_interfaces_ok:
  assumes "offset \<le> length bs" and "\<forall>m. sel = Some m \<longrightarrow> msc_ok cv m"
  shows "\<exists>r. msc_interfaces bs cv offset sel = Some r \<and> (\<forall>m. r = Inr (Some m) \<longrightarrow> msc_ok cv m)"
  using assms
proof (induction "length bs - offset" arbitrary: offset sel rule: less_induct)
  case less
  obtain r where r: "next_interface bs offset = Some r" using next_interface_total [OF less.prems(1)] by auto
  show ?case
  proof (cases "\<exists>o1 iface. r = Inr (o1, Some iface)")
    case False
    with r less.prems show ?thesis
      by (subst msc_interfaces.simps) (cases r; auto split: option.splits)
  next
    case True
    then obtain o1 iface where p: "next_interface bs offset = Some (Inr (o1, Some iface))" using r by auto
    note adv = next_interface_advance [OF p]
    obtain q where q: "msc_endpoints bs (is_bot iface) o1 (None, None) = Some q"
      "\<And>o2 bulk. q = Inr (o2, bulk) \<Longrightarrow> o2 \<le> length bs \<and> bulk_pair_ok bulk"
      using msc_endpoints_ok [of o1 bs "(None, None)" "is_bot iface"] adv by (auto simp: bulk_pair_ok_def)
    show ?thesis
    proof (cases q)
      case (Inl e)
      with p q show ?thesis by (subst msc_interfaces.simps) simp
    next
      case (Inr x)
      then obtain o2 b_in b_out where x: "q = Inr (o2, b_in, b_out)" by (cases x) auto
      have o2: "o1 \<le> o2" "o2 \<le> length bs" "bulk_pair_ok (b_in, b_out)"
        using msc_endpoints_advance q x by auto
      then have IH: "(\<forall>m. s = Some m \<longrightarrow> msc_ok cv m) \<Longrightarrow> \<exists>r. msc_interfaces bs cv o2 s = Some r \<and>
          (\<forall>m. r = Inr (Some m) \<longrightarrow> msc_ok cv m)" for s
        using less.hyps [of o2 s] adv by auto
      have new: "msc_ok cv \<lparr>m_configuration_value = cv, m_interface_number = n, bulk_in = i,
          bulk_out = ou\<rparr>" if "b_in = Some i" and "b_out = Some ou" for n i ou
        using o2(3) that by (simp add: msc_ok_def bulk_pair_ok_def)
      from p q(1) x less.prems(2) show ?thesis
        by (subst msc_interfaces.simps) (auto intro!: IH new split: bool.splits option.splits)
    qed
  qed
qed

section \<open>Properties\<close>

text \<open>
  Property C16 (HID descriptors, single pass). On every byte string a device may send, the two
  nested loops that look for a HID boot endpoint end, read no byte out of range, and compute the same
  result as one pass over the list of raw descriptors, errors included.
\<close>

theorem parse_hid_single_pass:
  "parse_hid_boot_endpoint data =
     (case configuration_parse data of
        Some (Inr (bs, cv)) \<Rightarrow>
          Some (case hid_scan cv None None (fst (raw_list bs 9)) (snd (raw_list bs 9)) of
                  Inl e \<Rightarrow> Inl e
                | Inr None \<Rightarrow> Inl Unsupported
                | Inr (Some h) \<Rightarrow> Inr h)
      | r \<Rightarrow> Some (Inl (projl (the r)))) \<and>
   parse_hid_boot_endpoint data \<noteq> None"
proof -
  obtain r where r: "configuration_parse data = Some r" using configuration_parse_ok(1) by auto
  show ?thesis
  proof (cases r)
    case (Inl e)
    then show ?thesis by (simp add: r parse_hid_boot_endpoint_def)
  next
    case (Inr x)
    then obtain bs cv where x: "r = Inr (bs, cv)" by (cases x) auto
    then have "9 \<le> length bs" using configuration_parse_ok(2) r by blast
    from hid_scan_correct [OF this, of cv None] show ?thesis
      by (auto simp: r x parse_hid_boot_endpoint_def split: sum.splits option.splits)
  qed
qed

text \<open>
  Property C37 (HID descriptors, soundness). An endpoint is selected only when the device's own
  bytes hold, as complete descriptors, a HID boot keyboard or mouse interface and an interrupt-in
  endpoint with a packet size and an interval, and it is that endpoint; the configuration value is
  not 0.
\<close>

theorem parse_hid_sound:
  assumes "parse_hid_boot_endpoint data = Some (Inr h)"
  shows "\<exists>bs cv d1 d2. configuration_parse data = Some (Inr (bs, cv)) \<and> cv \<noteq> 0 \<and>
    {d1, d2} \<subseteq> set (fst (raw_list bs 9)) \<and> d1 ! 1 = 4 \<and> 9 \<le> length d1 \<and> d2 ! 1 = 5 \<and> 7 \<le> length d2 \<and>
    is_hid_boot (decode_interface d1) \<and> is_interrupt_in (decode_endpoint d2) \<and>
    h = hid_endpoint_of cv (decode_interface d1) (decode_endpoint d2)"
proof -
  from assms obtain bs cv where c: "configuration_parse data = Some (Inr (bs, cv))"
    by (auto simp: parse_hid_boot_endpoint_def try_bind_Inr)
  let ?ds = "fst (raw_list bs 9)" and ?e = "snd (raw_list bs 9)"
  have "9 \<le> length bs" and cv: "cv \<noteq> 0" using configuration_parse_ok(2) [OF c] by auto
  with hid_scan_correct [of 9 bs cv None] assms c have "hid_scan cv None None ?ds ?e = Inr (Some h)"
    by (auto simp: parse_hid_boot_endpoint_def try_bind_Inr split: option.splits)
  then have "\<exists>d1 d2. {d1, d2} \<subseteq> set ?ds \<and> d1 ! 1 = 4 \<and> 9 \<le> length d1 \<and> d2 ! 1 = 5 \<and> 7 \<le> length d2 \<and>
      is_hid_boot (decode_interface d1) \<and> is_interrupt_in (decode_endpoint d2) \<and>
      h = hid_endpoint_of cv (decode_interface d1) (decode_endpoint d2)"
    by (rule hid_scan_sound
        [where I = "decode_interface ` {d \<in> set ?ds. d ! 1 = 4 \<and> 9 \<le> length d}"]) auto
  with c cv show ?thesis by blast
qed

definition keyboard_config :: bytes where
  "keyboard_config = [9, 2, 25, 0, 1, 1, 0, 0x80, 50, 9, 4, 0, 0, 1, 3, 1, 1, 0,
     7, 5, 0x81, 3, 8, 0, 10]"

lemmas raw_eval = next_raw_def checked_add_def checked_sub_def slice_def Let_def nth_opt_def

lemma keyboard_raw:
  "next_raw keyboard_config 9 = Some (Inr (18, Some [9, 4, 0, 0, 1, 3, 1, 1, 0]))"
  "next_raw keyboard_config 18 = Some (Inr (25, Some [7, 5, 0x81, 3, 8, 0, 10]))"
  "next_raw keyboard_config 25 = Some (Inr (25, None))"
  by (simp_all add: keyboard_config_def raw_eval)

lemma keyboard_raw_list:
  "raw_list keyboard_config 9 = ([[9, 4, 0, 0, 1, 3, 1, 1, 0], [7, 5, 0x81, 3, 8, 0, 10]], None)"
proof -
  have "raw_list keyboard_config 25 = ([], None)" by (subst raw_list.simps) (simp add: keyboard_raw)
  then show ?thesis
    by (simp add: raw_list_raw [OF keyboard_raw(1)] raw_list_raw [OF keyboard_raw(2)])
qed

lemma keyboard_config_parse:
  "parse_hid_boot_endpoint keyboard_config =
     Some (Inr \<lparr>h_configuration_value = 1, h_interface_number = 0, h_endpoint_address = 0x81,
       h_max_packet_size = 8, h_interval = 10, h_protocol = 1\<rparr>)"
proof -
  have c: "configuration_parse keyboard_config = Some (Inr (keyboard_config, 1))"
    by (simp add: configuration_parse_def keyboard_config_def slice_def Let_def u16_from_le_def)
  have "9 \<le> length keyboard_config" by (simp add: keyboard_config_def)
  from hid_scan_correct [OF this, of 1 None] show ?thesis
    by (simp add: parse_hid_boot_endpoint_def c keyboard_raw_list decode_interface_def
        decode_endpoint_def is_hid_boot_def is_interrupt_in_def hid_endpoint_of_def u16_from_le_def)
qed

theorem parse_hid_sound_witness:
  "\<exists>h bs cv d1 d2. parse_hid_boot_endpoint keyboard_config = Some (Inr h) \<and> h_interval h = 10 \<and>
     configuration_parse keyboard_config = Some (Inr (bs, cv)) \<and>
     is_hid_boot (decode_interface d1) \<and> is_interrupt_in (decode_endpoint d2) \<and>
     h = hid_endpoint_of cv (decode_interface d1) (decode_endpoint d2)"
proof -
  from parse_hid_sound [OF keyboard_config_parse] obtain bs cv d1 d2 where
    "configuration_parse keyboard_config = Some (Inr (bs, cv))" "is_hid_boot (decode_interface d1)"
    "is_interrupt_in (decode_endpoint d2)"
    "\<lparr>h_configuration_value = 1, h_interface_number = 0, h_endpoint_address = 0x81,
       h_max_packet_size = 8, h_interval = 10, h_protocol = 1\<rparr> =
     hid_endpoint_of cv (decode_interface d1) (decode_endpoint d2)" by blast
  with keyboard_config_parse show ?thesis by (metis hid_boot_endpoint.select_convs(5))
qed

text \<open>
  On every byte string the search for a Bulk-Only
  interface ends without a panic, and what it selects has a bulk endpoint of each direction with a
  packet size, and the configuration value the device announced.
\<close>

lemma parse_msc_total_sound:
  "\<exists>r. parse_msc_bot_interface data = Some r \<and>
     (\<forall>m. r = Inr m \<longrightarrow>
       (\<exists>bs cv. configuration_parse data = Some (Inr (bs, cv)) \<and> cv \<noteq> 0 \<and> msc_ok cv m))"
proof -
  obtain c where c: "configuration_parse data = Some c" using configuration_parse_ok(1) by auto
  show ?thesis
  proof (cases c)
    case (Inl e)
    then show ?thesis by (simp add: c parse_msc_bot_interface_def)
  next
    case (Inr x)
    then obtain bs cv where x: "c = Inr (bs, cv)" by (cases x) auto
    then have len: "9 \<le> length bs" and cv: "cv \<noteq> 0"
      using configuration_parse_ok(2) [of data bs cv] c by auto
    from msc_interfaces_ok [OF len, of None cv] obtain r where
      "msc_interfaces bs cv 9 None = Some r" "\<And>m. r = Inr (Some m) \<Longrightarrow> msc_ok cv m" by auto
    with cv show ?thesis
      by (cases r) (auto simp: c x parse_msc_bot_interface_def split: option.splits)
  qed
qed

definition mixed_config :: bytes where
  "mixed_config = [9, 2, 48, 0, 2, 1, 0, 0x80, 50, 9, 4, 0, 0, 1, 3, 1, 1, 0, 7, 5, 0x81, 3, 8, 0, 10,
     9, 4, 1, 0, 2, 8, 6, 0x50, 0, 7, 5, 0x02, 2, 64, 0, 0, 7, 5, 0x83, 2, 64, 0, 0]"

lemma mixed_raw:
  "next_raw mixed_config 9 = Some (Inr (18, Some [9, 4, 0, 0, 1, 3, 1, 1, 0]))"
  "next_raw mixed_config 18 = Some (Inr (25, Some [7, 5, 0x81, 3, 8, 0, 10]))"
  "next_raw mixed_config 25 = Some (Inr (34, Some [9, 4, 1, 0, 2, 8, 6, 0x50, 0]))"
  "next_raw mixed_config 34 = Some (Inr (41, Some [7, 5, 0x02, 2, 64, 0, 0]))"
  "next_raw mixed_config 41 = Some (Inr (48, Some [7, 5, 0x83, 2, 64, 0, 0]))"
  "next_raw mixed_config 48 = Some (Inr (48, None))"
  by (simp_all add: mixed_config_def raw_eval)

lemma mixed_length: "length mixed_config = 48"
  by (simp add: mixed_config_def)

lemma mixed_config_parse:
  "\<exists>m. parse_msc_bot_interface mixed_config = Some (Inr m) \<and> m_interface_number m = 1"
proof -
  have c: "configuration_parse mixed_config = Some (Inr (mixed_config, 1))"
    by (simp add: configuration_parse_def mixed_config_def slice_def Let_def u16_from_le_def)
  show ?thesis
    by (simp add: parse_msc_bot_interface_def c msc_interfaces.simps msc_endpoints.simps
        next_interface.simps next_endpoint.simps mixed_raw mixed_length is_bot_def u16_from_le_def
        cong: try_bind_weak_cong)
qed

lemma parse_msc_total_sound_example:
  "\<exists>m bs cv. parse_msc_bot_interface mixed_config = Some (Inr m) \<and> m_interface_number m = 1 \<and>
     configuration_parse mixed_config = Some (Inr (bs, cv)) \<and> msc_ok cv m"
  using parse_msc_total_sound [of mixed_config] mixed_config_parse by fastforce

end
