(* ===== verification/UsbPort.thy ===== *)
theory UsbPort
  imports Prelude
begin

text \<open>
  Root ports of \<^verbatim>\<open>kernel/src/xhci/usb.rs\<close>: the life cycle record of a port with its debounce
  and retry timers, the decoding of the Supported Protocol capability and the addressing state of the
  port scanner; with the port status bits of \<^verbatim>\<open>kernel/src/xhci/regs.rs\<close>.
\<close>

section \<open>Port status bits\<close>

definition PORTSC_CCS :: u32 where "PORTSC_CCS = push_bit 0 1"
definition PORTSC_PED :: u32 where "PORTSC_PED = push_bit 1 1"
definition PORTSC_PR :: u32 where "PORTSC_PR = push_bit 4 1"
definition PORTSC_PP :: u32 where "PORTSC_PP = push_bit 9 1"
definition PORTSC_CSC :: u32 where "PORTSC_CSC = push_bit 17 1"
definition PORTSC_PEC :: u32 where "PORTSC_PEC = push_bit 18 1"
definition PORTSC_WRC :: u32 where "PORTSC_WRC = push_bit 19 1"
definition PORTSC_OCC :: u32 where "PORTSC_OCC = push_bit 20 1"
definition PORTSC_PRC :: u32 where "PORTSC_PRC = push_bit 21 1"
definition PORTSC_PLC :: u32 where "PORTSC_PLC = push_bit 22 1"
definition PORTSC_CEC :: u32 where "PORTSC_CEC = push_bit 23 1"
definition PORTSC_CHANGE_MASK :: u32 where
  "PORTSC_CHANGE_MASK = PORTSC_CSC OR PORTSC_PEC OR PORTSC_WRC OR PORTSC_OCC OR PORTSC_PRC OR
     PORTSC_PLC OR PORTSC_CEC"

lemmas portsc_consts = PORTSC_CCS_def PORTSC_PED_def PORTSC_PR_def PORTSC_PP_def PORTSC_CSC_def
  PORTSC_PEC_def PORTSC_WRC_def PORTSC_OCC_def PORTSC_PRC_def PORTSC_PLC_def PORTSC_CEC_def
  PORTSC_CHANGE_MASK_def

section \<open>Supported protocols\<close>

record SupportedProtocol =
  major :: u8
  minor :: u8
  port_start :: u8
  port_count :: u8
  usb2 :: bool

definition supported_protocol :: "u32 \<Rightarrow> u32 \<Rightarrow> SupportedProtocol option" where
  "supported_protocol dword0 port_info =
     (if dword0 AND 0xff \<noteq> 2 then None
      else
        let maj = ucast (drop_bit 24 dword0 AND 0xff);
            mino = ucast (drop_bit 16 dword0 AND 0xff);
            start = ucast (port_info AND 0xff);
            cnt = ucast (drop_bit 8 port_info AND 0xff) in
        if start = 0 \<or> cnt = 0 then None
        else Some \<lparr>major = maj, minor = mino, port_start = start, port_count = cnt, usb2 = (maj = 2)\<rparr>)"

section \<open>The life cycle of a root port\<close>

datatype RootPortState = Disconnected | Debouncing (until: u64) | Resetting | Enumerating | Active
  | Removing | Failed (retry_at: u64) (failed_times: u8)

record PortRecord =
  port :: u8
  protocol :: SupportedProtocol
  portsc :: u32
  generation :: u64
  pstate :: RootPortState
  failures :: u8

definition DEBOUNCE_TICKS :: u64 where "DEBOUNCE_TICKS = 8"
definition RETRY_BASE_TICKS :: u64 where "RETRY_BASE_TICKS = 64"
definition RETRY_MAX_TICKS :: u64 where "RETRY_MAX_TICKS = 4096"

definition port_new :: "u8 \<Rightarrow> SupportedProtocol \<Rightarrow> u32 \<Rightarrow> PortRecord" where
  "port_new p proto sc = \<lparr>port = p, protocol = proto, portsc = sc, generation = 0,
     pstate = Disconnected, failures = 0\<rparr>"

definition acknowledge_changes :: "PortRecord \<Rightarrow> u32 \<Rightarrow> PortRecord \<times> u32" where
  "acknowledge_changes r sc =
     (let changes = sc AND PORTSC_CHANGE_MASK in
      (r\<lparr>portsc := sc AND NOT PORTSC_CHANGE_MASK\<rparr>, changes))"

definition observe :: "PortRecord \<Rightarrow> u32 \<Rightarrow> u64 \<Rightarrow> PortRecord \<times> u32" where
  "observe r sc now =
     (let was_connected = (portsc r AND PORTSC_CCS \<noteq> 0);
          (r, changes) = acknowledge_changes r sc;
          connected = (sc AND PORTSC_CCS \<noteq> 0);
          r = (if changes AND PORTSC_CSC \<noteq> 0 \<or> connected \<noteq> was_connected then
                 (let r = r\<lparr>generation := generation r + 1\<rparr> in
                  if connected then r\<lparr>pstate := Debouncing (wsat_add now DEBOUNCE_TICKS)\<rparr>
                  else r\<lparr>failures := 0, pstate := Removing\<rparr>)
               else r)
      in (r\<lparr>portsc := sc AND NOT PORTSC_CHANGE_MASK\<rparr>, changes))"

definition mark_active :: "PortRecord \<Rightarrow> PortRecord" where
  "mark_active r = r\<lparr>failures := 0, pstate := Active\<rparr>"

definition mark_stage :: "PortRecord \<Rightarrow> RootPortState \<Rightarrow> PortRecord" where
  "mark_stage r st = r\<lparr>pstate := st\<rparr>"

definition generation_matches :: "PortRecord \<Rightarrow> u64 \<Rightarrow> bool" where
  "generation_matches r g \<longleftrightarrow> generation r = g"

definition mark_failed :: "PortRecord \<Rightarrow> u64 \<Rightarrow> PortRecord" where
  "mark_failed r now =
     (let f = wsat_add (failures r) 1;
          shift = unat (min (wsat_sub f 1) 6);
          delay = min (push_bit shift RETRY_BASE_TICKS) RETRY_MAX_TICKS in
      r\<lparr>failures := f, pstate := Failed (wsat_add now delay) f\<rparr>)"

definition retry_due :: "PortRecord \<Rightarrow> u64 \<Rightarrow> bool" where
  "retry_due r now = (case pstate r of Failed at _ \<Rightarrow> at \<le> now | _ \<Rightarrow> False)"

section \<open>Addressing\<close>

datatype PortState = PDisconnected | PReset
  | Addressed (a_slot: u8) (a_speed: u8) (a_max_packet: u16) | PFailed

definition usb2_max_packet :: "u8 \<Rightarrow> u16" where
  "usb2_max_packet speed = (if speed = 3 then 64 else 8)"

definition advance_port :: "PortState \<Rightarrow> bool \<Rightarrow> bool \<Rightarrow> bool \<Rightarrow> u8 \<Rightarrow> u8 \<Rightarrow> PortState" where
  "advance_port st connected reset_ok address_ok sl speed =
     (case st of
        Addressed _ _ _ \<Rightarrow> st
      | _ \<Rightarrow>
          if \<not> connected then PDisconnected
          else if \<not> reset_ok \<or> \<not> address_ok \<or> sl = 0 then PFailed
          else Addressed sl speed (usb2_max_packet speed))"

section \<open>Lemmas\<close>

lemma wsat_add_unat:
  "unat (wsat_add a b) = min (unat a + unat b) (2 ^ LENGTH('a) - 1)" for a b :: "'a::len word"
proof (cases "unat a + unat b < 2 ^ LENGTH('a)")
  case True
  then show ?thesis by (simp add: wsat_add_def unat_add_lem [THEN iffD1])
next
  case False
  then show ?thesis by (simp add: wsat_add_def unsigned_minus_1_eq_mask mask_eq_exp_minus_1)
qed

lemma wsat_sub_unat: "unat (wsat_sub a b) = unat a - unat b"
  by (auto simp: wsat_sub_def unat_sub word_le_nat_alt)

lemma retry_delay:
  assumes "k \<le> 6"
  shows "unat (min (push_bit k RETRY_BASE_TICKS) RETRY_MAX_TICKS) = 64 * 2 ^ k"
proof -
  have "k \<in> {0, 1, 2, 3, 4, 5, 6}" using assms by auto
  then show ?thesis by (auto simp: RETRY_BASE_TICKS_def RETRY_MAX_TICKS_def)
qed

lemma mark_failed_timer:
  "unat (failures (mark_failed r now)) = min (unat (failures r) + 1) 255"
  "\<exists>at. pstate (mark_failed r now) = Failed at (failures (mark_failed r now)) \<and>
     unat at = min (unat now + 64 * 2 ^ (min (unat (failures r)) 6)) (2 ^ 64 - 1)"
proof -
  let ?f = "wsat_add (failures r) 1"
  show f: "unat (failures (mark_failed r now)) = min (unat (failures r) + 1) 255"
    by (simp add: mark_failed_def wsat_add_unat Let_def)
  have "unat (min (wsat_sub ?f 1) 6) = min (unat (wsat_sub ?f 1)) 6"
    by (simp add: min_def word_le_nat_alt)
  also have "\<dots> = min (unat (failures r)) 6"
    using unat_less [of "failures r"] by (simp add: wsat_sub_unat wsat_add_unat min_def)
  finally show "\<exists>at. pstate (mark_failed r now) = Failed at (failures (mark_failed r now)) \<and>
     unat at = min (unat now + 64 * 2 ^ (min (unat (failures r)) 6)) (2 ^ 64 - 1)"
    using retry_delay [of "min (unat (failures r)) 6"]
    by (simp add: mark_failed_def wsat_add_unat Let_def)
qed

text \<open>A run of failures, each at its own time.\<close>

definition fail_all :: "PortRecord \<Rightarrow> u64 list \<Rightarrow> PortRecord" where
  "fail_all r ts = foldl mark_failed r ts"

lemma fail_all_count:
  "unat (failures (fail_all r ts)) = min (unat (failures r) + length ts) 255"
proof (induction ts arbitrary: r)
  case Nil
  then show ?case using unat_less [of "failures r"] by (simp add: fail_all_def)
next
  case (Cons t ts)
  then show ?case by (simp add: fail_all_def mark_failed_timer(1) min_def)
qed

text \<open>
  The retry timer after \<open>n\<close> failures in a row is set to 64 ticks
  doubled \<open>n - 1\<close> times, at most six times (4096 ticks), from the time of the last failure; the
  counter and the timer saturate instead of wrapping, and the port is due for a retry exactly when
  the clock has reached the timer.
\<close>

lemma retry_backoff:
  "\<exists>at. pstate (fail_all (mark_active r) (ts @ [t])) = Failed at (failures (fail_all (mark_active r) (ts @ [t]))) \<and>
     unat at = min (unat t + 64 * 2 ^ min (length ts) 6) (2 ^ 64 - 1) \<and>
     unat (failures (fail_all (mark_active r) (ts @ [t]))) = min (length ts + 1) 255 \<and>
     (\<forall>now. retry_due (fail_all (mark_active r) (ts @ [t])) now \<longleftrightarrow> at \<le> now)"
proof -
  let ?r = "fail_all (mark_active r) ts"
  have c: "unat (failures ?r) = min (length ts) 255"
    using fail_all_count [of "mark_active r" ts] by (simp add: mark_active_def)
  have step: "fail_all (mark_active r) (ts @ [t]) = mark_failed ?r t" by (simp add: fail_all_def)
  have "min (min (length ts) 255) 6 = min (length ts) 6"
    and "min (min (length ts) 255) 254 = min (length ts) 254" by simp_all
  with mark_failed_timer [of ?r t] c show ?thesis
    unfolding step by (auto simp: retry_due_def)
qed

section \<open>Observing a port\<close>

definition connection_change :: "PortRecord \<Rightarrow> u32 \<Rightarrow> bool" where
  "connection_change r sc \<longleftrightarrow> sc AND PORTSC_CSC \<noteq> 0 \<or>
     (sc AND PORTSC_CCS \<noteq> 0) \<noteq> (portsc r AND PORTSC_CCS \<noteq> 0)"

lemma change_mask_csc: "(sc AND PORTSC_CHANGE_MASK) AND PORTSC_CSC = sc AND PORTSC_CSC"
  by (simp add: and.assoc portsc_consts)

lemma ccs_not_masked: "(sc AND NOT PORTSC_CHANGE_MASK) AND PORTSC_CCS = sc AND PORTSC_CCS"
  by (simp add: and.assoc portsc_consts)

lemma observe_eq:
  "observe r sc now =
     (let r' = (if connection_change r sc then
                  (if sc AND PORTSC_CCS \<noteq> 0
                   then r\<lparr>generation := generation r + 1, pstate := Debouncing (wsat_add now DEBOUNCE_TICKS)\<rparr>
                   else r\<lparr>generation := generation r + 1, failures := 0, pstate := Removing\<rparr>)
                else r)
      in (r'\<lparr>portsc := sc AND NOT PORTSC_CHANGE_MASK\<rparr>, sc AND PORTSC_CHANGE_MASK))"
  by (simp add: observe_def acknowledge_changes_def connection_change_def change_mask_csc Let_def)

text \<open>A sequence of samples of the status register, each with the time it was read.\<close>

fun observe_all :: "PortRecord \<Rightarrow> (u32 \<times> u64) list \<Rightarrow> PortRecord" where
  "observe_all r [] = r"
| "observe_all r ((sc, now) # xs) = observe_all (fst (observe r sc now)) xs"

fun changes_seen :: "PortRecord \<Rightarrow> (u32 \<times> u64) list \<Rightarrow> nat" where
  "changes_seen r [] = 0"
| "changes_seen r ((sc, now) # xs) =
     (if connection_change r sc then 1 else 0) + changes_seen (fst (observe r sc now)) xs"

lemma observe_all_generation:
  "generation (observe_all r xs) = generation r + of_nat (changes_seen r xs)"
proof (induction r xs rule: observe_all.induct)
  case (1 r)
  then show ?case by simp
next
  case (2 r sc now xs)
  then show ?case by (simp add: observe_eq Let_def)
qed

text \<open>
  Work that was started for a port remembers the port's
  generation. After any samples of the status register among which the connection changed at least
  once, and fewer than \<open>2 ^ 64\<close> times, the remembered generation no longer matches; without a
  connection change it still does, and neither the state of the port nor its failure count moved.
\<close>

lemma generation_detects_replug:
  assumes "changes_seen r xs < 2 ^ 64"
  shows "(generation_matches (observe_all r xs) (generation r) \<longleftrightarrow> changes_seen r xs = 0) \<and>
    (changes_seen r xs = 0 \<longrightarrow> pstate (observe_all r xs) = pstate r \<and>
      failures (observe_all r xs) = failures r)"
proof (intro conjI impI)
  let ?n = "changes_seen r xs"
  have "unat (of_nat ?n :: u64) = ?n" using assms by (simp add: unat_of_nat take_bit_nat_eq_self)
  then have "(of_nat ?n :: u64) = 0 \<longleftrightarrow> ?n = 0" by (metis unat_eq_zero)
  then show "generation_matches (observe_all r xs) (generation r) \<longleftrightarrow> ?n = 0"
    by (simp add: generation_matches_def observe_all_generation)
next
  assume "changes_seen r xs = 0"
  then show "pstate (observe_all r xs) = pstate r" and "failures (observe_all r xs) = failures r"
    by (induction r xs rule: observe_all.induct) (auto simp: observe_eq Let_def split: if_splits)
qed

definition some_protocol :: SupportedProtocol where
  "some_protocol = \<lparr>major = 2, minor = 0, port_start = 1, port_count = 4, usb2 = True\<rparr>"

lemma generation_detects_replug_example:
  "\<not> generation_matches (observe_all (port_new 1 some_protocol 0) [(0x20001, 10), (0x20000, 11)]) 0"
proof -
  let ?r = "port_new 1 some_protocol 0"
  have n: "changes_seen ?r [(0x20001, 10), (0x20000, 11)] = 2"
    by (simp add: connection_change_def observe_eq port_new_def portsc_consts Let_def)
  have "changes_seen ?r [(0x20001, 10), (0x20000, 11)] < 2 ^ 64" unfolding n by simp
  note use = generation_detects_replug [OF this, unfolded n]
  have "generation ?r = 0" by (simp add: port_new_def)
  with use show ?thesis by (metis zero_neq_numeral)
qed

section \<open>Addressing and protocols\<close>

fun advance_all :: "PortState \<Rightarrow> (bool \<times> bool \<times> bool \<times> u8 \<times> u8) list \<Rightarrow> PortState" where
  "advance_all st [] = st"
| "advance_all st ((c, ro, ao, sl, sp) # xs) = advance_all (advance_port st c ro ao sl sp) xs"

lemma advance_all_addressed: "advance_all (Addressed sl sp mp) xs = Addressed sl sp mp"
  by (induction xs) (auto simp: advance_port_def)

definition scan_succeeds :: "bool \<times> bool \<times> bool \<times> u8 \<times> u8 \<Rightarrow> bool" where
  "scan_succeeds x = (case x of (connected, reset_ok, address_ok, sl, _) \<Rightarrow>
     connected \<and> reset_ok \<and> address_ok \<and> sl \<noteq> 0)"

lemma advance_all_find:
  assumes "\<forall>a b c. st \<noteq> Addressed a b c"
  shows "advance_all st xs = Addressed sl sp mp \<longleftrightarrow>
     (\<exists>c ro ao. List.find scan_succeeds xs = Some (c, ro, ao, sl, sp)) \<and> mp = usb2_max_packet sp"
  using assms
proof (induction xs arbitrary: st)
  case Nil
  then show ?case by auto
next
  case (Cons x xs)
  obtain c ro ao s v where x: "x = (c, ro, ao, s, v)" by (cases x) auto
  show ?case
  proof (cases "scan_succeeds x")
    case True
    with Cons.prems have "advance_port st c ro ao s v = Addressed s v (usb2_max_packet v)"
      by (cases st) (auto simp: advance_port_def x scan_succeeds_def)
    with True show ?thesis by (auto simp: x advance_all_addressed)
  next
    case False
    with Cons.prems have "\<forall>a b d. advance_port st c ro ao s v \<noteq> Addressed a b d"
      by (cases st) (auto simp: advance_port_def x scan_succeeds_def)
    from Cons.IH [OF this] False show ?thesis by (auto simp: x)
  qed
qed

text \<open>
  However often the scanner advances a port, the port ends up addressed
  exactly when some scan found it connected, reset and addressed it and got a slot other than 0, and
  then it has the slot and speed of the first such scan: later scans never allocate a second slot.
\<close>

lemma advance_all_first_success:
  "advance_all PDisconnected xs = Addressed sl sp mp \<longleftrightarrow>
     (\<exists>c ro ao. List.find scan_succeeds xs = Some (c, ro, ao, sl, sp)) \<and> mp = usb2_max_packet sp"
  by (rule advance_all_find) simp

end
