(* ===== verification/Msc.thy ===== *)
theory Msc
  imports UsbDesc
begin

text \<open>
  USB mass storage, \<^verbatim>\<open>kernel/src/xhci/msc.rs\<close>: the layouts of the Bulk-Only Transport and
  of the SCSI commands, and the driver \<open>bot\<close> that runs commands over a transport with bounded
  recovery. The trait \<^verbatim>\<open>BotTransport\<close> is the record \<open>bot_transport\<close> of its four
  operations, over any state of the bus and the device; a buffer that is read into is an argument and
  a result.
\<close>

section \<open>Layouts\<close>

definition CBW_LEN :: nat where "CBW_LEN = 31"
definition CSW_LEN :: nat where "CSW_LEN = 13"
definition BLOCK_SIZE :: nat where "BLOCK_SIZE = 512"
definition MAX_READ_BYTES :: nat where "MAX_READ_BYTES = 64 * 1024"
definition CBW_SIGNATURE :: u32 where "CBW_SIGNATURE = 0x43425355"
definition CSW_SIGNATURE :: u32 where "CSW_SIGNATURE = 0x53425355"

datatype BotError = Transport | Stall | ShortTransfer | InvalidCswSignature | InvalidCswTag
  | InvalidResidue | CommandFailed | PhaseError | UnsupportedBlockSize u32 | Capacity16Required
  | ReadTooLarge | LbaOverflow

datatype Recovery = NoRecovery | ResetAndClearHalts | Offline

definition recovery_for :: "BotError \<Rightarrow> Recovery" where
  "recovery_for e =
     (case e of
        Transport \<Rightarrow> ResetAndClearHalts | Stall \<Rightarrow> ResetAndClearHalts
      | ShortTransfer \<Rightarrow> ResetAndClearHalts | InvalidCswSignature \<Rightarrow> ResetAndClearHalts
      | InvalidCswTag \<Rightarrow> ResetAndClearHalts | InvalidResidue \<Rightarrow> ResetAndClearHalts
      | PhaseError \<Rightarrow> ResetAndClearHalts
      | CommandFailed \<Rightarrow> Offline | UnsupportedBlockSize _ \<Rightarrow> Offline
      | Capacity16Required \<Rightarrow> Offline | ReadTooLarge \<Rightarrow> Offline | LbaOverflow \<Rightarrow> Offline)"

datatype DataDirection = In | Out | NoData

record Capacity =
  blocks :: u64
  block_size :: u32

record Csw =
  csw_tag :: u32
  residue :: u32
  csw_status :: u8

definition u32_at :: "bytes \<Rightarrow> nat \<Rightarrow> u32" where
  "u32_at bs i = u32_from_le (bs ! i) (bs ! (i + 1)) (bs ! (i + 2)) (bs ! (i + 3))"

definition csw_parse :: "bytes \<Rightarrow> BotError + Csw" where
  "csw_parse bs =
     (if length bs \<noteq> CSW_LEN then Inl ShortTransfer
      else if u32_at bs 0 \<noteq> CSW_SIGNATURE then Inl InvalidCswSignature
      else let st = bs ! 12 in
        if 2 < st then Inl PhaseError
        else Inr \<lparr>csw_tag = u32_at bs 4, residue = u32_at bs 8, csw_status = st\<rparr>)"

definition csw_validate :: "Csw \<Rightarrow> u32 \<Rightarrow> nat \<Rightarrow> BotError + unit" where
  "csw_validate c tag requested =
     (if csw_tag c \<noteq> tag then Inl InvalidCswTag
      else if requested < unat (residue c) then Inl InvalidResidue
      else if csw_status c = 0 then (if residue c = 0 then Inr () else Inl InvalidResidue)
      else if csw_status c = 1 then Inl CommandFailed
      else Inl PhaseError)"

definition cbw :: "u32 \<Rightarrow> u32 \<Rightarrow> DataDirection \<Rightarrow> u8 \<Rightarrow> bytes \<Rightarrow> bytes" where
  "cbw tag transfer_len direction lun cdb =
     (let count = min (length cdb) 16 in
      u32_to_le CBW_SIGNATURE @ u32_to_le tag @ u32_to_le transfer_len @
      [if direction = In then 0x80 else 0, lun, of_nat (length cdb)] @
      take count cdb @ replicate (16 - count) 0)"

definition get_max_lun :: "u8 \<Rightarrow> setup_request" where
  "get_max_lun iface = \<lparr>bm_request_type = 0xa1, s_request = 0xfe, s_value = 0,
     s_index = ucast iface, s_length = 1\<rparr>"

definition bot_reset :: "u8 \<Rightarrow> setup_request" where
  "bot_reset iface = \<lparr>bm_request_type = 0x21, s_request = 0xff, s_value = 0,
     s_index = ucast iface, s_length = 0\<rparr>"

definition clear_halt :: "u8 \<Rightarrow> setup_request" where
  "clear_halt endpoint = \<lparr>bm_request_type = 0x02, s_request = 1, s_value = 0,
     s_index = ucast endpoint, s_length = 0\<rparr>"

definition inquiry :: bytes where "inquiry = [0x12, 0, 0, 0, 36, 0]"
definition test_unit_ready :: bytes where "test_unit_ready = [0, 0, 0, 0, 0, 0]"
definition request_sense :: bytes where "request_sense = [0x03, 0, 0, 0, 18, 0]"
definition read_capacity10 :: bytes where "read_capacity10 = [0x25, 0, 0, 0, 0, 0, 0, 0, 0, 0]"

definition read10 :: "u32 \<Rightarrow> u16 \<Rightarrow> bytes" where
  "read10 lba n = [0x28, 0] @ u32_to_be lba @ [0] @ u16_to_be n @ [0]"

definition parse_capacity10 :: "bytes \<Rightarrow> BotError + Capacity" where
  "parse_capacity10 bs =
     (if length bs \<noteq> 8 then Inl ShortTransfer
      else let last_lba = u32_from_be (bs ! 0) (bs ! 1) (bs ! 2) (bs ! 3) in
        if last_lba = - 1 then Inl Capacity16Required
        else let bsize = u32_from_be (bs ! 4) (bs ! 5) (bs ! 6) (bs ! 7) in
          if bsize \<noteq> of_nat BLOCK_SIZE then Inl (UnsupportedBlockSize bsize)
          else Inr \<lparr>blocks = ucast last_lba + 1, block_size = bsize\<rparr>)"

section \<open>The driver\<close>

record 't bot_transport =
  control_in :: "'t \<Rightarrow> setup_request \<Rightarrow> bytes \<Rightarrow> 't \<times> bytes \<times> (BotError + nat)"
  control_out :: "'t \<Rightarrow> setup_request \<Rightarrow> 't \<times> (BotError + unit)"
  bulk_send :: "'t \<Rightarrow> bytes \<Rightarrow> 't \<times> (BotError + nat)"
  bulk_receive :: "'t \<Rightarrow> bytes \<Rightarrow> 't \<times> bytes \<times> (BotError + nat)"

record 't bot =
  transport :: 't
  interface :: u8
  bot_bulk_in :: u8
  bot_bulk_out :: u8
  next_tag :: u32

definition bot_new :: "'t \<Rightarrow> u8 \<Rightarrow> u8 \<Rightarrow> u8 \<Rightarrow> 't bot" where
  "bot_new t iface b_in b_out =
     \<lparr>transport = t, interface = iface, bot_bulk_in = b_in, bot_bulk_out = b_out, next_tag = 1\<rparr>"

definition max_lun :: "'t bot_transport \<Rightarrow> 't bot \<Rightarrow> 't bot \<times> (BotError + u8)" where
  "max_lun tr b =
     (let (t, buf, r) = control_in tr (transport b) (get_max_lun (interface b)) [0];
          b = b\<lparr>transport := t\<rparr> in
      case r of
        Inr n \<Rightarrow> if n = 1 then (b, Inr (buf ! 0)) else (b, Inl ShortTransfer)
      | Inl e \<Rightarrow> if e = Stall then (b, Inr 0) else (b, Inl e))"

definition recover :: "'t bot_transport \<Rightarrow> 't bot \<Rightarrow> 't bot \<times> (BotError + unit)" where
  "recover tr b =
     (let (t1, r1) = control_out tr (transport b) (bot_reset (interface b)) in
      case r1 of
        Inl e \<Rightarrow> (b\<lparr>transport := t1\<rparr>, Inl e)
      | Inr _ \<Rightarrow>
          let (t2, r2) = control_out tr t1 (clear_halt (bot_bulk_in b)) in
          (case r2 of
             Inl e \<Rightarrow> (b\<lparr>transport := t2\<rparr>, Inl e)
           | Inr _ \<Rightarrow>
               let (t3, r3) = control_out tr t2 (clear_halt (bot_bulk_out b)) in
               (b\<lparr>transport := t3\<rparr>, r3)))"

definition data_phase ::
  "'t bot_transport \<Rightarrow> 't \<Rightarrow> DataDirection \<Rightarrow> bytes \<Rightarrow> 't \<times> bytes \<times> (BotError + unit)" where
  "data_phase tr t direction data =
     (if direction = In \<and> data \<noteq> [] then
        (let (t, buf, r) = bulk_receive tr t data in
         case r of Inl e \<Rightarrow> (t, buf, Inl e)
         | Inr n \<Rightarrow> if n \<noteq> length data then (t, buf, Inl ShortTransfer) else (t, buf, Inr ()))
      else if direction = Out \<and> data \<noteq> [] then
        (let (t, r) = bulk_send tr t data in
         case r of Inl e \<Rightarrow> (t, data, Inl e)
         | Inr n \<Rightarrow> if n \<noteq> length data then (t, data, Inl ShortTransfer) else (t, data, Inr ()))
      else (t, data, Inr ()))"

definition status_phase ::
  "'t bot_transport \<Rightarrow> 't \<Rightarrow> u32 \<Rightarrow> nat \<Rightarrow> 't \<times> (BotError + unit)" where
  "status_phase tr t tag requested =
     (let (t, buf, r) = bulk_receive tr t (replicate CSW_LEN 0) in
      case r of
        Inl e \<Rightarrow> (t, Inl e)
      | Inr n \<Rightarrow>
          if n \<noteq> CSW_LEN then (t, Inl ShortTransfer)
          else (case csw_parse buf of
                  Inl e \<Rightarrow> (t, Inl e)
                | Inr c \<Rightarrow> (t, csw_validate c tag requested)))"

definition command_once ::
  "'t bot_transport \<Rightarrow> 't bot \<Rightarrow> u8 \<Rightarrow> bytes \<Rightarrow> DataDirection \<Rightarrow> bytes \<Rightarrow>
     't bot \<times> bytes \<times> (BotError + unit)" where
  "command_once tr b lun cdb direction data =
     (if cdb = [] \<or> 16 < length cdb then (b, data, Inl Transport)
      else
        let tag = next_tag b;
            b = b\<lparr>next_tag := tag + 1\<rparr>;
            packet = cbw tag (of_nat (length data)) direction lun cdb;
            (t1, r1) = bulk_send tr (transport b) packet in
        case r1 of
          Inl e \<Rightarrow> (b\<lparr>transport := t1\<rparr>, data, Inl e)
        | Inr n \<Rightarrow>
            if n \<noteq> CBW_LEN then (b\<lparr>transport := t1\<rparr>, data, Inl ShortTransfer)
            else
              let (t2, data', r2) = data_phase tr t1 direction data in
              (case r2 of
                 Inl e \<Rightarrow> (b\<lparr>transport := t2\<rparr>, data', Inl e)
               | Inr _ \<Rightarrow>
                   let (t3, r3) = status_phase tr t2 tag (length data') in
                   (b\<lparr>transport := t3\<rparr>, data', r3)))"

fun command_loop ::
  "nat \<Rightarrow> nat \<Rightarrow> 't bot_transport \<Rightarrow> 't bot \<Rightarrow> u8 \<Rightarrow> bytes \<Rightarrow> DataDirection \<Rightarrow> bytes \<Rightarrow>
     't bot \<times> bytes \<times> (BotError + unit)" where
  "command_loop 0 attempt tr b lun cdb direction data = (b, data, Inl Transport)"
| "command_loop (Suc left) attempt tr b lun cdb direction data =
     (let (b, data, r) = command_once tr b lun cdb direction data in
      case r of
        Inr _ \<Rightarrow> (b, data, Inr ())
      | Inl e \<Rightarrow>
          if attempt = 0 \<and> recovery_for e = ResetAndClearHalts then
            (let (b, rr) = recover tr b in
             case rr of
               Inl e' \<Rightarrow> (b, data, Inl e')
             | Inr _ \<Rightarrow> command_loop left (attempt + 1) tr b lun cdb direction data)
          else (b, data, Inl e))"

definition command ::
  "'t bot_transport \<Rightarrow> 't bot \<Rightarrow> u8 \<Rightarrow> bytes \<Rightarrow> DataDirection \<Rightarrow> bytes \<Rightarrow>
     't bot \<times> bytes \<times> (BotError + unit)" where
  "command tr b lun cdb direction data = command_loop 2 0 tr b lun cdb direction data"

fun ready_loop ::
  "nat \<Rightarrow> 't bot_transport \<Rightarrow> 't bot \<Rightarrow> BotError option \<Rightarrow> 't bot \<times> BotError option" where
  "ready_loop 0 tr b err = (b, err)"
| "ready_loop (Suc n) tr b err =
     (let (b, _, r) = command tr b 0 test_unit_ready NoData [] in
      case r of Inr _ \<Rightarrow> (b, None) | Inl e \<Rightarrow> ready_loop n tr b (Some e))"

definition probe :: "'t bot_transport \<Rightarrow> 't bot \<Rightarrow> 't bot \<times> (BotError + Capacity)" where
  "probe tr b =
     (let (b, lr) = max_lun tr b in
      case lr of
        Inl e \<Rightarrow> (b, Inl e)
      | Inr lun \<Rightarrow>
          if lun \<noteq> 0 then (b, Inl Transport)
          else
            let (b, _, ri) = command tr b 0 inquiry In (replicate 36 0) in
            (case ri of
               Inl e \<Rightarrow> (b, Inl e)
             | Inr _ \<Rightarrow>
                 let (b, ready_error) = ready_loop 3 tr b None in
                 (case ready_error of
                    Some e \<Rightarrow>
                      let (b, _, _) = command tr b 0 request_sense In (replicate 18 0) in (b, Inl e)
                  | None \<Rightarrow>
                      let (b, cap, rc) = command tr b 0 read_capacity10 In (replicate 8 0) in
                      (case rc of Inl e \<Rightarrow> (b, Inl e) | Inr _ \<Rightarrow> (b, parse_capacity10 cap)))))"

text \<open>
  The loop of \<^verbatim>\<open>Bot::read10\<close> over \<^verbatim>\<open>chunks_mut\<close>: the chunks already read are
  returned in front of the rest of the buffer.
\<close>

function read10_loop ::
  "'t bot_transport \<Rightarrow> 't bot \<Rightarrow> u32 \<Rightarrow> nat \<Rightarrow> bytes \<Rightarrow> 't bot \<times> bytes \<times> (BotError + unit)" where
  "read10_loop tr b current_lba remaining data =
     (if data = [] then (b, [], Inr ())
      else
        let chunk = take MAX_READ_BYTES data;
            rest = drop MAX_READ_BYTES data;
            n = length chunk div BLOCK_SIZE in
        if 2 ^ 16 \<le> n then (b, data, Inl ReadTooLarge)
        else
          let (b, chunk', r) = command tr b 0 (read10 current_lba (of_nat n)) In chunk in
          (case r of
             Inl e \<Rightarrow> (b, chunk' @ rest, Inl e)
           | Inr _ \<Rightarrow>
               let remaining = remaining - length chunk in
               if remaining \<noteq> 0 then
                 (if unat current_lba + n < 2 ^ 32 then
                    let (b, rest', r') =
                      read10_loop tr b (current_lba + of_nat n) remaining rest in
                    (b, chunk' @ rest', r')
                  else (b, chunk' @ rest, Inl LbaOverflow))
               else
                 let (b, rest', r') = read10_loop tr b current_lba remaining rest in
                 (b, chunk' @ rest', r')))"
  by pat_completeness auto
termination
  by (relation "measure (\<lambda>(tr, b, lba, remaining, data). length data)")
    (auto simp: MAX_READ_BYTES_def)

definition bot_read10 ::
  "'t bot_transport \<Rightarrow> 't bot \<Rightarrow> u32 \<Rightarrow> bytes \<Rightarrow> 't bot \<times> bytes \<times> (BotError + unit)" where
  "bot_read10 tr b lba data =
     (if data = [] \<or> \<not> is_multiple_of (length data) BLOCK_SIZE then (b, data, Inl ReadTooLarge)
      else read10_loop tr b lba (length data) data)"

declare read10_loop.simps [simp del] command_loop.simps [simp del]

section \<open>Layout lemmas\<close>

lemma length_cbw [simp]: "length (cbw tag n dir lun cdb) = 31"
  by (simp add: cbw_def Let_def)

lemma u32_at_append:
  "length xs = i \<Longrightarrow> u32_at (xs @ u32_to_le w @ ys) i = w"
  by (simp add: u32_at_def nth_append u32_to_le_def u32_le_roundtrip)

text \<open>
  A command block wrapper is 31 bytes long, and the device reads
  back from it the tag, the transfer length, the direction, the unit and, for a command of at most 16
  bytes, the command itself, followed by zeroes.
\<close>

lemma cbw_roundtrip:
  "length (cbw tag n dir lun cdb) = CBW_LEN \<and> u32_at (cbw tag n dir lun cdb) 0 = CBW_SIGNATURE \<and>
   u32_at (cbw tag n dir lun cdb) 4 = tag \<and> u32_at (cbw tag n dir lun cdb) 8 = n \<and>
   (cbw tag n dir lun cdb ! 12 AND 0x80 \<noteq> 0 \<longleftrightarrow> dir = In) \<and> cbw tag n dir lun cdb ! 13 = lun \<and>
   (length cdb \<le> 16 \<longrightarrow> unat (cbw tag n dir lun cdb ! 14) = length cdb \<and>
      drop 15 (cbw tag n dir lun cdb) = cdb @ replicate (16 - length cdb) 0)"
proof (intro conjI impI)
  let ?c = "cbw tag n dir lun cdb"
  show "length ?c = CBW_LEN" by (simp add: CBW_LEN_def)
  show "u32_at ?c 0 = CBW_SIGNATURE"
    using u32_at_append [of "[]"] by (simp add: cbw_def Let_def)
  show "u32_at ?c 4 = tag"
    using u32_at_append [of "u32_to_le CBW_SIGNATURE" 4] by (simp add: cbw_def Let_def)
  show "u32_at ?c 8 = n"
    using u32_at_append [of "u32_to_le CBW_SIGNATURE @ u32_to_le tag" 8] by (simp add: cbw_def Let_def)
  show "?c ! 12 AND 0x80 \<noteq> 0 \<longleftrightarrow> dir = In" and "?c ! 13 = lun"
    by (simp_all add: cbw_def Let_def u32_to_le_def)
  assume len: "length cdb \<le> 16"
  then show "unat (?c ! 14) = length cdb"
    by (simp add: cbw_def Let_def u32_to_le_def unat_of_nat take_bit_nat_eq_self)
  show "drop 15 ?c = cdb @ replicate (16 - length cdb) 0"
    using len by (simp add: cbw_def Let_def u32_to_le_def min_absorb1)
qed

lemma cbw_roundtrip_example:
  "u32_at (cbw 7 512 In 0 (read10 3 1)) 4 = 7 \<and> length (read10 3 1) \<le> 16 \<and>
   drop 15 (cbw 7 512 In 0 (read10 3 1)) = read10 3 1 @ replicate (16 - length (read10 3 1)) 0"
proof -
  have "length (read10 3 1) \<le> 16" by (simp add: read10_def)
  with cbw_roundtrip [of 7 512 In 0 "read10 3 1"] show ?thesis by blast
qed

definition csw_bytes :: "u32 \<Rightarrow> bytes" where
  "csw_bytes tag = u32_to_le CSW_SIGNATURE @ u32_to_le tag @ [0, 0, 0, 0, 0]"

lemma thirteen_bytesE:
  assumes "length bs = 13"
  obtains a b c d e f g h i j k l m where "bs = [a, b, c, d, e, f, g, h, i, j, k, l, m]"
  using assms by (auto simp: length_Suc_conv eval_nat_numeral)

lemma csw_accept:
  "(case csw_parse bs of Inl e \<Rightarrow> Inl e | Inr c \<Rightarrow> csw_validate c tag requested) = Inr () \<longleftrightarrow>
     bs = csw_bytes tag"
proof (cases "length bs = 13")
  case False
  moreover have "length (csw_bytes tag) = 13" by (simp add: csw_bytes_def)
  ultimately show ?thesis by (auto simp: csw_parse_def CSW_LEN_def)
next
  case True
  then obtain a b c d e f g h i j k l m where bs: "bs = [a, b, c, d, e, f, g, h, i, j, k, l, m]"
    by (rule thirteen_bytesE)
  have zero: "u32_from_le p q r s = 0 \<longleftrightarrow> [p, q, r, s] = [0, 0, 0, 0]" for p q r s
    unfolding u32_from_le_eq by (auto simp: u32_to_le_def)
  have "bs = csw_bytes tag \<longleftrightarrow> u32_from_le a b c d = CSW_SIGNATURE \<and> u32_from_le e f g h = tag \<and>
      u32_from_le i j k l = 0 \<and> m = 0"
    unfolding u32_from_le_eq zero by (auto simp: bs csw_bytes_def u32_to_le_def)
  then show ?thesis
    by (auto simp: bs csw_parse_def csw_validate_def CSW_LEN_def u32_at_def Let_def split: if_splits)
qed

text \<open>
  A status wrapper ends a command successfully exactly when it is
  the one 13-byte string with the right signature, the tag of the command, no residue and status 0;
  every other answer of the device is an error.
\<close>

lemma csw_accept_iff:
  "(case csw_parse bs of Inl e \<Rightarrow> Inl e | Inr c \<Rightarrow> csw_validate c tag requested) = Inr () \<longleftrightarrow>
     bs = csw_bytes tag"
  by (rule csw_accept)

section \<open>Bounded recovery\<close>

text \<open>A transport that counts the transfers made through it.\<close>

definition counting :: "'t bot_transport \<Rightarrow> ('t \<times> nat) bot_transport" where
  "counting tr =
     \<lparr>control_in = (\<lambda>(t, k) rq d. let (t', d', r) = control_in tr t rq d in ((t', k + 1), d', r)),
      control_out = (\<lambda>(t, k) rq. let (t', r) = control_out tr t rq in ((t', k + 1), r)),
      bulk_send = (\<lambda>(t, k) d. let (t', r) = bulk_send tr t d in ((t', k + 1), r)),
      bulk_receive = (\<lambda>(t, k) d. let (t', d', r) = bulk_receive tr t d in ((t', k + 1), d', r))\<rparr>"

lemma counting_ops:
  "snd (fst (control_out (counting tr) s rq)) = snd s + 1"
  "snd (fst (bulk_send (counting tr) s d)) = snd s + 1"
  "snd (fst (bulk_receive (counting tr) s d)) = snd s + 1"
  by (auto simp: counting_def split_beta Let_def)

lemma recover_count:
  "snd (transport (fst (recover (counting tr) b))) \<le> snd (transport b) + 3"
  by (auto simp: recover_def split_beta Let_def counting_ops split: sum.splits)

lemma data_phase_count:
  "snd (fst (data_phase (counting tr) s dir data)) \<le> snd s + 1"
  by (auto simp: data_phase_def split_beta Let_def counting_ops split: sum.splits)

lemma status_phase_count: "snd (fst (status_phase (counting tr) s tag n)) = snd s + 1"
  by (auto simp: status_phase_def split_beta Let_def counting_ops split: sum.splits)

lemma command_once_count:
  "snd (transport (fst (command_once (counting tr) b lun cdb dir data))) \<le> snd (transport b) + 3"
  using data_phase_count [of tr "fst (bulk_send (counting tr) (transport b)
    (cbw (next_tag b) (of_nat (length data)) dir lun cdb))" dir data]
  by (auto simp: command_once_def split_beta Let_def counting_ops status_phase_count
      split: sum.splits)

text \<open>The two attempts of a command, written out.\<close>

lemma command_two_attempts:
  "command tr b lun cdb dir data =
     (let (b1, d1, r1) = command_once tr b lun cdb dir data in
      case r1 of
        Inr _ \<Rightarrow> (b1, d1, Inr ())
      | Inl e \<Rightarrow>
          if recovery_for e = ResetAndClearHalts then
            (let (b2, rr) = recover tr b1 in
             case rr of Inl e' \<Rightarrow> (b2, d1, Inl e') | Inr _ \<Rightarrow> command_once tr b2 lun cdb dir d1)
          else (b1, d1, Inl e))"
  by (auto simp: command_def command_loop.simps numeral_2_eq_2 split_beta Let_def prod_eq_iff
      split: sum.splits)

text \<open>
  A command is tried at most twice. It succeeds exactly when the
  first attempt succeeds, or when that attempt ends with a transport or protocol error, the reset and
  the two clear-halt requests go through, and the second attempt succeeds; a failure the device
  reports for the command itself is never retried. Whatever the device answers, at most nine
  transfers are made.
\<close>

lemma command_bounded_recovery:
  "(snd (snd (command tr b lun cdb dir data)) = Inr () \<longleftrightarrow>
      (let (b1, d1, r1) = command_once tr b lun cdb dir data in
       r1 = Inr () \<or>
       (\<exists>e. r1 = Inl e \<and> recovery_for e = ResetAndClearHalts \<and> snd (recover tr b1) = Inr () \<and>
          snd (snd (command_once tr (fst (recover tr b1)) lun cdb dir d1)) = Inr ()))) \<and>
   snd (transport (fst (command (counting tr) c lun cdb dir data))) \<le> snd (transport c) + 9"
proof
  show "snd (snd (command tr b lun cdb dir data)) = Inr () \<longleftrightarrow>
      (let (b1, d1, r1) = command_once tr b lun cdb dir data in
       r1 = Inr () \<or>
       (\<exists>e. r1 = Inl e \<and> recovery_for e = ResetAndClearHalts \<and> snd (recover tr b1) = Inr () \<and>
          snd (snd (command_once tr (fst (recover tr b1)) lun cdb dir d1)) = Inr ()))"
    unfolding command_two_attempts by (auto simp: split_beta Let_def split: sum.splits)
  define c1 d1 where "c1 = fst (command_once (counting tr) c lun cdb dir data)"
    and "d1 = fst (snd (command_once (counting tr) c lun cdb dir data))"
  define c2 where "c2 = fst (recover (counting tr) c1)"
  have "snd (transport c1) \<le> snd (transport c) + 3" unfolding c1_def by (rule command_once_count)
  moreover have "snd (transport c2) \<le> snd (transport c1) + 3" unfolding c2_def by (rule recover_count)
  moreover have "snd (transport (fst (command_once (counting tr) c2 lun cdb dir d1))) \<le> snd (transport c2) + 3"
    by (rule command_once_count)
  ultimately show "snd (transport (fst (command (counting tr) c lun cdb dir data))) \<le> snd (transport c) + 9"
    unfolding command_two_attempts c1_def c2_def d1_def
    by (auto simp: split_beta Let_def split: sum.splits)
qed

section \<open>Reading blocks\<close>

text \<open>
  What the driver relies on from a device that serves a disk: asked with a READ(10) wrapper for
  blocks inside the disk it accepts the wrapper, then returns these blocks, then a successful status,
  and the disk is unchanged.
\<close>

definition serves_disk :: "'t bot_transport \<Rightarrow> ('t \<Rightarrow> bytes) \<Rightarrow> bool" where
  "serves_disk tr disk \<longleftrightarrow>
     (\<forall>t tag lba n buf. 0 < n \<and> n \<le> 128 \<and> (unat lba + n) * 512 \<le> length (disk t) \<and> length buf = n * 512 \<longrightarrow>
        (case bulk_send tr t (cbw tag (of_nat (n * 512)) In 0 (read10 lba (of_nat n))) of (t1, r1) \<Rightarrow>
           r1 = Inr 31 \<and>
           (case bulk_receive tr t1 buf of (t2, d, r2) \<Rightarrow>
              r2 = Inr (n * 512) \<and> d = take (n * 512) (drop (unat lba * 512) (disk t)) \<and>
              (case bulk_receive tr t2 (replicate 13 0) of (t3, c, r3) \<Rightarrow>
                 r3 = Inr 13 \<and> c = csw_bytes tag \<and> disk t3 = disk t))))"

lemma csw_bytes_ok: "\<exists>c. csw_parse (csw_bytes tag) = Inr c \<and> csw_validate c tag n = Inr ()"
  using csw_accept [where bs = "csw_bytes tag" and tag = tag and requested = n] by (auto split: sum.splits)

lemma read_chunk:
  assumes srv: "serves_disk tr disk" and n: "0 < n" "n \<le> 128" "length buf = n * 512"
    and range: "(unat lba + n) * 512 \<le> length (disk (transport b))"
  shows "\<exists>b'. command tr b 0 (read10 lba (of_nat n)) In buf =
      (b', take (n * 512) (drop (unat lba * 512) (disk (transport b))), Inr ()) \<and>
    disk (transport b') = disk (transport b)"
proof -
  let ?t = "transport b" and ?d = "take (n * 512) (drop (unat lba * 512) (disk (transport b)))"
  have "0 < n \<and> n \<le> 128 \<and> (unat lba + n) * 512 \<le> length (disk ?t) \<and> length buf = n * 512"
    using n range by simp
  note cond = this
  have use: "case bulk_send tr ?t (cbw (next_tag b) (of_nat (n * 512)) In 0 (read10 lba (of_nat n)))
      of (t1, r1) \<Rightarrow> r1 = Inr 31 \<and> (case bulk_receive tr t1 buf of (t2, d, r2) \<Rightarrow>
        r2 = Inr (n * 512) \<and> d = ?d \<and> (case bulk_receive tr t2 (replicate 13 0) of (t3, c, r3) \<Rightarrow>
          r3 = Inr 13 \<and> c = csw_bytes (next_tag b) \<and> disk t3 = disk ?t))"
    by (rule srv [unfolded serves_disk_def, THEN spec [of _ ?t], THEN spec [of _ "next_tag b"],
          THEN spec [of _ lba], THEN spec [of _ n], THEN spec [of _ buf], THEN mp, OF cond])
  then obtain t1 t2 t3 where
    t: "bulk_send tr ?t (cbw (next_tag b) (of_nat (n * 512)) In 0 (read10 lba (of_nat n))) = (t1, Inr 31)"
    "bulk_receive tr t1 buf = (t2, ?d, Inr (n * 512))"
    "bulk_receive tr t2 (replicate 13 0) = (t3, csw_bytes (next_tag b), Inr 13)"
    "disk t3 = disk ?t" by (auto split: prod.splits)
  have len: "length ?d = n * 512" using range by (simp add: algebra_simps)
  have ne: "buf \<noteq> []" "read10 lba (of_nat n) \<noteq> []" "length (read10 lba (of_nat n)) \<le> 16"
    using n by (auto simp: read10_def)
  from csw_bytes_ok obtain c where "csw_parse (csw_bytes (next_tag b)) = Inr c"
    "csw_validate c (next_tag b) (n * 512) = Inr ()" by blast
  then have "command_once tr b 0 (read10 lba (of_nat n)) In buf =
      (b\<lparr>next_tag := next_tag b + 1, transport := t3\<rparr>, ?d, Inr ())"
    using t ne n len
    by (simp add: command_once_def data_phase_def status_phase_def CBW_LEN_def CSW_LEN_def Let_def)
  then show ?thesis using t(4) by (simp add: command_two_attempts)
qed

lemma read10_loop_reads:
  assumes srv: "serves_disk tr disk"
  shows "length data = n * 512 \<Longrightarrow> (unat lba + n) * 512 \<le> length (disk (transport b)) \<Longrightarrow>
    unat lba + n \<le> 2 ^ 32 \<Longrightarrow>
    \<exists>b'. read10_loop tr b lba (length data) data =
        (b', take (n * 512) (drop (unat lba * 512) (disk (transport b))), Inr ()) \<and>
      disk (transport b') = disk (transport b)"
proof (induction n arbitrary: b lba data rule: less_induct)
  case (less n)
  show ?case
  proof (cases "n = 0")
    case True
    then show ?thesis using less.prems by (simp add: read10_loop.simps [of _ _ _ _ "[]"])
  next
    case False
    define k where "k = min n 128"
    define chunk rest where "chunk = take MAX_READ_BYTES data" and "rest = drop MAX_READ_BYTES data"
    let ?D = "disk (transport b)"
    have k: "0 < k" "k \<le> 128" "k \<le> n" using False by (auto simp: k_def)
    have len: "length chunk = k * 512" "length rest = (n - k) * 512"
      using less.prems(1) by (auto simp: k_def MAX_READ_BYTES_def min_def chunk_def rest_def)
    have range: "(unat lba + k) * 512 \<le> length ?D"
      using less.prems(2) k by (meson add_left_mono mult_right_mono order_trans zero_le)
    from read_chunk [OF srv k(1,2) len(1) range] obtain b1 where
      b1: "command tr b 0 (read10 lba (of_nat k)) In chunk =
          (b1, take (k * 512) (drop (unat lba * 512) ?D), Inr ())"
      and d1: "disk (transport b1) = ?D" by blast
    have div: "length chunk div BLOCK_SIZE = k" by (simp add: len BLOCK_SIZE_def)
    have ne: "data \<noteq> []" using False less.prems(1) by auto
    have rem: "length data - length chunk = length rest" by (simp add: chunk_def rest_def)
    let ?lba = "if n = k then lba else lba + of_nat k"
    have lba: "unat ?lba = (if n = k then unat lba else unat lba + k)"
    proof (cases "n = k")
      case False
      then have "unat lba + k < 2 ^ 32" using less.prems(3) k by simp
      then have "unat (lba + of_nat k) = unat lba + k"
        by (simp add: unat_word_ariths unat_of_nat take_bit_nat_eq_self)
      with False show ?thesis by simp
    qed simp
    have "unat ?lba + (n - k) \<le> 2 ^ 32" "(unat ?lba + (n - k)) * 512 \<le> length (disk (transport b1))"
      using less.prems k unfolding lba d1 by (auto split: if_splits)
    with less.IH [OF _ len(2), of ?lba b1] k False obtain b2 where
      b2: "read10_loop tr b1 ?lba (length rest) rest =
          (b2, take ((n - k) * 512) (drop (unat ?lba * 512) ?D), Inr ())" "disk (transport b2) = ?D"
      unfolding d1 by auto
    have cat: "take (k * 512) (drop (unat lba * 512) ?D) @
        take ((n - k) * 512) (drop (unat ?lba * 512) ?D) = take (n * 512) (drop (unat lba * 512) ?D)"
    proof (cases "n = k")
      case False
      let ?X = "drop (unat lba * 512) ?D"
      have eq: "n * 512 = k * 512 + (n - k) * 512" using k by (simp flip: add_mult_distrib)
      have "take (n * 512) ?X = take (k * 512) ?X @ take ((n - k) * 512) (drop (k * 512) ?X)"
        by (subst eq) (rule take_add)
      moreover have "drop (k * 512) ?X = drop ((unat lba + k) * 512) ?D"
        by (simp add: add_mult_distrib add.commute)
      ultimately show ?thesis using False unfolding lba by simp
    qed simp
    have rz: "rest = [] \<longleftrightarrow> n = k" using len(2) k by auto
    have lt: "n \<noteq> k \<Longrightarrow> unat lba + k < 4294967296" and small: "\<not> 2 ^ 16 \<le> k"
      using less.prems(3) k by auto
    have "read10_loop tr b lba (length data) data =
        (let (b, rest', r') = read10_loop tr b1 ?lba (length rest) rest in
         (b, take (k * 512) (drop (unat lba * 512) ?D) @ rest', r'))"
      using ne small
      by (subst read10_loop.simps, unfold Let_def chunk_def [symmetric] rest_def [symmetric] div b1
          rem prod.case sum.case)
        (auto simp: rz lt)
    with b2 cat show ?thesis by simp
  qed
qed

text \<open>
  Property C18 (block reads). Against a device that serves a disk, reading any number of whole
  blocks that lie inside the disk succeeds and fills the buffer with exactly these bytes of the disk,
  however the request is cut into commands of at most 64 KiB.
\<close>

theorem bot_read10_reads_disk:
  assumes "serves_disk tr disk" and "length data = n * 512" and "0 < n"
    and "(unat lba + n) * 512 \<le> length (disk (transport b))" and "unat lba + n \<le> 2 ^ 32"
  shows "\<exists>b'. bot_read10 tr b lba data =
      (b', take (n * 512) (drop (unat lba * 512) (disk (transport b))), Inr ()) \<and>
    disk (transport b') = disk (transport b)"
proof -
  have "data \<noteq> []" and "is_multiple_of (length data) BLOCK_SIZE"
    using assms(2,3) by (auto simp: is_multiple_of_dvd BLOCK_SIZE_def)
  with read10_loop_reads [OF assms(1,2,4,5)] show ?thesis by (simp add: bot_read10_def)
qed

text \<open>
  A disk of one device for the witness: it decodes the wrapper and queues the data and the status.
\<close>

record disk_device =
  dd_bytes :: bytes
  dd_queue :: "bytes list"

definition disk_transport :: "disk_device bot_transport" where
  "disk_transport =
     \<lparr>control_in = (\<lambda>t rq d. (t, [0], Inr 1)), control_out = (\<lambda>t rq. (t, Inr ())),
      bulk_send = (\<lambda>t p.
        let lba = unat (u32_from_be (p ! 17) (p ! 18) (p ! 19) (p ! 20));
            n = unat (u16_from_be (p ! 22) (p ! 23)) in
        (t\<lparr>dd_queue := [take (n * 512) (drop (lba * 512) (dd_bytes t)), csw_bytes (u32_at p 4)]\<rparr>,
         Inr (length p))),
      bulk_receive = (\<lambda>t d.
        case dd_queue t of
          [] \<Rightarrow> (t, d, Inl Stall)
        | x # xs \<Rightarrow> (t\<lparr>dd_queue := xs\<rparr>, x, Inr (length x)))\<rparr>"

lemma read10_in_cbw:
  "cbw tag m In 0 (read10 lba n) ! 17 = u32_to_be lba ! 0"
  "cbw tag m In 0 (read10 lba n) ! 18 = u32_to_be lba ! 1"
  "cbw tag m In 0 (read10 lba n) ! 19 = u32_to_be lba ! 2"
  "cbw tag m In 0 (read10 lba n) ! 20 = u32_to_be lba ! 3"
  "cbw tag m In 0 (read10 lba n) ! 22 = u16_to_be n ! 0"
  "cbw tag m In 0 (read10 lba n) ! 23 = u16_to_be n ! 1"
  by (simp_all add: cbw_def read10_def u32_to_be_def u32_to_le_def u16_to_be_def Let_def)

lemma disk_transport_serves: "serves_disk disk_transport dd_bytes"
  unfolding serves_disk_def
proof (intro allI impI, elim conjE)
  fix t :: disk_device and tag n and lba :: u32 and buf :: bytes
  assume n: "0 < n" "n \<le> 128" and range: "(unat lba + n) * 512 \<le> length (dd_bytes t)"
  define p where "p = cbw tag (of_nat (n * 512)) In 0 (read10 lba (of_nat n))"
  have lba: "u32_from_be (p ! 17) (p ! 18) (p ! 19) (p ! 20) = lba"
    unfolding p_def read10_in_cbw by (simp add: u32_from_be_def u32_to_be_def u32_to_le_def u32_le_roundtrip)
  have nn: "unat (u16_from_be (p ! 22) (p ! 23)) = n"
    unfolding p_def read10_in_cbw using n
    by (simp add: u16_to_be_def u16_be_roundtrip unat_of_nat take_bit_nat_eq_self)
  have tag: "u32_at p 4 = tag"
    using u32_at_append [of "u32_to_le CBW_SIGNATURE" 4] by (simp add: p_def cbw_def Let_def)
  have plen: "length p = 31" by (simp add: p_def)
  have len: "length (csw_bytes tag) = 13" by (simp add: csw_bytes_def)
  show "case bulk_send disk_transport t (cbw tag (of_nat (n * 512)) In 0 (read10 lba (of_nat n))) of (t1, r1) \<Rightarrow> r1 = Inr 31 \<and>
      (case bulk_receive disk_transport t1 buf of (t2, d, r2) \<Rightarrow>
        r2 = Inr (n * 512) \<and> d = take (n * 512) (drop (unat lba * 512) (dd_bytes t)) \<and>
        (case bulk_receive disk_transport t2 (replicate 13 0) of (t3, c, r3) \<Rightarrow>
           r3 = Inr 13 \<and> c = csw_bytes tag \<and> dd_bytes t3 = dd_bytes t))"
    unfolding p_def [symmetric]
    using range by (simp add: plen disk_transport_def lba nn tag len Let_def algebra_simps)
qed

theorem bot_read10_reads_disk_witness:
  "\<exists>b'. bot_read10 disk_transport (bot_new \<lparr>dd_bytes = replicate 512 1 @ replicate 1024 9, dd_queue = []\<rparr> 0 1 2)
      1 (replicate 1024 0) = (b', replicate 1024 9, Inr ())"
proof -
  let ?b = "bot_new \<lparr>dd_bytes = replicate 512 1 @ replicate 1024 9, dd_queue = []\<rparr> 0 1 2"
  have "length (replicate 1024 (0 :: u8)) = 2 * 512" and "(0 :: nat) < 2"
    and "(unat (1 :: u32) + 2) * 512 \<le> length (dd_bytes (transport ?b))"
    and "unat (1 :: u32) + 2 \<le> 2 ^ 32"
    by (simp_all add: bot_new_def)
  from bot_read10_reads_disk [OF disk_transport_serves this] show ?thesis
    by (auto simp: bot_new_def)
qed

end
