(* ===== verification/Ipc.thy ===== *)
theory Ipc
  imports Ring
begin

text \<open>
  Inter-process communication, \<^verbatim>\<open>kernel/src/task/ipc/mod.rs\<close>: channels with two ends,
  named listeners, the handle table of every task and the eight commands of the system call. A
  reference-counted object is a position in a list of objects, so that two handles are the same object
  exactly when they have the same position; the arrays of two that a channel keeps are functions of the
  side, with \<^term>\<open>False\<close> for side 0. A command takes the registers of the caller and the caller's
  memory; \<^term>\<open>None\<close> is a panic.
\<close>

section \<open>State\<close>

definition IPC_MAX_HANDLES :: nat where "IPC_MAX_HANDLES = 64"
definition IPC_MAX_MSG_SIZE :: nat where "IPC_MAX_MSG_SIZE = 4096"
definition IPC_QUEUE_DEPTH :: nat where "IPC_QUEUE_DEPTH = 4096"
definition IPC_MAX_NAME_LEN :: nat where "IPC_MAX_NAME_LEN = 128"

definition IPC_OK :: int where "IPC_OK = 0"
definition IPC_EINVAL :: int where "IPC_EINVAL = -22"
definition IPC_EBADF :: int where "IPC_EBADF = -9"
definition IPC_EAGAIN :: int where "IPC_EAGAIN = -11"
definition IPC_EMFILE :: int where "IPC_EMFILE = -24"
definition IPC_EPIPE :: int where "IPC_EPIPE = -32"
definition IPC_ENOENT :: int where "IPC_ENOENT = -2"
definition IPC_EEXIST :: int where "IPC_EEXIST = -17"
definition IPC_EMSGSIZE :: int where "IPC_EMSGSIZE = -90"

lemmas ipc_consts = IPC_MAX_HANDLES_def IPC_MAX_MSG_SIZE_def IPC_QUEUE_DEPTH_def
  IPC_MAX_NAME_LEN_def IPC_OK_def IPC_EINVAL_def IPC_EBADF_def IPC_EAGAIN_def IPC_EMFILE_def
  IPC_EPIPE_def IPC_ENOENT_def IPC_EEXIST_def IPC_EMSGSIZE_def

datatype handle = Channel (channel_of: nat) (side_of: bool) | Listener (listener_of: nat)

record endpoint =
  queue :: "bytes list"
  closed :: bool

record channel =
  refs :: "bool \<Rightarrow> nat"
  endpoints :: "bool \<Rightarrow> endpoint"

record listener =
  l_refs :: nat
  pending :: "handle list"

type_synonym handle_table = "handle option list"

record ipc_state =
  channels :: "channel list"
  listeners :: "listener list"
  named :: "(bytes \<times> nat) list"
  tables :: "handle_table option list"
  current :: nat

record ipc_args =
  rax :: u64
  rdi :: u64
  rsi :: u64
  rdx :: u64
  rcx :: u64

definition endpoint_new :: endpoint where
  "endpoint_new = \<lparr>queue = [], closed = False\<rparr>"

definition channel_new :: channel where
  "channel_new = \<lparr>refs = (\<lambda>_. 0), endpoints = (\<lambda>_. endpoint_new)\<rparr>"

section \<open>Objects\<close>

definition with_channel :: "ipc_state \<Rightarrow> nat \<Rightarrow> (channel \<Rightarrow> channel) \<Rightarrow> ipc_state" where
  "with_channel s c f = s\<lparr>channels := (channels s)[c := f (channels s ! c)]\<rparr>"

definition with_listener :: "ipc_state \<Rightarrow> nat \<Rightarrow> (listener \<Rightarrow> listener) \<Rightarrow> ipc_state" where
  "with_listener s l f = s\<lparr>listeners := (listeners s)[l := f (listeners s ! l)]\<rparr>"

definition close_side :: "channel \<Rightarrow> bool \<Rightarrow> channel" where
  "close_side ch side = ch\<lparr>endpoints := (endpoints ch)(side := \<lparr>queue = [], closed = True\<rparr>)\<rparr>"

definition dup_handle_ref :: "ipc_state \<Rightarrow> handle \<Rightarrow> ipc_state" where
  "dup_handle_ref s h =
     (case h of
        Channel c side \<Rightarrow> with_channel s c (\<lambda>ch. ch\<lparr>refs := (refs ch)(side := refs ch side + 1)\<rparr>)
      | Listener l \<Rightarrow> with_listener s l (\<lambda>li. li\<lparr>l_refs := l_refs li + 1\<rparr>))"

definition unregister_listener :: "ipc_state \<Rightarrow> nat \<Rightarrow> ipc_state" where
  "unregister_listener s l =
     (case position (\<lambda>e. snd e = l) (named s) of
        None \<Rightarrow> s
      | Some idx \<Rightarrow> s\<lparr>named := swap_remove (named s) idx\<rparr>)"

definition unregister_listener_by_name :: "ipc_state \<Rightarrow> bytes \<Rightarrow> ipc_state" where
  "unregister_listener_by_name s name =
     (case position (\<lambda>e. fst e = name) (named s) of
        None \<Rightarrow> s
      | Some idx \<Rightarrow> s\<lparr>named := swap_remove (named s) idx\<rparr>)"

text \<open>
  \<open>drop_ref\<close> is the body of \<^verbatim>\<open>close_handle_ref\<close> up to the recursive calls: it returns the
  handles that were waiting at a listener whose last reference is gone. \<open>close_handles\<close> closes them
  in turn, before the handles it still has to close. A handle always points to an object, so that the
  case of a listener that does not exist does not arise.
\<close>

definition drop_ref :: "ipc_state \<Rightarrow> handle \<Rightarrow> ipc_state \<times> handle list" where
  "drop_ref s h =
     (case h of
        Channel c side \<Rightarrow>
          (with_channel s c (\<lambda>ch.
             if refs ch side \<noteq> 0 then
               (let ch = ch\<lparr>refs := (refs ch)(side := refs ch side - 1)\<rparr> in
                if refs ch side = 0 then close_side ch side else ch)
             else ch), [])
      | Listener l \<Rightarrow>
          (case nth_opt (listeners s) l of
             None \<Rightarrow> (s, [])
           | Some li \<Rightarrow>
               if l_refs li \<noteq> 0 then
                 (if l_refs li - 1 = 0 then
                    (unregister_listener (with_listener s l (\<lambda>li. li\<lparr>l_refs := 0, pending := []\<rparr>)) l,
                     pending li)
                  else (with_listener s l (\<lambda>li. li\<lparr>l_refs := l_refs li - 1\<rparr>), []))
               else (s, [])))"

definition listener_refs :: "ipc_state \<Rightarrow> nat" where
  "listener_refs s = sum_list (map l_refs (listeners s))"

lemma unregister_listener_listeners [simp]:
  "listeners (unregister_listener s l) = listeners s"
  "listeners (unregister_listener_by_name s n) = listeners s"
  by (simp_all add: unregister_listener_def unregister_listener_by_name_def split: option.splits)

lemma sum_list_update_nat:
  "l < length xs \<Longrightarrow> sum_list (map f (xs[l := y])) + f (xs ! l) = sum_list (map f xs) + (f y :: nat)"
  by (induction xs arbitrary: l) (auto split: nat.splits)

lemma drop_ref_measure:
  assumes "drop_ref s h = (s', hs)"
  shows "listener_refs s' < listener_refs s \<or> listener_refs s' = listener_refs s \<and> hs = []"
proof (cases h)
  case (Channel c side)
  then show ?thesis using assms by (auto simp: drop_ref_def with_channel_def listener_refs_def)
next
  case (Listener l)
  show ?thesis
  proof (cases "l < length (listeners s)")
    case True
    have "listener_refs (with_listener s l f) + l_refs (listeners s ! l) =
        listener_refs s + l_refs (f (listeners s ! l))" for f
      using sum_list_update_nat [OF True, of l_refs "f (listeners s ! l)"]
      by (simp add: listener_refs_def with_listener_def)
    from this [of "\<lambda>li. li\<lparr>l_refs := 0, pending := []\<rparr>"] this [of "\<lambda>li. li\<lparr>l_refs := l_refs li - 1\<rparr>"]
    show ?thesis using assms Listener True
      by (auto simp: drop_ref_def Let_def listener_refs_def split: if_splits)
  next
    case False
    then show ?thesis using assms Listener by (simp add: drop_ref_def)
  qed
qed

function close_handles :: "ipc_state \<Rightarrow> handle list \<Rightarrow> ipc_state" where
  "close_handles s [] = s"
| "close_handles s (h # hs) = (let (s', waiting) = drop_ref s h in close_handles s' (waiting @ hs))"
  by pat_completeness auto
termination
  by (relation "measures [\<lambda>(s, hs). listener_refs s, \<lambda>(s, hs). length hs]")
    (auto dest!: drop_ref_measure [OF sym])

definition close_handle_ref :: "ipc_state \<Rightarrow> handle \<Rightarrow> ipc_state" where
  "close_handle_ref s h = close_handles s [h]"

section \<open>Handle tables\<close>

definition current_table :: "ipc_state \<Rightarrow> handle_table option option" where
  "current_table s = nth_opt (tables s) (current s)"

definition set_current_table :: "ipc_state \<Rightarrow> handle_table \<Rightarrow> ipc_state" where
  "set_current_table s tb = s\<lparr>tables := (tables s)[current s := Some tb]\<rparr>"

text \<open>The first level of the result is a panic, the second the \<^verbatim>\<open>Option\<close> of the code.\<close>

definition current_handle_ref :: "ipc_state \<Rightarrow> nat \<Rightarrow> handle option option" where
  "current_handle_ref s handle_id =
     do { t \<leftarrow> current_table s;
          Some (case t of None \<Rightarrow> None
                | Some tb \<Rightarrow> (case nth_opt tb handle_id of None \<Rightarrow> None | Some e \<Rightarrow> e)) }"

definition current_handle :: "ipc_state \<Rightarrow> nat \<Rightarrow> (nat \<times> bool) option option" where
  "current_handle s handle_id =
     do { h \<leftarrow> current_handle_ref s handle_id;
          Some (case h of Some (Channel c side) \<Rightarrow> Some (c, side) | _ \<Rightarrow> None) }"

definition current_listener :: "ipc_state \<Rightarrow> nat \<Rightarrow> nat option option" where
  "current_listener s handle_id =
     do { h \<leftarrow> current_handle_ref s handle_id;
          Some (case h of Some (Listener l) \<Rightarrow> Some l | _ \<Rightarrow> None) }"

definition install_current_handle :: "ipc_state \<Rightarrow> handle \<Rightarrow> (ipc_state \<times> nat option) option" where
  "install_current_handle s h =
     do { t \<leftarrow> current_table s; tb \<leftarrow> t;
          Some (case position (\<lambda>e. e = None) tb of
                  None \<Rightarrow> (s, None)
                | Some slot \<Rightarrow> (set_current_table s (tb[slot := Some h]), Some slot)) }"

definition install_current_pair ::
  "ipc_state \<Rightarrow> handle \<Rightarrow> handle \<Rightarrow> (ipc_state \<times> (nat \<times> nat) option) option" where
  "install_current_pair s h0 h1 =
     do { t \<leftarrow> current_table s; tb \<leftarrow> t;
          Some (case filter (\<lambda>i. tb ! i = None) [0..<length tb] of
                  slot0 # slot1 # _ \<Rightarrow>
                    (set_current_table s (tb[slot0 := Some h0, slot1 := Some h1]), Some (slot0, slot1))
                | _ \<Rightarrow> (s, None)) }"

definition clone_handle_table :: "ipc_state \<Rightarrow> handle_table \<Rightarrow> ipc_state \<times> handle_table" where
  "clone_handle_table s tb =
     (foldl (\<lambda>s e. case e of None \<Rightarrow> s | Some h \<Rightarrow> dup_handle_ref s h) s tb, tb)"

definition release_handle_table :: "ipc_state \<Rightarrow> handle_table \<Rightarrow> ipc_state \<times> handle_table" where
  "release_handle_table s tb =
     (foldl (\<lambda>s e. case e of None \<Rightarrow> s | Some h \<Rightarrow> close_handle_ref s h) s tb, map (\<lambda>_. None) tb)"

section \<open>Commands\<close>

definition user_bytes :: "(u64 \<Rightarrow> u8) \<Rightarrow> u64 \<Rightarrow> nat \<Rightarrow> bytes" where
  "user_bytes mem p n = map (\<lambda>i. mem (p + of_nat i)) [0..<n]"

definition user_store :: "(u64 \<Rightarrow> u8) \<Rightarrow> u64 \<Rightarrow> bytes \<Rightarrow> u64 \<Rightarrow> u8" where
  "user_store mem p bs = foldl (\<lambda>m i. m(p + of_nat i := bs ! i)) mem [0..<length bs]"

definition new_channel :: "ipc_state \<Rightarrow> ipc_state \<times> nat" where
  "new_channel s = (s\<lparr>channels := channels s @ [channel_new]\<rparr>, length (channels s))"

definition sys_create :: "ipc_state \<Rightarrow> ipc_args \<Rightarrow> (ipc_state \<times> ipc_args \<times> int) option" where
  "sys_create s args =
     (let (s, c) = new_channel s;
          s = dup_handle_ref s (Channel c False);
          s = dup_handle_ref s (Channel c True) in
      do { (s, slots) \<leftarrow> install_current_pair s (Channel c False) (Channel c True);
           Some (case slots of
                   None \<Rightarrow>
                     (close_handle_ref (close_handle_ref s (Channel c False)) (Channel c True),
                      args, IPC_EMFILE)
                 | Some (slot0, slot1) \<Rightarrow> (s, args\<lparr>rdx := of_nat slot1\<rparr>, int slot0)) })"

definition endpoint_push :: "endpoint \<Rightarrow> bytes \<Rightarrow> endpoint option" where
  "endpoint_push e m =
     (if IPC_QUEUE_DEPTH \<le> length (queue e) then None else Some (e\<lparr>queue := queue e @ [m]\<rparr>))"

definition endpoint_pop :: "endpoint \<Rightarrow> (endpoint \<times> bytes) option" where
  "endpoint_pop e = (case queue e of [] \<Rightarrow> None | m # ms \<Rightarrow> Some (e\<lparr>queue := ms\<rparr>, m))"

definition sys_send ::
  "ipc_state \<Rightarrow> (u64 \<Rightarrow> u8) \<Rightarrow> ipc_args \<Rightarrow> (ipc_state \<times> int) option" where
  "sys_send s mem args =
     (let handle_id = unat (rsi args); len = unat (rcx args) in
      if IPC_MAX_MSG_SIZE < len then Some (s, IPC_EMSGSIZE)
      else
        let buf = user_bytes mem (rdx args) len in
        do { h \<leftarrow> current_handle s handle_id;
             case h of
               None \<Rightarrow> Some (s, IPC_EBADF)
             | Some (c, side) \<Rightarrow>
                 do { ch \<leftarrow> nth_opt (channels s) c;
                      let dest = \<not> side;
                      if closed (endpoints ch side) \<or> closed (endpoints ch dest) then Some (s, IPC_EPIPE)
                      else (case endpoint_push (endpoints ch dest) buf of
                              None \<Rightarrow> Some (s, IPC_EAGAIN)
                            | Some e \<Rightarrow>
                                Some (with_channel s c (\<lambda>ch. ch\<lparr>endpoints := (endpoints ch)(dest := e)\<rparr>),
                                      int len)) } })"

definition sys_recv ::
  "ipc_state \<Rightarrow> (u64 \<Rightarrow> u8) \<Rightarrow> ipc_args \<Rightarrow> (ipc_state \<times> (u64 \<Rightarrow> u8) \<times> int) option" where
  "sys_recv s mem args =
     (let handle_id = unat (rsi args); len = unat (rcx args) in
      do { h \<leftarrow> current_handle s handle_id;
           case h of
             None \<Rightarrow> Some (s, mem, IPC_EBADF)
           | Some (c, side) \<Rightarrow>
               do { ch \<leftarrow> nth_opt (channels s) c;
                    let peer_closed = closed (endpoints ch (\<not> side));
                    case endpoint_pop (endpoints ch side) of
                      Some (e, message) \<Rightarrow>
                        (let copy_len = min len (length message) in
                         Some (with_channel s c (\<lambda>ch. ch\<lparr>endpoints := (endpoints ch)(side := e)\<rparr>),
                               user_store mem (rdx args) (take copy_len message), int copy_len))
                    | None \<Rightarrow>
                        if peer_closed \<or> closed (endpoints ch side) then Some (s, mem, IPC_OK)
                        else Some (s, mem, IPC_EAGAIN) } })"

definition sys_close :: "ipc_state \<Rightarrow> ipc_args \<Rightarrow> (ipc_state \<times> int) option" where
  "sys_close s args =
     (let handle_id = unat (rsi args) in
      do { t \<leftarrow> current_table s; tb \<leftarrow> t;
           if length tb \<le> handle_id then Some (s, IPC_EBADF)
           else (case tb ! handle_id of
                   None \<Rightarrow> Some (s, IPC_EBADF)
                 | Some h \<Rightarrow>
                     Some (close_handle_ref (set_current_table s (tb[handle_id := None])) h, IPC_OK)) })"

definition sys_dup :: "ipc_state \<Rightarrow> ipc_args \<Rightarrow> (ipc_state \<times> int) option" where
  "sys_dup s args =
     do { r \<leftarrow> current_handle_ref s (unat (rsi args));
          case r of
            None \<Rightarrow> Some (s, IPC_EBADF)
          | Some source \<Rightarrow>
              do { (s, slot) \<leftarrow> install_current_handle (dup_handle_ref s source) source;
                   Some (case slot of
                           None \<Rightarrow> (close_handle_ref s source, IPC_EMFILE)
                         | Some slot \<Rightarrow> (s, int slot)) } }"

definition copy_name_arg :: "(u64 \<Rightarrow> u8) \<Rightarrow> u64 \<Rightarrow> nat \<Rightarrow> bytes option" where
  "copy_name_arg mem p len =
     (if p = 0 \<or> len = 0 \<or> IPC_MAX_NAME_LEN < len then None
      else let bs = user_bytes mem p len in
        if \<not> utf8_valid bs then None else if bs = [] then None else Some bs)"

definition sys_bind :: "ipc_state \<Rightarrow> (u64 \<Rightarrow> u8) \<Rightarrow> ipc_args \<Rightarrow> (ipc_state \<times> int) option" where
  "sys_bind s mem args =
     (case copy_name_arg mem (rsi args) (unat (rdx args)) of
        None \<Rightarrow> Some (s, IPC_EINVAL)
      | Some name \<Rightarrow>
          let l = length (listeners s);
              s = s\<lparr>listeners := listeners s @ [\<lparr>l_refs = 1, pending = []\<rparr>]\<rparr> in
          if list_ex (\<lambda>e. fst e = name) (named s) then
            Some (close_handle_ref s (Listener l), IPC_EEXIST)
          else
            let s = s\<lparr>named := named s @ [(name, l)]\<rparr> in
            do { (s, slot) \<leftarrow> install_current_handle s (Listener l);
                 Some (case slot of
                         Some slot \<Rightarrow> (s, int slot)
                       | None \<Rightarrow>
                           (close_handle_ref (unregister_listener_by_name s name) (Listener l),
                            IPC_EMFILE)) })"

definition sys_connect :: "ipc_state \<Rightarrow> (u64 \<Rightarrow> u8) \<Rightarrow> ipc_args \<Rightarrow> (ipc_state \<times> int) option" where
  "sys_connect s mem args =
     (case copy_name_arg mem (rsi args) (unat (rdx args)) of
        None \<Rightarrow> Some (s, IPC_EINVAL)
      | Some name \<Rightarrow>
          (case List.find (\<lambda>e. fst e = name) (named s) of
             None \<Rightarrow> Some (s, IPC_ENOENT)
           | Some (_, l) \<Rightarrow>
               let (s, c) = new_channel s;
                   s = dup_handle_ref s (Channel c False);
                   s = dup_handle_ref s (Channel c True) in
               do { (s, slot) \<leftarrow> install_current_handle s (Channel c False);
                    Some (case slot of
                            Some slot \<Rightarrow>
                              (with_listener s l (\<lambda>li. li\<lparr>pending := pending li @ [Channel c True]\<rparr>),
                               int slot)
                          | None \<Rightarrow>
                              (close_handle_ref (close_handle_ref s (Channel c False)) (Channel c True),
                               IPC_EMFILE)) }))"

definition sys_accept :: "ipc_state \<Rightarrow> ipc_args \<Rightarrow> (ipc_state \<times> int) option" where
  "sys_accept s args =
     do { r \<leftarrow> current_listener s (unat (rsi args));
          case r of
            None \<Rightarrow> Some (s, IPC_EBADF)
          | Some l \<Rightarrow>
              do { li \<leftarrow> nth_opt (listeners s) l;
                   case pending li of
                     [] \<Rightarrow> Some (s, IPC_EAGAIN)
                   | h # hs \<Rightarrow>
                       do { (s, slot) \<leftarrow> install_current_handle
                              (with_listener s l (\<lambda>li. li\<lparr>pending := hs\<rparr>)) h;
                            Some (case slot of
                                    Some slot \<Rightarrow> (s, int slot)
                                  | None \<Rightarrow>
                                      (with_listener s l (\<lambda>li. li\<lparr>pending := h # pending li\<rparr>),
                                       IPC_EMFILE)) } } }"

text \<open>The dispatcher; the caller's memory changes only when a message is received.\<close>

definition ipc_syscall ::
  "ipc_state \<Rightarrow> (u64 \<Rightarrow> u8) \<Rightarrow> ipc_args \<Rightarrow> (ipc_state \<times> (u64 \<Rightarrow> u8) \<times> ipc_args) option" where
  "ipc_syscall s mem args =
     (let cmd = unat (rdi args) in
      do { (s, mem, args, ret) \<leftarrow>
             (if cmd = 0 then do { (s, args, ret) \<leftarrow> sys_create s args; Some (s, mem, args, ret) }
              else if cmd = 1 then do { (s, ret) \<leftarrow> sys_send s mem args; Some (s, mem, args, ret) }
              else if cmd = 2 then do { (s, mem, ret) \<leftarrow> sys_recv s mem args; Some (s, mem, args, ret) }
              else if cmd = 3 then do { (s, ret) \<leftarrow> sys_close s args; Some (s, mem, args, ret) }
              else if cmd = 4 then do { (s, ret) \<leftarrow> sys_dup s args; Some (s, mem, args, ret) }
              else if cmd = 5 then do { (s, ret) \<leftarrow> sys_bind s mem args; Some (s, mem, args, ret) }
              else if cmd = 6 then do { (s, ret) \<leftarrow> sys_connect s mem args; Some (s, mem, args, ret) }
              else if cmd = 7 then do { (s, ret) \<leftarrow> sys_accept s args; Some (s, mem, args, ret) }
              else Some (s, mem, args, IPC_EINVAL));
           Some (s, mem, args\<lparr>rax := word_of_int ret\<rparr>) })"

section \<open>The invariant\<close>

text \<open>
  The live handles of a state are those in the tables of the tasks and those waiting at a listener;
  \<open>W\<close> holds the handles a command has in hand. Every counter is the number of live handles of its
  object.
\<close>

definition opt_ms :: "handle option \<Rightarrow> handle multiset" where
  "opt_ms e = (case e of None \<Rightarrow> {#} | Some h \<Rightarrow> {#h#})"

definition table_ms :: "handle_table \<Rightarrow> handle multiset" where
  "table_ms tb = sum_list (map opt_ms tb)"

definition task_ms :: "handle_table option \<Rightarrow> handle multiset" where
  "task_ms t = (case t of None \<Rightarrow> {#} | Some tb \<Rightarrow> table_ms tb)"

definition live :: "ipc_state \<Rightarrow> handle multiset" where
  "live s = sum_list (map task_ms (tables s)) + sum_list (map (\<lambda>li. mset (pending li)) (listeners s))"

definition valid_handle :: "ipc_state \<Rightarrow> handle \<Rightarrow> bool" where
  "valid_handle s h = (case h of Channel c _ \<Rightarrow> c < length (channels s) | Listener l \<Rightarrow> l < length (listeners s))"

definition refs_ok :: "ipc_state \<Rightarrow> handle multiset \<Rightarrow> bool" where
  "refs_ok s M \<longleftrightarrow>
     (\<forall>c<length (channels s). \<forall>side. refs (channels s ! c) side = count M (Channel c side)) \<and>
     (\<forall>l<length (listeners s). l_refs (listeners s ! l) = count M (Listener l)) \<and>
     (\<forall>h\<in>#M. valid_handle s h)"

definition end_ok :: "channel \<Rightarrow> bool \<Rightarrow> bool" where
  "end_ok ch side \<longleftrightarrow> closed (endpoints ch side) = (refs ch side = 0) \<and>
     (closed (endpoints ch side) \<longrightarrow> queue (endpoints ch side) = []) \<and>
     length (queue (endpoints ch side)) \<le> IPC_QUEUE_DEPTH \<and>
     (\<forall>m\<in>set (queue (endpoints ch side)). length m \<le> IPC_MAX_MSG_SIZE)"

definition channels_ok :: "ipc_state \<Rightarrow> bool" where
  "channels_ok s \<longleftrightarrow> (\<forall>ch\<in>set (channels s). \<forall>side. end_ok ch side)"

definition listeners_ok :: "ipc_state \<Rightarrow> bool" where
  "listeners_ok s \<longleftrightarrow> (\<forall>li\<in>set (listeners s). l_refs li = 0 \<longrightarrow> pending li = [])"

definition named_ok :: "ipc_state \<Rightarrow> bool" where
  "named_ok s \<longleftrightarrow> distinct (map fst (named s)) \<and> distinct (map snd (named s)) \<and>
     (\<forall>(n, l)\<in>set (named s). l < length (listeners s) \<and> 0 < l_refs (listeners s ! l))"

definition tables_ok :: "ipc_state \<Rightarrow> bool" where
  "tables_ok s \<longleftrightarrow> (\<forall>tb. Some tb \<in> set (tables s) \<longrightarrow> length tb = IPC_MAX_HANDLES)"

definition ipc_inv :: "ipc_state \<Rightarrow> handle multiset \<Rightarrow> bool" where
  "ipc_inv s W \<longleftrightarrow> refs_ok s (live s + W) \<and> channels_ok s \<and> listeners_ok s \<and> named_ok s \<and> tables_ok s"

subsection \<open>Live handles under updates\<close>

lemma sum_list_update_ms:
  "i < length xs \<Longrightarrow> sum_list (map f (xs[i := y])) + f (xs ! i) = sum_list (map f xs) + (f y :: 'b multiset)"
  by (induction xs arbitrary: i) (auto split: nat.splits simp: ac_simps)

lemma live_with_channel [simp]: "live (with_channel s c f) = live s"
  by (simp add: live_def with_channel_def)

lemma live_with_listener:
  assumes "l < length (listeners s)"
  shows "live (with_listener s l f) + mset (pending (listeners s ! l)) =
    live s + mset (pending (f (listeners s ! l)))"
  using sum_list_update_ms [OF assms, of "\<lambda>li. mset (pending li)" "f (listeners s ! l)"]
  by (simp add: live_def with_listener_def ac_simps)

lemma live_with_listener_same:
  assumes "l < length (listeners s)" and "\<And>li. pending (f li) = pending li"
  shows "live (with_listener s l f) = live s"
  using live_with_listener [OF assms(1), of f] assms(2) by simp

lemma live_set_table:
  assumes "current_table s = Some (Some tb)" and "i < length tb"
  shows "live (set_current_table s (tb[i := e])) + opt_ms (tb ! i) = live s + opt_ms e"
proof -
  have cur: "current s < length (tables s)" "tables s ! current s = Some tb"
    using assms(1) by (auto simp: current_table_def nth_opt_eq_Some)
  have a: "sum_list (map task_ms ((tables s)[current s := Some (tb[i := e])])) + table_ms tb =
      sum_list (map task_ms (tables s)) + table_ms (tb[i := e])"
    using sum_list_update_ms [OF cur(1), of task_ms "Some (tb[i := e])"] cur(2) by (simp add: task_ms_def)
  have b: "table_ms (tb[i := e]) + opt_ms (tb ! i) = table_ms tb + opt_ms e"
    unfolding table_ms_def by (rule sum_list_update_ms [OF assms(2)])
  let ?X = "sum_list (map task_ms ((tables s)[current s := Some (tb[i := e])]))"
  let ?Y = "sum_list (map task_ms (tables s))"
  have "?X + opt_ms (tb ! i) + table_ms tb = ?Y + opt_ms e + table_ms tb"
    using a b by (metis add.assoc add.commute)
  then have "?X + opt_ms (tb ! i) = ?Y + opt_ms e" by simp
  then show ?thesis by (simp add: live_def set_current_table_def ac_simps)
qed

lemma unregister_other [simp]:
  "channels (unregister_listener s l) = channels s" "tables (unregister_listener s l) = tables s"
  "current (unregister_listener s l) = current s" "live (unregister_listener s l) = live s"
  "channels (unregister_listener_by_name s n) = channels s"
  "tables (unregister_listener_by_name s n) = tables s"
  "current (unregister_listener_by_name s n) = current s"
  "live (unregister_listener_by_name s n) = live s"
  by (simp_all add: unregister_listener_def unregister_listener_by_name_def live_def split: option.splits)

lemma with_channel_other [simp]:
  "listeners (with_channel s c f) = listeners s" "named (with_channel s c f) = named s"
  "tables (with_channel s c f) = tables s" "current (with_channel s c f) = current s"
  "length (channels (with_channel s c f)) = length (channels s)"
  by (simp_all add: with_channel_def)

lemma with_listener_other [simp]:
  "channels (with_listener s l f) = channels s" "named (with_listener s l f) = named s"
  "tables (with_listener s l f) = tables s" "current (with_listener s l f) = current s"
  "length (listeners (with_listener s l f)) = length (listeners s)"
  by (simp_all add: with_listener_def)

lemma dup_handle_ref_other [simp]:
  "tables (dup_handle_ref s h) = tables s" "current (dup_handle_ref s h) = current s"
  "named (dup_handle_ref s h) = named s"
  by (simp_all add: dup_handle_ref_def split: handle.splits)

lemma drop_ref_other:
  "drop_ref s h = (s', hs) \<Longrightarrow> tables s' = tables s \<and> current s' = current s"
  by (auto simp: drop_ref_def Let_def split: handle.splits option.splits if_splits)

lemma close_handles_other:
  "tables (close_handles s hs) = tables s \<and> current (close_handles s hs) = current s"
  by (induction s hs rule: close_handles.induct) 
    (simp_all add: split_beta Let_def drop_ref_other [OF surjective_pairing])

lemma close_handle_ref_other [simp]:
  "tables (close_handle_ref s h) = tables s" "current (close_handle_ref s h) = current s"
  using close_handles_other [of s "[h]"] by (simp_all add: close_handle_ref_def)

subsection \<open>Counting references\<close>

lemma ipc_inv_add_commute: "ipc_inv s (V + W) \<longleftrightarrow> ipc_inv s (W + V)"
  by (simp add: add.commute)

lemma nth_with_channel:
  "c < length (channels s) \<Longrightarrow> channels (with_channel s c f) ! d =
     (if d = c then f (channels s ! c) else channels s ! d)"
  by (simp add: with_channel_def nth_list_update)

lemma nth_with_listener:
  "l < length (listeners s) \<Longrightarrow> listeners (with_listener s l f) ! d =
     (if d = l then f (listeners s ! l) else listeners s ! d)"
  by (simp add: with_listener_def nth_list_update)

lemma channels_ok_update:
  assumes "channels_ok s" and "\<And>side. end_ok (f (channels s ! c)) side"
  shows "channels_ok (with_channel s c f)"
  using assms by (auto simp: channels_ok_def with_channel_def dest: set_update_subset_insert [THEN subsetD])

lemma listeners_ok_update:
  assumes "listeners_ok s" and "l_refs (f (listeners s ! l)) = 0 \<longrightarrow> pending (f (listeners s ! l)) = []"
  shows "listeners_ok (with_listener s l f)"
  using assms by (auto simp: listeners_ok_def with_listener_def dest: set_update_subset_insert [THEN subsetD])

lemma named_ok_update:
  assumes "named_ok s" and "l < length (listeners s)"
    and "0 < l_refs (listeners s ! l) \<Longrightarrow> 0 < l_refs (f (listeners s ! l))"
  shows "named_ok (with_listener s l f)"
  using assms by (auto simp: named_ok_def nth_with_listener)

lemma channels_ok_nth: "channels_ok s \<Longrightarrow> c < length (channels s) \<Longrightarrow> end_ok (channels s ! c) side"
  by (simp add: channels_ok_def)

lemma valid_handle_simps [simp]:
  "valid_handle s (Channel c side) \<longleftrightarrow> c < length (channels s)"
  "valid_handle s (Listener l) \<longleftrightarrow> l < length (listeners s)"
  "valid_handle (with_channel s c f) h \<longleftrightarrow> valid_handle s h"
  "valid_handle (with_listener s l g) h \<longleftrightarrow> valid_handle s h"
  "valid_handle (unregister_listener s l) h \<longleftrightarrow> valid_handle s h"
  "valid_handle (unregister_listener_by_name s n) h \<longleftrightarrow> valid_handle s h"
  "valid_handle (set_current_table s tb) h \<longleftrightarrow> valid_handle s h"
  "valid_handle (s\<lparr>named := ns\<rparr>) h \<longleftrightarrow> valid_handle s h"
  by (simp_all add: valid_handle_def set_current_table_def split: handle.splits)

lemma live_pos:
  assumes "ipc_inv s W" and "h \<in># live s + W"
  shows "valid_handle s h" and "case h of Channel c side \<Rightarrow> 0 < refs (channels s ! c) side
    | Listener l \<Rightarrow> 0 < l_refs (listeners s ! l)"
proof -
  show v: "valid_handle s h" using assms by (auto simp: ipc_inv_def refs_ok_def)
  have "0 < count (live s + W) h" using assms(2) by (simp add: count_greater_zero_iff)
  with v assms(1) show "case h of Channel c side \<Rightarrow> 0 < refs (channels s ! c) side
    | Listener l \<Rightarrow> 0 < l_refs (listeners s ! l)"
    by (cases h) (simp_all add: ipc_inv_def refs_ok_def)
qed

lemma ipc_inv_dup:
  assumes inv: "ipc_inv s W" and h: "h \<in># live s + W"
  shows "ipc_inv (dup_handle_ref s h) (add_mset h W)"
proof (cases h)
  case (Channel c side)
  let ?f = "\<lambda>ch. ch\<lparr>refs := (refs ch)(side := refs ch side + 1)\<rparr>"
  have c: "c < length (channels s)" and pos: "0 < refs (channels s ! c) side"
    using live_pos [OF inv h] Channel by auto
  have s': "dup_handle_ref s h = with_channel s c ?f" by (simp add: dup_handle_ref_def Channel)
  have "end_ok (?f (channels s ! c)) sd" for sd
    using channels_ok_nth [of s c sd] inv c pos by (auto simp: ipc_inv_def end_ok_def)
  then have "channels_ok (with_channel s c ?f)"
    using inv by (intro channels_ok_update) (auto simp: ipc_inv_def)
  moreover have "refs_ok (with_channel s c ?f) (live s + add_mset h W)"
    using inv c Channel
    by (auto simp: ipc_inv_def refs_ok_def nth_with_channel)
  ultimately show ?thesis
    using inv unfolding s' by (simp add: ipc_inv_def listeners_ok_def named_ok_def tables_ok_def)
next
  case (Listener l)
  let ?f = "\<lambda>li. li\<lparr>l_refs := l_refs li + 1\<rparr>"
  have l: "l < length (listeners s)" using live_pos [OF inv h] Listener by auto
  have s': "dup_handle_ref s h = with_listener s l ?f" by (simp add: dup_handle_ref_def Listener)
  have "live (with_listener s l ?f) = live s" using l by (intro live_with_listener_same) auto
  moreover have "refs_ok (with_listener s l ?f) (live s + add_mset h W)"
    using inv l Listener
    by (auto simp: ipc_inv_def refs_ok_def nth_with_listener)
  ultimately show ?thesis
    using inv l unfolding s'
    by (auto simp: ipc_inv_def channels_ok_def tables_ok_def intro!: listeners_ok_update named_ok_update)
qed

lemma swap_remove_mset:
  assumes "i < length xs"
  shows "mset (swap_remove xs i @ [xs ! i]) = mset xs"
proof -
  have ne: "xs \<noteq> []" using assms by auto
  have last: "last (xs[i := last xs]) = last xs" using assms ne by (simp add: last_list_update)
  have "swap_remove xs i @ [last xs] = xs[i := last xs]"
    using append_butlast_last_id [of "xs[i := last xs]"] ne unfolding swap_remove_def last by simp
  then have "add_mset (last xs) (mset (swap_remove xs i)) = mset (xs[i := last xs])"
    by (metis mset_append mset_single_iff_right union_mset_add_mset_right add.right_neutral mset.simps)
  also have "\<dots> = add_mset (last xs) (mset xs - {#xs ! i#})" using assms by (simp add: mset_update)
  finally show ?thesis using assms by simp
qed

lemma swap_remove_ok:
  assumes "distinct (map f xs)" and "i < length xs"
  shows "distinct (map f (swap_remove xs i))" and "set (swap_remove xs i) = set xs - {xs ! i}"
proof -
  have m: "mset (swap_remove xs i @ [xs ! i]) = mset xs" by (rule swap_remove_mset [OF assms(2)])
  then have "mset (map f (swap_remove xs i @ [xs ! i])) = mset (map f xs)" by (metis mset_map)
  then have d: "distinct (map f (swap_remove xs i @ [xs ! i]))"
    using assms(1) mset_eq_imp_distinct_iff by blast
  then show "distinct (map f (swap_remove xs i))" by simp
  have "set (swap_remove xs i @ [xs ! i]) = set xs" using m by (rule mset_eq_setD)
  then show "set (swap_remove xs i) = set xs - {xs ! i}" using d by auto
qed

text \<open>Removing a name never hurts; removing the listener's own entry makes it unnamed.\<close>

lemma named_unregister:
  assumes "distinct (map fst (named s))" and "distinct (map snd (named s))"
  shows "distinct (map fst (named (unregister_listener s l)))"
    and "distinct (map snd (named (unregister_listener s l)))"
    and "set (named (unregister_listener s l)) = {e \<in> set (named s). snd e \<noteq> l}"
proof -
  show "distinct (map fst (named (unregister_listener s l)))"
    and "distinct (map snd (named (unregister_listener s l)))"
    using assms
    by (auto simp: unregister_listener_def intro: swap_remove_ok(1) dest: position_SomeD(1)
        split: option.splits)
  show "set (named (unregister_listener s l)) = {e \<in> set (named s). snd e \<noteq> l}"
  proof (cases "position (\<lambda>e. snd e = l) (named s)")
    case None
    then have "\<forall>e\<in>set (named s). snd e \<noteq> l" by (simp add: position_None)
    with None show ?thesis by (auto simp: unregister_listener_def)
  next
    case (Some i)
    note i = position_SomeD [OF Some]
    have "e = named s ! i" if mem: "e \<in> set (named s)" and sn: "snd e = l" for e
    proof -
      obtain j where j: "j < length (named s)" "named s ! j = e"
        using mem by (auto simp: in_set_conv_nth)
      then have "map snd (named s) ! j = map snd (named s) ! i" using sn i by simp
      then have "j = i" using nth_eq_iff_index_eq [OF assms(2), of j i] j(1) i(1) by simp
      then show ?thesis using j by simp
    qed
    with Some i show ?thesis
      by (auto simp: unregister_listener_def swap_remove_ok(2) [OF assms(2)])
  qed
qed

lemma named_unregister_by_name:
  assumes "named_ok s"
  shows "named_ok (unregister_listener_by_name s n)"
proof (cases "position (\<lambda>e. fst e = n) (named s)")
  case None
  then show ?thesis using assms by (simp add: unregister_listener_by_name_def)
next
  case (Some i)
  note i = position_SomeD [OF Some]
  have d: "distinct (map fst (named s))" "distinct (map snd (named s))"
    using assms by (auto simp: named_ok_def)
  from swap_remove_ok [OF d(1) i(1)] swap_remove_ok(1) [OF d(2) i(1)] assms show ?thesis
    by (auto simp: named_ok_def unregister_listener_by_name_def Some)
qed

lemma ipc_inv_drop_channel:
  assumes inv: "ipc_inv s (add_mset (Channel c side) W)"
  shows "ipc_inv (fst (drop_ref s (Channel c side))) W \<and> snd (drop_ref s (Channel c side)) = []"
proof -
  let ?h = "Channel c side"
  let ?f = "\<lambda>ch. if refs ch side \<noteq> 0 then
      (let ch = ch\<lparr>refs := (refs ch)(side := refs ch side - 1)\<rparr> in
       if refs ch side = 0 then close_side ch side else ch) else ch"
  have c: "c < length (channels s)" and pos: "0 < refs (channels s ! c) side"
    using live_pos [OF inv, of ?h] by auto
  have s': "drop_ref s ?h = (with_channel s c ?f, [])" by (simp add: drop_ref_def)
  have r: "refs (?f (channels s ! c)) = (refs (channels s ! c))(side := refs (channels s ! c) side - 1)"
    using pos by (simp add: Let_def close_side_def)
  have "end_ok (?f (channels s ! c)) sd" for sd
    using channels_ok_nth [of s c sd] inv c pos
    by (auto simp: ipc_inv_def end_ok_def close_side_def Let_def)
  then have "channels_ok (with_channel s c ?f)"
    using inv by (intro channels_ok_update) (auto simp: ipc_inv_def)
  moreover have "refs_ok (with_channel s c ?f) (live s + W)"
    unfolding refs_ok_def
  proof (intro conjI allI impI ballI)
    fix d sd assume "d < length (channels (with_channel s c ?f))"
    then show "refs (channels (with_channel s c ?f) ! d) sd = count (live s + W) (Channel d sd)"
      using inv c r by (auto simp: ipc_inv_def refs_ok_def nth_with_channel)
  next
    fix l assume "l < length (listeners (with_channel s c ?f))"
    then show "l_refs (listeners (with_channel s c ?f) ! l) = count (live s + W) (Listener l)"
      using inv by (auto simp: ipc_inv_def refs_ok_def)
  next
    fix h assume "h \<in># live s + W"
    then show "valid_handle (with_channel s c ?f) h"
      using inv by (auto simp: ipc_inv_def refs_ok_def)
  qed
  ultimately show ?thesis
    using inv unfolding s' by (simp add: ipc_inv_def listeners_ok_def named_ok_def tables_ok_def)
qed

lemma ipc_inv_drop_listener:
  assumes inv: "ipc_inv s (add_mset (Listener l) W)"
  shows "ipc_inv (fst (drop_ref s (Listener l))) (mset (snd (drop_ref s (Listener l))) + W)"
proof -
  let ?h = "Listener l" and ?li = "listeners s ! l"
  have l: "l < length (listeners s)" and pos: "0 < l_refs ?li"
    using live_pos [OF inv, of ?h] by auto
  have cnt: "l_refs ?li = Suc (count (live s + W) ?h)"
    using inv l by (simp add: ipc_inv_def refs_ok_def)
  show ?thesis
  proof (cases "l_refs ?li = 1")
    case True
    let ?f = "\<lambda>li. li\<lparr>l_refs := 0, pending := []\<rparr>"
    let ?s = "with_listener s l ?f"
    have s': "drop_ref s ?h = (unregister_listener ?s l, pending ?li)"
      using l True by (simp add: drop_ref_def)
    have live: "live ?s + mset (pending ?li) = live s"
      using live_with_listener [OF l, of ?f] by simp
    have "refs_ok ?s (live s + W)"
      using inv l cnt True by (auto simp: ipc_inv_def refs_ok_def nth_with_listener)
    then have "refs_ok (unregister_listener ?s l) (live ?s + (mset (pending ?li) + W))"
      unfolding live [symmetric] by (simp add: refs_ok_def add.assoc)
    moreover have "named_ok (unregister_listener ?s l)"
      using inv l named_unregister [of ?s l]
      by (auto simp: ipc_inv_def named_ok_def nth_with_listener)
    moreover have "listeners_ok ?s" using inv by (intro listeners_ok_update) (auto simp: ipc_inv_def)
    ultimately show ?thesis
      using inv unfolding s' by (simp add: ipc_inv_def channels_ok_def tables_ok_def listeners_ok_def)
  next
    case False
    let ?f = "\<lambda>li. li\<lparr>l_refs := l_refs li - 1\<rparr>"
    let ?s = "with_listener s l ?f"
    have s': "drop_ref s ?h = (?s, [])" using l pos False by (simp add: drop_ref_def)
    have live: "live ?s = live s" using l by (intro live_with_listener_same) auto
    have "refs_ok ?s (live s + W)"
      using inv l cnt by (auto simp: ipc_inv_def refs_ok_def nth_with_listener)
    moreover have "listeners_ok ?s" and "named_ok ?s"
      using inv l pos False by (auto simp: ipc_inv_def intro!: listeners_ok_update named_ok_update)
    ultimately show ?thesis
      using inv unfolding s' ipc_inv_def fst_conv snd_conv mset.simps add_0 live
      by (simp add: channels_ok_def tables_ok_def)
  qed
qed

lemma ipc_inv_close_handles:
  "ipc_inv s (mset hs + W) \<Longrightarrow> ipc_inv (close_handles s hs) W"
proof (induction s hs rule: close_handles.induct)
  case (1 s)
  then show ?case by simp
next
  case (2 s h hs)
  have "ipc_inv s (add_mset h (mset hs + W))" using "2.prems" by simp
  then have "ipc_inv (fst (drop_ref s h)) (mset (snd (drop_ref s h)) + (mset hs + W))"
    using ipc_inv_drop_channel ipc_inv_drop_listener by (cases h) auto
  then show ?case using "2.IH" [OF refl surjective_pairing [symmetric]]
    by (simp add: split_beta Let_def add.assoc)
qed

lemma ipc_inv_close: "ipc_inv s (add_mset h W) \<Longrightarrow> ipc_inv (close_handle_ref s h) W"
  using ipc_inv_close_handles [of s "[h]" W] by (simp add: close_handle_ref_def)

subsection \<open>The steps of the commands\<close>

lemma ipc_inv_set_table:
  assumes "ipc_inv s W" and "current_table s = Some (Some tb)" and "length tb' = length tb"
    and "live (set_current_table s tb') + W' = live s + W"
  shows "ipc_inv (set_current_table s tb') W'"
proof -
  have cur: "current s < length (tables s)" "tables s ! current s = Some tb"
    using assms(2) by (auto simp: current_table_def nth_opt_eq_Some)
  then have "Some tb \<in> set (tables s)" by (metis nth_mem)
  then have "tables_ok (set_current_table s tb')"
    using assms(1,3) by (auto simp: ipc_inv_def tables_ok_def set_current_table_def
        dest!: set_update_subset_insert [THEN subsetD])
  moreover have "refs_ok (set_current_table s tb') (live s + W)"
    using assms(1) unfolding ipc_inv_def refs_ok_def valid_handle_simps
    by (simp add: set_current_table_def)
  ultimately show ?thesis
    using assms(1) unfolding ipc_inv_def assms(4)
    by (simp add: channels_ok_def listeners_ok_def named_ok_def set_current_table_def)
qed

lemma install_current_handle_cases:
  assumes "install_current_handle s h = Some (s', r)"
  obtains (full) tb where "current_table s = Some (Some tb)" and "None \<notin> set tb" and "s' = s" and "r = None"
  | (ok) tb i where "current_table s = Some (Some tb)" and "i < length tb" and "tb ! i = None"
      and "s' = set_current_table s (tb[i := Some h])" and "r = Some i"
proof -
  from assms obtain tb where tb: "current_table s = Some (Some tb)"
    by (auto simp: install_current_handle_def bind_eq_Some_conv)
  show thesis
  proof (cases "position (\<lambda>e. e = None) tb")
    case None
    with assms tb show thesis by (intro full) (auto simp: install_current_handle_def position_None)
  next
    case (Some i)
    with position_SomeD [OF Some] assms tb show thesis by (intro ok) (auto simp: install_current_handle_def)
  qed
qed

lemma ipc_inv_install:
  assumes "ipc_inv s (add_mset h W)" and "install_current_handle s h = Some (s', r)"
  shows "if r = None then s' = s else ipc_inv s' W"
  using assms(2)
proof (cases rule: install_current_handle_cases)
  case (ok tb i)
  have "live s' = add_mset h (live s)"
    using live_set_table [OF ok(1,2), of "Some h"] ok by (simp add: opt_ms_def)
  then have "ipc_inv s' W" unfolding ok(4) using assms(1) ok(1) by (intro ipc_inv_set_table) (auto simp: ok(4))
  then show ?thesis by (simp add: ok)
qed simp

lemma new_pair_state:
  "dup_handle_ref (dup_handle_ref (fst (new_channel s)) (Channel (length (channels s)) False))
     (Channel (length (channels s)) True) =
   s\<lparr>channels := channels s @ [\<lparr>refs = (\<lambda>_. 1), endpoints = (\<lambda>_. endpoint_new)\<rparr>]\<rparr>"
proof -
  have "(\<lambda>_. 0 :: nat)(False := 1, True := 1) = (\<lambda>_. 1)" by (auto simp: fun_eq_iff split: bool.splits)
  then show ?thesis
    by (simp add: dup_handle_ref_def new_channel_def with_channel_def channel_new_def list_update_append)
qed

lemma ipc_inv_new_pair:
  assumes inv: "ipc_inv s W" and c: "c = length (channels s)"
  shows "ipc_inv (s\<lparr>channels := channels s @ [\<lparr>refs = (\<lambda>_. 1), endpoints = (\<lambda>_. endpoint_new)\<rparr>]\<rparr>)
    (add_mset (Channel c False) (add_mset (Channel c True) W))"
proof -
  let ?s = "s\<lparr>channels := channels s @ [\<lparr>refs = (\<lambda>_. 1), endpoints = (\<lambda>_. endpoint_new)\<rparr>]\<rparr>"
  have fresh: "count (live s) (Channel c sd) = 0 \<and> count W (Channel c sd) = 0" for sd
    using live_pos(1) [OF inv, of "Channel c sd"] c by (auto simp: count_eq_zero_iff)
  have live: "live ?s = live s" by (simp add: live_def)
  have v: "valid_handle s h \<Longrightarrow> valid_handle ?s h" for h by (cases h) auto
  have "refs_ok ?s (live s + add_mset (Channel c False) (add_mset (Channel c True) W))"
    unfolding refs_ok_def
  proof (intro conjI allI impI ballI)
    fix d sd
    show "refs (channels ?s ! d) sd =
        count (live s + add_mset (Channel c False) (add_mset (Channel c True) W)) (Channel d sd)"
      if "d < length (channels ?s)"
      using that inv fresh [of sd] c
      by (cases "d = c"; cases sd) (auto simp: ipc_inv_def refs_ok_def nth_append less_Suc_eq)
  qed (use inv v c in \<open>auto simp: ipc_inv_def refs_ok_def\<close>)
  moreover have "end_ok \<lparr>refs = (\<lambda>_. 1), endpoints = (\<lambda>_. endpoint_new)\<rparr> sd" for sd
    by (simp add: end_ok_def endpoint_new_def)
  ultimately show ?thesis
    using inv unfolding ipc_inv_def live
    by (auto simp: channels_ok_def listeners_ok_def named_ok_def tables_ok_def)
qed

lemma ipc_inv_new_listener:
  assumes inv: "ipc_inv s W" and l: "l = length (listeners s)"
  shows "ipc_inv (s\<lparr>listeners := listeners s @ [\<lparr>l_refs = 1, pending = []\<rparr>]\<rparr>) (add_mset (Listener l) W)"
proof -
  let ?s = "s\<lparr>listeners := listeners s @ [\<lparr>l_refs = 1, pending = []\<rparr>]\<rparr>"
  have fresh: "count (live s) (Listener l) = 0 \<and> count W (Listener l) = 0"
    using live_pos(1) [OF inv, of "Listener l"] l by (auto simp: count_eq_zero_iff)
  have live: "live ?s = live s" by (simp add: live_def)
  have v: "valid_handle s h \<Longrightarrow> valid_handle ?s h" for h by (cases h) auto
  have "refs_ok ?s (live s + add_mset (Listener l) W)"
    using inv fresh l v by (auto simp: ipc_inv_def refs_ok_def nth_append less_Suc_eq)
  moreover have "named_ok ?s"
    using inv by (fastforce simp: ipc_inv_def named_ok_def nth_append)
  ultimately show ?thesis
    using inv unfolding ipc_inv_def live by (auto simp: channels_ok_def listeners_ok_def tables_ok_def)
qed

lemma ipc_inv_pending:
  assumes inv: "ipc_inv s W" and l: "l < length (listeners s)"
    and eq: "mset (pending (listeners s ! l)) + W = mset ps + W'"
    and pos: "0 < l_refs (listeners s ! l)"
  shows "ipc_inv (with_listener s l (\<lambda>li. li\<lparr>pending := ps\<rparr>)) W'"
proof -
  let ?f = "\<lambda>li. li\<lparr>pending := ps\<rparr>"
  let ?s = "with_listener s l ?f"
  have "live ?s + mset (pending (listeners s ! l)) = live s + mset ps"
    using live_with_listener [OF l, of ?f] by simp
  then have "live ?s + W' + (mset ps + mset (pending (listeners s ! l))) =
      live s + W + (mset ps + mset (pending (listeners s ! l)))"
    using eq by (metis add.assoc add.commute)
  then have live: "live ?s + W' = live s + W" by simp
  have "refs_ok ?s (live s + W)"
    using inv l by (auto simp: ipc_inv_def refs_ok_def nth_with_listener)
  moreover have "listeners_ok ?s" and "named_ok ?s"
    using inv l pos by (auto simp: ipc_inv_def intro!: listeners_ok_update named_ok_update)
  ultimately show ?thesis
    using inv unfolding ipc_inv_def live by (simp add: channels_ok_def tables_ok_def)
qed

subsection \<open>The commands\<close>

text \<open>The current task exists; every command keeps that, and then none of them panics.\<close>

definition current_ok :: "ipc_state \<Rightarrow> bool" where
  "current_ok s \<longleftrightarrow> (\<exists>tb. current_table s = Some (Some tb))"

lemma current_ok_other [simp]:
  "current_ok (with_channel s c f) = current_ok s"
  "current_ok (with_listener s l g) = current_ok s"
  "current_ok (dup_handle_ref s h) = current_ok s"
  "current_ok (close_handle_ref s h) = current_ok s"
  "current_ok (unregister_listener_by_name s n) = current_ok s"
  "current_ok (s\<lparr>channels := cs\<rparr>) = current_ok s"
  "current_ok (s\<lparr>listeners := ls\<rparr>) = current_ok s"
  "current_ok (s\<lparr>named := ns\<rparr>) = current_ok s"
  by (simp_all add: current_ok_def current_table_def)

lemma current_ok_set_table [simp]: "current_ok s \<Longrightarrow> current_ok (set_current_table s tb)"
  by (auto simp: current_ok_def current_table_def set_current_table_def nth_opt_def split: if_splits)

lemma install_total:
  assumes "current_ok s"
  obtains s' r where "install_current_handle s h = Some (s', r)" and "current_ok s'"
proof -
  from assms obtain tb where "current_table s = Some (Some tb)" by (auto simp: current_ok_def)
  then have "install_current_handle s h \<noteq> None" by (simp add: install_current_handle_def)
  then obtain s' r where i: "install_current_handle s h = Some (s', r)" by auto
  then have "current_ok s'"
    using assms by (cases rule: install_current_handle_cases) auto
  with i show thesis by (rule that)
qed

lemma close_pair:
  "ipc_inv s (add_mset h0 (add_mset h1 W)) \<Longrightarrow> ipc_inv (close_handle_ref (close_handle_ref s h0) h1) W"
  by (intro ipc_inv_close)

lemma install_pair_ok:
  assumes inv: "ipc_inv s (add_mset h0 (add_mset h1 W))" and ok: "current_ok s"
  obtains "install_current_pair s h0 h1 = Some (s, None)"
  | s' i j where "install_current_pair s h0 h1 = Some (s', Some (i, j))" and "ipc_inv s' W" and "current_ok s'"
proof -
  from ok obtain tb where tb: "current_table s = Some (Some tb)" by (auto simp: current_ok_def)
  let ?free = "filter (\<lambda>i. tb ! i = None) [0..<length tb]"
  show thesis
  proof (cases "\<exists>i j rest. ?free = i # j # rest")
    case False
    then show thesis using tb that(1)
      by (auto simp: install_current_pair_def split: list.splits)
  next
    case True
    then obtain i j rest where free: "?free = i # j # rest" by auto
    let ?tb1 = "tb[i := Some h0]"
    let ?s1 = "set_current_table s ?tb1"
    let ?s2 = "set_current_table s (tb[i := Some h0, j := Some h1])"
    have "i \<in> set ?free" "j \<in> set ?free" "i \<noteq> j" using distinct_filter [of "[0..<length tb]" "\<lambda>i. tb ! i = None"]
      by (auto simp: free)
    then have ij: "i < length tb" "tb ! i = None" "j < length tb" "tb ! j = None" "i \<noteq> j" by auto
    have "live ?s1 = add_mset h0 (live s)"
      using live_set_table [OF tb ij(1), of "Some h0"] ij(2) by (simp add: opt_ms_def)
    moreover have t1: "current_table ?s1 = Some (Some ?tb1)"
      using tb by (auto simp: current_table_def set_current_table_def nth_opt_def split: if_splits)
    moreover have s2: "set_current_table ?s1 (?tb1[j := Some h1]) = ?s2" by (simp add: set_current_table_def)
    ultimately have "live ?s2 = add_mset h1 (add_mset h0 (live s))"
      using live_set_table [OF t1, of j "Some h1"] ij by (simp add: opt_ms_def)
    then have "ipc_inv ?s2 W" using inv tb by (intro ipc_inv_set_table [of s]) auto
    moreover have "install_current_pair s h0 h1 = Some (?s2, Some (i, j))"
      using tb by (simp add: install_current_pair_def free)
    ultimately show thesis using ok that(2) [of ?s2 i j] by simp
  qed
qed

lemma sys_create_ok:
  assumes "ipc_inv s {#}" and "current_ok s"
  shows "\<exists>s' args' r. sys_create s args = Some (s', args', r) \<and> ipc_inv s' {#} \<and> current_ok s'"
proof -
  let ?c = "length (channels s)"
  let ?s = "s\<lparr>channels := channels s @ [\<lparr>refs = (\<lambda>_. 1), endpoints = (\<lambda>_. endpoint_new)\<rparr>]\<rparr>"
  have inv: "ipc_inv ?s (add_mset (Channel ?c False) (add_mset (Channel ?c True) {#}))"
    by (rule ipc_inv_new_pair [OF assms(1) refl])
  have ok: "current_ok ?s" using assms(2) by simp
  have eq: "sys_create s args =
      do { (s, slots) \<leftarrow> install_current_pair ?s (Channel ?c False) (Channel ?c True);
           Some (case slots of
                   None \<Rightarrow> (close_handle_ref (close_handle_ref s (Channel ?c False)) (Channel ?c True),
                      args, IPC_EMFILE)
                 | Some (slot0, slot1) \<Rightarrow> (s, args\<lparr>rdx := of_nat slot1\<rparr>, int slot0)) }"
    using new_pair_state [of s] by (simp add: sys_create_def new_channel_def split_beta)
  from inv ok show ?thesis
    by (rule install_pair_ok) (use close_pair [OF inv] ok in \<open>auto simp: eq\<close>)
qed

lemma current_handle_ref_live:
  assumes "current_handle_ref s i = Some (Some h)"
  shows "h \<in># live s"
proof -
  from assms obtain tb where tb: "current_table s = Some (Some tb)" "i < length tb" "tb ! i = Some h"
    by (auto simp: current_handle_ref_def bind_eq_Some_conv nth_opt_def split: option.splits if_splits)
  from live_set_table [OF tb(1,2), of None] tb(3) have "live s = add_mset h (live (set_current_table s (tb[i := None])))"
    by (simp add: opt_ms_def)
  then show ?thesis by simp
qed

lemma current_handle_ref_total: "current_ok s \<Longrightarrow> \<exists>r. current_handle_ref s i = Some r"
  by (auto simp: current_ok_def current_handle_ref_def)

lemma current_handle_cases:
  assumes "ipc_inv s W" and "current_ok s"
  obtains "current_handle s i = Some None"
  | c side where "current_handle s i = Some (Some (c, side))" and "c < length (channels s)"
      and "Channel c side \<in># live s" and "0 < refs (channels s ! c) side"
proof -
  from current_handle_ref_total [OF assms(2)] obtain r where r: "current_handle_ref s i = Some r" by blast
  show thesis
  proof (cases "\<exists>c side. r = Some (Channel c side)")
    case False
    with r have "current_handle s i = Some None"
      by (auto simp: current_handle_def split: option.splits handle.splits)
    then show thesis by (rule that(1))
  next
    case True
    then obtain c side where rc: "r = Some (Channel c side)" by auto
    then have "Channel c side \<in># live s" using current_handle_ref_live r by simp
    with live_pos [OF assms(1), of "Channel c side"] r rc show thesis
      by (intro that(2) [of c side]) (auto simp: current_handle_def)
  qed
qed

lemma current_handle_open:
  assumes "ipc_inv s W" and "current_ok s" and "current_handle s i = Some (Some (c, side))"
  shows "c < length (channels s) \<and> Channel c side \<in># live s \<and> 0 < refs (channels s ! c) side"
  using assms(1,2) by (rule current_handle_cases [of s W i]) (use assms(3) in auto)

lemma ipc_inv_endpoint:
  assumes inv: "ipc_inv s W" and c: "c < length (channels s)"
    and q: "closed e = closed (endpoints (channels s ! c) sd)"
      "closed e \<longrightarrow> queue e = []" "length (queue e) \<le> IPC_QUEUE_DEPTH"
      "\<forall>m\<in>set (queue e). length m \<le> IPC_MAX_MSG_SIZE"
  shows "ipc_inv (with_channel s c (\<lambda>ch. ch\<lparr>endpoints := (endpoints ch)(sd := e)\<rparr>)) W"
proof -
  let ?f = "\<lambda>ch. ch\<lparr>endpoints := (endpoints ch)(sd := e)\<rparr>"
  have "end_ok (?f (channels s ! c)) x" for x
    using channels_ok_nth [of s c x] inv c q by (auto simp: ipc_inv_def end_ok_def)
  then have "channels_ok (with_channel s c ?f)" using inv by (intro channels_ok_update) (auto simp: ipc_inv_def)
  moreover have "refs_ok (with_channel s c ?f) (live s + W)"
    using inv c by (auto simp: ipc_inv_def refs_ok_def nth_with_channel)
  ultimately show ?thesis
    using inv by (simp add: ipc_inv_def listeners_ok_def named_ok_def tables_ok_def)
qed

lemma length_user_bytes [simp]: "length (user_bytes mem p n) = n"
  by (simp add: user_bytes_def)

lemma sys_send_ok:
  assumes inv: "ipc_inv s W" and ok: "current_ok s"
  shows "\<exists>s' r. sys_send s mem args = Some (s', r) \<and> ipc_inv s' W \<and> current_ok s'"
proof (cases "IPC_MAX_MSG_SIZE < unat (rcx args)")
  case True
  then show ?thesis using assms by (simp add: sys_send_def Let_def)
next
  case False
  from inv ok show ?thesis
  proof (cases rule: current_handle_cases [of s W "unat (rsi args)"])
    case 1
    with False assms show ?thesis by (simp add: sys_send_def Let_def)
  next
    case (2 c side)
    let ?ch = "channels s ! c" and ?m = "user_bytes mem (rdx args) (unat (rcx args))"
    have "end_ok ?ch (\<not> side)" using inv 2 by (intro channels_ok_nth) (auto simp: ipc_inv_def)
    then have "ipc_inv (with_channel s c (\<lambda>ch. ch\<lparr>endpoints := (endpoints ch)(\<not> side := e)\<rparr>)) W"
      if "endpoint_push (endpoints ?ch (\<not> side)) ?m = Some e" "\<not> closed (endpoints ?ch (\<not> side))" for e
      using that False inv 2(2)
      by (intro ipc_inv_endpoint) (auto simp: endpoint_push_def end_ok_def split: if_splits)
    with False 2(1,2) assms show ?thesis
      by (auto simp: sys_send_def Let_def split: option.splits)
  qed
qed

lemma sys_recv_ok:
  assumes inv: "ipc_inv s W" and ok: "current_ok s"
  shows "\<exists>s' mem' r. sys_recv s mem args = Some (s', mem', r) \<and> ipc_inv s' W \<and> current_ok s'"
  using inv ok
proof (cases rule: current_handle_cases [of s W "unat (rsi args)"])
  case 1
  with assms show ?thesis by (simp add: sys_recv_def Let_def)
next
  case (2 c side)
  let ?ch = "channels s ! c"
  have e: "end_ok ?ch side" using inv 2 by (intro channels_ok_nth) (auto simp: ipc_inv_def)
  have "ipc_inv (with_channel s c (\<lambda>ch. ch\<lparr>endpoints := (endpoints ch)(side := e)\<rparr>)) W"
    if "endpoint_pop (endpoints ?ch side) = Some (e, m)" for e m
    using that e inv 2(2)
    by (intro ipc_inv_endpoint) (auto simp: endpoint_pop_def end_ok_def split: list.splits)
  with 2(1,2) assms show ?thesis
    by (auto simp: sys_recv_def Let_def split: option.splits)
qed

lemma sys_close_ok:
  assumes inv: "ipc_inv s {#}" and ok: "current_ok s"
  shows "\<exists>s' r. sys_close s args = Some (s', r) \<and> ipc_inv s' {#} \<and> current_ok s'"
proof -
  from ok obtain tb where tb: "current_table s = Some (Some tb)" by (auto simp: current_ok_def)
  let ?i = "unat (rsi args)"
  show ?thesis
  proof (cases "\<exists>h. ?i < length tb \<and> tb ! ?i = Some h")
    case False
    then show ?thesis using assms tb by (auto simp: sys_close_def Let_def split: option.splits)
  next
    case True
    then obtain h where i: "?i < length tb" "tb ! ?i = Some h" by auto
    let ?s = "set_current_table s (tb[?i := None])"
    have "add_mset h (live ?s) = live s"
      using live_set_table [OF tb i(1), of None] i(2) by (simp add: opt_ms_def)
    then have "ipc_inv ?s (add_mset h {#})" using inv tb by (intro ipc_inv_set_table [of s]) auto
    then have "ipc_inv (close_handle_ref ?s h) {#}" by (rule ipc_inv_close)
    with tb i ok show ?thesis by (simp add: sys_close_def Let_def)
  qed
qed

lemma sys_dup_ok:
  assumes inv: "ipc_inv s {#}" and ok: "current_ok s"
  shows "\<exists>s' r. sys_dup s args = Some (s', r) \<and> ipc_inv s' {#} \<and> current_ok s'"
proof -
  from current_handle_ref_total [OF ok] obtain r where r: "current_handle_ref s (unat (rsi args)) = Some r"
    by blast
  show ?thesis
  proof (cases r)
    case None
    with r assms show ?thesis by (simp add: sys_dup_def)
  next
    case (Some h)
    have dup: "ipc_inv (dup_handle_ref s h) (add_mset h {#})"
      using inv r Some current_handle_ref_live by (intro ipc_inv_dup) auto
    from ok obtain s' o1 where i: "install_current_handle (dup_handle_ref s h) h = Some (s', o1)" "current_ok s'"
      using install_total [of "dup_handle_ref s h" h] by auto
    from ipc_inv_install [OF dup i(1)] ipc_inv_close [OF dup] r Some i show ?thesis
      by (auto simp: sys_dup_def split: option.splits if_splits)
  qed
qed

lemma sys_bind_ok:
  assumes inv: "ipc_inv s {#}" and ok: "current_ok s"
  shows "\<exists>s' r. sys_bind s mem args = Some (s', r) \<and> ipc_inv s' {#} \<and> current_ok s'"
proof (cases "copy_name_arg mem (rsi args) (unat (rdx args))")
  case None
  with assms show ?thesis by (simp add: sys_bind_def)
next
  case (Some name)
  let ?l = "length (listeners s)"
  let ?s = "s\<lparr>listeners := listeners s @ [\<lparr>l_refs = 1, pending = []\<rparr>]\<rparr>"
  let ?t = "?s\<lparr>named := named ?s @ [(name, ?l)]\<rparr>"
  have new: "ipc_inv ?s (add_mset (Listener ?l) {#})" by (rule ipc_inv_new_listener [OF inv refl])
  show ?thesis
  proof (cases "list_ex (\<lambda>e. fst e = name) (named s)")
    case True
    with Some ipc_inv_close [OF new] ok show ?thesis by (simp add: sys_bind_def Let_def)
  next
    case False
    have old: "snd e < ?l" if "e \<in> set (named s)" for e
      using inv that by (auto simp: ipc_inv_def named_ok_def)
    have "live ?t = live ?s" by (simp add: live_def)
    moreover have "named_ok ?t"
      using new False old by (fastforce simp: ipc_inv_def named_ok_def list_ex_iff)
    ultimately have t: "ipc_inv ?t (add_mset (Listener ?l) {#})"
      using new unfolding ipc_inv_def
      by (simp add: refs_ok_def channels_ok_def listeners_ok_def tables_ok_def)
    from ok obtain s' o1 where i: "install_current_handle ?t (Listener ?l) = Some (s', o1)" "current_ok s'"
      using install_total [of ?t "Listener ?l"] by auto
    have "ipc_inv (unregister_listener_by_name ?t name) (add_mset (Listener ?l) {#})"
      using t named_unregister_by_name [of ?t name] unfolding ipc_inv_def
      by (simp add: refs_ok_def channels_ok_def listeners_ok_def tables_ok_def)
    from ipc_inv_close [OF this] ipc_inv_install [OF t i(1)] Some False i ok show ?thesis
      by (auto simp: sys_bind_def Let_def split: option.splits if_splits)
  qed
qed

lemma install_listeners:
  "install_current_handle s h = Some (s', r) \<Longrightarrow> listeners s' = listeners s \<and> named s' = named s"
  by (auto simp: install_current_handle_def set_current_table_def bind_eq_Some_conv split: option.splits)

lemma sys_connect_ok:
  assumes inv: "ipc_inv s {#}" and ok: "current_ok s"
  shows "\<exists>s' r. sys_connect s mem args = Some (s', r) \<and> ipc_inv s' {#} \<and> current_ok s'"
proof (cases "copy_name_arg mem (rsi args) (unat (rdx args))")
  case None
  with assms show ?thesis by (simp add: sys_connect_def)
next
  case name: (Some name)
  show ?thesis
  proof (cases "List.find (\<lambda>e. fst e = name) (named s)")
    case None
    with name assms show ?thesis by (simp add: sys_connect_def)
  next
    case (Some e)
    then obtain nm l where e: "e = (nm, l)" "(nm, l) \<in> set (named s)"
      by (cases e) (auto simp: find_Some_iff dest: nth_mem)
    then have l: "l < length (listeners s)" "0 < l_refs (listeners s ! l)"
      using inv by (auto simp: ipc_inv_def named_ok_def)
    let ?c = "length (channels s)"
    let ?s = "s\<lparr>channels := channels s @ [\<lparr>refs = (\<lambda>_. 1), endpoints = (\<lambda>_. endpoint_new)\<rparr>]\<rparr>"
    have new: "ipc_inv ?s (add_mset (Channel ?c False) (add_mset (Channel ?c True) {#}))"
      by (rule ipc_inv_new_pair [OF inv refl])
    from ok obtain s' o1 where
      i: "install_current_handle ?s (Channel ?c False) = Some (s', o1)" "current_ok s'"
      using install_total [of ?s "Channel ?c False"] by auto
    note same = install_listeners [OF i(1)]
    have eq: "sys_connect s mem args = Some (case o1 of
        Some slot \<Rightarrow> (with_listener s' l (\<lambda>li. li\<lparr>pending := pending li @ [Channel ?c True]\<rparr>), int slot)
      | None \<Rightarrow> (close_handle_ref (close_handle_ref s' (Channel ?c False)) (Channel ?c True), IPC_EMFILE))"
      using name Some e(1) i(1) new_pair_state [of s]
      by (cases o1) (simp_all add: sys_connect_def new_channel_def split_beta Let_def)
    show ?thesis
    proof (cases o1)
      case None
      with ipc_inv_install [OF new i(1)] close_pair [OF new] ok show ?thesis by (simp add: eq)
    next
      case (Some slot)
      have "ipc_inv s' (add_mset (Channel ?c True) {#})" using ipc_inv_install [OF new i(1)] Some by simp
      then have "ipc_inv (with_listener s' l (\<lambda>li. li\<lparr>pending := pending (listeners s' ! l) @ [Channel ?c True]\<rparr>)) {#}"
        using l same by (intro ipc_inv_pending) auto
      moreover have "with_listener s' l (\<lambda>li. li\<lparr>pending := pending (listeners s' ! l) @ [Channel ?c True]\<rparr>) =
          with_listener s' l (\<lambda>li. li\<lparr>pending := pending li @ [Channel ?c True]\<rparr>)"
        by (simp add: with_listener_def)
      ultimately show ?thesis using i(2) Some by (simp add: eq)
    qed
  qed
qed

lemma sys_accept_ok:
  assumes inv: "ipc_inv s {#}" and ok: "current_ok s"
  shows "\<exists>s' r. sys_accept s args = Some (s', r) \<and> ipc_inv s' {#} \<and> current_ok s'"
proof -
  from current_handle_ref_total [OF ok] obtain r where r: "current_handle_ref s (unat (rsi args)) = Some r"
    by blast
  show ?thesis
  proof (cases "\<exists>l. r = Some (Listener l)")
    case False
    with r assms show ?thesis
      by (auto simp: sys_accept_def current_listener_def split: option.splits handle.splits)
  next
    case True
    then obtain l where rl: "r = Some (Listener l)" by auto
    then have "Listener l \<in># live s" using current_handle_ref_live r by simp
    with live_pos [OF inv, of "Listener l"] have l: "l < length (listeners s)" "0 < l_refs (listeners s ! l)"
      by auto
    have cl: "current_listener s (unat (rsi args)) = Some (Some l)" by (simp add: current_listener_def r rl)
    show ?thesis
    proof (cases "pending (listeners s ! l)")
      case Nil
      with cl l assms show ?thesis by (simp add: sys_accept_def)
    next
      case (Cons h hs)
      let ?s = "with_listener s l (\<lambda>li. li\<lparr>pending := hs\<rparr>)"
      have p: "ipc_inv ?s (add_mset h {#})" using inv l Cons by (intro ipc_inv_pending) auto
      from ok obtain s' o1 where i: "install_current_handle ?s h = Some (s', o1)" "current_ok s'"
        using install_total [of ?s h] by auto
      have "ipc_inv (with_listener ?s l (\<lambda>li. li\<lparr>pending := h # hs\<rparr>)) {#}"
        using l by (intro ipc_inv_pending [OF p]) (auto simp: nth_with_listener)
      moreover have "with_listener ?s l (\<lambda>li. li\<lparr>pending := h # hs\<rparr>) =
          with_listener ?s l (\<lambda>li. li\<lparr>pending := h # pending li\<rparr>)"
        using l by (simp add: with_listener_def)
      ultimately show ?thesis
        using ipc_inv_install [OF p i(1)] i cl l Cons ok
        by (auto simp: sys_accept_def split: option.splits if_splits)
    qed
  qed
qed

lemmas sys_ok = sys_create_ok sys_send_ok sys_recv_ok sys_close_ok sys_dup_ok sys_bind_ok
  sys_connect_ok sys_accept_ok

lemma ipc_syscall_ok:
  assumes "ipc_inv s {#}" and "current_ok s"
  shows "\<exists>s' mem' args'. ipc_syscall s mem args = Some (s', mem', args') \<and> ipc_inv s' {#} \<and> current_ok s'"
proof -
  note use = sys_ok [OF assms]
  show ?thesis
    using use(1) [of args] use(2) [of mem args] use(3) [of mem args] use(4) [of args] use(5) [of args]
      use(6) [of mem args] use(7) [of mem args] use(8) [of args] assms
    unfolding ipc_syscall_def Let_def by (elim exE conjE) simp
qed

subsection \<open>Fork and exit\<close>

lemma ipc_inv_clone:
  assumes "ipc_inv s W" and "table_ms tb \<subseteq># live s + W"
  shows "ipc_inv (fst (clone_handle_table s tb)) (table_ms tb + W)"
proof -
  have "ipc_inv (foldl (\<lambda>s e. case e of None \<Rightarrow> s | Some h \<Rightarrow> dup_handle_ref s h) s xs) (table_ms xs + W)"
    if "ipc_inv s W" "set_mset (table_ms xs) \<subseteq> set_mset (live s + W)" for xs s W
    using that
  proof (induction xs arbitrary: s W)
    case Nil
    then show ?case by (simp add: table_ms_def)
  next
    case (Cons e xs)
    show ?case
    proof (cases e)
      case None
      with Cons show ?thesis by (simp add: table_ms_def opt_ms_def)
    next
      case (Some h)
      have "h \<in># live s + W" using Cons.prems(2) Some by (simp add: table_ms_def opt_ms_def)
      with Cons.prems(1) have d: "ipc_inv (dup_handle_ref s h) (add_mset h W)" by (rule ipc_inv_dup)
      have "live (dup_handle_ref s h) = live s"
      proof (cases h)
        case (Channel c sd)
        then show ?thesis by (simp add: dup_handle_ref_def)
      next
        case (Listener l)
        then have "l < length (listeners s)"
          using live_pos(1) [OF Cons.prems(1) \<open>h \<in># live s + W\<close>] by simp
        then show ?thesis by (simp add: dup_handle_ref_def Listener live_with_listener_same)
      qed
      with Cons.IH [OF d] Cons.prems(2) Some show ?thesis by (auto simp: table_ms_def opt_ms_def)
    qed
  qed
  from this [OF assms(1) set_mset_mono [OF assms(2)]] show ?thesis by (simp add: clone_handle_table_def)
qed

lemma ipc_inv_release:
  "ipc_inv s (table_ms tb + W) \<Longrightarrow> ipc_inv (fst (release_handle_table s tb)) W"
proof -
  have "ipc_inv (foldl (\<lambda>s e. case e of None \<Rightarrow> s | Some h \<Rightarrow> close_handle_ref s h) s xs) W"
    if "ipc_inv s (table_ms xs + W)" for xs s W
    using that
  proof (induction xs arbitrary: s)
    case Nil
    then show ?case by (simp add: table_ms_def)
  next
    case (Cons e xs)
    then show ?case
      by (cases e) (auto simp: table_ms_def opt_ms_def ipc_inv_close)
  qed
  then show "ipc_inv s (table_ms tb + W) \<Longrightarrow> ipc_inv (fst (release_handle_table s tb)) W"
    by (simp add: release_handle_table_def)
qed

text \<open>
  The ways the state of the component changes: a system call of the current task, a switch to another
  task, a fork, which appends a task with a clone of the current table, and an exit, which releases
  the table of the current task.
\<close>

inductive ipc_step :: "ipc_state \<Rightarrow> ipc_state \<Rightarrow> bool" where
  call: "\<lbrakk>current_ok s; ipc_syscall s mem args = Some (s', mem', args')\<rbrakk> \<Longrightarrow> ipc_step s s'"
| switch: "ipc_step s (s\<lparr>current := t\<rparr>)"
| fork: "\<lbrakk>current_table s = Some (Some tb); clone_handle_table s tb = (s1, tb')\<rbrakk> \<Longrightarrow>
    ipc_step s (s1\<lparr>tables := tables s1 @ [Some tb']\<rparr>)"
| exit: "\<lbrakk>current_table s = Some (Some tb);
    release_handle_table (s\<lparr>tables := (tables s)[current s := None]\<rparr>) tb = (s1, tb')\<rbrakk> \<Longrightarrow> ipc_step s s1"

definition ipc_boot :: ipc_state where
  "ipc_boot = \<lparr>channels = [], listeners = [], named = [],
     tables = [Some (replicate IPC_MAX_HANDLES None)], current = 0\<rparr>"

lemma ipc_inv_boot: "ipc_inv ipc_boot {#}"
proof -
  have "table_ms (replicate n None) = {#}" for n
    by (induction n) (simp_all add: table_ms_def opt_ms_def)
  then show ?thesis
    by (simp add: ipc_inv_def ipc_boot_def live_def task_ms_def refs_ok_def channels_ok_def
        listeners_ok_def named_ok_def tables_ok_def)
qed

lemma table_in_live: "current_table s = Some (Some tb) \<Longrightarrow> table_ms tb \<subseteq># live s"
proof -
  assume "current_table s = Some (Some tb)"
  then have "Some tb \<in> set (tables s)"
    by (auto simp: current_table_def nth_opt_eq_Some in_set_conv_nth)
  then obtain xs ys where "tables s = xs @ Some tb # ys" by (meson split_list)
  then have "live s = table_ms tb + (sum_list (map task_ms xs) + sum_list (map task_ms ys) +
      sum_list (map (\<lambda>li. mset (pending li)) (listeners s)))"
    by (simp add: live_def task_ms_def ac_simps)
  then show "table_ms tb \<subseteq># live s" by simp
qed

lemma clone_other:
  "tables (fst (clone_handle_table s tb)) = tables s"
  "snd (clone_handle_table s tb) = tb"
proof -
  have "tables (foldl (\<lambda>s e. case e of None \<Rightarrow> s | Some h \<Rightarrow> dup_handle_ref s h) s xs) = tables s" for xs
    by (induction xs arbitrary: s) (auto split: option.splits)
  then show "tables (fst (clone_handle_table s tb)) = tables s" by (simp add: clone_handle_table_def)
  show "snd (clone_handle_table s tb) = tb" by (simp add: clone_handle_table_def)
qed

lemma ipc_inv_tables:
  assumes "ipc_inv s W" and "live (s\<lparr>tables := ts\<rparr>) + W' = live s + W"
    and "\<And>tb. Some tb \<in> set ts \<Longrightarrow> length tb = IPC_MAX_HANDLES"
  shows "ipc_inv (s\<lparr>tables := ts\<rparr>) W'"
proof -
  have "valid_handle (s\<lparr>tables := ts\<rparr>) h = valid_handle s h" for h by (cases h) auto
  with assms show ?thesis unfolding ipc_inv_def assms(2)
    by (simp add: refs_ok_def channels_ok_def listeners_ok_def named_ok_def tables_ok_def)
qed

lemma ipc_inv_step: "ipc_step s s' \<Longrightarrow> ipc_inv s {#} \<Longrightarrow> ipc_inv s' {#}"
proof (induction rule: ipc_step.induct)
  case (call s mem args s' mem' args')
  then show ?case using ipc_syscall_ok [of s mem args] by auto
next
  case (switch s t)
  have "valid_handle (s\<lparr>current := t\<rparr>) h = valid_handle s h" for h by (cases h) auto
  with switch show ?case
    by (simp add: ipc_inv_def live_def refs_ok_def channels_ok_def listeners_ok_def named_ok_def tables_ok_def)
next
  case (fork s tb s1 tb')
  have "ipc_inv s1 (table_ms tb + {#})"
    using ipc_inv_clone [of s "{#}" tb] table_in_live [OF fork(1)] fork(2,3) by simp
  moreover have "tb' = tb" "tables s1 = tables s" using clone_other [of s tb] fork(2) by auto
  moreover have "Some tb \<in> set (tables s)"
    using fork(1) by (auto simp: current_table_def nth_opt_eq_Some in_set_conv_nth)
  ultimately show ?case using fork(3)
    by (intro ipc_inv_tables [of s1 "table_ms tb + {#}"])
      (auto simp: live_def task_ms_def ipc_inv_def tables_ok_def ac_simps)
next
  case (exit s tb s1 tb')
  let ?s = "s\<lparr>tables := (tables s)[current s := None]\<rparr>"
  have cur: "current s < length (tables s)" "tables s ! current s = Some tb"
    using exit(1) by (auto simp: current_table_def nth_opt_eq_Some)
  have "live ?s + table_ms tb = live s"
    using sum_list_update_ms [OF cur(1), of task_ms None] cur(2)
    by (simp add: live_def task_ms_def ac_simps)
  then have "ipc_inv ?s (table_ms tb + {#})"
    using exit(3) by (intro ipc_inv_tables) (auto simp: ipc_inv_def tables_ok_def
        dest!: set_update_subset_insert [THEN subsetD])
  from ipc_inv_release [OF this] exit(2) show ?case by simp
qed

lemma ipc_inv_reachable: "ipc_step\<^sup>*\<^sup>* ipc_boot s \<Longrightarrow> ipc_inv s {#}"
  by (induction rule: rtranclp_induct) (auto intro: ipc_inv_boot ipc_inv_step)

section \<open>Properties\<close>

text \<open>
  Property C1 (reference counts). In every state reached by system calls, task switches, forks
  and exits, the counter of each side of each channel and of each listener is the number of handles
  for it in the tables of the tasks and in the queues of the listeners; a side is closed, and its
  queue empty, exactly when no handle for it is left; and no queue holds more than 4096 messages or a
  message of more than 4096 bytes.
\<close>

theorem ipc_refcounts_exact:
  assumes "ipc_step\<^sup>*\<^sup>* ipc_boot s"
  shows "(\<forall>c<length (channels s). \<forall>side.
      refs (channels s ! c) side = count (live s) (Channel c side) \<and>
      (closed (endpoints (channels s ! c) side) \<longleftrightarrow> Channel c side \<notin># live s) \<and>
      (Channel c side \<notin># live s \<longrightarrow> queue (endpoints (channels s ! c) side) = []) \<and>
      length (queue (endpoints (channels s ! c) side)) \<le> IPC_QUEUE_DEPTH \<and>
      (\<forall>m\<in>set (queue (endpoints (channels s ! c) side)). length m \<le> IPC_MAX_MSG_SIZE)) \<and>
    (\<forall>l<length (listeners s). l_refs (listeners s ! l) = count (live s) (Listener l)) \<and>
    (\<forall>h\<in>#live s. valid_handle s h)"
proof -
  have inv: "ipc_inv s {#}" by (rule ipc_inv_reachable [OF assms])
  have "end_ok (channels s ! c) side" if "c < length (channels s)" for c side
    using inv that by (intro channels_ok_nth) (auto simp: ipc_inv_def)
  then show ?thesis
    using inv by (auto simp: ipc_inv_def refs_ok_def end_ok_def not_in_iff)
qed

lemma boot_current_ok: "current_ok ipc_boot"
  by (simp add: current_ok_def current_table_def ipc_boot_def)

theorem ipc_refcounts_exact_witness:
  "\<exists>s mem args. ipc_syscall ipc_boot (\<lambda>_. 0) \<lparr>rax = 0, rdi = 0, rsi = 0, rdx = 0, rcx = 0\<rparr> =
       Some (s, mem, args) \<and>
     (\<forall>c<length (channels s). \<forall>side. refs (channels s ! c) side = count (live s) (Channel c side))"
proof -
  from ipc_syscall_ok [OF ipc_inv_boot boot_current_ok] obtain s mem args where
    s: "ipc_syscall ipc_boot (\<lambda>_. 0) \<lparr>rax = 0, rdi = 0, rsi = 0, rdx = 0, rcx = 0\<rparr> = Some (s, mem, args)"
    by metis
  then have "ipc_step\<^sup>*\<^sup>* ipc_boot s" by (intro r_into_rtranclp ipc_step.call [OF boot_current_ok])
  from ipc_refcounts_exact [OF this] s show ?thesis by blast
qed



section \<open>Messages\<close>

interpretation ep: fifo_queue "\<lambda>e. length (queue e) \<le> IPC_QUEUE_DEPTH" queue "\<lambda>_. IPC_QUEUE_DEPTH"
  "\<lambda>_. True" id endpoint_push endpoint_pop
  by unfold_locales (auto simp: endpoint_push_def endpoint_pop_def)

text \<open>
  An end of a channel that is empty takes up to 4096 messages, of any
  content, and gives them back unchanged and in order.
\<close>

lemma endpoint_messages_in_order:
  assumes "queue e = []" and "length ms \<le> IPC_QUEUE_DEPTH"
  shows "\<exists>e1 e2. put_all endpoint_push e ms = Some e1 \<and>
    get_all endpoint_pop (length ms) e1 = Some (e2, ms) \<and> queue e2 = []"
  using ep.put_all_get_all [of e ms] assms by (auto simp: list.map_id)

lemma endpoint_messages_in_order_example:
  "\<exists>e1 e2. put_all endpoint_push endpoint_new [[1], [2, 3]] = Some e1 \<and>
     get_all endpoint_pop 2 e1 = Some (e2, [[1], [2, 3]]) \<and> queue e2 = []"
proof -
  have "queue endpoint_new = []" and "length [[1], [2, 3 :: u8]] \<le> IPC_QUEUE_DEPTH"
    by (simp_all add: endpoint_new_def ipc_consts)
  from endpoint_messages_in_order [OF this] show ?thesis by (simp add: numeral_2_eq_2)
qed

lemma user_store_nth:
  fixes p :: u64
  assumes "n \<le> length bs" and "length bs \<le> 2 ^ 64"
  shows "foldl (\<lambda>m i. m(p + of_nat i := bs ! i)) mem [0..<n] a =
    (if \<exists>i<n. a = p + of_nat i then bs ! (unat (a - p)) else mem a)"
  using assms
proof (induction n)
  case 0
  then show ?case by simp
next
  case (Suc n)
  have n: "unat (of_nat n :: u64) = n" using Suc.prems by (simp add: unat_of_nat take_bit_nat_eq_self)
  show ?case using Suc n by (auto simp: less_Suc_eq)
qed

lemma user_bytes_store:
  assumes "length bs \<le> 2 ^ 64"
  shows "user_bytes (user_store mem p bs) p (length bs) = bs"
proof (rule nth_equalityI)
  fix i assume "i < length (user_bytes (user_store mem p bs) p (length bs))"
  then have i: "i < length bs" by simp
  then have "unat (of_nat i :: u64) = i" using assms by (simp add: unat_of_nat take_bit_nat_eq_self)
  with i show "user_bytes (user_store mem p bs) p (length bs) ! i = bs ! i"
    using user_store_nth [of "length bs" bs p mem "p + of_nat i"] assms
    by (auto simp: user_bytes_def user_store_def)
qed simp

lemma current_handle_with_channel [simp]:
  "current_handle (with_channel s c f) i = current_handle s i"
  by (simp add: current_handle_def current_handle_ref_def current_table_def)


text \<open>The state after the first task has created a channel: it holds both ends in slots 0 and 1.\<close>

definition created :: ipc_state where
  "created = ipc_boot\<lparr>channels := [\<lparr>refs = (\<lambda>_. 1), endpoints = (\<lambda>_. endpoint_new)\<rparr>],
     tables := [Some (Some (Channel 0 False) # Some (Channel 0 True) # replicate 62 None)]\<rparr>"

definition no_args :: ipc_args where
  "no_args = \<lparr>rax = 0, rdi = 0, rsi = 0, rdx = 0, rcx = 0\<rparr>"

lemma boot_create: "sys_create ipc_boot no_args = Some (created, no_args\<lparr>rdx := 1\<rparr>, 0)"
proof -
  let ?s = "ipc_boot\<lparr>channels := [\<lparr>refs = (\<lambda>_. 1), endpoints = (\<lambda>_. endpoint_new)\<rparr>]\<rparr>"
  let ?tb = "None # None # replicate 62 None :: handle_table"
  have "replicate 64 None = ?tb" by (simp add: numeral_eq_Suc)
  then have tb: "current_table ?s = Some (Some ?tb)"
    by (simp add: current_table_def ipc_boot_def ipc_consts)
  have "[0..<length ?tb] = 0 # 1 # [2..<64]" by (simp add: upt_rec)
  then have free: "filter (\<lambda>i. ?tb ! i = None) [0..<length ?tb] = 0 # 1 # filter (\<lambda>i. ?tb ! i = None) [2..<64]"
    by simp
  have "install_current_pair ?s (Channel 0 False) (Channel 0 True) = Some (created, Some (0, 1))"
    unfolding install_current_pair_def tb by (simp only: bind.bind_lunit free list.case)
      (simp add: set_current_table_def created_def ipc_boot_def)
  moreover have "dup_handle_ref (dup_handle_ref (fst (new_channel ipc_boot)) (Channel 0 False)) (Channel 0 True) = ?s"
    using new_pair_state [of ipc_boot] by (simp add: ipc_boot_def)
  ultimately show ?thesis
    by (simp add: sys_create_def new_channel_def split_beta ipc_boot_def Let_def)
qed

lemma created_reachable: "ipc_step\<^sup>*\<^sup>* ipc_boot created"
proof -
  have "ipc_syscall ipc_boot mem no_args = Some (created, mem, no_args\<lparr>rdx := 1, rax := 0\<rparr>)" for mem
    using boot_create by (simp add: ipc_syscall_def no_args_def Let_def)
  then show ?thesis by (intro r_into_rtranclp ipc_step.call [OF boot_current_ok])
qed

lemma created_current: "current_ok created"
  by (simp add: current_ok_def current_table_def created_def ipc_boot_def)


text \<open>
  Property C35 (broken channels). In every reachable state a send through a handle the caller
  holds fails with EPIPE exactly when no handle of the other end is left anywhere, neither in a table
  nor waiting to be accepted, and a receive that finds no message reports the end of the stream exactly
  in that case too; otherwise it asks to try again.
\<close>

theorem ipc_epipe_iff_peer_gone:
  assumes "ipc_step\<^sup>*\<^sup>* ipc_boot s" and "current_ok s"
    and "current_handle s (unat (rsi args)) = Some (Some (c, side))"
    and "unat (rcx args) \<le> IPC_MAX_MSG_SIZE"
  shows "((\<exists>s'. sys_send s mem args = Some (s', IPC_EPIPE)) \<longleftrightarrow> Channel c (\<not> side) \<notin># live s) \<and>
    (queue (endpoints (channels s ! c) side) = [] \<longrightarrow>
       sys_recv s mem args = Some (s, mem, if Channel c (\<not> side) \<notin># live s then IPC_OK else IPC_EAGAIN))"
proof -
  have inv: "ipc_inv s {#}" by (rule ipc_inv_reachable [OF assms(1)])
  have c: "c < length (channels s)" and pos: "0 < refs (channels s ! c) side"
    using current_handle_open [OF inv assms(2,3)] by auto
  have "end_ok (channels s ! c) sd" for sd using inv c by (intro channels_ok_nth) (auto simp: ipc_inv_def)
  moreover have "refs (channels s ! c) (\<not> side) = count (live s) (Channel c (\<not> side))"
    using inv c by (simp add: ipc_inv_def refs_ok_def)
  ultimately have "\<not> closed (endpoints (channels s ! c) side)"
    and gone: "closed (endpoints (channels s ! c) (\<not> side)) \<longleftrightarrow> Channel c (\<not> side) \<notin># live s"
    using pos by (auto simp: end_ok_def not_in_iff)
  moreover have "int n \<noteq> IPC_EPIPE" for n by (simp add: IPC_EPIPE_def)
  moreover have "uint (rcx args) \<noteq> IPC_EPIPE"
  proof -
    have "0 \<le> uint (rcx args)" by (rule unsigned_greater_eq)
    then show ?thesis unfolding IPC_EPIPE_def by linarith
  qed
  moreover have "IPC_EAGAIN \<noteq> IPC_EPIPE" "\<not> IPC_MAX_MSG_SIZE < unat (rcx args)"
    using assms(4) by (simp_all add: IPC_EPIPE_def IPC_EAGAIN_def)
  ultimately show ?thesis
    using assms(3) c
    by (auto simp: sys_send_def sys_recv_def endpoint_pop_def endpoint_push_def Let_def
        split: if_splits)
qed

theorem ipc_epipe_iff_peer_gone_witness:
  "sys_recv created (\<lambda>_. 0) no_args = Some (created, (\<lambda>_. 0),
     if Channel 0 (\<not> False) \<notin># live created then IPC_OK else IPC_EAGAIN) \<and>
   (\<nexists>s'. sys_send created (\<lambda>_. 0) no_args = Some (s', IPC_EPIPE))"
proof -
  have h: "current_handle created (unat (rsi no_args)) = Some (Some (0, False))"
    by (simp add: no_args_def current_handle_def current_handle_ref_def current_table_def created_def ipc_boot_def)
  have n: "unat (rcx no_args) \<le> IPC_MAX_MSG_SIZE" by (simp add: no_args_def)
  have "queue (endpoints (channels created ! 0) False) = []" by (simp add: created_def endpoint_new_def)
  moreover have "Channel 0 (\<not> False) \<in># live created"
    by (simp add: live_def created_def ipc_boot_def task_ms_def table_ms_def opt_ms_def)
  ultimately show ?thesis
    using ipc_epipe_iff_peer_gone [OF created_reachable created_current h n, of "\<lambda>_. 0"] by blast
qed

end
