(* ===== verification/Sched.thy ===== *)
theory Sched
  imports Prelude
begin

text \<open>
  The task table and the scheduler, \<^verbatim>\<open>kernel/src/task/process.rs\<close> (its data) and
  \<^verbatim>\<open>kernel/src/task/sched.rs\<close>. The processor is the part of the state the scheduler
  saves and restores: the page table register, the base of the FS segment and the floating point state.
  An open file or directory is the number of the shared object behind it, a page table the physical
  address of its top level. \<^term>\<open>None\<close> is a panic.
\<close>

section \<open>Tasks\<close>

record process_context =
  rax :: u64
  rbx :: u64
  rcx :: u64
  rdx :: u64
  rsi :: u64
  rbp :: u64
  rdi :: u64
  r8 :: u64
  r9 :: u64
  r10 :: u64
  r11 :: u64
  r12 :: u64
  r13 :: u64
  r14 :: u64
  r15 :: u64
  rip :: u64
  cs :: u64
  rflags :: u64
  rsp :: u64
  ss :: u64

definition context_default :: process_context where
  "context_default =
     \<lparr>rax = 0, rbx = 0, rcx = 0, rdx = 0, rsi = 0, rbp = 0, rdi = 0, r8 = 0, r9 = 0, r10 = 0,
      r11 = 0, r12 = 0, r13 = 0, r14 = 0, r15 = 0, rip = 0, cs = 0, rflags = 0, rsp = 0, ss = 0\<rparr>"

datatype WaitReason = WaitPid nat

datatype ProcessState = Runnable | Blocked WaitReason

record process =
  page_table :: nat
  proc_context :: process_context
  fpu_state :: "128 word list"
  tm :: nat
  fs :: u64
  brk :: u64
  exe_path :: "bytes option"
  proc_state :: ProcessState
  files :: "nat option list"
  directories :: "nat option list"

definition FPU_INIT :: "128 word list" where
  "FPU_INIT = [0x037f, 0x1f800000000000000000] @ replicate 30 0"

record sched_state =
  tasks :: "process option list"
  CURRENT_TASK_ID :: nat
  TOTAL_TICKS :: nat
  cr3 :: nat
  fs_base :: u64
  fpu_regs :: "128 word list"

definition IDLE_TASK_ID :: nat where
  "IDLE_TASK_ID = 0"

section \<open>The scheduler\<close>

definition task_gone :: "process option list \<Rightarrow> nat \<Rightarrow> bool" where
  "task_gone ts pid = (case nth_opt ts pid of None \<Rightarrow> True | Some t \<Rightarrow> t = None)"

definition should_wake :: "process option list \<Rightarrow> process \<Rightarrow> bool" where
  "should_wake ts p =
     (case proc_state p of Blocked (WaitPid pid) \<Rightarrow> task_gone ts pid | Runnable \<Rightarrow> False)"

definition wake :: "process option list \<Rightarrow> process \<Rightarrow> process" where
  "wake ts p = (if should_wake ts p then p\<lparr>proc_state := Runnable\<rparr> else p)"

text \<open>
  The first loop of \<^verbatim>\<open>schedule\<close>: it wakes the tasks whose child is gone and looks for the
  runnable task, other than the current one, with the most ticks left.
\<close>

fun scan_tasks ::
  "nat \<Rightarrow> nat list \<Rightarrow> process option list \<Rightarrow> nat \<Rightarrow> nat option \<Rightarrow> process option list \<times> nat option" where
  "scan_tasks current [] ts max_tm max_tid = (ts, max_tid)"
| "scan_tasks current (tid # tids) ts max_tm max_tid =
     (case ts ! tid of
        None \<Rightarrow> scan_tasks current tids ts max_tm max_tid
      | Some p \<Rightarrow>
          let p = wake ts p; ts = ts[tid := Some p] in
          if tid \<noteq> current \<and> tm p > max_tm \<and> proc_state p = Runnable
          then scan_tasks current tids ts (tm p) (Some tid)
          else scan_tasks current tids ts max_tm max_tid)"

definition refill :: "process option list \<Rightarrow> process option list" where
  "refill ts = map (map_option (tm_update (\<lambda>_. 10))) ts"

definition runnable_at :: "process option list \<Rightarrow> nat \<Rightarrow> bool" where
  "runnable_at ts tid =
     (case nth_opt ts tid of Some (Some p) \<Rightarrow> proc_state p = Runnable | _ \<Rightarrow> False)"

definition first_runnable :: "nat \<Rightarrow> process option list \<Rightarrow> nat option" where
  "first_runnable current ts = List.find (\<lambda>tid. runnable_at ts tid \<and> tid \<noteq> current) [0..<length ts]"

text \<open>The choice of \<^verbatim>\<open>schedule\<close>, with its \<^verbatim>\<open>debug_assert\<close> on the idle task.\<close>

definition select_task :: "nat \<Rightarrow> process option list \<Rightarrow> (process option list \<times> nat) option" where
  "select_task current ts0 =
     (case scan_tasks current [0..<length ts0] ts0 0 None of
        (ts, Some tid) \<Rightarrow> Some (ts, tid)
      | (ts, None) \<Rightarrow>
          let ts = refill ts in
          (case first_runnable current ts of
             Some tid \<Rightarrow> Some (ts, tid)
           | None \<Rightarrow> if runnable_at ts IDLE_TASK_ID then Some (ts, IDLE_TASK_ID) else None))"

definition switch_to ::
  "sched_state \<Rightarrow> process_context \<Rightarrow> nat \<Rightarrow> bool \<Rightarrow> (sched_state \<times> process_context) option" where
  "switch_to s ctx next current_process_exited =
     (let current = CURRENT_TASK_ID s in
      do { nxt \<leftarrow> nth_opt (tasks s) next; nxt \<leftarrow> nxt;
           let new_cr3 = page_table nxt;
           if new_cr3 mod 4096 \<noteq> 0 then None
           else
             let s = s\<lparr>cr3 := new_cr3\<rparr> in
             do { s \<leftarrow> (if current_process_exited then Some s
                       else do { cur \<leftarrow> nth_opt (tasks s) current; cur \<leftarrow> cur;
                                 let cur = cur\<lparr>proc_context := ctx, fs := fs_base s, fpu_state := fpu_regs s\<rparr>;
                                 Some (s\<lparr>tasks := (tasks s)[current := Some cur]\<rparr>) });
                  nxt \<leftarrow> nth_opt (tasks s) next; nxt \<leftarrow> nxt;
                  Some (s\<lparr>fs_base := fs nxt, fpu_regs := fpu_state nxt, CURRENT_TASK_ID := next\<rparr>,
                        proc_context nxt) } })"

definition schedule ::
  "sched_state \<Rightarrow> process_context \<Rightarrow> bool \<Rightarrow> (sched_state \<times> process_context) option" where
  "schedule s ctx current_process_exited =
     do { (ts, tid) \<leftarrow> select_task (CURRENT_TASK_ID s) (tasks s);
          p \<leftarrow> nth_opt ts tid; p \<leftarrow> p;
          t \<leftarrow> checked_sub (tm p) 1;
          switch_to (s\<lparr>tasks := ts[tid := Some (p\<lparr>tm := t\<rparr>)]\<rparr>) ctx tid current_process_exited }"

definition block_current ::
  "sched_state \<Rightarrow> process_context \<Rightarrow> WaitReason \<Rightarrow> (sched_state \<times> process_context) option" where
  "block_current s ctx reason =
     do { t \<leftarrow> nth_opt (tasks s) (CURRENT_TASK_ID s);
          let ts = (case t of None \<Rightarrow> tasks s
                    | Some p \<Rightarrow> (tasks s)[CURRENT_TASK_ID s := Some (p\<lparr>proc_state := Blocked reason\<rparr>)]);
          schedule (s\<lparr>tasks := ts\<rparr>) ctx False }"

definition timer :: "sched_state \<Rightarrow> process_context \<Rightarrow> (sched_state \<times> process_context) option" where
  "timer s ctx =
     do { (s, ctx) \<leftarrow> schedule s ctx False;
          Some (s\<lparr>TOTAL_TICKS := (TOTAL_TICKS s + 1) mod USIZE_LIMIT\<rparr>, ctx) }"

section \<open>What a choice is\<close>

definition wake_all :: "process option list \<Rightarrow> process option list" where
  "wake_all ts = map (map_option (wake ts)) ts"

definition candidate :: "nat \<Rightarrow> process option list \<Rightarrow> nat \<Rightarrow> bool" where
  "candidate current ts tid = (tid \<noteq> current \<and> runnable_at ts tid)"

definition ticks_left :: "process option list \<Rightarrow> nat \<Rightarrow> nat" where
  "ticks_left ts tid = (case nth_opt ts tid of Some (Some p) \<Rightarrow> tm p | _ \<Rightarrow> 0)"

lemma task_gone_cong: "map Option.is_none ts = map Option.is_none ts' \<Longrightarrow> task_gone ts pid = task_gone ts' pid"
proof -
  assume *: "map Option.is_none ts = map Option.is_none ts'"
  then have len: "length ts = length ts'" by (metis length_map)
  have "Option.is_none (ts ! pid) = Option.is_none (ts' ! pid)" if "pid < length ts"
    using arg_cong [OF *, of "\<lambda>xs. xs ! pid"] that len by simp
  then show ?thesis using len
    by (cases "pid < length ts") (auto simp: task_gone_def Option.is_none_def split: option.splits)
qed

lemma wake_cong: "map Option.is_none ts = map Option.is_none ts' \<Longrightarrow> wake ts = wake ts'"
proof
  fix p
  assume "map Option.is_none ts = map Option.is_none ts'"
  then have "task_gone ts pid = task_gone ts' pid" for pid by (rule task_gone_cong)
  then have "should_wake ts p = should_wake ts' p"
    by (simp add: should_wake_def split: ProcessState.split WaitReason.split)
  then show "wake ts p = wake ts' p" by (simp add: wake_def)
qed

lemma wake_simps [simp]:
  "tm (wake ts p) = tm p" "page_table (wake ts p) = page_table p" "proc_context (wake ts p) = proc_context p"
  "fs (wake ts p) = fs p" "fpu_state (wake ts p) = fpu_state p" "proc_state p = Runnable \<Longrightarrow> wake ts p = p"
  by (simp_all add: wake_def should_wake_def)

text \<open>\<open>best_task\<close> is the choice of the first loop on a list that is already woken.\<close>

fun best_task :: "nat \<Rightarrow> process option list \<Rightarrow> nat list \<Rightarrow> nat \<Rightarrow> nat option \<Rightarrow> nat option" where
  "best_task c ts [] mt r = r"
| "best_task c ts (tid # tids) mt r =
     (if candidate c ts tid \<and> ticks_left ts tid > mt
      then best_task c ts tids (ticks_left ts tid) (Some tid) else best_task c ts tids mt r)"

lemma scan_tasks_best:
  "i \<le> length ts \<Longrightarrow>
   scan_tasks c [i..<length ts] (take i (wake_all ts) @ drop i ts) mt r =
     (wake_all ts, best_task c (wake_all ts) [i..<length ts] mt r)"
proof (induction "length ts - i" arbitrary: i mt r)
  case 0
  then show ?case by (simp add: wake_all_def)
next
  case (Suc n)
  then have i: "i < length ts" by simp
  let ?W = "wake_all ts" and ?L = "take i (wake_all ts) @ drop i ts"
  have W: "?W ! i = map_option (wake ts) (ts ! i)" using i by (simp add: wake_all_def)
  have len: "length ?W = length ts" by (simp add: wake_all_def)
  have L: "?L ! i = ts ! i" using i len by (simp add: nth_append)
  have "map Option.is_none ?L = map Option.is_none ts"
    by (rule nth_equalityI) (use i in \<open>auto simp: wake_all_def nth_append Option.is_none_def\<close>)
  then have wk: "wake ?L = wake ts" by (rule wake_cong)
  have step: "?L[i := ?W ! i] = take (Suc i) ?W @ drop (Suc i) ts"
    using i len by (simp add: take_Suc_conv_app_nth Cons_nth_drop_Suc [symmetric] list_update_append)
  have up: "[i..<length ts] = i # [Suc i..<length ts]" using i by (rule upt_conv_Cons)
  note IH = Suc.hyps(1) [of "Suc i"]
  show ?case
  proof (cases "ts ! i")
    case None
    then have "?L = take (Suc i) ?W @ drop (Suc i) ts"
      using step W L i len by (metis list_update_id option.map(1))
    then show ?thesis using IH Suc.hyps(2) i None W L
      unfolding up by (simp add: candidate_def runnable_at_def len)
  next
    case (Some p)
    then have "?L[i := Some (wake ts p)] = take (Suc i) ?W @ drop (Suc i) ts" using step W by simp
    then show ?thesis using IH Suc.hyps(2) i Some W L
      unfolding up by (simp add: candidate_def runnable_at_def ticks_left_def len wk Let_def)
  qed
qed

lemma best_task_cases:
  "(best_task c ts tids mt r = r \<and> (\<forall>t\<in>set tids. candidate c ts t \<longrightarrow> ticks_left ts t \<le> mt)) \<or>
   (\<exists>t\<in>set tids. best_task c ts tids mt r = Some t \<and> candidate c ts t \<and> mt < ticks_left ts t \<and>
      (\<forall>u\<in>set tids. candidate c ts u \<longrightarrow> ticks_left ts u \<le> ticks_left ts t))"
proof (induction tids arbitrary: mt r)
  case Nil
  then show ?case by simp
next
  case (Cons tid tids)
  let ?C = "candidate c ts tid \<and> ticks_left ts tid > mt"
  show ?case
    using Cons.IH [of "if ?C then ticks_left ts tid else mt" "if ?C then Some tid else r"]
    by (auto split: if_splits)
qed

text \<open>
  The table on which the choice is made: the woken tasks, with their ticks refilled when no candidate
  has ticks left.
\<close>

definition ready_table :: "nat \<Rightarrow> process option list \<Rightarrow> process option list" where
  "ready_table c ts =
     (let w = wake_all ts in
      if \<exists>u\<in>{..<length w}. candidate c w u \<and> 0 < ticks_left w u then w else refill w)"

definition sched_ok :: "sched_state \<Rightarrow> bool" where
  "sched_ok s \<longleftrightarrow> runnable_at (tasks s) IDLE_TASK_ID \<and>
     (\<forall>p. Some p \<in> set (tasks s) \<longrightarrow> page_table p mod 4096 = 0 \<and> tm p \<le> 10)"

definition alive_at :: "process option list \<Rightarrow> nat \<Rightarrow> bool" where
  "alive_at ts tid = (tid < length ts \<and> ts ! tid \<noteq> None)"

lemma length_wake_all [simp]: "length (wake_all ts) = length ts"
  by (simp add: wake_all_def)

lemma length_refill [simp]: "length (refill ts) = length ts"
  by (simp add: refill_def)

lemma length_ready_table [simp]: "length (ready_table c ts) = length ts"
  by (simp add: ready_table_def Let_def)

lemma candidate_length: "candidate c ts u \<Longrightarrow> u < length ts"
  by (auto simp: candidate_def runnable_at_def nth_opt_def split: if_splits option.splits)

lemma runnable_at_refill [simp]: "runnable_at (refill ts) t = runnable_at ts t"
  by (auto simp: runnable_at_def refill_def nth_opt_def split: option.splits)

lemma candidate_refill [simp]: "candidate c (refill ts) t = candidate c ts t"
  by (simp add: candidate_def)

lemma ticks_left_refill: "runnable_at ts t \<Longrightarrow> ticks_left (refill ts) t = 10"
  by (auto simp: runnable_at_def refill_def nth_opt_def ticks_left_def split: option.splits if_splits)

lemma runnable_at_wake_all: "runnable_at ts t \<Longrightarrow> runnable_at (wake_all ts) t"
  by (auto simp: runnable_at_def wake_all_def nth_opt_def split: option.splits if_splits)

lemma find_upt_Some: "List.find P [0..<n] = Some t \<Longrightarrow> t < n \<and> P t"
  by (auto simp: find_Some_iff)

lemma ready_table_runnable: "runnable_at ts t \<Longrightarrow> runnable_at (ready_table c ts) t"
  by (simp add: ready_table_def Let_def runnable_at_wake_all)

lemma select_task_correct:
  assumes "runnable_at ts IDLE_TASK_ID"
  shows "\<exists>t. select_task c ts = Some (ready_table c ts, t) \<and> runnable_at (ready_table c ts) t \<and>
    0 < ticks_left (ready_table c ts) t \<and> (t = c \<longrightarrow> c = IDLE_TASK_ID \<and> (\<forall>u. \<not> candidate c (ready_table c ts) u)) \<and>
    (\<forall>u. candidate c (ready_table c ts) u \<longrightarrow> ticks_left (ready_table c ts) u \<le> ticks_left (ready_table c ts) t)"
proof -
  let ?W = "wake_all ts" and ?R = "refill (wake_all ts)" and ?b = "best_task c (wake_all ts) [0..<length ts] 0 None"
  have scan: "scan_tasks c [0..<length ts] ts 0 None = (?W, ?b)"
    using scan_tasks_best [of 0 ts] by simp
  consider (none) "?b = None" "\<forall>t<length ts. candidate c ?W t \<longrightarrow> ticks_left ?W t = 0"
    | (some) t where "?b = Some t" "t < length ts" "candidate c ?W t" "0 < ticks_left ?W t"
        "\<forall>u<length ts. candidate c ?W u \<longrightarrow> ticks_left ?W u \<le> ticks_left ?W t"
    using best_task_cases [of c ?W "[0..<length ts]" 0 None] by auto
  then show ?thesis
  proof cases
    case none
    then have rt: "ready_table c ts = ?R" by (auto simp: ready_table_def Let_def)
    have le: "ticks_left ?R u = 10" if "runnable_at ?W u" for u using ticks_left_refill that by simp
    show ?thesis
    proof (cases "first_runnable c ?R")
      case None
      then have no: "\<not> candidate c ?R u" for u
        using candidate_length [of c ?R u]
        by (auto simp: first_runnable_def find_None_iff candidate_def)
      have idle: "runnable_at ?W IDLE_TASK_ID" using assms by (rule runnable_at_wake_all)
      then have "select_task c ts = Some (?R, IDLE_TASK_ID)"
        using None none(1) by (simp add: select_task_def scan)
      moreover have "c = IDLE_TASK_ID" using no [of IDLE_TASK_ID] idle by (auto simp: candidate_def)
      ultimately show ?thesis using no le idle unfolding rt by auto
    next
      case (Some t)
      then have t: "runnable_at ?W t" "t \<noteq> c"
        by (auto simp: first_runnable_def dest: find_upt_Some)
      then have "ticks_left ?R u \<le> ticks_left ?R t" if "candidate c ?R u" for u
        using that le by (simp add: candidate_def)
      then show ?thesis using t le Some none(1)
        by (simp add: select_task_def scan rt Let_def)
    qed
  next
    case some
    then have rt: "ready_table c ts = ?W" by (auto simp: ready_table_def Let_def)
    moreover have "t \<noteq> c" "runnable_at ?W t" using some(3) by (auto simp: candidate_def)
    ultimately show ?thesis using some candidate_length [of c ?W]
      by (auto simp: select_task_def scan)
  qed
qed

lemma runnable_at_process: "runnable_at ts t \<Longrightarrow> \<exists>p. t < length ts \<and> ts ! t = Some p \<and> proc_state p = Runnable"
  by (auto simp: runnable_at_def nth_opt_def split: if_splits option.splits)

lemma ready_table_nth:
  assumes "t < length ts" and "ts ! t = Some p"
  shows "\<exists>n. ready_table c ts ! t = Some ((wake ts p)\<lparr>tm := n\<rparr>)"
proof (cases "ready_table c ts = wake_all ts")
  case True
  then show ?thesis using assms by (auto simp: wake_all_def intro: exI [of _ "tm (wake ts p)"])
next
  case False
  then have "ready_table c ts = refill (wake_all ts)" unfolding ready_table_def Let_def by meson
  then show ?thesis using assms by (auto simp: wake_all_def refill_def)
qed

lemma ready_table_process:
  assumes "ready_table c ts ! t = Some p" and "t < length ts"
  shows "\<exists>q. ts ! t = Some q \<and> page_table p = page_table q \<and> proc_context p = proc_context q \<and> fs p = fs q \<and>
    fpu_state p = fpu_state q"
  using assms
  by (cases "ts ! t") (auto simp: ready_table_def Let_def wake_all_def refill_def split: if_splits)

section \<open>What schedule does\<close>

definition save_current ::
  "sched_state \<Rightarrow> process_context \<Rightarrow> bool \<Rightarrow> process option list \<Rightarrow> process option list" where
  "save_current s ctx ex ts =
     (if ex then ts
      else ts[CURRENT_TASK_ID s := map_option (\<lambda>q. q\<lparr>proc_context := ctx, fs := fs_base s, fpu_state := fpu_regs s\<rparr>)
        (ts ! CURRENT_TASK_ID s)])"

lemma alive_at_ready: "alive_at (ready_table c ts) t = alive_at ts t"
  by (auto simp: alive_at_def ready_table_def Let_def wake_all_def refill_def)

lemma schedule_eq:
  assumes ok: "sched_ok s" and alive: "ex \<or> alive_at (tasks s) (CURRENT_TASK_ID s)"
  defines "ts \<equiv> ready_table (CURRENT_TASK_ID s) (tasks s)"
  obtains t p where "t < length ts" "ts ! t = Some p" "proc_state p = Runnable" "0 < tm p"
    "\<forall>u. candidate (CURRENT_TASK_ID s) ts u \<longrightarrow> ticks_left ts u \<le> tm p"
    "t = CURRENT_TASK_ID s \<longrightarrow> t = IDLE_TASK_ID \<and> (\<forall>u. \<not> candidate (CURRENT_TASK_ID s) ts u)"
    "schedule s ctx ex =
       (let keep = (t \<noteq> CURRENT_TASK_ID s \<or> ex) in
        Some (s\<lparr>tasks := save_current s ctx ex (ts[t := Some (p\<lparr>tm := tm p - 1\<rparr>)]), cr3 := page_table p,
               fs_base := if keep then fs p else fs_base s,
               fpu_regs := if keep then fpu_state p else fpu_regs s, CURRENT_TASK_ID := t\<rparr>,
              if keep then proc_context p else ctx))"
proof -
  let ?c = "CURRENT_TASK_ID s"
  obtain t where sel: "select_task ?c (tasks s) = Some (ts, t)" and run: "runnable_at ts t"
    and pos: "0 < ticks_left ts t" and cur: "t = ?c \<longrightarrow> ?c = IDLE_TASK_ID \<and> (\<forall>u. \<not> candidate ?c ts u)"
    and best: "\<forall>u. candidate ?c ts u \<longrightarrow> ticks_left ts u \<le> ticks_left ts t"
    using select_task_correct [of "tasks s" ?c] ok unfolding sched_ok_def ts_def by blast
  obtain p where p: "t < length ts" "ts ! t = Some p" "proc_state p = Runnable"
    using runnable_at_process [OF run] by blast
  have tl: "ticks_left ts t = tm p" using p by (simp add: ticks_left_def)
  have len: "length ts = length (tasks s)" by (simp add: ts_def)
  obtain q where "tasks s ! t = Some q" "page_table p = page_table q"
    using ready_table_process [of ?c "tasks s" t p] p len unfolding ts_def by auto
  then have al: "page_table p mod 4096 = 0"
    using ok p(1) len unfolding sched_ok_def by (metis nth_mem)
  have "ex \<or> (?c < length ts \<and> ts ! ?c \<noteq> None)"
    using alive alive_at_ready [of ?c "tasks s" ?c] unfolding ts_def [symmetric] by (auto simp: alive_at_def)
  then have "schedule s ctx ex =
       (let keep = (t \<noteq> ?c \<or> ex) in
        Some (s\<lparr>tasks := save_current s ctx ex (ts[t := Some (p\<lparr>tm := tm p - 1\<rparr>)]), cr3 := page_table p,
               fs_base := if keep then fs p else fs_base s,
               fpu_regs := if keep then fpu_state p else fpu_regs s, CURRENT_TASK_ID := t\<rparr>,
              if keep then proc_context p else ctx))"
    using p al pos unfolding tl
    by (cases ex; cases "t = ?c")
      (auto simp: schedule_def sel checked_sub_def switch_to_def Let_def save_current_def)
  then show thesis using that [of t p] p pos best cur unfolding tl by blast
qed

definition total_ticks :: "process option list \<Rightarrow> nat" where
  "total_ticks ts = sum_list (map (\<lambda>t. case t of None \<Rightarrow> 0 | Some p \<Rightarrow> tm p) ts)"

lemma length_save_current [simp]: "length (save_current s ctx ex ts) = length ts"
  by (simp add: save_current_def)

lemma save_current_nth:
  "\<exists>f. (\<forall>q. tm (f q) = tm q \<and> proc_state (f q) = proc_state q \<and> page_table (f q) = page_table q) \<and>
     (u < length ts \<longrightarrow> save_current s ctx ex ts ! u = map_option f (ts ! u))"
proof (cases "ex \<or> u \<noteq> CURRENT_TASK_ID s")
  case True
  then show ?thesis
    by (intro exI [of _ id]) (auto simp: save_current_def option.map_id)
next
  case False
  then show ?thesis
    by (intro exI [of _ "\<lambda>q. q\<lparr>proc_context := ctx, fs := fs_base s, fpu_state := fpu_regs s\<rparr>"])
      (auto simp: save_current_def)
qed

lemma save_current_props [simp]:
  "runnable_at (save_current s ctx ex ts) u = runnable_at ts u"
  "alive_at (save_current s ctx ex ts) u = alive_at ts u"
  "ticks_left (save_current s ctx ex ts) u = ticks_left ts u"
proof -
  obtain f where f: "\<forall>q. tm (f q) = tm q \<and> proc_state (f q) = proc_state q \<and> page_table (f q) = page_table q"
    and n: "u < length ts \<longrightarrow> save_current s ctx ex ts ! u = map_option f (ts ! u)"
    using save_current_nth by blast
  show "runnable_at (save_current s ctx ex ts) u = runnable_at ts u"
    using f n by (cases "ts ! u") (auto simp: runnable_at_def nth_opt_def)
  show "alive_at (save_current s ctx ex ts) u = alive_at ts u"
    using n by (cases "ts ! u") (auto simp: alive_at_def)
  show "ticks_left (save_current s ctx ex ts) u = ticks_left ts u"
    using f n by (cases "ts ! u") (auto simp: ticks_left_def nth_opt_def)
qed

lemma total_ticks_nth: "total_ticks ts = (\<Sum>i<length ts. ticks_left ts i)"
  unfolding total_ticks_def sum_list_sum_nth
  by (intro sum.cong) (auto simp: ticks_left_def split: option.splits)

lemma total_ticks_save [simp]: "total_ticks (save_current s ctx ex ts) = total_ticks ts"
  by (simp add: total_ticks_nth)

lemma total_ticks_wake [simp]: "total_ticks (wake_all ts) = total_ticks ts"
  unfolding total_ticks_def wake_all_def by (simp add: comp_def) (rule arg_cong [of _ _ sum_list], auto split: option.split)

lemma total_ticks_refill: "total_ticks (refill ts) \<le> 10 * length ts"
  unfolding total_ticks_def refill_def by (induction ts) (auto split: option.split)

lemma total_ticks_decrement:
  "\<lbrakk>t < length ts; ts ! t = Some p; 0 < tm p\<rbrakk> \<Longrightarrow> total_ticks (ts[t := Some (p\<lparr>tm := tm p - 1\<rparr>)]) < total_ticks ts"
  unfolding total_ticks_def by (induction ts arbitrary: t) (auto split: nat.splits option.splits)

lemma ready_table_bound:
  assumes "\<forall>p. Some p \<in> set ts \<longrightarrow> page_table p mod 4096 = 0 \<and> tm p \<le> 10"
  shows "\<forall>p. Some p \<in> set (ready_table c ts) \<longrightarrow> page_table p mod 4096 = 0 \<and> tm p \<le> 10"
  using assms by (auto simp: ready_table_def Let_def wake_all_def refill_def eq_commute [of "Some _"])

lemma schedule_keeps_ok:
  assumes ok: "sched_ok s" and alive: "ex \<or> alive_at (tasks s) (CURRENT_TASK_ID s)"
    and sch: "schedule s ctx ex = Some (s', ctx')"
  shows "sched_ok s'" and "alive_at (tasks s') (CURRENT_TASK_ID s')"
    and "runnable_at (tasks s') (CURRENT_TASK_ID s')" and "length (tasks s') = length (tasks s)"
    and "runnable_at (tasks s) u \<Longrightarrow> runnable_at (tasks s') u"
proof -
  define ts where "ts = ready_table (CURRENT_TASK_ID s) (tasks s)"
  obtain t p where p: "t < length ts" "ts ! t = Some p" "proc_state p = Runnable"
    and s': "tasks s' = save_current s ctx ex (ts[t := Some (p\<lparr>tm := tm p - 1\<rparr>)])" "CURRENT_TASK_ID s' = t"
    by (rule schedule_eq [OF ok alive, of ctx, folded ts_def]) (use sch in \<open>auto simp: Let_def\<close>)
  show "length (tasks s') = length (tasks s)" by (simp add: s' ts_def)
  have keep: "runnable_at (ts[t := Some (p\<lparr>tm := tm p - 1\<rparr>)]) u = runnable_at ts u" for u
    using p by (cases "u = t") (auto simp: runnable_at_def nth_opt_def)
  then show run: "runnable_at (tasks s') u" if "runnable_at (tasks s) u" for u
    using that by (simp add: s' ts_def ready_table_runnable)
  have "runnable_at ts t" using p by (simp add: runnable_at_def)
  then have "runnable_at (tasks s') t" using keep by (simp add: s')
  then show "runnable_at (tasks s') (CURRENT_TASK_ID s')" by (simp add: s')
  have "alive_at (ts[t := Some (p\<lparr>tm := tm p - 1\<rparr>)]) t" using p by (simp add: alive_at_def)
  then show "alive_at (tasks s') (CURRENT_TASK_ID s')" by (simp add: s')
  have "page_table q mod 4096 = 0 \<and> tm q \<le> 10" if "Some q \<in> set (tasks s')" for q
  proof -
    from that obtain u where u: "u < length ts" "tasks s' ! u = Some q"
      unfolding s' in_set_conv_nth by auto
    obtain f where f: "\<forall>r. tm (f r) = tm r \<and> page_table (f r) = page_table r"
      and n: "tasks s' ! u = map_option f (ts[t := Some (p\<lparr>tm := tm p - 1\<rparr>)] ! u)"
      using save_current_nth [of u "ts[t := Some (p\<lparr>tm := tm p - 1\<rparr>)]" s ctx ex] u(1) unfolding s' by auto
    have "\<forall>r. Some r \<in> set ts \<longrightarrow> page_table r mod 4096 = 0 \<and> tm r \<le> 10"
      using ok unfolding ts_def sched_ok_def by (intro ready_table_bound) auto
    then have b: "page_table r mod 4096 = 0 \<and> tm r \<le> 10" if "ts ! u = Some r" for r
      using that u(1) by (metis nth_mem)
    show ?thesis using u n b p by (cases "u = t") (auto simp: f)
  qed
  then show "sched_ok s'" using run ok unfolding sched_ok_def by blast
qed

section \<open>Waiting for the processor\<close>

text \<open>
  A timer tick: since the last one the current task has changed its registers in any way.
\<close>

inductive tick :: "sched_state \<Rightarrow> sched_state \<Rightarrow> bool" where
  tick: "timer (s\<lparr>fs_base := f, fpu_regs := r\<rparr>) ctx = Some (s', ctx') \<Longrightarrow> tick s s'"

inductive_cases tickE: "tick s s'"

definition waiting_bound :: "nat \<Rightarrow> sched_state \<Rightarrow> nat" where
  "waiting_bound T s =
     (if 0 < ticks_left (tasks s) T then 0 else 10 * length (tasks s)) + total_ticks (tasks s)"

lemma timer_decreases:
  assumes ok: "sched_ok s" and alive: "alive_at (tasks s) (CURRENT_TASK_ID s)"
    and T: "runnable_at (tasks s) T" "T \<noteq> CURRENT_TASK_ID s"
    and tick: "timer s ctx = Some (s', ctx')" and no: "T \<noteq> CURRENT_TASK_ID s'"
  shows "waiting_bound T s' < waiting_bound T s"
proof -
  define ts where "ts = ready_table (CURRENT_TASK_ID s) (tasks s)"
  obtain t p where p: "t < length ts" "ts ! t = Some p" "0 < tm p"
    and s': "tasks s' = save_current s ctx False (ts[t := Some (p\<lparr>tm := tm p - 1\<rparr>)])" "CURRENT_TASK_ID s' = t"
    by (rule schedule_eq [OF ok disjI2 [where P = False, OF alive], of ctx, folded ts_def])
      (use tick in \<open>auto simp: Let_def timer_def\<close>)
  let ?W = "wake_all (tasks s)"
  have less: "total_ticks (tasks s') < total_ticks ts" using total_ticks_decrement [OF p] by (simp add: s')
  have "ticks_left (ts[t := Some (p\<lparr>tm := tm p - 1\<rparr>)]) T = ticks_left ts T"
    using no by (simp add: s' ticks_left_def nth_opt_def)
  then have tl: "ticks_left (tasks s') T = ticks_left ts T" by (simp add: s')
  have len: "length (tasks s') = length (tasks s)" by (simp add: s' ts_def)
  have wl: "ticks_left ?W T = ticks_left (tasks s) T"
    by (auto simp: ticks_left_def nth_opt_def wake_all_def split: option.splits)
  have cand: "candidate (CURRENT_TASK_ID s) ?W T"
    using T by (simp add: candidate_def runnable_at_wake_all)
  show ?thesis
  proof (cases "ts = ?W")
    case True
    then show ?thesis using less tl wl len by (simp add: waiting_bound_def)
  next
    case False
    then have "ticks_left ?W T = 0" and ts: "ts = refill ?W"
      using cand candidate_length [OF cand] by (auto simp: ts_def ready_table_def Let_def split: if_splits)
    moreover have "ticks_left ts T = 10" using ts cand by (simp add: ticks_left_refill candidate_def)
    ultimately show ?thesis using less tl wl total_ticks_refill [of ?W]
      by (simp add: waiting_bound_def)
  qed
qed

lemma tick_step:
  assumes "sched_ok s" and "alive_at (tasks s) (CURRENT_TASK_ID s)" and "runnable_at (tasks s) T"
    and "tick s s'"
  shows "sched_ok s'" and "alive_at (tasks s') (CURRENT_TASK_ID s')" and "runnable_at (tasks s') T"
    and "length (tasks s') = length (tasks s)"
    and "T = CURRENT_TASK_ID s \<or> T = CURRENT_TASK_ID s' \<or> waiting_bound T s' < waiting_bound T s"
proof -
  obtain f r ctx ctx' where t: "timer (s\<lparr>fs_base := f, fpu_regs := r\<rparr>) ctx = Some (s', ctx')"
    using assms(4) by (rule tickE)
  let ?s = "s\<lparr>fs_base := f, fpu_regs := r\<rparr>"
  have s: "sched_ok ?s" "False \<or> alive_at (tasks ?s) (CURRENT_TASK_ID ?s)"
    using assms(1,2) by (simp_all add: sched_ok_def)
  obtain s1 where s1: "schedule ?s ctx False = Some (s1, ctx')"
    and s': "s' = s1\<lparr>TOTAL_TICKS := (TOTAL_TICKS s1 + 1) mod USIZE_LIMIT\<rparr>"
    using t by (auto simp: timer_def split: bind_splits)
  note k = schedule_keeps_ok [OF s s1]
  show "sched_ok s'" using k(1) by (simp add: s' sched_ok_def)
  show "alive_at (tasks s') (CURRENT_TASK_ID s')" using k(2) by (simp add: s')
  show "runnable_at (tasks s') T" using k(5) assms(3) by (simp add: s')
  show "length (tasks s') = length (tasks s)" using k(4) by (simp add: s')
  show "T = CURRENT_TASK_ID s \<or> T = CURRENT_TASK_ID s' \<or> waiting_bound T s' < waiting_bound T s"
  proof -
    have "waiting_bound T ?s = waiting_bound T s" by (simp add: waiting_bound_def)
    then show ?thesis using timer_decreases [OF s(1) _ _ _ t, of T] assms(2,3) by auto
  qed
qed

lemma runs_within:
  assumes "\<forall>i. tick (\<sigma> i) (\<sigma> (Suc i))"
    and "sched_ok (\<sigma> k)" and "alive_at (tasks (\<sigma> k)) (CURRENT_TASK_ID (\<sigma> k))" and "runnable_at (tasks (\<sigma> k)) T"
  shows "\<exists>i. k \<le> i \<and> i \<le> k + waiting_bound T (\<sigma> k) + 1 \<and> CURRENT_TASK_ID (\<sigma> i) = T"
  using assms(2-)
proof (induction "waiting_bound T (\<sigma> k)" arbitrary: k rule: less_induct)
  case less
  note st = tick_step [OF less.prems assms(1) [rule_format]]
  from st(5) show ?case
  proof (elim disjE)
    assume "waiting_bound T (\<sigma> (Suc k)) < waiting_bound T (\<sigma> k)"
    with less.hyps [OF this st(1-3)] obtain i where
      "Suc k \<le> i" "i \<le> Suc k + waiting_bound T (\<sigma> (Suc k)) + 1" "CURRENT_TASK_ID (\<sigma> i) = T" by auto
    then show ?case using \<open>waiting_bound T (\<sigma> (Suc k)) < waiting_bound T (\<sigma> k)\<close>
      by (intro exI [of _ i]) auto
  qed (auto intro: exI [of _ k] exI [of _ "Suc k"])
qed

lemma waiting_bound_le:
  assumes "sched_ok s"
  shows "waiting_bound T s \<le> 20 * length (tasks s)"
proof -
  have "ticks_left (tasks s) i \<le> 10" if "i < length (tasks s)" for i
  proof (cases "tasks s ! i")
    case None
    then show ?thesis by (simp add: ticks_left_def that)
  next
    case (Some p)
    then have "Some p \<in> set (tasks s)" using that by (metis nth_mem)
    then show ?thesis using assms Some that by (simp add: ticks_left_def sched_ok_def)
  qed
  then have "total_ticks (tasks s) \<le> (\<Sum>i<length (tasks s). 10)"
    unfolding total_ticks_nth by (intro sum_mono) simp
  then show ?thesis by (simp add: waiting_bound_def)
qed

lemma tick_total:
  assumes "sched_ok s" and "alive_at (tasks s) (CURRENT_TASK_ID s)"
  shows "tick s (fst (the (timer s ctx)))"
proof -
  obtain s' ctx' where "schedule s ctx False = Some (s', ctx')"
    by (rule schedule_eq [OF assms(1) disjI2 [where P = False, OF assms(2)], of ctx]) (auto simp: Let_def)
  then show ?thesis using tick.intros [where s = s and f = "fs_base s" and r = "fpu_regs s" and ctx = ctx] by (simp add: timer_def)
qed

text \<open>The part of a task that the scheduler saves, and its page table.\<close>

definition saved_state :: "process \<Rightarrow> process_context \<times> u64 \<times> 128 word list \<times> nat" where
  "saved_state p = (proc_context p, fs p, fpu_state p, page_table p)"

section \<open>Properties\<close>

text \<open>
  Property C9 (scheduling). With a runnable idle task and aligned page tables, \<^verbatim>\<open>schedule\<close>
  never panics (its \<^verbatim>\<open>unwrap\<close>s, its \<^verbatim>\<open>debug_assert\<close> and the subtraction of a
  tick included). It runs a task that is runnable, that has a tick left, and that no other candidate
  beats in ticks left; the task it interrupts is chosen again only when it is the idle task and nothing
  else can run. The task gets its own page table and, unless it was running already, its own registers;
  every task other than the old and the new one is left alone except for being woken or refilled, and the
  preconditions hold again.
\<close>

theorem schedule_runs_best:
  assumes "sched_ok s" and "ex \<or> alive_at (tasks s) (CURRENT_TASK_ID s)"
  shows "\<exists>s' ctx' p. schedule s ctx ex = Some (s', ctx') \<and>
    (let c = CURRENT_TASK_ID s; t = CURRENT_TASK_ID s'; ts = ready_table c (tasks s) in
       nth_opt ts t = Some (Some p) \<and> proc_state p = Runnable \<and> 0 < tm p \<and>
       (\<forall>u. candidate c ts u \<longrightarrow> ticks_left ts u \<le> tm p) \<and>
       (t = c \<longrightarrow> t = IDLE_TASK_ID \<and> (\<forall>u. \<not> candidate c ts u)) \<and> cr3 s' = page_table p \<and>
       (if t \<noteq> c \<or> ex then ctx' = proc_context p \<and> fs_base s' = fs p \<and> fpu_regs s' = fpu_state p
        else ctx' = ctx \<and> fs_base s' = fs_base s \<and> fpu_regs s' = fpu_regs s) \<and>
       ticks_left (tasks s') t = tm p - 1 \<and>
       (\<forall>u<length ts. u \<noteq> t \<longrightarrow> u \<noteq> c \<longrightarrow> tasks s' ! u = ts ! u) \<and> sched_ok s')"
proof -
  define c ts where "c = CURRENT_TASK_ID s" and "ts = ready_table c (tasks s)"
  obtain t p where p: "t < length ts" "ts ! t = Some p" "proc_state p = Runnable" "0 < tm p"
    and best: "\<forall>u. candidate c ts u \<longrightarrow> ticks_left ts u \<le> tm p"
    and cur: "t = c \<longrightarrow> t = IDLE_TASK_ID \<and> (\<forall>u. \<not> candidate c ts u)"
    and sch: "schedule s ctx ex =
       (let keep = (t \<noteq> c \<or> ex) in
        Some (s\<lparr>tasks := save_current s ctx ex (ts[t := Some (p\<lparr>tm := tm p - 1\<rparr>)]), cr3 := page_table p,
               fs_base := if keep then fs p else fs_base s,
               fpu_regs := if keep then fpu_state p else fpu_regs s, CURRENT_TASK_ID := t\<rparr>,
              if keep then proc_context p else ctx))"
    by (rule schedule_eq [OF assms, of ctx, folded c_def, folded ts_def])
  define s' ctx' where "s' = fst (the (schedule s ctx ex))" and "ctx' = snd (the (schedule s ctx ex))"
  have sch': "schedule s ctx ex = Some (s', ctx')" unfolding s'_def ctx'_def sch by (simp add: Let_def)
  have ts': "tasks s' = save_current s ctx ex (ts[t := Some (p\<lparr>tm := tm p - 1\<rparr>)])"
    and t: "CURRENT_TASK_ID s' = t" and "cr3 s' = page_table p"
    and "if t \<noteq> c \<or> ex then ctx' = proc_context p \<and> fs_base s' = fs p \<and> fpu_regs s' = fpu_state p
        else ctx' = ctx \<and> fs_base s' = fs_base s \<and> fpu_regs s' = fpu_regs s"
    unfolding s'_def ctx'_def sch by (simp_all add: Let_def)
  moreover have "ticks_left (ts[t := Some (p\<lparr>tm := tm p - 1\<rparr>)]) t = tm p - 1"
    using p by (simp add: ticks_left_def)
  then have "ticks_left (tasks s') t = tm p - 1" by (simp add: ts')
  moreover have "\<forall>u<length ts. u \<noteq> t \<longrightarrow> u \<noteq> c \<longrightarrow> tasks s' ! u = ts ! u"
    by (simp add: ts' save_current_def c_def)
  moreover have "sched_ok s'" by (rule schedule_keeps_ok(1) [OF assms sch'])
  ultimately show ?thesis
    using sch' p best cur unfolding Let_def c_def [symmetric] ts_def [symmetric]
    by (intro exI [of _ s'] exI [of _ ctx'] exI [of _ p]) (simp add: t)
qed

definition sample_process :: "nat \<Rightarrow> nat \<Rightarrow> ProcessState \<Rightarrow> process" where
  "sample_process pt n st =
     \<lparr>page_table = pt, proc_context = context_default\<lparr>rip := of_nat n\<rparr>, fpu_state = FPU_INIT, tm = n, fs = 0,
      brk = 0, exe_path = None, proc_state = st, files = [], directories = []\<rparr>"

definition sample_sched :: sched_state where
  "sample_sched =
     \<lparr>tasks = [Some (sample_process 4096 10 Runnable), Some (sample_process 8192 0 (Blocked (WaitPid 2))), None,
        Some (sample_process 12288 3 Runnable)],
      CURRENT_TASK_ID = 3, TOTAL_TICKS = 0, cr3 = 12288, fs_base = 0, fpu_regs = FPU_INIT\<rparr>"

lemma sample_sched_ok: "sched_ok sample_sched" "alive_at (tasks sample_sched) (CURRENT_TASK_ID sample_sched)"
  by (auto simp: sched_ok_def sample_sched_def sample_process_def runnable_at_def IDLE_TASK_ID_def alive_at_def)

lemmas sched_eval = sample_sched_def sample_process_def schedule_def select_task_def scan_tasks.simps wake_def
  should_wake_def task_gone_def switch_to_def checked_sub_def Let_def nth_opt_def upt_rec

theorem schedule_runs_best_witness:
  "\<exists>s' ctx'. schedule sample_sched context_default False = Some (s', ctx') \<and> CURRENT_TASK_ID s' = 0 \<and>
     cr3 s' = 4096 \<and> rip ctx' = 10 \<and> sched_ok s'"
proof -
  have "map_option (CURRENT_TASK_ID \<circ> fst) (schedule sample_sched context_default False) = Some 0"
    by (simp add: sched_eval)
  moreover have "nth_opt (ready_table 3 (tasks sample_sched)) 0 = Some (Some (sample_process 4096 10 Runnable))"
  proof -
    let ?W = "wake_all (tasks sample_sched)"
    have W: "?W ! 0 = Some (sample_process 4096 10 Runnable)" "length ?W = 4"
      by (simp_all add: wake_all_def sample_sched_def wake_def should_wake_def sample_process_def)
    then have "candidate 3 ?W 0 \<and> 0 < ticks_left ?W 0"
      by (simp add: candidate_def runnable_at_def ticks_left_def sample_process_def)
    then have "ready_table 3 (tasks sample_sched) = ?W"
      unfolding ready_table_def Let_def using W(2) by (intro if_P bexI [of _ 0]) simp_all
    then show ?thesis using W by simp
  qed
  moreover have "CURRENT_TASK_ID sample_sched = 3" by (simp add: sample_sched_def)
  ultimately show ?thesis
    using schedule_runs_best [OF sample_sched_ok(1) disjI2 [where P = False, OF sample_sched_ok(2)], of context_default]
    by (auto simp: Let_def sample_process_def)
qed

text \<open>
  Property C10 (no starvation). While the tasks only compute, a runnable task is given the
  processor within 20 timer ticks for every entry of the task table, whatever the tasks do to their
  registers and however many other tasks there are, woken or blocked.
\<close>

theorem runnable_task_runs_soon:
  assumes "sched_ok (\<sigma> 0)" and "alive_at (tasks (\<sigma> 0)) (CURRENT_TASK_ID (\<sigma> 0))"
    and "runnable_at (tasks (\<sigma> 0)) T" and "\<forall>i. tick (\<sigma> i) (\<sigma> (Suc i))"
  shows "\<exists>i \<le> 20 * length (tasks (\<sigma> 0)) + 1. CURRENT_TASK_ID (\<sigma> i) = T"
  using runs_within [OF assms(4,1-3)] waiting_bound_le [OF assms(1), of T]
  by (auto intro: order_trans)

definition sample_run :: "nat \<Rightarrow> sched_state" where
  "sample_run n = ((\<lambda>s. fst (the (timer s context_default))) ^^ n) sample_sched"

lemma sample_run_ticks:
  "sched_ok (sample_run n) \<and> alive_at (tasks (sample_run n)) (CURRENT_TASK_ID (sample_run n)) \<and>
   tick (sample_run n) (sample_run (Suc n))"
proof (induction n)
  case 0
  then show ?case using sample_sched_ok tick_total by (simp add: sample_run_def)
next
  case (Suc n)
  have "runnable_at (tasks (sample_run n)) IDLE_TASK_ID" using Suc.IH by (simp add: sched_ok_def)
  from tick_step [OF _ _ this] Suc.IH
  have "sched_ok (sample_run (Suc n))" "alive_at (tasks (sample_run (Suc n))) (CURRENT_TASK_ID (sample_run (Suc n)))"
    by blast+
  then show ?case using tick_total [of "sample_run (Suc n)"] by (simp add: sample_run_def)
qed

theorem runnable_task_runs_soon_witness:
  "\<exists>i \<le> 20 * length (tasks (sample_run 0)) + 1. CURRENT_TASK_ID (sample_run i) = 0"
proof (rule runnable_task_runs_soon)
  show "runnable_at (tasks (sample_run 0)) 0"
    by (simp add: sample_run_def sample_sched_def runnable_at_def sample_process_def)
qed (use sample_run_ticks in blast)+

text \<open>
  Property C36 (waitpid). Every run of the scheduler wakes a task that waits for a child exactly when
  the child is gone, its entry empty or never used; as long as the child is there the waiting task is
  not chosen.
\<close>

theorem waitpid_wakes_exactly:
  assumes "sched_ok s" and "ex \<or> alive_at (tasks s) (CURRENT_TASK_ID s)"
    and "schedule s ctx ex = Some (s', ctx')"
    and "nth_opt (tasks s) t = Some (Some p)" and "proc_state p = Blocked (WaitPid pid)"
  shows "\<exists>p'. nth_opt (tasks s') t = Some (Some p') \<and>
      proc_state p' = (if alive_at (tasks s) pid then Blocked (WaitPid pid) else Runnable) \<and>
      (alive_at (tasks s) pid \<longrightarrow> CURRENT_TASK_ID s' \<noteq> t)"
proof -
  define ts where "ts = ready_table (CURRENT_TASK_ID s) (tasks s)"
  obtain u q where q: "u < length ts" "ts ! u = Some q" "proc_state q = Runnable"
    and s': "tasks s' = save_current s ctx ex (ts[u := Some (q\<lparr>tm := tm q - 1\<rparr>)])" "CURRENT_TASK_ID s' = u"
    by (rule schedule_eq [OF assms(1,2), of ctx, folded ts_def]) (use assms(3) in \<open>auto simp: Let_def\<close>)
  have t: "t < length (tasks s)" "tasks s ! t = Some p" using assms(4) by (simp_all add: nth_opt_eq_Some)
  have gone: "task_gone (tasks s) pid \<longleftrightarrow> \<not> alive_at (tasks s) pid"
    by (auto simp: task_gone_def alive_at_def nth_opt_def)
  obtain r where r: "ts ! t = Some r"
    and st: "proc_state r = (if alive_at (tasks s) pid then Blocked (WaitPid pid) else Runnable)"
    using ready_table_nth [OF t, of "CURRENT_TASK_ID s"] assms(5) gone by (auto simp: ts_def wake_def should_wake_def)
  have "\<exists>p'. ts[u := Some (q\<lparr>tm := tm q - 1\<rparr>)] ! t = Some p' \<and> proc_state p' = proc_state r"
    using r q by (cases "t = u") auto
  then obtain p' where p': "tasks s' ! t = Some p'" "proc_state p' = proc_state r"
    using save_current_nth [of t "ts[u := Some (q\<lparr>tm := tm q - 1\<rparr>)]" s ctx ex] t(1) unfolding s' ts_def by auto
  have "alive_at (tasks s) pid \<longrightarrow> CURRENT_TASK_ID s' \<noteq> t" using r st q s'(2) by auto
  then show ?thesis using p' st t(1) by (auto simp: s' ts_def)
qed

theorem waitpid_wakes_exactly_witness:
  "\<exists>s' ctx' p'. schedule sample_sched context_default False = Some (s', ctx') \<and>
     nth_opt (tasks s') 1 = Some (Some p') \<and> proc_state p' = Runnable"
proof -
  obtain s' ctx' where sch: "schedule sample_sched context_default False = Some (s', ctx')"
    by (rule schedule_eq [OF sample_sched_ok(1) disjI2 [where P = False, OF sample_sched_ok(2)], of context_default])
      (auto simp: Let_def)
  have "nth_opt (tasks sample_sched) 1 = Some (Some (sample_process 8192 0 (Blocked (WaitPid 2))))"
    by (simp add: sample_sched_def)
  from waitpid_wakes_exactly [OF sample_sched_ok(1) disjI2 [where P = False, OF sample_sched_ok(2)] sch this]
  show ?thesis using sch by (auto simp: sample_process_def alive_at_def sample_sched_def)
qed

text \<open>
  The registers, the FS base and the floating point state a task
  has when it is preempted are those it gets when it is scheduled again, provided its saved state in the
  task table is left alone in between.
\<close>

lemma preempted_task_resumes:
  assumes "sched_ok s" and "alive_at (tasks s) A" and "CURRENT_TASK_ID s = A"
    and "schedule s ctx False = Some (s1, ctx1)"
    and "sched_ok s2" and "alive_at (tasks s2) (CURRENT_TASK_ID s2) \<or> ex" and "CURRENT_TASK_ID s2 \<noteq> A"
    and "map_option saved_state (tasks s2 ! A) = map_option saved_state (tasks s1 ! A)"
    and "schedule s2 ctx2 ex = Some (s3, ctx3)" and "CURRENT_TASK_ID s3 = A"
  shows "ctx3 = ctx \<and> fs_base s3 = fs_base s \<and> fpu_regs s3 = fpu_regs s \<and>
    map_option page_table (tasks s ! A) = Some (cr3 s3)"
proof -
  define ts where "ts = ready_table A (tasks s)"
  obtain u q where q: "u < length ts" "ts ! u = Some q"
    and s1: "tasks s1 = save_current s ctx False (ts[u := Some (q\<lparr>tm := tm q - 1\<rparr>)])"
    by (rule schedule_eq [OF assms(1) disjI2 [where P = False], of ctx]) (use assms(2-4) in \<open>auto simp: Let_def ts_def\<close>)
  obtain p0 where p0: "A < length (tasks s)" "tasks s ! A = Some p0" using assms(2) by (auto simp: alive_at_def)
  have "\<exists>r. ts ! A = Some r \<and> page_table r = page_table p0"
    using ready_table_nth [OF p0, of A] by (auto simp: ts_def)
  then have A1: "map_option saved_state (tasks s1 ! A) = Some (ctx, fs_base s, fpu_regs s, page_table p0)"
    using q p0(1) assms(3) by (cases "u = A") (auto simp: s1 save_current_def ts_def saved_state_def)
  obtain p where p: "A < length (tasks s2)" "ready_table (CURRENT_TASK_ID s2) (tasks s2) ! A = Some p"
    and s3: "ctx3 = proc_context p" "fs_base s3 = fs p" "fpu_regs s3 = fpu_state p" "cr3 s3 = page_table p"
    by (rule schedule_eq [OF assms(5), of ex ctx2]) (use assms(6-10) in \<open>auto simp: Let_def\<close>)
  obtain r where "tasks s2 ! A = Some r" "saved_state p = saved_state r"
    using ready_table_process [OF p(2,1)] by (auto simp: saved_state_def)
  then show ?thesis using assms(8) A1 s3 p0 by (auto simp: saved_state_def)
qed

lemma sample_switch:
  "\<exists>s1 ctx1 s3 ctx3. schedule sample_sched ctx False = Some (s1, ctx1) \<and> CURRENT_TASK_ID s1 = 0 \<and>
     schedule s1 context_default False = Some (s3, ctx3) \<and> CURRENT_TASK_ID s3 = 3"
  by (simp add: sched_eval)

lemma preempted_task_resumes_example:
  "\<exists>s1 ctx1 s3. schedule sample_sched (context_default\<lparr>rip := 42\<rparr>) False = Some (s1, ctx1) \<and>
     schedule s1 context_default False = Some (s3, context_default\<lparr>rip := 42\<rparr>)"
proof -
  obtain s1 ctx1 s3 ctx3 where s1: "schedule sample_sched (context_default\<lparr>rip := 42\<rparr>) False = Some (s1, ctx1)"
    and c1: "CURRENT_TASK_ID s1 = 0" and s3: "schedule s1 context_default False = Some (s3, ctx3)"
    and c3: "CURRENT_TASK_ID s3 = 3"
    using sample_switch by blast
  have c: "CURRENT_TASK_ID sample_sched = 3" by (simp add: sample_sched_def)
  note k = schedule_keeps_ok [OF sample_sched_ok(1) disjI2 [where P = False, OF sample_sched_ok(2)] s1]
  have "CURRENT_TASK_ID s1 \<noteq> 3" using c1 by simp
  from preempted_task_resumes [OF sample_sched_ok(1) _ c s1 k(1) disjI1 [where Q = False, OF k(2)] this refl s3 c3]
  show ?thesis using s1 s3 sample_sched_ok(2) c by auto
qed

end
