(* ===== verification/Storage.thy ===== *)
theory Storage
  imports Prelude
begin

text \<open>
  The block devices behind the file systems: the RAM disk of \<^verbatim>\<open>blockdev/ramdisk.rs\<close>, the
  byte-addressed adapters over AHCI, NVMe and USB mass storage (\<^verbatim>\<open>blockdev/ahci/mod.rs\<close>,
  \<^verbatim>\<open>blockdev/nvme.rs\<close>, \<^verbatim>\<open>blockdev/usb.rs\<close>), the GPT partition view of
  \<^verbatim>\<open>blockdev/partition/mod.rs\<close> and the two default loops of \<^verbatim>\<open>vfs/mod.rs\<close>.
  A read is given the length of the caller's buffer and returns the bytes it puts at its start. The
  locale \<open>byte_device\<close> is the contract of \<^verbatim>\<open>fatfs::Read\<close> and \<^verbatim>\<open>fatfs::Seek\<close>
  the partition view relies on; it is interpreted on the adapters. What the hardware and the crates
  \<^verbatim>\<open>nvme\<close> and \<^verbatim>\<open>gpt_disk_io\<close> deliver (a sector, a partition entry) is an
  argument. \<^term>\<open>None\<close> is a panic.
\<close>

section \<open>Seeking\<close>

datatype SeekFrom = Start nat | End int | Current int

definition as_i64 :: "nat \<Rightarrow> int" where
  "as_i64 n = (if n mod 2 ^ 64 < 2 ^ 63 then int (n mod 2 ^ 64) else int (n mod 2 ^ 64) - 2 ^ 64)"

definition checked_add_i64 :: "int \<Rightarrow> int \<Rightarrow> int option" where
  "checked_add_i64 a b = (if - (2 ^ 63) \<le> a + b \<and> a + b < 2 ^ 63 then Some (a + b) else None)"

definition saturating_add_i64 :: "int \<Rightarrow> int \<Rightarrow> int" where
  "saturating_add_i64 a b = max (- (2 ^ 63)) (min (2 ^ 63 - 1) (a + b))"

text \<open>
  The common body of the three seek functions that add without saturation: the new position, the inner
  \<^term>\<open>None\<close> when it is outside the device. \<open>len\<close> is the product of the block count and the
  block size, which is computed only where the source needs it.
\<close>

definition seek_target :: "nat option \<Rightarrow> nat \<Rightarrow> SeekFrom \<Rightarrow> int option" where
  "seek_target len pos frm =
     (case frm of
        Start off \<Rightarrow> Some (as_i64 off)
      | End off \<Rightarrow> do { l \<leftarrow> len; checked_add_i64 (as_i64 l) off }
      | Current off \<Rightarrow> checked_add_i64 (as_i64 pos) off)"

definition seek_within :: "nat option \<Rightarrow> nat \<Rightarrow> SeekFrom \<Rightarrow> nat option option" where
  "seek_within len pos frm =
     do { new_pos \<leftarrow> seek_target len pos frm;
          if new_pos < 0 then Some None
          else do { l \<leftarrow> len; Some (if new_pos > as_i64 l then None else Some (nat new_pos)) } }"

section \<open>The RAM disk\<close>

record RamDisk =
  size_in_blocks :: nat
  ptr :: nat
  rd_pos :: nat

definition with_addr_and_size :: "nat \<Rightarrow> nat \<Rightarrow> RamDisk" where
  "with_addr_and_size addr sz = \<lparr>size_in_blocks = div_ceil sz 512, ptr = addr, rd_pos = 0\<rparr>"

definition mem_bytes :: "(nat \<Rightarrow> u8) \<Rightarrow> nat \<Rightarrow> nat \<Rightarrow> bytes" where
  "mem_bytes mem a n = map mem [a..<a + n]"

definition mem_store :: "(nat \<Rightarrow> u8) \<Rightarrow> nat \<Rightarrow> bytes \<Rightarrow> nat \<Rightarrow> u8" where
  "mem_store mem a bs = (\<lambda>x. if a \<le> x \<and> x < a + length bs then bs ! (x - a) else mem x)"

definition ramdisk_read :: "(nat \<Rightarrow> u8) \<Rightarrow> RamDisk \<Rightarrow> nat \<Rightarrow> ((unit + bytes) \<times> RamDisk) option" where
  "ramdisk_read mem d len =
     (let will_read = (if len < 512 then len else 512) in
      do { e \<leftarrow> checked_add (rd_pos d) will_read;
           limit \<leftarrow> checked_mul (size_in_blocks d) 512;
           if e < limit then
             Some (Inr (mem_bytes mem (ptr d + rd_pos d) will_read), d\<lparr>rd_pos := rd_pos d + will_read\<rparr>)
           else Some (Inl (), d) })"

definition ramdisk_write ::
  "(nat \<Rightarrow> u8) \<Rightarrow> RamDisk \<Rightarrow> bytes \<Rightarrow> ((unit + nat) \<times> (nat \<Rightarrow> u8) \<times> RamDisk) option" where
  "ramdisk_write mem d buf =
     (let will_write = (if length buf < 512 then length buf else 512) in
      do { limit \<leftarrow> checked_mul (size_in_blocks d) 512;
           if rd_pos d \<le> limit then
             do { p \<leftarrow> checked_add (rd_pos d) will_write;
                  Some (Inr will_write, mem_store mem (ptr d + rd_pos d) (take will_write buf),
                        d\<lparr>rd_pos := p\<rparr>) }
           else Some (Inl (), mem, d) })"

definition ramdisk_seek :: "RamDisk \<Rightarrow> SeekFrom \<Rightarrow> ((unit + nat) \<times> RamDisk) option" where
  "ramdisk_seek d frm =
     do { r \<leftarrow> seek_within (checked_mul (size_in_blocks d) 512) (rd_pos d) frm;
          Some (case r of None \<Rightarrow> (Inl (), d) | Some p \<Rightarrow> (Inr p, d\<lparr>rd_pos := p\<rparr>)) }"

definition ramdisk_size :: "RamDisk \<Rightarrow> nat option" where
  "ramdisk_size d = checked_mul (size_in_blocks d) 512"

text \<open>The \<^verbatim>\<open>VfsFile\<close> operations of the RAM disk, AHCI and NVMe unwrap the result.\<close>

definition unwrap_result :: "(('e + 'a) \<times> 's) option \<Rightarrow> ('a \<times> 's) option" where
  "unwrap_result m = do { (r, s) \<leftarrow> m; case r of Inl _ \<Rightarrow> None | Inr x \<Rightarrow> Some (x, s) }"

definition ramdisk_vfs_read :: "(nat \<Rightarrow> u8) \<Rightarrow> RamDisk \<Rightarrow> nat \<Rightarrow> (bytes \<times> RamDisk) option" where
  "ramdisk_vfs_read mem d len = unwrap_result (ramdisk_read mem d len)"

definition ramdisk_vfs_seek :: "RamDisk \<Rightarrow> SeekFrom \<Rightarrow> (nat \<times> RamDisk) option" where
  "ramdisk_vfs_seek d frm = unwrap_result (ramdisk_seek d frm)"

section \<open>AHCI and NVMe\<close>

text \<open>
  \<open>read_block\<close> is the drive: the 512 bytes of a sector. The adapter asks for the sector under the
  cursor and returns at most the rest of it.
\<close>

record AhciBlockDevice =
  block_count :: nat
  ahci_pos :: nat

definition AHCI_BLOCK_SIZE :: nat where
  "AHCI_BLOCK_SIZE = 512"

definition ahci_read ::
  "(nat \<Rightarrow> bytes) \<Rightarrow> AhciBlockDevice \<Rightarrow> nat \<Rightarrow> ((unit + bytes) \<times> AhciBlockDevice) option" where
  "ahci_read read_block d len =
     (let sector = ahci_pos d div AHCI_BLOCK_SIZE;
          buf2 = read_block sector;
          t1 = ahci_pos d mod AHCI_BLOCK_SIZE;
          will_read = min len (AHCI_BLOCK_SIZE - t1) in
      do { bs \<leftarrow> slice buf2 t1 (t1 + will_read);
           p \<leftarrow> checked_add (ahci_pos d) will_read;
           Some (Inr bs, d\<lparr>ahci_pos := p\<rparr>) })"

definition ahci_write :: "AhciBlockDevice \<Rightarrow> bytes \<Rightarrow> ((unit + nat) \<times> AhciBlockDevice) option" where
  "ahci_write d buf = Some (Inl (), d)"

definition ahci_seek :: "AhciBlockDevice \<Rightarrow> SeekFrom \<Rightarrow> ((unit + nat) \<times> AhciBlockDevice) option" where
  "ahci_seek d frm =
     do { r \<leftarrow> seek_within (checked_mul (block_count d) AHCI_BLOCK_SIZE) (ahci_pos d) frm;
          Some (case r of None \<Rightarrow> (Inl (), d) | Some p \<Rightarrow> (Inr p, d\<lparr>ahci_pos := p\<rparr>)) }"

text \<open>
  For NVMe the block size is the namespace's, and a queue pair may be missing or fail:
  \<open>qp_read\<close> is \<^verbatim>\<open>first_entry\<close>, \<^verbatim>\<open>read\<close> and \<^verbatim>\<open>flush\<close> of the first
  queue pair, \<^term>\<open>None\<close> when one of them is an error.
\<close>

record NvmeBlockDevice =
  ns_block_count :: nat
  ns_block_size :: nat
  nvme_pos :: nat

definition nvme_read ::
  "(nat \<Rightarrow> bytes option) \<Rightarrow> NvmeBlockDevice \<Rightarrow> nat \<Rightarrow> ((unit + bytes) \<times> NvmeBlockDevice) option" where
  "nvme_read qp_read d len =
     (if ns_block_size d = 0 then None
      else if \<not> is_power_of_two (ns_block_size d) then Some (Inl (), d)
      else
        let sector = nvme_pos d div ns_block_size d in
        case qp_read sector of
          None \<Rightarrow> Some (Inl (), d)
        | Some buf2 \<Rightarrow>
            let t1 = nvme_pos d mod ns_block_size d;
                will_read = min len (ns_block_size d - t1) in
            do { bs \<leftarrow> slice buf2 t1 (t1 + will_read);
                 p \<leftarrow> checked_add (nvme_pos d) will_read;
                 Some (Inr bs, d\<lparr>nvme_pos := p\<rparr>) })"

definition nvme_seek :: "NvmeBlockDevice \<Rightarrow> SeekFrom \<Rightarrow> ((unit + nat) \<times> NvmeBlockDevice) option" where
  "nvme_seek d frm =
     do { r \<leftarrow> seek_within (checked_mul (ns_block_count d) (ns_block_size d)) (nvme_pos d) frm;
          Some (case r of None \<Rightarrow> (Inl (), d) | Some p \<Rightarrow> (Inr p, d\<lparr>nvme_pos := p\<rparr>)) }"

section \<open>Decimal numbers in names\<close>

text \<open>\<^verbatim>\<open>format!("{}")\<close> and \<^verbatim>\<open>str::parse\<close> of a \<^verbatim>\<open>usize\<close>.\<close>

fun fmt_usize :: "nat \<Rightarrow> bytes" where
  "fmt_usize n = (if n < 10 then [of_nat (48 + n)] else fmt_usize (n div 10) @ [of_nat (48 + n mod 10)])"

declare fmt_usize.simps [simp del]

fun parse_digits :: "nat \<Rightarrow> bytes \<Rightarrow> nat option" where
  "parse_digits acc [] = Some acc"
| "parse_digits acc (b # bs) =
     (if 48 \<le> b \<and> b \<le> 57 then
        let n = acc * 10 + unat (b - 48) in
        if n < USIZE_LIMIT then parse_digits n bs else None
      else None)"

definition parse_usize :: "bytes \<Rightarrow> nat option" where
  "parse_usize s =
     (let ds = (case s of [] \<Rightarrow> [] | b # bs \<Rightarrow> if b = 43 then bs else s) in
      if ds = [] then None else parse_digits 0 ds)"

section \<open>USB mass storage\<close>

definition USB_BLOCK_SIZE :: nat where
  "USB_BLOCK_SIZE = 512"

datatype UsbError = Offline | OutOfRange | InvalidBuffer | ReadFailed | ReadOnly

record usb_record =
  rec_id :: nat
  rec_blocks :: nat
  online :: bool

type_synonym usb_registry = "usb_record list"

definition usb_register :: "usb_registry \<Rightarrow> nat \<Rightarrow> usb_registry \<times> nat" where
  "usb_register devices blocks =
     (let i = (if devices = [] then 0 else Max (set (map rec_id devices)) + 1) in
      (devices @ [\<lparr>rec_id = i, rec_blocks = blocks, online = True\<rparr>], i))"

definition usb_offline :: "usb_registry \<Rightarrow> nat \<Rightarrow> usb_registry" where
  "usb_offline devices i =
     (case position (\<lambda>d. rec_id d = i) devices of
        None \<Rightarrow> devices
      | Some k \<Rightarrow> devices[k := (devices ! k)\<lparr>online := False\<rparr>])"

definition online_devices :: "usb_registry \<Rightarrow> (nat \<times> nat) list" where
  "online_devices devices = map (\<lambda>d. (rec_id d, rec_blocks d)) (filter online devices)"

definition usb_lookup :: "usb_registry \<Rightarrow> nat \<Rightarrow> usb_record option" where
  "usb_lookup devices i = List.find (\<lambda>d. rec_id d = i) devices"

record UsbBlockDevice =
  dev_id :: nat
  dev_blocks :: nat
  usb_pos :: nat

definition usb_open :: "usb_registry \<Rightarrow> nat \<Rightarrow> UsbBlockDevice option" where
  "usb_open devices i =
     do { d \<leftarrow> usb_lookup devices i;
          if online d then Some \<lparr>dev_id = i, dev_blocks = rec_blocks d, usb_pos = 0\<rparr> else None }"

definition is_online :: "usb_registry \<Rightarrow> UsbBlockDevice \<Rightarrow> bool" where
  "is_online devices d = (case usb_lookup devices (dev_id d) of None \<Rightarrow> False | Some r \<Rightarrow> online r)"

definition capacity_bytes :: "UsbBlockDevice \<Rightarrow> nat" where
  "capacity_bytes d = saturating_mul (dev_blocks d) USB_BLOCK_SIZE"

text \<open>
  \<open>read_usb_blocks\<close> is the controller's service, an argument here: it reads one sector of a device and
  may change the registry, as it does when the device is removed during the transfer.
\<close>

type_synonym 'c usb_service = "usb_registry \<times> 'c \<Rightarrow> nat \<Rightarrow> nat \<Rightarrow> (usb_registry \<times> 'c) \<times> bytes option"

function read_bytes_loop ::
  "'c usb_service \<Rightarrow> usb_registry \<times> 'c \<Rightarrow> UsbBlockDevice \<Rightarrow> nat \<Rightarrow> bytes \<Rightarrow>
    ((usb_registry \<times> 'c) \<times> (UsbError + bytes)) option" where
  "read_bytes_loop read_usb_blocks w d len output =
     (if length output < len then
        if \<not> is_online (fst w) d then Some (w, Inl Offline)
        else
          do { offset \<leftarrow> checked_add (usb_pos d) (length output);
               let lba = offset div USB_BLOCK_SIZE;
               let within = offset mod USB_BLOCK_SIZE;
               let take = min (USB_BLOCK_SIZE - within) (len - length output);
               case read_usb_blocks w (dev_id d) lba of
                 (w', None) \<Rightarrow> Some (w', Inl (if is_online (fst w') d then ReadFailed else Offline))
               | (w', Some sector) \<Rightarrow>
                   do { bs \<leftarrow> slice sector within (within + take);
                        read_bytes_loop read_usb_blocks w' d len (output @ bs) } }
      else Some (w, Inr output))"
  by pat_completeness auto
termination
proof (relation "measure (\<lambda>(r, w, d, len, output). len - length output)", goal_cases)
  case 1
  then show ?case by simp
next
  case (2 rd w d len out offset lba within tk w' so sector bs)
  have "within < USB_BLOCK_SIZE" using 2 by (simp add: USB_BLOCK_SIZE_def)
  then have "0 < length bs" using 2 by (auto simp: slice_def split: if_splits)
  then show ?case using 2(1) by (simp add: diff_less_mono2 del: length_greater_0_conv)
qed

definition read_bytes ::
  "'c usb_service \<Rightarrow> usb_registry \<times> 'c \<Rightarrow> UsbBlockDevice \<Rightarrow> nat \<Rightarrow>
    ((usb_registry \<times> 'c) \<times> (UsbError + bytes) \<times> UsbBlockDevice) option" where
  "read_bytes read_usb_blocks w d len =
     (if \<not> is_online (fst w) d then Some (w, Inl Offline, d)
      else
        case checked_add (usb_pos d) len of
          None \<Rightarrow> Some (w, Inl OutOfRange, d)
        | Some e \<Rightarrow>
            if e > capacity_bytes d then Some (w, Inl OutOfRange, d)
            else
              do { (w', r) \<leftarrow> read_bytes_loop read_usb_blocks w d len [];
                   Some (case r of
                           Inl err \<Rightarrow> (w', Inl err, d)
                         | Inr bs \<Rightarrow> (w', Inr bs, d\<lparr>usb_pos := e\<rparr>)) })"

definition usb_write :: "bytes \<Rightarrow> UsbError + nat" where
  "usb_write buf = Inl ReadOnly"

definition usb_flush :: "usb_registry \<Rightarrow> UsbBlockDevice \<Rightarrow> UsbError + unit" where
  "usb_flush devices d = (if is_online devices d then Inr () else Inl Offline)"

definition usb_seek :: "usb_registry \<Rightarrow> UsbBlockDevice \<Rightarrow> SeekFrom \<Rightarrow> (UsbError + nat) \<times> UsbBlockDevice" where
  "usb_seek devices d frm =
     (if \<not> is_online devices d then (Inl Offline, d)
      else
        let sz = as_i64 (capacity_bytes d);
            next = (case frm of
                      Start v \<Rightarrow> as_i64 v
                    | End v \<Rightarrow> saturating_add_i64 sz v
                    | Current v \<Rightarrow> saturating_add_i64 (as_i64 (usb_pos d)) v) in
        if \<not> (0 \<le> next \<and> next \<le> sz) then (Inl OutOfRange, d)
        else (Inr (nat next), d\<lparr>usb_pos := nat next\<rparr>))"

definition num_blocks :: "usb_registry \<Rightarrow> UsbBlockDevice \<Rightarrow> UsbError + nat" where
  "num_blocks devices d = (if is_online devices d then Inr (dev_blocks d) else Inl Offline)"

definition read_blocks ::
  "'c usb_service \<Rightarrow> usb_registry \<times> 'c \<Rightarrow> UsbBlockDevice \<Rightarrow> nat \<Rightarrow> nat \<Rightarrow>
    ((usb_registry \<times> 'c) \<times> (UsbError + bytes) \<times> UsbBlockDevice) option" where
  "read_blocks read_usb_blocks w d start_lba len =
     (if \<not> is_multiple_of len USB_BLOCK_SIZE then Some (w, Inl InvalidBuffer, d)
      else
        case checked_mul start_lba USB_BLOCK_SIZE of
          None \<Rightarrow> Some (w, Inl OutOfRange, d)
        | Some start \<Rightarrow>
            (case checked_add start len of
               None \<Rightarrow> Some (w, Inl OutOfRange, d)
             | Some e \<Rightarrow>
                 if e > saturating_mul (dev_blocks d) USB_BLOCK_SIZE then Some (w, Inl OutOfRange, d)
                 else read_bytes read_usb_blocks w (d\<lparr>usb_pos := start\<rparr>) len))"

definition usb_vfs_seek :: "usb_registry \<Rightarrow> UsbBlockDevice \<Rightarrow> SeekFrom \<Rightarrow> nat \<times> UsbBlockDevice" where
  "usb_vfs_seek devices d frm =
     (case usb_seek devices d frm of (Inl _, d') \<Rightarrow> (0, d') | (Inr p, d') \<Rightarrow> (p, d'))"

definition usb_vfs_read ::
  "'c usb_service \<Rightarrow> usb_registry \<times> 'c \<Rightarrow> UsbBlockDevice \<Rightarrow> nat \<Rightarrow>
    ((usb_registry \<times> 'c) \<times> bytes \<times> UsbBlockDevice) option" where
  "usb_vfs_read read_usb_blocks w d len =
     do { (w', r, d') \<leftarrow> read_bytes read_usb_blocks w d len;
          Some (w', case r of Inl _ \<Rightarrow> [] | Inr bs \<Rightarrow> bs, d') }"

definition usb_name :: "nat \<Rightarrow> bytes" where
  "usb_name i = [117, 115, 98] @ fmt_usize i"

definition usb_open_path :: "usb_registry \<Rightarrow> bytes \<Rightarrow> UsbBlockDevice option" where
  "usb_open_path devices path =
     do { s \<leftarrow> strip_prefix path [47, 117, 115, 98]; i \<leftarrow> parse_usize s; usb_open devices i }"

section \<open>Whole buffers\<close>

text \<open>The loops \<^verbatim>\<open>read_exact\<close> and \<^verbatim>\<open>write_all\<close> of the trait \<^verbatim>\<open>VfsFile\<close>.\<close>

function read_exact :: "('d \<Rightarrow> nat \<Rightarrow> (bytes \<times> 'd) option) \<Rightarrow> 'd \<Rightarrow> nat \<Rightarrow> (bytes \<times> 'd) option" where
  "read_exact rd d len =
     (if len = 0 then Some ([], d)
      else
        do { (bs, d') \<leftarrow> rd d len;
             if bs = [] then Some ([], d')
             else if length bs > len then None
             else do { (rest, d'') \<leftarrow> read_exact rd d' (len - length bs); Some (bs @ rest, d'') } })"
  by pat_completeness auto
termination
  by (relation "measure (\<lambda>(rd, d, len). len)") auto

function write_all :: "('d \<Rightarrow> bytes \<Rightarrow> (nat \<times> 'd) option) \<Rightarrow> 'd \<Rightarrow> bytes \<Rightarrow> 'd option" where
  "write_all wr d buf =
     (if buf = [] then Some d
      else
        do { (n, d') \<leftarrow> wr d buf;
             if n = 0 then Some d'
             else if n > length buf then None
             else write_all wr d' (drop n buf) })"
  by pat_completeness auto
termination
  by (relation "measure (\<lambda>(wr, d, buf). length buf)") auto

declare read_exact.simps [simp del] write_all.simps [simp del]

section \<open>Partitions\<close>

datatype PartitionError = InvalidGpt | PartitionNotFound | UnsupportedBlockSize | OffsetOverflow | SeekFailed

datatype 'e FatError = Io 'e | InvalidInput

record 'd partition =
  block_device :: 'd
  p_start :: nat
  p_end :: nat
  p_position :: nat

record ('d, 'e) device_ops =
  dv_read :: "'d \<Rightarrow> nat \<Rightarrow> (('e + bytes) \<times> 'd) option"
  dv_write :: "'d \<Rightarrow> bytes \<Rightarrow> (('e + nat) \<times> 'd) option"
  dv_seek :: "'d \<Rightarrow> SeekFrom \<Rightarrow> (('e + nat) \<times> 'd) option"

text \<open>
  \<open>block_size\<close> is the device's block size when it fits a \<^verbatim>\<open>usize\<close>; \<open>gpt_entry\<close> is what
  the crate \<^verbatim>\<open>gpt_disk_io\<close> finds on the device: the first and the last block of the entry, or the
  error the source maps its failure to.
\<close>

definition partition_new ::
  "('d, 'e) device_ops \<Rightarrow> nat option \<Rightarrow> ('d \<Rightarrow> nat \<Rightarrow> PartitionError + (nat \<times> nat)) \<Rightarrow> 'd \<Rightarrow> nat \<Rightarrow>
    (PartitionError + 'd partition) option" where
  "partition_new ops block_size gpt_entry d part_number =
     (case block_size of
        None \<Rightarrow> Some (Inl UnsupportedBlockSize)
      | Some bsz \<Rightarrow>
          (case gpt_entry d part_number of
             Inl e \<Rightarrow> Some (Inl e)
           | Inr (starting_lba, ending_lba) \<Rightarrow>
               (case checked_mul starting_lba bsz of
                  None \<Rightarrow> Some (Inl OffsetOverflow)
                | Some start \<Rightarrow>
                    (case Option.bind (checked_add ending_lba 1) (\<lambda>lba. checked_mul lba bsz) of
                       None \<Rightarrow> Some (Inl OffsetOverflow)
                     | Some e \<Rightarrow>
                         do { (r, d') \<leftarrow> dv_seek ops d (Start start);
                              case r of
                                Inl _ \<Rightarrow> Some (Inl SeekFailed)
                              | Inr _ \<Rightarrow> Some (Inr \<lparr>block_device = d', p_start = start, p_end = e, p_position = 0\<rparr>) }))))"

definition partition_read ::
  "('d, 'e) device_ops \<Rightarrow> 'd partition \<Rightarrow> nat \<Rightarrow> (('e FatError + bytes) \<times> 'd partition) option" where
  "partition_read ops p len =
     (let remaining = p_end p - saturating_add (p_start p) (p_position p);
          read_len = min len (min remaining (USIZE_LIMIT - 1)) in
      do { (r, d') \<leftarrow> dv_read ops (block_device p) read_len;
           Some (case r of
                   Inl e \<Rightarrow> (Inl (Io e), p\<lparr>block_device := d'\<rparr>)
                 | Inr bs \<Rightarrow> (Inr bs, p\<lparr>block_device := d',
                                       p_position := saturating_add (p_position p) (length bs)\<rparr>)) })"

definition partition_write ::
  "('d, 'e) device_ops \<Rightarrow> 'd partition \<Rightarrow> bytes \<Rightarrow> (('e FatError + nat) \<times> 'd partition) option" where
  "partition_write ops p buf =
     do { (r, d') \<leftarrow> dv_write ops (block_device p) buf;
          Some (case r of Inl e \<Rightarrow> Inl (Io e) | Inr n \<Rightarrow> Inr n, p\<lparr>block_device := d'\<rparr>) }"

definition partition_seek ::
  "('d, 'e) device_ops \<Rightarrow> 'd partition \<Rightarrow> SeekFrom \<Rightarrow> (('e FatError + nat) \<times> 'd partition) option" where
  "partition_seek ops p pos =
     do { len \<leftarrow> checked_sub (p_end p) (p_start p);
          let next = (case pos of
                        Start off \<Rightarrow> int off
                      | End off \<Rightarrow> int len + off
                      | Current off \<Rightarrow> int (p_position p) + off);
          if next < 0 \<or> next > int len then Some (Inl InvalidInput, p)
          else
            case checked_add (p_start p) (nat next) of
              None \<Rightarrow> Some (Inl InvalidInput, p)
            | Some absolute \<Rightarrow>
                do { (r, d') \<leftarrow> dv_seek ops (block_device p) (Start absolute);
                     Some (case r of
                             Inl e \<Rightarrow> (Inl (Io e), p\<lparr>block_device := d'\<rparr>)
                           | Inr _ \<Rightarrow> (Inr (nat next), p\<lparr>block_device := d', p_position := nat next\<rparr>)) } }"

section \<open>The contract of a byte-addressed device\<close>

text \<open>
  The bytes of a partition, and a partition whose bounds are in order and whose device has its cursor
  where the partition thinks it is.
\<close>

definition part_medium :: "('d \<Rightarrow> nat \<Rightarrow> u8) \<Rightarrow> 'd partition \<Rightarrow> bytes" where
  "part_medium medium p = map (medium (block_device p)) [p_start p..<p_end p]"

definition part_ok :: "('d \<Rightarrow> bool) \<Rightarrow> ('d \<Rightarrow> nat) \<Rightarrow> 'd partition \<Rightarrow> bool" where
  "part_ok invar cursor p \<longleftrightarrow> invar (block_device p) \<and> p_start p \<le> p_end p \<and> p_end p < USIZE_LIMIT \<and>
     p_position p \<le> p_end p - p_start p \<and> cursor (block_device p) = p_start p + p_position p"

locale byte_device =
  fixes invar :: "'d \<Rightarrow> bool"
    and medium :: "'d \<Rightarrow> nat \<Rightarrow> u8"
    and cursor :: "'d \<Rightarrow> nat"
    and ops :: "('d, 'e) device_ops"
  assumes read_ok: "\<lbrakk>invar d; dv_read ops d n = Some (Inr bs, d')\<rbrakk> \<Longrightarrow>
      invar d' \<and> medium d' = medium d \<and> cursor d' = cursor d + length bs \<and> length bs \<le> n \<and>
      bs = map (medium d) [cursor d..<cursor d + length bs]"
    and read_err: "\<lbrakk>invar d; dv_read ops d n = Some (Inl e, d')\<rbrakk> \<Longrightarrow>
      invar d' \<and> medium d' = medium d \<and> cursor d' = cursor d"
    and seek_ok: "\<lbrakk>invar d; a < USIZE_LIMIT; dv_seek ops d (Start a) = Some (Inr x, d')\<rbrakk> \<Longrightarrow>
      invar d' \<and> medium d' = medium d \<and> cursor d' = a"
    and seek_err: "\<lbrakk>invar d; a < USIZE_LIMIT; dv_seek ops d (Start a) = Some (Inl e, d')\<rbrakk> \<Longrightarrow>
      invar d' \<and> medium d' = medium d \<and> cursor d' = cursor d"
begin

lemma part_read:
  assumes "part_ok invar cursor p" and "partition_read ops p n = Some (r, p')"
  shows "part_ok invar cursor p' \<and> part_medium medium p' = part_medium medium p \<and>
    (case r of Inl _ \<Rightarrow> p_position p' = p_position p
     | Inr bs \<Rightarrow> length bs \<le> n \<and> p_position p' = p_position p + length bs \<and>
         bs = take (length bs) (drop (p_position p) (part_medium medium p)))"
proof -
  let ?d = "block_device p" and ?l = "min n (p_end p - (p_start p + p_position p))"
  have ok: "invar ?d" "cursor ?d = p_start p + p_position p" "p_start p + p_position p \<le> p_end p" "p_end p < USIZE_LIMIT"
    using assms(1) by (auto simp: part_ok_def)
  have sat: "saturating_add (p_start p) (p_position p) = p_start p + p_position p"
    using ok by (simp add: saturating_add_def)
  have len: "min n (min (p_end p - (p_start p + p_position p)) (USIZE_LIMIT - 1)) = ?l" using ok by simp
  obtain q d' where q: "dv_read ops ?d ?l = Some (q, d')"
    and r: "(r, p') = (case q of
                   Inl e \<Rightarrow> (Inl (Io e), p\<lparr>block_device := d'\<rparr>)
                 | Inr bs \<Rightarrow> (Inr bs, p\<lparr>block_device := d',
                                       p_position := saturating_add (p_position p) (length bs)\<rparr>))"
    using assms(2) unfolding partition_read_def Let_def sat len by (auto split: bind_splits)
  show ?thesis
  proof (cases q)
    case (Inl e)
    then show ?thesis using r read_err [OF ok(1)] q assms(1) by (auto simp: part_ok_def part_medium_def)
  next
    case (Inr bs)
    note f = read_ok [OF ok(1) q [unfolded Inr]]
    have p': "r = Inr bs" "p' = p\<lparr>block_device := d', p_position := p_position p + length bs\<rparr>"
      using r Inr f ok by (auto simp: saturating_add_def)
    have fit: "p_start p + p_position p + length bs \<le> p_end p" using f ok by auto
    have "drop (p_position p) (part_medium medium p) = map (medium ?d) [p_start p + p_position p..<p_end p]"
      by (simp add: part_medium_def drop_map add.commute)
    then have "take (length bs) (drop (p_position p) (part_medium medium p)) =
        map (medium ?d) [p_start p + p_position p..<p_start p + p_position p + length bs]"
      using fit by (simp add: take_map)
    then show ?thesis using f ok fit by (auto simp: p' part_ok_def part_medium_def)
  qed
qed

lemma part_seek:
  assumes "part_ok invar cursor p" and "partition_seek ops p frm = Some (r, p')"
  shows "part_ok invar cursor p' \<and> part_medium medium p' = part_medium medium p \<and>
    (case r of Inl _ \<Rightarrow> p_position p' = p_position p
     | Inr x \<Rightarrow> p_position p' = x \<and> x \<le> length (part_medium medium p))"
proof -
  let ?d = "block_device p"
  have ok: "invar ?d" "p_start p \<le> p_end p" "p_end p < USIZE_LIMIT" using assms(1) by (auto simp: part_ok_def)
  define target where "target = (case frm of Start off \<Rightarrow> int off | End off \<Rightarrow> int (p_end p - p_start p) + off
     | Current off \<Rightarrow> int (p_position p) + off)"
  have "checked_sub (p_end p) (p_start p) = Some (p_end p - p_start p)" using ok by (simp add: checked_sub_def)
  note seek = partition_seek_def [of ops p frm, unfolded this Option.bind.bind_lunit Let_def, folded target_def]
  show ?thesis
  proof (cases "target < 0 \<or> target > int (p_end p - p_start p)")
    case True
    then have "r = Inl InvalidInput \<and> p' = p"
      using assms(2) unfolding seek by simp
    then show ?thesis using assms(1) by simp
  next
    case False
    then have n: "nat target \<le> p_end p - p_start p" and lim: "p_start p + nat target < USIZE_LIMIT" using ok by auto
    obtain q d' where q: "dv_seek ops ?d (Start (p_start p + nat target)) = Some (q, d')"
      and r: "(r, p') = (case q of Inl e \<Rightarrow> (Inl (Io e), p\<lparr>block_device := d'\<rparr>)
         | Inr _ \<Rightarrow> (Inr (nat target), p\<lparr>block_device := d', p_position := nat target\<rparr>))"
      using assms(2) False lim unfolding seek by (auto simp: checked_add_def split: bind_splits)
    show ?thesis
      using r seek_ok [OF ok(1) lim] seek_err [OF ok(1) lim] q n assms(1)
      by (cases q) (auto simp: part_ok_def part_medium_def)
  qed
qed

end

section \<open>The devices meet the contract\<close>

lemma as_i64_nonneg: "a < USIZE_LIMIT \<Longrightarrow> 0 \<le> as_i64 a \<Longrightarrow> nat (as_i64 a) = a"
  by (auto simp: as_i64_def split: if_splits)

lemma seek_within_Start:
  "seek_within len pos (Start a) = Some (Some x) \<Longrightarrow> a < 18446744073709551616 \<Longrightarrow> x = a"
  by (auto simp: seek_within_def seek_target_def as_i64_nonneg split: bind_splits if_splits)

lemma slice_sector:
  assumes "length sector = bsz" and "slice sector (c mod bsz) (c mod bsz + k) = Some bs" and "0 < bsz"
  shows "length bs = k" and "bs = map (\<lambda>i. if i div bsz = c div bsz then sector ! (i mod bsz) else f i) [c..<c + k]"
proof -
  have fit: "c mod bsz + k \<le> bsz" and bs: "bs = take k (drop (c mod bsz) sector)"
    using assms by (auto simp: slice_def split: if_splits)
  then show len: "length bs = k" using assms(1) by simp
  have "(c + i) div bsz = c div bsz \<and> (c + i) mod bsz = c mod bsz + i" if "i < k" for i
  proof -
    have "c + i = c div bsz * bsz + (c mod bsz + i)" using div_mult_mod_eq [of c bsz] by linarith
    moreover have "c mod bsz + i < bsz" using fit that by simp
    ultimately show ?thesis by (metis add.commute div_mult_self1_is_m div_mult_self4 div_eq_0_iff add_0 mod_mult_self3
        mod_less add_cancel_left_right assms(3) div_less div_mult_self3 less_nat_zero_code)
  qed
  then show "bs = map (\<lambda>i. if i div bsz = c div bsz then sector ! (i mod bsz) else f i) [c..<c + k]"
    using len bs fit assms(1) by (intro nth_equalityI) (auto simp: nth_append)
qed

lemma slice_medium:
  assumes "slice (S (c div bsz)) (c mod bsz) (c mod bsz + k) = Some bs" and "length (S (c div bsz)) = bsz" and "0 < bsz"
  shows "length bs = k" and "bs = map (\<lambda>i. S (i div bsz) ! (i mod bsz)) [c..<c + k]"
proof -
  show "length bs = k" by (rule slice_sector(1) [OF assms(2,1,3)])
  have "(\<lambda>i. if i div bsz = c div bsz then S (c div bsz) ! (i mod bsz) else S (i div bsz) ! (i mod bsz)) =
      (\<lambda>i. S (i div bsz) ! (i mod bsz))" by auto
  then show "bs = map (\<lambda>i. S (i div bsz) ! (i mod bsz)) [c..<c + k]"
    using slice_sector(2) [OF assms(2,1,3), of "\<lambda>i. S (i div bsz) ! (i mod bsz)"] by simp
qed

definition ramdisk_ops :: "((nat \<Rightarrow> u8) \<times> RamDisk, unit) device_ops" where
  "ramdisk_ops =
     \<lparr>dv_read = (\<lambda>(mem, d) n. do { (r, d') \<leftarrow> ramdisk_read mem d n; Some (r, mem, d') }),
      dv_write = (\<lambda>(mem, d) buf. ramdisk_write mem d buf),
      dv_seek = (\<lambda>(mem, d) frm. do { (r, d') \<leftarrow> ramdisk_seek d frm; Some (r, mem, d') })\<rparr>"

definition ahci_ops :: "(nat \<Rightarrow> bytes) \<Rightarrow> (AhciBlockDevice, unit) device_ops" where
  "ahci_ops read_block = \<lparr>dv_read = ahci_read read_block, dv_write = ahci_write, dv_seek = ahci_seek\<rparr>"

definition nvme_write :: "NvmeBlockDevice \<Rightarrow> bytes \<Rightarrow> ((unit + nat) \<times> NvmeBlockDevice) option" where
  "nvme_write d buf = Some (Inl (), d)"

definition nvme_ops :: "(nat \<Rightarrow> bytes option) \<Rightarrow> (NvmeBlockDevice, unit) device_ops" where
  "nvme_ops qp_read = \<lparr>dv_read = nvme_read qp_read, dv_write = nvme_write, dv_seek = nvme_seek\<rparr>"

definition usb_ops ::
  "'c usb_service \<Rightarrow> ((usb_registry \<times> 'c) \<times> UsbBlockDevice, UsbError) device_ops" where
  "usb_ops svc =
     \<lparr>dv_read = (\<lambda>(w, d) n. do { (w', r, d') \<leftarrow> read_bytes svc w d n; Some (r, w', d') }),
      dv_write = (\<lambda>wd buf. Some (usb_write buf, wd)),
      dv_seek = (\<lambda>(w, d) frm. case usb_seek (fst w) d frm of (r, d') \<Rightarrow> Some (r, w, d'))\<rparr>"

interpretation ram: byte_device "\<lambda>_. True" "\<lambda>(mem, d) i. mem (ptr d + i)" "\<lambda>(mem, d). rd_pos d" ramdisk_ops
proof
  fix x :: "(nat \<Rightarrow> u8) \<times> RamDisk" and n bs d'
  assume "dv_read ramdisk_ops x n = Some (Inr bs, d')"
  then show "True \<and> (case d' of (mem, d) \<Rightarrow> \<lambda>i. mem (ptr d + i)) = (case x of (mem, d) \<Rightarrow> \<lambda>i. mem (ptr d + i)) \<and>
      (case d' of (mem, d) \<Rightarrow> rd_pos d) = (case x of (mem, d) \<Rightarrow> rd_pos d) + length bs \<and> length bs \<le> n \<and>
      bs = map (case x of (mem, d) \<Rightarrow> \<lambda>i. mem (ptr d + i))
        [case x of (mem, d) \<Rightarrow> rd_pos d..<(case x of (mem, d) \<Rightarrow> rd_pos d) + length bs]"
    by (auto simp: ramdisk_ops_def ramdisk_read_def mem_bytes_def Let_def split: prod.splits bind_splits if_splits
        intro!: nth_equalityI simp: add.assoc)
qed (auto simp: ramdisk_ops_def ramdisk_read_def ramdisk_seek_def Let_def dest!: seek_within_Start
    split: prod.splits bind_splits if_splits option.splits)

interpretation ahci: byte_device "\<lambda>_. \<forall>s. length (read_block s) = AHCI_BLOCK_SIZE"
    "\<lambda>_ i. read_block (i div AHCI_BLOCK_SIZE) ! (i mod AHCI_BLOCK_SIZE)" ahci_pos "ahci_ops read_block"
proof
  fix d n bs d'
  assume l: "\<forall>s. length (read_block s) = AHCI_BLOCK_SIZE" and r: "dv_read (ahci_ops read_block) d n = Some (Inr bs, d')"
  let ?k = "min n (AHCI_BLOCK_SIZE - ahci_pos d mod AHCI_BLOCK_SIZE)"
  have s: "slice (read_block (ahci_pos d div AHCI_BLOCK_SIZE)) (ahci_pos d mod AHCI_BLOCK_SIZE)
      (ahci_pos d mod AHCI_BLOCK_SIZE + ?k) = Some bs" and d': "d' = d\<lparr>ahci_pos := ahci_pos d + ?k\<rparr>"
    using r by (auto simp: ahci_ops_def ahci_read_def Let_def checked_add_def split: bind_splits if_splits)
  have "0 < AHCI_BLOCK_SIZE" by (simp add: AHCI_BLOCK_SIZE_def)
  from slice_medium [of read_block "ahci_pos d" AHCI_BLOCK_SIZE, OF s _ this] l d'
  show "(\<forall>s. length (read_block s) = AHCI_BLOCK_SIZE) \<and>
      (\<lambda>i. read_block (i div AHCI_BLOCK_SIZE) ! (i mod AHCI_BLOCK_SIZE)) =
      (\<lambda>i. read_block (i div AHCI_BLOCK_SIZE) ! (i mod AHCI_BLOCK_SIZE)) \<and>
      ahci_pos d' = ahci_pos d + length bs \<and> length bs \<le> n \<and>
      bs = map (\<lambda>i. read_block (i div AHCI_BLOCK_SIZE) ! (i mod AHCI_BLOCK_SIZE)) [ahci_pos d..<ahci_pos d + length bs]"
    by auto
qed (auto simp: ahci_ops_def ahci_read_def ahci_seek_def Let_def dest!: seek_within_Start
    split: bind_splits if_splits option.splits)

lemma nvme_read_sector:
  assumes "dv_read (nvme_ops qp_read) d n = Some (Inr bs, d')"
  shows "\<exists>sector. qp_read (nvme_pos d div ns_block_size d) = Some sector \<and> 0 < ns_block_size d \<and>
    d' = d\<lparr>nvme_pos := nvme_pos d + min n (ns_block_size d - nvme_pos d mod ns_block_size d)\<rparr> \<and>
    slice sector (nvme_pos d mod ns_block_size d)
      (nvme_pos d mod ns_block_size d + min n (ns_block_size d - nvme_pos d mod ns_block_size d)) = Some bs"
  using assms
  by (auto simp: nvme_ops_def nvme_read_def Let_def checked_add_def split: bind_splits if_splits option.splits)

interpretation nvme: byte_device "\<lambda>d. \<forall>s b. qp_read s = Some b \<longrightarrow> length b = ns_block_size d"
    "\<lambda>d i. the (qp_read (i div ns_block_size d)) ! (i mod ns_block_size d)" nvme_pos "nvme_ops qp_read"
proof
  fix d n bs d'
  assume l: "\<forall>s b. qp_read s = Some b \<longrightarrow> length b = ns_block_size d"
    and r: "dv_read (nvme_ops qp_read) d n = Some (Inr bs, d')"
  from nvme_read_sector [OF r] obtain sector where
    q: "qp_read (nvme_pos d div ns_block_size d) = Some sector" "0 < ns_block_size d"
    and d': "d' = d\<lparr>nvme_pos := nvme_pos d + min n (ns_block_size d - nvme_pos d mod ns_block_size d)\<rparr>"
    and s: "slice sector (nvme_pos d mod ns_block_size d)
      (nvme_pos d mod ns_block_size d + min n (ns_block_size d - nvme_pos d mod ns_block_size d)) = Some bs"
    by blast
  from slice_medium [of "the \<circ> qp_read" "nvme_pos d" "ns_block_size d"] q s l
  show "(\<forall>s b. qp_read s = Some b \<longrightarrow> length b = ns_block_size d') \<and>
      (\<lambda>i. the (qp_read (i div ns_block_size d')) ! (i mod ns_block_size d')) =
      (\<lambda>i. the (qp_read (i div ns_block_size d)) ! (i mod ns_block_size d)) \<and>
      nvme_pos d' = nvme_pos d + length bs \<and> length bs \<le> n \<and>
      bs = map (\<lambda>i. the (qp_read (i div ns_block_size d)) ! (i mod ns_block_size d)) [nvme_pos d..<nvme_pos d + length bs]"
    by (auto simp: d')
qed (auto simp: nvme_ops_def nvme_read_def nvme_seek_def Let_def dest!: seek_within_Start
    split: bind_splits if_splits option.splits)

text \<open>
  What the USB adapter relies on in \<^verbatim>\<open>read_usb_blocks\<close>: a sector it delivers is the sector of the
  disk behind the device.
\<close>

definition serves :: "(nat \<Rightarrow> nat \<Rightarrow> u8) \<Rightarrow> 'c usb_service \<Rightarrow> bool" where
  "serves disk svc \<longleftrightarrow> (\<forall>w i lba w' sector. svc w i lba = (w', Some sector) \<longrightarrow>
     sector = map (disk i) [lba * USB_BLOCK_SIZE..<lba * USB_BLOCK_SIZE + USB_BLOCK_SIZE])"

declare read_bytes_loop.simps [simp del]

lemma servesD:
  "\<lbrakk>serves disk svc; svc w i lba = (w', Some sector)\<rbrakk> \<Longrightarrow>
   sector = map (disk i) [lba * USB_BLOCK_SIZE..<lba * USB_BLOCK_SIZE + USB_BLOCK_SIZE]"
  unfolding serves_def by blast

lemma sector_part:
  assumes "k \<le> USB_BLOCK_SIZE - off mod USB_BLOCK_SIZE"
  shows "slice (map f [off div USB_BLOCK_SIZE * USB_BLOCK_SIZE..<off div USB_BLOCK_SIZE * USB_BLOCK_SIZE + USB_BLOCK_SIZE])
    (off mod USB_BLOCK_SIZE) (off mod USB_BLOCK_SIZE + k) = Some (map f [off..<off + k])"
proof -
  have "off mod USB_BLOCK_SIZE < USB_BLOCK_SIZE" by (simp add: USB_BLOCK_SIZE_def)
  moreover have "off div USB_BLOCK_SIZE * USB_BLOCK_SIZE + off mod USB_BLOCK_SIZE = off" by simp
  moreover have "off + k \<le> off div USB_BLOCK_SIZE * USB_BLOCK_SIZE + USB_BLOCK_SIZE"
    using assms calculation by linarith
  ultimately show ?thesis using assms by (simp add: slice_def drop_map take_map)
qed

lemma read_bytes_loop_cases:
  assumes "serves disk svc" and "usb_pos d + len < USIZE_LIMIT"
    and "length out \<le> len" and "out = map (disk (dev_id d)) [usb_pos d..<usb_pos d + length out]"
  shows "\<exists>w'. read_bytes_loop svc w d len out = Some (w', Inr (map (disk (dev_id d)) [usb_pos d..<usb_pos d + len])) \<or>
    (\<exists>e \<in> {Offline, ReadFailed}. read_bytes_loop svc w d len out = Some (w', Inl e))"
  using assms
proof (induction svc w d len out rule: read_bytes_loop.induct)
  case (1 svc w d len out)
  show ?case
  proof (cases "length out < len \<and> is_online (fst w) d")
    case False
    then show ?thesis using 1(4,5) by (subst (1 2) read_bytes_loop.simps) auto
  next
    case True
    let ?off = "usb_pos d + length out"
    let ?take = "min (USB_BLOCK_SIZE - ?off mod USB_BLOCK_SIZE) (len - length out)"
    obtain w' so where s: "svc w (dev_id d) (?off div USB_BLOCK_SIZE) = (w', so)" by fastforce
    have off: "checked_add (usb_pos d) (length out) = Some ?off" using True 1(3) by (simp add: checked_add_def)
    show ?thesis
    proof (cases so)
      case None
      then show ?thesis using True off s by (subst (1 2) read_bytes_loop.simps) (simp add: Let_def)
    next
      case (Some sector)
      let ?bs = "map (disk (dev_id d)) [?off..<?off + ?take]"
      have sl: "slice sector (?off mod USB_BLOCK_SIZE) (?off mod USB_BLOCK_SIZE + ?take) = Some ?bs"
        unfolding servesD [OF 1(2) s [unfolded Some]] by (rule sector_part) simp
      have st: "read_bytes_loop svc w d len out = read_bytes_loop svc w' d len (out @ ?bs)"
        using True off s Some sl by (subst read_bytes_loop.simps) (simp add: Let_def)
      have outs: "out @ ?bs = map (disk (dev_id d)) [usb_pos d..<usb_pos d + length (out @ ?bs)]"
      proof -
        have "[usb_pos d..<?off + ?take] = [usb_pos d..<?off] @ [?off..<?off + ?take]"
          by (rule upt_add_eq_append) simp
        then have "map (disk (dev_id d)) [usb_pos d..<?off + ?take] = out @ ?bs"
          unfolding 1(5) [symmetric] by (simp only: map_append 1(5) [symmetric])
        moreover have "usb_pos d + length (out @ ?bs) = ?off + ?take" by simp
        ultimately show ?thesis by (simp only:)
      qed
      have "length (out @ ?bs) \<le> len" using True by (simp, linarith)
      from 1(1) [OF _ _ off refl refl refl s [symmetric] Some sl 1(2,3) this outs] True
      show ?thesis unfolding st by simp
    qed
  qed
qed

lemma read_bytes_cases:
  assumes "serves disk svc"
  shows "\<exists>w'. read_bytes svc w d n =
      Some (w', Inr (map (disk (dev_id d)) [usb_pos d..<usb_pos d + n]), d\<lparr>usb_pos := usb_pos d + n\<rparr>) \<and>
      is_online (fst w) d \<and> usb_pos d + n \<le> capacity_bytes d \<or>
    (\<exists>e. read_bytes svc w d n = Some (w', Inl e, d) \<and> e \<noteq> ReadOnly \<and> e \<noteq> InvalidBuffer)"
proof (cases "is_online (fst w) d \<and> usb_pos d + n < USIZE_LIMIT \<and> usb_pos d + n \<le> capacity_bytes d")
  case True
  then show ?thesis using read_bytes_loop_cases [OF assms, of d n "[]" w]
    by (auto simp: read_bytes_def checked_add_def)
next
  case False
  then show ?thesis by (auto simp: read_bytes_def checked_add_def)
qed

interpretation usb: byte_device "\<lambda>_. serves disk svc" "\<lambda>(w, d). disk (dev_id d)" "\<lambda>(w, d). usb_pos d" "usb_ops svc"
proof
  fix x n bs x'
  assume s: "serves disk svc" and r: "dv_read (usb_ops svc) x n = Some (Inr bs, x')"
  obtain w d where x: "x = (w, d)" by fastforce
  show "serves disk svc \<and> (case x' of (w, d) \<Rightarrow> disk (dev_id d)) = (case x of (w, d) \<Rightarrow> disk (dev_id d)) \<and>
      (case x' of (w, d) \<Rightarrow> usb_pos d) = (case x of (w, d) \<Rightarrow> usb_pos d) + length bs \<and> length bs \<le> n \<and>
      bs = map (case x of (w, d) \<Rightarrow> disk (dev_id d))
        [case x of (w, d) \<Rightarrow> usb_pos d..<(case x of (w, d) \<Rightarrow> usb_pos d) + length bs]"
    using r read_bytes_cases [OF s, of w d n] s unfolding x by (auto simp: usb_ops_def)
next
  fix x n e x'
  assume s: "serves disk svc" and r: "dv_read (usb_ops svc) x n = Some (Inl e, x')"
  obtain w d where x: "x = (w, d)" by fastforce
  show "serves disk svc \<and> (case x' of (w, d) \<Rightarrow> disk (dev_id d)) = (case x of (w, d) \<Rightarrow> disk (dev_id d)) \<and>
      (case x' of (w, d) \<Rightarrow> usb_pos d) = (case x of (w, d) \<Rightarrow> usb_pos d)"
    using r read_bytes_cases [OF s, of w d n] s unfolding x by (auto simp: usb_ops_def)
next
  fix x a v x'
  assume "serves disk svc" "a < USIZE_LIMIT" "dv_seek (usb_ops svc) x (Start a) = Some (Inr v, x')"
  then show "serves disk svc \<and> (case x' of (w, d) \<Rightarrow> disk (dev_id d)) = (case x of (w, d) \<Rightarrow> disk (dev_id d)) \<and>
      (case x' of (w, d) \<Rightarrow> usb_pos d) = a"
    using as_i64_nonneg [of a] by (auto simp: usb_ops_def usb_seek_def Let_def split: prod.splits if_splits)
next
  fix x a e x'
  assume "serves disk svc" "dv_seek (usb_ops svc) x (Start a) = Some (Inl e, x')"
  then show "serves disk svc \<and> (case x' of (w, d) \<Rightarrow> disk (dev_id d)) = (case x of (w, d) \<Rightarrow> disk (dev_id d)) \<and>
      (case x' of (w, d) \<Rightarrow> usb_pos d) = (case x of (w, d) \<Rightarrow> usb_pos d)"
    by (auto simp: usb_ops_def usb_seek_def Let_def split: prod.splits if_splits)
qed

section \<open>Devices that always deliver\<close>

locale steady_device = byte_device +
  assumes read_progress: "\<lbrakk>invar d; 0 < n; cursor d + n < USIZE_LIMIT\<rbrakk> \<Longrightarrow>
      \<exists>bs d'. dv_read ops d n = Some (Inr bs, d') \<and> bs \<noteq> []"
begin

lemma read_exact_all:
  assumes "invar d" and "cursor d + n < USIZE_LIMIT"
  shows "\<exists>d'. read_exact (\<lambda>d n. unwrap_result (dv_read ops d n)) d n =
      Some (map (medium d) [cursor d..<cursor d + n], d') \<and> invar d' \<and> medium d' = medium d \<and> cursor d' = cursor d + n"
  using assms
proof (induction n arbitrary: d rule: less_induct)
  case (less n)
  show ?case
  proof (cases "n = 0")
    case True
    then show ?thesis using less.prems by (simp add: read_exact.simps)
  next
    case False
    then obtain bs d1 where r: "dv_read ops d n = Some (Inr bs, d1)" and ne: "bs \<noteq> []"
      using read_progress less.prems by blast
    note f = read_ok [OF less.prems(1) r]
    then have bs: "bs = map (medium d) [cursor d..<cursor d + length bs]" and le: "length bs \<le> n" by blast+
    have "\<exists>d'. read_exact (\<lambda>d n. unwrap_result (dv_read ops d n)) d1 (n - length bs) =
        Some (map (medium d) [cursor d + length bs..<cursor d + n], d') \<and> invar d' \<and> medium d' = medium d \<and>
        cursor d' = cursor d + n"
      using less.IH [of "n - length bs" d1] f ne False less.prems(2) by auto
    moreover have "[cursor d..<cursor d + n] = [cursor d..<cursor d + length bs] @ [cursor d + length bs..<cursor d + n]"
      using upt_add_eq_append [of "cursor d" "cursor d + length bs" "n - length bs"] le by simp
    then have "map (medium d) [cursor d..<cursor d + n] = bs @ map (medium d) [cursor d + length bs..<cursor d + n]"
      using bs by (metis map_append)
    ultimately show ?thesis using r ne False f by (subst read_exact.simps) (auto simp: unwrap_result_def)
  qed
qed

end

interpretation ahci: steady_device "\<lambda>_. \<forall>s. length (read_block s) = AHCI_BLOCK_SIZE"
    "\<lambda>_ i. read_block (i div AHCI_BLOCK_SIZE) ! (i mod AHCI_BLOCK_SIZE)" ahci_pos "ahci_ops read_block"
proof
  fix d :: AhciBlockDevice and n :: nat
  assume l: "\<forall>s. length (read_block s) = AHCI_BLOCK_SIZE" and n: "0 < n" "ahci_pos d + n < USIZE_LIMIT"
  let ?t = "ahci_pos d mod AHCI_BLOCK_SIZE"
  let ?k = "min n (AHCI_BLOCK_SIZE - ?t)"
  let ?buf = "read_block (ahci_pos d div AHCI_BLOCK_SIZE)"
  have t: "?t < AHCI_BLOCK_SIZE" by (simp add: AHCI_BLOCK_SIZE_def)
  have "slice ?buf ?t (?t + ?k) = Some (take ?k (drop ?t ?buf))" using l t by (simp add: slice_def)
  moreover have "take ?k (drop ?t ?buf) \<noteq> []" using l t n by simp
  moreover have "checked_add (ahci_pos d) ?k = Some (ahci_pos d + ?k)" using n by (simp add: checked_add_def)
  ultimately show "\<exists>bs d'. dv_read (ahci_ops read_block) d n = Some (Inr bs, d') \<and> bs \<noteq> []"
    by (simp add: ahci_ops_def ahci_read_def Let_def)
qed

section \<open>Names\<close>

lemma parse_digits_append: "parse_digits a (xs @ ys) = Option.bind (parse_digits a xs) (\<lambda>n. parse_digits n ys)"
  by (induction a xs rule: parse_digits.induct) (auto simp: Let_def)

lemma digit_byte:
  assumes "n < 10"
  shows "48 \<le> (of_nat (48 + n) :: u8)" and "(of_nat (48 + n) :: u8) \<le> 57" and "unat (of_nat (48 + n) - 48 :: u8) = n"
proof -
  have "n \<in> {0, 1, 2, 3, 4, 5, 6, 7, 8, 9}" using assms by auto
  then show "48 \<le> (of_nat (48 + n) :: u8)" and "(of_nat (48 + n) :: u8) \<le> 57"
    and "unat (of_nat (48 + n) - 48 :: u8) = n" by auto
qed

lemma parse_fmt: "n < USIZE_LIMIT \<Longrightarrow> parse_digits 0 (fmt_usize n) = Some n"
proof (induction n rule: fmt_usize.induct)
  case (1 n)
  show ?case
  proof (cases "n < 10")
    case True
    then show ?thesis using digit_byte [OF True] 1(2) by (subst fmt_usize.simps) (simp add: Let_def del: of_nat_add)
  next
    case False
    have m: "n mod 10 < 10" by simp
    have "parse_digits 0 (fmt_usize (n div 10)) = Some (n div 10)" using 1(1) False 1(2) by simp
    then show ?thesis using digit_byte [OF m] 1(2) False
      by (subst fmt_usize.simps) (simp add: parse_digits_append Let_def del: of_nat_add)
  qed
qed

lemma fmt_usize_head: "\<exists>b bs. fmt_usize n = b # bs \<and> b \<noteq> 43"
proof (induction n rule: fmt_usize.induct)
  case (1 n)
  show ?case
  proof (cases "n < 10")
    case True
    have "\<not> 48 \<le> (43 :: u8)" by simp
    then have "(of_nat (48 + n) :: u8) \<noteq> 43" using digit_byte(1) [OF True] by metis
    then show ?thesis using True by (subst (1) fmt_usize.simps) (simp del: of_nat_add)
  next
    case False
    then show ?thesis using 1 [OF False] by (subst (1) fmt_usize.simps) auto
  qed
qed

lemma parse_usize_fmt: "n < USIZE_LIMIT \<Longrightarrow> parse_usize (fmt_usize n) = Some n"
  using parse_fmt [of n] fmt_usize_head [of n] by (auto simp: parse_usize_def)

section \<open>Properties\<close>

lemma register_fresh: "usb_register devices b = (devices', i) \<Longrightarrow> usb_lookup devices i = None"
proof -
  assume "usb_register devices b = (devices', i)"
  then have i: "i = (if devices = [] then 0 else Max (set (map rec_id devices)) + 1)" by (auto simp: usb_register_def Let_def)
  have "rec_id d < i" if "d \<in> set devices" for d
    using that i by (auto simp: less_Suc_eq_le)
  then show ?thesis by (fastforce simp: usb_lookup_def find_None_iff)
qed

lemma find_append: "List.find P (xs @ ys) = (case List.find P xs of None \<Rightarrow> List.find P ys | Some x \<Rightarrow> Some x)"
  by (induction xs) auto

lemma lookup_register:
  "usb_register devices b = (devices', i) \<Longrightarrow>
   usb_lookup devices' j = (if j = i then Some \<lparr>rec_id = i, rec_blocks = b, online = True\<rparr> else usb_lookup devices j)"
proof -
  assume r: "usb_register devices b = (devices', i)"
  then have "devices' = devices @ [\<lparr>rec_id = i, rec_blocks = b, online = True\<rparr>]"
    by (auto simp: usb_register_def Let_def)
  then show ?thesis using register_fresh [OF r] by (auto simp: usb_lookup_def find_append split: option.splits)
qed

lemma lookup_offline:
  "usb_lookup (usb_offline devices i) j =
     (if j = i then map_option (\<lambda>r. r\<lparr>online := False\<rparr>) (usb_lookup devices i) else usb_lookup devices j)"
proof (induction devices)
  case Nil
  then show ?case by (simp add: usb_lookup_def usb_offline_def)
next
  case (Cons r rs)
  have "usb_offline (r # rs) i = (if rec_id r = i then r\<lparr>online := False\<rparr> # rs else r # usb_offline rs i)"
    by (simp add: usb_offline_def split: option.split)
  with Cons show ?case by (cases "j = i") (simp_all add: usb_lookup_def)
qed

text \<open>
  A registered device gets a number no other device of the registry
  has; the name the device file system lists for it opens this device, with the number of blocks it was
  registered with, until it goes offline; registering a device and taking it offline change nothing for
  the other names.
\<close>

lemma usb_name_roundtrip:
  assumes "usb_register devices blocks = (devices', i)" and "i < USIZE_LIMIT" and "j < USIZE_LIMIT"
  shows "usb_lookup devices i = None \<and>
    usb_open_path devices' (47 # usb_name i) = Some \<lparr>dev_id = i, dev_blocks = blocks, usb_pos = 0\<rparr> \<and>
    usb_open_path (usb_offline devices' i) (47 # usb_name i) = None \<and>
    (j \<noteq> i \<longrightarrow> usb_open_path (usb_offline devices' i) (47 # usb_name j) = usb_open_path devices (47 # usb_name j))"
proof -
  have path: "usb_open_path ds (47 # usb_name k) = usb_open ds k" if "k < USIZE_LIMIT" for ds k
    by (simp add: usb_open_path_def usb_name_def strip_prefix_def starts_with_def parse_usize_fmt [OF that])
  show ?thesis
    using register_fresh [OF assms(1)]
    by (simp add: path [OF assms(2)] path [OF assms(3)] usb_open_def lookup_register [OF assms(1)] lookup_offline)
qed

lemma usb_name_roundtrip_example:
  "let (ds, i) = usb_register [\<lparr>rec_id = 6, rec_blocks = 10, online = False\<rparr>] 2048 in
   i = 7 \<and> usb_name i = [117, 115, 98, 55] \<and>
   usb_open_path ds [47, 117, 115, 98, 55] = Some \<lparr>dev_id = 7, dev_blocks = 2048, usb_pos = 0\<rparr>"
proof -
  have "usb_register [\<lparr>rec_id = 6, rec_blocks = 10, online = False\<rparr>] 2048 =
      ([\<lparr>rec_id = 6, rec_blocks = 10, online = False\<rparr>, \<lparr>rec_id = 7, rec_blocks = 2048, online = True\<rparr>], 7)"
    by (simp add: usb_register_def)
  from usb_name_roundtrip [OF this, of 0] this show ?thesis by (simp add: usb_name_def fmt_usize.simps)
qed

text \<open>
  Property C27 (USB partitions are confined). Reading through a partition of a USB disk never panics. A
  successful read returns the bytes of the partition at its position, never one beyond its last block,
  and advances the position by what it read; a failed one, for example after the device has gone
  offline, leaves the position alone. The agreement between the partition's position and the device's
  cursor is kept in both cases.
\<close>

theorem usb_partition_confined:
  assumes "serves disk svc" and "part_ok (\<lambda>_. serves disk svc) (\<lambda>(w, d). usb_pos d) p"
  shows "\<exists>r p'. partition_read (usb_ops svc) p n = Some (r, p') \<and>
    part_ok (\<lambda>_. serves disk svc) (\<lambda>(w, d). usb_pos d) p' \<and>
    part_medium (\<lambda>(w, d). disk (dev_id d)) p' = part_medium (\<lambda>(w, d). disk (dev_id d)) p \<and>
    (case r of Inl _ \<Rightarrow> p_position p' = p_position p
     | Inr bs \<Rightarrow> length bs \<le> n \<and> p_position p' = p_position p + length bs \<and>
         bs = take (length bs) (drop (p_position p) (part_medium (\<lambda>(w, d). disk (dev_id d)) p)))"
proof -
  obtain w d where b: "block_device p = (w, d)" by fastforce
  have "\<exists>x. dv_read (usb_ops svc) (w, d) k = Some x" for k
    using read_bytes_cases [OF assms(1), of w d k] by (auto simp: usb_ops_def)
  then have "partition_read (usb_ops svc) p n \<noteq> None"
    by (simp add: partition_read_def b Let_def split: bind_split)
  then obtain r p' where "partition_read (usb_ops svc) p n = Some (r, p')" by fastforce
  then show ?thesis using usb.part_read [OF assms(2)] by blast
qed

definition zero_service :: "unit usb_service" where
  "zero_service w i lba = (w, Some (replicate USB_BLOCK_SIZE 7))"

definition sample_partition :: "((usb_registry \<times> unit) \<times> UsbBlockDevice) partition" where
  "sample_partition = \<lparr>block_device = (([\<lparr>rec_id = 0, rec_blocks = 4, online = True\<rparr>], ()),
      \<lparr>dev_id = 0, dev_blocks = 4, usb_pos = 1000\<rparr>), p_start = 512, p_end = 1024, p_position = 488\<rparr>"

lemma zero_service_serves: "serves (\<lambda>_ _. 7) zero_service"
  by (auto simp: serves_def zero_service_def map_replicate_const USB_BLOCK_SIZE_def)

theorem usb_partition_confined_witness:
  "\<exists>bs p'. partition_read (usb_ops zero_service) sample_partition 100 = Some (Inr bs, p') \<and>
     p_position p' = 488 + length bs \<and> p_position p' \<le> 512"
proof -
  have ok: "part_ok (\<lambda>_. serves (\<lambda>_ _. 7) zero_service) (\<lambda>(w, d). usb_pos d) sample_partition"
    using zero_service_serves by (simp add: part_ok_def sample_partition_def)
  have "\<exists>bs p'. partition_read (usb_ops zero_service) sample_partition 100 = Some (Inr bs, p')"
    by (simp add: partition_read_def sample_partition_def usb_ops_def read_bytes_def is_online_def usb_lookup_def
        saturating_add_def checked_add_def capacity_bytes_def saturating_mul_def USB_BLOCK_SIZE_def
        read_bytes_loop.simps zero_service_def slice_def Let_def)
  then obtain bs p' where r: "partition_read (usb_ops zero_service) sample_partition 100 = Some (Inr bs, p')" by blast
  have "p_position p' = 488 + length bs \<and> p_position p' \<le> p_end p' - p_start p' \<and> p_end p' - p_start p' = 512"
    using usb_partition_confined [OF zero_service_serves ok, of 100] r
    by (auto simp: part_ok_def partition_read_def sample_partition_def Let_def split: bind_splits sum.splits)
  then show ?thesis using r by auto
qed

text \<open>
  \<^verbatim>\<open>read_exact\<close> on an AHCI disk, which reads at most
  one sector at a time, terminates with all the bytes asked for, in order, wherever in a sector it starts
  and ends, and leaves the cursor behind the last one.
\<close>

lemma ahci_read_exact_all:
  assumes "\<forall>s. length (read_block s) = AHCI_BLOCK_SIZE" and "ahci_pos d + n < USIZE_LIMIT"
  shows "\<exists>d'. read_exact (\<lambda>d n. unwrap_result (ahci_read read_block d n)) d n =
      Some (map (\<lambda>i. read_block (i div AHCI_BLOCK_SIZE) ! (i mod AHCI_BLOCK_SIZE)) [ahci_pos d..<ahci_pos d + n], d') \<and>
    ahci_pos d' = ahci_pos d + n"
  using ahci.read_exact_all [of read_block d n] assms by (auto simp: ahci_ops_def)

lemma ahci_read_exact_all_example:
  "\<exists>d'. read_exact (\<lambda>d n. unwrap_result (ahci_read (\<lambda>s. replicate 512 (of_nat s)) d n))
      \<lparr>block_count = 8, ahci_pos = 510\<rparr> 4 = Some ([0, 0, 1, 1], d') \<and> ahci_pos d' = 514"
proof -
  have l: "\<forall>s. length (replicate 512 (of_nat s :: u8)) = AHCI_BLOCK_SIZE" by (simp add: AHCI_BLOCK_SIZE_def)
  have "[510..<510 + 4] = [510, 511, 512, 513 :: nat]" by (simp add: upt_rec)
  then have "map (\<lambda>i. replicate 512 (of_nat (i div AHCI_BLOCK_SIZE) :: u8) ! (i mod AHCI_BLOCK_SIZE)) [510..<510 + 4]
      = [0, 0, 1, 1]" by (simp add: AHCI_BLOCK_SIZE_def)
  then show ?thesis using ahci_read_exact_all [OF l, of "\<lparr>block_count = 8, ahci_pos = 510\<rparr>" 4] by auto
qed

lemma ramdisk_tail:
  "\<lbrakk>k < n; n * 512 + 512 < 2 ^ 63\<rbrakk> \<Longrightarrow>
   read_exact (ramdisk_vfs_read mem) \<lparr>size_in_blocks = n, ptr = a, rd_pos = k * 512\<rparr> ((n - k) * 512) = None"
proof (induction "n - k" arbitrary: k)
  case 0
  then show ?case by simp
next
  case (Suc m)
  let ?d = "\<lparr>size_in_blocks = n, ptr = a, rd_pos = k * 512\<rparr>"
  have len: "\<not> (n - k) * 512 < 512" "(n - k) * 512 \<noteq> 0" using Suc.prems(1) by simp_all
  have lim: "checked_mul n 512 = Some (n * 512)" "checked_add (k * 512) 512 = Some (k * 512 + 512)"
    using Suc.prems by (simp_all add: checked_mul_def checked_add_def)
  show ?case
  proof (cases "Suc k < n")
    case True
    have "ramdisk_vfs_read mem ?d ((n - k) * 512) =
        Some (mem_bytes mem (a + k * 512) 512, ?d\<lparr>rd_pos := Suc k * 512\<rparr>)"
      using len lim True by (simp add: ramdisk_vfs_read_def unwrap_result_def ramdisk_read_def)
    moreover have "(n - k) * 512 - 512 = (n - Suc k) * 512" by (simp add: diff_mult_distrib)
    ultimately show ?thesis using Suc.hyps(1) [of "Suc k"] Suc.hyps(2) True Suc.prems len
      by (subst read_exact.simps) (simp add: mem_bytes_def)
  next
    case False
    then have "ramdisk_vfs_read mem ?d ((n - k) * 512) = None"
      using len lim Suc.prems by (simp add: ramdisk_vfs_read_def unwrap_result_def ramdisk_read_def)
    then show ?thesis using len by (subst read_exact.simps) simp
  qed
qed

text \<open>
  Reading the whole of a RAM disk through its device file, as a
  copy of \<^verbatim>\<open>/dev/initrd\<close> does, panics: the read that reaches the last byte is refused because
  \<^verbatim>\<open>RamDisk::read\<close> requires the end of the read to lie strictly before the end of the disk, and the
  device file unwraps the error.
\<close>

lemma ramdisk_whole_read_panics:
  assumes "0 < blocks" and "blocks * 512 + 512 < 2 ^ 63"
  shows "read_exact (ramdisk_vfs_read mem) (with_addr_and_size addr (blocks * 512)) (blocks * 512) = None"
  using ramdisk_tail [of 0 blocks mem addr] assms
  by (simp add: with_addr_and_size_def div_ceil_def)

lemma ramdisk_whole_read_panics_example:
  "read_exact (ramdisk_vfs_read (\<lambda>_. 0)) (with_addr_and_size 0 (4 * 512)) (4 * 512) = None"
  by (rule ramdisk_whole_read_panics) simp_all

end
