(* ===== verification/Vfs.thy ===== *)
theory Vfs
  imports Storage Sched
begin

text \<open>
  The virtual file system: the mount table and path lookup of \<^verbatim>\<open>vfs/mod.rs\<close>, directory
  snapshots, the process file system of \<^verbatim>\<open>vfs/procfs/filesystem.rs\<close> and the name space of the
  device file system, \<^verbatim>\<open>vfs/devfs/\<close>. A path is its bytes. A mounted file system is any
  value on which the operations of the trait \<^verbatim>\<open>VfsDirectory\<close> are given; they may change the
  state of the world, so that they are functions of it. The FAT driver is the crate
  \<^verbatim>\<open>fatfs\<close>. \<^term>\<open>None\<close> is a panic.
\<close>

definition ascii :: "string \<Rightarrow> bytes" where
  "ascii s = map of_char s"

section \<open>The mount table\<close>

text \<open>
  \<^verbatim>\<open>&path[n..]\<close>: a start beyond the end or inside a character is a panic.
\<close>

definition str_from :: "bytes \<Rightarrow> nat \<Rightarrow> bytes option" where
  "str_from s n =
     (if n < length s then (if utf8_cont (s ! n) then None else Some (drop n s))
      else if n = length s then Some [] else None)"

type_synonym 'fs mount_table = "(bytes \<times> 'fs) list"

definition mount :: "('t option \<Rightarrow> 'fs option) \<Rightarrow> 't option \<Rightarrow> bytes \<Rightarrow> 'fs mount_table \<Rightarrow> 'fs mount_table \<times> bool" where
  "mount make_fs device path table =
     (case make_fs device of None \<Rightarrow> (table, False) | Some filesystem \<Rightarrow> (table @ [(path, filesystem)], True))"

text \<open>
  \<^verbatim>\<open>get_file\<close>, \<^verbatim>\<open>get_directory\<close> and \<^verbatim>\<open>create_file_or_open_existing\<close> are
  the same loop on three operations of the file systems.
\<close>

fun lookup_mounts ::
  "('fs \<Rightarrow> 'w \<Rightarrow> bytes \<Rightarrow> ('w \<times> 'r option) option) \<Rightarrow> 'w \<Rightarrow> 'fs mount_table \<Rightarrow> bytes \<Rightarrow> ('w \<times> 'r option) option" where
  "lookup_mounts op w [] path = Some (w, None)"
| "lookup_mounts op w ((mountpoint, fsys) # ms) path =
     (if starts_with path mountpoint then
        do { n \<leftarrow> checked_sub (length mountpoint) 1;
             sub \<leftarrow> str_from path n;
             (w', r) \<leftarrow> op fsys w sub;
             case r of Some x \<Rightarrow> Some (w', Some x) | None \<Rightarrow> lookup_mounts op w' ms path }
      else lookup_mounts op w ms path)"

fun remove_file ::
  "('fs \<Rightarrow> 'w \<Rightarrow> bytes \<Rightarrow> ('w \<times> bool) option) \<Rightarrow> 'w \<Rightarrow> 'fs mount_table \<Rightarrow> bytes \<Rightarrow> 'w option" where
  "remove_file op w [] path = Some w"
| "remove_file op w ((mountpoint, fsys) # ms) path =
     (if starts_with path mountpoint then
        do { n \<leftarrow> checked_sub (length mountpoint) 1;
             sub \<leftarrow> str_from path n;
             (w', done) \<leftarrow> op fsys w sub;
             if done then Some w' else remove_file op w' ms path }
      else remove_file op w ms path)"

record ('fs, 'w, 'f, 'd) vfs_ops =
  fs_file :: "'fs \<Rightarrow> 'w \<Rightarrow> bytes \<Rightarrow> ('w \<times> 'f option) option"
  fs_directory :: "'fs \<Rightarrow> 'w \<Rightarrow> bytes \<Rightarrow> ('w \<times> 'd option) option"
  fs_create :: "'fs \<Rightarrow> 'w \<Rightarrow> bytes \<Rightarrow> ('w \<times> 'f option) option"
  fs_remove :: "'fs \<Rightarrow> 'w \<Rightarrow> bytes \<Rightarrow> ('w \<times> bool) option"

definition get_file where
  "get_file ops w table path = lookup_mounts (fs_file ops) w table path"

definition get_directory where
  "get_directory ops w table path = lookup_mounts (fs_directory ops) w table path"

definition create_file_or_open_existing where
  "create_file_or_open_existing ops w table path = lookup_mounts (fs_create ops) w table path"

text \<open>\<^verbatim>\<open>init\<close> mounts the initial RAM disk, then the devices, then the processes.\<close>

definition vfs_init :: "('t option \<Rightarrow> 'fs option) \<Rightarrow> 't \<Rightarrow> 'fs \<Rightarrow> 'fs \<Rightarrow> 'fs mount_table option" where
  "vfs_init fat disk devfs procfs =
     (let (t1, ok1) = mount fat (Some disk) (ascii ''/'') [];
          (t2, ok2) = mount (\<lambda>_. Some devfs) (None :: unit option) (ascii ''/dev/'') t1;
          (t3, ok3) = mount (\<lambda>_. Some procfs) (None :: unit option) (ascii ''/proc/'') t2 in
      if ok1 then Some t3 else None)"

section \<open>Directories\<close>

definition DIRENT_NAME_CAP :: nat where
  "DIRENT_NAME_CAP = 255"

record DirEntry =
  is_dir :: u8
  de_name :: bytes

definition dirent_empty :: DirEntry where
  "dirent_empty = \<lparr>is_dir = 0, de_name = replicate DIRENT_NAME_CAP 0\<rparr>"

definition dirent_new :: "bool \<Rightarrow> bytes \<Rightarrow> DirEntry" where
  "dirent_new dir name =
     (let copy_len = min (length name) (DIRENT_NAME_CAP - 1) in
      \<lparr>is_dir = of_bool_word dir, de_name = take copy_len name @ drop copy_len (de_name dirent_empty)\<rparr>)"

record SnapshotDirectory =
  entries :: "DirEntry list"
  offset :: nat

definition snapshot_new :: "DirEntry list \<Rightarrow> SnapshotDirectory" where
  "snapshot_new es = \<lparr>entries = es, offset = 0\<rparr>"

text \<open>\<open>buf_len\<close> is the length of the caller's buffer; the entries written are returned.\<close>

function getdents_loop :: "SnapshotDirectory \<Rightarrow> nat \<Rightarrow> DirEntry list \<Rightarrow> DirEntry list \<times> SnapshotDirectory" where
  "getdents_loop d buf_len written =
     (if length written < buf_len \<and> offset d < length (entries d) then
        getdents_loop (d\<lparr>offset := offset d + 1\<rparr>) buf_len (written @ [entries d ! offset d])
      else (written, d))"
  by pat_completeness auto
termination
  by (relation "measure (\<lambda>(d, buf_len, written). buf_len - length written)") auto

declare getdents_loop.simps [simp del]

definition getdents :: "SnapshotDirectory \<Rightarrow> nat \<Rightarrow> DirEntry list \<times> SnapshotDirectory" where
  "getdents d buf_len = getdents_loop d buf_len []"

text \<open>\<^verbatim>\<open>DirEntry::name\<close> of the applications' runtime: the bytes up to the first zero.\<close>

definition dirent_name :: "DirEntry \<Rightarrow> bytes" where
  "dirent_name e =
     (let len = (case position (\<lambda>x. x = 0) (de_name e) of Some i \<Rightarrow> i | None \<Rightarrow> DIRENT_NAME_CAP);
          s = take len (de_name e) in
      if utf8_valid s then s else [])"

section \<open>Text files\<close>

text \<open>The text files of \<^verbatim>\<open>procfs\<close> and the command line of \<^verbatim>\<open>devfs\<close>.\<close>

record ProcTextFile =
  text_data :: bytes
  text_pos :: nat

definition text_read :: "ProcTextFile \<Rightarrow> nat \<Rightarrow> bytes \<times> ProcTextFile" where
  "text_read f buf_len =
     (if text_pos f \<ge> length (text_data f) then ([], f)
      else
        let len = min buf_len (length (text_data f) - text_pos f) in
        (take len (drop (text_pos f) (text_data f)), f\<lparr>text_pos := text_pos f + len\<rparr>))"

definition text_seek :: "ProcTextFile \<Rightarrow> SeekFrom \<Rightarrow> nat \<times> ProcTextFile" where
  "text_seek f pos =
     (let len = length (text_data f);
          new_pos = (case pos of
                       Start p \<Rightarrow> min p len
                     | End off \<Rightarrow> min (saturating_add_signed len off) len
                     | Current off \<Rightarrow> min (saturating_add_signed (text_pos f) off) len) in
      (new_pos, f\<lparr>text_pos := new_pos\<rparr>))"

section \<open>The process file system\<close>

definition SLASH :: u8 where
  "SLASH = 47"

definition trim_slashes :: "bytes \<Rightarrow> bytes" where
  "trim_slashes s = rev (dropWhile (\<lambda>b. b = SLASH) (rev (dropWhile (\<lambda>b. b = SLASH) s)))"

definition split_once :: "bytes \<Rightarrow> (bytes \<times> bytes) option" where
  "split_once s = map_option (\<lambda>i. (take i s, drop (i + 1) s)) (position (\<lambda>b. b = SLASH) s)"

definition split_process_dir_path :: "bytes \<Rightarrow> nat option" where
  "split_process_dir_path path =
     (let trimmed = trim_slashes path in
      if trimmed = [] \<or> SLASH \<in> set trimmed then None else parse_usize trimmed)"

definition split_process_file_path :: "bytes \<Rightarrow> (nat \<times> bytes) option" where
  "split_process_file_path path =
     (let trimmed = trim_slashes path in
      case split_once trimmed of
        None \<Rightarrow> None
      | Some (pid, file_name) \<Rightarrow>
          if SLASH \<in> set file_name then None
          else map_option (\<lambda>n. (n, file_name)) (parse_usize pid))"

definition task_at :: "process option list \<Rightarrow> nat \<Rightarrow> process option" where
  "task_at ts pid = (case nth_opt ts pid of Some (Some p) \<Rightarrow> Some p | _ \<Rightarrow> None)"

definition proc_file :: "bytes \<Rightarrow> process option list \<Rightarrow> bytes \<Rightarrow> ProcTextFile option" where
  "proc_file cmdline ts path =
     (if path = ascii ''/cmdline'' then Some \<lparr>text_data = cmdline, text_pos = 0\<rparr>
      else
        do { (pid, file_name) \<leftarrow> split_process_file_path path;
             if file_name \<noteq> ascii ''exe'' then None
             else
               do { p \<leftarrow> task_at ts pid;
                    Some \<lparr>text_data = (case exe_path p of Some e \<Rightarrow> e | None \<Rightarrow> []), text_pos = 0\<rparr> } })"

definition proc_root_entries :: "process option list \<Rightarrow> DirEntry list" where
  "proc_root_entries ts =
     dirent_new False (ascii ''cmdline'') #
     map (\<lambda>pid. dirent_new True (fmt_usize pid)) (filter (\<lambda>pid. ts ! pid \<noteq> None) [0..<length ts])"

definition proc_directory :: "process option list \<Rightarrow> bytes \<Rightarrow> SnapshotDirectory option" where
  "proc_directory ts path =
     (if path = [SLASH] \<or> path = [] then Some (snapshot_new (proc_root_entries ts))
      else
        do { pid \<leftarrow> split_process_dir_path path;
             case task_at ts pid of
               None \<Rightarrow> None
             | Some _ \<Rightarrow> Some (snapshot_new [dirent_new False (ascii ''exe'')]) })"

section \<open>The device file system\<close>

text \<open>
  The devices the kernel knows: the AHCI disks and NVMe namespaces of the managers, the USB registry, and
  the initial RAM disk and command line of the boot loader. The RAM disk's module list may be empty, which
  is a panic.
\<close>

record dev_env =
  ahci_disks :: "AhciBlockDevice list"
  nvme_disks :: "NvmeBlockDevice list list"
  usb_disks :: usb_registry
  initrd_module :: "(nat \<times> nat) option"

datatype dev_node =
    DiskNode AhciBlockDevice | NvmeNode NvmeBlockDevice | UsbNode UsbBlockDevice | InitrdNode RamDisk
  | StdoutNode | StderrNode | TtyNode | SerialNode | CmdlineNode nat | PcspkNode | PowerNode

definition disk_open :: "dev_env \<Rightarrow> bytes \<Rightarrow> dev_node option" where
  "disk_open env path =
     do { number \<leftarrow> strip_prefix path (ascii ''/disk''); k \<leftarrow> parse_usize number;
          map_option DiskNode (nth_opt (ahci_disks env) k) }"

definition nvme_open :: "dev_env \<Rightarrow> bytes \<Rightarrow> dev_node option option" where
  "nvme_open env path =
     (if \<not> starts_with path (ascii ''/nvme'') then Some None
      else
        case position (\<lambda>b. b = 45) path of
          None \<Rightarrow> Some None
        | Some res \<Rightarrow>
            do { dev \<leftarrow> slice path 5 res;
                 case parse_usize dev of
                   None \<Rightarrow> Some None
                 | Some device \<Rightarrow>
                     (case parse_usize (drop (res + 1) path) of
                        None \<Rightarrow> Some None
                      | Some namespace \<Rightarrow>
                          (case nth_opt (nvme_disks env) device of
                             None \<Rightarrow> Some None
                           | Some v \<Rightarrow> do { x \<leftarrow> nth_opt v namespace; Some (Some (NvmeNode x)) })) })"

definition initrd_open :: "dev_env \<Rightarrow> bytes \<Rightarrow> dev_node option option" where
  "initrd_open env path =
     (if path \<noteq> ascii ''/initrd'' then Some None
      else do { (addr, len) \<leftarrow> initrd_module env; Some (Some (InitrdNode (with_addr_and_size addr len))) })"

definition stdout_open :: "bytes \<Rightarrow> dev_node option" where
  "stdout_open path = (if path = ascii ''/stdout'' then Some StdoutNode else None)"

definition stderr_open :: "bytes \<Rightarrow> dev_node option" where
  "stderr_open path = (if path = ascii ''/stderr'' then Some StderrNode else None)"

definition tty_open :: "bytes \<Rightarrow> dev_node option" where
  "tty_open path = (if path = ascii ''/tty'' \<or> path = ascii ''/terminal'' then Some TtyNode else None)"

definition serial_open :: "bytes \<Rightarrow> dev_node option" where
  "serial_open path = (if path = ascii ''/serial'' then Some SerialNode else None)"

definition cmdline_open :: "bytes \<Rightarrow> dev_node option" where
  "cmdline_open path = (if path = ascii ''/cmdline'' then Some (CmdlineNode 0) else None)"

definition pcspk_open :: "bytes \<Rightarrow> dev_node option" where
  "pcspk_open path = (if path = ascii ''/pcspk'' then Some PcspkNode else None)"

definition power_open :: "bytes \<Rightarrow> dev_node option" where
  "power_open path = (if path = ascii ''/power'' then Some PowerNode else None)"

text \<open>The first of a list of alternatives that answers, as the chain of \<^verbatim>\<open>if let Ok\<close>.\<close>

fun or_else :: "'a option list \<Rightarrow> 'a option" where
  "or_else [] = None"
| "or_else (x # xs) = (case x of Some y \<Rightarrow> Some y | None \<Rightarrow> or_else xs)"

lemmas node_open_defs = stdout_open_def stderr_open_def tty_open_def serial_open_def cmdline_open_def
  pcspk_open_def power_open_def

definition dev_file :: "dev_env \<Rightarrow> bytes \<Rightarrow> dev_node option option" where
  "dev_file env path =
     (case disk_open env path of
        Some f \<Rightarrow> Some (Some f)
      | None \<Rightarrow>
          do { r \<leftarrow> nvme_open env path;
               case r of
                 Some f \<Rightarrow> Some (Some f)
               | None \<Rightarrow>
                   (case usb_open_path (usb_disks env) path of
                      Some f \<Rightarrow> Some (Some (UsbNode f))
                    | None \<Rightarrow>
                        do { r \<leftarrow> initrd_open env path;
                             case r of
                               Some f \<Rightarrow> Some (Some f)
                             | None \<Rightarrow> Some (or_else
                               [stdout_open path, stderr_open path, tty_open path, serial_open path,
                                cmdline_open path, pcspk_open path, power_open path]) }) })"

definition fixed_devices :: "string list" where
  "fixed_devices = [''initrd'', ''stdout'', ''stderr'', ''tty'', ''serial'', ''cmdline'', ''pcspk'', ''power'']"

definition dev_entries :: "dev_env \<Rightarrow> DirEntry list" where
  "dev_entries env =
     map (\<lambda>s. dirent_new False (ascii s)) fixed_devices @
     map (\<lambda>idx. dirent_new False (ascii ''disk'' @ fmt_usize idx)) [0..<length (ahci_disks env)] @
     concat (map (\<lambda>device_idx. map (\<lambda>namespace_idx.
         dirent_new False (ascii ''nvme'' @ fmt_usize device_idx @ [45] @ fmt_usize namespace_idx))
       [0..<length (nvme_disks env ! device_idx)]) [0..<length (nvme_disks env)]) @
     map (\<lambda>(i, _). dirent_new False (usb_name i)) (online_devices (usb_disks env))"

definition dev_directory :: "dev_env \<Rightarrow> bytes \<Rightarrow> SnapshotDirectory option" where
  "dev_directory env path =
     (if path \<noteq> [SLASH] \<and> path \<noteq> [] then None else Some (snapshot_new (dev_entries env)))"

text \<open>The terminal device reads what is in the input buffer, as far as the caller's buffer goes.\<close>

fun tty_read :: "nat \<Rightarrow> bytes \<Rightarrow> bytes \<times> bytes" where
  "tty_read 0 input = ([], input)"
| "tty_read (Suc n) input =
     (case input of [] \<Rightarrow> ([], []) | b # bs \<Rightarrow> (case tty_read n bs of (r, rest) \<Rightarrow> (b # r, rest)))"

section \<open>Lemmas\<close>

lemma getdents_loop_eq:
  "offset d \<le> length (entries d) \<Longrightarrow> length written \<le> n \<Longrightarrow>
   getdents_loop d n written =
     (written @ take (n - length written) (drop (offset d) (entries d)),
      d\<lparr>offset := min (length (entries d)) (offset d + (n - length written))\<rparr>)"
proof (induction d n written rule: getdents_loop.induct)
  case (1 d n written)
  show ?case
  proof (cases "length written < n \<and> offset d < length (entries d)")
    case True
    then have "n - length written = Suc (n - Suc (length written))"
      and "drop (offset d) (entries d) = entries d ! offset d # drop (Suc (offset d)) (entries d)"
      by (simp_all add: Cons_nth_drop_Suc Suc_diff_Suc)
    then show ?thesis using True 1 by (subst getdents_loop.simps) (simp add: min_def)
  next
    case False
    then show ?thesis using 1(2,3)
      by (subst getdents_loop.simps) (auto simp: min_def intro!: SnapshotDirectory.equality)
  qed
qed

lemma getdents_eq:
  "offset d \<le> length (entries d) \<Longrightarrow>
   getdents d n = (take n (drop (offset d) (entries d)), d\<lparr>offset := min (length (entries d)) (offset d + n)\<rparr>)"
  by (simp add: getdents_def getdents_loop_eq)

fun getdents_calls :: "SnapshotDirectory \<Rightarrow> nat list \<Rightarrow> DirEntry list" where
  "getdents_calls d [] = []"
| "getdents_calls d (n # ns) = (case getdents d n of (es, d') \<Rightarrow> es @ getdents_calls d' ns)"

lemma getdents_calls_eq:
  "offset d \<le> length (entries d) \<Longrightarrow> getdents_calls d ns = take (sum_list ns) (drop (offset d) (entries d))"
proof (induction ns arbitrary: d)
  case Nil
  then show ?case by simp
next
  case (Cons n ns)
  have "drop (min (length (entries d)) (offset d + n)) (entries d) = drop (offset d + n) (entries d)"
    by (simp add: min_def)
  then show ?case using Cons by (simp add: getdents_eq take_add add.commute)
qed

lemma ascii_utf8: "\<forall>b\<in>set s. b < 0x80 \<Longrightarrow> utf8_valid s"
  by (induction s) auto

lemma dirent_name_new:
  assumes "length n < DIRENT_NAME_CAP" and "0 \<notin> set n" and "\<forall>b\<in>set n. b < 0x80"
  shows "dirent_name (dirent_new dir n) = n"
proof -
  let ?z = "drop (length n) (replicate DIRENT_NAME_CAP (0 :: u8))"
  have z: "?z = 0 # replicate (DIRENT_NAME_CAP - Suc (length n)) 0"
    using assms(1) by (simp add: Suc_diff_Suc [symmetric])
  have "position (\<lambda>x. x = 0) (n @ ?z) = Some (length n)"
    using assms(2) unfolding z position_Some by (auto simp: nth_append dest: nth_mem)
  moreover have "min (length n) (DIRENT_NAME_CAP - 1) = length n" using assms(1) by simp
  ultimately show ?thesis using ascii_utf8 [OF assms(3)]
    by (simp add: dirent_name_def dirent_new_def Let_def dirent_empty_def)
qed

lemma fmt_usize_digits: "b \<in> set (fmt_usize n) \<Longrightarrow> 48 \<le> b \<and> b \<le> 57"
proof (induction n rule: fmt_usize.induct)
  case (1 n)
  have m: "n mod 10 < 10" by simp
  show ?case
  proof (cases "n < 10")
    case True
    then show ?thesis using 1(2) digit_byte(1,2) [OF True] by (subst (asm) fmt_usize.simps) (simp del: of_nat_add)
  next
    case False
    then show ?thesis using 1(1) [OF False] 1(2) digit_byte(1,2) [OF m]
      by (subst (asm) (2) fmt_usize.simps) (auto simp del: of_nat_add)
  qed
qed

lemma fmt_usize_length: "n < 10 ^ Suc k \<Longrightarrow> length (fmt_usize n) \<le> Suc k"
proof (induction k arbitrary: n)
  case 0
  then show ?case by (simp add: fmt_usize.simps)
next
  case (Suc k)
  have "n div 10 < 10 ^ Suc k" using Suc.prems by (simp add: less_mult_imp_div_less)
  then show ?case using Suc.IH [of "n div 10"] by (subst fmt_usize.simps) simp
qed

lemma fmt_usize_ok:
  assumes "n < USIZE_LIMIT"
  shows "length (fmt_usize n) \<le> 20" and "0 \<notin> set (fmt_usize n)" and "45 \<notin> set (fmt_usize n)"
    and "SLASH \<notin> set (fmt_usize n)" and "\<forall>b\<in>set (fmt_usize n). b < 0x80"
proof -
  have "n < 10 ^ Suc 19" using assms by simp
  from fmt_usize_length [OF this] show "length (fmt_usize n) \<le> 20" by simp
  have d: "48 \<le> b \<and> b \<le> 57" if "b \<in> set (fmt_usize n)" for b using fmt_usize_digits that by blast
  show "0 \<notin> set (fmt_usize n)" "45 \<notin> set (fmt_usize n)" "SLASH \<notin> set (fmt_usize n)"
    using d by (force simp: SLASH_def)+
  show "\<forall>b\<in>set (fmt_usize n). b < 0x80"
  proof
    fix b
    assume "b \<in> set (fmt_usize n)"
    then have "b \<le> 57" using d by blast
    also have "(57 :: u8) < 0x80" by simp
    finally show "b < 0x80" .
  qed
qed

section \<open>Listed names can be opened\<close>

definition plain_name :: "bytes \<Rightarrow> bool" where
  "plain_name n \<longleftrightarrow> length n < DIRENT_NAME_CAP \<and> 0 \<notin> set n \<and> (\<forall>b\<in>set n. b < 0x80)"

lemma plain_name_new: "plain_name n \<Longrightarrow> dirent_name (dirent_new dir n) = n"
  by (simp add: plain_name_def dirent_name_new)

lemma plain_fmt: "k < USIZE_LIMIT \<Longrightarrow> plain_name p \<Longrightarrow> length p < 200 \<Longrightarrow> plain_name (p @ fmt_usize k)"
  using fmt_usize_ok [of k] by (auto simp: plain_name_def DIRENT_NAME_CAP_def)

definition dev_env_ok :: "dev_env \<Rightarrow> bool" where
  "dev_env_ok env \<longleftrightarrow> initrd_module env \<noteq> None \<and> distinct (map rec_id (usb_disks env)) \<and>
     (\<forall>r\<in>set (usb_disks env). rec_id r < USIZE_LIMIT) \<and> length (ahci_disks env) < USIZE_LIMIT \<and>
     length (nvme_disks env) < USIZE_LIMIT \<and> (\<forall>v\<in>set (nvme_disks env). length v < USIZE_LIMIT)"

lemmas name_eval = ascii_def strip_prefix_def starts_with_def SLASH_def

lemma dev_file_simple:
  assumes "dev_env_ok env"
    and "s \<in> set fixed_devices"
  shows "\<exists>node. dev_file env (SLASH # ascii s) = Some (Some node)"
  using assms
  by (auto simp: fixed_devices_def dev_env_ok_def dev_file_def disk_open_def nvme_open_def usb_open_path_def initrd_open_def
      node_open_defs name_eval)

lemma dev_file_disk:
  "k < length (ahci_disks env) \<Longrightarrow> k < USIZE_LIMIT \<Longrightarrow>
   dev_file env (SLASH # ascii ''disk'' @ fmt_usize k) = Some (Some (DiskNode (ahci_disks env ! k)))"
  by (simp add: dev_file_def disk_open_def name_eval parse_usize_fmt)

lemma position_append:
  "\<forall>x\<in>set xs. \<not> P x \<Longrightarrow> P y \<Longrightarrow> position P (xs @ y # ys) = Some (length xs)"
  by (induction xs) auto

lemma nvme_path:
  assumes "i < USIZE_LIMIT"
  shows "position (\<lambda>b. b = 45) (SLASH # ascii ''nvme'' @ fmt_usize i @ 45 # fmt_usize j) = Some (5 + length (fmt_usize i))"
    and "slice (SLASH # ascii ''nvme'' @ fmt_usize i @ 45 # fmt_usize j) 5 (5 + length (fmt_usize i)) = Some (fmt_usize i)"
    and "drop (5 + length (fmt_usize i) + 1) (SLASH # ascii ''nvme'' @ fmt_usize i @ 45 # fmt_usize j) = fmt_usize j"
    and "starts_with (SLASH # ascii ''nvme'' @ fmt_usize i @ 45 # fmt_usize j) (ascii ''/nvme'')"
proof -
  let ?p = "SLASH # ascii ''nvme'' @ fmt_usize i @ 45 # fmt_usize j"
  show "position (\<lambda>b. b = 45) ?p = Some (5 + length (fmt_usize i))"
    using position_append [of "[47, 110, 118, 109, 101] @ fmt_usize i" "\<lambda>b. b = 45" 45 "fmt_usize j"]
      fmt_usize_ok(3) [OF assms] by (auto simp: name_eval)
  show "slice ?p 5 (5 + length (fmt_usize i)) = Some (fmt_usize i)" by (simp add: slice_def name_eval)
  have "?p = ([47, 110, 118, 109, 101] @ fmt_usize i @ [45]) @ fmt_usize j"
    and "5 + length (fmt_usize i) + 1 = length ([47 :: u8, 110, 118, 109, 101] @ fmt_usize i @ [45])"
    by (simp_all add: name_eval)
  then show "drop (5 + length (fmt_usize i) + 1) ?p = fmt_usize j" by (metis append_eq_conv_conj)
  show "starts_with ?p (ascii ''/nvme'')" by (simp add: name_eval)
qed

lemma nvme_open_path:
  assumes "i < USIZE_LIMIT" and "j < USIZE_LIMIT"
  shows "nvme_open env (SLASH # ascii ''nvme'' @ fmt_usize i @ 45 # fmt_usize j) =
    (case nth_opt (nvme_disks env) i of
       None \<Rightarrow> Some None
     | Some v \<Rightarrow> map_option (\<lambda>x. Some (NvmeNode x)) (nth_opt v j))"
  unfolding nvme_open_def
  by (simp only: nvme_path [OF assms(1)] parse_usize_fmt [OF assms(1)] parse_usize_fmt [OF assms(2)]
      option.case Option.bind.bind_lunit not_True_eq_False if_False map_conv_bind_option comp_def)

lemma dev_file_nvme:
  assumes "i < USIZE_LIMIT" and "j < USIZE_LIMIT" and "nth_opt (nvme_disks env) i = Some v"
  shows "dev_file env (SLASH # ascii ''nvme'' @ fmt_usize i @ 45 # fmt_usize j) =
    map_option (\<lambda>x. Some (NvmeNode x)) (nth_opt v j)"
proof -
  have "disk_open env (SLASH # ascii ''nvme'' @ fmt_usize i @ 45 # fmt_usize j) = None"
    by (simp add: disk_open_def name_eval)
  then show ?thesis using assms(3)
    by (cases "nth_opt v j") (simp_all add: dev_file_def nvme_open_path [OF assms(1,2)])
qed

lemma usb_lookup_distinct:
  "\<lbrakk>distinct (map rec_id ds); r \<in> set ds\<rbrakk> \<Longrightarrow> usb_lookup ds (rec_id r) = Some r"
  by (induction ds) (auto simp: usb_lookup_def)

lemma dev_file_usb:
  assumes "dev_env_ok env" and "r \<in> set (usb_disks env)" and "online r"
  shows "\<exists>node. dev_file env (SLASH # usb_name (rec_id r)) = Some (Some (UsbNode node))"
proof -
  have "rec_id r < USIZE_LIMIT" using assms by (auto simp: dev_env_ok_def)
  then have "usb_open_path (usb_disks env) (SLASH # usb_name (rec_id r)) \<noteq> None"
    using assms usb_lookup_distinct [of "usb_disks env" r]
    by (simp add: dev_env_ok_def usb_open_path_def usb_name_def name_eval parse_usize_fmt usb_open_def)
  moreover have "disk_open env (SLASH # usb_name (rec_id r)) = None"
    "nvme_open env (SLASH # usb_name (rec_id r)) = Some None"
    by (simp_all add: disk_open_def nvme_open_def usb_name_def name_eval)
  ultimately show ?thesis by (auto simp: dev_file_def)
qed

text \<open>
  Property C39 (device names). Every name that a listing of the device file system shows, read back
  as an application reads a directory entry, opens a device: the fixed devices, the AHCI disks, the NVMe
  namespaces and the USB disks that are online. The open does not panic.
\<close>

theorem dev_listing_opens:
  assumes "dev_env_ok env" and "e \<in> set (dev_entries env)"
  shows "\<exists>node. dev_file env (SLASH # dirent_name e) = Some (Some node)"
proof -
  have lim: "length (ahci_disks env) < USIZE_LIMIT" "length (nvme_disks env) < USIZE_LIMIT"
    "\<forall>v\<in>set (nvme_disks env). length v < USIZE_LIMIT" "\<forall>r\<in>set (usb_disks env). rec_id r < USIZE_LIMIT"
    using assms(1) unfolding dev_env_ok_def by blast+
  have "e \<in> set (map (\<lambda>s. dirent_new False (ascii s)) fixed_devices) \<or>
      e \<in> set (map (\<lambda>k. dirent_new False (ascii ''disk'' @ fmt_usize k)) [0..<length (ahci_disks env)]) \<or>
      (\<exists>i<length (nvme_disks env). \<exists>j<length (nvme_disks env ! i).
        e = dirent_new False (ascii ''nvme'' @ fmt_usize i @ 45 # fmt_usize j)) \<or>
      (\<exists>r\<in>set (usb_disks env). online r \<and> e = dirent_new False (usb_name (rec_id r)))"
    using assms(2) unfolding dev_entries_def online_devices_def set_append Un_iff set_concat by (elim disjE; force)
  then consider (fixed) s where "s \<in> set fixed_devices" "e = dirent_new False (ascii s)"
    | (disk) k where "k < length (ahci_disks env)" "e = dirent_new False (ascii ''disk'' @ fmt_usize k)"
    | (nvme) i j where "i < length (nvme_disks env)" "j < length (nvme_disks env ! i)"
        "e = dirent_new False (ascii ''nvme'' @ fmt_usize i @ 45 # fmt_usize j)"
    | (usb) r where "r \<in> set (usb_disks env)" "online r" "e = dirent_new False (usb_name (rec_id r))"
    unfolding set_map image_iff by (elim disjE) fastforce+
  then show ?thesis
  proof cases
    case fixed
    then have "plain_name (ascii s)" by (auto simp: fixed_devices_def plain_name_def ascii_def DIRENT_NAME_CAP_def)
    then show ?thesis using dev_file_simple [OF assms(1), of s] fixed by (auto simp: plain_name_new)
  next
    case disk
    have "plain_name (ascii ''disk'' @ fmt_usize k)"
      using disk lim by (intro plain_fmt) (auto simp: plain_name_def ascii_def DIRENT_NAME_CAP_def)
    then show ?thesis using dev_file_disk [OF disk(1)] disk lim by (auto simp: plain_name_new)
  next
    case nvme
    have ij: "i < USIZE_LIMIT" "j < USIZE_LIMIT" using nvme lim nth_mem [OF nvme(1)] by (force intro: less_trans)+
    have "plain_name ((ascii ''nvme'' @ fmt_usize i @ [45]) @ fmt_usize j)"
      using fmt_usize_ok [OF ij(1)] ij
      by (intro plain_fmt) (auto simp: plain_name_def ascii_def DIRENT_NAME_CAP_def)
    then show ?thesis using dev_file_nvme [OF ij, of env] nvme by (auto simp: plain_name_new)
  next
    case usb
    have "plain_name ([117, 115, 98] @ fmt_usize (rec_id r))"
      using usb lim by (intro plain_fmt) (auto simp: plain_name_def DIRENT_NAME_CAP_def)
    then show ?thesis using dev_file_usb [OF assms(1) usb(1,2)] usb(3) by (auto simp: plain_name_new usb_name_def)
  qed
qed

definition sample_env :: dev_env where
  "sample_env = \<lparr>ahci_disks = [], nvme_disks = [[\<lparr>ns_block_count = 8, ns_block_size = 512, nvme_pos = 0\<rparr>]],
     usb_disks = [], initrd_module = Some (0, 1024)\<rparr>"

theorem dev_listing_opens_witness:
  "\<exists>node. dev_file sample_env (SLASH # dirent_name (dirent_new False (ascii ''nvme0-0''))) = Some (Some node)"
proof (rule dev_listing_opens)
  show "dev_env_ok sample_env" by (simp add: dev_env_ok_def sample_env_def)
  show "dirent_new False (ascii ''nvme0-0'') \<in> set (dev_entries sample_env)"
    by (simp add: dev_entries_def sample_env_def ascii_def fmt_usize.simps)
qed

text \<open>
  Opening an NVMe name whose controller exists and whose
  namespace does not is a panic, where an AHCI or USB name of a missing device is an error:
  \<^verbatim>\<open>nvme::open\<close> indexes the list of namespaces without a check.
\<close>

lemma nvme_missing_namespace_panics:
  assumes "i < length (nvme_disks env)" and "length (nvme_disks env ! i) \<le> j" and "i < USIZE_LIMIT" and "j < USIZE_LIMIT"
  shows "dev_file env (SLASH # ascii ''nvme'' @ fmt_usize i @ 45 # fmt_usize j) = None"
  using dev_file_nvme [OF assms(3,4), of env] assms(1,2) by simp

lemma nvme_missing_namespace_panics_example:
  "dev_file sample_env (ascii ''/nvme0-3'') = None"
  using nvme_missing_namespace_panics [of 0 sample_env 3]
  by (simp add: sample_env_def ascii_def SLASH_def fmt_usize.simps)

text \<open>
  However an application chooses the sizes of its buffers, successive
  calls of \<^verbatim>\<open>getdents\<close> on a directory deliver its entries in order, each once, and nothing
  after the last.
\<close>

lemma getdents_enumerates:
  "getdents_calls (snapshot_new es) ns = take (sum_list ns) es"
  by (simp add: getdents_calls_eq snapshot_new_def)

section \<open>Processes\<close>

lemma trim_pid:
  assumes "pid < USIZE_LIMIT"
  shows "trim_slashes (SLASH # fmt_usize pid) = fmt_usize pid"
    and "trim_slashes (SLASH # fmt_usize pid @ SLASH # ascii ''exe'') = fmt_usize pid @ SLASH # ascii ''exe''"
proof -
  have no: "SLASH \<notin> set (fmt_usize pid)" using fmt_usize_ok(4) [OF assms] .
  obtain b bs where f: "fmt_usize pid = b # bs" using fmt_usize_head by blast
  have b: "b \<noteq> SLASH" using no f by (auto simp: SLASH_def)
  have d: "dropWhile (\<lambda>b. b = SLASH) (SLASH # fmt_usize pid @ xs) = fmt_usize pid @ xs" for xs using b f by simp
  have "dropWhile (\<lambda>b. b = SLASH) (rev (fmt_usize pid)) = rev (fmt_usize pid)"
    using no by (intro dropWhile_id) (auto simp: SLASH_def)
  then show "trim_slashes (SLASH # fmt_usize pid) = fmt_usize pid"
    using d [of "[]"] by (simp add: trim_slashes_def)
  show "trim_slashes (SLASH # fmt_usize pid @ SLASH # ascii ''exe'') = fmt_usize pid @ SLASH # ascii ''exe''"
    using d [of "SLASH # ascii ''exe''"] by (simp add: trim_slashes_def ascii_def SLASH_def)
qed

lemma split_process_paths:
  assumes "pid < USIZE_LIMIT"
  shows "split_process_dir_path (SLASH # fmt_usize pid) = Some pid"
    and "split_process_file_path (SLASH # fmt_usize pid @ SLASH # ascii ''exe'') = Some (pid, ascii ''exe'')"
proof -
  have no: "SLASH \<notin> set (fmt_usize pid)" using fmt_usize_ok(4) [OF assms] .
  show "split_process_dir_path (SLASH # fmt_usize pid) = Some pid"
    using no fmt_usize_head [of pid] unfolding split_process_dir_path_def Let_def trim_pid [OF assms]
    by (auto simp: parse_usize_fmt [OF assms])
  have "position (\<lambda>b. b = SLASH) (fmt_usize pid @ SLASH # ascii ''exe'') = Some (length (fmt_usize pid))"
    using no by (intro position_append) auto
  then show "split_process_file_path (SLASH # fmt_usize pid @ SLASH # ascii ''exe'') = Some (pid, ascii ''exe'')"
    unfolding split_process_file_path_def Let_def trim_pid [OF assms] split_once_def
    by (simp add: parse_usize_fmt [OF assms]) (simp add: ascii_def SLASH_def)
qed

text \<open>
  The names listed at the root are the command
  line and the numbers of the tasks in the task table, in order. The directory of a number and the
  file \<^verbatim>\<open>exe\<close> in it can be opened exactly when there is a task of that number, and the file
  holds the path the task was started from.
\<close>

lemma procfs_shows_tasks:
  assumes "length ts < USIZE_LIMIT" and "pid < USIZE_LIMIT"
  shows "map dirent_name (proc_root_entries ts) =
      ascii ''cmdline'' # map fmt_usize (filter (\<lambda>t. task_at ts t \<noteq> None) [0..<length ts]) \<and>
    (proc_directory ts (SLASH # fmt_usize pid) \<noteq> None \<longleftrightarrow> task_at ts pid \<noteq> None) \<and>
    proc_file cmdline ts (SLASH # fmt_usize pid @ SLASH # ascii ''exe'') =
      map_option (\<lambda>p. \<lparr>text_data = (case exe_path p of Some e \<Rightarrow> e | None \<Rightarrow> []), text_pos = 0\<rparr>) (task_at ts pid)"
proof (intro conjI)
  have "plain_name (ascii ''cmdline'')" by (simp add: plain_name_def ascii_def DIRENT_NAME_CAP_def)
  moreover have "plain_name (fmt_usize t)" if "t < length ts" for t
    using plain_fmt [of t "[]"] that assms(1) by (simp add: plain_name_def DIRENT_NAME_CAP_def)
  moreover have "filter (\<lambda>t. task_at ts t \<noteq> None) [0..<length ts] = filter (\<lambda>t. ts ! t \<noteq> None) [0..<length ts]"
    by (intro filter_cong) (auto simp: task_at_def split: option.split)
  ultimately show "map dirent_name (proc_root_entries ts) =
      ascii ''cmdline'' # map fmt_usize (filter (\<lambda>t. task_at ts t \<noteq> None) [0..<length ts])"
    by (simp add: proc_root_entries_def plain_name_new)
  obtain b bs where "fmt_usize pid = b # bs" "b \<noteq> 43" using fmt_usize_head by blast
  then show "proc_directory ts (SLASH # fmt_usize pid) \<noteq> None \<longleftrightarrow> task_at ts pid \<noteq> None"
    using split_process_paths(1) [OF assms(2)] by (simp add: proc_directory_def split: option.split)
  have "SLASH # fmt_usize pid @ SLASH # ascii ''exe'' \<noteq> ascii ''/cmdline''"
  proof
    assume eq: "SLASH # fmt_usize pid @ SLASH # ascii ''exe'' = ascii ''/cmdline''"
    have "(99 :: u8) \<in> set (fmt_usize pid)"
      using eq \<open>fmt_usize pid = b # bs\<close> by (auto simp: ascii_def)
    then show False using fmt_usize_digits [of 99 pid] by simp
  qed
  then show "proc_file cmdline ts (SLASH # fmt_usize pid @ SLASH # ascii ''exe'') =
      map_option (\<lambda>p. \<lparr>text_data = (case exe_path p of Some e \<Rightarrow> e | None \<Rightarrow> []), text_pos = 0\<rparr>) (task_at ts pid)"
    using split_process_paths(2) [OF assms(2)] by (cases "task_at ts pid") (simp_all add: proc_file_def)
qed

lemma procfs_shows_tasks_example:
  "map dirent_name (proc_root_entries (tasks sample_sched)) =
     [ascii ''cmdline'', fmt_usize 0, fmt_usize 1, fmt_usize 3] \<and>
   proc_directory (tasks sample_sched) (SLASH # fmt_usize 2) = None"
proof -
  have "[t\<leftarrow>[0..<length (tasks sample_sched)] . task_at (tasks sample_sched) t \<noteq> None] = [0, 1, 3]"
    by (simp add: sample_sched_def task_at_def upt_rec)
  moreover have "task_at (tasks sample_sched) 2 = None" "length (tasks sample_sched) = 4"
    by (simp_all add: sample_sched_def task_at_def)
  ultimately show ?thesis using procfs_shows_tasks [of "tasks sample_sched" 2] by simp
qed

section \<open>Path lookup\<close>

definition mountpoint_ok :: "bytes \<Rightarrow> bool" where
  "mountpoint_ok m \<longleftrightarrow> m \<noteq> [] \<and> last m = SLASH"

definition finds :: "('fs \<Rightarrow> 'w \<Rightarrow> bytes \<Rightarrow> ('w \<times> 'r option) option) \<Rightarrow> 'w \<Rightarrow> bytes \<Rightarrow> bytes \<times> 'fs \<Rightarrow> bool" where
  "finds op w path m \<longleftrightarrow> starts_with path (fst m) \<and>
     (case op (snd m) w (drop (length (fst m) - 1) path) of Some (_, Some _) \<Rightarrow> True | _ \<Rightarrow> False)"

definition quiet :: "('fs \<Rightarrow> 'w \<Rightarrow> bytes \<Rightarrow> ('w \<times> 'r option) option) \<Rightarrow> bool" where
  "quiet op \<longleftrightarrow> (\<forall>f w p. (\<exists>w' x. op f w p = Some (w', Some x)) \<or> op f w p = Some (w, None))"

lemma str_from_mountpoint:
  assumes "mountpoint_ok m" and "starts_with path m"
  shows "str_from path (length m - 1) = Some (drop (length m - 1) path)"
proof -
  have "take (length m) path = m" using assms(2) by (simp add: starts_with_def)
  then have len: "length m \<le> length path" by (metis length_take min.absorb_iff2 min.commute)
  have "0 < length m" using assms(1) by (simp add: mountpoint_ok_def)
  then have "path ! (length m - 1) = last m"
    using \<open>take (length m) path = m\<close> assms(1) by (metis diff_less last_conv_nth mountpoint_ok_def nth_take zero_less_one)
  then have "\<not> utf8_cont (path ! (length m - 1))" using assms(1) by (simp add: mountpoint_ok_def SLASH_def utf8_cont_def)
  moreover have "length m - 1 < length path" using len \<open>0 < length m\<close> by linarith
  ultimately show ?thesis by (simp add: str_from_def)
qed

lemma lookup_mounts_append:
  assumes "\<forall>m\<in>set ms. mountpoint_ok (fst m)" and "quiet op"
  shows "lookup_mounts op w (ms @ rest) path =
    (case List.find (finds op w path) ms of
       Some (m, f) \<Rightarrow> op f w (drop (length m - 1) path)
     | None \<Rightarrow> lookup_mounts op w rest path)"
  using assms(1)
proof (induction ms)
  case Nil
  then show ?case by simp
next
  case (Cons mf ms)
  obtain m f where mf: "mf = (m, f)" by fastforce
  have ok: "mountpoint_ok m" using Cons.prems mf by simp
  then have n: "checked_sub (length m) 1 = Some (length m - 1)"
    by (cases m) (simp_all add: mountpoint_ok_def checked_sub_def)
  consider (hit) w' x where "op f w (drop (length m - 1) path) = Some (w', Some x)"
    | (miss) "op f w (drop (length m - 1) path) = Some (w, None)"
    using assms(2) unfolding quiet_def by blast
  then show ?case
    using Cons n str_from_mountpoint [OF ok, of path] by cases (auto simp: mf finds_def)
qed

text \<open>
  When the mount points are non-empty and end in a slash, and a file system
  that does not have a file leaves the world alone, a lookup never panics and is answered by the first
  mounted file system, in the order of mounting, whose mount point is a prefix of the path and which has
  the file, asked for the rest of the path with its leading slash; so the root file system shadows
  the device files. A mount point that is empty, which \<^verbatim>\<open>sys_mount\<close> accepts, makes every
  lookup panic that no file system mounted before it answers.
\<close>

lemma get_file_first_match:
  assumes "\<forall>m\<in>set ms. mountpoint_ok (fst m)" and "quiet (fs_file ops)"
  shows "get_file ops w ms path =
      (case List.find (finds (fs_file ops) w path) ms of
         Some (m, f) \<Rightarrow> fs_file ops f w (drop (length m - 1) path)
       | None \<Rightarrow> Some (w, None)) \<and>
    (List.find (finds (fs_file ops) w path) ms = None \<longrightarrow> get_file ops w (ms @ ([], f) # rest) path = None)"
  using lookup_mounts_append [OF assms, of w "[]" path] lookup_mounts_append [OF assms, of w "([], f) # rest" path]
  by (auto simp: get_file_def starts_with_def checked_sub_def split: option.splits)

text \<open>A file system that has one file, for the witness.\<close>

definition one_file_ops :: "(bytes, unit, bytes, unit) vfs_ops" where
  "one_file_ops = \<lparr>fs_file = (\<lambda>f w p. Some (w, if p = f then Some p else None)),
     fs_directory = (\<lambda>f w p. Some (w, None)), fs_create = (\<lambda>f w p. Some (w, None)), fs_remove = (\<lambda>f w p. Some (w, False))\<rparr>"

lemma get_file_first_match_example:
  "get_file one_file_ops () [([47], [47, 97]), ([47, 100, 47], [47, 98])] [47, 100, 47, 98] = Some ((), Some [47, 98]) \<and>
   get_file one_file_ops () [([47], [47, 97]), ([], [47])] [47, 99] = None"
proof -
  have q: "quiet (fs_file one_file_ops)" by (simp add: quiet_def one_file_ops_def)
  have ok: "\<forall>m\<in>set [([47 :: u8], [47 :: u8, 97]), ([47, 100, 47], [47, 98])]. mountpoint_ok (fst m)"
    "\<forall>m\<in>set [([47 :: u8], [47 :: u8, 97])]. mountpoint_ok (fst m)"
    by (simp_all add: mountpoint_ok_def SLASH_def)
  show ?thesis
    using get_file_first_match [OF ok(1) q, of "()" "[47, 100, 47, 98]"]
      get_file_first_match [OF ok(2) q, of "()" "[47, 99]" "[47]" "[]"]
    by (simp add: finds_def starts_with_def one_file_ops_def)
qed

end
