(* ===== verification/Hid.thy ===== *)
theory Hid
  imports Prelude
begin

text \<open>
  HID boot keyboards and mice, \<^verbatim>\<open>kernel/src/xhci/hid.rs\<close>, and the events of
  \<^verbatim>\<open>kernel/src/inputdev.rs\<close> they are decoded to. A decoder returns the scan codes or events in
  the order in which the source submits them. The terminal behind the events is the crate
  \<^verbatim>\<open>os_terminal\<close>.
\<close>

section \<open>Keyboards\<close>

type_synonym key_bitmap = bytes

definition mark :: "key_bitmap \<Rightarrow> u8 \<Rightarrow> key_bitmap" where
  "mark bitmap usage =
     (let i = unat (usage div 8) in bitmap[i := bitmap ! i OR push_bit (unat (usage mod 8)) 1])"

definition marked :: "key_bitmap \<Rightarrow> u8 \<Rightarrow> bool" where
  "marked bitmap usage = (bitmap ! unat (usage div 8) AND push_bit (unat (usage mod 8)) 1 \<noteq> 0)"

text \<open>The usages of the keyboard page that have a Set-1 scan code.\<close>

definition set1_table :: "(u8 \<times> u8) list" where
  "set1_table =
     [(0x04, 0x1e), (0x05, 0x30), (0x06, 0x2e), (0x07, 0x20), (0x08, 0x12), (0x09, 0x21), (0x0a, 0x22),
      (0x0b, 0x23), (0x0c, 0x17), (0x0d, 0x24), (0x0e, 0x25), (0x0f, 0x26), (0x10, 0x32), (0x11, 0x31),
      (0x12, 0x18), (0x13, 0x19), (0x14, 0x10), (0x15, 0x13), (0x16, 0x1f), (0x17, 0x14), (0x18, 0x16),
      (0x19, 0x2f), (0x1a, 0x11), (0x1b, 0x2d), (0x1c, 0x15), (0x1d, 0x2c), (0x1e, 0x02), (0x1f, 0x03),
      (0x20, 0x04), (0x21, 0x05), (0x22, 0x06), (0x23, 0x07), (0x24, 0x08), (0x25, 0x09), (0x26, 0x0a),
      (0x27, 0x0b), (0x28, 0x1c), (0x29, 0x01), (0x2a, 0x0e), (0x2b, 0x0f), (0x2c, 0x39), (0x2d, 0x0c),
      (0x2e, 0x0d), (0x2f, 0x1a), (0x30, 0x1b), (0x31, 0x2b), (0x33, 0x27), (0x34, 0x28), (0x35, 0x29),
      (0x36, 0x33), (0x37, 0x34), (0x38, 0x35), (0x39, 0x3a), (0xe0, 0x1d), (0xe4, 0x1d), (0xe1, 0x2a),
      (0xe5, 0x2a), (0xe2, 0x38), (0xe6, 0x38)]"

definition set1_usage :: "u8 \<Rightarrow> u8 option" where
  "set1_usage usage = map_of set1_table usage"

record KeyboardState =
  pressed :: key_bitmap

definition keyboard_new :: KeyboardState where
  "keyboard_new = \<lparr>pressed = replicate 32 0\<rparr>"

definition report_bitmap :: "bytes \<Rightarrow> key_bitmap" where
  "report_bitmap report =
     (let next = foldl (\<lambda>bm m. if report ! 0 AND push_bit m 1 \<noteq> 0 then mark bm (0xe0 + of_nat m) else bm)
                   (replicate 32 0) [0..<8] in
      foldl (\<lambda>bm usage. if usage \<noteq> 0 then mark bm usage else bm) next (take 6 (drop 2 report)))"

definition all_usages :: "u8 list" where
  "all_usages = map of_nat [0..<256]"

definition for_each_scancode :: "KeyboardState \<Rightarrow> bytes \<Rightarrow> KeyboardState \<times> u8 list" where
  "for_each_scancode s report =
     (if length report < 8 \<or> 1 \<in> set (take 6 (drop 2 report)) then (s, [])
      else
        let next = report_bitmap report;
            released = List.map_filter (\<lambda>usage.
              if marked (pressed s) usage \<and> \<not> marked next usage
              then map_option (\<lambda>scancode. scancode OR 0x80) (set1_usage usage) else None) all_usages;
            made = List.map_filter (\<lambda>usage.
              if \<not> marked (pressed s) usage \<and> marked next usage then set1_usage usage else None) all_usages in
        (s\<lparr>pressed := next\<rparr>, released @ made))"

section \<open>Mice\<close>

datatype MouseButtonKind = LeftButton | RightButton | MiddleButton

datatype MouseEvent = Move int int | Scroll int | Button MouseButtonKind bool

record MouseState =
  buttons :: u8

definition mouse_new :: MouseState where
  "mouse_new = \<lparr>buttons = 0\<rparr>"

definition for_each_event :: "MouseState \<Rightarrow> bytes \<Rightarrow> MouseState \<times> MouseEvent list" where
  "for_each_event s report =
     (if length report < 3 then (s, [])
      else
        let bs = report ! 0 AND 0x07;
            clicks = List.map_filter (\<lambda>(b, button).
              if (bs XOR buttons s) AND push_bit b 1 \<noteq> 0
              then Some (Button button (bs AND push_bit b 1 \<noteq> 0)) else None)
              [(0, LeftButton), (1, RightButton), (2, MiddleButton)];
            x = sint (report ! 1);
            y = sint (report ! 2);
            moves = (if x \<noteq> 0 \<or> y \<noteq> 0 then [Move x (- y)] else []);
            scrolls = (case nth_opt report 3 of
                         None \<Rightarrow> []
                       | Some wheel \<Rightarrow> (let lines = sint wheel in if lines \<noteq> 0 then [Scroll lines] else [])) in
        (s\<lparr>buttons := bs\<rparr>, clicks @ moves @ scrolls))"

section \<open>The bitmap is a set of usages\<close>

definition usages :: "key_bitmap \<Rightarrow> u8 set" where
  "usages bm = {u. marked bm u}"

lemma usage_index: "unat (usage div 8 :: u8) < 32"
proof -
  have "unat usage < 256" using unat_less [of usage] by simp
  then show ?thesis by (simp add: unat_div)
qed

lemma usage_split: "(u :: u8) = v \<longleftrightarrow> u div 8 = v div 8 \<and> u mod 8 = v mod 8"
  by (metis div_mult_mod_eq)

lemma single_bit: "(w :: u8) AND 2 ^ k = 0 \<longleftrightarrow> \<not> (k < 8 \<and> bit w k)"
proof -
  have "w AND 2 ^ k \<noteq> 0 \<longleftrightarrow> (\<exists>n. bit (w AND 2 ^ k) n)"
    by (metis bit_0_eq bit_eqI bot_apply bot_bool_def)
  also have "\<dots> \<longleftrightarrow> k < 8 \<and> bit w k"
    by (auto simp: bit_simps dest: bit_imp_le_length)
  finally show ?thesis by blast
qed

lemma marked_mark:
  assumes "length bm = 32"
  shows "marked (mark bm u) v \<longleftrightarrow> v = u \<or> marked bm v"
proof -
  have m: "unat (w mod 8 :: u8) < 8" for w using unat_mod [of w 8] by simp
  have eq: "u mod 8 = v mod 8 \<longleftrightarrow> unat (u mod 8) = unat (v mod 8)" by (simp add: word_unat_eq_iff)
  show ?thesis
  proof (cases "u div 8 = v div 8")
    case True
    then show ?thesis using assms usage_index [of u] m [of u] m [of v] usage_split [of u v] eq
      by (auto simp: marked_def mark_def Let_def single_bit bit_simps)
  next
    case False
    then have "unat (u div 8) \<noteq> unat (v div 8)" by (simp add: word_unat_eq_iff)
    then show ?thesis using False usage_split [of u v] by (auto simp: marked_def mark_def Let_def)
  qed
qed

lemma length_mark [simp]: "length (mark bm u) = length bm"
  by (simp add: mark_def Let_def)

lemma usages_mark [simp]: "length bm = 32 \<Longrightarrow> usages (mark bm u) = insert u (usages bm)"
  by (auto simp: usages_def marked_mark)

lemma length_fold_mark: "length (foldl (\<lambda>bm x. if P x then mark bm (f x) else bm) bm xs) = length bm"
  by (induction xs arbitrary: bm) auto

lemma usages_fold_mark:
  "length bm = 32 \<Longrightarrow>
   usages (foldl (\<lambda>bm x. if P x then mark bm (f x) else bm) bm xs) = usages bm \<union> f ` {x \<in> set xs. P x}"
proof (induction xs arbitrary: bm)
  case Nil
  then show ?case by simp
next
  case (Cons x xs)
  show ?case using Cons.IH [of "if P x then mark bm (f x) else bm"] Cons.prems by auto
qed

definition report_keys :: "bytes \<Rightarrow> u8 set" where
  "report_keys r = (\<lambda>m. 0xe0 + of_nat m) ` {m. m < 8 \<and> bit (r ! 0) m} \<union> (set (take 6 (drop 2 r)) - {0})"

lemma usages_empty [simp]: "usages (replicate 32 0) = {}"
  using usage_index by (auto simp: usages_def marked_def)

lemma report_bitmap_keys:
  shows "usages (report_bitmap r) = report_keys r" and "length (report_bitmap r) = 32"
proof -
  have "{m \<in> set [0..<8]. r ! 0 AND push_bit m 1 \<noteq> 0} = {m. m < 8 \<and> bit (r ! 0) m}"
    by (auto simp: single_bit)
  then show "usages (report_bitmap r) = report_keys r"
    unfolding report_bitmap_def Let_def report_keys_def
    by (subst usages_fold_mark) (auto simp: length_fold_mark usages_fold_mark simp del: set_upt upt_conv_Cons)
  show "length (report_bitmap r) = 32" by (simp add: report_bitmap_def Let_def length_fold_mark)
qed

section \<open>Keys that are held down\<close>

text \<open>
  What a consumer of scan codes believes: a make code adds a key to those held down, a break code, which
  has bit 7 set, removes it.
\<close>

fun track :: "u8 set \<Rightarrow> u8 list \<Rightarrow> u8 set" where
  "track H [] = H"
| "track H (c # cs) = track (if bit c 7 then H - {c AND 0x7f} else insert c H) cs"

definition scan_codes :: "u8 set \<Rightarrow> u8 set" where
  "scan_codes U = {c. \<exists>u\<in>U. set1_usage u = Some c}"

fun run_reports :: "KeyboardState \<Rightarrow> bytes list \<Rightarrow> KeyboardState \<times> u8 list" where
  "run_reports s [] = (s, [])"
| "run_reports s (r # rs) =
     (case for_each_scancode s r of (s', cs) \<Rightarrow> (case run_reports s' rs of (s'', cs') \<Rightarrow> (s'', cs @ cs')))"

lemma track_append: "track H (xs @ ys) = track (track H xs) ys"
  by (induction H xs rule: track.induct) auto

lemma track_breaks: "\<forall>c\<in>set cs. bit c 7 \<Longrightarrow> track H cs = H - (\<lambda>c. c AND 0x7f) ` set cs"
  by (induction cs arbitrary: H) auto

lemma track_makes: "\<forall>c\<in>set cs. \<not> bit c 7 \<Longrightarrow> track H cs = H \<union> set cs"
  by (induction cs arbitrary: H) auto

lemma set1_code:
  assumes "set1_usage u = Some c"
  shows "\<not> bit c 7" and "bit (c OR 0x80) 7" and "(c OR 0x80) AND 0x7f = c"
proof -
  have "\<forall>(u, c) \<in> set set1_table. \<not> bit c 7 \<and> bit (c OR 0x80) 7 \<and> (c OR 0x80) AND 0x7f = c"
    by (simp add: set1_table_def)
  then show "\<not> bit c 7" and "bit (c OR 0x80) 7" and "(c OR 0x80) AND 0x7f = c"
    using map_of_SomeD [of set1_table u c] assms unfolding set1_usage_def by blast+
qed

lemma all_usages_UNIV: "set all_usages = UNIV"
proof -
  have "u \<in> of_nat ` {0..<256}" for u :: u8
    using unat_less [of u] by (intro image_eqI [of _ _ "unat u"]) simp_all
  then show ?thesis by (auto simp: all_usages_def)
qed

lemma set_map_filter: "set (List.map_filter f xs) = {y. \<exists>x\<in>set xs. f x = Some y}"
  by (induction xs) (auto simp: List.map_filter_simps split: option.splits)

lemma track_report:
  assumes "\<not> (length r < 8 \<or> 1 \<in> set (take 6 (drop 2 r)))"
  shows "track H (snd (for_each_scancode s r)) =
    (H - scan_codes (usages (pressed s) - report_keys r)) \<union> scan_codes (report_keys r - usages (pressed s))"
proof -
  let ?P = "usages (pressed s)" and ?N = "report_keys r"
  define rel where "rel = List.map_filter (\<lambda>usage. if marked (pressed s) usage \<and> \<not> marked (report_bitmap r) usage
      then map_option (\<lambda>scancode. scancode OR 0x80) (set1_usage usage) else None) all_usages"
  define made where "made = List.map_filter (\<lambda>usage. if \<not> marked (pressed s) usage \<and> marked (report_bitmap r) usage
      then set1_usage usage else None) all_usages"
  have m: "marked (report_bitmap r) u \<longleftrightarrow> u \<in> ?N" "marked (pressed s) u \<longleftrightarrow> u \<in> ?P" for u
    using report_bitmap_keys(1) [of r] by (auto simp: usages_def)
  have rel: "set rel = (\<lambda>c. c OR 0x80) ` scan_codes (?P - ?N)"
    unfolding rel_def set_map_filter all_usages_UNIV m scan_codes_def by (auto split: if_splits)
  have made: "set made = scan_codes (?N - ?P)"
    unfolding made_def set_map_filter all_usages_UNIV m scan_codes_def by (auto split: if_splits)
  have "track H rel = H - (\<lambda>c. c AND 0x7f) ` set rel"
    by (rule track_breaks) (auto simp: rel scan_codes_def set1_code)
  also have "(\<lambda>c. c AND 0x7f) ` set rel = scan_codes (?P - ?N)"
  proof -
    have "(\<lambda>c. (c OR 0x80) AND 0x7f) ` scan_codes (?P - ?N) = (\<lambda>c. c) ` scan_codes (?P - ?N)"
      by (rule image_cong [OF refl]) (auto simp: scan_codes_def set1_code)
    then show ?thesis unfolding rel image_image by simp
  qed
  finally have "track H (rel @ made) = (H - scan_codes (?P - ?N)) \<union> set made"
    unfolding track_append by (subst track_makes) (auto simp: made scan_codes_def set1_code)
  moreover have "snd (for_each_scancode s r) = rel @ made"
    using assms by (simp add: for_each_scancode_def Let_def rel_def made_def)
  ultimately show ?thesis using made by simp
qed

definition no_shared_code :: "u8 set \<Rightarrow> bool" where
  "no_shared_code U \<longleftrightarrow> (\<forall>u\<in>U. \<forall>v\<in>U. set1_usage u \<noteq> None \<longrightarrow> set1_usage u = set1_usage v \<longrightarrow> u = v)"

lemma scan_codes_update:
  assumes "no_shared_code P"
  shows "(scan_codes P - scan_codes (P - N)) \<union> scan_codes (N - P) = scan_codes N"
proof -
  have "scan_codes P - scan_codes (P - N) = scan_codes (P \<inter> N)"
    using assms unfolding no_shared_code_def scan_codes_def by fastforce
  moreover have "scan_codes (P \<inter> N) \<union> scan_codes (N - P) = scan_codes N" by (auto simp: scan_codes_def)
  ultimately show ?thesis by simp
qed

lemma run_reports_track:
  assumes "no_shared_code (usages (pressed s))" and "\<forall>r\<in>set rs. no_shared_code (report_keys r)"
  shows "track (scan_codes (usages (pressed s))) (snd (run_reports s rs)) =
    scan_codes (usages (pressed (fst (run_reports s rs))))"
  using assms
proof (induction rs arbitrary: s)
  case Nil
  then show ?case by simp
next
  case (Cons r rs)
  obtain s' cs where s': "for_each_scancode s r = (s', cs)" by fastforce
  have "track (scan_codes (usages (pressed s))) cs = scan_codes (usages (pressed s')) \<and> no_shared_code (usages (pressed s'))"
  proof (cases "length r < 8 \<or> 1 \<in> set (take 6 (drop 2 r))")
    case True
    then have "s' = s" "cs = []" using s' by (auto simp: for_each_scancode_def)
    then show ?thesis using Cons.prems(1) by simp
  next
    case False
    then have "usages (pressed s') = report_keys r"
      using s' by (auto simp: for_each_scancode_def Let_def report_bitmap_keys)
    then show ?thesis
      using track_report [OF False, of "scan_codes (usages (pressed s))" s] scan_codes_update [OF Cons.prems(1)]
        Cons.prems(2) s' by simp
  qed
  then show ?case using Cons.IH [of s'] Cons.prems(2) s' by (cases "run_reports s' rs") (simp add: track_append)
qed

section \<open>Properties\<close>


lemma report_keys_eval:
  "report_keys r = (\<lambda>m. 0xe0 + of_nat m) ` set (filter (bit (r ! 0)) [0..<8]) \<union> (set (take 6 (drop 2 r)) - {0})"
proof -
  have "{m. m < 8 \<and> bit (r ! 0) m} = set (filter (bit (r ! 0)) [0..<8])"
    unfolding set_filter set_upt by auto
  then show ?thesis by (simp only: report_keys_def)
qed


text \<open>
  The two keys of a modifier have the same scan code, so that
  letting go of one while the other is held down submits a break code: after a report with both Shift
  keys and one with the right Shift key only, a consumer believes no key is down although the right Shift
  key is.
\<close>

lemma keyboard_shared_modifier:
  "let (s, cs) = run_reports keyboard_new [[0x22, 0, 0, 0, 0, 0, 0, 0], [0x20, 0, 0, 0, 0, 0, 0, 0]] in
   track {} cs = {} \<and> marked (pressed s) 0xe5 \<and> set1_usage 0xe5 = Some 0x2a"
proof -
  let ?r1 = "[0x22, 0, 0, 0, 0, 0, 0, 0] :: bytes" and ?r2 = "[0x20, 0, 0, 0, 0, 0, 0, 0] :: bytes"
  have k: "report_keys ?r1 = {0xe1, 0xe5}" "report_keys ?r2 = {0xe5}"
    by (auto simp: report_keys_eval upt_rec)
  obtain s1 c1 where 1: "for_each_scancode keyboard_new ?r1 = (s1, c1)" by fastforce
  obtain s2 c2 where 2: "for_each_scancode s1 ?r2 = (s2, c2)" by fastforce
  have u1: "usages (pressed s1) = {0xe1, 0xe5}"
    using 1 by (auto simp: for_each_scancode_def Let_def report_bitmap_keys k)
  have u2: "usages (pressed s2) = {0xe5}"
    using 2 by (auto simp: for_each_scancode_def Let_def report_bitmap_keys k)
  have sc: "scan_codes {0xe1, 0xe5} = {0x2a}" "scan_codes {0xe1} = {0x2a}" "scan_codes {} = {}"
    by (auto simp: scan_codes_def set1_usage_def set1_table_def)
  have "usages (pressed keyboard_new) = {}" by (simp add: keyboard_new_def)
  then have "track {} c1 = {0x2a}" using track_report [of ?r1 "{}" keyboard_new] 1 by (simp add: k sc)
  moreover have "{0xe1, 0xe5} - {0xe5 :: u8} = {0xe1}" "{0xe5} - {0xe1, 0xe5 :: u8} = {}" by auto
  ultimately have "track (track {} c1) c2 = {}" using track_report [of ?r2 "{0x2a}" s1] 2 by (simp add: k u1 sc)
  moreover have "marked (pressed s2) 0xe5" using u2 by (auto simp: usages_def)
  ultimately show ?thesis using 1 2 by (simp add: track_append) (simp add: set1_usage_def set1_table_def)
qed

end
