(* ===== verification/Bulk.thy ===== *)
theory Bulk
  imports Ring
begin

text \<open>
  Bulk transfers of a single descriptor, \<^verbatim>\<open>kernel/src/xhci/bulk.rs\<close>.
\<close>

definition MAX_TD_TRANSFER :: nat where "MAX_TD_TRANSFER = 0x10000"
definition TRB_IOC :: u32 where "TRB_IOC = push_bit 5 1"
definition TRB_DIR_IN :: u32 where "TRB_DIR_IN = push_bit 16 1"

datatype BulkError = BulkEmpty | TooLarge | BulkFailed CompletionCode | InvalidResidual | BulkShortPacket

record BulkCompletion =
  transferred :: nat
  short_packet :: bool

definition normal_trb :: "u64 \<Rightarrow> nat \<Rightarrow> bool \<Rightarrow> bool \<Rightarrow> BulkError + Trb" where
  "normal_trb buffer len in_direction cycle =
     (if len = 0 then Inl BulkEmpty
      else if len > MAX_TD_TRANSFER then Inl TooLarge
      else Inr \<lparr>parameter = buffer, status = of_nat len,
        control = TRB_TYPE_NORMAL OR TRB_IOC OR (if in_direction then TRB_DIR_IN else 0) OR
          (if cycle then TRB_CYCLE else 0)\<rparr>)"

definition bulk_completion :: "CompletionCode \<Rightarrow> nat \<Rightarrow> nat \<Rightarrow> bool \<Rightarrow> BulkError + BulkCompletion" where
  "bulk_completion code requested residual in_direction =
     (if residual > requested then Inl InvalidResidual
      else if code = Success \<and> residual = 0 then Inr \<lparr>transferred = requested, short_packet = False\<rparr>
      else if (code = Success \<or> code = ShortPacket) \<and> in_direction then
        Inr \<lparr>transferred = requested - residual, short_packet = (residual \<noteq> 0 \<or> code = ShortPacket)\<rparr>
      else if code = ShortPacket then Inl BulkShortPacket
      else Inl (BulkFailed code))"

section \<open>Lemmas\<close>

lemma normal_trb_ok:
  "normal_trb buffer len dir cycle = Inr t \<Longrightarrow>
   0 < len \<and> len \<le> MAX_TD_TRANSFER \<and> unat (status t) = len \<and> trb_cycle t = cycle \<and>
   control t AND TRB_TYPE_MASK = TRB_TYPE_NORMAL"
  by (auto simp: normal_trb_def MAX_TD_TRANSFER_def trb_cycle_def trb_consts TRB_IOC_def TRB_DIR_IN_def
      unat_of_nat take_bit_nat_eq_self split: if_splits)

lemma bulk_out_complete:
  "bulk_completion code req res False = Inr c \<Longrightarrow> code = Success \<and> res = 0 \<and> transferred c = req \<and> \<not> short_packet c"
  by (auto simp: bulk_completion_def split: if_splits)

lemma bulk_in_bounded:
  "bulk_completion code req res True = Inr c \<Longrightarrow>
   transferred c + res = req \<and> (short_packet c \<longleftrightarrow> res \<noteq> 0 \<or> code = ShortPacket)"
  by (auto simp: bulk_completion_def split: if_splits)

end
