(* ===== verification/Paging.thy ===== *)
theory Paging
  imports PageAlloc
begin

text \<open>
  The address spaces of the processes: copying and freeing page tables, the functions \<^verbatim>\<open>r_copy\<close>,
  \<^verbatim>\<open>r_free\<close>, \<^verbatim>\<open>free_page_tables\<close> and the first halves of \<^verbatim>\<open>t0_p4_table\<close>
  and \<^verbatim>\<open>copy_process\<close> of \<^verbatim>\<open>kernel/src/task/process.rs\<close>. Page tables live in physical
  memory, which is a function from the address of a page and the index of a 64-bit word to the word, and
  are changed in place: aliasing is visible to the model. The accessors of a page table entry come from the
  crate \<^verbatim>\<open>x86_64\<close>; they are the argument \<open>po\<close>, and the locale \<open>page_entries\<close> states
  their documented laws. \<^term>\<open>None\<close> is a panic.
\<close>

section \<open>Page tables in memory\<close>

definition PRESENT :: u64 where "PRESENT = 1"
definition WRITABLE :: u64 where "WRITABLE = 2"
definition USER_ACCESSIBLE :: u64 where "USER_ACCESSIBLE = 4"
definition HUGE_PAGE :: u64 where "HUGE_PAGE = 0x80"

text \<open>The number of entries of a page table.\<close>

definition ENTRY_COUNT :: nat where "ENTRY_COUNT = 512"

text \<open>
  \<open>pte_addr\<close> and \<open>pte_flags\<close> read an entry, \<open>pte_make\<close> is the entry that \<^verbatim>\<open>set_addr\<close>
  writes.
\<close>

record pte_ops =
  pte_addr :: "u64 \<Rightarrow> u64"
  pte_flags :: "u64 \<Rightarrow> u64"
  pte_make :: "u64 \<Rightarrow> u64 \<Rightarrow> u64"

record paging =
  pg_alloc :: page_man
  pg_mem :: "nat \<Rightarrow> nat \<Rightarrow> u64"
  pg_log :: "nat list"

definition contains :: "u64 \<Rightarrow> u64 \<Rightarrow> bool" where
  "contains flags f \<longleftrightarrow> flags AND f = f"

definition put :: "paging \<Rightarrow> nat \<Rightarrow> nat \<Rightarrow> u64 \<Rightarrow> paging" where
  "put s a i w = s\<lparr>pg_mem := (pg_mem s)(a := (pg_mem s a)(i := w))\<rparr>"

definition zero_table :: "paging \<Rightarrow> nat \<Rightarrow> paging" where
  "zero_table s a = s\<lparr>pg_mem := (pg_mem s)(a := (\<lambda>_. 0))\<rparr>"

text \<open>\<^verbatim>\<open>alloc_physical_page().unwrap()\<close>\<close>

definition take_page :: "bit_ops \<Rightarrow> paging \<Rightarrow> (paging \<times> nat) option" where
  "take_page bo s =
     do { (pm, r) \<leftarrow> alloc_physical_page bo (pg_alloc s); a \<leftarrow> r; Some (s\<lparr>pg_alloc := pm\<rparr>, a) }"

definition give_page :: "bit_ops \<Rightarrow> paging \<Rightarrow> nat \<Rightarrow> paging option" where
  "give_page bo s a =
     do { (pm, ws) \<leftarrow> dealloc_physical_page bo (pg_alloc s) a;
          Some (s\<lparr>pg_alloc := pm, pg_log := pg_log s @ ws\<rparr>) }"

text \<open>\<^verbatim>\<open>PhysAddr::new\<close> panics on an address of more than 52 bits.\<close>

definition phys_addr :: "nat \<Rightarrow> u64 option" where
  "phys_addr a = (if a < 2 ^ 52 then Some (of_nat a) else None)"

fun each :: "('a \<Rightarrow> 's \<Rightarrow> 's option) \<Rightarrow> 'a list \<Rightarrow> 's \<Rightarrow> 's option" where
  "each f [] s = Some s"
| "each f (x # xs) s = do { s' \<leftarrow> f x s; each f xs s' }"

section \<open>Copying\<close>

text \<open>One round of the loop of \<^verbatim>\<open>r_copy\<close>; \<open>rec\<close> is the call for the next level.\<close>

definition copy_entry ::
  "bit_ops \<Rightarrow> pte_ops \<Rightarrow> (paging \<Rightarrow> nat \<Rightarrow> nat \<Rightarrow> bool \<Rightarrow> bool \<Rightarrow> paging option) \<Rightarrow> nat \<Rightarrow> nat \<Rightarrow> nat \<Rightarrow> bool \<Rightarrow> bool \<Rightarrow>
   nat \<Rightarrow> paging \<Rightarrow> paging option" where
  "copy_entry bo po rec level src dst copying_process is_user_page index s =
     (let entry = pg_mem s src index; flags = pte_flags po entry in
      if \<not> contains flags PRESENT then Some s
      else if level = 1 \<or> contains flags HUGE_PAGE then
        do { (s, flags) \<leftarrow>
               (if is_user_page then
                  do { pm \<leftarrow> page_incref (pg_alloc s) (unat (pte_addr po entry));
                       let s = s\<lparr>pg_alloc := pm\<rparr>;
                       if copying_process then
                         (let flags = flags AND NOT WRITABLE in
                          Some (put s src index (pte_make po (pte_addr po entry) flags), flags))
                       else Some (s, flags) }
                else Some (s, flags));
             Some (put s dst index (pte_make po (pte_addr po (pg_mem s src index)) (flags OR USER_ACCESSIBLE))) }
      else
        let new_addr = pte_addr po entry in
        if new_addr > push_bit 32 1 then Some s
        else
          do { (s, new_table_pa) \<leftarrow> take_page bo s;
               pa \<leftarrow> phys_addr new_table_pa;
               let s = put s dst index (pte_make po pa (flags OR USER_ACCESSIBLE));
               rec s (unat new_addr) new_table_pa copying_process
                 (if level = 4 then index < 256 else is_user_page) })"

primrec r_copy ::
  "bit_ops \<Rightarrow> pte_ops \<Rightarrow> nat \<Rightarrow> paging \<Rightarrow> nat \<Rightarrow> nat \<Rightarrow> bool \<Rightarrow> bool \<Rightarrow> paging option" where
  "r_copy bo po 0 s src dst copying_process is_user_page = None"
| "r_copy bo po (Suc l) s src dst copying_process is_user_page =
     each (copy_entry bo po (r_copy bo po l) (Suc l) src dst copying_process is_user_page) [0..<ENTRY_COUNT]
       (zero_table s dst)"

text \<open>The page table of task 0 and of a forked process: a new top level and a copy of the old tables.\<close>

definition t0_p4_table :: "bit_ops \<Rightarrow> pte_ops \<Rightarrow> nat \<Rightarrow> paging \<Rightarrow> (paging \<times> nat) option" where
  "t0_p4_table bo po kernel_p4t s =
     do { (s, p4t) \<leftarrow> take_page bo s; s \<leftarrow> r_copy bo po 4 s kernel_p4t p4t False False; Some (s, p4t) }"

definition copy_tables :: "bit_ops \<Rightarrow> pte_ops \<Rightarrow> nat \<Rightarrow> paging \<Rightarrow> (paging \<times> nat) option" where
  "copy_tables bo po p4 s =
     do { (s, p4t) \<leftarrow> take_page bo s; s \<leftarrow> r_copy bo po 4 s p4 p4t True False; Some (s, p4t) }"

section \<open>Freeing\<close>

definition free_entry ::
  "bit_ops \<Rightarrow> pte_ops \<Rightarrow> (paging \<Rightarrow> nat \<Rightarrow> bool \<Rightarrow> bool \<Rightarrow> paging option) \<Rightarrow> nat \<Rightarrow> nat \<Rightarrow> bool \<Rightarrow> bool \<Rightarrow>
   nat \<Rightarrow> paging \<Rightarrow> paging option" where
  "free_entry bo po rec level target user_only is_user_page idx s =
     (let entry = pg_mem s target idx; flags = pte_flags po entry in
      if \<not> contains flags PRESENT then Some s
      else if level = 1 \<or> contains flags HUGE_PAGE then
        (if \<not> user_only \<or> is_user_page then
           (let addr = unat (pte_addr po entry); s = put s target idx 0 in
            if is_user_page then
              do { pm \<leftarrow> page_decref (pg_alloc s) addr;
                   let s = s\<lparr>pg_alloc := pm\<rparr>;
                   r \<leftarrow> page_getref pm addr;
                   if r = 0 then give_page bo s addr else Some s }
            else Some s)
         else Some s)
      else
        let target_is_user_page = (if level = 4 then idx < 256 else is_user_page) in
        if \<not> user_only \<or> target_is_user_page then
          do { let new_pa = unat (pte_addr po entry);
               s \<leftarrow> rec s new_pa user_only target_is_user_page;
               give_page bo (put s target idx 0) new_pa }
        else Some s)"

primrec r_free ::
  "bit_ops \<Rightarrow> pte_ops \<Rightarrow> nat \<Rightarrow> paging \<Rightarrow> nat \<Rightarrow> bool \<Rightarrow> bool \<Rightarrow> paging option" where
  "r_free bo po 0 s target user_only is_user_page = None"
| "r_free bo po (Suc l) s target user_only is_user_page =
     each (free_entry bo po (r_free bo po l) (Suc l) target user_only is_user_page)
       (if Suc l = 4 \<and> user_only then [0..<256] else [0..<ENTRY_COUNT]) s"

definition free_page_tables :: "bit_ops \<Rightarrow> pte_ops \<Rightarrow> nat \<Rightarrow> bool \<Rightarrow> paging \<Rightarrow> paging option" where
  "free_page_tables bo po p4 user_only s =
     do { s \<leftarrow> r_free bo po 4 s p4 user_only False;
          if \<not> user_only then give_page bo s p4 else Some s }"

section \<open>Address spaces\<close>

text \<open>
  What the tables below an entry mean: nothing, a frame with its flags, or a directory of 512 of these. The
  tables a directory occupies are listed by \<open>tabs\<close>; an entry of a table of level \<open>Suc l\<close> has depth
  \<open>l\<close>.
\<close>

datatype space = Hole | Frame u64 u64 | Dir u64 "space list"

definition is_dir_entry :: "pte_ops \<Rightarrow> u64 \<Rightarrow> bool" where
  "is_dir_entry po w \<longleftrightarrow> contains (pte_flags po w) PRESENT \<and> \<not> contains (pte_flags po w) HUGE_PAGE"

primrec space_of :: "pte_ops \<Rightarrow> (nat \<Rightarrow> nat \<Rightarrow> u64) \<Rightarrow> nat \<Rightarrow> u64 \<Rightarrow> space" where
  "space_of po m 0 w =
     (if contains (pte_flags po w) PRESENT then Frame (pte_addr po w) (pte_flags po w) else Hole)"
| "space_of po m (Suc l) w =
     (if is_dir_entry po w then
        Dir (pte_flags po w) (map (\<lambda>i. space_of po m l (m (unat (pte_addr po w)) i)) [0..<ENTRY_COUNT])
      else if contains (pte_flags po w) PRESENT then Frame (pte_addr po w) (pte_flags po w) else Hole)"

primrec tabs :: "pte_ops \<Rightarrow> (nat \<Rightarrow> nat \<Rightarrow> u64) \<Rightarrow> nat \<Rightarrow> u64 \<Rightarrow> nat list" where
  "tabs po m 0 w = []"
| "tabs po m (Suc l) w =
     (if is_dir_entry po w then
        unat (pte_addr po w) # concat (map (\<lambda>i. tabs po m l (m (unat (pte_addr po w)) i)) [0..<ENTRY_COUNT])
      else [])"

fun frames :: "space \<Rightarrow> nat list" where
  "frames Hole = []"
| "frames (Frame a f) = [unat a div 4096]"
| "frames (Dir f ss) = concat (map frames ss)"

text \<open>What a copy makes of a space: in the parent, and in the child.\<close>

fun write_protect :: "space \<Rightarrow> space" where
  "write_protect Hole = Hole"
| "write_protect (Frame a f) = Frame a (f AND NOT WRITABLE)"
| "write_protect (Dir f ss) = Dir f (map write_protect ss)"

fun user_space :: "space \<Rightarrow> space" where
  "user_space Hole = Hole"
| "user_space (Frame a f) = Frame a (f OR USER_ACCESSIBLE)"
| "user_space (Dir f ss) = Dir (f OR USER_ACCESSIBLE) (map user_space ss)"

section \<open>The format of an entry\<close>

definition ADDR_MASK :: u64 where
  "ADDR_MASK = push_bit 12 (mask 40)"

definition frame_addr :: "u64 \<Rightarrow> bool" where
  "frame_addr a \<longleftrightarrow> a AND ADDR_MASK = a"

definition legal_flags :: "u64 \<Rightarrow> bool" where
  "legal_flags f \<longleftrightarrow> f AND ADDR_MASK = 0"

lemma bit_ADDR_MASK: "bit ADDR_MASK n \<longleftrightarrow> 12 \<le> n \<and> n < 52"
  by (auto simp: ADDR_MASK_def bit_simps)

lemma frame_addr_of_nat:
  assumes "n < 2 ^ 52" and "4096 dvd n"
  shows "frame_addr (of_nat n)"
proof -
  from assms(2) obtain k where k: "n = push_bit 12 k" by (auto simp: push_bit_eq_mult mult.commute)
  then have "k < 2 ^ 40" using assms(1) by (simp add: push_bit_eq_mult)
  then have "take_bit 40 k = k" by (simp add: take_bit_nat_eq_self)
  then have b: "i < 40" if "bit k i" for i using that by (metis bit_take_bit_iff)
  have "j < 52" if "12 \<le> j" "bit k (j - 12)" for j using b [OF that(2)] that(1) by simp
  then have "of_nat n AND ADDR_MASK = (of_nat n :: u64)"
    unfolding k by (intro bit_word_eqI) (auto simp: bit_ADDR_MASK bit_simps)
  then show ?thesis by (simp add: frame_addr_def)
qed

lemma frame_addr_unat:
  assumes "frame_addr a"
  shows "4096 dvd unat a" and "unat a < 2 ^ 52"
proof -
  have a: "bit a n \<Longrightarrow> 12 \<le> n \<and> n < 52" for n
    using assms bit_ADDR_MASK unfolding frame_addr_def by (metis bit_and_iff)
  have "take_bit 12 (unat a) = 0"
    by (rule bit_eqI) (auto simp: bit_simps dest: a)
  then show "4096 dvd unat a" by (simp add: take_bit_eq_mod mod_eq_0_iff_dvd)
  have "take_bit 52 (unat a) = unat a"
    by (rule bit_eqI) (auto simp: bit_simps dest: a)
  then show "unat a < 2 ^ 52" by (simp add: take_bit_nat_eq_self_iff)
qed

lemma legal_flags_ops [simp]:
  "legal_flags f \<Longrightarrow> legal_flags (f AND g)"
  "legal_flags f \<Longrightarrow> legal_flags (f OR USER_ACCESSIBLE)"
proof -
  assume "legal_flags f"
  then have f: "\<not> (bit f n \<and> 12 \<le> n \<and> n < 52)" for n
    unfolding legal_flags_def by (metis bit_0_eq bit_ADDR_MASK bit_and_iff bot_apply bot_bool_def)
  show "legal_flags (f AND g)" unfolding legal_flags_def
    by (rule bit_word_eqI) (use f in \<open>auto simp: bit_simps bit_ADDR_MASK\<close>)
  have u: "USER_ACCESSIBLE = 2 ^ 2" by (simp add: USER_ACCESSIBLE_def)
  have "bit USER_ACCESSIBLE n \<longleftrightarrow> n = 2" for n unfolding u by (simp only: bit_exp_iff) auto
  then show "legal_flags (f OR USER_ACCESSIBLE)" unfolding legal_flags_def
    by (intro bit_word_eqI) (use f in \<open>auto simp: bit_simps bit_ADDR_MASK\<close>)
qed

locale page_entries =
  fixes po :: pte_ops
  assumes addr_make: "\<lbrakk>frame_addr a; legal_flags f\<rbrakk> \<Longrightarrow> pte_addr po (pte_make po a f) = a"
    and flags_make: "\<lbrakk>frame_addr a; legal_flags f\<rbrakk> \<Longrightarrow> pte_flags po (pte_make po a f) = f"
    and frame_addr_pte: "frame_addr (pte_addr po w)"
    and legal_flags_pte: "legal_flags (pte_flags po w)"
    and flags_unused: "pte_flags po 0 = 0"

text \<open>The format of the processor.\<close>

definition x86_pte :: pte_ops where
  "x86_pte = \<lparr>pte_addr = (\<lambda>w. w AND ADDR_MASK), pte_flags = (\<lambda>w. w AND NOT ADDR_MASK), pte_make = (\<lambda>a f. a OR f)\<rparr>"

interpretation x86_pte: page_entries x86_pte
proof
  fix a f w :: u64
  assume af: "frame_addr a" "legal_flags f"
  have a: "bit a n \<Longrightarrow> 12 \<le> n \<and> n < 52" for n
    using af(1) bit_ADDR_MASK unfolding frame_addr_def by (metis bit_and_iff)
  have f: "\<not> (bit f n \<and> 12 \<le> n \<and> n < 52)" for n
    using af(2) unfolding legal_flags_def by (metis bit_0_eq bit_ADDR_MASK bit_and_iff bot_apply bot_bool_def)
  show "pte_addr x86_pte (pte_make x86_pte a f) = a"
    by (rule bit_word_eqI) (use a f in \<open>auto simp: x86_pte_def bit_simps bit_ADDR_MASK\<close>)
  show "pte_flags x86_pte (pte_make x86_pte a f) = f"
    by (rule bit_word_eqI) (use a f in \<open>auto simp: x86_pte_def bit_simps bit_ADDR_MASK\<close>)
next
  fix w
  show "frame_addr (pte_addr x86_pte w)" by (simp add: frame_addr_def x86_pte_def and.assoc)
  show "legal_flags (pte_flags x86_pte w)" unfolding legal_flags_def
    by (rule bit_word_eqI) (simp add: x86_pte_def bit_simps)
  show "pte_flags x86_pte 0 = 0" by (simp add: x86_pte_def)
qed

section \<open>Frame conditions\<close>

lemma put_simps [simp]:
  "pg_alloc (put s a i w) = pg_alloc s" "pg_log (put s a i w) = pg_log s"
  "pg_mem (put s a i w) = (pg_mem s)(a := (pg_mem s a)(i := w))"
  by (simp_all add: put_def)

lemma zero_table_simps [simp]:
  "pg_alloc (zero_table s a) = pg_alloc s" "pg_log (zero_table s a) = pg_log s"
  "pg_mem (zero_table s a) = (pg_mem s)(a := (\<lambda>_. 0))"
  by (simp_all add: zero_table_def)

lemma each_append: "each f (xs @ ys) s = Option.bind (each f xs s) (each f ys)"
  by (induction xs arbitrary: s) (auto split: bind_splits)

definition subtabs :: "pte_ops \<Rightarrow> (nat \<Rightarrow> nat \<Rightarrow> u64) \<Rightarrow> nat \<Rightarrow> nat \<Rightarrow> nat list" where
  "subtabs po m l a = concat (map (\<lambda>i. tabs po m l (m a i)) [0..<ENTRY_COUNT])"

lemma tabs_Suc: "tabs po m (Suc l) w =
   (if is_dir_entry po w then unat (pte_addr po w) # subtabs po m l (unat (pte_addr po w)) else [])"
  by (simp add: subtabs_def)

text \<open>The tables and the meaning of an entry depend on the memory of its tables only.\<close>

lemma tabs_space_frame:
  "\<forall>a\<in>set (tabs po m l w). m' a = m a \<Longrightarrow> tabs po m' l w = tabs po m l w \<and> space_of po m' l w = space_of po m l w"
proof (induction l arbitrary: w)
  case 0
  then show ?case by simp
next
  case (Suc l)
  show ?case
  proof (cases "is_dir_entry po w")
    case True
    let ?a = "unat (pte_addr po w)"
    have a: "m' ?a = m ?a" using Suc.prems True by simp
    have "tabs po m' l (m ?a i) = tabs po m l (m ?a i) \<and> space_of po m' l (m ?a i) = space_of po m l (m ?a i)"
      if "i < ENTRY_COUNT" for i
      using Suc.prems True that by (intro Suc.IH) (auto simp: tabs_Suc subtabs_def)
    then have "map (\<lambda>i. tabs po m' l (m ?a i)) [0..<ENTRY_COUNT] = map (\<lambda>i. tabs po m l (m ?a i)) [0..<ENTRY_COUNT]"
      and "map (\<lambda>i. space_of po m' l (m ?a i)) [0..<ENTRY_COUNT] = map (\<lambda>i. space_of po m l (m ?a i)) [0..<ENTRY_COUNT]"
      by (intro map_cong; simp)+
    then show ?thesis using True a by (simp only: tabs.simps space_of.simps if_True)
  qed simp
qed

lemmas tabs_frame = tabs_space_frame [THEN conjunct1]
lemmas space_frame = tabs_space_frame [THEN conjunct2]

lemma subtabs_frame: "\<forall>b\<in>set (subtabs po m l a). m' b = m b \<Longrightarrow> m' a = m a \<Longrightarrow> subtabs po m' l a = subtabs po m l a"
proof -
  assume m: "\<forall>b\<in>set (subtabs po m l a). m' b = m b" "m' a = m a"
  have "map (\<lambda>i. tabs po m' l (m a i)) [0..<ENTRY_COUNT] = map (\<lambda>i. tabs po m l (m a i)) [0..<ENTRY_COUNT]"
    using m(1) by (intro map_cong tabs_frame) (auto simp: subtabs_def)
  then show ?thesis unfolding subtabs_def m(2) by (rule arg_cong)
qed

section \<open>Allocations of a copy\<close>

abbreviation page_no :: "nat \<Rightarrow> nat" where "page_no a \<equiv> a div 4096"

definition ref_count :: "page_man \<Rightarrow> nat \<Rightarrow> nat" where
  "ref_count pm p = (if p < length (refcnt pm) then unat (refcnt pm ! p) else 0)"

definition pg_inv :: "bit_ops \<Rightarrow> paging \<Rightarrow> bool" where
  "pg_inv bo s \<longleftrightarrow> alloc_inv bo (pg_alloc s) \<and> pm_len (pg_alloc s) * 4096 \<le> 2 ^ 52"

abbreviation free_pages :: "bit_ops \<Rightarrow> paging \<Rightarrow> nat set" where
  "free_pages bo s \<equiv> free_set bo (pg_alloc s)"

text \<open>
  \<open>grows bo s s' new R\<close>: from \<open>s\<close> to \<open>s'\<close> the pages at the addresses \<open>new\<close> were allocated and a
  reference was taken for every member of the list \<open>R\<close> of page numbers. \<open>room\<close> says that no reference
  counter overflows.
\<close>

definition grows :: "bit_ops \<Rightarrow> paging \<Rightarrow> paging \<Rightarrow> nat list \<Rightarrow> nat list \<Rightarrow> bool" where
  "grows bo s s' new R \<longleftrightarrow>
     pg_inv bo s' \<and> pm_len (pg_alloc s') = pm_len (pg_alloc s) \<and> pg_log s' = pg_log s \<and>
     length (refcnt (pg_alloc s')) = length (refcnt (pg_alloc s)) \<and>
     distinct new \<and> (\<forall>a\<in>set new. 4096 dvd a \<and> page_no a \<in> free_pages bo s) \<and>
     free_pages bo s' = free_pages bo s - page_no ` set new \<and>
     (\<forall>p. ref_count (pg_alloc s') p = ref_count (pg_alloc s) p + count_list R p)"

definition room :: "paging \<Rightarrow> nat list \<Rightarrow> bool" where
  "room s R \<longleftrightarrow> (\<forall>p\<in>set R. p < length (refcnt (pg_alloc s)) \<and> ref_count (pg_alloc s) p + count_list R p \<le> 255)"

lemma grows_refl: "pg_inv bo s \<Longrightarrow> pg_alloc s' = pg_alloc s \<Longrightarrow> pg_log s' = pg_log s \<Longrightarrow> grows bo s s' [] []"
  by (simp add: grows_def pg_inv_def)

lemma grows_trans:
  assumes "grows bo s s1 n1 R1" and "grows bo s1 s2 n2 R2"
  shows "grows bo s s2 (n1 @ n2) (R1 @ R2)"
proof -
  have "set n1 \<inter> set n2 = {}" using assms unfolding grows_def by auto
  then show ?thesis using assms unfolding grows_def by auto
qed

lemma grows_free: "grows bo s s' new R \<Longrightarrow> free_pages bo s' \<subseteq> free_pages bo s"
  by (auto simp: grows_def)

lemma room_append:
  assumes "room s (R1 @ R2)" and "grows bo s s1 n1 R1"
  shows "room s R1" and "room s1 R2"
  using assms by (auto simp: room_def grows_def add.assoc) (metis UnI1 UnI2 add_leE le_add1 add.assoc le_trans)+

lemma grows_new_used:
  "grows bo s s' new R \<Longrightarrow> page_no a \<notin> free_pages bo s \<Longrightarrow> a \<notin> set new"
  by (auto simp: grows_def)

context bit_field
begin

lemma finite_free: "finite (free_set bo pm)"
  using free_set_less by (metis finite_nat_set_iff_bounded)

lemma take_page_spec:
  assumes "pg_inv bo s" and "free_pages bo s \<noteq> {}"
  obtains s' a where "take_page bo s = Some (s', a)" and "pg_mem s' = pg_mem s" and "grows bo s s' [a] []"
    and "phys_addr a = Some (of_nat a)" and "frame_addr (of_nat a)" and "a < 2 ^ 52"
proof -
  have inv: "alloc_inv bo (pg_alloc s)" using assms(1) by (simp add: pg_inv_def)
  from alloc_page_loop_correct [OF this, of 0] assms(2) obtain pm' k where
    k: "alloc_physical_page bo (pg_alloc s) = Some (pm', Some (k * PAGE_SIZE))" "k \<in> free_pages bo s"
      "pm_len pm' = pm_len (pg_alloc s)" "refcnt pm' = refcnt (pg_alloc s)" "free_set bo pm' = free_pages bo s - {k}"
    unfolding alloc_physical_page_def by auto
  have "k * 4096 < 2 ^ 52" using assms(1) free_set_less [OF k(2)] unfolding pg_inv_def by linarith
  then have "phys_addr (k * 4096) = Some (of_nat (k * 4096))" and "frame_addr (of_nat (k * 4096))"
    by (simp_all only: phys_addr_def if_True frame_addr_of_nat dvd_triv_right)
  moreover have "take_page bo s = Some (s\<lparr>pg_alloc := pm'\<rparr>, k * 4096)"
    using k(1) by (simp add: take_page_def PAGE_SIZE_def)
  moreover have "alloc_inv bo pm'" using k inv by (simp add: alloc_inv_def)
  then have "grows bo s (s\<lparr>pg_alloc := pm'\<rparr>) [k * 4096] []"
    using k assms(1) unfolding grows_def pg_inv_def by (simp add: ref_count_def)
  ultimately show thesis using \<open>k * 4096 < 2 ^ 52\<close>
    by (intro that [of "s\<lparr>pg_alloc := pm'\<rparr>" "k * 4096"]) simp_all
qed

end

lemma incref_spec:
  assumes "pg_inv bo s" and "room s [page_no a]"
  obtains pm where "page_incref (pg_alloc s) a = Some pm" and "grows bo s (s\<lparr>pg_alloc := pm\<rparr>) [] [page_no a]"
proof -
  let ?pm = "pg_alloc s" and ?p = "page_no a"
  have p: "?p < length (refcnt ?pm)" "unat (refcnt ?pm ! ?p) < 255"
    using assms(2) by (auto simp: room_def ref_count_def)
  then have ne: "refcnt ?pm ! ?p \<noteq> 255" by auto
  have "unat (refcnt ?pm ! ?p + 1) = unat (refcnt ?pm ! ?p) + 1"
    using p(2) by (simp add: unat_word_ariths)
  then show thesis using p ne assms(1)
    by (intro that [of "?pm\<lparr>refcnt := (refcnt ?pm)[?p := refcnt ?pm ! ?p + 1]\<rparr>"])
      (auto simp: page_incref_def pm_incref_def nth_opt_def grows_def pg_inv_def alloc_inv_def free_set_def
        free_page_def pm_len_def ref_count_def nth_list_update)
qed

section \<open>A copy is a copy\<close>

text \<open>
  Whether an entry belongs to user space: at the top level the index of a directory decides, below it what
  was decided above.
\<close>

definition usr :: "pte_ops \<Rightarrow> nat \<Rightarrow> bool \<Rightarrow> u64 \<Rightarrow> nat \<Rightarrow> bool" where
  "usr po l u w i = (if l = 3 \<and> is_dir_entry po w then i < 256 else u)"

definition parent_space :: "bool \<Rightarrow> space \<Rightarrow> space" where
  "parent_space b t = (if b then write_protect t else t)"

definition user_frames :: "pte_ops \<Rightarrow> (nat \<Rightarrow> nat \<Rightarrow> u64) \<Rightarrow> nat \<Rightarrow> bool \<Rightarrow> u64 \<Rightarrow> nat \<Rightarrow> nat list" where
  "user_frames po m l u w i = (if usr po l u w i then frames (space_of po m l w) else [])"

definition all_frames :: "pte_ops \<Rightarrow> (nat \<Rightarrow> nat \<Rightarrow> u64) \<Rightarrow> nat \<Rightarrow> bool \<Rightarrow> nat \<Rightarrow> nat list" where
  "all_frames po m l u a = concat (map (\<lambda>i. user_frames po m l u (m a i) i) [0..<ENTRY_COUNT])"

definition tables_ok :: "bit_ops \<Rightarrow> paging \<Rightarrow> nat \<Rightarrow> nat \<Rightarrow> nat list \<Rightarrow> bool" where
  "tables_ok bo s src dst ts \<longleftrightarrow>
     pg_inv bo s \<and> src \<noteq> dst \<and> page_no src \<notin> free_pages bo s \<and> page_no dst \<notin> free_pages bo s \<and>
     distinct ts \<and> src \<notin> set ts \<and> dst \<notin> set ts \<and> length ts \<le> card (free_pages bo s) \<and>
     (\<forall>a\<in>set ts. page_no a \<notin> free_pages bo s \<and> a \<le> 2 ^ 32)"

definition only_in :: "nat set \<Rightarrow> (nat \<Rightarrow> nat \<Rightarrow> u64) \<Rightarrow> (nat \<Rightarrow> nat \<Rightarrow> u64) \<Rightarrow> bool" where
  "only_in A m m' \<longleftrightarrow> (\<forall>a. a \<notin> A \<longrightarrow> m' a = m a)"

lemma only_in_trans: "only_in A m m1 \<Longrightarrow> only_in B m1 m2 \<Longrightarrow> A \<union> B \<subseteq> C \<Longrightarrow> only_in C m m2"
  unfolding only_in_def by (metis UnI1 UnI2 subsetD)

lemma only_in_tabs:
  assumes "only_in A m m'" and "set (tabs po m l w) \<inter> A = {}"
  shows "tabs po m' l w = tabs po m l w" and "space_of po m' l w = space_of po m l w"
  using assms tabs_space_frame [of po m l w m'] unfolding only_in_def by blast+

lemma frames_parent: "frames (write_protect t) = frames t" "frames (user_space t) = frames t"
  by (induction t) (simp_all add: comp_def cong: map_cong)

lemma parent_space_Dir: "parent_space b (Dir f ss) = Dir f (map (parent_space b) ss)"
  by (cases b) (simp_all add: parent_space_def [abs_def])

definition entry_copied ::
  "bit_ops \<Rightarrow> pte_ops \<Rightarrow> nat \<Rightarrow> paging \<Rightarrow> paging \<Rightarrow> nat \<Rightarrow> nat \<Rightarrow> bool \<Rightarrow> bool \<Rightarrow> nat \<Rightarrow> nat list \<Rightarrow> bool" where
  "entry_copied bo po l s s' src dst cp u i new \<longleftrightarrow>
     (let m = pg_mem s; m' = pg_mem s'; w = m src i in
      grows bo s s' new (user_frames po m l u w i) \<and>
      only_in ({src, dst} \<union> set (tabs po m l w) \<union> set new) m m' \<and>
      (\<forall>j. j \<noteq> i \<longrightarrow> m' src j = m src j \<and> m' dst j = m dst j) \<and>
      tabs po m' l (m' dst i) = new \<and> length new = length (tabs po m l w) \<and>
      tabs po m' l (m' src i) = tabs po m l w \<and>
      space_of po m' l (m' src i) = parent_space (cp \<and> usr po l u w i) (space_of po m l w) \<and>
      space_of po m' l (m' dst i) = user_space (parent_space (cp \<and> usr po l u w i) (space_of po m l w)))"

definition table_copied ::
  "bit_ops \<Rightarrow> pte_ops \<Rightarrow> nat \<Rightarrow> paging \<Rightarrow> paging \<Rightarrow> nat \<Rightarrow> nat \<Rightarrow> bool \<Rightarrow> bool \<Rightarrow> nat list \<Rightarrow> bool" where
  "table_copied bo po l s s' src dst cp u new \<longleftrightarrow>
     (let m = pg_mem s; m' = pg_mem s' in
      grows bo s s' new (all_frames po m l u src) \<and>
      only_in ({src, dst} \<union> set (subtabs po m l src) \<union> set new) m m' \<and>
      subtabs po m' l dst = new \<and> length new = length (subtabs po m l src) \<and>
      subtabs po m' l src = subtabs po m l src \<and>
      (\<forall>i<ENTRY_COUNT. let w = m src i; b = cp \<and> usr po l u w i in
         space_of po m' l (m' src i) = parent_space b (space_of po m l w) \<and>
         space_of po m' l (m' dst i) = user_space (parent_space b (space_of po m l w))))"

locale paging_env = bit_field + page_entries
begin

lemma space_leaf:
  "contains (pte_flags po w) PRESENT \<Longrightarrow> l = 0 \<or> contains (pte_flags po w) HUGE_PAGE \<Longrightarrow>
   space_of po m l w = Frame (pte_addr po w) (pte_flags po w) \<and> tabs po m l w = []"
  by (cases l) (auto simp: is_dir_entry_def)

lemma space_hole:
  "\<not> contains (pte_flags po w) PRESENT \<Longrightarrow> space_of po m l w = Hole \<and> tabs po m l w = []"
  by (cases l) (auto simp: is_dir_entry_def)

lemma contains_ops [simp]:
  "contains (f AND NOT WRITABLE) PRESENT = contains f PRESENT"
  "contains (f AND NOT WRITABLE) HUGE_PAGE = contains f HUGE_PAGE"
  "contains (f OR USER_ACCESSIBLE) PRESENT = contains f PRESENT"
  "contains (f OR USER_ACCESSIBLE) HUGE_PAGE = contains f HUGE_PAGE"
proof -
  have c: "contains g (2 ^ k) = bit g k" if "k < 64" for g k
  proof
    assume "contains g (2 ^ k)"
    then have "bit (g AND 2 ^ k) k" using that by (simp add: contains_def bit_exp_iff)
    then show "bit g k" by (simp add: bit_and_iff)
  next
    assume "bit g k"
    then show "contains g (2 ^ k)" unfolding contains_def
      by (intro bit_word_eqI) (auto simp: bit_and_iff bit_exp_iff)
  qed
  have n: "PRESENT = 2 ^ 0" "WRITABLE = 2 ^ 1" "USER_ACCESSIBLE = 2 ^ 2" "HUGE_PAGE = 2 ^ 7"
    by (simp_all add: PRESENT_def WRITABLE_def USER_ACCESSIBLE_def HUGE_PAGE_def)
  show "contains (f AND NOT WRITABLE) PRESENT = contains f PRESENT"
    "contains (f AND NOT WRITABLE) HUGE_PAGE = contains f HUGE_PAGE"
    "contains (f OR USER_ACCESSIBLE) PRESENT = contains f PRESENT"
    "contains (f OR USER_ACCESSIBLE) HUGE_PAGE = contains f HUGE_PAGE"
    unfolding n by (simp_all only: c bit_and_iff bit_or_iff bit_not_iff bit_exp_iff) simp_all
qed

end

interpretation x86_paging: paging_env word_bits x86_pte ..

context paging_env
begin

lemma not_present_0 [simp]: "\<not> contains (pte_flags po 0) PRESENT"
  by (simp add: flags_unused contains_def PRESENT_def)

lemma space_0 [simp]: "space_of po m l 0 = Hole" "tabs po m l 0 = []"
  using space_hole [OF not_present_0] by auto

lemma entry_hole:
  assumes "pg_inv bo s" and "\<not> contains (pte_flags po (pg_mem s src i)) PRESENT" and "pg_mem s dst i = 0"
  shows "copy_entry bo po rec (Suc l) src dst cp u i s = Some s \<and> entry_copied bo po l s s src dst cp u i []"
  using assms space_hole [OF assms(2), of "pg_mem s" l]
  by (simp add: copy_entry_def entry_copied_def Let_def user_frames_def only_in_def grows_refl parent_space_def)

lemma entry_leaf:
  assumes inv: "pg_inv bo s" and ne: "src \<noteq> dst"
    and pr: "contains (pte_flags po (pg_mem s src i)) PRESENT"
    and leaf: "l = 0 \<or> contains (pte_flags po (pg_mem s src i)) HUGE_PAGE"
    and room: "room s (user_frames po (pg_mem s) l u (pg_mem s src i) i)"
  shows "\<exists>s'. copy_entry bo po rec (Suc l) src dst cp u i s = Some s' \<and> entry_copied bo po l s s' src dst cp u i []"
proof -
  let ?w = "pg_mem s src i"
  let ?a = "pte_addr po ?w" and ?f = "pte_flags po ?w"
  have us: "usr po l u ?w i = u" using leaf by (auto simp: usr_def is_dir_entry_def)
  have sp: "space_of po (pg_mem s) l ?w = Frame ?a ?f" "tabs po (pg_mem s) l ?w = []"
    using space_leaf [OF pr leaf] by auto
  have lv: "(Suc l = 1 \<or> contains ?f HUGE_PAGE) = True" using leaf by auto
  note step = copy_entry_def [of bo po rec "Suc l" src dst cp u i s, unfolded lv Let_def if_True]
  note post = entry_copied_def Let_def user_frames_def us sp parent_space_def only_in_def
  note make = addr_make [OF frame_addr_pte] flags_make [OF frame_addr_pte] legal_flags_pte
  show ?thesis
  proof (cases u)
    case False
    let ?s = "put s dst i (pte_make po ?a (?f OR USER_ACCESSIBLE))"
    have sd: "space_of po (pg_mem ?s) l (pg_mem ?s dst i) = Frame ?a (?f OR USER_ACCESSIBLE)"
      "tabs po (pg_mem ?s) l (pg_mem ?s dst i) = []"
      and ss: "space_of po (pg_mem ?s) l (pg_mem ?s src i) = Frame ?a ?f" "tabs po (pg_mem ?s) l (pg_mem ?s src i) = []"
      using space_leaf [of "pg_mem ?s dst i" l "pg_mem ?s"] space_leaf [of ?w l "pg_mem ?s"] pr leaf ne
      by (auto simp: make)
    have "copy_entry bo po rec (Suc l) src dst cp u i s = Some ?s" using step False pr by simp
    moreover have "entry_copied bo po l s ?s src dst cp u i []"
      unfolding post using False sd ss ne grows_refl [OF inv, of ?s] by simp
    ultimately show ?thesis by blast
  next
    case True
    then have "room s [page_no (unat ?a)]" using room us sp by (simp add: user_frames_def)
    from incref_spec [OF inv this] obtain pm where pm: "page_incref (pg_alloc s) (unat ?a) = Some pm"
      "grows bo s (s\<lparr>pg_alloc := pm\<rparr>) [] [page_no (unat ?a)]" by blast
    let ?g = "if cp then ?f AND NOT WRITABLE else ?f"
    let ?s1 = "if cp then put (s\<lparr>pg_alloc := pm\<rparr>) src i (pte_make po ?a ?g) else s\<lparr>pg_alloc := pm\<rparr>"
    let ?s = "put ?s1 dst i (pte_make po ?a (?g OR USER_ACCESSIBLE))"
    have g: "legal_flags ?g" "contains ?g PRESENT" "l = 0 \<or> contains ?g HUGE_PAGE"
      using pr leaf by (auto simp: legal_flags_pte)
    have src: "pte_addr po (pg_mem ?s src i) = ?a" "pte_flags po (pg_mem ?s src i) = ?g"
      using ne g(1) by (simp_all add: make)
    have "pte_addr po (pg_mem ?s dst i) = ?a" "pte_flags po (pg_mem ?s dst i) = ?g OR USER_ACCESSIBLE"
      using g(1) by (simp_all add: make)
    then have sd: "space_of po (pg_mem ?s) l (pg_mem ?s dst i) = Frame ?a (?g OR USER_ACCESSIBLE)"
      "tabs po (pg_mem ?s) l (pg_mem ?s dst i) = []"
      and ss: "space_of po (pg_mem ?s) l (pg_mem ?s src i) = Frame ?a ?g" "tabs po (pg_mem ?s) l (pg_mem ?s src i) = []"
      using space_leaf [of "pg_mem ?s dst i" l "pg_mem ?s"] space_leaf [of "pg_mem ?s src i" l "pg_mem ?s"] g src
      by auto
    have "copy_entry bo po rec (Suc l) src dst cp u i s = Some ?s"
      using step True pr pm(1) g(1) by (cases cp) (simp_all add: make Let_def)
    moreover have "grows bo s ?s [] [page_no (unat ?a)]"
      using pm(2) unfolding grows_def pg_inv_def by simp
    moreover have "\<forall>a. a \<noteq> src \<and> a \<noteq> dst \<longrightarrow> pg_mem ?s a = pg_mem s a"
      "\<forall>j. j \<noteq> i \<longrightarrow> pg_mem ?s src j = pg_mem s src j \<and> pg_mem ?s dst j = pg_mem s dst j"
      using ne by auto
    ultimately have "copy_entry bo po rec (Suc l) src dst cp u i s = Some ?s"
      "entry_copied bo po l s ?s src dst cp u i []"
      using True sd ss unfolding post by simp_all
    then show ?thesis by blast
  qed
qed

end

lemma tables_okD:
  assumes "tables_ok bo s src dst ts"
  shows "pg_inv bo s" "src \<noteq> dst" "page_no src \<notin> free_pages bo s" "page_no dst \<notin> free_pages bo s"
    "distinct ts" "src \<notin> set ts" "dst \<notin> set ts" "length ts \<le> card (free_pages bo s)"
    "a \<in> set ts \<Longrightarrow> page_no a \<notin> free_pages bo s" "a \<in> set ts \<Longrightarrow> a \<le> 2 ^ 32"
  using assms by (auto simp: tables_ok_def)

lemma grows_newD:
  "grows bo s s' new R \<Longrightarrow> a \<in> set new \<Longrightarrow> page_no a \<in> free_pages bo s"
  "grows bo s s' new R \<Longrightarrow> a \<in> set new \<Longrightarrow> page_no a \<notin> free_pages bo s'"
  by (auto simp: grows_def)

lemma usr_const: "l < 3 \<Longrightarrow> usr po l u w i = u"
  by (simp add: usr_def)

lemma all_frames_const:
  "l < 3 \<Longrightarrow> all_frames po m l u a = (if u then concat (map (\<lambda>i. frames (space_of po m l (m a i))) [0..<ENTRY_COUNT]) else [])"
  by (cases u) (simp_all add: all_frames_def user_frames_def usr_const)

lemma only_in_table:
  assumes "only_in A m m'" and "set (a # subtabs po m l a) \<inter> A = {}"
  shows "m' a = m a" "subtabs po m' l a = subtabs po m l a"
    "i < ENTRY_COUNT \<Longrightarrow> space_of po m' l (m' a i) = space_of po m l (m a i)"
    "i < ENTRY_COUNT \<Longrightarrow> tabs po m' l (m' a i) = tabs po m l (m a i)"
proof -
  show a: "m' a = m a" using assms by (auto simp: only_in_def)
  show "subtabs po m' l a = subtabs po m l a"
    using assms a by (intro subtabs_frame) (auto simp: only_in_def)
  have "set (tabs po m l (m a i)) \<inter> A = {}" if "i < ENTRY_COUNT" for i
    using assms(2) that by (fastforce simp: subtabs_def)
  then show "i < ENTRY_COUNT \<Longrightarrow> space_of po m' l (m' a i) = space_of po m l (m a i)"
    and "i < ENTRY_COUNT \<Longrightarrow> tabs po m' l (m' a i) = tabs po m l (m a i)"
    using only_in_tabs [OF assms(1)] a by metis+
qed

lemma all_frames_cong:
  assumes "\<And>i. i < ENTRY_COUNT \<Longrightarrow> space_of po m' l (m' a i) = space_of po m l (m a i)" and "m' a = m a"
  shows "all_frames po m' l u a = all_frames po m l u a"
  unfolding all_frames_def user_frames_def using assms by (intro arg_cong [of _ _ concat] map_cong) auto

context paging_env
begin

text \<open>An entry for a directory: a new table is entered and filled by the call for the next level.\<close>

lemma entry_dir_call:
  fixes s src i
  defines "w \<equiv> pg_mem s src i"
  assumes k: "k < 3" and dir: "is_dir_entry po w"
    and ok: "tables_ok bo s src dst (tabs po (pg_mem s) (Suc k) w)"
    and room: "room s (user_frames po (pg_mem s) (Suc k) u w i)"
  obtains s2 b where
    "copy_entry bo po rec (Suc (Suc k)) src dst cp u i s = rec s2 (unat (pte_addr po w)) b cp (usr po (Suc k) u w i)"
    and "grows bo s s2 [b] []" and "b < 2 ^ 52" and "frame_addr (of_nat b)"
    and "pg_mem s2 = (pg_mem s)(dst := (pg_mem s dst)(i := pte_make po (of_nat b) (pte_flags po w OR USER_ACCESSIBLE)))"
    and "tables_ok bo s2 (unat (pte_addr po w)) b (subtabs po (pg_mem s2) k (unat (pte_addr po w)))"
    and "all_frames po (pg_mem s2) k (usr po (Suc k) u w i) (unat (pte_addr po w)) = user_frames po (pg_mem s) (Suc k) u w i"
    and "room s2 (user_frames po (pg_mem s) (Suc k) u w i)"
proof -
  let ?a = "unat (pte_addr po w)" and ?m = "pg_mem s" and ?u = "usr po (Suc k) u w i"
  have ts: "tabs po ?m (Suc k) w = ?a # subtabs po ?m k ?a" using dir by (simp add: subtabs_def)
  note ok' = tables_okD [OF ok, unfolded ts]
  have "free_pages bo s \<noteq> {}" using ok'(8) by auto
  from take_page_spec [OF ok'(1) this] obtain s1 b where
    b: "take_page bo s = Some (s1, b)" "pg_mem s1 = ?m" "grows bo s s1 [b] []" "phys_addr b = Some (of_nat b)"
      "frame_addr (of_nat b)" "b < 2 ^ 52" by blast
  let ?s2 = "put s1 dst i (pte_make po (of_nat b) (pte_flags po w OR USER_ACCESSIBLE))"
  have g2: "grows bo s ?s2 [b] []" using b(3) unfolding grows_def pg_inv_def by simp
  have ch: "only_in {dst} ?m (pg_mem ?s2)" by (simp add: only_in_def b(2))
  have dj: "set (?a # subtabs po ?m k ?a) \<inter> {dst} = {}" using ok'(7) by auto
  note fr = only_in_table [OF ch dj]
  have fs: "free_pages bo ?s2 = free_pages bo s - {page_no b}" "page_no b \<in> free_pages bo s"
    using g2 by (auto simp: grows_def)
  then have "card (free_pages bo ?s2) = card (free_pages bo s) - 1" using finite_free by simp
  moreover have "b \<notin> set (?a # subtabs po ?m k ?a)" using fs(2) ok'(9) by blast
  moreover have "pg_inv bo ?s2" using g2 by (simp add: grows_def)
  ultimately have ok2: "tables_ok bo ?s2 ?a b (subtabs po (pg_mem ?s2) k ?a)"
    unfolding tables_ok_def fr(2) using ok'(5,8,9,10) fs by auto
  have "all_frames po (pg_mem ?s2) k ?u ?a = all_frames po ?m k ?u ?a" by (rule all_frames_cong [OF fr(3,1)])
  also have "\<dots> = user_frames po ?m (Suc k) u w i"
    using dir k by (simp add: all_frames_const user_frames_def comp_def)
  finally have af: "all_frames po (pg_mem ?s2) k ?u ?a = user_frames po ?m (Suc k) u w i" .
  have le: "\<not> pte_addr po w > push_bit 32 1"
    using ok'(10) [of ?a] by (simp add: word_less_nat_alt)
  have ne1: "(Suc (Suc k) = 1) = False" by simp
  have d: "contains (pte_flags po w) PRESENT" "\<not> contains (pte_flags po w) HUGE_PAGE"
    using dir by (auto simp: is_dir_entry_def)
  have uu: "(if Suc (Suc k) = 4 then i < 256 else u) = ?u" using dir by (simp add: usr_def)
  have "copy_entry bo po rec (Suc (Suc k)) src dst cp u i s = rec ?s2 ?a b cp ?u"
    unfolding copy_entry_def Let_def w_def [symmetric] uu using d le b(1,4) by simp
  moreover have "room ?s2 (user_frames po ?m (Suc k) u w i)"
    using room g2 by (simp add: room_def grows_def)
  ultimately show thesis using that [of ?s2 b] g2 b(2,5,6) ok2 af by simp
qed

end

context paging_env
begin

lemma dir_entry_space:
  "is_dir_entry po w \<Longrightarrow> space_of po m (Suc l) w =
     Dir (pte_flags po w) (map (\<lambda>i. space_of po m l (m (unat (pte_addr po w)) i)) [0..<ENTRY_COUNT])"
  "is_dir_entry po w \<Longrightarrow> tabs po m (Suc l) w = unat (pte_addr po w) # subtabs po m l (unat (pte_addr po w))"
  by (simp_all add: subtabs_def)

lemma entry_dir:
  fixes s src i
  defines "w \<equiv> pg_mem s src i"
  assumes rec: "\<And>s src dst u. \<lbrakk>tables_ok bo s src dst (subtabs po (pg_mem s) k src);
      room s (all_frames po (pg_mem s) k u src)\<rbrakk> \<Longrightarrow>
      \<exists>s' new. rec s src dst cp u = Some s' \<and> table_copied bo po k s s' src dst cp u new"
    and k: "k < 3" and dir: "is_dir_entry po w"
    and ok: "tables_ok bo s src dst (tabs po (pg_mem s) (Suc k) w)"
    and room: "room s (user_frames po (pg_mem s) (Suc k) u w i)"
  shows "\<exists>s' new. copy_entry bo po rec (Suc (Suc k)) src dst cp u i s = Some s' \<and>
    entry_copied bo po (Suc k) s s' src dst cp u i new"
proof -
  let ?a = "unat (pte_addr po w)" and ?m = "pg_mem s" and ?u = "usr po (Suc k) u w i"
  let ?f = "pte_flags po w"
  obtain s2 b where call: "copy_entry bo po rec (Suc (Suc k)) src dst cp u i s = rec s2 ?a b cp ?u"
    and g2: "grows bo s s2 [b] []" and b: "b < 2 ^ 52" "frame_addr (of_nat b)"
    and m2: "pg_mem s2 = ?m(dst := (?m dst)(i := pte_make po (of_nat b) (?f OR USER_ACCESSIBLE)))"
    and ok2: "tables_ok bo s2 ?a b (subtabs po (pg_mem s2) k ?a)"
    and af: "all_frames po (pg_mem s2) k ?u ?a = user_frames po ?m (Suc k) u w i"
    and room2: "room s2 (user_frames po ?m (Suc k) u w i)"
    using entry_dir_call [of k s src i dst u rec cp] k dir ok room unfolding w_def by blast
  note ts = dir_entry_space(2) [OF dir, of ?m k]
  note ok' = tables_okD [OF ok, unfolded ts]
  from rec [OF ok2, of ?u, unfolded af, OF room2] obtain s' new where call': "rec s2 ?a b cp ?u = Some s'"
    and tc: "table_copied bo po k s2 s' ?a b cp ?u new" by auto
  note tc' = tc [unfolded table_copied_def Let_def, unfolded usr_const [OF k] af]
  have ch: "only_in {dst} ?m (pg_mem s2)" by (simp add: only_in_def m2)
  have dj: "set (?a # subtabs po ?m k ?a) \<inter> {dst} = {}" using ok'(7) by auto
  note fr = only_in_table [OF ch dj]
  have new: "page_no x \<in> free_pages bo s" if "x \<in> set (b # new)" for x
    using that grows_newD(1) [OF g2] grows_newD(1) [OF tc' [THEN conjunct1]] grows_free [OF g2] by auto
  have out: "pg_mem s' x = pg_mem s2 x" if "x \<notin> {?a, b} \<union> set (subtabs po ?m k ?a) \<union> set new" for x
    using tc' that unfolding only_in_def fr(2) by blast
  have "src \<notin> {?a, b} \<union> set (subtabs po ?m k ?a) \<union> set new" and "dst \<notin> {?a, b} \<union> set (subtabs po ?m k ?a) \<union> set new"
    using ok'(3,4,6,7) new by auto
  from this [THEN out] have src: "pg_mem s' src = ?m src"
    and dst: "pg_mem s' dst = (?m dst)(i := pte_make po (of_nat b) (?f OR USER_ACCESSIBLE))"
    using ok'(2) by (simp_all add: m2)
  let ?d = "pg_mem s' dst i"
  have d: "pte_addr po ?d = of_nat b" "pte_flags po ?d = ?f OR USER_ACCESSIBLE" "unat (of_nat b :: u64) = b"
    using b by (simp_all add: dst addr_make flags_make legal_flags_pte unat_of_nat)
  then have dd: "is_dir_entry po ?d" using dir by (simp add: is_dir_entry_def)
  have w: "pg_mem s' src i = w" by (simp add: src w_def)
  let ?P = "parent_space (cp \<and> ?u)"
  have sub: "space_of po (pg_mem s') k (pg_mem s' ?a j) = ?P (space_of po ?m k (?m ?a j))"
    "space_of po (pg_mem s') k (pg_mem s' b j) = user_space (?P (space_of po ?m k (?m ?a j)))"
    if "j < ENTRY_COUNT" for j using tc' that fr(3) [OF that] by simp_all
  have "grows bo s s' (b # new) (user_frames po ?m (Suc k) u w i)"
    using grows_trans [OF g2, of s' new] tc' by simp
  moreover have "only_in ({src, dst} \<union> set (?a # subtabs po ?m k ?a) \<union> set (b # new)) ?m (pg_mem s')"
    using tc' [THEN conjunct2, THEN conjunct1] by (intro only_in_trans [OF ch]) (auto simp: fr(2))
  moreover have "tabs po (pg_mem s') (Suc k) ?d = b # new" "length (b # new) = length (?a # subtabs po ?m k ?a)"
    "tabs po (pg_mem s') (Suc k) w = ?a # subtabs po ?m k ?a"
    using tc' fr(2) d by (simp_all add: dir_entry_space(2) [OF dd] dir_entry_space(2) [OF dir] del: tabs.simps)
  moreover have "space_of po (pg_mem s') (Suc k) w = ?P (space_of po ?m (Suc k) w)"
    "space_of po (pg_mem s') (Suc k) ?d = user_space (?P (space_of po ?m (Suc k) w))"
    using sub d by (simp_all add: dir_entry_space(1) [OF dd] dir_entry_space(1) [OF dir] parent_space_Dir
        del: space_of.simps)
  ultimately have "entry_copied bo po (Suc k) s s' src dst cp u i (b # new)"
    unfolding entry_copied_def Let_def w_def [symmetric] ts w by (simp add: src dst del: tabs.simps space_of.simps)
  then show ?thesis using call call' by auto
qed

end

section \<open>The loop over a table\<close>

definition tabs_to :: "pte_ops \<Rightarrow> (nat \<Rightarrow> nat \<Rightarrow> u64) \<Rightarrow> nat \<Rightarrow> nat \<Rightarrow> nat \<Rightarrow> nat list" where
  "tabs_to po m l a n = concat (map (\<lambda>i. tabs po m l (m a i)) [0..<n])"

definition frames_to :: "pte_ops \<Rightarrow> (nat \<Rightarrow> nat \<Rightarrow> u64) \<Rightarrow> nat \<Rightarrow> bool \<Rightarrow> nat \<Rightarrow> nat \<Rightarrow> nat list" where
  "frames_to po m l u a n = concat (map (\<lambda>i. user_frames po m l u (m a i) i) [0..<n])"

lemma tabs_to_Suc: "tabs_to po m l a (Suc n) = tabs_to po m l a n @ tabs po m l (m a n)"
  by (simp add: tabs_to_def)

lemma frames_to_Suc: "frames_to po m l u a (Suc n) = frames_to po m l u a n @ user_frames po m l u (m a n) n"
  by (simp add: frames_to_def)

lemma to_all: "tabs_to po m l a ENTRY_COUNT = subtabs po m l a" "frames_to po m l u a ENTRY_COUNT = all_frames po m l u a"
  by (simp_all add: tabs_to_def subtabs_def frames_to_def all_frames_def)

lemma to_prefix:
  assumes "n < ENTRY_COUNT"
  shows "\<exists>r. subtabs po m l a = tabs_to po m l a n @ tabs po m l (m a n) @ r"
    and "\<exists>r. all_frames po m l u a = frames_to po m l u a n @ user_frames po m l u (m a n) n @ r"
proof -
  have "[0..<ENTRY_COUNT] = [0..<n] @ n # [Suc n..<ENTRY_COUNT]"
    using assms upt_add_eq_append [of 0 n "ENTRY_COUNT - n"] by (simp add: upt_conv_Cons)
  then show "\<exists>r. subtabs po m l a = tabs_to po m l a n @ tabs po m l (m a n) @ r"
    and "\<exists>r. all_frames po m l u a = frames_to po m l u a n @ user_frames po m l u (m a n) n @ r"
    by (simp_all add: subtabs_def tabs_to_def all_frames_def frames_to_def)
qed

lemma tabs_to_mem: "x \<in> set (tabs_to po m l a n) \<longleftrightarrow> (\<exists>i<n. x \<in> set (tabs po m l (m a i)))"
  by (auto simp: tabs_to_def)

lemma room_prefix: "room s (R @ R') \<Longrightarrow> room s R"
  unfolding room_def by (auto intro: order_trans [rotated])

definition copied_to ::
  "bit_ops \<Rightarrow> pte_ops \<Rightarrow> nat \<Rightarrow> paging \<Rightarrow> paging \<Rightarrow> nat \<Rightarrow> nat \<Rightarrow> bool \<Rightarrow> bool \<Rightarrow> nat \<Rightarrow> nat list \<Rightarrow> bool" where
  "copied_to bo po l s s' src dst cp u n new \<longleftrightarrow>
     (let m = pg_mem s; m' = pg_mem s' in
      grows bo s s' new (frames_to po m l u src n) \<and>
      only_in ({src, dst} \<union> set (tabs_to po m l src n) \<union> set new) m m' \<and>
      tabs_to po m' l dst n = new \<and> length new = length (tabs_to po m l src n) \<and>
      (\<forall>i\<ge>n. m' src i = m src i \<and> m' dst i = 0) \<and>
      (\<forall>i<n. let w = m src i; b = cp \<and> usr po l u w i in
         tabs po m' l (m' src i) = tabs po m l w \<and>
         space_of po m' l (m' src i) = parent_space b (space_of po m l w) \<and>
         space_of po m' l (m' dst i) = user_space (parent_space b (space_of po m l w))))"

lemma copied_toD:
  assumes "copied_to bo po l s s' src dst cp u n new"
  shows "grows bo s s' new (frames_to po (pg_mem s) l u src n)"
    "only_in ({src, dst} \<union> set (tabs_to po (pg_mem s) l src n) \<union> set new) (pg_mem s) (pg_mem s')"
    "tabs_to po (pg_mem s') l dst n = new" "length new = length (tabs_to po (pg_mem s) l src n)"
    "n \<le> i \<Longrightarrow> pg_mem s' src i = pg_mem s src i" "n \<le> i \<Longrightarrow> pg_mem s' dst i = 0"
    "i < n \<Longrightarrow> tabs po (pg_mem s') l (pg_mem s' src i) = tabs po (pg_mem s) l (pg_mem s src i)"
    "i < n \<Longrightarrow> space_of po (pg_mem s') l (pg_mem s' src i) =
       parent_space (cp \<and> usr po l u (pg_mem s src i) i) (space_of po (pg_mem s) l (pg_mem s src i))"
    "i < n \<Longrightarrow> space_of po (pg_mem s') l (pg_mem s' dst i) =
       user_space (parent_space (cp \<and> usr po l u (pg_mem s src i) i) (space_of po (pg_mem s) l (pg_mem s src i)))"
  using assms unfolding copied_to_def Let_def by blast+

lemma entry_copiedD:
  assumes "entry_copied bo po l s s' src dst cp u i new"
  shows "grows bo s s' new (user_frames po (pg_mem s) l u (pg_mem s src i) i)"
    "only_in ({src, dst} \<union> set (tabs po (pg_mem s) l (pg_mem s src i)) \<union> set new) (pg_mem s) (pg_mem s')"
    "j \<noteq> i \<Longrightarrow> pg_mem s' src j = pg_mem s src j" "j \<noteq> i \<Longrightarrow> pg_mem s' dst j = pg_mem s dst j"
    "tabs po (pg_mem s') l (pg_mem s' dst i) = new" "length new = length (tabs po (pg_mem s) l (pg_mem s src i))"
    "tabs po (pg_mem s') l (pg_mem s' src i) = tabs po (pg_mem s) l (pg_mem s src i)"
    "space_of po (pg_mem s') l (pg_mem s' src i) =
       parent_space (cp \<and> usr po l u (pg_mem s src i) i) (space_of po (pg_mem s) l (pg_mem s src i))"
    "space_of po (pg_mem s') l (pg_mem s' dst i) =
       user_space (parent_space (cp \<and> usr po l u (pg_mem s src i) i) (space_of po (pg_mem s) l (pg_mem s src i)))"
  using assms unfolding entry_copied_def Let_def by blast+

context paging_env
begin

lemma grows_card:
  assumes "grows bo s s' new R"
  shows "card (free_pages bo s') + length new = card (free_pages bo s)"
proof -
  have "inj_on page_no (set new)"
  proof (rule inj_onI)
    fix x y
    assume xy: "x \<in> set new" "y \<in> set new" "page_no x = page_no y"
    then have "4096 dvd x" "4096 dvd y" using assms by (auto simp: grows_def)
    with xy(3) show "x = y" by (metis dvd_div_mult_self)
  qed
  then have "card (page_no ` set new) = length new"
    using assms by (simp add: grows_def card_image distinct_card)
  moreover have "page_no ` set new \<subseteq> free_pages bo s" and "free_pages bo s' = free_pages bo s - page_no ` set new"
    using assms by (auto simp: grows_def)
  ultimately show ?thesis using finite_free
    by (metis add.commute card_Diff_subset card_mono finite_subset le_add_diff_inverse)
qed

text \<open>What the loop has not reached yet is as it was.\<close>

lemma copied_to_rest:
  assumes "copied_to bo po l s s1 src dst cp u n new" and ok: "tables_ok bo s src dst (subtabs po (pg_mem s) l src)"
    and n: "n < ENTRY_COUNT" and room: "room s (all_frames po (pg_mem s) l u src)"
  shows "tabs po (pg_mem s1) l (pg_mem s src n) = tabs po (pg_mem s) l (pg_mem s src n)"
    and "space_of po (pg_mem s1) l (pg_mem s src n) = space_of po (pg_mem s) l (pg_mem s src n)"
    and "tables_ok bo s1 src dst (tabs po (pg_mem s) l (pg_mem s src n))"
    and "room s1 (user_frames po (pg_mem s) l u (pg_mem s src n) n)"
proof -
  let ?T = "tabs po (pg_mem s) l (pg_mem s src n)"
  note c = copied_toD [OF assms(1)]
  from to_prefix(1) [OF n] obtain r where r: "subtabs po (pg_mem s) l src = tabs_to po (pg_mem s) l src n @ ?T @ r"
    by blast
  note ok' = tables_okD [OF ok, unfolded r]
  have "set ?T \<inter> set new = {}" using ok'(9) grows_new_used [OF c(1)] by auto
  then have dj: "set ?T \<inter> ({src, dst} \<union> set (tabs_to po (pg_mem s) l src n) \<union> set new) = {}"
    using ok'(5,6,7) by auto
  show "tabs po (pg_mem s1) l (pg_mem s src n) = ?T"
    and "space_of po (pg_mem s1) l (pg_mem s src n) = space_of po (pg_mem s) l (pg_mem s src n)"
    using only_in_tabs [OF c(2) dj] by auto
  have "length ?T \<le> card (free_pages bo s1)" using grows_card [OF c(1)] c(4) ok'(8) by simp
  then show "tables_ok bo s1 src dst ?T"
    using ok' c(1) grows_free [OF c(1)] unfolding tables_ok_def grows_def by auto
  from to_prefix(2) [OF n, of po "pg_mem s" l u src] obtain q where "all_frames po (pg_mem s) l u src =
      (frames_to po (pg_mem s) l u src n @ user_frames po (pg_mem s) l u (pg_mem s src n) n) @ q" by auto
  then show "room s1 (user_frames po (pg_mem s) l u (pg_mem s src n) n)"
    using room room_prefix room_append(2) [OF _ c(1)] by metis
qed

end

context paging_env
begin

text \<open>What the loop has done stays as it is when the next entry is copied.\<close>

lemma copied_to_done:
  assumes "copied_to bo po l s s1 src dst cp u n new1" and e: "entry_copied bo po l s1 s2 src dst cp u n new2"
    and ok: "tables_ok bo s src dst (subtabs po (pg_mem s) l src)" and n: "n < ENTRY_COUNT"
    and w: "tabs po (pg_mem s1) l (pg_mem s1 src n) = tabs po (pg_mem s) l (pg_mem s src n)" and i: "i < n"
  shows "tabs po (pg_mem s2) l (pg_mem s2 src i) = tabs po (pg_mem s1) l (pg_mem s1 src i)"
    and "space_of po (pg_mem s2) l (pg_mem s2 src i) = space_of po (pg_mem s1) l (pg_mem s1 src i)"
    and "tabs po (pg_mem s2) l (pg_mem s2 dst i) = tabs po (pg_mem s1) l (pg_mem s1 dst i)"
    and "space_of po (pg_mem s2) l (pg_mem s2 dst i) = space_of po (pg_mem s1) l (pg_mem s1 dst i)"
proof -
  let ?T = "tabs po (pg_mem s) l (pg_mem s src n)"
  note c = copied_toD [OF assms(1)] and e' = entry_copiedD [OF e, unfolded w]
  from to_prefix(1) [OF n] obtain r where r: "subtabs po (pg_mem s) l src = tabs_to po (pg_mem s) l src n @ ?T @ r"
    by blast
  note ok' = tables_okD [OF ok, unfolded r]
  have new1: "page_no x \<in> free_pages bo s" "page_no x \<notin> free_pages bo s1" if "x \<in> set new1" for x
    using that grows_newD [OF c(1)] by auto
  have new2: "page_no x \<in> free_pages bo s1" if "x \<in> set new2" for x using that grows_newD(1) [OF e'(1)] by auto
  have "set (tabs po (pg_mem s1) l (pg_mem s1 src i)) \<subseteq> set (tabs_to po (pg_mem s) l src n)"
    using i c(7) by (auto simp: tabs_to_mem)
  moreover have "set (tabs_to po (pg_mem s) l src n) \<inter> ({src, dst} \<union> set ?T \<union> set new2) = {}"
    using ok'(5,6,7,9) new2 grows_free [OF c(1)] by auto
  ultimately have "set (tabs po (pg_mem s1) l (pg_mem s1 src i)) \<inter> ({src, dst} \<union> set ?T \<union> set new2) = {}" by blast
  from only_in_tabs [OF e'(2) this] i e'(3) [of i]
  show "tabs po (pg_mem s2) l (pg_mem s2 src i) = tabs po (pg_mem s1) l (pg_mem s1 src i)"
    and "space_of po (pg_mem s2) l (pg_mem s2 src i) = space_of po (pg_mem s1) l (pg_mem s1 src i)" by simp_all
  have "set (tabs po (pg_mem s1) l (pg_mem s1 dst i)) \<subseteq> set new1"
    using i c(3) by (auto simp: tabs_to_mem simp flip: c(3))
  moreover have "set new1 \<inter> ({src, dst} \<union> set ?T \<union> set new2) = {}"
    using ok'(3,4,9) new1 new2 by auto
  ultimately have "set (tabs po (pg_mem s1) l (pg_mem s1 dst i)) \<inter> ({src, dst} \<union> set ?T \<union> set new2) = {}" by blast
  from only_in_tabs [OF e'(2) this] i e'(4) [of i]
  show "tabs po (pg_mem s2) l (pg_mem s2 dst i) = tabs po (pg_mem s1) l (pg_mem s1 dst i)"
    and "space_of po (pg_mem s2) l (pg_mem s2 dst i) = space_of po (pg_mem s1) l (pg_mem s1 dst i)" by simp_all
qed

lemma copied_to_step:
  assumes c1: "copied_to bo po l s s1 src dst cp u n new1" and e: "entry_copied bo po l s1 s2 src dst cp u n new2"
    and ok: "tables_ok bo s src dst (subtabs po (pg_mem s) l src)" and n: "n < ENTRY_COUNT"
    and room: "room s (all_frames po (pg_mem s) l u src)"
  shows "copied_to bo po l s s2 src dst cp u (Suc n) (new1 @ new2)"
proof -
  note c = copied_toD [OF c1]
  note rest = copied_to_rest [OF c1 ok n room]
  have w: "pg_mem s1 src n = pg_mem s src n" using c(5) by simp
  note e' = entry_copiedD [OF e, unfolded w rest(1,2)]
  have uf: "user_frames po (pg_mem s1) l u (pg_mem s src n) n = user_frames po (pg_mem s) l u (pg_mem s src n) n"
    by (simp add: user_frames_def rest(2))
  have dn: "tabs po (pg_mem s2) l (pg_mem s2 src i) = tabs po (pg_mem s) l (pg_mem s src i)"
    "space_of po (pg_mem s2) l (pg_mem s2 src i) = space_of po (pg_mem s1) l (pg_mem s1 src i)"
    "tabs po (pg_mem s2) l (pg_mem s2 dst i) = tabs po (pg_mem s1) l (pg_mem s1 dst i)"
    "space_of po (pg_mem s2) l (pg_mem s2 dst i) = space_of po (pg_mem s1) l (pg_mem s1 dst i)" if "i < n" for i
    using copied_to_done [OF c1 e ok n _ that] rest(1) c(7) [OF that] by (simp_all add: w)
  have "tabs_to po (pg_mem s2) l dst n = tabs_to po (pg_mem s1) l dst n"
    unfolding tabs_to_def using dn(3) by (intro arg_cong [of _ _ concat] map_cong) auto
  then have t: "tabs_to po (pg_mem s2) l dst (Suc n) = new1 @ new2" using c(3) e'(5) by (simp add: tabs_to_Suc)
  have "grows bo s s2 (new1 @ new2) (frames_to po (pg_mem s) l u src (Suc n))"
    using grows_trans [OF c(1) e'(1)] by (simp add: frames_to_Suc uf)
  moreover have "only_in ({src, dst} \<union> set (tabs_to po (pg_mem s) l src (Suc n)) \<union> set (new1 @ new2)) (pg_mem s) (pg_mem s2)"
    by (rule only_in_trans [OF c(2) e'(2)]) (auto simp: tabs_to_Suc)
  moreover have "length (new1 @ new2) = length (tabs_to po (pg_mem s) l src (Suc n))"
    using c(4) e'(6) by (simp add: tabs_to_Suc)
  moreover have "\<forall>i\<ge>Suc n. pg_mem s2 src i = pg_mem s src i \<and> pg_mem s2 dst i = 0"
    using c(5,6) e'(3,4) by auto
  ultimately show ?thesis unfolding copied_to_def Let_def
    using t dn e'(7,8,9) c(8,9) by (auto simp: less_Suc_eq)
qed

text \<open>
  A copy of a table of level \<open>Suc l\<close> succeeds when there is a free page for every table below it, the
  tables are distinct and lie below 4 GiB, and no reference counter overflows.
\<close>

lemma copied_to_loop:
  assumes entry: "\<And>s i. \<lbrakk>tables_ok bo s src dst (tabs po (pg_mem s) l (pg_mem s src i));
      room s (user_frames po (pg_mem s) l u (pg_mem s src i) i); pg_mem s dst i = 0\<rbrakk> \<Longrightarrow>
      \<exists>s' new. f i s = Some s' \<and> entry_copied bo po l s s' src dst cp u i new"
    and ok: "tables_ok bo s src dst (subtabs po (pg_mem s) l src)" and n: "n \<le> ENTRY_COUNT"
    and room: "room s (all_frames po (pg_mem s) l u src)" and z: "pg_mem s dst = (\<lambda>_. 0)"
  shows "\<exists>s' new. each f [0..<n] s = Some s' \<and> copied_to bo po l s s' src dst cp u n new"
  using n
proof (induction n)
  case 0
  have "copied_to bo po l s s src dst cp u 0 []"
    using grows_refl [OF tables_okD(1) [OF ok]] z by (simp add: copied_to_def tabs_to_def frames_to_def only_in_def)
  then show ?case by auto
next
  case (Suc n)
  then obtain s1 new1 where s1: "each f [0..<n] s = Some s1" "copied_to bo po l s s1 src dst cp u n new1" by auto
  have n: "n < ENTRY_COUNT" using Suc.prems by simp
  note rest = copied_to_rest [OF s1(2) ok n room] and c = copied_toD [OF s1(2)]
  have w: "pg_mem s1 src n = pg_mem s src n" and d: "pg_mem s1 dst n = 0" using c(5,6) by simp_all
  have "user_frames po (pg_mem s1) l u (pg_mem s src n) n = user_frames po (pg_mem s) l u (pg_mem s src n) n"
    by (simp add: user_frames_def rest(2))
  with entry [of s1 n] rest w d obtain s2 new2 where "f n s1 = Some s2"
    "entry_copied bo po l s1 s2 src dst cp u n new2" by auto
  then show ?case using s1 copied_to_step [OF s1(2) _ ok n room] by (auto simp: each_append)
qed

end

context paging_env
begin

lemma copy_entry_spec:
  assumes rec: "\<And>k s src dst u. \<lbrakk>l = Suc k; tables_ok bo s src dst (subtabs po (pg_mem s) k src);
      room s (all_frames po (pg_mem s) k u src)\<rbrakk> \<Longrightarrow>
      \<exists>s' new. rec s src dst cp u = Some s' \<and> table_copied bo po k s s' src dst cp u new"
    and l: "l \<le> 3"
    and ok: "tables_ok bo s src dst (tabs po (pg_mem s) l (pg_mem s src i))"
    and room: "room s (user_frames po (pg_mem s) l u (pg_mem s src i) i)" and z: "pg_mem s dst i = 0"
  shows "\<exists>s' new. copy_entry bo po rec (Suc l) src dst cp u i s = Some s' \<and> entry_copied bo po l s s' src dst cp u i new"
proof (cases "contains (pte_flags po (pg_mem s src i)) PRESENT")
  case False
  then show ?thesis using entry_hole [OF tables_okD(1) [OF ok] False z] by blast
next
  case pr: True
  show ?thesis
  proof (cases "l = 0 \<or> contains (pte_flags po (pg_mem s src i)) HUGE_PAGE")
    case True
    then show ?thesis using entry_leaf [OF tables_okD(1,2) [OF ok] pr True room] by blast
  next
    case False
    then obtain k where k: "l = Suc k" by (cases l) auto
    have dir: "is_dir_entry po (pg_mem s src i)" using pr False by (simp add: is_dir_entry_def)
    have k3: "k < 3" using l k by simp
    show ?thesis unfolding k
      by (rule entry_dir [where rec = rec and k = k]) (use rec [OF k] k3 dir ok room k in simp_all)
  qed
qed

lemma r_copy_spec:
  assumes "l \<le> 3" and "tables_ok bo s src dst (subtabs po (pg_mem s) l src)"
    and "room s (all_frames po (pg_mem s) l u src)"
  shows "\<exists>s' new. r_copy bo po (Suc l) s src dst cp u = Some s' \<and> table_copied bo po l s s' src dst cp u new"
  using assms
proof (induction l arbitrary: s src dst u rule: less_induct)
  case (less l)
  note ok = less.prems(2) and room = less.prems(3)
  let ?z = "zero_table s dst" and ?m = "pg_mem s"
  have rec: "\<exists>s' new. r_copy bo po l s src dst cp u = Some s' \<and> table_copied bo po k s s' src dst cp u new"
    if "l = Suc k" "tables_ok bo s src dst (subtabs po (pg_mem s) k src)" "room s (all_frames po (pg_mem s) k u src)"
    for k s src dst u using less.IH [of k] that less.prems(1) by simp
  have ch: "only_in {dst} ?m (pg_mem ?z)" by (simp add: only_in_def)
  have dj: "set (src # subtabs po ?m l src) \<inter> {dst} = {}" using tables_okD(2,7) [OF ok] by auto
  note fr = only_in_table [OF ch dj]
  have af: "all_frames po (pg_mem ?z) l u src = all_frames po ?m l u src" by (rule all_frames_cong [OF fr(3,1)])
  have okz: "tables_ok bo ?z src dst (subtabs po (pg_mem ?z) l src)"
    and rz: "room ?z (all_frames po (pg_mem ?z) l u src)"
    using ok room unfolding fr(2) af by (simp_all add: tables_ok_def pg_inv_def room_def)
  have entry: "\<exists>s' new. copy_entry bo po (r_copy bo po l) (Suc l) src dst cp u i t = Some s' \<and>
      entry_copied bo po l t s' src dst cp u i new"
    if "tables_ok bo t src dst (tabs po (pg_mem t) l (pg_mem t src i))"
      "room t (user_frames po (pg_mem t) l u (pg_mem t src i) i)" "pg_mem t dst i = 0" for t i
    by (rule copy_entry_spec [OF _ less.prems(1) that]) (rule rec)
  have z: "pg_mem ?z dst = (\<lambda>_. 0)" by simp
  obtain s' new where e: "each (copy_entry bo po (r_copy bo po l) (Suc l) src dst cp u) [0..<ENTRY_COUNT] ?z = Some s'"
    and s2: "copied_to bo po l ?z s' src dst cp u ENTRY_COUNT new"
    using copied_to_loop [OF entry okz order_refl rz z] by blast
  have s1: "r_copy bo po (Suc l) s src dst cp u = Some s'" using e by (simp only: r_copy.simps)
  note c = copied_toD [OF s2, unfolded to_all af fr(1,2)]
  have "only_in ({src, dst} \<union> set (subtabs po ?m l src) \<union> set new) ?m (pg_mem s')"
    by (rule only_in_trans [OF ch c(2)]) auto
  moreover have "grows bo s s' new (all_frames po ?m l u src)" using c(1) by (simp add: grows_def)
  moreover have "subtabs po (pg_mem s') l src = subtabs po ?m l src"
    unfolding subtabs_def using c(7) fr(1,4) by (intro arg_cong [of _ _ concat] map_cong) auto
  ultimately have "table_copied bo po l s s' src dst cp u new"
    unfolding table_copied_def Let_def using c(3,4,8,9) fr(1,3) by auto
  then show ?case using s1 by blast
qed

end

section \<open>Freeing gives back\<close>

text \<open>
  \<open>shrinks bo s s' P R\<close>: from \<open>s\<close> to \<open>s'\<close> the pages \<open>P\<close> were given back and a reference was dropped
  for every member of \<open>R\<close>; a page that lost its last reference was given back too. \<open>freeable\<close> says that
  this is possible without a double free.
\<close>

definition shrinks :: "bit_ops \<Rightarrow> paging \<Rightarrow> paging \<Rightarrow> nat list \<Rightarrow> nat list \<Rightarrow> bool" where
  "shrinks bo s s' P R \<longleftrightarrow>
     pg_inv bo s' \<and> pm_len (pg_alloc s') = pm_len (pg_alloc s) \<and> pg_log s' = pg_log s \<and>
     length (refcnt (pg_alloc s')) = length (refcnt (pg_alloc s)) \<and>
     (\<forall>p. ref_count (pg_alloc s') p + count_list R p = ref_count (pg_alloc s) p) \<and>
     free_pages bo s' = free_pages bo s \<union> set P \<union> {p \<in> set R. ref_count (pg_alloc s') p = 0}"

definition freeable :: "bit_ops \<Rightarrow> paging \<Rightarrow> nat list \<Rightarrow> nat list \<Rightarrow> bool" where
  "freeable bo s P R \<longleftrightarrow>
     pg_inv bo s \<and> distinct P \<and> set P \<inter> set R = {} \<and>
     (\<forall>p\<in>set P \<union> set R. 0 < p \<and> p < pm_len (pg_alloc s) \<and> p \<notin> free_pages bo s) \<and>
     (\<forall>p\<in>set R. p < length (refcnt (pg_alloc s)) \<and> count_list R p \<le> ref_count (pg_alloc s) p)"

lemma shrinks_refl: "pg_inv bo s \<Longrightarrow> pg_alloc s' = pg_alloc s \<Longrightarrow> pg_log s' = pg_log s \<Longrightarrow> shrinks bo s s' [] []"
  by (simp add: shrinks_def pg_inv_def)

lemma shrinks_trans:
  assumes "shrinks bo s s1 P1 R1" and "shrinks bo s1 s2 P2 R2"
  shows "shrinks bo s s2 (P1 @ P2) (R1 @ R2)"
proof -
  have r1: "ref_count (pg_alloc s1) p + count_list R1 p = ref_count (pg_alloc s) p" for p
    using assms(1) by (simp add: shrinks_def)
  have r2: "ref_count (pg_alloc s2) p + count_list R2 p = ref_count (pg_alloc s1) p" for p
    using assms(2) by (simp add: shrinks_def)
  have z: "ref_count (pg_alloc s1) p = 0 \<longleftrightarrow> ref_count (pg_alloc s2) p = 0 \<and> p \<notin> set R2" for p
    using r2 [of p] by (auto simp: count_list_0_iff)
  have "ref_count (pg_alloc s2) p + count_list (R1 @ R2) p = ref_count (pg_alloc s) p" for p
    using r1 [of p] r2 [of p] by simp
  moreover have "free_pages bo s2 = free_pages bo s \<union> set (P1 @ P2) \<union>
      {p \<in> set (R1 @ R2). ref_count (pg_alloc s2) p = 0}"
    using assms z by (auto simp: shrinks_def)
  ultimately show ?thesis using assms by (simp add: shrinks_def)
qed

lemma freeable_append:
  assumes "freeable bo s (P1 @ P2) (R1 @ R2)" and "shrinks bo s s1 P1 R1"
  shows "freeable bo s1 P2 R2"
proof -
  have r1: "ref_count (pg_alloc s1) p + count_list R1 p = ref_count (pg_alloc s) p" for p
    using assms(2) by (simp add: shrinks_def)
  have c: "count_list R2 p \<le> ref_count (pg_alloc s1) p" if "p \<in> set R2" for p
  proof -
    have "count_list (R1 @ R2) p \<le> ref_count (pg_alloc s) p" using assms(1) that unfolding freeable_def by simp
    then show ?thesis using r1 [of p] by simp
  qed
  have "p \<notin> {p \<in> set R1. ref_count (pg_alloc s1) p = 0}" if "p \<in> set R2" for p
    using c [OF that] that count_list_0_iff [of R2 p] by auto
  moreover have "set P1 \<inter> set P2 = {}" "set P1 \<inter> set R2 = {}" "set P2 \<inter> set R1 = {}"
    using assms(1) by (auto simp: freeable_def)
  ultimately show ?thesis using assms c unfolding freeable_def shrinks_def by auto
qed

lemma freeable_prefix: "freeable bo s (P1 @ P2) (R1 @ R2) \<Longrightarrow> freeable bo s P1 R1"
  unfolding freeable_def by (auto intro: order_trans [rotated])

context bit_field
begin

lemma give_page_spec:
  assumes "freeable bo s [page_no a] []"
  obtains s' where "give_page bo s a = Some s'" and "pg_mem s' = pg_mem s" and "shrinks bo s s' [page_no a] []"
proof -
  let ?p = "page_no a" and ?pm = "pg_alloc s"
  have p: "0 < ?p" "?p < pm_len ?pm" "?p \<notin> free_set bo ?pm" "alloc_inv bo ?pm" "pm_len ?pm * 4096 \<le> 2 ^ 52"
    using assms by (auto simp: freeable_def pg_inv_def)
  from pm_set_free [OF p(2), of True] obtain pm' where pm': "pm_set bo ?pm ?p True = Some pm'"
    "pm_len pm' = pm_len ?pm" "refcnt pm' = refcnt ?pm" "free_set bo pm' = insert ?p (free_set bo ?pm)" by auto
  have get: "pm_get bo ?pm ?p = Some False" using pm_get_free [OF p(2)] p(3) by (simp add: free_set_def)
  have inv: "alloc_inv bo pm'" using p pm' by (simp add: alloc_inv_def)
  show thesis
  proof (rule that [of "s\<lparr>pg_alloc := pm'\<rparr>"])
    show "give_page bo s a = Some (s\<lparr>pg_alloc := pm'\<rparr>)"
      using get pm'(1) by (simp add: give_page_def dealloc_physical_page_def PAGE_SIZE_def Let_def)
    show "shrinks bo s (s\<lparr>pg_alloc := pm'\<rparr>) [?p] []"
      using p(5) pm' inv unfolding shrinks_def pg_inv_def by (simp add: ref_count_def)
  qed simp
qed

lemma drop_ref_spec:
  assumes "freeable bo s [] [page_no a]"
  obtains pm r s' where "page_decref (pg_alloc s) a = Some pm" and "page_getref pm a = Some r"
    and "(if r = 0 then give_page bo (s\<lparr>pg_alloc := pm\<rparr>) a else Some (s\<lparr>pg_alloc := pm\<rparr>)) = Some s'"
    and "pg_mem s' = pg_mem s" and "shrinks bo s s' [] [page_no a]"
proof -
  let ?p = "page_no a" and ?pm = "pg_alloc s"
  have p: "0 < ?p" "?p < pm_len ?pm" "?p \<notin> free_set bo ?pm" "?p < length (refcnt ?pm)" "1 \<le> ref_count ?pm ?p"
    and inv: "alloc_inv bo ?pm" "pm_len ?pm * 4096 \<le> 2 ^ 52"
    using assms by (auto simp: freeable_def pg_inv_def)
  let ?c = "refcnt ?pm ! ?p"
  let ?q = "?pm\<lparr>refcnt := (refcnt ?pm)[?p := ?c - 1]\<rparr>"
  have c0: "?c \<noteq> 0" using p(4,5) by (auto simp: ref_count_def)
  then have cm: "unat (?c - 1) = unat ?c - 1" by (simp add: unat_minus_one)
  have dec: "page_decref ?pm a = Some ?q" and get: "page_getref ?q a = Some (?c - 1)"
    using p(4) c0 by (simp_all add: page_decref_def pm_decref_def page_getref_def pm_getref_def nth_opt_def)
  have fq: "free_set bo ?q = free_set bo ?pm" "pm_len ?q = pm_len ?pm"
    by (simp_all add: free_set_def free_page_def pm_len_def)
  have rq: "ref_count ?q p' + count_list [?p] p' = ref_count ?pm p'" for p'
    using p(4,5) cm by (auto simp: ref_count_def nth_list_update)
  have r0: "ref_count ?q ?p = 0 \<longleftrightarrow> ?c - 1 = 0" using p(4) by (auto simp: ref_count_def unat_eq_0)
  have qi: "pg_inv bo (s\<lparr>pg_alloc := ?q\<rparr>)" using inv fq by (simp add: pg_inv_def alloc_inv_def)
  show thesis
  proof (cases "?c - 1 = 0")
    case False
    then have "shrinks bo s (s\<lparr>pg_alloc := ?q\<rparr>) [] [?p]"
      using rq r0 qi fq unfolding shrinks_def by auto
    then show thesis using that [OF dec get, of "s\<lparr>pg_alloc := ?q\<rparr>"] False by simp
  next
    case True
    have "freeable bo (s\<lparr>pg_alloc := ?q\<rparr>) [?p] []" using p qi fq by (simp add: freeable_def)
    then obtain s' where s': "give_page bo (s\<lparr>pg_alloc := ?q\<rparr>) a = Some s'" "pg_mem s' = pg_mem s"
      "shrinks bo (s\<lparr>pg_alloc := ?q\<rparr>) s' [?p] []" by (rule give_page_spec) auto
    have "ref_count (pg_alloc s') p' = ref_count ?q p'" for p' using s'(3) by (simp add: shrinks_def)
    then have "shrinks bo s s' [] [?p]" using s'(3) rq r0 True fq unfolding shrinks_def by auto
    then show thesis using that [OF dec get, of s'] True s' by simp
  qed
qed

end

definition freed_tabs :: "pte_ops \<Rightarrow> (nat \<Rightarrow> nat \<Rightarrow> u64) \<Rightarrow> nat \<Rightarrow> bool \<Rightarrow> bool \<Rightarrow> u64 \<Rightarrow> nat \<Rightarrow> nat list" where
  "freed_tabs po m l uo u w i = (if \<not> uo \<or> usr po l u w i then tabs po m l w else [])"

definition freed_to :: "pte_ops \<Rightarrow> (nat \<Rightarrow> nat \<Rightarrow> u64) \<Rightarrow> nat \<Rightarrow> bool \<Rightarrow> bool \<Rightarrow> nat \<Rightarrow> nat \<Rightarrow> nat list" where
  "freed_to po m l uo u a n = concat (map (\<lambda>i. freed_tabs po m l uo u (m a i) i) [0..<n])"

definition last_index :: "nat \<Rightarrow> bool \<Rightarrow> nat" where
  "last_index l uo = (if Suc l = 4 \<and> uo then 256 else ENTRY_COUNT)"

lemma freed_to_Suc: "freed_to po m l uo u a (Suc n) = freed_to po m l uo u a n @ freed_tabs po m l uo u (m a n) n"
  by (simp add: freed_to_def)

lemma freed_prefix:
  assumes "n < N"
  shows "\<exists>r. freed_to po m l uo u a N = freed_to po m l uo u a n @ freed_tabs po m l uo u (m a n) n @ r"
    and "\<exists>r. frames_to po m l u a N = frames_to po m l u a n @ user_frames po m l u (m a n) n @ r"
proof -
  have "[0..<N] = [0..<n] @ n # [Suc n..<N]"
    using assms upt_add_eq_append [of 0 n "N - n"] by (simp add: upt_conv_Cons)
  then show "\<exists>r. freed_to po m l uo u a N = freed_to po m l uo u a n @ freed_tabs po m l uo u (m a n) n @ r"
    and "\<exists>r. frames_to po m l u a N = frames_to po m l u a n @ user_frames po m l u (m a n) n @ r"
    by (simp_all add: freed_to_def frames_to_def)
qed

definition entry_freed ::
  "bit_ops \<Rightarrow> pte_ops \<Rightarrow> nat \<Rightarrow> paging \<Rightarrow> paging \<Rightarrow> nat \<Rightarrow> bool \<Rightarrow> bool \<Rightarrow> nat \<Rightarrow> bool" where
  "entry_freed bo po l s s' a uo u i \<longleftrightarrow>
     (let m = pg_mem s; w = m a i; ts = freed_tabs po m l uo u w i in
      shrinks bo s s' (map page_no ts) (user_frames po m l u w i) \<and>
      only_in ({a} \<union> set ts) m (pg_mem s') \<and> (\<forall>j. j \<noteq> i \<longrightarrow> pg_mem s' a j = m a j) \<and>
      (\<not> uo \<or> usr po l u w i \<or> \<not> contains (pte_flags po w) PRESENT \<longrightarrow>
         \<not> contains (pte_flags po (pg_mem s' a i)) PRESENT))"

definition table_freed ::
  "bit_ops \<Rightarrow> pte_ops \<Rightarrow> nat \<Rightarrow> paging \<Rightarrow> paging \<Rightarrow> nat \<Rightarrow> bool \<Rightarrow> bool \<Rightarrow> nat \<Rightarrow> bool" where
  "table_freed bo po l s s' a uo u n \<longleftrightarrow>
     (let m = pg_mem s; ts = freed_to po m l uo u a n in
      shrinks bo s s' (map page_no ts) (frames_to po m l u a n) \<and>
      only_in ({a} \<union> set ts) m (pg_mem s') \<and> (\<forall>j\<ge>n. pg_mem s' a j = m a j) \<and>
      (\<forall>j<n. \<not> uo \<or> usr po l u (m a j) j \<or> \<not> contains (pte_flags po (m a j)) PRESENT \<longrightarrow>
         \<not> contains (pte_flags po (pg_mem s' a j)) PRESENT))"

definition table_freeable :: "bit_ops \<Rightarrow> pte_ops \<Rightarrow> nat \<Rightarrow> paging \<Rightarrow> nat \<Rightarrow> bool \<Rightarrow> bool \<Rightarrow> nat \<Rightarrow> bool" where
  "table_freeable bo po l s a uo u n \<longleftrightarrow>
     (let ts = freed_to po (pg_mem s) l uo u a n in
      freeable bo s (map page_no ts) (frames_to po (pg_mem s) l u a n) \<and> page_no a \<notin> page_no ` set ts)"

lemma shrinks_set: "set P = set P' \<Longrightarrow> shrinks bo s s' P R \<Longrightarrow> shrinks bo s s' P' R"
  by (simp add: shrinks_def)

lemma freed_const:
  assumes "l < 3" and "\<not> uo \<or> u"
  shows "freed_to po m l uo u a (last_index l uo) = subtabs po m l a"
    and "frames_to po m l u a (last_index l uo) = all_frames po m l u a"
  using assms by (simp_all add: freed_to_def subtabs_def freed_tabs_def usr_const last_index_def frames_to_def all_frames_def)

context paging_env
begin

lemma free_hole:
  assumes "pg_inv bo s" and "\<not> contains (pte_flags po (pg_mem s a i)) PRESENT"
  shows "free_entry bo po rec (Suc l) a uo u i s = Some s \<and> entry_freed bo po l s s a uo u i"
  using assms space_hole [OF assms(2), of "pg_mem s" l]
  by (simp add: free_entry_def entry_freed_def Let_def user_frames_def freed_tabs_def only_in_def shrinks_refl)

lemma free_leaf:
  assumes fr: "freeable bo s [] (user_frames po (pg_mem s) l u (pg_mem s a i) i)"
    and pr: "contains (pte_flags po (pg_mem s a i)) PRESENT"
    and leaf: "l = 0 \<or> contains (pte_flags po (pg_mem s a i)) HUGE_PAGE"
  shows "\<exists>s'. free_entry bo po rec (Suc l) a uo u i s = Some s' \<and> entry_freed bo po l s s' a uo u i"
proof -
  let ?w = "pg_mem s a i"
  let ?p = "unat (pte_addr po ?w)" and ?s = "put s a i 0"
  have us: "usr po l u ?w i = u" using leaf by (auto simp: usr_def is_dir_entry_def)
  have sp: "space_of po (pg_mem s) l ?w = Frame (pte_addr po ?w) (pte_flags po ?w)" "tabs po (pg_mem s) l ?w = []"
    using space_leaf [OF pr leaf] by auto
  have uf: "user_frames po (pg_mem s) l u ?w i = (if u then [page_no ?p] else [])"
    unfolding user_frames_def us sp by simp
  have ft: "freed_tabs po (pg_mem s) l uo u ?w i = []" by (simp add: freed_tabs_def sp)
  have lv: "(Suc l = 1 \<or> contains (pte_flags po ?w) HUGE_PAGE) = True" using leaf by auto
  note step = free_entry_def [of bo po rec "Suc l" a uo u i s, unfolded lv Let_def if_True]
  note post = entry_freed_def Let_def uf ft only_in_def
  have inv: "pg_inv bo s" using fr by (simp add: freeable_def)
  show ?thesis
  proof (cases u)
    case False
    have "shrinks bo s s [] []" "shrinks bo s ?s [] []" using shrinks_refl [OF inv] by simp_all
    then have "uo \<Longrightarrow> entry_freed bo po l s s a uo u i" "entry_freed bo po l s ?s a uo u i"
      unfolding post us using False pr by simp_all
    then show ?thesis using step False pr by (cases uo) auto
  next
    case True
    have "freeable bo ?s [] [page_no ?p]" using fr True unfolding uf by (simp add: freeable_def pg_inv_def)
    then obtain pm r s' where s': "page_decref (pg_alloc ?s) ?p = Some pm" "page_getref pm ?p = Some r"
      "(if r = 0 then give_page bo (?s\<lparr>pg_alloc := pm\<rparr>) ?p else Some (?s\<lparr>pg_alloc := pm\<rparr>)) = Some s'"
      "pg_mem s' = pg_mem ?s" "shrinks bo ?s s' [] [page_no ?p]" by (rule drop_ref_spec)
    have "shrinks bo s s' [] [page_no ?p]" using s'(5) by (simp add: shrinks_def)
    then have "entry_freed bo po l s s' a uo u i" unfolding post using True s'(4) by simp
    moreover have "free_entry bo po rec (Suc l) a uo u i s = Some s'" using step True pr s'(1-3) by simp
    ultimately show ?thesis by blast
  qed
qed

lemma free_dir:
  fixes s a i
  defines "w \<equiv> pg_mem s a i"
  assumes rec: "\<And>s a u. table_freeable bo po k s a uo u (last_index k uo) \<Longrightarrow>
      \<exists>s'. rec s a uo u = Some s' \<and> table_freed bo po k s s' a uo u (last_index k uo)"
    and k: "k < 3" and dir: "is_dir_entry po w" and p: "\<not> uo \<or> usr po (Suc k) u w i"
    and fr: "freeable bo s (map page_no (freed_tabs po (pg_mem s) (Suc k) uo u w i)) (user_frames po (pg_mem s) (Suc k) u w i)"
    and a: "page_no a \<notin> page_no ` set (freed_tabs po (pg_mem s) (Suc k) uo u w i)"
  shows "\<exists>s'. free_entry bo po rec (Suc (Suc k)) a uo u i s = Some s' \<and> entry_freed bo po (Suc k) s s' a uo u i"
proof -
  let ?m = "pg_mem s" and ?b = "unat (pte_addr po w)" and ?u = "usr po (Suc k) u w i"
  let ?T = "subtabs po ?m k ?b" and ?R = "user_frames po ?m (Suc k) u w i"
  have ft: "freed_tabs po ?m (Suc k) uo u w i = ?b # ?T"
    using p by (simp add: freed_tabs_def dir_entry_space(2) [OF dir] del: tabs.simps)
  note fc = freed_const [OF k p, of po ?m ?b]
  have R: "all_frames po ?m k ?u ?b = ?R" using dir k by (simp add: all_frames_const user_frames_def comp_def)
  have fr': "freeable bo s (map page_no ?T @ [page_no ?b]) (?R @ [])"
    using fr unfolding ft by (auto simp: freeable_def)
  then have "table_freeable bo po k s ?b uo ?u (last_index k uo)"
    using freeable_prefix [OF fr'] by (auto simp: table_freeable_def fc R freeable_def)
  from rec [OF this] obtain s1 where s1: "rec s ?b uo ?u = Some s1" "shrinks bo s s1 (map page_no ?T) ?R"
    "only_in ({?b} \<union> set ?T) ?m (pg_mem s1)" by (auto simp: table_freed_def Let_def fc R)
  let ?s2 = "put s1 a i 0"
  have s2: "shrinks bo s ?s2 (map page_no ?T) ?R" using s1(2) by (simp add: shrinks_def pg_inv_def)
  obtain s' where s': "give_page bo ?s2 ?b = Some s'" "pg_mem s' = pg_mem ?s2" "shrinks bo ?s2 s' [page_no ?b] []"
    using give_page_spec [OF freeable_append [OF fr' s2]] by blast
  have "shrinks bo s s' (map page_no ?T @ [page_no ?b]) (?R @ [])" by (rule shrinks_trans [OF s2 s'(3)])
  then have sh: "shrinks bo s s' (map page_no (?b # ?T)) ?R" by (simp add: shrinks_def)
  have "a \<notin> {?b} \<union> set ?T" using a unfolding ft by auto
  then have "pg_mem s1 a = ?m a" using s1(3) by (simp add: only_in_def)
  then have "entry_freed bo po (Suc k) s s' a uo u i"
    unfolding entry_freed_def Let_def w_def [symmetric] ft using sh s1(3) s'(2) by (simp add: only_in_def)
  moreover have d: "contains (pte_flags po w) PRESENT" "\<not> contains (pte_flags po w) HUGE_PAGE"
    using dir by (auto simp: is_dir_entry_def)
  moreover have uu: "(if Suc (Suc k) = 4 then i < 256 else u) = ?u" using dir by (simp add: usr_def)
  have "free_entry bo po rec (Suc (Suc k)) a uo u i s = Some s'"
    unfolding free_entry_def Let_def w_def [symmetric] uu using d p s1(1) s'(1) by simp
  ultimately show ?thesis by blast
qed

end

context paging_env
begin

lemma free_entry_spec:
  assumes rec: "\<And>k s a u. \<lbrakk>l = Suc k; table_freeable bo po k s a uo u (last_index k uo)\<rbrakk> \<Longrightarrow>
      \<exists>s'. rec s a uo u = Some s' \<and> table_freed bo po k s s' a uo u (last_index k uo)"
    and l: "l \<le> 3"
    and fr: "freeable bo s (map page_no (freed_tabs po (pg_mem s) l uo u (pg_mem s a i) i))
      (user_frames po (pg_mem s) l u (pg_mem s a i) i)"
    and a: "page_no a \<notin> page_no ` set (freed_tabs po (pg_mem s) l uo u (pg_mem s a i) i)"
  shows "\<exists>s'. free_entry bo po rec (Suc l) a uo u i s = Some s' \<and> entry_freed bo po l s s' a uo u i"
proof -
  let ?w = "pg_mem s a i"
  have inv: "pg_inv bo s" using fr by (simp add: freeable_def)
  consider (hole) "\<not> contains (pte_flags po ?w) PRESENT"
    | (leaf) "contains (pte_flags po ?w) PRESENT" "l = 0 \<or> contains (pte_flags po ?w) HUGE_PAGE"
    | (dir) k where "l = Suc k" "is_dir_entry po ?w"
    by (cases l) (auto simp: is_dir_entry_def)
  then show ?thesis
  proof cases
    case hole
    then show ?thesis using free_hole [OF inv hole] by blast
  next
    case leaf
    have "freed_tabs po (pg_mem s) l uo u ?w i = []" using space_leaf [OF leaf] by (simp add: freed_tabs_def)
    then show ?thesis using free_leaf [OF _ leaf] fr by simp
  next
    case dir
    show ?thesis
    proof (cases "\<not> uo \<or> usr po l u ?w i")
      case True
      show ?thesis unfolding dir(1)
        by (rule free_dir [where rec = rec and k = k]) (use rec [OF dir(1)] l dir True fr a in simp_all)
    next
      case False
      have "contains (pte_flags po ?w) PRESENT" "\<not> contains (pte_flags po ?w) HUGE_PAGE"
        using dir(2) by (auto simp: is_dir_entry_def)
      moreover have "(if Suc l = 4 then i < 256 else u) = usr po l u ?w i" using dir(2) by (simp add: usr_def)
      ultimately have "free_entry bo po rec (Suc l) a uo u i s = Some s"
        using False dir(1) by (simp add: free_entry_def Let_def)
      moreover have "entry_freed bo po l s s a uo u i"
        using False by (simp add: entry_freed_def freed_tabs_def user_frames_def only_in_def shrinks_refl [OF inv])
      ultimately show ?thesis by blast
    qed
  qed
qed

lemma table_freed_rest:
  assumes "table_freed bo po l s s1 a uo u n" and fr: "table_freeable bo po l s a uo u N" and n: "n < N"
  shows "freed_tabs po (pg_mem s1) l uo u (pg_mem s a n) n = freed_tabs po (pg_mem s) l uo u (pg_mem s a n) n"
    and "user_frames po (pg_mem s1) l u (pg_mem s a n) n = user_frames po (pg_mem s) l u (pg_mem s a n) n"
    and "freeable bo s1 (map page_no (freed_tabs po (pg_mem s) l uo u (pg_mem s a n) n))
      (user_frames po (pg_mem s) l u (pg_mem s a n) n)"
    and "page_no a \<notin> page_no ` set (freed_tabs po (pg_mem s) l uo u (pg_mem s a n) n)"
proof -
  let ?m = "pg_mem s" and ?w = "pg_mem s a n"
  let ?T = "freed_tabs po ?m l uo u ?w n" and ?F = "freed_to po ?m l uo u a n"
  obtain r q where r: "freed_to po ?m l uo u a N = ?F @ ?T @ r"
    "frames_to po ?m l u a N = frames_to po ?m l u a n @ user_frames po ?m l u ?w n @ q"
    using freed_prefix [OF n] by metis
  note f = fr [unfolded table_freeable_def Let_def r]
  have sh: "shrinks bo s s1 (map page_no ?F) (frames_to po ?m l u a n)" and oi: "only_in ({a} \<union> set ?F) ?m (pg_mem s1)"
    using assms(1) by (simp_all add: table_freed_def Let_def)
  have "page_no ` set ?T \<inter> (page_no ` ({a} \<union> set ?F)) = {}"
    using f by (auto simp: freeable_def)
  then have dj: "set ?T \<inter> ({a} \<union> set ?F) = {}" by blast
  show "freed_tabs po (pg_mem s1) l uo u ?w n = ?T"
    and "user_frames po (pg_mem s1) l u ?w n = user_frames po ?m l u ?w n"
    using only_in_tabs [OF oi, of po l ?w] dj by (auto simp: freed_tabs_def user_frames_def split: if_splits)
  show "page_no a \<notin> page_no ` set ?T" using f by auto
  have "freeable bo s ((map page_no ?F @ map page_no ?T) @ map page_no r)
      ((frames_to po ?m l u a n @ user_frames po ?m l u ?w n) @ q)" using f by simp
  from freeable_append [OF freeable_prefix [OF this] sh]
  show "freeable bo s1 (map page_no ?T) (user_frames po ?m l u ?w n)" .
qed

lemma table_freed_step:
  assumes t: "table_freed bo po l s s1 a uo u n" and e: "entry_freed bo po l s1 s2 a uo u n"
    and fr: "table_freeable bo po l s a uo u N" and n: "n < N"
  shows "table_freed bo po l s s2 a uo u (Suc n)"
proof -
  note rest = table_freed_rest [OF t fr n]
  have w: "pg_mem s1 a n = pg_mem s a n" using t by (simp add: table_freed_def Let_def)
  note e' = e [unfolded entry_freed_def Let_def w rest(1,2)] and t' = t [unfolded table_freed_def Let_def]
  have "shrinks bo s s2 (map page_no (freed_to po (pg_mem s) l uo u a (Suc n))) (frames_to po (pg_mem s) l u a (Suc n))"
    using shrinks_trans [OF t' [THEN conjunct1] e' [THEN conjunct1]] by (simp add: freed_to_Suc frames_to_Suc)
  moreover have "only_in ({a} \<union> set (freed_to po (pg_mem s) l uo u a (Suc n))) (pg_mem s) (pg_mem s2)"
    by (rule only_in_trans [OF t' [THEN conjunct2, THEN conjunct1] e' [THEN conjunct2, THEN conjunct1]])
      (auto simp: freed_to_Suc)
  moreover have "\<forall>j<Suc n. \<not> uo \<or> usr po l u (pg_mem s a j) j \<or> \<not> contains (pte_flags po (pg_mem s a j)) PRESENT \<longrightarrow>
      \<not> contains (pte_flags po (pg_mem s2 a j)) PRESENT"
    using t' e' by (metis less_Suc_eq nat_neq_iff)
  ultimately show ?thesis using t' e' by (simp add: table_freed_def Let_def)
qed

lemma r_free_spec:
  assumes "l \<le> 3" and "table_freeable bo po l s a uo u (last_index l uo)"
  shows "\<exists>s'. r_free bo po (Suc l) s a uo u = Some s' \<and> table_freed bo po l s s' a uo u (last_index l uo)"
  using assms
proof (induction l arbitrary: s a u rule: less_induct)
  case (less l)
  let ?f = "free_entry bo po (r_free bo po l) (Suc l) a uo u"
  have rec: "\<exists>s'. r_free bo po l s a uo u = Some s' \<and> table_freed bo po k s s' a uo u (last_index k uo)"
    if "l = Suc k" "table_freeable bo po k s a uo u (last_index k uo)" for k s a u
    using less.IH [of k] that less.prems(1) by simp
  have "n \<le> last_index l uo \<Longrightarrow> \<exists>s'. each ?f [0..<n] s = Some s' \<and> table_freed bo po l s s' a uo u n" for n
  proof (induction n)
    case 0
    have "pg_inv bo s" using less.prems(2) by (simp add: table_freeable_def Let_def freeable_def)
    then show ?case by (simp add: table_freed_def freed_to_def frames_to_def only_in_def shrinks_refl)
  next
    case (Suc n)
    then obtain s1 where s1: "each ?f [0..<n] s = Some s1" "table_freed bo po l s s1 a uo u n" by auto
    have n: "n < last_index l uo" using Suc.prems by simp
    note rest = table_freed_rest [OF s1(2) less.prems(2) n]
    have w: "pg_mem s1 a n = pg_mem s a n" using s1(2) by (simp add: table_freed_def Let_def)
    have "\<exists>s2. ?f n s1 = Some s2 \<and> entry_freed bo po l s1 s2 a uo u n"
      by (rule free_entry_spec [OF _ less.prems(1)]) (use rec rest w in \<open>simp_all\<close>)
    then show ?case using s1 table_freed_step [OF s1(2) _ less.prems(2) n] by (auto simp: each_append)
  qed
  moreover have "r_free bo po (Suc l) s a uo u = each ?f [0..<last_index l uo] s"
    unfolding r_free.simps last_index_def by (rule arg_cong2 [where f = "each ?f"]) (rule if_distrib [symmetric], rule refl)
  ultimately show ?case by simp
qed

end

section \<open>The processor's page walk\<close>

text \<open>The walk the processor makes: the frame and the flags of the entry that maps an address.\<close>

primrec walk :: "pte_ops \<Rightarrow> (nat \<Rightarrow> nat \<Rightarrow> u64) \<Rightarrow> nat \<Rightarrow> nat \<Rightarrow> nat list \<Rightarrow> (u64 \<times> u64) option" where
  "walk po m 0 a vs = None"
| "walk po m (Suc l) a vs =
     (let w = m a (hd vs); f = pte_flags po w in
      if \<not> contains f PRESENT then None
      else if l = 0 \<or> contains f HUGE_PAGE then Some (pte_addr po w, f)
      else walk po m l (unat (pte_addr po w)) (tl vs))"

definition va_index :: "nat \<Rightarrow> u64 \<Rightarrow> nat" where
  "va_index k va = unat (take_bit 9 (drop_bit (3 + 9 * k) va))"

definition translate :: "pte_ops \<Rightarrow> (nat \<Rightarrow> nat \<Rightarrow> u64) \<Rightarrow> nat \<Rightarrow> u64 \<Rightarrow> (u64 \<times> u64) option" where
  "translate po m p4 va = walk po m 4 p4 [va_index 4 va, va_index 3 va, va_index 2 va, va_index 1 va]"

fun lookup_space :: "space \<Rightarrow> nat list \<Rightarrow> (u64 \<times> u64) option" where
  "lookup_space Hole vs = None"
| "lookup_space (Frame a f) vs = Some (a, f)"
| "lookup_space (Dir f ss) [] = None"
| "lookup_space (Dir f ss) (v # vs) = (if v < length ss then lookup_space (ss ! v) vs else None)"

lemma va_index_less: "va_index k va < ENTRY_COUNT"
proof -
  have "unat (take_bit 9 (drop_bit (3 + 9 * k) va)) < 2 ^ 9"
    by (simp only: unsigned_take_bit_eq take_bit_nat_less_exp)
  then show ?thesis by (simp add: va_index_def ENTRY_COUNT_def)
qed

lemma walk_space:
  "length vs = l \<Longrightarrow> \<forall>v\<in>set vs. v < ENTRY_COUNT \<Longrightarrow>
   walk po m (Suc l) a (v # vs) = lookup_space (space_of po m l (m a v)) vs"
proof (induction l arbitrary: a v vs)
  case 0
  then show ?case by (simp add: Let_def)
next
  case (Suc l)
  then obtain v' vs' where vs: "vs = v' # vs'" by (cases vs) auto
  then have "walk po m (Suc l) b (v' # vs') = lookup_space (space_of po m l (m b v')) vs'" for b
    using Suc by simp
  then show ?case using Suc.prems vs
    by (subst walk.simps) (auto simp: is_dir_entry_def Let_def simp del: walk.simps)
qed

lemma translate_space:
  "translate po m p4 va =
     lookup_space (space_of po m 3 (m p4 (va_index 4 va))) [va_index 3 va, va_index 2 va, va_index 1 va]"
  using walk_space [of "[va_index 3 va, va_index 2 va, va_index 1 va]" 3] va_index_less
  by (simp add: translate_def eval_nat_numeral del: walk.simps space_of.simps)

lemma lookup_write_protect: "lookup_space (write_protect t) vs = map_option (map_prod id (\<lambda>f. f AND NOT WRITABLE)) (lookup_space t vs)"
  by (induction t vs rule: lookup_space.induct) auto

lemma lookup_user_space: "lookup_space (user_space t) vs = map_option (map_prod id (\<lambda>f. f OR USER_ACCESSIBLE)) (lookup_space t vs)"
  by (induction t vs rule: lookup_space.induct) auto

lemma lookup_parent_space:
  "lookup_space (parent_space b t) vs = map_option (map_prod id (\<lambda>f. if b then f AND NOT WRITABLE else f)) (lookup_space t vs)"
  by (cases b) (simp_all add: parent_space_def lookup_write_protect map_prod_def id_def option.map_ident)

section \<open>Fork and exit\<close>

text \<open>
  What a fork needs of the page tables of the parent: they are in use, distinct and below 4 GiB (tables above
  are skipped with a warning), their top level has no huge pages, there is memory for the copies and the
  reference counters of the user frames do not overflow.
\<close>

definition fork_ready :: "bit_ops \<Rightarrow> pte_ops \<Rightarrow> paging \<Rightarrow> nat \<Rightarrow> bool" where
  "fork_ready bo po s p4 \<longleftrightarrow>
     (let m = pg_mem s; ts = subtabs po m 3 p4 in
      pg_inv bo s \<and> page_no p4 \<notin> free_pages bo s \<and> distinct (p4 # ts) \<and>
      (\<forall>a\<in>set ts. page_no a \<notin> free_pages bo s \<and> a \<le> 2 ^ 32) \<and> length ts < card (free_pages bo s) \<and>
      (\<forall>i<ENTRY_COUNT. contains (pte_flags po (m p4 i)) PRESENT \<longrightarrow> \<not> contains (pte_flags po (m p4 i)) HUGE_PAGE) \<and>
      room s (all_frames po m 3 False p4))"

abbreviation user_va :: "u64 \<Rightarrow> bool" where "user_va va \<equiv> va_index 4 va < 256"

definition protect_user :: "bool \<Rightarrow> u64 \<Rightarrow> u64" where
  "protect_user user f = (if user then f AND NOT WRITABLE else f)"

context paging_env
begin

lemma copy_tables_spec:
  assumes ready: "fork_ready bo po s p4"
  obtains s' p4t new where "copy_tables bo po p4 s = Some (s', p4t)"
    and "grows bo s s' (p4t # new) (all_frames po (pg_mem s) 3 False p4)"
    and "subtabs po (pg_mem s') 3 p4t = new" and "length new = length (subtabs po (pg_mem s) 3 p4)"
    and "subtabs po (pg_mem s') 3 p4 = subtabs po (pg_mem s) 3 p4"
    and "\<And>i. i < ENTRY_COUNT \<Longrightarrow> space_of po (pg_mem s') 3 (pg_mem s' p4 i) =
      parent_space (i < 256) (space_of po (pg_mem s) 3 (pg_mem s p4 i))"
    and "\<And>i. i < ENTRY_COUNT \<Longrightarrow> space_of po (pg_mem s') 3 (pg_mem s' p4t i) =
      user_space (parent_space (i < 256) (space_of po (pg_mem s) 3 (pg_mem s p4 i)))"
proof -
  note r = ready [unfolded fork_ready_def Let_def]
  let ?m = "pg_mem s"
  have "free_pages bo s \<noteq> {}" using r by auto
  then obtain s1 b where b: "take_page bo s = Some (s1, b)" "pg_mem s1 = ?m" "grows bo s s1 [b] []"
    using take_page_spec r by metis
  note g = grows_card [OF b(3)] and gf = grows_free [OF b(3)] and gn = grows_newD [OF b(3), of b]
  have "tables_ok bo s1 p4 b (subtabs po (pg_mem s1) 3 p4)"
    unfolding tables_ok_def b(2) using r b(3) g gf gn by (auto simp: grows_def)
  moreover have "room s1 (all_frames po (pg_mem s1) 3 False p4)"
    unfolding b(2) using r b(3) by (simp add: room_def grows_def)
  ultimately obtain s' new where s': "r_copy bo po 4 s1 p4 b True False = Some s'"
    "table_copied bo po 3 s1 s' p4 b True False new" using r_copy_spec [of 3 s1 p4 b False True] by auto
  note t = s'(2) [unfolded table_copied_def Let_def b(2)]
  have us: "parent_space (True \<and> usr po 3 False (?m p4 i) i) (space_of po ?m 3 (?m p4 i)) =
      parent_space (i < 256) (space_of po ?m 3 (?m p4 i))" if "i < ENTRY_COUNT" for i
  proof (cases "contains (pte_flags po (?m p4 i)) PRESENT")
    case True
    then show ?thesis using r that by (simp add: usr_def is_dir_entry_def)
  next
    case False
    then show ?thesis using space_hole [OF False] by (simp add: parent_space_def)
  qed
  show thesis
  proof (rule that [of s' b new])
    show "copy_tables bo po p4 s = Some (s', b)" using b(1) s'(1) by (simp add: copy_tables_def)
    show "grows bo s s' (b # new) (all_frames po ?m 3 False p4)" using grows_trans [OF b(3)] t by fastforce
  qed (use t us in auto)
qed

end

fun is_Dir :: "space \<Rightarrow> bool" where
  "is_Dir (Dir f ss) = True"
| "is_Dir t = False"

lemma is_Dir_spaces [simp]: "is_Dir (user_space t) = is_Dir t" "is_Dir (parent_space b t) = is_Dir t"
  by (cases t; cases b; simp add: parent_space_def)+

lemma frames_spaces [simp]: "frames (user_space t) = frames t" "frames (parent_space b t) = frames t"
  by (simp_all add: frames_parent parent_space_def)

lemma user_frames_space:
  "user_frames po m 3 False w i = (if is_Dir (space_of po m 3 w) \<and> i < 256 then frames (space_of po m 3 w) else [])"
proof -
  have "is_Dir (space_of po m 3 w) = is_dir_entry po w"
    by (simp add: eval_nat_numeral)
  then show ?thesis by (simp add: user_frames_def usr_def del: space_of.simps)
qed

lemma distinct_page_no: "distinct ts \<Longrightarrow> \<forall>a\<in>set ts. 4096 dvd a \<Longrightarrow> distinct (map page_no ts)"
  unfolding distinct_map by (auto intro!: inj_onI) (metis dvd_div_mult_self)

definition user_frames_live :: "bit_ops \<Rightarrow> pte_ops \<Rightarrow> paging \<Rightarrow> nat \<Rightarrow> bool" where
  "user_frames_live bo po s p4 \<longleftrightarrow>
     (\<forall>p\<in>set (all_frames po (pg_mem s) 3 False p4).
        0 < p \<and> p < pm_len (pg_alloc s) \<and> p \<notin> free_pages bo s \<and> 1 \<le> ref_count (pg_alloc s) p)"

context paging_env
begin

lemma free_copy:
  assumes g: "grows bo s s' (b # new) R" and inv: "pg_inv bo s" and sub: "subtabs po (pg_mem s') 3 b = new"
    and fr: "all_frames po (pg_mem s') 3 False b = R" and room: "room s R"
    and live: "\<forall>p\<in>set R. 0 < p \<and> p < pm_len (pg_alloc s) \<and> p \<notin> free_pages bo s \<and> 1 \<le> ref_count (pg_alloc s) p"
  obtains s'' where "free_page_tables bo po b False s' = Some s''" and "free_pages bo s'' = free_pages bo s"
    and "\<And>p. ref_count (pg_alloc s'') p = ref_count (pg_alloc s) p" and "pg_log s'' = pg_log s"
    and "only_in ({b} \<union> set new) (pg_mem s') (pg_mem s'')" and "pg_inv bo s''"
proof -
  note g' = g [unfolded grows_def]
  have li: "last_index 3 False = ENTRY_COUNT" by (simp add: last_index_def)
  have ft: "freed_to po (pg_mem s') 3 False False b ENTRY_COUNT = new"
    and fs: "frames_to po (pg_mem s') 3 False b ENTRY_COUNT = R"
    using sub fr by (simp_all add: freed_to_def freed_tabs_def subtabs_def frames_to_def all_frames_def del: tabs.simps)
  have d: "distinct (map page_no (b # new))" using g' by (intro distinct_page_no) auto
  have pos: "0 < p \<and> p < pm_len (pg_alloc s)" if "p \<in> free_pages bo s" for p
    using inv that free_set_less [OF that] by (cases p) (auto simp: pg_inv_def alloc_inv_def)
  have "freeable bo s' (map page_no (b # new)) R"
    using g' d pos live room unfolding freeable_def room_def by auto
  then have fab: "freeable bo s' (map page_no new @ [page_no b]) (R @ [])"
    by (auto simp: freeable_def)
  have "table_freeable bo po 3 s' b False False (last_index 3 False)"
    using freeable_prefix [OF fab] d by (simp add: table_freeable_def Let_def li ft fs)
  from r_free_spec [OF order_refl this] obtain s1 where s1: "r_free bo po 4 s' b False False = Some s1"
    "shrinks bo s' s1 (map page_no new) R" "only_in ({b} \<union> set new) (pg_mem s') (pg_mem s1)"
    by (auto simp: table_freed_def Let_def li ft fs)
  obtain s'' where s'': "give_page bo s1 b = Some s''" "pg_mem s'' = pg_mem s1" "shrinks bo s1 s'' [page_no b] []"
    using give_page_spec [OF freeable_append [OF fab s1(2)]] by blast
  have sh: "shrinks bo s' s'' (map page_no new @ [page_no b]) (R @ [])" by (rule shrinks_trans [OF s1(2) s''(3)])
  have rc: "ref_count (pg_alloc s'') p = ref_count (pg_alloc s) p" for p
    using sh g' by (simp add: shrinks_def)
  have "{p \<in> set R. ref_count (pg_alloc s'') p = 0} = {}" using live by (auto simp: rc)
  then have "free_pages bo s'' = free_pages bo s" using sh g' unfolding shrinks_def by auto
  moreover have "free_page_tables bo po b False s' = Some s''" using s1(1) s''(1) by (simp add: free_page_tables_def)
  moreover have "pg_log s'' = pg_log s" "pg_inv bo s''" using sh g' by (simp_all add: shrinks_def)
  ultimately show thesis using rc s1(3) s''(2) by (intro that [of s'']) simp_all
qed

end

lemma paging_envI: "bit_field bo \<Longrightarrow> page_entries po \<Longrightarrow> paging_env bo po"
  by (simp add: paging_env_def)

lemma copy_tables_translate:
  assumes "bit_field bo" and "page_entries po" and ready: "fork_ready bo po s p4"
  shows "\<exists>s' p4t. copy_tables bo po p4 s = Some (s', p4t) \<and>
    (\<forall>va. translate po (pg_mem s') p4 va =
         map_option (map_prod id (protect_user (user_va va))) (translate po (pg_mem s) p4 va) \<and>
       translate po (pg_mem s') p4t va =
         map_option (map_prod id (\<lambda>f. protect_user (user_va va) f OR USER_ACCESSIBLE)) (translate po (pg_mem s) p4 va)) \<and>
    (\<forall>p. ref_count (pg_alloc s') p = ref_count (pg_alloc s) p + count_list (all_frames po (pg_mem s) 3 False p4) p) \<and>
    card (free_pages bo s') + length (subtabs po (pg_mem s) 3 p4) + 1 = card (free_pages bo s)"
proof -
  have env: "paging_env bo po" using assms(1,2) by (rule paging_envI)
  obtain s' p4t new where c: "copy_tables bo po p4 s = Some (s', p4t)"
    "grows bo s s' (p4t # new) (all_frames po (pg_mem s) 3 False p4)" "length new = length (subtabs po (pg_mem s) 3 p4)"
    "\<And>i. i < ENTRY_COUNT \<Longrightarrow> space_of po (pg_mem s') 3 (pg_mem s' p4 i) =
      parent_space (i < 256) (space_of po (pg_mem s) 3 (pg_mem s p4 i))"
    "\<And>i. i < ENTRY_COUNT \<Longrightarrow> space_of po (pg_mem s') 3 (pg_mem s' p4t i) =
      user_space (parent_space (i < 256) (space_of po (pg_mem s) 3 (pg_mem s p4 i)))"
    using paging_env.copy_tables_spec [OF env ready] by metis
  have "translate po (pg_mem s') p4 va =
         map_option (map_prod id (protect_user (user_va va))) (translate po (pg_mem s) p4 va) \<and>
       translate po (pg_mem s') p4t va =
         map_option (map_prod id (\<lambda>f. protect_user (user_va va) f OR USER_ACCESSIBLE)) (translate po (pg_mem s) p4 va)"
    for va
    using c(4,5) [OF va_index_less [of 4 va]]
    by (simp add: translate_space lookup_user_space lookup_parent_space option.map_comp map_prod_compose [symmetric]
        protect_user_def [abs_def] comp_def prod.map_comp id_def del: space_of.simps)
  moreover have "card (free_pages bo s') + length (subtabs po (pg_mem s) 3 p4) + 1 = card (free_pages bo s)"
    using paging_env.grows_card [OF env c(2)] c(3) by simp
  ultimately show ?thesis using c(1,2) by (intro exI [of _ s'] exI [of _ p4t]) (simp add: grows_def)
qed


text \<open>
  Property C11 (exit undoes fork). When a forked process exits before it has changed its address space, the
  allocator is as it was before the fork: every page table of the child is free again, no user frame is
  lost or freed, every reference count has its old value, and no page is freed twice. The parent's pages
  stay mapped and write-protected.
\<close>

theorem fork_exit_restores:
  assumes "bit_field bo" and "page_entries po" and ready: "fork_ready bo po s p4" and live: "user_frames_live bo po s p4"
  shows "\<exists>s' p4t s''. copy_tables bo po p4 s = Some (s', p4t) \<and> free_page_tables bo po p4t False s' = Some s'' \<and>
    free_pages bo s'' = free_pages bo s \<and> (\<forall>p. ref_count (pg_alloc s'') p = ref_count (pg_alloc s) p) \<and>
    pg_log s'' = pg_log s \<and>
    (\<forall>va. translate po (pg_mem s'') p4 va =
       map_option (map_prod id (protect_user (user_va va))) (translate po (pg_mem s) p4 va))"
proof -
  have env: "paging_env bo po" using assms(1,2) by (rule paging_envI)
  let ?R = "all_frames po (pg_mem s) 3 False p4"
  obtain s' p4t new where c: "copy_tables bo po p4 s = Some (s', p4t)" "grows bo s s' (p4t # new) ?R"
    "subtabs po (pg_mem s') 3 p4t = new" "subtabs po (pg_mem s') 3 p4 = subtabs po (pg_mem s) 3 p4"
    "\<And>i. i < ENTRY_COUNT \<Longrightarrow> space_of po (pg_mem s') 3 (pg_mem s' p4 i) =
      parent_space (i < 256) (space_of po (pg_mem s) 3 (pg_mem s p4 i))"
    "\<And>i. i < ENTRY_COUNT \<Longrightarrow> space_of po (pg_mem s') 3 (pg_mem s' p4t i) =
      user_space (parent_space (i < 256) (space_of po (pg_mem s) 3 (pg_mem s p4 i)))"
    using paging_env.copy_tables_spec [OF env ready] by metis
  have R: "all_frames po (pg_mem s') 3 False p4t = ?R"
    unfolding all_frames_def user_frames_space using c(6) by (intro arg_cong [of _ _ concat] map_cong) auto
  note r = ready [unfolded fork_ready_def Let_def]
  obtain s'' where f: "free_page_tables bo po p4t False s' = Some s''" "free_pages bo s'' = free_pages bo s"
    "\<And>p. ref_count (pg_alloc s'') p = ref_count (pg_alloc s) p" "pg_log s'' = pg_log s"
    "only_in ({p4t} \<union> set new) (pg_mem s') (pg_mem s'')"
    using paging_env.free_copy [OF env c(2) _ c(3) R] r live unfolding user_frames_live_def by metis
  have "x \<notin> set (p4t # new)" if "x \<in> set (p4 # subtabs po (pg_mem s) 3 p4)" for x
    using grows_new_used [OF c(2)] r that by auto
  then have dj: "set (p4 # subtabs po (pg_mem s') 3 p4) \<inter> ({p4t} \<union> set new) = {}" unfolding c(4) by auto
  have "translate po (pg_mem s'') p4 va =
       map_option (map_prod id (protect_user (user_va va))) (translate po (pg_mem s) p4 va)" for va
    using c(5) [OF va_index_less [of 4 va]] only_in_table(3) [OF f(5) dj va_index_less [of 4 va]]
    by (simp add: translate_space lookup_parent_space protect_user_def [abs_def] del: space_of.simps)
  then show ?thesis using c(1) f by blast
qed

lemma free_user_half:
  assumes "bit_field bo" and "page_entries po"
    and ok: "table_freeable bo po 3 s p4 True False 256" and d: "distinct (p4 # subtabs po (pg_mem s) 3 p4)"
    and huge: "\<forall>i<ENTRY_COUNT. contains (pte_flags po (pg_mem s p4 i)) PRESENT \<longrightarrow> is_dir_entry po (pg_mem s p4 i)"
  shows "\<exists>s'. free_page_tables bo po p4 True s = Some s' \<and>
    (\<forall>va. translate po (pg_mem s') p4 va = (if user_va va then None else translate po (pg_mem s) p4 va)) \<and>
    free_pages bo s' = free_pages bo s \<union> page_no ` set (freed_to po (pg_mem s) 3 True False p4 256) \<union>
      {p \<in> set (frames_to po (pg_mem s) 3 False p4 256). ref_count (pg_alloc s') p = 0} \<and>
    (\<forall>p. ref_count (pg_alloc s') p + count_list (frames_to po (pg_mem s) 3 False p4 256) p = ref_count (pg_alloc s) p)"
proof -
  have env: "paging_env bo po" using assms(1,2) by (rule paging_envI)
  let ?m = "pg_mem s"
  have li: "last_index 3 True = 256" by (simp add: last_index_def)
  from paging_env.r_free_spec [OF env order_refl, of s p4 True False] ok li obtain s' where
    s': "r_free bo po 4 s p4 True False = Some s'" "table_freed bo po 3 s s' p4 True False 256" by auto
  note t = s'(2) [unfolded table_freed_def Let_def]
  let ?F = "freed_to po ?m 3 True False p4 256"
  have "translate po (pg_mem s') p4 va = (if user_va va then None else translate po ?m p4 va)" for va
  proof (cases "user_va va")
    case True
    let ?i = "va_index 4 va"
    have "usr po 3 False (?m p4 ?i) ?i \<or> \<not> contains (pte_flags po (?m p4 ?i)) PRESENT"
      using huge True va_index_less [of 4 va] by (auto simp: usr_def)
    then have "\<not> contains (pte_flags po (pg_mem s' p4 ?i)) PRESENT" using t True by blast
    then show ?thesis using True
      by (simp add: translate_space paging_env.space_hole [OF env] del: space_of.simps)
  next
    case False
    let ?i = "va_index 4 va"
    have w: "pg_mem s' p4 ?i = ?m p4 ?i" using t False by simp
    obtain r where r: "subtabs po ?m 3 p4 = tabs_to po ?m 3 p4 ?i @ tabs po ?m 3 (?m p4 ?i) @ r"
      using to_prefix(1) [OF va_index_less] by blast
    have "set ?F \<subseteq> set (tabs_to po ?m 3 p4 ?i)"
      using False by (fastforce simp: freed_to_def freed_tabs_def tabs_to_def)
    then have "set (tabs po ?m 3 (?m p4 ?i)) \<inter> ({p4} \<union> set ?F) = {}" using d unfolding r by auto
    then have "space_of po (pg_mem s') 3 (?m p4 ?i) = space_of po ?m 3 (?m p4 ?i)"
      using t only_in_tabs(2) by blast
    then show ?thesis using False w by (simp add: translate_space del: space_of.simps)
  qed
  moreover have "free_page_tables bo po p4 True s = Some s'" using s'(1) by (simp add: free_page_tables_def)
  ultimately show ?thesis using t unfolding shrinks_def by auto
qed

text \<open>
  Property C13 (exec replaces user space). Freeing the user half of an address space, as \<^verbatim>\<open>exec\<close>
  does before it loads a program, does not panic when the tables are in order: no address of user space is
  mapped afterwards, every address of the kernel half is mapped as before, the tables of the user half
  are free, every user frame lost a reference per mapping, and those without one left are free.
\<close>

theorem exec_frees_user_space:
  assumes "bit_field bo" and "page_entries po"
    and ok: "table_freeable bo po 3 s p4 True False 256" and d: "distinct (p4 # subtabs po (pg_mem s) 3 p4)"
    and huge: "\<forall>i<ENTRY_COUNT. contains (pte_flags po (pg_mem s p4 i)) PRESENT \<longrightarrow> is_dir_entry po (pg_mem s p4 i)"
  shows "\<exists>s'. free_page_tables bo po p4 True s = Some s' \<and>
    (\<forall>va. translate po (pg_mem s') p4 va = (if user_va va then None else translate po (pg_mem s) p4 va)) \<and>
    free_pages bo s' = free_pages bo s \<union> page_no ` set (freed_to po (pg_mem s) 3 True False p4 256) \<union>
      {p \<in> set (frames_to po (pg_mem s) 3 False p4 256). ref_count (pg_alloc s') p = 0} \<and>
    (\<forall>p. ref_count (pg_alloc s') p + count_list (frames_to po (pg_mem s) 3 False p4 256) p = ref_count (pg_alloc s) p)"
  using assms by (rule free_user_half)

subsection \<open>An example\<close>

text \<open>One user page at address 0: frame 5, below the tables in the pages 1 to 4; the pages from 6 on are free.\<close>

definition sample_mem :: "nat \<Rightarrow> nat \<Rightarrow> u64" where
  "sample_mem a i =
     (if i \<noteq> 0 then 0
      else if a = 0x1000 then 0x2007 else if a = 0x2000 then 0x3007
      else if a = 0x3000 then 0x4007 else if a = 0x4000 then 0x5007 else 0)"

definition sample_paging :: paging where
  "sample_paging = \<lparr>pg_alloc = \<lparr>bmp = [NOT (mask 6)], refcnt = (replicate 64 0)[5 := 1]\<rparr>,
     pg_mem = sample_mem, pg_log = []\<rparr>"

lemma sample_entries:
  "pte_addr x86_pte 0x2007 = 0x2000" "pte_addr x86_pte 0x3007 = 0x3000" "pte_addr x86_pte 0x4007 = 0x4000"
  "pte_addr x86_pte 0x5007 = 0x5000" "pte_flags x86_pte 0x2007 = 7" "pte_flags x86_pte 0x3007 = 7"
  "pte_flags x86_pte 0x4007 = 7" "pte_flags x86_pte 0x5007 = 7"
  by (simp_all add: x86_pte_def ADDR_MASK_def mask_eq_exp_minus_1)

lemma sample_flags: "contains 7 PRESENT" "\<not> contains 7 HUGE_PAGE"
  by (simp_all add: contains_def PRESENT_def HUGE_PAGE_def)

lemma upt_single: "0 < n \<Longrightarrow> [0..<n] = 0 # [Suc 0..<n]"
  by (rule upt_conv_Cons)

lemma sample_concat:
  assumes "0 < n" and "\<And>i. 0 < i \<Longrightarrow> f i = []"
  shows "concat (map f [0..<n]) = f 0"
proof -
  have "concat (map f [Suc 0..<n]) = []" using assms(2) by auto
  then show ?thesis unfolding upt_single [OF assms(1)] by simp
qed

lemma sample_zero: "0 < i \<Longrightarrow> sample_mem a i = 0"
  by (simp add: sample_mem_def)

lemma sample_tree:
  "tabs x86_pte sample_mem 3 0x2007 = [0x2000, 0x3000, 0x4000]"
  "frames (space_of x86_pte sample_mem 3 0x2007) = [5]"
proof -
  have n: "0 < ENTRY_COUNT" by (simp add: ENTRY_COUNT_def)
  have d: "is_dir_entry x86_pte 0x2007" "is_dir_entry x86_pte 0x3007" "is_dir_entry x86_pte 0x4007"
    by (simp_all add: is_dir_entry_def sample_entries sample_flags)
  have t: "concat (map (\<lambda>i. tabs x86_pte sample_mem l (sample_mem a i)) [0..<ENTRY_COUNT]) =
      tabs x86_pte sample_mem l (sample_mem a 0)" for l a
    by (rule sample_concat [OF n]) (simp add: sample_zero x86_paging.space_0 del: tabs.simps)
  have f: "concat (map (frames \<circ> (\<lambda>i. space_of x86_pte sample_mem l (sample_mem a i))) [0..<ENTRY_COUNT]) =
      frames (space_of x86_pte sample_mem l (sample_mem a 0))" for l a
    by (subst sample_concat [OF n]) (simp_all add: sample_zero x86_paging.space_0 del: space_of.simps)
  have m: "sample_mem 0x2000 0 = 0x3007" "sample_mem 0x3000 0 = 0x4007" "sample_mem 0x4000 0 = 0x5007"
    by (simp_all add: sample_mem_def)
  have ts: "tabs x86_pte sample_mem (Suc l) w =
      unat (pte_addr x86_pte w) # tabs x86_pte sample_mem l (sample_mem (unat (pte_addr x86_pte w)) 0)"
    if "is_dir_entry x86_pte w" for l w using that by (simp only: tabs.simps if_True t)
  have fs: "frames (space_of x86_pte sample_mem (Suc l) w) =
      frames (space_of x86_pte sample_mem l (sample_mem (unat (pte_addr x86_pte w)) 0))"
    if "is_dir_entry x86_pte w" for l w using that by (simp only: space_of.simps if_True frames.simps map_map f)
  show "tabs x86_pte sample_mem 3 0x2007 = [0x2000, 0x3000, 0x4000]"
    unfolding numeral_3_eq_3 by (simp add: ts d m sample_entries del: tabs.simps(2))
  show "frames (space_of x86_pte sample_mem 3 0x2007) = [5]"
    unfolding numeral_3_eq_3 by (simp add: fs d m sample_entries sample_flags del: space_of.simps(2))
qed

lemma sample_all:
  "subtabs x86_pte sample_mem 3 0x1000 = [0x2000, 0x3000, 0x4000]" "all_frames x86_pte sample_mem 3 False 0x1000 = [5]"
  "freed_to x86_pte sample_mem 3 True False 0x1000 256 = [0x2000, 0x3000, 0x4000]"
  "frames_to x86_pte sample_mem 3 False 0x1000 256 = [5]"
proof -
  have n: "0 < ENTRY_COUNT" "0 < (256 :: nat)" by (simp_all add: ENTRY_COUNT_def)
  have m: "sample_mem 0x1000 0 = 0x2007" by (simp add: sample_mem_def)
  have u: "usr x86_pte 3 False 0x2007 0" by (simp add: usr_def is_dir_entry_def sample_entries sample_flags)
  note z = sample_zero x86_paging.space_0 user_frames_def freed_tabs_def
  show "subtabs x86_pte sample_mem 3 0x1000 = [0x2000, 0x3000, 0x4000]"
    unfolding subtabs_def
    by (subst sample_concat [OF n(1)]) (simp_all add: z m sample_tree del: tabs.simps)
  show "all_frames x86_pte sample_mem 3 False 0x1000 = [5]"
    unfolding all_frames_def
    by (subst sample_concat [OF n(1)]) (simp_all add: z m u sample_tree del: space_of.simps)
  show "freed_to x86_pte sample_mem 3 True False 0x1000 256 = [0x2000, 0x3000, 0x4000]"
    unfolding freed_to_def
    by (subst sample_concat [OF n(2)]) (simp_all add: z m u sample_tree del: tabs.simps)
  show "frames_to x86_pte sample_mem 3 False 0x1000 256 = [5]"
    unfolding frames_to_def
    by (subst sample_concat [OF n(2)]) (simp_all add: z m u sample_tree del: space_of.simps)
qed

lemma sample_free: "free_pages word_bits sample_paging = {6..<64}" "pm_len (pg_alloc sample_paging) = 64"
proof -
  show len: "pm_len (pg_alloc sample_paging) = 64" by (simp add: sample_paging_def pm_len_def)
  have "free_page word_bits (pg_alloc sample_paging) i \<longleftrightarrow> 6 \<le> i \<and> i < 64" for i
    unfolding free_page_def len by (auto simp: sample_paging_def word_bits_def bit_simps)
  then show "free_pages word_bits sample_paging = {6..<64}" by (intro set_eqI) (simp add: free_set_def)
qed

lemma sample_inv: "pg_inv word_bits sample_paging"
  by (simp add: pg_inv_def alloc_inv_def sample_free PAGE_SIZE_def)

lemma sample_refs: "ref_count (pg_alloc sample_paging) 5 = 1" "length (refcnt (pg_alloc sample_paging)) = 64"
  by (simp_all add: ref_count_def sample_paging_def)

lemma sample_mem_eq [simp]: "pg_mem sample_paging = sample_mem"
  by (simp add: sample_paging_def)

lemma sample_top: "contains (pte_flags x86_pte (sample_mem 0x1000 i)) PRESENT \<Longrightarrow> is_dir_entry x86_pte (sample_mem 0x1000 i)"
  by (cases "i = 0") (simp_all add: sample_mem_def is_dir_entry_def sample_entries sample_flags x86_paging.not_present_0)

lemma sample_ready: "fork_ready word_bits x86_pte sample_paging 0x1000" "user_frames_live word_bits x86_pte sample_paging 0x1000"
proof -
  have "\<forall>i<ENTRY_COUNT. contains (pte_flags x86_pte (sample_mem 0x1000 i)) PRESENT \<longrightarrow>
      \<not> contains (pte_flags x86_pte (sample_mem 0x1000 i)) HUGE_PAGE"
    using sample_top by (simp add: is_dir_entry_def)
  then show "fork_ready word_bits x86_pte sample_paging 0x1000"
    by (simp add: fork_ready_def Let_def sample_all sample_inv sample_free room_def sample_refs)
  show "user_frames_live word_bits x86_pte sample_paging 0x1000"
    by (simp add: user_frames_live_def sample_all sample_free sample_refs)
qed

lemma sample_translate: "translate x86_pte sample_mem 0x1000 0 = Some (0x5000, 7)" "va_index k 0 = 0"
proof -
  show v: "va_index k 0 = 0" for k by (simp add: va_index_def)
  have four: "(4 :: nat) = Suc (Suc (Suc (Suc 0)))" by simp
  show "translate x86_pte sample_mem 0x1000 0 = Some (0x5000, 7)"
    unfolding translate_def v unfolding four by (simp add: Let_def sample_mem_def sample_entries sample_flags)
qed


theorem fork_exit_restores_witness:
  "\<exists>s' p4t s''. copy_tables word_bits x86_pte 0x1000 sample_paging = Some (s', p4t) \<and>
     free_page_tables word_bits x86_pte p4t False s' = Some s'' \<and> free_pages word_bits s'' = {6..<64} \<and>
     ref_count (pg_alloc s'') 5 = 1 \<and> pg_log s'' = []"
  using fork_exit_restores [OF word_bits.bit_field_axioms x86_pte.page_entries_axioms sample_ready]
  by (auto simp: sample_free sample_refs) (auto simp: sample_paging_def)

theorem exec_frees_user_space_witness:
  "\<exists>s'. free_page_tables word_bits x86_pte 0x1000 True sample_paging = Some s' \<and>
     translate x86_pte (pg_mem s') 0x1000 0 = None \<and> free_pages word_bits s' = {2..<64}"
proof -
  have fr: "table_freeable word_bits x86_pte 3 sample_paging 0x1000 True False 256"
    by (auto simp: table_freeable_def sample_all freeable_def sample_inv sample_free sample_refs)
  have d: "distinct (0x1000 # subtabs x86_pte (pg_mem sample_paging) 3 0x1000)" by (simp add: sample_all)
  obtain s' where s': "free_page_tables word_bits x86_pte 0x1000 True sample_paging = Some s'"
    "translate x86_pte (pg_mem s') 0x1000 0 = None" "ref_count (pg_alloc s') 5 + 1 = 1"
    "free_pages word_bits s' = {6..<64} \<union> {2, 3, 4} \<union> {p \<in> {5}. ref_count (pg_alloc s') p = 0}"
  proof -
    have top: "\<forall>i<ENTRY_COUNT. contains (pte_flags x86_pte (pg_mem sample_paging 0x1000 i)) PRESENT \<longrightarrow>
        is_dir_entry x86_pte (pg_mem sample_paging 0x1000 i)" using sample_top by simp
    obtain s' where s': "free_page_tables word_bits x86_pte 0x1000 True sample_paging = Some s'"
      "\<forall>va. translate x86_pte (pg_mem s') 0x1000 va =
         (if user_va va then None else translate x86_pte (pg_mem sample_paging) 0x1000 va)"
      "free_pages word_bits s' = {6..<64} \<union> page_no ` set [0x2000, 0x3000, 0x4000] \<union>
         {p \<in> set [5]. ref_count (pg_alloc s') p = 0}"
      "\<forall>p. ref_count (pg_alloc s') p + count_list [5] p = ref_count (pg_alloc sample_paging) p"
      using exec_frees_user_space [OF word_bits.bit_field_axioms x86_pte.page_entries_axioms fr d top]
      unfolding sample_mem_eq sample_all sample_free by blast
    have "translate x86_pte (pg_mem s') 0x1000 0 = None" using spec [OF s'(2), of 0] by (simp add: sample_translate)
    moreover have "ref_count (pg_alloc s') 5 + 1 = 1" using spec [OF s'(4), of 5] by (simp add: sample_refs)
    ultimately show thesis using s'(1,3) by (intro that [of s']) simp_all
  qed
  have five: "{p \<in> {5 :: nat}. ref_count (pg_alloc s') p = 0} = {5}" using s'(3) by auto
  have all: "{6..<64} \<union> {2, 3, 4} \<union> {5 :: nat} = {2..<64}" by (intro set_eqI) (simp, presburger)
  show ?thesis using s'(1,2,4) unfolding five all by blast
qed

end
