(* ===== verification/Kernel.thy ===== *)
theory Kernel
  imports Vfs Ipc Paging
begin

text \<open>
  The system calls, \<^verbatim>\<open>kernel/src/task/syscall.rs\<close>, and the life of a process, the functions
  \<^verbatim>\<open>task_0\<close>, \<^verbatim>\<open>copy_process\<close>, \<^verbatim>\<open>do_fork\<close>, \<^verbatim>\<open>do_exec\<close> and
  \<^verbatim>\<open>do_exit\<close> of \<^verbatim>\<open>kernel/src/task/process.rs\<close>, composed of the scheduler, the address
  spaces, the channels and the virtual file system. The handle tables that the source keeps in the
  processes are the tables of the IPC state, at the same index. \<open>'w\<close> is the state behind the file
  systems and the open files; a system call also takes the memory of the calling task, as far as it is
  mapped, and returns it changed. \<^term>\<open>None\<close> is a panic.
\<close>

section \<open>State\<close>

record ('fs, 'w) kernel =
  k_sched :: sched_state
  k_ipc :: ipc_state
  k_paging :: paging
  NEXT_TID :: nat
  k_mounts :: "'fs mount_table"
  k_world :: 'w
  ECHO_FLAG :: bool

record segment =
  p_load :: bool
  p_vaddr :: nat
  p_memsz :: nat
  p_filesz :: nat
  p_offset :: nat

text \<open>
  What the kernel takes from other crates, the boot loader and the hardware: bit and page table accessors, the
  file systems, open files and directories, partitions and the FAT driver, the ELF parser \<^verbatim>\<open>goblin\<close>, the
  terminal, and the mapper of \<^verbatim>\<open>x86_64\<close>: \<open>e_map_page\<close> enters a frame for a page into the
  tables, allocating tables as needed, and says whether it did, \<open>e_unmap\<close>, \<open>e_update_flags\<close> and
  \<open>e_translate_page\<close> likewise.
\<close>

record ('fs, 'w, 'p) kernel_env =
  e_bits :: bit_ops
  e_pte :: pte_ops
  e_kernel_cr3 :: nat
  e_vfs :: "('fs, 'w, nat, nat) vfs_ops"
  e_size :: "'w \<Rightarrow> nat \<Rightarrow> (nat \<times> 'w) option"
  e_read :: "nat \<Rightarrow> 'w \<Rightarrow> nat \<Rightarrow> (bytes \<times> 'w) option"
  e_write :: "nat \<Rightarrow> 'w \<Rightarrow> bytes \<Rightarrow> (nat \<times> 'w) option"
  e_seek :: "nat \<Rightarrow> 'w \<Rightarrow> SeekFrom \<Rightarrow> (nat \<times> 'w) option"
  e_getdents :: "nat \<Rightarrow> 'w \<Rightarrow> nat \<Rightarrow> (DirEntry list \<times> 'w) option"
  e_stdin :: "'w \<Rightarrow> 'w \<times> u8 option"
  e_devs :: "'w \<Rightarrow> dev_env"
  e_partition :: "dev_node \<Rightarrow> nat \<Rightarrow> 'w \<Rightarrow> ('w \<times> 'p option) option"
  e_fat :: "'p option \<Rightarrow> 'fs option"
  e_elf :: "bytes \<Rightarrow> (segment list \<times> u64) option"
  e_map_page :: "paging \<Rightarrow> nat \<Rightarrow> nat \<Rightarrow> nat \<Rightarrow> u64 \<Rightarrow> (paging \<times> bool) option"
  e_translate_page :: "(nat \<Rightarrow> nat \<Rightarrow> u64) \<Rightarrow> nat \<Rightarrow> nat \<Rightarrow> nat option"
  e_unmap :: "paging \<Rightarrow> nat \<Rightarrow> nat \<Rightarrow> (paging \<times> bool) option"
  e_update_flags :: "paging \<Rightarrow> nat \<Rightarrow> nat \<Rightarrow> u64 \<Rightarrow> (paging \<times> bool) option"
  e_canonical :: "u64 \<Rightarrow> bool"
  e_truncate :: "nat \<Rightarrow> nat"
  e_selector :: "nat \<Rightarrow> nat \<Rightarrow> u64"
  e_columns :: u64
  e_rows :: u64
  e_fb_width :: u64
  e_fb_height :: u64
  e_fb_addr :: u64
  e_fb_pitch :: u64

type_synonym user_mem = "u64 \<Rightarrow> u8"
type_synonym ('fs, 'w) call_result = "(('fs, 'w) kernel \<times> user_mem \<times> process_context) option"

definition current_tid :: "('fs, 'w) kernel \<Rightarrow> nat" where
  "current_tid k = CURRENT_TASK_ID (k_sched k)"

text \<open>\<^verbatim>\<open>tasks[current].as_mut().unwrap()\<close>\<close>

definition current_task :: "('fs, 'w) kernel \<Rightarrow> process option" where
  "current_task k = do { t \<leftarrow> nth_opt (tasks (k_sched k)) (current_tid k); t }"

definition set_current_task :: "('fs, 'w) kernel \<Rightarrow> process \<Rightarrow> ('fs, 'w) kernel" where
  "set_current_task k p =
     k\<lparr>k_sched := (k_sched k)\<lparr>tasks := (tasks (k_sched k))[current_tid k := Some p]\<rparr>\<rparr>"

section \<open>Processes\<close>

definition task_0 :: "('fs, 'w, 'p) kernel_env \<Rightarrow> paging \<Rightarrow> 'w \<Rightarrow> 'fs mount_table \<Rightarrow> (process \<times> handle_table \<times> paging \<times> 'w) option" where
  "task_0 e pg w mounts =
     do { (w, f0) \<leftarrow> get_file (e_vfs e) w mounts (ascii ''/dev/stderr'');
          (w, f1) \<leftarrow> get_file (e_vfs e) w mounts (ascii ''/dev/stdout'');
          (pg, p4) \<leftarrow> t0_p4_table (e_bits e) (e_pte e) (e_kernel_cr3 e) pg;
          Some (\<lparr>page_table = p4, proc_context = context_default, fpu_state = FPU_INIT, tm = 10, fs = 0, brk = 0,
                 exe_path = None, proc_state = Runnable, files = (replicate 64 None)[0 := f0, 1 := f1],
                 directories = replicate 64 None\<rparr>, replicate IPC_MAX_HANDLES None, pg, w) }"

text \<open>The parent's registers get the new process number, the child's get 0.\<close>

definition copy_process ::
  "('fs, 'w, 'p) kernel_env \<Rightarrow> process \<Rightarrow> process_context \<Rightarrow> nat \<Rightarrow> paging \<Rightarrow> ipc_state \<Rightarrow> handle_table \<Rightarrow>
   (process \<times> handle_table \<times> process_context \<times> paging \<times> ipc_state) option" where
  "copy_process e p ctx new_tid pg ipc tb =
     do { (pg, p4t) \<leftarrow> copy_tables (e_bits e) (e_pte e) (page_table p) pg;
          let new_context = ctx\<lparr>process_context.rcx := 0\<rparr>;
          let ctx = ctx\<lparr>process_context.rcx := of_nat new_tid\<rparr>;
          let (ipc, tb) = clone_handle_table ipc tb;
          Some (\<lparr>page_table = p4t, proc_context = new_context, fpu_state = FPU_INIT, tm = 0, fs = 0, brk = brk p,
                 exe_path = exe_path p, proc_state = Runnable, files = files p, directories = directories p\<rparr>,
                tb, ctx, pg, ipc) }"

text \<open>\<^verbatim>\<open>resize_with(n, || None)\<close> when the vector is shorter, then the store at the index.\<close>

definition put_at :: "'a option list \<Rightarrow> nat \<Rightarrow> 'a \<Rightarrow> 'a option list" where
  "put_at xs i x = (xs @ replicate (i + 1 - length xs) None)[i := Some x]"

definition do_fork :: "('fs, 'w, 'p) kernel_env \<Rightarrow> ('fs, 'w) kernel \<Rightarrow> process_context \<Rightarrow> (('fs, 'w) kernel \<times> process_context) option" where
  "do_fork e k ctx =
     do { new_tid \<leftarrow> checked_add (NEXT_TID k) 1;
          p \<leftarrow> current_task k;
          tb \<leftarrow> nth_opt (tables (k_ipc k)) (current_tid k); tb \<leftarrow> tb;
          (child, tb', ctx, pg, ipc) \<leftarrow> copy_process e p ctx new_tid (k_paging k) (k_ipc k) tb;
          Some (k\<lparr>NEXT_TID := new_tid, k_paging := pg,
                  k_sched := (k_sched k)\<lparr>tasks := put_at (tasks (k_sched k)) new_tid child\<rparr>,
                  k_ipc := ipc\<lparr>tables := put_at (tables ipc) new_tid tb'\<rparr>\<rparr>, ctx) }"

text \<open>After a switch of the scheduler the IPC commands act for the new task.\<close>

definition switched :: "('fs, 'w) kernel \<Rightarrow> sched_state \<Rightarrow> ('fs, 'w) kernel" where
  "switched k s = k\<lparr>k_sched := s, k_ipc := (k_ipc k)\<lparr>current := CURRENT_TASK_ID s\<rparr>\<rparr>"

definition do_exit :: "('fs, 'w, 'p) kernel_env \<Rightarrow> ('fs, 'w) kernel \<Rightarrow> process_context \<Rightarrow> (('fs, 'w) kernel \<times> process_context) option" where
  "do_exit e k ctx =
     (let c_tid = current_tid k in
      do { t \<leftarrow> nth_opt (tasks (k_sched k)) c_tid;
           k \<leftarrow> (case t of
                   None \<Rightarrow> Some k
                 | Some p \<Rightarrow>
                     do { tb \<leftarrow> nth_opt (tables (k_ipc k)) c_tid; tb \<leftarrow> tb;
                          let ipc = (k_ipc k)\<lparr>tables := (tables (k_ipc k))[c_tid := None]\<rparr>;
                          let (ipc, _) = release_handle_table ipc tb;
                          pg \<leftarrow> free_page_tables (e_bits e) (e_pte e) (page_table p) False (k_paging k);
                          Some (k\<lparr>k_ipc := ipc, k_paging := pg\<rparr>) });
           (s, ctx) \<leftarrow> schedule ((k_sched k)\<lparr>tasks := (tasks (k_sched k))[c_tid := None]\<rparr>) ctx True;
           Some (switched k s, ctx) })"

section \<open>Loading a program\<close>

text \<open>
  One page of a segment: a frame is allocated and mapped; a page that is mapped already keeps its frame and
  the new one is freed. \<open>load_segment\<close> maps the pages, clears the segment and copies what the file has of
  it.
\<close>

definition load_page :: "('fs, 'w, 'p) kernel_env \<Rightarrow> nat \<Rightarrow> nat \<Rightarrow> paging \<Rightarrow> paging option" where
  "load_page e p4 page pg =
     do { (pg, pa) \<leftarrow> take_page (e_bits e) pg;
          (pg, ok) \<leftarrow> e_map_page e pg p4 page pa (PRESENT OR WRITABLE OR USER_ACCESSIBLE);
          if ok then do { pm \<leftarrow> page_incref (pg_alloc pg) pa; Some (pg\<lparr>pg_alloc := pm\<rparr>) }
          else give_page (e_bits e) pg pa }"

definition load_segment ::
  "('fs, 'w, 'p) kernel_env \<Rightarrow> nat \<Rightarrow> bytes \<Rightarrow> segment \<Rightarrow> paging \<times> u64 \<times> user_mem \<Rightarrow> (paging \<times> u64 \<times> user_mem) option" where
  "load_segment e p4 buf ph st =
     (case st of (pg, b, mem) \<Rightarrow>
      if \<not> p_load ph then Some st
      else
        do { end_addr \<leftarrow> checked_add (p_vaddr ph) (p_memsz ph);
             last \<leftarrow> checked_sub end_addr 1;
             let start_va = e_truncate e (p_vaddr ph);
             let end_va = e_truncate e last;
             pg \<leftarrow> each (load_page e p4) [start_va div 4096..<end_va div 4096 + 1] pg;
             let mem = user_store mem (of_nat start_va) (replicate (p_memsz ph) 0);
             file_end \<leftarrow> checked_add (p_offset ph) (p_filesz ph);
             data \<leftarrow> slice buf (p_offset ph) file_end;
             if p_filesz ph > p_memsz ph then None
             else Some (pg, max b (of_nat end_addr), user_store mem (of_nat start_va) data) })"

definition do_exec ::
  "('fs, 'w, 'p) kernel_env \<Rightarrow> ('fs, 'w) kernel \<Rightarrow> user_mem \<Rightarrow> process_context \<Rightarrow> ('fs, 'w) call_result" where
  "do_exec e k mem args =
     (let path = user_bytes mem (process_context.rdi args) (unat (process_context.rcx args)) in
      if \<not> utf8_valid path then None
      else
        do { (w, f) \<leftarrow> get_file (e_vfs e) (k_world k) (k_mounts k) path;
             case f of
               None \<Rightarrow> Some (k\<lparr>k_world := w\<rparr>, mem, args)
             | Some elf_file \<Rightarrow>
                 do { (size, w) \<leftarrow> e_size e w elf_file;
                      p \<leftarrow> current_task k;
                      pg \<leftarrow> free_page_tables (e_bits e) (e_pte e) (page_table p) True (k_paging k);
                      let p = p\<lparr>proc_context := context_default, fpu_state := FPU_INIT, fs := 0, brk := 0,
                                exe_path := Some path, proc_state := Runnable\<rparr>;
                      (data, w) \<leftarrow> read_exact (e_read e elf_file) w size;
                      let buf = data @ replicate (size - length data) 0;
                      case e_elf e buf of
                        None \<Rightarrow> Some (set_current_task (k\<lparr>k_world := w, k_paging := pg\<rparr>) p, mem, args)
                      | Some (headers, entry) \<Rightarrow>
                          do { (pg, b, mem) \<leftarrow> each (load_segment e (page_table p) buf) headers (pg, 0, mem);
                               Some (set_current_task (k\<lparr>k_world := w, k_paging := pg\<rparr>) (p\<lparr>brk := b\<rparr>), mem,
                                     args\<lparr>process_context.rip := entry, process_context.rsp := push_bit 47 1 - 64\<rparr>) } } })"

section \<open>Page faults\<close>

text \<open>
  The handlers of \<^verbatim>\<open>kernel/src/mm/page_alloc.rs\<close>. A write to a protected page gives the task a
  copy of its own when the frame has other users, else the right to write; a page of the stack or below the
  break that is not mapped gets a frame of zeros; every other fault of a user is a panic.
\<close>

definition unwrap_flush :: "(paging \<times> bool) option \<Rightarrow> paging option" where
  "unwrap_flush r = do { (pg, ok) \<leftarrow> r; if ok then Some pg else None }"

definition resolve_current_user_cow_fault :: "('fs, 'w, 'p) kernel_env \<Rightarrow> ('fs, 'w) kernel \<Rightarrow> u64 \<Rightarrow> ('fs, 'w) kernel option" where
  "resolve_current_user_cow_fault e k addr =
     (let page = unat addr div 4096; writable_user_flags = PRESENT OR WRITABLE OR USER_ACCESSIBLE in
      do { p \<leftarrow> current_task k;
           let pg = k_paging k;
           old_page_pa \<leftarrow> e_translate_page e (pg_mem pg) (page_table p) page;
           r \<leftarrow> page_getref (pg_alloc pg) old_page_pa;
           pg \<leftarrow> (if r > 1 then
                    do { (pg, new_page_pa) \<leftarrow> take_page (e_bits e) pg;
                         let pg = pg\<lparr>pg_mem := (pg_mem pg)(new_page_pa := pg_mem pg old_page_pa)\<rparr>;
                         pm \<leftarrow> page_decref (pg_alloc pg) old_page_pa;
                         pg \<leftarrow> unwrap_flush (e_unmap e (pg\<lparr>pg_alloc := pm\<rparr>) (page_table p) page);
                         pg \<leftarrow> unwrap_flush (e_map_page e pg (page_table p) page new_page_pa writable_user_flags);
                         pm \<leftarrow> page_incref (pg_alloc pg) new_page_pa;
                         Some (pg\<lparr>pg_alloc := pm\<rparr>) }
                  else unwrap_flush (e_update_flags e pg (page_table p) page writable_user_flags));
           Some (k\<lparr>k_paging := pg\<rparr>) })"

definition do_user_page_fault :: "('fs, 'w, 'p) kernel_env \<Rightarrow> ('fs, 'w) kernel \<Rightarrow> u64 \<Rightarrow> u64 \<Rightarrow> ('fs, 'w) kernel option" where
  "do_user_page_fault e k addr code =
     (if is_write_protection_fault code then resolve_current_user_cow_fault e k addr
      else
        do { p \<leftarrow> current_task k;
             if within_stack_range addr \<or> addr < brk p then
               do { (pg, new_page_pa) \<leftarrow> take_page (e_bits e) (k_paging k);
                    pm \<leftarrow> page_incref (pg_alloc pg) new_page_pa;
                    pg \<leftarrow> unwrap_flush (e_map_page e (pg\<lparr>pg_alloc := pm\<rparr>) (page_table p) (unat addr div 4096) new_page_pa
                           (PRESENT OR WRITABLE OR USER_ACCESSIBLE));
                    Some (k\<lparr>k_paging := zero_table pg new_page_pa\<rparr>) }
             else None })"

definition do_kernel_page_fault :: "('fs, 'w, 'p) kernel_env \<Rightarrow> ('fs, 'w) kernel \<Rightarrow> u64 \<Rightarrow> u64 \<Rightarrow> ('fs, 'w) kernel option" where
  "do_kernel_page_fault e k addr code =
     (if \<not> is_write_protection_fault code then None else resolve_current_user_cow_fault e k addr)"

section \<open>System calls\<close>

definition NUM_SYSCALLS :: nat where
  "NUM_SYSCALLS = 23"

text \<open>\<^verbatim>\<open>task.files[fd]\<close> of the current task: an index beyond the table is a panic.\<close>

definition file_slot :: "('fs, 'w) kernel \<Rightarrow> u64 \<Rightarrow> nat option option" where
  "file_slot k fd = do { p \<leftarrow> current_task k; nth_opt (files p) (unat fd) }"

definition dir_slot :: "('fs, 'w) kernel \<Rightarrow> u64 \<Rightarrow> nat option option" where
  "dir_slot k fd = do { p \<leftarrow> current_task k; nth_opt (directories p) (unat fd) }"

definition sys_write :: "('fs, 'w, 'p) kernel_env \<Rightarrow> ('fs, 'w) kernel \<Rightarrow> user_mem \<Rightarrow> process_context \<Rightarrow> ('fs, 'w) call_result" where
  "sys_write e k mem args =
     do { f \<leftarrow> file_slot k (process_context.rdi args);
          case f of
            None \<Rightarrow> Some (k, mem, args)
          | Some f \<Rightarrow>
              do { w \<leftarrow> write_all (e_write e f) (k_world k)
                          (user_bytes mem (process_context.rsi args) (unat (process_context.rcx args)));
                   Some (k\<lparr>k_world := w\<rparr>, mem, args) } }"

definition sys_read :: "('fs, 'w, 'p) kernel_env \<Rightarrow> ('fs, 'w) kernel \<Rightarrow> user_mem \<Rightarrow> process_context \<Rightarrow> ('fs, 'w) call_result" where
  "sys_read e k mem args =
     (case e_stdin e (k_world k) of (w, r) \<Rightarrow>
        Some (k\<lparr>k_world := w\<rparr>, mem, args\<lparr>process_context.rcx := ucast (case r of Some b \<Rightarrow> b | None \<Rightarrow> 0xff)\<rparr>))"

definition sys_setfsbase :: "('fs, 'w, 'p) kernel_env \<Rightarrow> ('fs, 'w) kernel \<Rightarrow> process_context \<Rightarrow> ('fs, 'w) kernel option" where
  "sys_setfsbase e k args =
     (if e_canonical e (process_context.rdi args)
      then Some (k\<lparr>k_sched := (k_sched k)\<lparr>fs_base := process_context.rdi args\<rparr>\<rparr>) else None)"

definition sys_brk :: "('fs, 'w) kernel \<Rightarrow> process_context \<Rightarrow> (('fs, 'w) kernel \<times> process_context) option" where
  "sys_brk k args =
     do { p \<leftarrow> current_task k;
          let tmp = process_context.rdi args;
          Some (if tmp \<noteq> 0 then set_current_task k (p\<lparr>brk := tmp\<rparr>) else k, args\<lparr>process_context.rsi := brk p\<rparr>) }"

definition sys_waitpid :: "('fs, 'w) kernel \<Rightarrow> process_context \<Rightarrow> (('fs, 'w) kernel \<times> process_context) option" where
  "sys_waitpid k args =
     do { (s, ctx) \<leftarrow> block_current (k_sched k) args (WaitPid (unat (process_context.rdi args)));
          Some (switched k s, ctx) }"

definition sys_getpid :: "('fs, 'w) kernel \<Rightarrow> process_context \<Rightarrow> process_context" where
  "sys_getpid k args = args\<lparr>process_context.rcx := of_nat (current_tid k)\<rparr>"

definition sys_getticks :: "('fs, 'w) kernel \<Rightarrow> process_context \<Rightarrow> process_context" where
  "sys_getticks k args = args\<lparr>process_context.rcx := of_nat (TOTAL_TICKS (k_sched k))\<rparr>"

definition sys_info :: "('fs, 'w, 'p) kernel_env \<Rightarrow> ('fs, 'w) kernel \<Rightarrow> process_context \<Rightarrow> ('fs, 'w) kernel \<times> process_context" where
  "sys_info e k args =
     (let q = unat (process_context.rdi args);
          ret = (\<lambda>k args v. (k, args\<lparr>process_context.rcx := v\<rparr>)) in
      if q = 0 then ret k args (e_columns e)
      else if q = 1 then ret k args (e_rows e)
      else if q = 2 then ret k args (of_nat (current_tid k))
      else if q = 3 then ret k args (of_nat (TOTAL_TICKS (k_sched k)))
      else if q = 4 then ret (k\<lparr>ECHO_FLAG := False\<rparr>) args 0
      else if q = 5 then ret (k\<lparr>ECHO_FLAG := True\<rparr>) args 0
      else if q = 6 then ret k args (e_fb_width e)
      else if q = 7 then ret k args (e_fb_height e)
      else if q = 8 then ret k args (e_fb_addr e)
      else if q = 9 then ret k args (e_fb_pitch e)
      else if q = 10 then
        (if current_tid k = 0
         then ret k (args\<lparr>process_context.cs := e_selector e 1 0, process_context.ss := e_selector e 2 0\<rparr>) 0
         else ret k args (- 1))
      else ret k args (- 1))"

text \<open>The first free entry of a table of open objects.\<close>

definition install :: "nat option list \<Rightarrow> nat \<Rightarrow> (nat option list \<times> nat) option" where
  "install tb x = map_option (\<lambda>i. (tb[i := Some x], i)) (position (\<lambda>s. s = None) tb)"

definition sys_open :: "('fs, 'w, 'p) kernel_env \<Rightarrow> ('fs, 'w) kernel \<Rightarrow> user_mem \<Rightarrow> process_context \<Rightarrow> (('fs, 'w) kernel \<times> process_context) option" where
  "sys_open e k mem args =
     (let path = user_bytes mem (process_context.rdi args) (unat (process_context.rcx args)); do_create = process_context.r10 args \<noteq> 0 in
      do { (w, f) \<leftarrow> (if do_create then create_file_or_open_existing (e_vfs e) (k_world k) (k_mounts k) path
                     else get_file (e_vfs e) (k_world k) (k_mounts k) path);
           let k = k\<lparr>k_world := w\<rparr>;
           case f of
             None \<Rightarrow> Some (k, args\<lparr>process_context.rsi := - 1\<rparr>)
           | Some file \<Rightarrow>
               do { p \<leftarrow> current_task k;
                    case install (files p) file of
                      None \<Rightarrow> Some (k, args\<lparr>process_context.rsi := - 1\<rparr>)
                    | Some (fs', i) \<Rightarrow> Some (set_current_task k (p\<lparr>files := fs'\<rparr>), args\<lparr>process_context.rsi := of_nat i\<rparr>) } })"

definition sys_read2 :: "('fs, 'w, 'p) kernel_env \<Rightarrow> ('fs, 'w) kernel \<Rightarrow> user_mem \<Rightarrow> process_context \<Rightarrow> ('fs, 'w) call_result" where
  "sys_read2 e k mem args =
     do { f \<leftarrow> file_slot k (process_context.rsi args); f \<leftarrow> f;
          (data, w) \<leftarrow> read_exact (e_read e f) (k_world k) (unat (process_context.rcx args));
          Some (k\<lparr>k_world := w\<rparr>, user_store mem (process_context.rdi args) data, args) }"

definition sys_read3 :: "('fs, 'w, 'p) kernel_env \<Rightarrow> ('fs, 'w) kernel \<Rightarrow> user_mem \<Rightarrow> process_context \<Rightarrow> ('fs, 'w) call_result" where
  "sys_read3 e k mem args =
     do { f \<leftarrow> file_slot k (process_context.rsi args); f \<leftarrow> f;
          (data, w) \<leftarrow> e_read e f (k_world k) (unat (process_context.rcx args));
          Some (k\<lparr>k_world := w\<rparr>, user_store mem (process_context.rdi args) data,
                args\<lparr>process_context.r10 := of_nat (length data)\<rparr>) }"

definition seek_arg :: "process_context \<Rightarrow> SeekFrom option" where
  "seek_arg args =
     (let q = process_context.rdi args; off = process_context.rcx args in
      if q = 0 then Some (Current (sint off)) else if q = 1 then Some (End (sint off))
      else if q = 2 then Some (Start (unat off)) else None)"

definition sys_seek :: "('fs, 'w, 'p) kernel_env \<Rightarrow> ('fs, 'w) kernel \<Rightarrow> process_context \<Rightarrow> (('fs, 'w) kernel \<times> process_context) option" where
  "sys_seek e k args =
     (case seek_arg args of
        None \<Rightarrow> Some (k, args)
      | Some pos \<Rightarrow>
          do { f \<leftarrow> file_slot k (process_context.rsi args); f \<leftarrow> f;
               (n, w) \<leftarrow> e_seek e f (k_world k) pos;
               Some (k\<lparr>k_world := w\<rparr>, args\<lparr>process_context.r10 := of_nat n\<rparr>) })"

definition sys_close :: "('fs, 'w) kernel \<Rightarrow> process_context \<Rightarrow> ('fs, 'w) kernel option" where
  "sys_close k args =
     do { p \<leftarrow> current_task k;
          fs' \<leftarrow> upd_opt (files p) (unat (process_context.rsi args)) None;
          Some (set_current_task k (p\<lparr>files := fs'\<rparr>)) }"

definition sys_remove :: "('fs, 'w, 'p) kernel_env \<Rightarrow> ('fs, 'w) kernel \<Rightarrow> user_mem \<Rightarrow> process_context \<Rightarrow> ('fs, 'w) kernel option" where
  "sys_remove e k mem args =
     do { w \<leftarrow> remove_file (fs_remove (e_vfs e)) (k_world k) (k_mounts k)
                 (user_bytes mem (process_context.rdi args) (unat (process_context.rcx args)));
          Some (k\<lparr>k_world := w\<rparr>) }"

definition mount_device :: "('fs, 'w, 'p) kernel_env \<Rightarrow> 'w \<Rightarrow> u64 \<Rightarrow> u64 \<Rightarrow> dev_node option" where
  "mount_device e w kind index =
     (let devs = e_devs e w; i = unat index in
      if kind = 0 then map_option DiskNode (nth_opt (ahci_disks devs) i)
      else if kind = 1 then do { v \<leftarrow> nth_opt (nvme_disks devs) i; map_option NvmeNode (nth_opt v 0) }
      else if kind = 2 then map_option UsbNode (usb_open (usb_disks devs) i)
      else None)"

definition sys_mount :: "('fs, 'w, 'p) kernel_env \<Rightarrow> ('fs, 'w) kernel \<Rightarrow> user_mem \<Rightarrow> process_context \<Rightarrow> (('fs, 'w) kernel \<times> process_context) option" where
  "sys_mount e k mem args =
     (let mountpoint = user_bytes mem (process_context.rdi args) (unat (process_context.rcx args));
          failed = args\<lparr>process_context.r10 := - 1\<rparr> in
      case mount_device e (k_world k) (process_context.rsi args) (process_context.rdx args) of
        None \<Rightarrow> Some (k, failed)
      | Some dev \<Rightarrow>
          do { (w, p) \<leftarrow> e_partition e dev (unat (process_context.r9 args)) (k_world k);
               let k = k\<lparr>k_world := w\<rparr>;
               case p of
                 None \<Rightarrow> Some (k, failed)
               | Some part \<Rightarrow>
                   (case mount (e_fat e) (Some part) mountpoint (k_mounts k) of
                      (ms, ok) \<Rightarrow> Some (k\<lparr>k_mounts := ms\<rparr>, if ok then args\<lparr>process_context.r10 := 0\<rparr> else failed)) })"

definition sys_opendir :: "('fs, 'w, 'p) kernel_env \<Rightarrow> ('fs, 'w) kernel \<Rightarrow> user_mem \<Rightarrow> process_context \<Rightarrow> (('fs, 'w) kernel \<times> process_context) option" where
  "sys_opendir e k mem args =
     do { (w, d) \<leftarrow> get_directory (e_vfs e) (k_world k) (k_mounts k)
                     (user_bytes mem (process_context.rdi args) (unat (process_context.rcx args)));
          let k = k\<lparr>k_world := w\<rparr>;
          case d of
            None \<Rightarrow> Some (k, args\<lparr>process_context.rsi := - 1\<rparr>)
          | Some directory \<Rightarrow>
              do { p \<leftarrow> current_task k;
                   case install (directories p) directory of
                     None \<Rightarrow> Some (k, args\<lparr>process_context.rsi := - 1\<rparr>)
                   | Some (ds, i) \<Rightarrow> Some (set_current_task k (p\<lparr>directories := ds\<rparr>), args\<lparr>process_context.rsi := of_nat i\<rparr>) } }"

text \<open>An entry in the caller's buffer: the directory flag, then the name.\<close>

definition dirent_bytes :: "DirEntry \<Rightarrow> bytes" where
  "dirent_bytes d = is_dir d # de_name d"

definition sys_getdents :: "('fs, 'w, 'p) kernel_env \<Rightarrow> ('fs, 'w) kernel \<Rightarrow> user_mem \<Rightarrow> process_context \<Rightarrow> ('fs, 'w) call_result" where
  "sys_getdents e k mem args =
     do { d \<leftarrow> dir_slot k (process_context.rsi args);
          case d of
            None \<Rightarrow> Some (k, mem, args\<lparr>process_context.r10 := - 1\<rparr>)
          | Some d \<Rightarrow>
              do { (es, w) \<leftarrow> e_getdents e d (k_world k) (unat (process_context.rcx args));
                   Some (k\<lparr>k_world := w\<rparr>, user_store mem (process_context.rdi args) (concat (map dirent_bytes es)),
                         args\<lparr>process_context.r10 := of_nat (length es)\<rparr>) } }"

definition sys_closedir :: "('fs, 'w) kernel \<Rightarrow> process_context \<Rightarrow> ('fs, 'w) kernel option" where
  "sys_closedir k args =
     do { p \<leftarrow> current_task k;
          ds \<leftarrow> upd_opt (directories p) (unat (process_context.rsi args)) None;
          Some (set_current_task k (p\<lparr>directories := ds\<rparr>)) }"

text \<open>The IPC command takes and returns five of the registers.\<close>

definition ipc_args_of :: "process_context \<Rightarrow> ipc_args" where
  "ipc_args_of c = \<lparr>ipc_args.rax = process_context.rax c, ipc_args.rdi = process_context.rdi c, ipc_args.rsi = process_context.rsi c,
     ipc_args.rdx = process_context.rdx c, ipc_args.rcx = process_context.rcx c\<rparr>"

definition sys_ipc :: "('fs, 'w) kernel \<Rightarrow> user_mem \<Rightarrow> process_context \<Rightarrow> ('fs, 'w) call_result" where
  "sys_ipc k mem args =
     do { (s, mem, a) \<leftarrow> ipc_syscall (k_ipc k) mem (ipc_args_of args);
          Some (k\<lparr>k_ipc := s\<rparr>, mem,
                args\<lparr>process_context.rax := ipc_args.rax a, process_context.rdi := ipc_args.rdi a, process_context.rsi := ipc_args.rsi a,
                     process_context.rdx := ipc_args.rdx a, process_context.rcx := ipc_args.rcx a\<rparr>) }"

definition with_mem :: "user_mem \<Rightarrow> (('fs, 'w) kernel \<times> process_context) option \<Rightarrow> ('fs, 'w) call_result" where
  "with_mem mem r = map_option (\<lambda>(k, args). (k, mem, args)) r"

definition keep_args :: "user_mem \<Rightarrow> process_context \<Rightarrow> ('fs, 'w) kernel option \<Rightarrow> ('fs, 'w) call_result" where
  "keep_args mem args r = map_option (\<lambda>k. (k, mem, args)) r"

definition do_syscall :: "('fs, 'w, 'p) kernel_env \<Rightarrow> ('fs, 'w) kernel \<Rightarrow> user_mem \<Rightarrow> process_context \<Rightarrow> ('fs, 'w) call_result" where
  "do_syscall e k mem args =
     (let n = unat (process_context.rax args) in
      if n = 0 then Some (k, mem, args)
      else if n = 1 then sys_write e k mem args
      else if n = 2 then with_mem mem (do_fork e k args)
      else if n = 3 then do_exec e k mem args
      else if n = 4 then with_mem mem (do_exit e (k\<lparr>k_sched := (k_sched k)\<lparr>cr3 := e_kernel_cr3 e\<rparr>\<rparr>) args)
      else if n = 5 then sys_read e k mem args
      else if n = 6 then keep_args mem args (sys_setfsbase e k args)
      else if n = 7 then with_mem mem (sys_brk k args)
      else if n = 8 then with_mem mem (sys_waitpid k args)
      else if n = 9 then Some (k, mem, sys_getpid k args)
      else if n = 10 then Some (k, mem, sys_getticks k args)
      else if n = 11 then with_mem mem (Some (sys_info e k args))
      else if n = 12 then with_mem mem (sys_open e k mem args)
      else if n = 13 then sys_read2 e k mem args
      else if n = 14 then with_mem mem (sys_seek e k args)
      else if n = 15 then keep_args mem args (sys_close k args)
      else if n = 16 then keep_args mem args (sys_remove e k mem args)
      else if n = 17 then with_mem mem (sys_mount e k mem args)
      else if n = 18 then with_mem mem (sys_opendir e k mem args)
      else if n = 19 then sys_getdents e k mem args
      else if n = 20 then keep_args mem args (sys_closedir k args)
      else if n = 21 then sys_ipc k mem args
      else if n = 22 then sys_read3 e k mem args
      else Some (k, mem, args))"

section \<open>The task table and the handle tables stay in step\<close>

definition tasks_of :: "ipc_state \<Rightarrow> bool list \<times> nat" where
  "tasks_of s = (map Option.is_none (tables s), current s)"

lemma tasks_of_simps [simp]:
  "tasks_of (with_channel s c f) = tasks_of s" "tasks_of (with_listener s l g) = tasks_of s"
  "tasks_of (dup_handle_ref s h) = tasks_of s" "tasks_of (close_handle_ref s h) = tasks_of s"
  "tasks_of (unregister_listener_by_name s n) = tasks_of s"
  "tasks_of (s\<lparr>channels := chs\<rparr>) = tasks_of s" "tasks_of (s\<lparr>listeners := ls\<rparr>) = tasks_of s"
  "tasks_of (s\<lparr>named := ns\<rparr>) = tasks_of s"
  by (simp_all add: tasks_of_def)

lemma is_none_update: "i < length xs \<Longrightarrow> xs ! i \<noteq> None \<Longrightarrow> map Option.is_none (xs[i := Some y]) = map Option.is_none xs"
  by (auto simp: list_eq_iff_nth_eq nth_list_update Option.is_none_def)

lemma tasks_of_set_table: "current_table s = Some (Some tb) \<Longrightarrow> tasks_of (set_current_table s tb') = tasks_of s"
  by (auto simp: current_table_def nth_opt_eq_Some tasks_of_def set_current_table_def is_none_update)

lemma tasks_of_install:
  "install_current_handle s h = Some (s', r) \<Longrightarrow> tasks_of s' = tasks_of s"
  "install_current_pair s h0 h1 = Some (s', r') \<Longrightarrow> tasks_of s' = tasks_of s"
  by (auto simp: install_current_handle_def install_current_pair_def tasks_of_set_table
      split: option.splits list.splits bind_splits)

lemma tasks_of_commands:
  "sys_create s args = Some (s', args', r) \<Longrightarrow> tasks_of s' = tasks_of s"
  "sys_send s mem args = Some (s', r) \<Longrightarrow> tasks_of s' = tasks_of s"
  "sys_recv s mem args = Some (s', mem', r) \<Longrightarrow> tasks_of s' = tasks_of s"
  "Ipc.sys_close s args = Some (s', r) \<Longrightarrow> tasks_of s' = tasks_of s"
  "sys_dup s args = Some (s', r) \<Longrightarrow> tasks_of s' = tasks_of s"
  "sys_bind s mem args = Some (s', r) \<Longrightarrow> tasks_of s' = tasks_of s"
  "sys_connect s mem args = Some (s', r) \<Longrightarrow> tasks_of s' = tasks_of s"
  "sys_accept s args = Some (s', r) \<Longrightarrow> tasks_of s' = tasks_of s"
proof -
  note split = option.splits bind_splits if_splits prod.splits list.splits
  show "sys_create s args = Some (s', args', r) \<Longrightarrow> tasks_of s' = tasks_of s"
    by (auto simp: sys_create_def new_channel_def Let_def split: split dest!: tasks_of_install)
  show "sys_send s mem args = Some (s', r) \<Longrightarrow> tasks_of s' = tasks_of s"
    by (auto simp: sys_send_def Let_def split: split)
  show "sys_recv s mem args = Some (s', mem', r) \<Longrightarrow> tasks_of s' = tasks_of s"
    by (auto simp: sys_recv_def Let_def split: split)
  show "Ipc.sys_close s args = Some (s', r) \<Longrightarrow> tasks_of s' = tasks_of s"
    by (auto simp: Ipc.sys_close_def Let_def tasks_of_set_table split: split)
  show "sys_dup s args = Some (s', r) \<Longrightarrow> tasks_of s' = tasks_of s"
    by (auto simp: sys_dup_def split: split dest!: tasks_of_install)
  show "sys_bind s mem args = Some (s', r) \<Longrightarrow> tasks_of s' = tasks_of s"
    by (auto simp: sys_bind_def Let_def split: split dest!: tasks_of_install)
  show "sys_connect s mem args = Some (s', r) \<Longrightarrow> tasks_of s' = tasks_of s"
    by (auto simp: sys_connect_def new_channel_def Let_def split: split dest!: tasks_of_install)
  show "sys_accept s args = Some (s', r) \<Longrightarrow> tasks_of s' = tasks_of s"
    by (auto simp: sys_accept_def split: split dest!: tasks_of_install)
qed

lemma tasks_of_ipc_syscall: "ipc_syscall s mem args = Some (s', mem', args') \<Longrightarrow> tasks_of s' = tasks_of s"
  unfolding ipc_syscall_def Let_def Option.bind_eq_Some_conv
  by (elim exE conjE) (auto simp: Option.bind_eq_Some_conv split: if_split_asm dest: tasks_of_commands)

lemma tasks_of_release: "tasks_of (fst (release_handle_table s tb)) = tasks_of s"
proof -
  have "tasks_of (foldl (\<lambda>s e. case e of None \<Rightarrow> s | Some h \<Rightarrow> close_handle_ref s h) s xs) = tasks_of s" for xs
    by (induction xs arbitrary: s) (auto split: option.splits)
  then show ?thesis by (simp add: release_handle_table_def)
qed

lemma tasks_of_clone: "tasks_of (fst (clone_handle_table s tb)) = tasks_of s"
proof -
  have "tasks_of (foldl (\<lambda>s e. case e of None \<Rightarrow> s | Some h \<Rightarrow> dup_handle_ref s h) s xs) = tasks_of s" for xs
    by (induction xs arbitrary: s) (auto split: option.splits)
  then show ?thesis by (simp add: clone_handle_table_def)
qed

definition shape :: "process option list \<Rightarrow> (nat option list \<times> nat option list) option list" where
  "shape ts = map (map_option (\<lambda>p. (files p, directories p))) ts"

lemma length_shape [simp]: "length (shape ts) = length ts"
  by (simp add: shape_def)

lemma shape_update:
  "\<lbrakk>i < length ts; ts ! i = Some p; files q = files p; directories q = directories p\<rbrakk> \<Longrightarrow> shape (ts[i := Some q]) = shape ts"
  by (auto simp: shape_def list_eq_iff_nth_eq nth_list_update)

lemma shape_wake [simp]: "shape (wake_all ts) = shape ts" "shape (refill ts) = shape ts"
proof -
  have "files (wake ts p) = files p \<and> directories (wake ts p) = directories p" for p by (simp add: wake_def)
  then show "shape (wake_all ts) = shape ts" "shape (refill ts) = shape ts"
    by (auto simp: shape_def wake_all_def refill_def option.map_comp comp_def)
qed

lemma shape_select: "select_task c ts = Some (ts', t) \<Longrightarrow> shape ts' = shape ts"
  using scan_tasks_best [of 0 ts c 0 None]
  by (auto simp: select_task_def Let_def split: option.splits if_splits)

lemma shape_alive: "shape ts = shape ts' \<Longrightarrow> alive_at ts i = alive_at ts' i"
proof -
  assume s: "shape ts = shape ts'"
  then have l: "length ts = length ts'" by (metis length_shape)
  have "ts ! i = None \<longleftrightarrow> ts' ! i = None" if "i < length ts"
  proof -
    have "shape ts ! i = shape ts' ! i" using s by simp
    then show ?thesis using that l by (auto simp: shape_def)
  qed
  then show ?thesis using l by (auto simp: alive_at_def)
qed

lemma switch_to_shape:
  assumes "switch_to s ctx t ex = Some (s', c)"
  shows "shape (tasks s') = shape (tasks s) \<and> alive_at (tasks s') (CURRENT_TASK_ID s')"
proof -
  from assms obtain p where p: "t < length (tasks s)" "tasks s ! t = Some p"
    by (auto simp: switch_to_def nth_opt_def Let_def split: if_splits bind_splits)
  show ?thesis
  proof (cases ex)
    case True
    then show ?thesis using assms p by (auto simp: switch_to_def Let_def alive_at_def split: if_splits)
  next
    case False
    let ?i = "CURRENT_TASK_ID s"
    from False assms obtain q where q: "?i < length (tasks s)" "tasks s ! ?i = Some q"
      by (auto simp: switch_to_def nth_opt_def Let_def split: if_splits bind_splits)
    let ?q = "q\<lparr>proc_context := ctx, fs := fs_base s, fpu_state := fpu_regs s\<rparr>"
    have "tasks s' = (tasks s)[?i := Some ?q]" "CURRENT_TASK_ID s' = t"
      using assms p q False by (auto simp: switch_to_def Let_def split: if_splits bind_splits)
    then show ?thesis using shape_update [OF q, of ?q] p
      by (cases "t = ?i") (simp_all add: alive_at_def)
  qed
qed

lemma schedule_shape:
  assumes "schedule s ctx ex = Some (s', c)"
  shows "shape (tasks s') = shape (tasks s)" and "alive_at (tasks s') (CURRENT_TASK_ID s')"
proof -
  from assms obtain ts tid p n where
    sel: "select_task (CURRENT_TASK_ID s) (tasks s) = Some (ts, tid)" and p: "tid < length ts" "ts ! tid = Some p"
    and sw: "switch_to (s\<lparr>tasks := ts[tid := Some (p\<lparr>tm := n\<rparr>)]\<rparr>) ctx tid ex = Some (s', c)"
    by (auto simp: schedule_def nth_opt_def split: bind_splits if_splits)
  have "shape (ts[tid := Some (p\<lparr>tm := n\<rparr>)]) = shape (tasks s)"
    using shape_update [OF p, of "p\<lparr>tm := n\<rparr>"] shape_select [OF sel] by simp
  then show "shape (tasks s') = shape (tasks s)" and "alive_at (tasks s') (CURRENT_TASK_ID s')"
    using switch_to_shape [OF sw] by simp_all
qed

lemma block_current_shape:
  assumes "block_current s ctx r = Some (s', c)"
  shows "shape (tasks s') = shape (tasks s)" and "alive_at (tasks s') (CURRENT_TASK_ID s')"
proof -
  from assms obtain t where t: "CURRENT_TASK_ID s < length (tasks s)" "tasks s ! CURRENT_TASK_ID s = t"
    and sc: "schedule (s\<lparr>tasks := (case t of None \<Rightarrow> tasks s
        | Some p \<Rightarrow> (tasks s)[CURRENT_TASK_ID s := Some (p\<lparr>proc_state := Blocked r\<rparr>)])\<rparr>) ctx False = Some (s', c)"
    by (auto simp: block_current_def nth_opt_def Let_def split: bind_splits if_splits)
  have "shape (case t of None \<Rightarrow> tasks s | Some p \<Rightarrow> (tasks s)[CURRENT_TASK_ID s := Some (p\<lparr>proc_state := Blocked r\<rparr>)]) = shape (tasks s)"
    using t shape_update [OF t(1)] by (auto split: option.split)
  then show "shape (tasks s') = shape (tasks s)" and "alive_at (tasks s') (CURRENT_TASK_ID s')"
    using schedule_shape [OF sc] by simp_all
qed

text \<open>
  The invariant of the kernel: process numbers are given out without gaps, a task has a handle table exactly
  when it exists, the scheduler and the IPC commands agree on the current task, which exists, and every
  task has 64 entries for files and for directories.
\<close>

definition kernel_ok :: "('fs, 'w) kernel \<Rightarrow> bool" where
  "kernel_ok k \<longleftrightarrow>
     length (tasks (k_sched k)) = NEXT_TID k + 1 \<and>
     tasks_of (k_ipc k) = (map Option.is_none (tasks (k_sched k)), current_tid k) \<and>
     alive_at (tasks (k_sched k)) (current_tid k) \<and>
     (\<forall>p. Some p \<in> set (tasks (k_sched k)) \<longrightarrow> length (files p) = 64 \<and> length (directories p) = 64)"

definition keeps :: "('fs, 'w) kernel \<Rightarrow> ('fs, 'w) kernel \<Rightarrow> bool" where
  "keeps k k' \<longleftrightarrow> kernel_ok k' \<and> k_ipc k' = k_ipc k"

lemma is_none_shape: "map Option.is_none (shape ts) = map Option.is_none ts"
  by (simp add: shape_def comp_def Option.is_none_def)

lemma shape_files: "shape ts = shape ts' \<Longrightarrow> Some p \<in> set ts \<Longrightarrow> \<exists>q. Some q \<in> set ts' \<and> files p = files q \<and> directories p = directories q"
proof -
  assume s: "shape ts = shape ts'" and p: "Some p \<in> set ts"
  then have "Some (files p, directories p) \<in> set (shape ts')" unfolding s [symmetric] by (force simp: shape_def)
  then obtain x where "x \<in> set ts'" "Some (files p, directories p) = map_option (\<lambda>p. (files p, directories p)) x"
    unfolding shape_def set_map by (elim imageE)
  then show ?thesis by (cases x rule: option.exhaust) auto
qed

lemma kernel_ok_shape:
  assumes "kernel_ok k" and "shape (tasks (k_sched k')) = shape (tasks (k_sched k))" and "NEXT_TID k' = NEXT_TID k"
    and "alive_at (tasks (k_sched k')) (current_tid k')"
    and "tasks_of (k_ipc k') = (fst (tasks_of (k_ipc k)), current_tid k')"
  shows "kernel_ok k'"
proof -
  have "map Option.is_none (tasks (k_sched k')) = map Option.is_none (tasks (k_sched k))"
    using assms(2) is_none_shape by metis
  moreover have "length (tasks (k_sched k')) = length (tasks (k_sched k))" using assms(2) by (metis length_shape)
  ultimately show ?thesis using assms shape_files [OF assms(2)] by (fastforce simp: kernel_ok_def)
qed

lemma current_task_Some: "current_task k = Some p \<longleftrightarrow> current_tid k < length (tasks (k_sched k)) \<and> tasks (k_sched k) ! current_tid k = Some p"
  by (auto simp: current_task_def nth_opt_def split: if_splits)

lemma set_current_simps [simp]:
  "k_ipc (set_current_task k p) = k_ipc k" "NEXT_TID (set_current_task k p) = NEXT_TID k"
  "current_tid (set_current_task k p) = current_tid k"
  "tasks (k_sched (set_current_task k p)) = (tasks (k_sched k))[current_tid k := Some p]"
  by (simp_all add: set_current_task_def current_tid_def)

lemma kernel_ok_cong:
  "k_sched k' = k_sched k \<Longrightarrow> k_ipc k' = k_ipc k \<Longrightarrow> NEXT_TID k' = NEXT_TID k \<Longrightarrow> kernel_ok k' = kernel_ok k"
  by (simp add: kernel_ok_def current_tid_def)

lemma keeps_same:
  "kernel_ok k \<Longrightarrow> k_sched k' = k_sched k \<Longrightarrow> k_ipc k' = k_ipc k \<Longrightarrow> NEXT_TID k' = NEXT_TID k \<Longrightarrow> keeps k k'"
  using kernel_ok_cong by (auto simp: keeps_def)

lemma keeps_refl: "kernel_ok k \<Longrightarrow> keeps k k"
  by (simp add: keeps_def)

lemma keeps_world: "kernel_ok k \<Longrightarrow> keeps k (k\<lparr>k_world := w\<rparr>)"
  by (rule keeps_same) simp_all

lemma keeps_set_task:
  assumes "kernel_ok k" and "current_task k = Some p" and "length (files p') = 64" and "length (directories p') = 64"
    and "k_sched k' = k_sched k" and "k_ipc k' = k_ipc k" and "NEXT_TID k' = NEXT_TID k"
  shows "keeps k (set_current_task k' p')"
proof -
  let ?ts = "tasks (k_sched k)" and ?i = "current_tid k"
  have i: "?i < length ?ts" "?ts ! ?i = Some p" using assms(2) by (auto simp: current_task_Some)
  have c: "current_tid k' = ?i" using assms(5) by (simp add: current_tid_def)
  have "map Option.is_none (?ts[?i := Some p']) = map Option.is_none ?ts" by (rule is_none_update) (use i in simp_all)
  moreover have "length (files q) = 64 \<and> length (directories q) = 64" if "Some q \<in> set (?ts[?i := Some p'])" for q
    using that set_update_subset_insert [of ?ts ?i "Some p'"] assms(1,3,4) by (auto simp: kernel_ok_def)
  ultimately show ?thesis using assms(1,5-7) c i unfolding keeps_def kernel_ok_def
    by (simp add: alive_at_def)
qed

lemma task_lengths: "kernel_ok k \<Longrightarrow> current_task k = Some p \<Longrightarrow> length (files p) = 64 \<and> length (directories p) = 64"
  unfolding kernel_ok_def current_task_Some by (metis nth_mem)

lemma current_task_cong: "k_sched k' = k_sched k \<Longrightarrow> current_task k' = current_task k"
  by (simp add: current_task_def current_tid_def)

lemma install_length: "install tb x = Some (tb', i) \<Longrightarrow> length tb' = length tb"
  by (auto simp: install_def)

lemma keeps_calls:
  assumes ok: "kernel_ok k"
  shows "sys_write e k mem args = Some (k', m', a') \<Longrightarrow> keeps k k'"
    and "sys_read e k mem args = Some (k', m', a') \<Longrightarrow> keeps k k'"
    and "sys_setfsbase e k args = Some k' \<Longrightarrow> keeps k k'"
    and "sys_brk k args = Some (k', a') \<Longrightarrow> keeps k k'"
    and "sys_info e k args = (k', a') \<Longrightarrow> keeps k k'"
    and "sys_open e k mem args = Some (k', a') \<Longrightarrow> keeps k k'"
    and "sys_read2 e k mem args = Some (k', m', a') \<Longrightarrow> keeps k k'"
    and "sys_read3 e k mem args = Some (k', m', a') \<Longrightarrow> keeps k k'"
    and "sys_seek e k args = Some (k', a') \<Longrightarrow> keeps k k'"
    and "sys_close k args = Some k' \<Longrightarrow> keeps k k'"
    and "sys_remove e k mem args = Some k' \<Longrightarrow> keeps k k'"
    and "sys_mount e k mem args = Some (k', a') \<Longrightarrow> keeps k k'"
    and "sys_opendir e k mem args = Some (k', a') \<Longrightarrow> keeps k k'"
    and "sys_getdents e k mem args = Some (k', m', a') \<Longrightarrow> keeps k k'"
    and "sys_closedir k args = Some k' \<Longrightarrow> keeps k k'"
proof -
  note spl = option.splits bind_splits if_splits prod.splits
  note same = keeps_same and len = task_lengths [OF ok] and set = keeps_set_task
  show "sys_write e k mem args = Some (k', m', a') \<Longrightarrow> keeps k k'"
    "sys_read e k mem args = Some (k', m', a') \<Longrightarrow> keeps k k'"
    "sys_read2 e k mem args = Some (k', m', a') \<Longrightarrow> keeps k k'"
    "sys_read3 e k mem args = Some (k', m', a') \<Longrightarrow> keeps k k'"
    "sys_seek e k args = Some (k', a') \<Longrightarrow> keeps k k'"
    "sys_remove e k mem args = Some k' \<Longrightarrow> keeps k k'"
    "sys_getdents e k mem args = Some (k', m', a') \<Longrightarrow> keeps k k'"
    using ok by (auto simp: sys_write_def sys_read_def sys_read2_def sys_read3_def sys_seek_def sys_remove_def sys_getdents_def
        split: spl intro!: same)
  show "sys_info e k args = (k', a') \<Longrightarrow> keeps k k'"
    using ok by (auto simp: sys_info_def Let_def split: if_splits intro!: same)
  show "sys_setfsbase e k args = Some k' \<Longrightarrow> keeps k k'"
    using ok by (auto simp: sys_setfsbase_def keeps_def kernel_ok_def current_tid_def split: if_splits)
  show "sys_brk k args = Some (k', a') \<Longrightarrow> keeps k k'"
    using ok len by (auto simp: sys_brk_def Let_def split: spl intro!: keeps_refl set)
  show "sys_mount e k mem args = Some (k', a') \<Longrightarrow> keeps k k'"
    using ok by (auto simp: sys_mount_def Let_def split: spl intro!: same)
  show "sys_close k args = Some k' \<Longrightarrow> keeps k k'"
    using ok len by (auto simp: sys_close_def upd_opt_def split: spl intro!: set)
  show "sys_closedir k args = Some k' \<Longrightarrow> keeps k k'"
    using ok len by (auto simp: sys_closedir_def upd_opt_def split: spl intro!: set)
  have ct: "current_task (k\<lparr>k_world := w\<rparr>) = current_task k" for w by (rule current_task_cong) simp
  show "sys_open e k mem args = Some (k', a') \<Longrightarrow> keeps k k'"
    using ok len by (auto simp: sys_open_def Let_def ct split: spl intro!: keeps_world set dest: install_length)
  show "sys_opendir e k mem args = Some (k', a') \<Longrightarrow> keeps k k'"
    using ok len by (auto simp: sys_opendir_def Let_def ct split: spl intro!: keeps_world set dest: install_length)
qed

lemma exec_keeps:
  assumes ok: "kernel_ok k" and "do_exec e k mem args = Some (k', m', a')"
  shows "keeps k k'"
proof -
  have ct: "current_task (k\<lparr>k_world := w, k_paging := pg\<rparr>) = current_task k" for w pg by (rule current_task_cong) simp
  note len = task_lengths [OF ok]
  from assms(2) show ?thesis using ok len
    by (auto simp: do_exec_def Let_def ct split: if_splits option.splits bind_splits prod.splits
        intro!: keeps_world keeps_set_task)
qed

lemma kernel_ok_current:
  assumes "kernel_ok k"
  shows "current_ok (k_ipc k)" and "current (k_ipc k) = current_tid k" and "length (tables (k_ipc k)) = NEXT_TID k + 1"
proof -
  have t: "map Option.is_none (tables (k_ipc k)) = map Option.is_none (tasks (k_sched k))"
    and c: "current (k_ipc k) = current_tid k"
    and l: "length (tasks (k_sched k)) = NEXT_TID k + 1" and a: "alive_at (tasks (k_sched k)) (current_tid k)"
    using assms by (auto simp: kernel_ok_def tasks_of_def)
  have len: "length (tables (k_ipc k)) = length (tasks (k_sched k))" using t by (metis length_map)
  have i: "current_tid k < length (tasks (k_sched k))" using a by (simp add: alive_at_def)
  have "map Option.is_none (tables (k_ipc k)) ! current_tid k = map Option.is_none (tasks (k_sched k)) ! current_tid k"
    using t by simp
  then have "tables (k_ipc k) ! current_tid k \<noteq> None" using i len a by (auto simp: alive_at_def Option.is_none_def)
  then show "current_ok (k_ipc k)" using i len c by (auto simp: current_ok_def current_table_def)
  show "current (k_ipc k) = current_tid k" "length (tables (k_ipc k)) = NEXT_TID k + 1" using c len l by simp_all
qed

lemma ipc_keeps:
  assumes ok: "kernel_ok k" and "sys_ipc k mem args = Some (k', m', a')"
  shows "kernel_ok k' \<and> ipc_step (k_ipc k) (k_ipc k')"
proof -
  from assms(2) obtain s a where s: "ipc_syscall (k_ipc k) mem (ipc_args_of args) = Some (s, m', a)" "k' = k\<lparr>k_ipc := s\<rparr>"
    by (auto simp: sys_ipc_def split: bind_splits)
  have "tasks_of s = tasks_of (k_ipc k)" using tasks_of_ipc_syscall [OF s(1)] .
  then have "kernel_ok k'" using ok by (simp add: s(2) kernel_ok_def current_tid_def)
  then show ?thesis using ipc_step.call [OF kernel_ok_current(1) [OF ok] s(1)] by (simp add: s(2))
qed

lemma put_at_append: "put_at xs (length xs) x = xs @ [Some x]"
  by (simp add: put_at_def)

text \<open>What a successful fork makes.\<close>

definition forked_process :: "process \<Rightarrow> process_context \<Rightarrow> nat \<Rightarrow> process" where
  "forked_process p ctx p4t =
     \<lparr>page_table = p4t, proc_context = ctx\<lparr>process_context.rcx := 0\<rparr>, fpu_state = FPU_INIT, tm = 0, fs = 0, brk = brk p,
      exe_path = exe_path p, proc_state = Runnable, files = files p, directories = directories p\<rparr>"

lemma do_fork_Some:
  assumes "do_fork e k ctx = Some (k', c')"
  shows "\<exists>p tb p4t pg. current_task k = Some p \<and> nth_opt (tables (k_ipc k)) (current_tid k) = Some (Some tb) \<and>
    copy_tables (e_bits e) (e_pte e) (page_table p) (k_paging k) = Some (pg, p4t) \<and>
    c' = ctx\<lparr>process_context.rcx := of_nat (NEXT_TID k + 1)\<rparr> \<and>
    k' = k\<lparr>NEXT_TID := NEXT_TID k + 1, k_paging := pg,
        k_sched := (k_sched k)\<lparr>tasks := put_at (tasks (k_sched k)) (NEXT_TID k + 1) (forked_process p ctx p4t)\<rparr>,
        k_ipc := (fst (clone_handle_table (k_ipc k) tb))
          \<lparr>tables := put_at (tables (fst (clone_handle_table (k_ipc k) tb))) (NEXT_TID k + 1) tb\<rparr>\<rparr>"
proof -
  from assms obtain p tb child tb' pg ipc where
    p: "current_task k = Some p" and tb: "nth_opt (tables (k_ipc k)) (current_tid k) = Some (Some tb)"
    and cp: "copy_process e p ctx (NEXT_TID k + 1) (k_paging k) (k_ipc k) tb = Some (child, tb', c', pg, ipc)"
    and k': "k' = k\<lparr>NEXT_TID := NEXT_TID k + 1, k_paging := pg,
        k_sched := (k_sched k)\<lparr>tasks := put_at (tasks (k_sched k)) (NEXT_TID k + 1) child\<rparr>,
        k_ipc := ipc\<lparr>tables := put_at (tables ipc) (NEXT_TID k + 1) tb'\<rparr>\<rparr>"
    by (auto simp: do_fork_def checked_add_def split: bind_splits if_splits)
  from cp obtain p4t where "copy_tables (e_bits e) (e_pte e) (page_table p) (k_paging k) = Some (pg, p4t)"
    "child = forked_process p ctx p4t" "tb' = tb" "ipc = fst (clone_handle_table (k_ipc k) tb)"
    "c' = ctx\<lparr>process_context.rcx := of_nat (NEXT_TID k + 1)\<rparr>"
    by (auto simp: copy_process_def clone_handle_table_def Let_def forked_process_def split: bind_splits)
  then show ?thesis using p tb k' by blast
qed

lemma fork_keeps:
  assumes ok: "kernel_ok k" and "do_fork e k ctx = Some (k', c')"
  shows "kernel_ok k' \<and> ipc_step (k_ipc k) (k_ipc k')"
proof -
  let ?n = "NEXT_TID k + 1" and ?I = "k_ipc k"
  obtain p tb p4t pg where p: "current_task k = Some p"
    and tb: "nth_opt (tables ?I) (current_tid k) = Some (Some tb)"
    and k0: "k' = k\<lparr>NEXT_TID := ?n, k_paging := pg,
        k_sched := (k_sched k)\<lparr>tasks := put_at (tasks (k_sched k)) ?n (forked_process p ctx p4t)\<rparr>,
        k_ipc := (fst (clone_handle_table ?I tb))\<lparr>tables := put_at (tables (fst (clone_handle_table ?I tb))) ?n tb\<rparr>\<rparr>"
    using do_fork_Some [OF assms(2)] by blast
  define child where "child = forked_process p ctx p4t"
  define ipc where cl: "ipc = fst (clone_handle_table ?I tb)"
  note k' = k0 [folded child_def cl]
  have ch: "files child = files p" "directories child = directories p" by (simp_all add: child_def forked_process_def)
  have len: "length (tasks (k_sched k)) = ?n" "length (tables ?I) = ?n"
    using ok kernel_ok_current(3) [OF ok] by (simp_all add: kernel_ok_def)
  have t: "tables ipc = tables ?I" using clone_other(1) [of ?I tb] by (simp add: cl)
  have eq: "k_ipc k' = ipc\<lparr>tables := tables ipc @ [Some tb]\<rparr>" "tasks (k_sched k') = tasks (k_sched k) @ [Some child]"
    using put_at_append [of "tables ipc"] put_at_append [of "tasks (k_sched k)"] len t by (simp_all add: k')
  have cu: "current ipc = current ?I" using tasks_of_clone [of ?I tb] by (simp add: cl tasks_of_def)
  have "tasks_of (k_ipc k') = (map Option.is_none (tasks (k_sched k')), current_tid k')"
    using ok t cu by (simp add: eq tasks_of_def kernel_ok_def) (simp add: k' current_tid_def)
  moreover have "current_tid k' = current_tid k" "NEXT_TID k' = ?n" by (simp_all add: k' current_tid_def)
  ultimately have "kernel_ok k'"
    using ok task_lengths [OF ok p] ch len unfolding kernel_ok_def eq(2)
    by (auto simp: alive_at_def nth_append)
  moreover have "current_table ?I = Some (Some tb)"
    using tb kernel_ok_current(2) [OF ok] by (simp add: current_table_def)
  then have "ipc_step ?I (k_ipc k')"
    unfolding eq(1) by (rule ipc_step.fork) (simp add: cl clone_handle_table_def)
  ultimately show ?thesis by blast
qed

lemma switched_simps [simp]:
  "k_sched (switched k s) = s" "NEXT_TID (switched k s) = NEXT_TID k" "k_ipc (switched k s) = (k_ipc k)\<lparr>current := CURRENT_TASK_ID s\<rparr>"
  "current_tid (switched k s) = CURRENT_TASK_ID s"
  by (simp_all add: switched_def current_tid_def)

lemma switched_keeps:
  assumes "kernel_ok k" and "shape (tasks s) = shape (tasks (k_sched k))" and "alive_at (tasks s) (CURRENT_TASK_ID s)"
  shows "kernel_ok (switched k s) \<and> ipc_step (k_ipc k) (k_ipc (switched k s))"
proof -
  have "kernel_ok (switched k s)"
    using assms by (intro kernel_ok_shape [OF assms(1)]) (simp_all add: tasks_of_def)
  then show ?thesis using ipc_step.switch by simp
qed

lemma exit_keeps:
  assumes ok: "kernel_ok k" and "do_exit e k ctx = Some (k', c')"
  shows "kernel_ok k' \<and> ipc_step\<^sup>*\<^sup>* (k_ipc k) (k_ipc k')"
proof -
  let ?i = "current_tid k" and ?I = "k_ipc k" and ?T = "tasks (k_sched k)"
  have al: "alive_at ?T ?i" using ok by (simp add: kernel_ok_def)
  then obtain p where p: "?i < length ?T" "?T ! ?i = Some p" by (auto simp: alive_at_def)
  from assms(2) obtain tb ipc pg s where tb: "nth_opt (tables ?I) ?i = Some (Some tb)"
    and ipc: "ipc = fst (release_handle_table (?I\<lparr>tables := (tables ?I)[?i := None]\<rparr>) tb)"
    and sc: "schedule ((k_sched k)\<lparr>tasks := ?T[?i := None]\<rparr>) ctx True = Some (s, c')"
    and k': "k' = switched (k\<lparr>k_ipc := ipc, k_paging := pg\<rparr>) s"
    using p by (auto simp: do_exit_def Let_def split: bind_splits prod.splits)
  note sh = schedule_shape [OF sc]
  have cu: "current ?I = ?i" and ct: "current_table ?I = Some (Some tb)"
    using kernel_ok_current(2) [OF ok] tb by (simp_all add: current_table_def)
  have t: "tasks_of ipc = ((map Option.is_none ?T)[?i := True], ?i)"
    using ok cu by (simp add: ipc tasks_of_release) (simp add: tasks_of_def kernel_ok_def map_update)
  have n: "map Option.is_none (tasks s) = (map Option.is_none ?T)[?i := True]"
    using sh(1) is_none_shape [of "tasks s"] is_none_shape [of "?T[?i := None]"] by (simp add: map_update)
  have f: "length (files q) = 64 \<and> length (directories q) = 64" if "Some q \<in> set (tasks s)" for q
  proof -
    obtain r where r: "Some r \<in> set (?T[?i := None])" "files q = files r" "directories q = directories r"
      using shape_files [OF sh(1)] \<open>Some q \<in> set (tasks s)\<close> by auto
    then have "Some r \<in> set ?T" using set_update_subset_insert [of ?T ?i None] by auto
    then show ?thesis using ok r by (simp add: kernel_ok_def)
  qed
  have "length (tasks s) = NEXT_TID k + 1" using arg_cong [OF sh(1), of length] ok by (simp add: kernel_ok_def)
  then have "kernel_ok k'" using t n f sh(2) by (simp add: kernel_ok_def k' tasks_of_def)
  moreover have "ipc_step ?I ipc"
    using ct unfolding cu [symmetric] by (rule ipc_step.exit) (simp add: ipc release_handle_table_def cu)
  then have "ipc_step\<^sup>*\<^sup>* ?I (k_ipc k')"
    using ipc_step.switch [of ipc "CURRENT_TASK_ID s"] by (simp add: k')
  ultimately show ?thesis by blast
qed

section \<open>Steps of the kernel\<close>

inductive kernel_step :: "('fs, 'w, 'p) kernel_env \<Rightarrow> ('fs, 'w) kernel \<Rightarrow> ('fs, 'w) kernel \<Rightarrow> bool" for e where
  call: "do_syscall e k mem args = Some (k', mem', args') \<Longrightarrow> kernel_step e k k'"
| tick: "timer (k_sched k) ctx = Some (s, ctx') \<Longrightarrow> kernel_step e k (switched k s)"

definition booted :: "('fs, 'w) kernel \<Rightarrow> bool" where
  "booted k \<longleftrightarrow> k_ipc k = ipc_boot \<and> NEXT_TID k = 0 \<and> CURRENT_TASK_ID (k_sched k) = 0 \<and>
     (\<exists>p. tasks (k_sched k) = [Some p] \<and> length (files p) = 64 \<and> length (directories p) = 64)"

lemma booted_ok: "booted k \<Longrightarrow> kernel_ok k"
  by (auto simp: booted_def kernel_ok_def tasks_of_def ipc_boot_def alive_at_def current_tid_def)

lemma call_step:
  assumes ok: "kernel_ok k" and "do_syscall e k mem args = Some (k', mem', args')"
  shows "kernel_ok k' \<and> ipc_step\<^sup>*\<^sup>* (k_ipc k) (k_ipc k')"
proof -
  have kp: ?thesis if "keeps k k'" using that by (simp add: keeps_def)
  have st: ?thesis if "kernel_ok k' \<and> ipc_step (k_ipc k) (k_ipc k')" using that by blast
  let ?n = "unat (process_context.rax args)"
  note call = assms(2) [unfolded do_syscall_def Let_def]
  consider (fork) "?n = 2" | (exec) "?n = 3" | (exit) "?n = 4" | (wait) "?n = 8" | (ipc) "?n = 21"
    | (other) "?n \<notin> {2, 3, 4, 8, 21}" by blast
  then show ?thesis
  proof cases
    case fork
    then have "do_fork e k args = Some (k', args')" using call by (auto simp: with_mem_def)
    then show ?thesis using fork_keeps [OF ok] st by blast
  next
    case exec
    then have "do_exec e k mem args = Some (k', mem', args')" using call by simp
    then show ?thesis using exec_keeps [OF ok] kp by blast
  next
    case exit
    let ?k = "k\<lparr>k_sched := (k_sched k)\<lparr>cr3 := e_kernel_cr3 e\<rparr>\<rparr>"
    have "do_exit e ?k args = Some (k', args')" using exit call by (auto simp: with_mem_def)
    moreover have "kernel_ok ?k" using ok by (simp add: kernel_ok_def current_tid_def)
    ultimately show ?thesis using exit_keeps by fastforce
  next
    case wait
    then obtain s where "block_current (k_sched k) args (WaitPid (unat (process_context.rdi args))) = Some (s, args')"
      "k' = switched k s" using call by (auto simp: with_mem_def sys_waitpid_def split: bind_splits)
    then show ?thesis using switched_keeps [OF ok block_current_shape] st by blast
  next
    case ipc
    then have "sys_ipc k mem args = Some (k', mem', args')" using call by simp
    then show ?thesis using ipc_keeps [OF ok] st by blast
  next
    case other
    then have "keeps k k'" using call keeps_refl [OF ok]
      by (auto simp: with_mem_def keep_args_def split: if_splits prod.splits dest: keeps_calls [OF ok])
    then show ?thesis by (rule kp)
  qed
qed

lemma timer_step:
  assumes ok: "kernel_ok k" and "timer (k_sched k) ctx = Some (s, ctx')"
  shows "kernel_ok (switched k s) \<and> ipc_step\<^sup>*\<^sup>* (k_ipc k) (k_ipc (switched k s))"
proof -
  from assms(2) obtain s1 where s1: "schedule (k_sched k) ctx False = Some (s1, ctx')"
    "s = s1\<lparr>TOTAL_TICKS := (TOTAL_TICKS s1 + 1) mod USIZE_LIMIT\<rparr>" by (auto simp: timer_def split: bind_splits)
  show ?thesis using switched_keeps [OF ok, of s] schedule_shape [OF s1(1)] s1(2) by auto
qed

lemma kernel_step_ok: "kernel_step e k k' \<Longrightarrow> kernel_ok k \<Longrightarrow> kernel_ok k' \<and> ipc_step\<^sup>*\<^sup>* (k_ipc k) (k_ipc k')"
proof (induction rule: kernel_step.induct)
  case (call k mem args k' mem' args')
  then show ?case using call_step by blast
next
  case (tick k ctx s ctx')
  then show ?case using timer_step by blast
qed

section \<open>Properties\<close>


text \<open>
  Property C12 (fork). When the address space can be copied, the system call fork does not panic: the parent gets
  the next process number, which no task had before, and keeps its other registers; the new task is runnable
  and has the parent's registers with 0 for the process number, its open files and directories, its handles,
  its break and its executable; the addresses it maps are those of the parent, the user pages of both being
  write-protected; and no other task changed.
\<close>

theorem fork_makes_child:
  assumes "bit_field (e_bits e)" and "page_entries (e_pte e)" and ok: "kernel_ok k" and cur: "current_task k = Some p"
    and ready: "fork_ready (e_bits e) (e_pte e) (k_paging k) (page_table p)"
    and rax: "process_context.rax args = 2" and lim: "NEXT_TID k + 1 < USIZE_LIMIT"
  shows "\<exists>k' p4t. do_syscall e k mem args = Some (k', mem, args\<lparr>process_context.rcx := of_nat (NEXT_TID k + 1)\<rparr>) \<and>
    tasks (k_sched k') = tasks (k_sched k) @ [Some \<lparr>page_table = p4t, proc_context = args\<lparr>process_context.rcx := 0\<rparr>,
      fpu_state = FPU_INIT, tm = 0, fs = 0, brk = brk p, exe_path = exe_path p, proc_state = Runnable,
      files = files p, directories = directories p\<rparr>] \<and>
    tables (k_ipc k') = tables (k_ipc k) @ [tables (k_ipc k) ! current_tid k] \<and>
    (\<forall>va. translate (e_pte e) (pg_mem (k_paging k')) p4t va =
       map_option (map_prod id (\<lambda>f. protect_user (user_va va) f OR USER_ACCESSIBLE))
         (translate (e_pte e) (pg_mem (k_paging k)) (page_table p) va)) \<and>
    (\<forall>va. translate (e_pte e) (pg_mem (k_paging k')) (page_table p) va =
       map_option (map_prod id (protect_user (user_va va))) (translate (e_pte e) (pg_mem (k_paging k)) (page_table p) va))"
proof -
  obtain pg p4t where cp: "copy_tables (e_bits e) (e_pte e) (page_table p) (k_paging k) = Some (pg, p4t)"
    and tr: "\<And>va. translate (e_pte e) (pg_mem pg) (page_table p) va =
         map_option (map_prod id (protect_user (user_va va))) (translate (e_pte e) (pg_mem (k_paging k)) (page_table p) va)"
      "\<And>va. translate (e_pte e) (pg_mem pg) p4t va =
         map_option (map_prod id (\<lambda>f. protect_user (user_va va) f OR USER_ACCESSIBLE))
           (translate (e_pte e) (pg_mem (k_paging k)) (page_table p) va)"
    using copy_tables_translate [OF assms(1,2) ready] by blast
  obtain tb where tb: "nth_opt (tables (k_ipc k)) (current_tid k) = Some (Some tb)"
    using kernel_ok_current(1,2) [OF ok] by (auto simp: current_ok_def current_table_def)
  let ?c = "args\<lparr>process_context.rcx := of_nat (NEXT_TID k + 1)\<rparr>"
  have "\<exists>k'. do_fork e k args = Some (k', ?c)"
    using cur tb cp lim by (simp add: do_fork_def copy_process_def checked_add_def clone_handle_table_def Let_def)
  then obtain k' where k': "do_fork e k args = Some (k', ?c)" by blast
  from do_fork_Some [OF this] cur tb cp have eq: "k' = k\<lparr>NEXT_TID := NEXT_TID k + 1, k_paging := pg,
        k_sched := (k_sched k)\<lparr>tasks := put_at (tasks (k_sched k)) (NEXT_TID k + 1) (forked_process p args p4t)\<rparr>,
        k_ipc := (fst (clone_handle_table (k_ipc k) tb))
          \<lparr>tables := put_at (tables (fst (clone_handle_table (k_ipc k) tb))) (NEXT_TID k + 1) tb\<rparr>\<rparr>" by auto
  have "length (tasks (k_sched k)) = NEXT_TID k + 1" "length (tables (k_ipc k)) = NEXT_TID k + 1"
    using ok kernel_ok_current(3) [OF ok] by (simp_all add: kernel_ok_def)
  then have "tasks (k_sched k') = tasks (k_sched k) @ [Some (forked_process p args p4t)]"
    "tables (k_ipc k') = tables (k_ipc k) @ [Some tb]"
    using put_at_append [of "tasks (k_sched k)"] put_at_append [of "tables (k_ipc k)"] clone_other(1) [of "k_ipc k" tb]
    by (simp_all add: eq)
  moreover have "do_syscall e k mem args = Some (k', mem, ?c)" using k' rax by (simp add: do_syscall_def with_mem_def)
  moreover have "tables (k_ipc k) ! current_tid k = Some tb" using tb by (auto simp: nth_opt_def split: if_splits)
  moreover have "k_paging k' = pg" by (simp add: eq)
  ultimately show ?thesis using tr by (intro exI [of _ k'] exI [of _ p4t]) (simp add: forked_process_def)
qed


text \<open>
  Property C15 (file descriptors). Opening a file that the file system finds puts it into the first free entry of
  the caller's table and returns its number; with no free entry, or for a file that is not found, -1 is
  returned and the table is as it was. Closing the number gives the table back as it was before.
\<close>

theorem open_close_descriptor:
  assumes ok: "kernel_ok k" and cur: "current_task k = Some p"
    and found: "get_file (e_vfs e) (k_world k) (k_mounts k) (user_bytes mem (process_context.rdi args) (unat (process_context.rcx args))) = Some (w, f)"
    and "process_context.r10 args = 0"
  shows "(f = None \<or> None \<notin> set (files p) \<longrightarrow>
      sys_open e k mem args = Some (k\<lparr>k_world := w\<rparr>, args\<lparr>process_context.rsi := - 1\<rparr>)) \<and>
    (\<forall>file i. f = Some file \<and> i < length (files p) \<and> files p ! i = None \<and> (\<forall>j<i. files p ! j \<noteq> None) \<longrightarrow>
      (\<exists>k'. sys_open e k mem args = Some (k', args\<lparr>process_context.rsi := of_nat i\<rparr>) \<and>
        current_task k' = Some (p\<lparr>files := (files p)[i := Some file]\<rparr>) \<and>
        sys_close k' (args\<lparr>process_context.rsi := of_nat i\<rparr>) = Some (k\<lparr>k_world := w\<rparr>)))"
proof -
  have cw: "current_task (k\<lparr>k_world := w\<rparr>) = Some p" using cur by (simp add: current_task_def current_tid_def)
  have none: "install (files p) x = None" if "None \<notin> set (files p)" for x
  proof -
    have "position (\<lambda>s. s = None) (files p) = None"
      using that by (cases "position (\<lambda>s. s = None) (files p)") (auto simp: position_Some dest: nth_mem)
    then show ?thesis by (simp add: install_def)
  qed
  have a: "sys_open e k mem args = Some (k\<lparr>k_world := w\<rparr>, args\<lparr>process_context.rsi := - 1\<rparr>)"
    if "f = None \<or> None \<notin> set (files p)"
    using that assms(4) found none cw by (auto simp: sys_open_def Let_def split: option.split)
  have b: "\<exists>k'. sys_open e k mem args = Some (k', args\<lparr>process_context.rsi := of_nat i\<rparr>) \<and>
        current_task k' = Some (p\<lparr>files := (files p)[i := Some fl]\<rparr>) \<and>
        sys_close k' (args\<lparr>process_context.rsi := of_nat i\<rparr>) = Some (k\<lparr>k_world := w\<rparr>)"
    if h: "f = Some fl" "i < length (files p)" "files p ! i = None" "\<forall>j<i. files p ! j \<noteq> None" for fl i
  proof -
    let ?k = "set_current_task (k\<lparr>k_world := w\<rparr>) (p\<lparr>files := (files p)[i := Some fl]\<rparr>)"
    have i: "unat (of_nat i :: u64) = i" using h(2) task_lengths [OF ok cur] by (simp add: unat_of_nat)
    have "position (\<lambda>s. s = None) (files p) = Some i" using h by (simp add: position_Some)
    then have "sys_open e k mem args = Some (?k, args\<lparr>process_context.rsi := of_nat i\<rparr>)"
      using h(1) assms(4) found cw by (simp add: sys_open_def Let_def install_def)
    moreover have ct: "current_task ?k = Some (p\<lparr>files := (files p)[i := Some fl]\<rparr>)"
      using cur by (simp add: current_task_Some) (simp add: current_tid_def)
    moreover have "(files p)[i := None] = files p" using h(3) by (metis list_update_id)
    then have "sys_close ?k (args\<lparr>process_context.rsi := of_nat i\<rparr>) = Some (set_current_task ?k p)"
      using ct h(2) i by (simp add: sys_close_def upd_opt_def)
    moreover have "set_current_task ?k p = k\<lparr>k_world := w\<rparr>"
    proof -
      have "(tasks (k_sched k))[current_tid k := Some p] = tasks (k_sched k)"
        using cur unfolding current_task_Some by (metis list_update_id)
      then show ?thesis by (simp add: set_current_task_def current_tid_def)
    qed
    ultimately show ?thesis by auto
  qed
  show ?thesis using a b by blast
qed


text \<open>
  When the ELF parser rejects the file, exec returns to its
  caller with the registers unchanged, but the memory of the caller is gone: no address of user space is
  mapped, and the break is 0, so that the fault of the next instruction, which is neither on the stack nor
  below the break, panics the kernel.
\<close>

lemma exec_not_elf_fatal:
  assumes "bit_field (e_bits e)" and "page_entries (e_pte e)" and cur: "current_task k = Some p"
    and path: "path = user_bytes mem (process_context.rdi args) (unat (process_context.rcx args))" "utf8_valid path"
    and found: "get_file (e_vfs e) (k_world k) (k_mounts k) path = Some (w, Some f)" "e_size e w f = Some (n, w1)"
      "read_exact (e_read e f) w1 n = Some (data, w2)"
    and elf: "e_elf e (data @ replicate (n - length data) 0) = None"
    and pt: "table_freeable (e_bits e) (e_pte e) 3 (k_paging k) (page_table p) True False 256"
      "distinct (page_table p # subtabs (e_pte e) (pg_mem (k_paging k)) 3 (page_table p))"
      "\<forall>i<ENTRY_COUNT. contains (pte_flags (e_pte e) (pg_mem (k_paging k) (page_table p) i)) PRESENT \<longrightarrow>
         is_dir_entry (e_pte e) (pg_mem (k_paging k) (page_table p) i)"
  shows "\<exists>k'. do_exec e k mem args = Some (k', mem, args) \<and>
    (\<forall>va. user_va va \<longrightarrow> translate (e_pte e) (pg_mem (k_paging k')) (page_table p) va = None) \<and>
    (\<forall>va code. \<not> within_stack_range va \<and> \<not> is_write_protection_fault code \<longrightarrow> do_user_page_fault e k' va code = None)"
proof -
  obtain pg where pg: "free_page_tables (e_bits e) (e_pte e) (page_table p) True (k_paging k) = Some pg"
    "\<forall>va. translate (e_pte e) (pg_mem pg) (page_table p) va =
       (if user_va va then None else translate (e_pte e) (pg_mem (k_paging k)) (page_table p) va)"
    using free_user_half [OF assms(1,2) pt] by blast
  let ?p = "p\<lparr>proc_context := context_default, fpu_state := FPU_INIT, fs := 0, brk := 0,
    exe_path := Some path, proc_state := Runnable\<rparr>"
  let ?k = "set_current_task (k\<lparr>k_world := w2, k_paging := pg\<rparr>) ?p"
  have "do_exec e k mem args = Some (?k, mem, args)"
    using path(2) found elf cur pg(1) unfolding do_exec_def Let_def path(1) [symmetric] by simp
  moreover have "k_paging ?k = pg" by (simp add: set_current_task_def)
  moreover have "current_task ?k = Some ?p" using cur by (simp add: current_task_Some) (simp add: current_tid_def)
  then have "do_user_page_fault e ?k va code = None"
    if "\<not> within_stack_range va" "\<not> is_write_protection_fault code" for va code
    using that by (simp add: do_user_page_fault_def)
  ultimately show ?thesis using pg(2) by (intro exI [of _ ?k]) simp
qed

text \<open>
  What the mapper of \<^verbatim>\<open>x86_64\<close> documents of a mapped page, for the tables at the addresses \<open>T\<close> of an
  address space: unmapping succeeds, mapping it again to any frame succeeds without new tables, and both
  change memory in the tables only.
\<close>

definition mapper_ok :: "('fs, 'w, 'p) kernel_env \<Rightarrow> paging \<Rightarrow> nat \<Rightarrow> nat \<Rightarrow> nat set \<Rightarrow> bool" where
  "mapper_ok e pg0 p4 page T \<longleftrightarrow>
     (\<forall>pg b f. (\<forall>a\<in>T. pg_mem pg a = pg_mem pg0 a) \<longrightarrow>
        (\<exists>pg1. e_unmap e pg p4 page = Some (pg1, True) \<and> pg_alloc pg1 = pg_alloc pg \<and>
           only_in T (pg_mem pg) (pg_mem pg1) \<and>
           (b < 2 ^ 52 \<and> 4096 dvd b \<longrightarrow>
             (\<exists>pg2. e_map_page e pg1 p4 page b f = Some (pg2, True) \<and> pg_alloc pg2 = pg_alloc pg1 \<and>
                only_in T (pg_mem pg1) (pg_mem pg2) \<and> e_translate_page e (pg_mem pg2) p4 page = Some b))))"

text \<open>
  Property C4 (copy-on-write). A write to a write-protected page whose frame has other users gives the task a
  frame of its own: a page that was free, with the contents of the old one and one reference, mapped
  in its place; the old frame keeps its contents and loses one reference.
\<close>

theorem cow_fault_private_copy:
  assumes bf: "bit_field (e_bits e)" and cur: "current_task k = Some p" and inv: "pg_inv (e_bits e) (k_paging k)"
    and tr: "e_translate_page e (pg_mem (k_paging k)) (page_table p) (unat addr div 4096) = Some old"
    and shared: "1 < ref_count (pg_alloc (k_paging k)) (page_no old)"
    and free: "free_pages (e_bits e) (k_paging k) \<noteq> {}"
    and refs: "\<forall>q\<in>free_pages (e_bits e) (k_paging k). q < length (refcnt (pg_alloc (k_paging k))) \<and> ref_count (pg_alloc (k_paging k)) q = 0"
    and used: "\<forall>a\<in>T. page_no a \<notin> free_pages (e_bits e) (k_paging k)" and old: "old \<notin> T"
    and map: "mapper_ok e (k_paging k) (page_table p) (unat addr div 4096) T"
    and code: "is_write_protection_fault code"
  shows "\<exists>k' b. do_user_page_fault e k addr code = Some k' \<and> page_no b \<in> free_pages (e_bits e) (k_paging k) \<and>
    e_translate_page e (pg_mem (k_paging k')) (page_table p) (unat addr div 4096) = Some b \<and>
    pg_mem (k_paging k') b = pg_mem (k_paging k) old \<and> pg_mem (k_paging k') old = pg_mem (k_paging k) old \<and>
    ref_count (pg_alloc (k_paging k')) (page_no b) = 1 \<and>
    ref_count (pg_alloc (k_paging k')) (page_no old) = ref_count (pg_alloc (k_paging k)) (page_no old) - 1"
proof -
  let ?bo = "e_bits e" and ?page = "unat addr div 4096" and ?p4 = "page_table p" and ?pg = "k_paging k"
  let ?o = "page_no old"
  obtain pg1 b where b: "take_page ?bo ?pg = Some (pg1, b)" "pg_mem pg1 = pg_mem ?pg" "grows ?bo ?pg pg1 [b] []" "b < 2 ^ 52"
    using bit_field.take_page_spec [OF bf inv free] by metis
  have bp: "page_no b \<in> free_pages ?bo ?pg" "4096 dvd b" using b(3) by (auto simp: grows_def)
  have rl: "length (refcnt (pg_alloc pg1)) = length (refcnt (pg_alloc ?pg))"
    and rc: "ref_count (pg_alloc pg1) q = ref_count (pg_alloc ?pg) q" for q using b(3) by (auto simp: grows_def)
  have ol: "?o < length (refcnt (pg_alloc ?pg))" using shared by (auto simp: ref_count_def split: if_splits)
  have bo: "page_no b \<noteq> ?o" using shared refs bp(1) by force
  have bT: "b \<notin> T" using used bp(1) by blast
  let ?pg2 = "pg1\<lparr>pg_mem := (pg_mem pg1)(b := pg_mem pg1 old)\<rparr>"
  let ?c = "refcnt (pg_alloc pg1) ! ?o"
  have c: "1 < unat ?c" "?c \<noteq> 0" using shared rc [of ?o] ol rl by (auto simp: ref_count_def)
  let ?pm = "(pg_alloc pg1)\<lparr>refcnt := (refcnt (pg_alloc pg1))[?o := ?c - 1]\<rparr>"
  have dec: "page_decref (pg_alloc ?pg2) old = Some ?pm"
    using ol rl c(2) by (simp add: page_decref_def pm_decref_def nth_opt_def)
  have cm: "unat (?c - 1) = unat ?c - 1" using c(2) by (simp add: unat_minus_one)
  have T: "\<forall>a\<in>T. pg_mem (?pg2\<lparr>pg_alloc := ?pm\<rparr>) a = pg_mem ?pg a" using bT b(2) by auto
  obtain pg3 pg4 where m3: "e_unmap e (?pg2\<lparr>pg_alloc := ?pm\<rparr>) ?p4 ?page = Some (pg3, True)"
      "pg_alloc pg3 = ?pm" "only_in T (pg_mem ?pg2) (pg_mem pg3)"
    and m4: "e_map_page e pg3 ?p4 ?page b (PRESENT OR WRITABLE OR USER_ACCESSIBLE) = Some (pg4, True)"
      "pg_alloc pg4 = ?pm" "only_in T (pg_mem pg3) (pg_mem pg4)" "e_translate_page e (pg_mem pg4) ?p4 ?page = Some b"
    using map [unfolded mapper_ok_def, THEN spec, THEN spec [of _ b], THEN spec, THEN mp, OF T] b(4) bp(2) by fastforce
  let ?d = "refcnt ?pm ! page_no b"
  have d: "page_no b < length (refcnt ?pm)" "?d = refcnt (pg_alloc pg1) ! page_no b" "unat ?d = 0"
    using refs bp(1) rl rc [of "page_no b"] bo by (auto simp: ref_count_def)
  let ?q = "?pm\<lparr>refcnt := (refcnt ?pm)[page_no b := ?d + 1]\<rparr>"
  have inc: "page_incref (pg_alloc pg4) b = Some ?q"
    using d unfolding m4(2) by (simp add: page_incref_def pm_incref_def nth_opt_def unat_eq_0)
  let ?k = "k\<lparr>k_paging := pg4\<lparr>pg_alloc := ?q\<rparr>\<rparr>"
  have gr: "page_getref (pg_alloc ?pg) old = Some (refcnt (pg_alloc ?pg) ! ?o)" "refcnt (pg_alloc ?pg) ! ?o > 1"
    using ol shared by (simp_all add: page_getref_def pm_getref_def ref_count_def word_less_nat_alt)
  have "do_user_page_fault e k addr code = Some ?k"
    unfolding do_user_page_fault_def resolve_current_user_cow_fault_def Let_def
    using code cur tr gr b(1) dec m3(1) m4(1) inc by (simp add: unwrap_flush_def)
  moreover have "pg_mem pg4 b = pg_mem ?pg old" "pg_mem pg4 old = pg_mem ?pg old"
    using m3(3) m4(3) bT old b(2) bo by (auto simp: only_in_def)
  moreover have "ref_count ?q (page_no b) = 1" using d by (simp add: ref_count_def unat_eq_0)
  moreover have "ref_count ?q ?o = ref_count (pg_alloc ?pg) ?o - 1"
    using bo ol rl cm rc [of ?o] by (simp add: ref_count_def)
  ultimately show ?thesis using bp(1) m4(4) by (intro exI [of _ ?k] exI [of _ b]) simp
qed

section \<open>An example\<close>

text \<open>
  A kernel with one task whose address space is the example of the theory on paging, one file system in which
  every path names the same file, which is not a program, and a mapper for page 0.
\<close>

definition page0_present :: "(nat \<Rightarrow> nat \<Rightarrow> u64) \<Rightarrow> bool" where
  "page0_present m \<longleftrightarrow> contains (pte_flags x86_pte (m 0x4000 0)) PRESENT"

definition sample_kenv :: "(unit, unit, unit) kernel_env" where
  "sample_kenv = \<lparr>e_bits = word_bits, e_pte = x86_pte, e_kernel_cr3 = 0x1000,
     e_vfs = \<lparr>fs_file = (\<lambda>_ w _. Some (w, Some 7)), fs_directory = (\<lambda>_ w _. Some (w, None)),
       fs_create = (\<lambda>_ w _. Some (w, None)), fs_remove = (\<lambda>_ w _. Some (w, False))\<rparr>,
     e_size = (\<lambda>w _. Some (4, w)), e_read = (\<lambda>_ w n. Some (replicate n 0, w)), e_write = (\<lambda>_ w bs. Some (length bs, w)),
     e_seek = (\<lambda>_ w _. Some (0, w)), e_getdents = (\<lambda>_ w _. Some ([], w)), e_stdin = (\<lambda>w. (w, None)),
     e_devs = (\<lambda>_. sample_env), e_partition = (\<lambda>_ _ w. Some (w, None)), e_fat = (\<lambda>_. None), e_elf = (\<lambda>_. None),
     e_map_page = (\<lambda>pg _ page a f. if page = 0 \<and> \<not> page0_present (pg_mem pg)
       then Some (put pg 0x4000 0 (pte_make x86_pte (of_nat a) 7), True) else Some (pg, False)),
     e_translate_page = (\<lambda>m _ page. if page = 0 \<and> page0_present m then Some (unat (pte_addr x86_pte (m 0x4000 0))) else None),
     e_unmap = (\<lambda>pg _ page. if page = 0 \<and> page0_present (pg_mem pg) then Some (put pg 0x4000 0 0, True) else Some (pg, False)),
     e_update_flags = (\<lambda>pg _ _ _. Some (pg, True)), e_canonical = (\<lambda>_. True), e_truncate = (\<lambda>a. a),
     e_selector = (\<lambda>i r. of_nat (8 * i + r)), e_columns = 80, e_rows = 25, e_fb_width = 0, e_fb_height = 0, e_fb_addr = 0,
     e_fb_pitch = 0\<rparr>"

definition sample_task :: process where
  "sample_task = \<lparr>page_table = 0x1000, proc_context = context_default, fpu_state = FPU_INIT, tm = 10, fs = 0, brk = 0,
     exe_path = None, proc_state = Runnable, files = replicate 64 None, directories = replicate 64 None\<rparr>"

definition sample_kernel :: "(unit, unit) kernel" where
  "sample_kernel = \<lparr>k_sched = \<lparr>tasks = [Some sample_task], CURRENT_TASK_ID = 0, TOTAL_TICKS = 0, cr3 = 0x1000,
       fs_base = 0, fpu_regs = FPU_INIT\<rparr>, k_ipc = ipc_boot, k_paging = sample_paging, NEXT_TID = 0,
     k_mounts = [([SLASH], ())], k_world = (), ECHO_FLAG = True\<rparr>"

lemma sample_booted: "booted sample_kernel"
  by (simp add: booted_def sample_kernel_def sample_task_def)

lemma sample_ok: "kernel_ok sample_kernel" "current_task sample_kernel = Some sample_task"
  using booted_ok [OF sample_booted]
  by (simp_all add: current_task_def current_tid_def) (simp add: sample_kernel_def)

lemma sample_parts: "k_paging sample_kernel = sample_paging" "page_table sample_task = 0x1000" "e_bits sample_kenv = word_bits"
  "e_pte sample_kenv = x86_pte" "NEXT_TID sample_kernel = 0" "files sample_task = replicate 64 None" "current_tid sample_kernel = 0"
  by (simp_all add: sample_kernel_def sample_task_def sample_kenv_def current_tid_def)


theorem fork_makes_child_witness:
  "\<exists>k' p4t. do_syscall sample_kenv sample_kernel (\<lambda>_. 0) (context_default\<lparr>process_context.rax := 2\<rparr>) =
       Some (k', \<lambda>_. 0, context_default\<lparr>process_context.rax := 2, process_context.rcx := 1\<rparr>) \<and>
     length (tasks (k_sched k')) = 2 \<and> translate x86_pte (pg_mem (k_paging k')) p4t 0 = Some (0x5000, 5)"
proof -
  let ?a = "context_default\<lparr>process_context.rax := 2\<rparr>"
  have a: "process_context.rax ?a = 2" "NEXT_TID sample_kernel + 1 < USIZE_LIMIT" by (simp_all add: sample_parts)
  have r: "fork_ready (e_bits sample_kenv) (e_pte sample_kenv) (k_paging sample_kernel) (page_table sample_task)"
    using sample_ready(1) by (simp add: sample_parts)
  have f: "bit_field (e_bits sample_kenv)" "page_entries (e_pte sample_kenv)"
    using word_bits.bit_field_axioms x86_pte.page_entries_axioms by (simp_all add: sample_parts)
  obtain k' p4t where all: "do_syscall sample_kenv sample_kernel (\<lambda>_. 0) ?a = Some (k', \<lambda>_. 0, ?a\<lparr>process_context.rcx := of_nat (NEXT_TID sample_kernel + 1)\<rparr>)"
    "\<exists>q. tasks (k_sched k') = tasks (k_sched sample_kernel) @ [q]"
    "\<forall>va. translate (e_pte sample_kenv) (pg_mem (k_paging k')) p4t va =
       map_option (map_prod id (\<lambda>f. protect_user (user_va va) f OR USER_ACCESSIBLE))
         (translate (e_pte sample_kenv) (pg_mem (k_paging sample_kernel)) (page_table sample_task) va)"
    using fork_makes_child [OF f sample_ok r a, of "\<lambda>_. 0"] by blast
  have k': "length (tasks (k_sched k')) = length (tasks (k_sched sample_kernel)) + 1" using all(2) by auto
  have tr: "translate x86_pte (pg_mem (k_paging k')) p4t 0 =
       map_option (map_prod id (\<lambda>f. protect_user (user_va 0) f OR USER_ACCESSIBLE)) (translate x86_pte (pg_mem sample_paging) 0x1000 0)"
    using spec [OF all(3), of 0] unfolding sample_parts .
  have "(7 :: u64) AND NOT 2 = 5" "(5 :: u64) OR 4 = 5" by simp_all
  then have "translate x86_pte (pg_mem (k_paging k')) p4t 0 = Some (0x5000, 5)"
    unfolding tr by (simp add: sample_translate protect_user_def WRITABLE_def USER_ACCESSIBLE_def)
  moreover have "length (tasks (k_sched sample_kernel)) = 1" by (simp add: sample_kernel_def)
  ultimately show ?thesis using all(1) k' by (intro exI [of _ k'] exI [of _ p4t]) (simp add: sample_parts)
qed


lemma sample_file:
  "get_file (e_vfs sample_kenv) (k_world sample_kernel) (k_mounts sample_kernel) [SLASH] = Some ((), Some 7)"
  by (simp add: get_file_def lookup_mounts.simps sample_kenv_def sample_kernel_def starts_with_def checked_sub_def str_from_def
      utf8_cont_def SLASH_def)

theorem open_close_descriptor_witness:
  "\<exists>k'. sys_open sample_kenv sample_kernel (\<lambda>_. SLASH) (context_default\<lparr>process_context.rcx := 1\<rparr>) =
       Some (k', context_default\<lparr>process_context.rcx := 1, process_context.rsi := 0\<rparr>) \<and>
     sys_close k' (context_default\<lparr>process_context.rcx := 1, process_context.rsi := 0\<rparr>) = Some sample_kernel"
proof -
  let ?a = "context_default\<lparr>process_context.rcx := 1\<rparr>"
  have g: "get_file (e_vfs sample_kenv) (k_world sample_kernel) (k_mounts sample_kernel)
      (user_bytes (\<lambda>_. SLASH) (process_context.rdi ?a) (unat (process_context.rcx ?a))) = Some ((), Some 7)"
    using sample_file by (simp add: user_bytes_def context_default_def)
  have r: "process_context.r10 ?a = 0" by (simp add: context_default_def)
  have i: "Some 7 = Some (7 :: nat) \<and> 0 < length (files sample_task) \<and> files sample_task ! 0 = None \<and> (\<forall>j<0. files sample_task ! j \<noteq> None)"
    by (simp add: sample_parts)
  have "sample_kernel\<lparr>k_world := ()\<rparr> = sample_kernel" by (simp add: sample_kernel_def)
  then show ?thesis
    using open_close_descriptor [OF sample_ok g r, THEN conjunct2, THEN spec, THEN spec, THEN mp, OF i]
    by (auto simp: context_default_def)
qed


lemma exec_not_elf_fatal_example:
  "\<exists>k'. do_exec sample_kenv sample_kernel (\<lambda>_. SLASH) (context_default\<lparr>process_context.rcx := 1\<rparr>) =
       Some (k', \<lambda>_. SLASH, context_default\<lparr>process_context.rcx := 1\<rparr>) \<and>
     translate x86_pte sample_mem 0x1000 0 = Some (0x5000, 7) \<and>
     translate x86_pte (pg_mem (k_paging k')) 0x1000 0 = None \<and> do_user_page_fault sample_kenv k' 0 4 = None"
proof -
  let ?a = "context_default\<lparr>process_context.rcx := 1\<rparr>"
  have path: "[SLASH] = user_bytes (\<lambda>_. SLASH) (process_context.rdi ?a) (unat (process_context.rcx ?a))" "utf8_valid [SLASH]"
    by (simp_all add: user_bytes_def context_default_def SLASH_def utf8_valid.simps)
  have found: "e_size sample_kenv () 7 = Some (4, ())" "read_exact (e_read sample_kenv 7) () 4 = Some (replicate 4 0, ())"
    "e_elf sample_kenv (replicate 4 0 @ replicate (4 - length (replicate 4 (0 :: u8))) 0) = None"
    by (simp_all add: sample_kenv_def read_exact.simps)
  have fr: "table_freeable (e_bits sample_kenv) (e_pte sample_kenv) 3 (k_paging sample_kernel) (page_table sample_task) True False 256"
    by (auto simp: sample_parts table_freeable_def sample_all freeable_def sample_inv sample_free sample_refs)
  have d: "distinct (page_table sample_task # subtabs (e_pte sample_kenv) (pg_mem (k_paging sample_kernel)) 3 (page_table sample_task))"
    by (simp add: sample_parts sample_all)
  have top: "\<forall>i<ENTRY_COUNT. contains (pte_flags (e_pte sample_kenv) (pg_mem (k_paging sample_kernel) (page_table sample_task) i)) PRESENT \<longrightarrow>
      is_dir_entry (e_pte sample_kenv) (pg_mem (k_paging sample_kernel) (page_table sample_task) i)"
    using sample_top by (simp add: sample_parts)
  have f: "bit_field (e_bits sample_kenv)" "page_entries (e_pte sample_kenv)"
    using word_bits.bit_field_axioms x86_pte.page_entries_axioms by (simp_all add: sample_parts)
  obtain k' where k': "do_exec sample_kenv sample_kernel (\<lambda>_. SLASH) ?a = Some (k', \<lambda>_. SLASH, ?a)"
    "\<forall>va. user_va va \<longrightarrow> translate (e_pte sample_kenv) (pg_mem (k_paging k')) (page_table sample_task) va = None"
    "\<forall>va code. \<not> within_stack_range va \<and> \<not> is_write_protection_fault code \<longrightarrow> do_user_page_fault sample_kenv k' va code = None"
    using exec_not_elf_fatal [OF f sample_ok(2) path sample_file found fr d top] by blast
  have "\<not> within_stack_range 0" "\<not> is_write_protection_fault 4"
    by (simp_all add: within_stack_range_def is_write_protection_fault_def)
  then show ?thesis
    using k'(1,3) spec [OF k'(2), of 0] by (intro exI [of _ k']) (simp add: sample_parts sample_translate)
qed

text \<open>The same kernel after a fork: the frame of page 0 has two users.\<close>

definition shared_paging :: paging where
  "shared_paging = sample_paging\<lparr>pg_alloc := (pg_alloc sample_paging)\<lparr>refcnt := (replicate 64 0)[5 := 2]\<rparr>\<rparr>"

definition shared_kernel :: "(unit, unit) kernel" where
  "shared_kernel = sample_kernel\<lparr>k_paging := shared_paging\<rparr>"

lemma shared_facts:
  "free_pages word_bits shared_paging = {6..<64}" "pg_inv word_bits shared_paging"
  "ref_count (pg_alloc shared_paging) 5 = 2" "length (refcnt (pg_alloc shared_paging)) = 64" "pg_mem shared_paging = sample_mem"
proof -
  have len: "pm_len (pg_alloc shared_paging) = 64" by (simp add: shared_paging_def sample_paging_def pm_len_def)
  have "free_page word_bits (pg_alloc shared_paging) i \<longleftrightarrow> 6 \<le> i \<and> i < 64" for i
    unfolding free_page_def len by (auto simp: shared_paging_def sample_paging_def word_bits_def bit_simps)
  then show fr: "free_pages word_bits shared_paging = {6..<64}" by (intro set_eqI) (simp add: free_set_def)
  show "pg_inv word_bits shared_paging" by (simp add: pg_inv_def alloc_inv_def fr len PAGE_SIZE_def)
  show "ref_count (pg_alloc shared_paging) 5 = 2" "length (refcnt (pg_alloc shared_paging)) = 64" "pg_mem shared_paging = sample_mem"
    by (simp_all add: shared_paging_def ref_count_def)
qed

lemma shared_no_refs: "q \<noteq> 5 \<Longrightarrow> ref_count (pg_alloc shared_paging) q = 0"
  by (simp add: shared_paging_def ref_count_def)

lemma sample_mapper: "mapper_ok sample_kenv shared_paging 0x1000 0 {0x4000}"
  unfolding mapper_ok_def
proof (intro allI impI)
  fix pg :: paging and b :: nat and f :: u64
  assume "\<forall>a\<in>{0x4000}. pg_mem pg a = pg_mem shared_paging a"
  then have there: "page0_present (pg_mem pg)"
    by (simp add: page0_present_def shared_facts sample_mem_def sample_entries sample_flags)
  let ?pg1 = "put pg 0x4000 0 0" and ?w = "pte_make x86_pte (of_nat b) 7"
  let ?pg2 = "put ?pg1 0x4000 0 ?w"
  have gone: "\<not> page0_present (pg_mem ?pg1)" by (simp add: page0_present_def put_def x86_paging.not_present_0)
  have again: "e_translate_page sample_kenv (pg_mem ?pg2) 0x1000 0 = Some b" if b: "b < 2 ^ 52 \<and> 4096 dvd b"
  proof -
    have fa: "frame_addr (of_nat b)" using b frame_addr_of_nat by blast
    have lf: "legal_flags 7" by (metis sample_entries(5) x86_pte.legal_flags_pte)
    have "unat (of_nat b :: u64) = b" using b by (simp add: unat_of_nat)
    then show ?thesis using x86_pte.addr_make [OF fa lf] x86_pte.flags_make [OF fa lf]
      by (simp add: sample_kenv_def page0_present_def put_def sample_flags)
  qed
  have "e_unmap sample_kenv pg 0x1000 0 = Some (?pg1, True)" "e_map_page sample_kenv ?pg1 0x1000 0 b f = Some (?pg2, True)"
    using there gone by (simp_all add: sample_kenv_def)
  moreover have "only_in {0x4000} (pg_mem pg) (pg_mem ?pg1)" "only_in {0x4000} (pg_mem ?pg1) (pg_mem ?pg2)"
    "pg_alloc ?pg1 = pg_alloc pg" "pg_alloc ?pg2 = pg_alloc ?pg1"
    by (simp_all add: only_in_def put_def)
  ultimately show "\<exists>pg1. e_unmap sample_kenv pg 0x1000 0 = Some (pg1, True) \<and> pg_alloc pg1 = pg_alloc pg \<and>
      only_in {0x4000} (pg_mem pg) (pg_mem pg1) \<and>
      (b < 2 ^ 52 \<and> 4096 dvd b \<longrightarrow>
        (\<exists>pg2. e_map_page sample_kenv pg1 0x1000 0 b f = Some (pg2, True) \<and> pg_alloc pg2 = pg_alloc pg1 \<and>
           only_in {0x4000} (pg_mem pg1) (pg_mem pg2) \<and> e_translate_page sample_kenv (pg_mem pg2) 0x1000 0 = Some b))"
    using again by blast
qed

theorem cow_fault_private_copy_witness:
  "\<exists>k' b. do_user_page_fault sample_kenv shared_kernel 0 3 = Some k' \<and> page_no b \<in> {6..<64} \<and>
     e_translate_page sample_kenv (pg_mem (k_paging k')) 0x1000 0 = Some b \<and> ref_count (pg_alloc (k_paging k')) 5 = 1"
proof -
  have cur: "current_task shared_kernel = Some sample_task"
    using sample_ok(2) by (simp add: shared_kernel_def current_task_def current_tid_def)
  have pg: "k_paging shared_kernel = shared_paging" by (simp add: shared_kernel_def)
  have tr: "e_translate_page sample_kenv (pg_mem (k_paging shared_kernel)) (page_table sample_task) (unat (0 :: u64) div 4096) = Some 0x5000"
    by (simp add: pg shared_facts sample_parts) (simp add: sample_kenv_def page0_present_def sample_mem_def sample_entries sample_flags)
  have n: "page_no 0x5000 = 5" by simp
  note h = shared_facts shared_no_refs pg n sample_parts
  show ?thesis
    using cow_fault_private_copy [OF _ cur _ tr, where T = "{0x4000}" and code = 3] sample_mapper word_bits.bit_field_axioms
    by (auto simp: h is_write_protection_fault_def)
qed


end
