(* ===== verification/XhciIo.thy ===== *)
theory XhciIo
  imports Dma Bulk UsbPort Msc Hid Storage
begin

text \<open>
  The resources of the xHCI driver, \<^verbatim>\<open>kernel/src/xhci/controller.rs\<close>, and its access to the hardware:
  registers (\<^verbatim>\<open>kernel/src/xhci/regs.rs\<close>), memory shared with the controller, the event ring, the command
  ring, and control and bulk transfers.

  The hardware is a parameter: the record \<open>xhci_env\<close> says what a register access returns and
  does to the state of the hardware, and \<open>dma_activity\<close> what the hardware did to the main memory by the time of
  the next access to a shared buffer. Nothing is assumed of it: a controller may answer anything and write
  anything at any time. An access of the driver outside the bounds of its buffer is undefined behaviour in the code and the value
  \<^term>\<open>None\<close> here, like a panic.
\<close>

section \<open>Constants\<close>

definition POLL_LIMIT :: nat where "POLL_LIMIT = 100000"
definition TRANSFER_POLL_LIMIT :: nat where "TRANSFER_POLL_LIMIT = 100000000"
definition TRANSFER_YIELD_INTERVAL :: nat where "TRANSFER_YIELD_INTERVAL = 1024"
definition EVENT_RING_ENTRIES :: nat where "EVENT_RING_ENTRIES = 32"
definition COMMAND_RING_ENTRIES :: nat where "COMMAND_RING_ENTRIES = 4096 div 16"
definition TRANSFER_RING_ENTRIES :: nat where "TRANSFER_RING_ENTRIES = COMMAND_RING_ENTRIES - 1"

definition CAPLENGTH :: nat where "CAPLENGTH = 0x00"
definition HCIVERSION :: nat where "HCIVERSION = 0x02"
definition HCSPARAMS1 :: nat where "HCSPARAMS1 = 0x04"
definition HCCPARAMS1 :: nat where "HCCPARAMS1 = 0x10"
definition DBOFF :: nat where "DBOFF = 0x14"
definition RTSOFF :: nat where "RTSOFF = 0x18"
definition USBCMD :: nat where "USBCMD = 0x00"
definition USBSTS :: nat where "USBSTS = 0x04"
definition CRCR :: nat where "CRCR = 0x18"
definition DCBAAP :: nat where "DCBAAP = 0x30"
definition CONFIG :: nat where "CONFIG = 0x38"
definition PORTSC :: nat where "PORTSC = 0x400"
definition DB_TARGET :: u32 where "DB_TARGET = 0"
definition RT_INTR0 :: nat where "RT_INTR0 = 0x20"
definition IMAN :: nat where "IMAN = 0x00"
definition ERSTSZ :: nat where "ERSTSZ = 0x08"
definition ERSTBA :: nat where "ERSTBA = 0x10"
definition ERDP :: nat where "ERDP = 0x18"
definition ERDP_EHB :: u64 where "ERDP_EHB = push_bit 3 1"
definition USBSTS_EINT :: u32 where "USBSTS_EINT = push_bit 3 1"
definition IMAN_IP :: u32 where "IMAN_IP = 1"
definition IMAN_IE :: u32 where "IMAN_IE = push_bit 1 1"
definition TRB_TYPE_NOOP_COMMAND :: u32 where "TRB_TYPE_NOOP_COMMAND = push_bit 10 23"
definition TRB_TYPE_ENABLE_SLOT :: u32 where "TRB_TYPE_ENABLE_SLOT = push_bit 10 9"
definition TRB_TYPE_DISABLE_SLOT :: u32 where "TRB_TYPE_DISABLE_SLOT = push_bit 10 10"
definition TRB_TYPE_ADDRESS_DEVICE :: u32 where "TRB_TYPE_ADDRESS_DEVICE = push_bit 10 11"
definition TRB_TYPE_CONFIGURE_ENDPOINT :: u32 where "TRB_TYPE_CONFIGURE_ENDPOINT = push_bit 10 12"
definition USBCMD_RUN :: u32 where "USBCMD_RUN = 1"
definition USBCMD_HCRST :: u32 where "USBCMD_HCRST = push_bit 1 1"
definition USBCMD_INTE :: u32 where "USBCMD_INTE = push_bit 2 1"
definition USBSTS_HCHALTED :: u32 where "USBSTS_HCHALTED = 1"
definition USBSTS_CNR :: u32 where "USBSTS_CNR = push_bit 11 1"
definition HCCPARAMS1_XECP_MASK :: u32 where "HCCPARAMS1_XECP_MASK = 0xffff0000"
definition HCCPARAMS1_XECP_SHIFT :: nat where "HCCPARAMS1_XECP_SHIFT = 16"
definition XECAP_ID_MASK :: u32 where "XECAP_ID_MASK = 0xff"
definition XECAP_NEXT_MASK :: u32 where "XECAP_NEXT_MASK = push_bit 8 0xffff"
definition XECAP_NEXT_SHIFT :: nat where "XECAP_NEXT_SHIFT = 8"
definition XECAP_USB_LEGACY_SUPPORT :: u32 where "XECAP_USB_LEGACY_SUPPORT = 1"
definition USBLEGSUP_BIOS_OWNED :: u32 where "USBLEGSUP_BIOS_OWNED = push_bit 16 1"
definition USBLEGSUP_OS_OWNED :: u32 where "USBLEGSUP_OS_OWNED = push_bit 24 1"

section \<open>Resources\<close>

datatype InitError = Allocation | Timeout string | CommandFailedWith CompletionCode

datatype HidInput = Keyboard KeyboardState | Mouse MouseState

record HidResources =
  interrupt_ring :: dma_buffer
  report :: dma_buffer
  hid_endpoint :: hid_boot_endpoint
  hid_producer :: nat
  hid_cycle :: bool
  hid_input :: HidInput

record MscResources =
  bulk_in_ring :: dma_buffer
  bulk_out_ring :: dma_buffer
  msc_endpoint :: msc_bot_interface
  msc_capacity :: Capacity
  usb_id :: "nat option"
  cbw_buffer :: dma_buffer
  csw_buffer :: dma_buffer
  data_buffer :: dma_buffer
  in_producer :: nat
  out_producer :: nat
  in_cycle :: bool
  out_cycle :: bool

datatype DeviceKind = HidKind HidResources | MscKind MscResources

record RootDevice =
  d_port :: u8
  d_generation :: u64
  d_state :: PortState
  input_context :: dma_buffer
  output_context :: dma_buffer
  ep0_ring :: dma_buffer
  device_descriptor :: dma_buffer
  configuration_descriptor :: dma_buffer
  d_kind :: DeviceKind

definition slot_of :: "RootDevice \<Rightarrow> u8" where
  "slot_of d = (case d_state d of Addressed sl _ _ \<Rightarrow> sl | _ \<Rightarrow> 0)"

definition endpoint_id :: "u8 \<Rightarrow> u8" where
  "endpoint_id address = (address AND 0x0f) * 2 + of_bool_word (address AND 0x80 \<noteq> 0)"

definition setup_value :: "setup_request \<Rightarrow> u64" where
  "setup_value r =
     ucast (bm_request_type r) OR push_bit 8 (ucast (s_request r)) OR push_bit 16 (ucast (s_value r)) OR
     push_bit 32 (ucast (s_index r)) OR push_bit 48 (ucast (s_length r))"

record ControllerResources =
  mapping :: mmio_mapping
  dcbaa :: dma_buffer
  scratchpad_array :: "dma_buffer option"
  scratchpads :: "dma_buffer list"
  command_ring :: dma_buffer
  event_buffer :: dma_buffer
  erst :: dma_buffer
  event_consumer :: nat
  event_cycle :: bool
  event_count :: nat
  command_producer :: nat
  command_cycle :: bool
  runtime :: nat
  doorbell :: nat
  op_base :: nat
  context_64 :: bool
  root_devices :: "RootDevice list"
  root_ports :: "PortRecord list"
  protocols :: "SupportedProtocol list"
  interrupt_pending :: bool
  interrupt_count :: u64
  msi_vector :: "u8 option"
  logged_interrupt_count :: u64
  poll_ticks :: u64
  healthy :: bool

section \<open>The hardware\<close>

text \<open>
  Registers are at virtual addresses, as \<^verbatim>\<open>RegisterBlock\<close> computes them from the base of the mapping. The state
  of a running driver is the state of the hardware, the page allocator and the main memory, the
  registry of USB disks, what was handed to the input system, and the controller.
\<close>

record 'h xhci_env =
  xh_bits :: bit_ops
  mmio_read16 :: "'h \<Rightarrow> nat \<Rightarrow> u16 \<times> 'h"
  mmio_read32 :: "'h \<Rightarrow> nat \<Rightarrow> u32 \<times> 'h"
  mmio_write32 :: "'h \<Rightarrow> nat \<Rightarrow> u32 \<Rightarrow> 'h"
  mmio_write64 :: "'h \<Rightarrow> nat \<Rightarrow> u64 \<Rightarrow> 'h"
  dma_activity :: "'h \<Rightarrow> (nat \<Rightarrow> u8) \<Rightarrow> 'h \<times> (nat \<Rightarrow> u8)"

record 'h world =
  hw :: 'h
  mach :: machine
  usb_disks :: usb_registry
  submitted_scancodes :: "u8 list"
  submitted_events :: "MouseEvent list"

record 'h xhci = "'h world" +
  ctl :: ControllerResources

definition read32 :: "'h xhci_env \<Rightarrow> nat \<Rightarrow> nat \<Rightarrow> ('h, 'z) world_scheme \<Rightarrow> (u32 \<times> ('h, 'z) world_scheme) option" where
  "read32 e base off s = (let (v, h) = mmio_read32 e (hw s) (base + off) in Some (v, s\<lparr>hw := h\<rparr>))"

definition read16 :: "'h xhci_env \<Rightarrow> nat \<Rightarrow> nat \<Rightarrow> ('h, 'z) world_scheme \<Rightarrow> (u16 \<times> ('h, 'z) world_scheme) option" where
  "read16 e base off s = (let (v, h) = mmio_read16 e (hw s) (base + off) in Some (v, s\<lparr>hw := h\<rparr>))"

definition write32 :: "'h xhci_env \<Rightarrow> nat \<Rightarrow> nat \<Rightarrow> u32 \<Rightarrow> ('h, 'z) world_scheme \<Rightarrow> ('h, 'z) world_scheme option" where
  "write32 e base off v s = Some (s\<lparr>hw := mmio_write32 e (hw s) (base + off) v\<rparr>)"

definition write64 :: "'h xhci_env \<Rightarrow> nat \<Rightarrow> nat \<Rightarrow> u64 \<Rightarrow> ('h, 'z) world_scheme \<Rightarrow> ('h, 'z) world_scheme option" where
  "write64 e base off v s = Some (s\<lparr>hw := mmio_write64 e (hw s) (base + off) v\<rparr>)"

definition dma_sync :: "'h xhci_env \<Rightarrow> ('h, 'z) world_scheme \<Rightarrow> ('h, 'z) world_scheme" where
  "dma_sync e s = (let (h, r) = dma_activity e (hw s) (ram (mach s)) in s\<lparr>hw := h, mach := (mach s)\<lparr>ram := r\<rparr>\<rparr>)"

definition load :: "'h xhci_env \<Rightarrow> dma_buffer \<Rightarrow> nat \<Rightarrow> nat \<Rightarrow> ('h, 'z) world_scheme \<Rightarrow> (bytes \<times> ('h, 'z) world_scheme) option" where
  "load e b off n s =
     (let s = dma_sync e s in
      if off + n \<le> dma_len b then Some (mem_bytes (ram (mach s)) (physical_address b + off) n, s) else None)"

definition store :: "'h xhci_env \<Rightarrow> dma_buffer \<Rightarrow> nat \<Rightarrow> bytes \<Rightarrow> ('h, 'z) world_scheme \<Rightarrow> ('h, 'z) world_scheme option" where
  "store e b off bs s =
     (let s = dma_sync e s in
      if off + length bs \<le> dma_len b
      then Some (s\<lparr>mach := (mach s)\<lparr>ram := mem_store (ram (mach s)) (physical_address b + off) bs\<rparr>\<rparr>) else None)"

definition trb_bytes :: "Trb \<Rightarrow> bytes" where
  "trb_bytes t = u64_to_le (parameter t) @ u32_to_le (status t) @ u32_to_le (control t)"

definition trb_of_bytes :: "bytes \<Rightarrow> Trb" where
  "trb_of_bytes bs = \<lparr>parameter = u64_of_u32s (u32_at bs 0) (u32_at bs 4), status = u32_at bs 8, control = u32_at bs 12\<rparr>"

definition store_trb :: "'h xhci_env \<Rightarrow> dma_buffer \<Rightarrow> nat \<Rightarrow> Trb \<Rightarrow> ('h, 'z) world_scheme \<Rightarrow> ('h, 'z) world_scheme option" where
  "store_trb e b i t = store e b (i * 16) (trb_bytes t)"

definition load_trb :: "'h xhci_env \<Rightarrow> dma_buffer \<Rightarrow> nat \<Rightarrow> ('h, 'z) world_scheme \<Rightarrow> (Trb \<times> ('h, 'z) world_scheme) option" where
  "load_trb e b i s = do { (bs, s) \<leftarrow> load e b (i * 16) 16 s; Some (trb_of_bytes bs, s) }"

definition store32 :: "'h xhci_env \<Rightarrow> dma_buffer \<Rightarrow> nat \<Rightarrow> u32 \<Rightarrow> ('h, 'z) world_scheme \<Rightarrow> ('h, 'z) world_scheme option" where
  "store32 e b off w = store e b off (u32_to_le w)"

definition store64 :: "'h xhci_env \<Rightarrow> dma_buffer \<Rightarrow> nat \<Rightarrow> u64 \<Rightarrow> ('h, 'z) world_scheme \<Rightarrow> ('h, 'z) world_scheme option" where
  "store64 e b off w = store e b off (u64_to_le w)"

definition load32 :: "'h xhci_env \<Rightarrow> dma_buffer \<Rightarrow> nat \<Rightarrow> ('h, 'z) world_scheme \<Rightarrow> (u32 \<times> ('h, 'z) world_scheme) option" where
  "load32 e b off s = do { (bs, s) \<leftarrow> load e b off 4 s; Some (u32_at bs 0, s) }"

text \<open>\<^verbatim>\<open>DmaBuffer::new\<close> with its error mapped, and the drop of a buffer at the end of its life.\<close>

definition new_buffer :: "'h xhci_env \<Rightarrow> nat \<Rightarrow> nat \<Rightarrow> ('h, 'z) world_scheme \<Rightarrow> ((InitError + dma_buffer) \<times> ('h, 'z) world_scheme) option" where
  "new_buffer e len al s =
     do { (m, r) \<leftarrow> dma_new (xh_bits e) (mach s) len al;
          Some (case r of Inl _ \<Rightarrow> Inl Allocation | Inr b \<Rightarrow> Inr b, s\<lparr>mach := m\<rparr>) }"

fun drop_buffers :: "'h xhci_env \<Rightarrow> dma_buffer list \<Rightarrow> ('h, 'z) world_scheme \<Rightarrow> ('h, 'z) world_scheme option" where
  "drop_buffers e [] s = Some s"
| "drop_buffers e (b # bs) s =
     do { (m, warnings) \<leftarrow> dma_drop (xh_bits e) (mach s) b; drop_buffers e bs (s\<lparr>mach := m\<rparr>) }"

primrec wait_for :: "nat \<Rightarrow> ('s \<Rightarrow> (bool \<times> 's) option) \<Rightarrow> 's \<Rightarrow> (bool \<times> 's) option" where
  "wait_for 0 ready s = Some (False, s)"
| "wait_for (Suc n) ready s = do { (r, s) \<leftarrow> ready s; if r then Some (True, s) else wait_for n ready s }"

text \<open>
  \<open>attempt m f\<close> is the \<^verbatim>\<open>?\<close> operator in a method that changes the state: an error of \<open>m\<close> is passed on
  with the state it left.
\<close>

definition attempt :: "(('e + 'a) \<times> 's) option \<Rightarrow> ('a \<Rightarrow> 's \<Rightarrow> (('e + 'b) \<times> 's) option) \<Rightarrow> (('e + 'b) \<times> 's) option" where
  "attempt m f = do { (r, s) \<leftarrow> m; case r of Inl err \<Rightarrow> Some (Inl err, s) | Inr x \<Rightarrow> f x s }"

fun update_first :: "('a \<Rightarrow> bool) \<Rightarrow> ('a \<Rightarrow> 'a) \<Rightarrow> 'a list \<Rightarrow> 'a list" where
  "update_first P f [] = []"
| "update_first P f (x # xs) = (if P x then f x # xs else x # update_first P f xs)"

section \<open>Events\<close>

definition upd_ctl :: "(ControllerResources \<Rightarrow> ControllerResources) \<Rightarrow> 'h xhci \<Rightarrow> 'h xhci" where
  "upd_ctl f s = s\<lparr>ctl := f (ctl s)\<rparr>"

definition upd_record :: "u8 \<Rightarrow> (PortRecord \<Rightarrow> PortRecord) \<Rightarrow> 'h xhci \<Rightarrow> 'h xhci" where
  "upd_record p f = upd_ctl (\<lambda>c. c\<lparr>root_ports := update_first (\<lambda>r. port r = p) f (root_ports c)\<rparr>)"

definition find_record :: "u8 \<Rightarrow> 'h xhci \<Rightarrow> PortRecord option" where
  "find_record p s = List.find (\<lambda>r. port r = p) (root_ports (ctl s))"

definition port_offset :: "'h xhci \<Rightarrow> u8 \<Rightarrow> nat option" where
  "port_offset s p = do { i \<leftarrow> checked_sub (unat p) 1; Some (op_base (ctl s) + PORTSC + i * 0x10) }"

text \<open>The common part of \<^verbatim>\<open>handle_port_status_change\<close> and \<^verbatim>\<open>observe_port\<close>.\<close>

definition note_portsc :: "u8 \<Rightarrow> u32 \<Rightarrow> 'h xhci \<Rightarrow> 'h xhci" where
  "note_portsc p value s =
     (case find_record p s of
        None \<Rightarrow> s
      | Some r \<Rightarrow>
          if value AND PORTSC_CCS \<noteq> 0 \<and> pstate r = Active \<and> (\<exists>d\<in>set (root_devices (ctl s)). d_port d = p)
          then upd_record p (\<lambda>r. r\<lparr>portsc := value AND NOT PORTSC_CHANGE_MASK\<rparr>) s
          else upd_record p (\<lambda>r. fst (observe r value (poll_ticks (ctl s)))) s)"

definition acknowledge_port :: "'h xhci_env \<Rightarrow> nat \<Rightarrow> nat \<Rightarrow> 'h xhci \<Rightarrow> (u32 \<times> 'h xhci) option" where
  "acknowledge_port e register offset s =
     do { (value, s) \<leftarrow> read32 e register offset s;
          let changes = value AND PORTSC_CHANGE_MASK;
          s \<leftarrow> (if changes \<noteq> 0 then write32 e register offset ((value AND NOT PORTSC_CHANGE_MASK) OR changes) s else Some s);
          Some (value, s) }"

definition handle_port_status_change :: "'h xhci_env \<Rightarrow> nat \<Rightarrow> u8 \<Rightarrow> 'h xhci \<Rightarrow> 'h xhci option" where
  "handle_port_status_change e register p s =
     (if p = 0 then Some s
      else do { offset \<leftarrow> port_offset s p;
                (value, s) \<leftarrow> acknowledge_port e register offset s;
                Some (note_portsc p value s) })"

definition observe_port :: "'h xhci_env \<Rightarrow> nat \<Rightarrow> u8 \<Rightarrow> 'h xhci \<Rightarrow> 'h xhci option" where
  "observe_port e register p s =
     do { offset \<leftarrow> port_offset s p;
          (value, s) \<leftarrow> acknowledge_port e register offset s;
          Some (note_portsc p value s) }"

text \<open>The register accesses that follow the removal of an event from the ring.\<close>

definition write_erdp :: "'h xhci_env \<Rightarrow> nat \<Rightarrow> 'h xhci \<Rightarrow> 'h xhci option" where
  "write_erdp e register s =
     do { let intr = runtime (ctl s) + RT_INTR0;
          s \<leftarrow> write64 e register (intr + ERDP)
                (of_nat (physical_address (event_buffer (ctl s)) + event_consumer (ctl s) * 16) OR ERDP_EHB) s;
          (iman, s) \<leftarrow> read32 e register (intr + IMAN) s;
          s \<leftarrow> write32 e register (intr + IMAN) ((iman AND IMAN_IE) OR IMAN_IP) s;
          write32 e register (op_base (ctl s) + USBSTS) USBSTS_EINT s }"

definition next_event :: "'h xhci_env \<Rightarrow> 'h xhci \<Rightarrow> (Trb option \<times> 'h xhci) option" where
  "next_event e s =
     do { (t, s) \<leftarrow> load_trb e (event_buffer (ctl s)) (event_consumer (ctl s)) s;
          Some (if (control t AND TRB_CYCLE \<noteq> 0) \<noteq> event_cycle (ctl s) then None else Some t, s) }"

text \<open>Three of the four loops advance the position with a remainder, \<^verbatim>\<open>poll_command\<close> with a comparison.\<close>

definition advance_consumer :: "'h xhci \<Rightarrow> 'h xhci" where
  "advance_consumer = upd_ctl (\<lambda>c.
     let n = (event_consumer c + 1) mod EVENT_RING_ENTRIES in
     c\<lparr>event_consumer := n, event_cycle := (if n = 0 then \<not> event_cycle c else event_cycle c)\<rparr>)"

definition acknowledge_event :: "'h xhci_env \<Rightarrow> nat \<Rightarrow> 'h xhci \<Rightarrow> 'h xhci option" where
  "acknowledge_event e register s =
     write_erdp e register (upd_ctl (\<lambda>c. c\<lparr>event_count := event_count c + 1\<rparr>) (advance_consumer s))"

definition command_completion :: "Trb \<Rightarrow> u64 \<Rightarrow> CompletionCode option" where
  "command_completion event command_address =
     (if control event AND TRB_TYPE_MASK = TRB_TYPE_COMMAND_COMPLETION \<and> parameter event = command_address
      then Some (from_status (status event)) else None)"

primrec poll_command_loop :: "'h xhci_env \<Rightarrow> nat \<Rightarrow> u64 \<Rightarrow> nat \<Rightarrow> 'h xhci \<Rightarrow> ((InitError + u8) \<times> 'h xhci) option" where
  "poll_command_loop e register command_address 0 s = Some (Inl (Timeout ''command completion''), s)"
| "poll_command_loop e register command_address (Suc n) s =
     do { (ev, s) \<leftarrow> next_event e s;
          case ev of
            None \<Rightarrow> poll_command_loop e register command_address n s
          | Some trb \<Rightarrow>
              do { let s = upd_ctl (\<lambda>c.
                     let n = event_consumer c + 1;
                         wrap = (n = EVENT_RING_ENTRIES) in
                     c\<lparr>event_consumer := (if wrap then 0 else n),
                       event_cycle := (if wrap then \<not> event_cycle c else event_cycle c),
                       event_count := event_count c + 1\<rparr>) s;
                   s \<leftarrow> write_erdp e register s;
                   case port_status_change_event trb of
                     Some p \<Rightarrow>
                       do { s \<leftarrow> handle_port_status_change e register p s;
                            poll_command_loop e register command_address n s }
                   | None \<Rightarrow>
                       (case command_completion trb command_address of
                          Some code \<Rightarrow>
                            Some (if code = Success then Inr (ucast (drop_bit 24 (control trb)))
                                  else Inl (CommandFailedWith code), s)
                        | None \<Rightarrow> poll_command_loop e register command_address n s) } }"

definition poll_command :: "'h xhci_env \<Rightarrow> nat \<Rightarrow> u64 \<Rightarrow> 'h xhci \<Rightarrow> ((InitError + u8) \<times> 'h xhci) option" where
  "poll_command e register command_address = poll_command_loop e register command_address POLL_LIMIT"

text \<open>
  The two loops that wait for a transfer: they read \<^verbatim>\<open>USBSTS\<close> at every 1024th turn (\<open>n\<close> turns
  are left).
\<close>

definition yield_read :: "'h xhci_env \<Rightarrow> nat \<Rightarrow> nat \<Rightarrow> 'h xhci \<Rightarrow> 'h xhci option" where
  "yield_read e register n s =
     (if (TRANSFER_POLL_LIMIT - n) mod TRANSFER_YIELD_INTERVAL = 0
      then do { (_, s) \<leftarrow> read32 e register (op_base (ctl s) + USBSTS) s; Some s } else Some s)"

primrec poll_transfer_loop :: "'h xhci_env \<Rightarrow> nat \<Rightarrow> u64 \<Rightarrow> nat \<Rightarrow> 'h xhci \<Rightarrow> ((InitError + unit) \<times> 'h xhci) option" where
  "poll_transfer_loop e register trb_address 0 s =
     do { (_, s) \<leftarrow> read32 e register (op_base (ctl s) + USBSTS) s;
          Some (Inl (Timeout ''device descriptor''), s) }"
| "poll_transfer_loop e register trb_address (Suc n) s =
     do { s \<leftarrow> yield_read e register (Suc n) s;
          (ev, s) \<leftarrow> next_event e s;
          case ev of
            None \<Rightarrow> poll_transfer_loop e register trb_address n s
          | Some event \<Rightarrow>
              do { s \<leftarrow> write_erdp e register (advance_consumer s);
                   case port_status_change_event event of
                     Some p \<Rightarrow>
                       do { s \<leftarrow> handle_port_status_change e register p s;
                            poll_transfer_loop e register trb_address n s }
                   | None \<Rightarrow>
                       (let transfer_event = (control event AND TRB_TYPE_MASK = TRB_TYPE_TRANSFER_EVENT);
                            expected = (parameter event = trb_address \<or>
                              wsat_sub trb_address (2 * 16) \<le> parameter event \<and> parameter event \<le> trb_address) in
                        if transfer_event \<and> expected then
                          Some (if from_status (status event) = Success then Inr ()
                                else Inl (CommandFailedWith (from_status (status event))), s)
                        else poll_transfer_loop e register trb_address n s) } }"

definition poll_transfer :: "'h xhci_env \<Rightarrow> nat \<Rightarrow> u64 \<Rightarrow> 'h xhci \<Rightarrow> ((InitError + unit) \<times> 'h xhci) option" where
  "poll_transfer e register trb_address = poll_transfer_loop e register trb_address TRANSFER_POLL_LIMIT"

primrec poll_bulk_loop :: "'h xhci_env \<Rightarrow> nat \<Rightarrow> u64 \<Rightarrow> nat \<Rightarrow> 'h xhci \<Rightarrow> ((InitError + CompletionCode \<times> nat) \<times> 'h xhci) option" where
  "poll_bulk_loop e register trb_address 0 s = Some (Inl (Timeout ''bulk transfer''), s)"
| "poll_bulk_loop e register trb_address (Suc n) s =
     do { s \<leftarrow> yield_read e register (Suc n) s;
          (ev, s) \<leftarrow> next_event e s;
          case ev of
            None \<Rightarrow> poll_bulk_loop e register trb_address n s
          | Some event \<Rightarrow>
              do { s \<leftarrow> acknowledge_event e register s;
                   case port_status_change_event event of
                     Some p \<Rightarrow>
                       do { s \<leftarrow> handle_port_status_change e register p s;
                            poll_bulk_loop e register trb_address n s }
                   | None \<Rightarrow>
                       if control event AND TRB_TYPE_MASK = TRB_TYPE_TRANSFER_EVENT \<and> parameter event = trb_address then
                         Some (Inr (from_status (status event), unat (status event AND 0x00ffffff)), s)
                       else poll_bulk_loop e register trb_address n s } }"

definition poll_bulk_completion :: "'h xhci_env \<Rightarrow> nat \<Rightarrow> u64 \<Rightarrow> 'h xhci \<Rightarrow> ((InitError + CompletionCode \<times> nat) \<times> 'h xhci) option" where
  "poll_bulk_completion e register trb_address = poll_bulk_loop e register trb_address TRANSFER_POLL_LIMIT"


section \<open>Commands and transfers\<close>

definition link_to :: "dma_buffer \<Rightarrow> bool \<Rightarrow> Trb" where
  "link_to ring c = \<lparr>parameter = of_nat (physical_address ring), status = 0,
     control = TRB_TYPE_LINK OR TRB_TC OR of_bool_word c\<rparr>"

definition submit_command :: "'h xhci_env \<Rightarrow> nat \<Rightarrow> Trb \<Rightarrow> 'h xhci \<Rightarrow> ((InitError + u8) \<times> 'h xhci) option" where
  "submit_command e register t s =
     do { let index = command_producer (ctl s);
          let t = t\<lparr>control := (control t AND NOT TRB_CYCLE) OR of_bool_word (command_cycle (ctl s))\<rparr>;
          s \<leftarrow> store_trb e (command_ring (ctl s)) index t s;
          s \<leftarrow> write32 e register (doorbell (ctl s)) DB_TARGET s;
          let s = upd_ctl (\<lambda>c. c\<lparr>command_producer := command_producer c + 1\<rparr>) s;
          s \<leftarrow> (if command_producer (ctl s) = COMMAND_RING_ENTRIES - 1 then
                  (let s = upd_ctl (\<lambda>c. c\<lparr>command_producer := 0, command_cycle := \<not> command_cycle c\<rparr>) s in
                   store_trb e (command_ring (ctl s)) (COMMAND_RING_ENTRIES - 1)
                     (link_to (command_ring (ctl s)) (command_cycle (ctl s))) s)
                else Some s);
          poll_command e register (of_nat (physical_address (command_ring (ctl s)) + index * 16)) s }"

definition slot_command :: "u32 \<Rightarrow> u8 \<Rightarrow> u64 \<Rightarrow> Trb" where
  "slot_command ty sl param = \<lparr>parameter = param, status = 0, control = ty OR push_bit 24 (ucast sl)\<rparr>"

definition disable_slot :: "'h xhci_env \<Rightarrow> nat \<Rightarrow> u8 \<Rightarrow> 'h xhci \<Rightarrow> (bool \<times> 'h xhci) option" where
  "disable_slot e register sl s =
     do { (r, s) \<leftarrow> submit_command e register (slot_command TRB_TYPE_DISABLE_SLOT sl 0) s;
          case r of
            Inr _ \<Rightarrow> Some (True, s)
          | Inl _ \<Rightarrow> Some (False, upd_ctl (\<lambda>c. c\<lparr>healthy := False\<rparr>) s) }"

definition clear_dcbaa :: "'h xhci_env \<Rightarrow> u8 \<Rightarrow> 'h xhci \<Rightarrow> 'h xhci option" where
  "clear_dcbaa e sl s = store64 e (dcbaa (ctl s)) (unat sl * 8) 0 s"

definition control_transfer ::
  "'h xhci_env \<Rightarrow> nat \<Rightarrow> u8 \<Rightarrow> dma_buffer \<Rightarrow> nat \<Rightarrow> setup_request \<Rightarrow> dma_buffer option \<Rightarrow> 'h xhci \<Rightarrow>
   (((InitError + unit) \<times> nat) \<times> 'h xhci) option" where
  "control_transfer e register sl ring idx req data s =
     (let trb_count = (if data \<noteq> None then 3 else 2) in
      if idx + trb_count > TRANSFER_RING_ENTRIES then Some ((Inl (CommandFailedWith RingOverrun), idx), s)
      else
        do { let data_in = (bm_request_type req AND 0x80 \<noteq> 0);
             let transfer_type = (if data \<noteq> None then if data_in then 3 else 2 else 0);
             s \<leftarrow> store_trb e ring idx
                   \<lparr>parameter = setup_value req, status = 8,
                    control = TRB_TYPE_SETUP_STAGE OR push_bit 16 transfer_type OR push_bit 6 1 OR TRB_CHAIN OR TRB_CYCLE\<rparr> s;
             s \<leftarrow> (case data of
                     Some b \<Rightarrow>
                       do { s \<leftarrow> store_trb e ring (idx + 1)
                              \<lparr>parameter = of_nat (physical_address b), status = ucast (s_length req),
                               control = TRB_TYPE_DATA_STAGE OR (if data_in then push_bit 16 1 else 0) OR TRB_CHAIN OR TRB_CYCLE\<rparr> s;
                            store_trb e ring (idx + 2)
                              \<lparr>parameter = 0, status = 0,
                               control = TRB_TYPE_STATUS_STAGE OR (if data_in then 0 else push_bit 16 1) OR push_bit 5 1 OR TRB_CYCLE\<rparr> s }
                   | None \<Rightarrow>
                       store_trb e ring (idx + 1)
                         \<lparr>parameter = 0, status = 0,
                          control = TRB_TYPE_STATUS_STAGE OR push_bit 16 1 OR push_bit 5 1 OR TRB_CYCLE\<rparr> s);
             s \<leftarrow> write32 e register (doorbell (ctl s) + unat sl * 4) 1 s;
             (completion, s) \<leftarrow> poll_transfer e register
               (of_nat (physical_address ring + (idx + (trb_count - 1)) * 16)) s;
             Some ((completion, idx + trb_count), s) })"

definition bulk_transfer ::
  "'h xhci_env \<Rightarrow> nat \<Rightarrow> u8 \<Rightarrow> u8 \<Rightarrow> dma_buffer \<Rightarrow> nat \<Rightarrow> bool \<Rightarrow> dma_buffer \<Rightarrow> nat \<Rightarrow> 'h xhci \<Rightarrow>
   (((InitError + BulkCompletion) \<times> nat \<times> bool) \<times> 'h xhci) option" where
  "bulk_transfer e register sl endpoint_address ring idx cyc buffer len s =
     (if idx \<ge> TRANSFER_RING_ENTRIES \<or> len > dma_len buffer
      then Some ((Inl (CommandFailedWith RingOverrun), idx, cyc), s)
      else
        let in_direction = (endpoint_address AND 0x80 \<noteq> 0) in
        case normal_trb (of_nat (physical_address buffer)) len in_direction cyc of
          Inl _ \<Rightarrow> Some ((Inl (CommandFailedWith TrbError), idx, cyc), s)
        | Inr trb \<Rightarrow>
            do { let trb_address = of_nat (physical_address ring + idx * 16);
                 s \<leftarrow> store_trb e ring idx trb s;
                 s \<leftarrow> write32 e register (doorbell (ctl s) + unat sl * 4) (ucast (endpoint_id endpoint_address)) s;
                 (r, s) \<leftarrow> poll_bulk_completion e register trb_address s;
                 case r of
                   Inl err \<Rightarrow> Some ((Inl err, idx, cyc), s)
                 | Inr (code, residual) \<Rightarrow>
                     do { let wrap = (idx + 1 = TRANSFER_RING_ENTRIES);
                          let cyc' = (if wrap then \<not> cyc else cyc);
                          s \<leftarrow> (if wrap then store_trb e ring TRANSFER_RING_ENTRIES (link_to ring cyc') s else Some s);
                          let res = (case bulk_completion code len residual in_direction of
                              Inl (BulkFailed code) \<Rightarrow> Inl (CommandFailedWith code)
                            | Inl _ \<Rightarrow> Inl (CommandFailedWith TrbError)
                            | Inr c \<Rightarrow> Inr c);
                          Some ((res, if wrap then 0 else idx + 1, cyc'), s) } })"

definition queue_interrupt_in ::
  "'h xhci_env \<Rightarrow> nat \<Rightarrow> nat \<Rightarrow> u8 \<Rightarrow> HidResources \<Rightarrow> ('h, 'z) world_scheme \<Rightarrow> (HidResources \<times> ('h, 'z) world_scheme) option" where
  "queue_interrupt_in e register db sl h s =
     do { s \<leftarrow> store_trb e (interrupt_ring h) (hid_producer h)
            \<lparr>parameter = of_nat (physical_address (report h)), status = ucast (h_max_packet_size (hid_endpoint h)),
             control = TRB_TYPE_NORMAL OR push_bit 5 1 OR of_bool_word (hid_cycle h)\<rparr> s;
          s \<leftarrow> write32 e register (db + unat sl * 4) (ucast (endpoint_id (h_endpoint_address (hid_endpoint h)))) s;
          let h = h\<lparr>hid_producer := hid_producer h + 1\<rparr>;
          if hid_producer h = TRANSFER_RING_ENTRIES then
            do { let h = h\<lparr>hid_producer := 0, hid_cycle := \<not> hid_cycle h\<rparr>;
                 s \<leftarrow> store_trb e (interrupt_ring h) TRANSFER_RING_ENTRIES (link_to (interrupt_ring h) (hid_cycle h)) s;
                 Some (h, s) }
          else Some (h, s) }"

definition acknowledge_interrupt :: "'h xhci_env \<Rightarrow> 'h xhci \<Rightarrow> (bool \<times> 'h xhci) option" where
  "acknowledge_interrupt e s =
     do { let register = mm_virtual_address (mapping (ctl s));
          let iman_at = runtime (ctl s) + RT_INTR0 + IMAN;
          (st, s) \<leftarrow> read32 e register (op_base (ctl s) + USBSTS) s;
          (iman, s) \<leftarrow> read32 e register iman_at s;
          if st AND USBSTS_EINT = 0 \<and> iman AND IMAN_IP = 0 then Some (False, s)
          else do { s \<leftarrow> (if st AND USBSTS_EINT \<noteq> 0 then write32 e register (op_base (ctl s) + USBSTS) USBSTS_EINT s else Some s);
                    s \<leftarrow> (if iman AND IMAN_IP \<noteq> 0 then write32 e register iman_at ((iman AND IMAN_IE) OR IMAN_IP) s else Some s);
                    Some (True, upd_ctl (\<lambda>c. c\<lparr>interrupt_count := interrupt_count c + 1, interrupt_pending := True\<rparr>) s) } }"


section \<open>Buffers of a scope\<close>

text \<open>
  Rust drops a buffer when its scope ends without moving it elsewhere. \<open>owned_buffer\<close>: the buffer is moved into the result, and
  dropped when the rest of the function fails. \<open>scoped_buffer\<close>: it is dropped in either case.
  \<open>with_buffer\<close>: the rest of the function disposes of it.
\<close>

definition with_buffer ::
  "'h xhci_env \<Rightarrow> nat \<Rightarrow> (('h, 'z) world_scheme \<Rightarrow> ((InitError + 'a) \<times> ('h, 'z) world_scheme) option) \<Rightarrow>
   (dma_buffer \<Rightarrow> ('h, 'z) world_scheme \<Rightarrow> ((InitError + 'a) \<times> ('h, 'z) world_scheme) option) \<Rightarrow>
   ('h, 'z) world_scheme \<Rightarrow> ((InitError + 'a) \<times> ('h, 'z) world_scheme) option" where
  "with_buffer e len failed rest s =
     do { (r, s) \<leftarrow> new_buffer e len 64 s; case r of Inl _ \<Rightarrow> failed s | Inr b \<Rightarrow> rest b s }"

definition owned_buffer ::
  "'h xhci_env \<Rightarrow> nat \<Rightarrow> nat \<Rightarrow> (dma_buffer \<Rightarrow> ('h, 'z) world_scheme \<Rightarrow> ((InitError + 'a) \<times> ('h, 'z) world_scheme) option) \<Rightarrow>
   ('h, 'z) world_scheme \<Rightarrow> ((InitError + 'a) \<times> ('h, 'z) world_scheme) option" where
  "owned_buffer e len al rest s =
     attempt (new_buffer e len al s) (\<lambda>b s.
       do { (r, s) \<leftarrow> rest b s;
            case r of Inl err \<Rightarrow> do { s \<leftarrow> drop_buffers e [b] s; Some (Inl err, s) } | Inr x \<Rightarrow> Some (Inr x, s) })"

definition scoped_buffer ::
  "'h xhci_env \<Rightarrow> nat \<Rightarrow> (dma_buffer \<Rightarrow> ('h, 'z) world_scheme \<Rightarrow> ((InitError + 'a) \<times> ('h, 'z) world_scheme) option) \<Rightarrow>
   ('h, 'z) world_scheme \<Rightarrow> ((InitError + 'a) \<times> ('h, 'z) world_scheme) option" where
  "scoped_buffer e len rest s =
     attempt (new_buffer e len 64 s) (\<lambda>b s.
       do { (r, s) \<leftarrow> rest b s; s \<leftarrow> drop_buffers e [b] s; Some (r, s) })"

end
