(* ===== verification/Controller.thy ===== *)
theory Controller
  imports XhciIo
begin

text \<open>
  The life cycle of a running xHCI controller, \<^verbatim>\<open>kernel/src/xhci/controller.rs\<close>: endpoint configuration, the probe of a
  mass storage device, addressing and enumeration of a root port, removal, the service of root ports
  and the polling loop. Log messages are left out, the memory they read is not.
\<close>

section \<open>Endpoints\<close>

definition context_size :: "'h xhci \<Rightarrow> nat" where
  "context_size s = (if context_64 (ctl s) then 64 else 32)"

definition set_slot_entries :: "'h xhci_env \<Rightarrow> dma_buffer \<Rightarrow> nat \<Rightarrow> nat \<Rightarrow> 'h xhci \<Rightarrow> 'h xhci option" where
  "set_slot_entries e inp csize eid s =
     do { s \<leftarrow> store32 e inp 4 (1 OR push_bit eid 1) s;
          (old, s) \<leftarrow> load32 e inp csize s;
          store32 e inp csize ((old AND NOT (push_bit 27 0x1f)) OR push_bit 27 (of_nat eid)) s }"

definition configure_endpoint ::
  "'h xhci_env \<Rightarrow> nat \<Rightarrow> u8 \<Rightarrow> dma_buffer \<Rightarrow> hid_boot_endpoint \<Rightarrow> dma_buffer \<Rightarrow> 'h xhci \<Rightarrow> ((InitError + unit) \<times> 'h xhci) option" where
  "configure_endpoint e register sl inp endpoint ring s =
     (let csize = context_size s; eid = unat (endpoint_id (h_endpoint_address endpoint)) in
      if eid = 0 \<or> eid \<ge> 32 then Some (Inl (CommandFailedWith TrbError), s)
      else
        do { s \<leftarrow> set_slot_entries e inp csize eid s;
             let ctx = csize * (eid + 1);
             s \<leftarrow> store32 e inp ctx (push_bit 16 (ucast (wsat_sub (h_interval endpoint) 1))) s;
             s \<leftarrow> store32 e inp (ctx + 4) (push_bit 16 (ucast (h_max_packet_size endpoint)) OR push_bit 1 3 OR push_bit 3 7) s;
             s \<leftarrow> store64 e inp (ctx + 8) (of_nat (physical_address ring) OR 1) s;
             s \<leftarrow> store_trb e ring (COMMAND_RING_ENTRIES - 1) (link_to ring True) s;
             (_, s) \<leftarrow> load32 e inp 4 s;
             (_, s) \<leftarrow> load32 e inp csize s;
             attempt (submit_command e register (slot_command TRB_TYPE_CONFIGURE_ENDPOINT sl (of_nat (physical_address inp))) s)
               (\<lambda>_ s. Some (Inr (), s)) })"

definition configure_bulk_endpoint ::
  "'h xhci_env \<Rightarrow> nat \<Rightarrow> u8 \<Rightarrow> dma_buffer \<Rightarrow> endpoint_descriptor \<Rightarrow> dma_buffer \<Rightarrow> 'h xhci \<Rightarrow> ((InitError + unit) \<times> 'h xhci) option" where
  "configure_bulk_endpoint e register sl inp endpoint ring s =
     (let csize = context_size s; eid = unat (endpoint_id (e_address endpoint)) in
      if eid = 0 \<or> eid \<ge> 32 \<or> e_attributes endpoint \<noteq> 0x02 \<or> e_max_packet_size endpoint = 0
      then Some (Inl (CommandFailedWith TrbError), s)
      else
        do { s \<leftarrow> set_slot_entries e inp csize eid s;
             let ctx = csize * (eid + 1);
             let endpoint_type = (if e_address endpoint AND 0x80 \<noteq> 0 then 6 else 2);
             s \<leftarrow> store32 e inp ctx 0 s;
             s \<leftarrow> store32 e inp (ctx + 4)
                   (push_bit 16 (ucast (e_max_packet_size endpoint)) OR push_bit 3 endpoint_type OR push_bit 1 3) s;
             s \<leftarrow> store64 e inp (ctx + 8) (of_nat (physical_address ring) OR 1) s;
             s \<leftarrow> store_trb e ring TRANSFER_RING_ENTRIES (link_to ring True) s;
             attempt (submit_command e register (slot_command TRB_TYPE_CONFIGURE_ENDPOINT sl (of_nat (physical_address inp))) s)
               (\<lambda>_ s. Some (Inr (), s)) })"

section \<open>Mass storage\<close>

text \<open>The positions and cycle bits of the two bulk rings, which a command updates in place.\<close>

record pipes =
  p_in :: nat
  p_out :: nat
  c_in :: bool
  c_out :: bool

definition bulk_send_on ::
  "'h xhci_env \<Rightarrow> nat \<Rightarrow> u8 \<Rightarrow> msc_bot_interface \<Rightarrow> dma_buffer \<Rightarrow> dma_buffer \<Rightarrow> nat \<Rightarrow> pipes \<Rightarrow> 'h xhci \<Rightarrow>
   (((InitError + BulkCompletion) \<times> pipes) \<times> 'h xhci) option" where
  "bulk_send_on e register sl iface ring buffer len ps s =
     do { ((r, i, c), s) \<leftarrow> bulk_transfer e register sl (e_address (bulk_out iface)) ring (p_out ps) (c_out ps) buffer len s;
          Some ((r, ps\<lparr>p_out := i, c_out := c\<rparr>), s) }"

definition bulk_receive_on ::
  "'h xhci_env \<Rightarrow> nat \<Rightarrow> u8 \<Rightarrow> msc_bot_interface \<Rightarrow> dma_buffer \<Rightarrow> dma_buffer \<Rightarrow> nat \<Rightarrow> pipes \<Rightarrow> 'h xhci \<Rightarrow>
   (((InitError + BulkCompletion) \<times> pipes) \<times> 'h xhci) option" where
  "bulk_receive_on e register sl iface ring buffer len ps s =
     do { ((r, i, c), s) \<leftarrow> bulk_transfer e register sl (e_address (bulk_in iface)) ring (p_in ps) (c_in ps) buffer len s;
          Some ((r, ps\<lparr>p_in := i, c_in := c\<rparr>), s) }"

definition msc_status ::
  "'h xhci_env \<Rightarrow> dma_buffer \<Rightarrow> u32 \<Rightarrow> nat \<Rightarrow> pipes \<Rightarrow> 'h xhci \<Rightarrow> (((InitError + unit) \<times> pipes) \<times> 'h xhci) option" where
  "msc_status e csw_b tag data_len ps s =
     do { (st, s) \<leftarrow> load e csw_b 0 CSW_LEN s;
          let r = (case csw_parse st of
              Inl _ \<Rightarrow> Inl (CommandFailedWith TrbError)
            | Inr c \<Rightarrow> (case csw_validate c tag data_len of Inl _ \<Rightarrow> Inl (CommandFailedWith TrbError) | Inr _ \<Rightarrow> Inr ()));
          Some ((r, ps), s) }"

definition msc_command ::
  "'h xhci_env \<Rightarrow> nat \<Rightarrow> u8 \<Rightarrow> msc_bot_interface \<Rightarrow> dma_buffer \<Rightarrow> dma_buffer \<Rightarrow> pipes \<Rightarrow> dma_buffer \<Rightarrow> dma_buffer \<Rightarrow> dma_buffer \<Rightarrow>
   nat \<Rightarrow> bytes \<Rightarrow> 'h xhci \<Rightarrow> (((InitError + unit) \<times> pipes) \<times> 'h xhci) option" where
  "msc_command e register sl iface ring_in ring_out ps cbw_b csw_b data data_len cdb s =
     do { let tag = of_nat (p_out ps) + 1;
          let packet = cbw tag (of_nat data_len) In 0 cdb;
          s \<leftarrow> store e cbw_b 0 packet s;
          ((r, ps), s) \<leftarrow> bulk_send_on e register sl iface ring_out cbw_b (length packet) ps s;
          case r of
            Inl err \<Rightarrow> Some ((Inl err, ps), s)
          | Inr _ \<Rightarrow>
              do { ((r, ps), s) \<leftarrow> (if data_len \<noteq> 0 then bulk_receive_on e register sl iface ring_in data data_len ps s
                                    else Some ((Inr \<lparr>transferred = 0, short_packet = False\<rparr>, ps), s));
                   case r of
                     Inl err \<Rightarrow> Some ((Inl err, ps), s)
                   | Inr _ \<Rightarrow>
                       do { ((r, ps), s) \<leftarrow> bulk_receive_on e register sl iface ring_in csw_b CSW_LEN ps s;
                            case r of
                              Inl err \<Rightarrow> Some ((Inl err, ps), s)
                            | Inr _ \<Rightarrow> msc_status e csw_b tag data_len ps s } } }"

text \<open>The three commands of the probe, on rings and buffers that exist.\<close>

definition probe_commands ::
  "'h xhci_env \<Rightarrow> nat \<Rightarrow> u8 \<Rightarrow> msc_bot_interface \<Rightarrow> dma_buffer \<Rightarrow> dma_buffer \<Rightarrow> dma_buffer \<Rightarrow> dma_buffer \<Rightarrow> dma_buffer \<Rightarrow> 'h xhci \<Rightarrow>
   ((InitError + MscResources) \<times> 'h xhci) option" where
  "probe_commands e register sl iface ring_in ring_out cbw_b csw_b data s =
     do { let run = msc_command e register sl iface ring_in ring_out;
          let ps = \<lparr>p_in = 0, p_out = 0, c_in = True, c_out = True\<rparr>;
          ((r, ps), s) \<leftarrow> run ps cbw_b csw_b data 36 inquiry s;
          case r of Inl err \<Rightarrow> Some (Inl err, s) | Inr _ \<Rightarrow>
     do { (_, s) \<leftarrow> load e data 0 36 s;
          ((r, ps), s) \<leftarrow> run ps cbw_b csw_b data 0 test_unit_ready s;
          case r of Inl err \<Rightarrow> Some (Inl err, s) | Inr _ \<Rightarrow>
     do { ((r, ps), s) \<leftarrow> run ps cbw_b csw_b data 8 read_capacity10 s;
          case r of Inl err \<Rightarrow> Some (Inl err, s) | Inr _ \<Rightarrow>
     do { (bs, s) \<leftarrow> load e data 0 8 s;
          case parse_capacity10 bs of
            Inl _ \<Rightarrow> Some (Inl (CommandFailedWith TrbError), s)
          | Inr cap \<Rightarrow>
              Some (Inr \<lparr>bulk_in_ring = ring_in, bulk_out_ring = ring_out, msc_endpoint = iface, msc_capacity = cap, usb_id = None,
                cbw_buffer = cbw_b, csw_buffer = csw_b, data_buffer = data, in_producer = p_in ps, out_producer = p_out ps,
                in_cycle = c_in ps, out_cycle = c_out ps\<rparr>, s) } } } }"

definition check_max_lun ::
  "'h xhci_env \<Rightarrow> nat \<Rightarrow> u8 \<Rightarrow> dma_buffer \<Rightarrow> nat \<Rightarrow> u8 \<Rightarrow> dma_buffer \<Rightarrow> 'h xhci \<Rightarrow> ((InitError + unit) \<times> 'h xhci) option" where
  "check_max_lun e register sl ep0 idx iface_no lun s =
     do { ((r, idx), s) \<leftarrow> control_transfer e register sl ep0 idx (get_max_lun iface_no) (Some lun) s;
          case r of
            Inr _ \<Rightarrow>
              do { (bs, s) \<leftarrow> load e lun 0 1 s;
                   Some (if bs ! 0 \<noteq> 0 then Inl (CommandFailedWith TrbError) else Inr (), s) }
          | Inl err \<Rightarrow> Some (if err = CommandFailedWith StallError then Inr () else Inl err, s) }"

definition configure_and_probe_msc ::
  "'h xhci_env \<Rightarrow> nat \<Rightarrow> u8 \<Rightarrow> dma_buffer \<Rightarrow> nat \<Rightarrow> dma_buffer \<Rightarrow> msc_bot_interface \<Rightarrow> 'h xhci \<Rightarrow>
   ((InitError + MscResources) \<times> 'h xhci) option" where
  "configure_and_probe_msc e register sl ep0 idx inp iface s =
     do { ((r, idx), s) \<leftarrow> control_transfer e register sl ep0 idx (set_configuration (m_configuration_value iface)) None s;
          case r of
            Inl err \<Rightarrow> Some (Inl err, s)
          | Inr _ \<Rightarrow>
              owned_buffer e 4096 64 (\<lambda>ring_in. owned_buffer e 4096 64 (\<lambda>ring_out s.
                attempt (configure_bulk_endpoint e register sl inp (bulk_out iface) ring_out s) (\<lambda>_ s.
                attempt (configure_bulk_endpoint e register sl inp (bulk_in iface) ring_in s) (\<lambda>_.
                scoped_buffer e 1 (\<lambda>lun s.
                  attempt (check_max_lun e register sl ep0 idx (m_interface_number iface) lun s) (\<lambda>_.
                  owned_buffer e CBW_LEN 64 (\<lambda>cbw_b. owned_buffer e CSW_LEN 64 (\<lambda>csw_b. owned_buffer e MAX_READ_BYTES 64 (\<lambda>data.
                    probe_commands e register sl iface ring_in ring_out cbw_b csw_b data))))))))) s }"

definition pipes_of :: "MscResources \<Rightarrow> pipes" where
  "pipes_of m = \<lparr>p_in = in_producer m, p_out = out_producer m, c_in = in_cycle m, c_out = out_cycle m\<rparr>"

definition set_pipes :: "MscResources \<Rightarrow> pipes \<Rightarrow> MscResources" where
  "set_pipes m ps = m\<lparr>in_producer := p_in ps, out_producer := p_out ps, in_cycle := c_in ps, out_cycle := c_out ps\<rparr>"

definition has_usb_id :: "nat \<Rightarrow> RootDevice \<Rightarrow> bool" where
  "has_usb_id i d = (case d_kind d of MscKind m \<Rightarrow> usb_id m = Some i | _ \<Rightarrow> False)"

definition set_device :: "nat \<Rightarrow> RootDevice \<Rightarrow> 'h xhci \<Rightarrow> 'h xhci" where
  "set_device i d = upd_ctl (\<lambda>c. c\<lparr>root_devices := (root_devices c)[i := d]\<rparr>)"

text \<open>\<open>Some bs\<close> is the answer \<^verbatim>\<open>true\<close> with the output buffer filled.\<close>

definition read_usb_blocks :: "'h xhci_env \<Rightarrow> nat \<Rightarrow> u64 \<Rightarrow> nat \<Rightarrow> 'h xhci \<Rightarrow> (bytes option \<times> 'h xhci) option" where
  "read_usb_blocks e i lba len s =
     (if len = 0 \<or> \<not> is_multiple_of len BLOCK_SIZE \<or> len > MAX_READ_BYTES \<or> lba > 0xffffffff then Some (None, s)
      else
        case position (has_usb_id i) (root_devices (ctl s)) of
          None \<Rightarrow> Some (None, s)
        | Some k \<Rightarrow>
            let d = root_devices (ctl s) ! k; sl = slot_of d in
            (case d_kind d of
               HidKind _ \<Rightarrow> Some (None, s)
             | MscKind m \<Rightarrow>
                 let n = len div BLOCK_SIZE in
                 if unat lba + n \<ge> 2 ^ 64 \<or> unat lba + n > unat (blocks (msc_capacity m)) then Some (None, s)
                 else
                   do { let register = mm_virtual_address (mapping (ctl s));
                        ((r, ps), s) \<leftarrow> msc_command e register sl (msc_endpoint m) (bulk_in_ring m) (bulk_out_ring m) (pipes_of m)
                          (cbw_buffer m) (csw_buffer m) (data_buffer m) len (read10 (ucast lba) (of_nat n)) s;
                        let s = set_device k (d\<lparr>d_kind := MscKind (set_pipes m ps)\<rparr>) s;
                        case r of
                          Inl _ \<Rightarrow> Some (None, s)
                        | Inr _ \<Rightarrow> do { (bs, s) \<leftarrow> load e (data_buffer m) 0 len s; Some (Some bs, s) } }))"

section \<open>Addressing a device\<close>

definition release_or_retain_slot_resources :: "'h xhci_env \<Rightarrow> nat \<Rightarrow> u8 \<Rightarrow> dma_buffer list \<Rightarrow> 'h xhci \<Rightarrow> 'h xhci option" where
  "release_or_retain_slot_resources e register sl resources s =
     do { (ok, s) \<leftarrow> disable_slot e register sl s;
          if ok then do { s \<leftarrow> clear_dcbaa e sl s; drop_buffers e resources s } else Some s }"

definition release_failed_slot :: "'h xhci_env \<Rightarrow> nat \<Rightarrow> u8 \<Rightarrow> 'h xhci \<Rightarrow> 'h xhci option" where
  "release_failed_slot e register sl s =
     do { (ok, s) \<leftarrow> disable_slot e register sl s; if ok then clear_dcbaa e sl s else Some s }"

text \<open>The two ways to give up: the resources are dropped by the caller, or they are handed to the slot's release.\<close>

definition slot_failed :: "'h xhci_env \<Rightarrow> nat \<Rightarrow> u8 \<Rightarrow> dma_buffer list \<Rightarrow> 'h xhci \<Rightarrow> ((InitError + 'a) \<times> 'h xhci) option" where
  "slot_failed e register sl bs s =
     do { s \<leftarrow> release_failed_slot e register sl s; s \<leftarrow> drop_buffers e bs s; Some (Inl Allocation, s) }"

definition fail_published :: "'h xhci_env \<Rightarrow> nat \<Rightarrow> u8 \<Rightarrow> dma_buffer list \<Rightarrow> InitError \<Rightarrow> 'h xhci \<Rightarrow> ((InitError + 'a) \<times> 'h xhci) option" where
  "fail_published e register sl bs err s =
     do { s \<leftarrow> release_or_retain_slot_resources e register sl bs s; Some (Inl err, s) }"

definition log_ep0_context :: "'h xhci_env \<Rightarrow> dma_buffer \<Rightarrow> 'h xhci \<Rightarrow> 'h xhci option" where
  "log_ep0_context e out s =
     do { let csize = context_size s;
          (_, s) \<leftarrow> load32 e out csize s;
          (_, s) \<leftarrow> load32 e out (csize + 4) s;
          (_, s) \<leftarrow> load e out (csize + 8) 8 s;
          Some s }"

definition publish_slot ::
  "'h xhci_env \<Rightarrow> u8 \<Rightarrow> u8 \<Rightarrow> u8 \<Rightarrow> dma_buffer \<Rightarrow> dma_buffer \<Rightarrow> dma_buffer \<Rightarrow> 'h xhci \<Rightarrow> 'h xhci option" where
  "publish_slot e p speed sl inp out ep0 s =
     do { let csize = context_size s;
          s \<leftarrow> store64 e (dcbaa (ctl s)) (unat sl * 8) (of_nat (physical_address out)) s;
          s \<leftarrow> store32 e inp 4 3 s;
          s \<leftarrow> store32 e inp csize (push_bit 20 (ucast speed) OR push_bit 27 1) s;
          s \<leftarrow> store32 e inp (csize + 4) (push_bit 16 (ucast p)) s;
          s \<leftarrow> store32 e inp (csize * 2 + 4) (push_bit 16 (ucast (usb2_max_packet speed)) OR push_bit 3 4 OR push_bit 1 3) s;
          s \<leftarrow> store64 e inp (csize * 2 + 8) (of_nat (physical_address ep0) OR 1) s;
          store_trb e ep0 (COMMAND_RING_ENTRIES - 1) (link_to ep0 True) s }"

text \<open>The parts of a device that are known once its slot is addressed.\<close>

record slot_parts =
  sp_port :: u8
  sp_generation :: u64
  sp_speed :: u8
  sp_slot :: u8
  sp_input :: dma_buffer
  sp_output :: dma_buffer
  sp_ep0 :: dma_buffer
  sp_descriptor :: dma_buffer

definition slot_buffers :: "slot_parts \<Rightarrow> dma_buffer list" where
  "slot_buffers sp = [sp_input sp, sp_output sp, sp_ep0 sp, sp_descriptor sp]"

definition root_device :: "slot_parts \<Rightarrow> dma_buffer \<Rightarrow> DeviceKind \<Rightarrow> RootDevice" where
  "root_device sp conf kind =
     \<lparr>d_port = sp_port sp, d_generation = sp_generation sp,
      d_state = Addressed (sp_slot sp) (sp_speed sp) (usb2_max_packet (sp_speed sp)),
      input_context = sp_input sp, output_context = sp_output sp, ep0_ring = sp_ep0 sp,
      device_descriptor = sp_descriptor sp, configuration_descriptor = conf, d_kind = kind\<rparr>"

text \<open>From the endpoint of a boot device to a queued report.\<close>

definition configure_hid ::
  "'h xhci_env \<Rightarrow> nat \<Rightarrow> slot_parts \<Rightarrow> nat \<Rightarrow> dma_buffer \<Rightarrow> hid_boot_endpoint \<Rightarrow> 'h xhci \<Rightarrow> ((InitError + RootDevice) \<times> 'h xhci) option" where
  "configure_hid e register sp idx conf endpoint s =
     do { let sl = sp_slot sp;
          let fail = fail_published e register sl (slot_buffers sp);
          ((r, idx), s) \<leftarrow> control_transfer e register sl (sp_ep0 sp) idx (set_configuration (h_configuration_value endpoint)) None s;
          case r of Inl err \<Rightarrow> fail err s | Inr _ \<Rightarrow>
     do { ((r, idx), s) \<leftarrow> control_transfer e register sl (sp_ep0 sp) idx (set_idle (h_interface_number endpoint)) None s;
          case r of Inl err \<Rightarrow> fail err s | Inr _ \<Rightarrow>
          with_buffer e 4096 (fail Allocation) (\<lambda>ring s.
     do { (r, s) \<leftarrow> configure_endpoint e register sl (sp_input sp) endpoint ring s;
          let fail = fail_published e register sl (slot_buffers sp @ [ring]);
          case r of Inl err \<Rightarrow> fail err s | Inr _ \<Rightarrow>
          with_buffer e (unat (h_max_packet_size endpoint)) (fail Allocation) (\<lambda>rep s.
     do { (h, s) \<leftarrow> queue_interrupt_in e register (doorbell (ctl s)) sl
            \<lparr>interrupt_ring = ring, report = rep, hid_endpoint = endpoint, hid_producer = 0, hid_cycle = True,
             hid_input = (if h_protocol endpoint = 1 then Keyboard keyboard_new else Mouse mouse_new)\<rparr> s;
          Some (Inr (root_device sp conf (HidKind h)), s) }) s }) s } }"

text \<open>Once the buffer for the configuration descriptor exists; the caller owns it.\<close>

definition configure_device ::
  "'h xhci_env \<Rightarrow> nat \<Rightarrow> slot_parts \<Rightarrow> nat \<Rightarrow> nat \<Rightarrow> dma_buffer \<Rightarrow> 'h xhci \<Rightarrow> ((InitError + RootDevice) \<times> 'h xhci) option" where
  "configure_device e register sp idx len conf s =
     do { let sl = sp_slot sp;
          let fail = fail_published e register sl (slot_buffers sp);
          ((r, idx), s) \<leftarrow> control_transfer e register sl (sp_ep0 sp) idx (get_descriptor 2 (of_nat len)) (Some conf) s;
          case r of Inl err \<Rightarrow> fail err s | Inr _ \<Rightarrow>
     do { (bs, s) \<leftarrow> load e conf 0 len s;
          parsed \<leftarrow> parse_configuration bs;
          case parsed of
            Inr endpoint \<Rightarrow> configure_hid e register sp idx conf endpoint s
          | Inl _ \<Rightarrow>
              do { (bs, s) \<leftarrow> load e conf 0 len s;
                   parsed \<leftarrow> parse_msc_bot_interface bs;
                   case parsed of
                     Inl _ \<Rightarrow> fail (CommandFailedWith TrbError) s
                   | Inr iface \<Rightarrow>
                       do { (r, s) \<leftarrow> configure_and_probe_msc e register sl (sp_ep0 sp) idx (sp_input sp) iface s;
                            case r of
                              Inl err \<Rightarrow> fail err s
                            | Inr msc \<Rightarrow> Some (Inr (root_device sp conf (MscKind msc)), s) } } } }"

text \<open>Once the buffer for the first nine bytes exists; the caller drops it.\<close>

definition read_configuration ::
  "'h xhci_env \<Rightarrow> nat \<Rightarrow> slot_parts \<Rightarrow> nat \<Rightarrow> dma_buffer \<Rightarrow> 'h xhci \<Rightarrow> ((InitError + RootDevice) \<times> 'h xhci) option" where
  "read_configuration e register sp idx header s =
     do { let sl = sp_slot sp;
          let fail = fail_published e register sl (slot_buffers sp);
          ((r, idx), s) \<leftarrow> control_transfer e register sl (sp_ep0 sp) idx (get_descriptor 2 9) (Some header) s;
          case r of Inl err \<Rightarrow> fail err s | Inr _ \<Rightarrow>
     do { (bs, s) \<leftarrow> load e header 0 9 s;
          let len = unat (u16_from_le (bs ! 2) (bs ! 3));
          if \<not> (9 \<le> len \<and> len \<le> 4096) then fail (CommandFailedWith TrbError) s
          else with_buffer e len (fail Allocation) (\<lambda>conf s.
     do { (r, s) \<leftarrow> configure_device e register sp idx len conf s;
          case r of Inl err \<Rightarrow> do { s \<leftarrow> drop_buffers e [conf] s; Some (Inl err, s) } | Inr d \<Rightarrow> Some (Inr d, s) }) s } }"

definition address_slot ::
  "'h xhci_env \<Rightarrow> nat \<Rightarrow> slot_parts \<Rightarrow> 'h xhci \<Rightarrow> ((InitError + RootDevice) \<times> 'h xhci) option" where
  "address_slot e register sp s =
     do { let sl = sp_slot sp;
          let fail = fail_published e register sl (slot_buffers sp);
          s \<leftarrow> publish_slot e (sp_port sp) (sp_speed sp) sl (sp_input sp) (sp_output sp) (sp_ep0 sp) s;
          (r, s) \<leftarrow> submit_command e register (slot_command TRB_TYPE_ADDRESS_DEVICE sl (of_nat (physical_address (sp_input sp)))) s;
          case r of Inl err \<Rightarrow> fail err s | Inr _ \<Rightarrow>
     do { s \<leftarrow> log_ep0_context e (sp_output sp) s;
          ((r, idx), s) \<leftarrow> control_transfer e register sl (sp_ep0 sp) 0 (get_descriptor 1 18) (Some (sp_descriptor sp)) s;
          case r of
            Inl err \<Rightarrow> do { s \<leftarrow> log_ep0_context e (sp_output sp) s; fail err s }
          | Inr _ \<Rightarrow>
              with_buffer e 9 (fail Allocation) (\<lambda>header s.
                do { (r, s) \<leftarrow> read_configuration e register sp idx header s;
                     s \<leftarrow> drop_buffers e [header] s;
                     Some (r, s) }) s } }"

definition address_port ::
  "'h xhci_env \<Rightarrow> nat \<Rightarrow> u8 \<Rightarrow> u8 \<Rightarrow> u64 \<Rightarrow> 'h xhci \<Rightarrow> ((InitError + RootDevice) \<times> 'h xhci) option" where
  "address_port e register p speed gen s =
     attempt (submit_command e register (slot_command TRB_TYPE_ENABLE_SLOT 0 0) s) (\<lambda>sl s.
       if sl = 0 then Some (Inl (CommandFailedWith Invalid), s)
       else
         let csize = context_size s; failed = slot_failed e register sl in
         with_buffer e (csize * 33) (failed []) (\<lambda>inp.
         with_buffer e (csize * 32) (failed [inp]) (\<lambda>out.
         with_buffer e 4096 (failed [out, inp]) (\<lambda>ep0.
         with_buffer e 18 (failed [ep0, out, inp]) (\<lambda>desc.
           address_slot e register
             \<lparr>sp_port = p, sp_generation = gen, sp_speed = speed, sp_slot = sl, sp_input = inp, sp_output = out,
              sp_ep0 = ep0, sp_descriptor = desc\<rparr>)))) s)"


section \<open>Root ports\<close>

definition reset_port :: "'h xhci_env \<Rightarrow> nat \<Rightarrow> nat \<Rightarrow> 'h xhci \<Rightarrow> (bool \<times> 'h xhci) option" where
  "reset_port e register offset s =
     do { (value, s) \<leftarrow> read32 e register offset s;
          s \<leftarrow> write32 e register offset ((value AND PORTSC_PP) OR PORTSC_PR OR PORTSC_CSC OR PORTSC_PRC) s;
          wait_for POLL_LIMIT (\<lambda>s.
            do { (v, s) \<leftarrow> read32 e register offset s;
                 if v AND PORTSC_PR = 0
                 then do { (v, s) \<leftarrow> read32 e register offset s; Some (v AND PORTSC_PED \<noteq> 0, s) }
                 else Some (False, s) }) s }"

definition port_is_current :: "'h xhci_env \<Rightarrow> u8 \<Rightarrow> u64 \<Rightarrow> 'h xhci \<Rightarrow> (bool \<times> 'h xhci) option" where
  "port_is_current e p gen s =
     do { offset \<leftarrow> port_offset s p;
          (value, s) \<leftarrow> read32 e (mm_virtual_address (mapping (ctl s))) offset s;
          Some (value AND PORTSC_CCS \<noteq> 0 \<and> (\<exists>r\<in>set (root_ports (ctl s)). port r = p \<and> generation_matches r gen), s) }"

definition speed_of :: "u32 \<Rightarrow> u8" where
  "speed_of sc = ucast (drop_bit 10 sc AND 0xf)"

definition hid_buffers :: "HidResources \<Rightarrow> dma_buffer list" where
  "hid_buffers h = [interrupt_ring h, report h]"

definition msc_buffers :: "MscResources \<Rightarrow> dma_buffer list" where
  "msc_buffers m = [bulk_in_ring m, bulk_out_ring m, cbw_buffer m, csw_buffer m, data_buffer m]"

definition device_buffers :: "RootDevice \<Rightarrow> dma_buffer list" where
  "device_buffers d = [input_context d, output_context d, ep0_ring d, device_descriptor d, configuration_descriptor d] @
     (case d_kind d of HidKind h \<Rightarrow> hid_buffers h | MscKind m \<Rightarrow> msc_buffers m)"

text \<open>A mass storage device is registered as a disk before it joins the devices of the controller.\<close>

definition register_disk :: "RootDevice \<Rightarrow> 'h xhci \<Rightarrow> RootDevice \<times> 'h xhci" where
  "register_disk d s =
     (case d_kind d of
        HidKind _ \<Rightarrow> (d, s)
      | MscKind m \<Rightarrow>
          let (reg, i) = usb_register (usb_disks s) (unat (blocks (msc_capacity m))) in
          (d\<lparr>d_kind := MscKind (m\<lparr>usb_id := Some i\<rparr>)\<rparr>, s\<lparr>usb_disks := reg\<rparr>))"

definition push_device :: "RootDevice \<Rightarrow> 'h xhci \<Rightarrow> 'h xhci" where
  "push_device d = upd_ctl (\<lambda>c. c\<lparr>root_devices := root_devices c @ [d]\<rparr>)"

definition add_device :: "RootDevice \<Rightarrow> u8 \<Rightarrow> 'h xhci \<Rightarrow> 'h xhci" where
  "add_device d p s = (let (d, s) = register_disk d s in upd_record p mark_active (push_device d s))"

definition fail_record :: "u8 \<Rightarrow> 'h xhci \<Rightarrow> 'h xhci" where
  "fail_record p s = upd_record p (\<lambda>r. mark_failed r (poll_ticks (ctl s))) s"

text \<open>
  \<open>stage_record\<close>: the record of the port, if there is one, moves to a stage, unless its generation is another;
  the answer tells whether to go on.
\<close>

definition stage_record :: "u8 \<Rightarrow> u64 \<Rightarrow> RootPortState \<Rightarrow> 'h xhci \<Rightarrow> bool \<times> 'h xhci" where
  "stage_record p gen st s =
     (case find_record p s of
        None \<Rightarrow> (True, s)
      | Some r \<Rightarrow> if generation_matches r gen then (True, upd_record p (\<lambda>r. mark_stage r st) s) else (False, s))"

definition finish_port :: "'h xhci_env \<Rightarrow> nat \<Rightarrow> u8 \<Rightarrow> u64 \<Rightarrow> (InitError + RootDevice) \<Rightarrow> 'h xhci \<Rightarrow> 'h xhci option" where
  "finish_port e register p gen r s =
     (case r of
        Inl _ \<Rightarrow> Some (fail_record p s)
      | Inr d \<Rightarrow>
          do { (cur, s) \<leftarrow> port_is_current e p gen s;
               if cur then Some (add_device d p s)
               else do { (ok, s) \<leftarrow> disable_slot e register (slot_of d) s;
                         if ok then do { s \<leftarrow> clear_dcbaa e (slot_of d) s; drop_buffers e (device_buffers d) s }
                         else Some (push_device d s) } })"

definition enumerate_port :: "'h xhci_env \<Rightarrow> nat \<Rightarrow> u8 \<Rightarrow> u64 \<Rightarrow> 'h xhci \<Rightarrow> 'h xhci option" where
  "enumerate_port e register p gen s =
     do { offset \<leftarrow> port_offset s p;
          (sc, s) \<leftarrow> read32 e register offset s;
          if sc AND PORTSC_CCS = 0 then observe_port e register p s
          else if speed_of sc \<ge> 4 then Some (fail_record p s)
          else
            let (go, s) = stage_record p gen Resetting s in
            if \<not> go then Some s
            else do { (ok, s) \<leftarrow> reset_port e register offset s;
                      if \<not> ok then Some (fail_record p s)
                      else do { (sc, s) \<leftarrow> read32 e register offset s;
                                if sc AND PORTSC_CCS = 0 then observe_port e register p s
                                else
                                  let (go, s) = stage_record p gen Enumerating s in
                                  if \<not> go then Some s
                                  else do { (r, s) \<leftarrow> address_port e register p (speed_of sc) gen s;
                                            finish_port e register p gen r s } } } }"

definition disconnect_record :: "u8 \<Rightarrow> u64 \<Rightarrow> 'h xhci \<Rightarrow> 'h xhci" where
  "disconnect_record p gen = upd_ctl (\<lambda>c. c\<lparr>root_ports :=
     update_first (\<lambda>r. port r = p \<and> generation_matches r gen) (\<lambda>r. mark_stage r Disconnected) (root_ports c)\<rparr>)"

definition offline_disk :: "RootDevice \<Rightarrow> 'h xhci \<Rightarrow> 'h xhci" where
  "offline_disk d s =
     (case d_kind d of
        MscKind m \<Rightarrow> (case usb_id m of Some i \<Rightarrow> s\<lparr>usb_disks := usb_offline (usb_disks s) i\<rparr> | None \<Rightarrow> s)
      | HidKind _ \<Rightarrow> s)"

definition remove_at :: "nat \<Rightarrow> 'a list \<Rightarrow> 'a list" where
  "remove_at i xs = take i xs @ drop (i + 1) xs"

definition remove_port :: "'h xhci_env \<Rightarrow> nat \<Rightarrow> u8 \<Rightarrow> u64 \<Rightarrow> 'h xhci \<Rightarrow> 'h xhci option" where
  "remove_port e register p gen s =
     (case position (\<lambda>d. d_port d = p) (root_devices (ctl s)) of
        None \<Rightarrow> Some (disconnect_record p gen s)
      | Some k \<Rightarrow>
          do { let d = root_devices (ctl s) ! k;
               let s = offline_disk d s;
               (ok, s) \<leftarrow> disable_slot e register (slot_of d) s;
               if \<not> ok then Some s
               else do { s \<leftarrow> clear_dcbaa e (slot_of d) s;
                         s \<leftarrow> drop_buffers e (device_buffers (root_devices (ctl s) ! k))
                                (upd_ctl (\<lambda>c. c\<lparr>root_devices := remove_at k (root_devices c)\<rparr>) s);
                         Some (disconnect_record p gen s) } })"

definition ROOT_PORT_WORK_BUDGET :: nat where "ROOT_PORT_WORK_BUDGET = 2"
definition ROOT_PORT_RESCAN_INTERVAL :: u64 where "ROOT_PORT_RESCAN_INTERVAL = 256"
definition POLL_EVENT_BUDGET :: nat where "POLL_EVENT_BUDGET = 32"

definition port_work :: "u64 \<Rightarrow> PortRecord \<Rightarrow> (u8 \<times> u64 \<times> bool) option" where
  "port_work now r =
     (case pstate r of
        Removing \<Rightarrow> Some (port r, generation r, False)
      | Debouncing t \<Rightarrow> if t \<le> now then Some (port r, generation r, True) else None
      | Failed _ _ \<Rightarrow> if retry_due r now then Some (port r, generation r, True) else None
      | _ \<Rightarrow> None)"

fun find_map :: "('a \<Rightarrow> 'b option) \<Rightarrow> 'a list \<Rightarrow> 'b option" where
  "find_map f [] = None"
| "find_map f (x # xs) = (case f x of Some y \<Rightarrow> Some y | None \<Rightarrow> find_map f xs)"

primrec root_port_work :: "'h xhci_env \<Rightarrow> nat \<Rightarrow> nat \<Rightarrow> 'h xhci \<Rightarrow> 'h xhci option" where
  "root_port_work e register 0 s = Some s"
| "root_port_work e register (Suc n) s =
     (case find_map (port_work (poll_ticks (ctl s))) (root_ports (ctl s)) of
        None \<Rightarrow> Some s
      | Some (p, gen, connect) \<Rightarrow>
          do { s \<leftarrow> (if \<not> connect then remove_port e register p gen s else enumerate_port e register p gen s);
               root_port_work e register n s })"

definition service_root_ports :: "'h xhci_env \<Rightarrow> nat \<Rightarrow> 'h xhci \<Rightarrow> 'h xhci option" where
  "service_root_ports e register s =
     do { s \<leftarrow> (if poll_ticks (ctl s) mod ROOT_PORT_RESCAN_INTERVAL = 0
                then for_each (observe_port e register) (map port (root_ports (ctl s))) s else Some s);
          root_port_work e register ROOT_PORT_WORK_BUDGET s }"


section \<open>The polling loop\<close>

text \<open>The generation of the device's slot, when its port is active; the first device with the slot counts.\<close>

definition slot_generation :: "u8 \<Rightarrow> 'h xhci \<Rightarrow> u64 option" where
  "slot_generation sl s =
     (case List.find (\<lambda>d. slot_of d = sl) (root_devices (ctl s)) of
        None \<Rightarrow> None
      | Some d \<Rightarrow> find_map (\<lambda>r. if port r = d_port d \<and> pstate r = Active then Some (generation r) else None) (root_ports (ctl s)))"

definition is_hid_endpoint :: "u8 \<Rightarrow> DeviceKind \<Rightarrow> bool" where
  "is_hid_endpoint ep k = (case k of HidKind h \<Rightarrow> endpoint_id (h_endpoint_address (hid_endpoint h)) = ep | MscKind _ \<Rightarrow> False)"

definition hid_target :: "u8 \<Rightarrow> u8 \<Rightarrow> 'h xhci \<Rightarrow> nat option" where
  "hid_target sl ep s =
     (let gen = slot_generation sl s in
      position (\<lambda>d. slot_of d = sl \<and> gen = Some (d_generation d) \<and> is_hid_endpoint ep (d_kind d)) (root_devices (ctl s)))"

definition submit_report :: "HidInput \<Rightarrow> bytes \<Rightarrow> 'h xhci \<Rightarrow> HidInput \<times> 'h xhci" where
  "submit_report i rep s =
     (case i of
        Keyboard st \<Rightarrow> (let (st, codes) = for_each_scancode st rep in
          (Keyboard st, s\<lparr>submitted_scancodes := submitted_scancodes s @ codes\<rparr>))
      | Mouse st \<Rightarrow> (let (st, evs) = for_each_event st rep in
          (Mouse st, s\<lparr>submitted_events := submitted_events s @ evs\<rparr>)))"

definition hid_event :: "'h xhci_env \<Rightarrow> nat \<Rightarrow> Trb \<Rightarrow> u8 \<Rightarrow> nat \<Rightarrow> 'h xhci \<Rightarrow> 'h xhci option" where
  "hid_event e register event sl k s =
     (let d = root_devices (ctl s) ! k in
      case d_kind d of
        MscKind _ \<Rightarrow> Some s
      | HidKind h \<Rightarrow>
          do { let code = from_status (status event);
               let residual = unat (status event AND 0x00ffffff);
               let max_packet = unat (h_max_packet_size (hid_endpoint h));
               (h, s) \<leftarrow> (if (code = Success \<or> code = ShortPacket) \<and> residual \<le> max_packet then
                          do { (rep, s) \<leftarrow> load e (report h) 0 (max_packet - residual) s;
                               let (i, s) = submit_report (hid_input h) rep s;
                               Some (h\<lparr>hid_input := i\<rparr>, s) }
                        else Some (h, s));
               (h, s) \<leftarrow> queue_interrupt_in e register (doorbell (ctl s)) sl h s;
               Some (set_device k (d\<lparr>d_kind := HidKind h\<rparr>) s) })"

definition poll_event :: "'h xhci_env \<Rightarrow> nat \<Rightarrow> Trb \<Rightarrow> 'h xhci \<Rightarrow> 'h xhci option" where
  "poll_event e register event s =
     do { s \<leftarrow> acknowledge_event e register s;
          case port_status_change_event event of
            Some p \<Rightarrow> handle_port_status_change e register p s
          | None \<Rightarrow>
              if control event AND TRB_TYPE_MASK \<noteq> TRB_TYPE_TRANSFER_EVENT then Some s
              else
                let sl = ucast (drop_bit 24 (control event)); ep = ucast (drop_bit 16 (control event) AND 0x1f) in
                (case hid_target sl ep s of None \<Rightarrow> Some s | Some k \<Rightarrow> hid_event e register event sl k s) }"

primrec poll_events :: "'h xhci_env \<Rightarrow> nat \<Rightarrow> nat \<Rightarrow> 'h xhci \<Rightarrow> 'h xhci option" where
  "poll_events e register 0 s = Some s"
| "poll_events e register (Suc n) s =
     do { (ev, s) \<leftarrow> next_event e s;
          case ev of
            None \<Rightarrow> Some s
          | Some event \<Rightarrow> do { s \<leftarrow> poll_event e register event s; poll_events e register n s } }"

definition take_interrupt :: "'h xhci \<Rightarrow> 'h xhci" where
  "take_interrupt = upd_ctl (\<lambda>c.
     if interrupt_pending c then c\<lparr>interrupt_pending := False, logged_interrupt_count := interrupt_count c\<rparr> else c)"

definition poll :: "'h xhci_env \<Rightarrow> nat \<Rightarrow> 'h xhci \<Rightarrow> 'h xhci option" where
  "poll e budget s =
     (if \<not> healthy (ctl s) then Some s
      else
        do { let register = mm_virtual_address (mapping (ctl s));
             let s = take_interrupt (upd_ctl (\<lambda>c. c\<lparr>poll_ticks := poll_ticks c + 1\<rparr>) s);
             s \<leftarrow> poll_events e register budget s;
             service_root_ports e register s })"

section \<open>Bringing a controller up\<close>

primrec supported_protocols_loop :: "'h xhci_env \<Rightarrow> nat \<Rightarrow> nat \<Rightarrow> nat \<Rightarrow> 'h xhci \<Rightarrow> (SupportedProtocol list \<times> 'h xhci) option" where
  "supported_protocols_loop e register 0 offset s = Some ([], s)"
| "supported_protocols_loop e register (Suc n) offset s =
     (if offset = 0 then Some ([], s)
      else
        do { (header, s) \<leftarrow> read32 e register offset s;
             (found, s) \<leftarrow> (if header AND XECAP_ID_MASK = 2
                 then do { (info, s) \<leftarrow> read32 e register (offset + 8) s;
                           Some (case supported_protocol header info of Some pr \<Rightarrow> [pr] | None \<Rightarrow> [], s) }
                 else Some ([], s));
             let nxt = unat (drop_bit XECAP_NEXT_SHIFT (header AND XECAP_NEXT_MASK)) * 4;
             if nxt = 0 \<or> nxt = offset then Some (found, s)
             else do { (rest, s) \<leftarrow> supported_protocols_loop e register n (saturating_add offset nxt) s;
                       Some (found @ rest, s) } })"

definition supported_protocols :: "'h xhci_env \<Rightarrow> nat \<Rightarrow> 'h xhci \<Rightarrow> (SupportedProtocol list \<times> 'h xhci) option" where
  "supported_protocols e register s =
     do { (hcc1, s) \<leftarrow> read32 e register HCCPARAMS1 s;
          supported_protocols_loop e register 256
            (unat (drop_bit HCCPARAMS1_XECP_SHIFT (hcc1 AND HCCPARAMS1_XECP_MASK)) * 4) s }"

definition port_range :: "SupportedProtocol \<Rightarrow> u8 list" where
  "port_range pr = map of_nat [unat (port_start pr)..<unat (wsat_add (port_start pr) (port_count pr))]"

definition enumerate_at_boot :: "'h xhci_env \<Rightarrow> nat \<Rightarrow> u8 \<Rightarrow> 'h xhci \<Rightarrow> 'h xhci option" where
  "enumerate_at_boot e register p s =
     (if \<exists>d\<in>set (root_devices (ctl s)). d_port d = p then Some s
      else
        do { offset \<leftarrow> port_offset s p;
             (sc, s) \<leftarrow> read32 e register offset s;
             let s = upd_record p (\<lambda>r. mark_stage (r\<lparr>portsc := sc AND NOT PORTSC_CHANGE_MASK\<rparr>) Enumerating) s;
             if sc AND PORTSC_CCS = 0 then Some (upd_record p (\<lambda>r. mark_stage r Disconnected) s)
             else if speed_of sc \<ge> 4 then Some s
             else do { (ok, s) \<leftarrow> reset_port e register offset s;
                       if \<not> ok then Some s
                       else do { (sc, s) \<leftarrow> read32 e register offset s;
                                 let gen = (case find_record p s of Some r \<Rightarrow> generation r | None \<Rightarrow> 0);
                                 (r, s) \<leftarrow> address_port e register p (speed_of sc) gen s;
                                 case r of
                                   Inl _ \<Rightarrow> Some (upd_record p (\<lambda>r. mark_failed r 0) s)
                                 | Inr d \<Rightarrow> do { (_, s) \<leftarrow> load e (device_descriptor d) 0 18 s;
                                                Some (add_device d p s) } } } })"

definition enumerate_root_ports :: "'h xhci_env \<Rightarrow> nat \<Rightarrow> 'h xhci \<Rightarrow> 'h xhci option" where
  "enumerate_root_ports e register s =
     do { (prs, s) \<leftarrow> supported_protocols e register s;
          (prs, s) \<leftarrow> (if prs = [] then
                do { (hcs1, s) \<leftarrow> read32 e register HCSPARAMS1 s;
                     let n = ucast (drop_bit 24 hcs1);
                     Some (if n \<noteq> 0 then [\<lparr>major = 2, minor = 0, port_start = 1, port_count = n, usb2 = True\<rparr>] else [], s) }
              else Some (prs, s));
          let s = upd_ctl (\<lambda>c. c\<lparr>protocols := prs,
            root_ports := concat (map (\<lambda>pr. map (\<lambda>p. port_new p pr 0) (port_range pr)) (filter usb2 prs))\<rparr>) s;
          for_each (\<lambda>pr s. if \<not> usb2 pr then Some s else for_each (enumerate_at_boot e register) (port_range pr) s) prs s }"

text \<open>\<^verbatim>\<open>ControllerResources::new\<close>: the buffers of the controller, and what it reads of them.\<close>

primrec scratchpad_pages ::
  "'h xhci_env \<Rightarrow> dma_buffer \<Rightarrow> nat \<Rightarrow> nat \<Rightarrow> (dma_buffer list \<Rightarrow> 'h world \<Rightarrow> ((InitError + 'a) \<times> 'h world) option) \<Rightarrow>
   'h world \<Rightarrow> ((InitError + 'a) \<times> 'h world) option" where
  "scratchpad_pages e arr index 0 rest w = rest [] w"
| "scratchpad_pages e arr index (Suc n) rest w =
     owned_buffer e 4096 4096 (\<lambda>page w.
       do { w \<leftarrow> store64 e arr (index * 8) (of_nat (physical_address page)) w;
            scratchpad_pages e arr (index + 1) n (\<lambda>pages. rest (page # pages)) w }) w"

definition scratch_count :: "u32 \<Rightarrow> nat" where
  "scratch_count hcs2 = unat (push_bit 5 (drop_bit 27 hcs2 AND 0x1f) OR (drop_bit 21 hcs2 AND 0x1f))"

definition finish_new ::
  "'h xhci_env \<Rightarrow> mmio_mapping \<Rightarrow> dma_buffer \<Rightarrow> dma_buffer option \<Rightarrow> dma_buffer list \<Rightarrow> 'h world \<Rightarrow>
   ((InitError + ControllerResources) \<times> 'h world) option" where
  "finish_new e m dcb arr pads =
     owned_buffer e 4096 64 (\<lambda>cmd. owned_buffer e (EVENT_RING_ENTRIES * 16) 64 (\<lambda>evs. owned_buffer e 16 64 (\<lambda>seg w.
       do { w \<leftarrow> store_trb e cmd (COMMAND_RING_ENTRIES - 1) (link_to cmd True) w;
            w \<leftarrow> store e seg 0 (u64_to_le (of_nat (physical_address evs)) @ u32_to_le (of_nat EVENT_RING_ENTRIES) @ u32_to_le 0) w;
            w \<leftarrow> (case arr of Some a \<Rightarrow> store64 e dcb 0 (of_nat (physical_address a)) w | None \<Rightarrow> Some w);
            Some (Inr \<lparr>mapping = m, dcbaa = dcb, scratchpad_array = arr, scratchpads = pads, command_ring = cmd,
              event_buffer = evs, erst = seg, event_consumer = 0, event_cycle = True, event_count = 0, command_producer = 0,
              command_cycle = True, runtime = 0, doorbell = 0, op_base = 0, context_64 = False, root_devices = [],
              root_ports = [], protocols = [], interrupt_pending = False, interrupt_count = 0, msi_vector = None,
              logged_interrupt_count = 0, poll_ticks = 0, healthy = True\<rparr>, w) })))"

definition controller_new :: "'h xhci_env \<Rightarrow> mmio_mapping \<Rightarrow> u32 \<Rightarrow> 'h world \<Rightarrow> ((InitError + ControllerResources) \<times> 'h world) option" where
  "controller_new e m hcs2 =
     (let n = scratch_count hcs2 in
      owned_buffer e (256 * 8) 64 (\<lambda>dcb.
        if n = 0 then finish_new e m dcb None []
        else owned_buffer e (n * 8) 64 (\<lambda>arr. scratchpad_pages e arr 0 n (finish_new e m dcb (Some arr)))))"

definition owned :: "ControllerResources \<Rightarrow> dma_buffer list" where
  "owned c = [dcbaa c] @ (case scratchpad_array c of Some a \<Rightarrow> [a] | None \<Rightarrow> []) @ scratchpads c @
     [command_ring c, event_buffer c, erst c] @ concat (map device_buffers (root_devices c))"

definition program_registers :: "'h xhci_env \<Rightarrow> nat \<Rightarrow> nat \<Rightarrow> nat \<Rightarrow> u8 \<Rightarrow> 'h xhci \<Rightarrow> 'h xhci option" where
  "program_registers e base op rt max_slots s =
     do { s \<leftarrow> write64 e base (op + DCBAAP) (of_nat (physical_address (dcbaa (ctl s)))) s;
          s \<leftarrow> write64 e base (op + CRCR) (of_nat (physical_address (command_ring (ctl s))) OR 1) s;
          s \<leftarrow> write32 e base (op + CONFIG) (ucast max_slots) s;
          s \<leftarrow> write32 e base (rt + RT_INTR0 + ERSTSZ) 1 s;
          s \<leftarrow> write64 e base (rt + RT_INTR0 + ERSTBA) (of_nat (physical_address (erst (ctl s)))) s;
          s \<leftarrow> write64 e base (rt + RT_INTR0 + ERDP) (of_nat (physical_address (event_buffer (ctl s)))) s;
          s \<leftarrow> write32 e base (rt + RT_INTR0 + IMAN) (IMAN_IP OR IMAN_IE) s;
          (v, s) \<leftarrow> read32 e base (op + USBCMD) s;
          write32 e base (op + USBCMD) (v OR USBCMD_RUN) s }"

text \<open>On an error the controller is dropped, and its buffers with it.\<close>

definition start_controller :: "'h xhci_env \<Rightarrow> nat \<Rightarrow> nat \<Rightarrow> u8 \<Rightarrow> bool \<Rightarrow> 'h xhci \<Rightarrow> ((InitError + unit) \<times> 'h xhci) option" where
  "start_controller e base cap_len max_slots ctx64 s =
     do { (rt, s) \<leftarrow> read32 e base RTSOFF s;
          (db, s) \<leftarrow> read32 e base DBOFF s;
          let rt = unat (rt AND NOT 0x1f);
          let db = unat (db AND NOT 3);
          s \<leftarrow> program_registers e base cap_len rt max_slots s;
          (ok, s) \<leftarrow> wait_for POLL_LIMIT (\<lambda>s. do { (v, s) \<leftarrow> read32 e base (cap_len + USBSTS) s; Some (v AND USBSTS_HCHALTED = 0, s) }) s;
          if \<not> ok then do { s \<leftarrow> drop_buffers e (owned (ctl s)) s; Some (Inl (Timeout ''run''), s) }
          else do { let s = upd_ctl (\<lambda>c. c\<lparr>runtime := rt, doorbell := db, op_base := cap_len, context_64 := ctx64\<rparr>) s;
                    (r, s) \<leftarrow> submit_command e base \<lparr>parameter = 0, status = 0, control = TRB_TYPE_NOOP_COMMAND\<rparr> s;
                    case r of
                      Inl err \<Rightarrow> do { s \<leftarrow> drop_buffers e (owned (ctl s)) s; Some (Inl err, s) }
                    | Inr _ \<Rightarrow> do { s \<leftarrow> enumerate_root_ports e base s; Some (Inr (), s) } } }"


end
