(* ===== verification/XhciSafe.thy ===== *)
theory XhciSafe
  imports Controller
begin

text \<open>
  Safety of the xHCI driver against its hardware. The predicate \<open>own\<close> is the invariant of the driver together with the
  ownership of its buffers: all of them are live, they share no page with each other or with free
  memory, the positions in the rings are inside the rings. Every operation is shown to return, for
  every behaviour of the hardware, in a state with the invariant; since an access outside a buffer
  and a panic are no result, there is none.

  The rules are in continuation style: \<open>returns m Q\<close> says that \<open>m\<close> has a result and that \<open>Q\<close> holds of it, and
  the rule of an operation replaces the fact about the state before it by one about the state after it.
\<close>

section \<open>Results\<close>

definition returns :: "'a option \<Rightarrow> ('a \<Rightarrow> bool) \<Rightarrow> bool" where
  "returns m Q \<longleftrightarrow> (\<exists>x. m = Some x \<and> Q x)"

lemma returns_Some [simp]: "returns (Some x) Q \<longleftrightarrow> Q x"
  by (simp add: returns_def)

lemma returns_SomeI: "Q x \<Longrightarrow> returns (Some x) Q"
  by simp

lemma returns_bind [simp]: "returns (Option.bind m f) Q \<longleftrightarrow> returns m (\<lambda>x. returns (f x) Q)"
  by (cases m) (auto simp: returns_def)

lemma returns_bindI: "returns m (\<lambda>x. returns (f x) Q) \<Longrightarrow> returns (Option.bind m f) Q"
  by simp

lemma returns_mono: "\<lbrakk>returns m Q; \<And>x. Q x \<Longrightarrow> R x\<rbrakk> \<Longrightarrow> returns m R"
  by (auto simp: returns_def)

lemma returns_letI: "returns (f a) Q \<Longrightarrow> returns (let x = a in f x) Q"
  by simp

lemma returns_prodI: "returns (f a b) Q \<Longrightarrow> returns (case (a, b) of (x, y) \<Rightarrow> f x y) Q"
  by simp

lemma returns_prodI2: "returns (f a b s) Q \<Longrightarrow> returns ((case (a, b) of (x, y) \<Rightarrow> f x y) s) Q"
  by simp

lemma returns_splitI2: "(\<And>a b. p = (a, b) \<Longrightarrow> returns (f a b s) Q) \<Longrightarrow> returns ((case p of (x, y) \<Rightarrow> f x y) s) Q"
  by (cases p) simp

lemma returns_splitI: "(\<And>a b. p = (a, b) \<Longrightarrow> returns (f a b) Q) \<Longrightarrow> returns (case p of (x, y) \<Rightarrow> f x y) Q"
  by (cases p) simp

lemma returns_ifI: "\<lbrakk>c \<Longrightarrow> returns a Q; \<not> c \<Longrightarrow> returns b Q\<rbrakk> \<Longrightarrow> returns (if c then a else b) Q"
  by simp

lemma returns_optionI:
  "\<lbrakk>x = None \<Longrightarrow> returns a Q; \<And>y. x = Some y \<Longrightarrow> returns (b y) Q\<rbrakk> \<Longrightarrow> returns (case x of None \<Rightarrow> a | Some y \<Rightarrow> b y) Q"
  by (cases x) simp_all

lemma returns_sumI:
  "\<lbrakk>\<And>y. x = Inl y \<Longrightarrow> returns (a y) Q; \<And>y. x = Inr y \<Longrightarrow> returns (b y) Q\<rbrakk> \<Longrightarrow> returns (case x of Inl y \<Rightarrow> a y | Inr y \<Rightarrow> b y) Q"
  by (cases x) simp_all

lemma returns_attempt:
  "returns (attempt m f) Q \<longleftrightarrow> returns m (\<lambda>(r, s). case r of Inl err \<Rightarrow> Q (Inl err, s) | Inr x \<Rightarrow> returns (f x s) Q)"
  unfolding attempt_def by (cases m) (auto simp: returns_def split: sum.splits)

lemmas returns_attemptI = returns_attempt [THEN iffD2]

lemmas returns_step = returns_bindI returns_letI returns_prodI returns_prodI2 returns_ifI returns_optionI returns_sumI returns_splitI returns_splitI2

section \<open>Ownership of buffers\<close>

lemma sorted_wrt_mset:
  assumes "symp R" and "mset xs = mset ys" and "sorted_wrt R xs"
  shows "sorted_wrt R ys"
  using assms(2,3)
proof (induction xs arbitrary: ys)
  case (Cons x xs)
  have "x \<in> set ys" using Cons.prems(1) mset_eq_setD by fastforce
  then obtain as bs where ys: "ys = as @ x # bs" by (auto simp: in_set_conv_decomp)
  have m: "mset xs = mset (as @ bs)" using Cons.prems(1) ys by simp
  then have "sorted_wrt R (as @ bs)" using Cons by simp
  moreover have "\<forall>y\<in>set (as @ bs). R x y" using Cons.prems(2) mset_eq_setD [OF m] by simp
  ultimately show ?case using assms(1) unfolding ys by (auto simp: sorted_wrt_append dest: sympD)
qed simp

lemma live_inv_mset: "\<lbrakk>live_inv bo F (m, bs); mset bs = mset bs'\<rbrakk> \<Longrightarrow> live_inv bo F (m, bs')"
proof -
  assume l: "live_inv bo F (m, bs)" and m: "mset bs = mset bs'"
  have "symp (\<lambda>b c. buffer_pages b \<inter> buffer_pages c = {})" by (rule sympI) blast
  with l sorted_wrt_mset [OF _ m] mset_eq_setD [OF m] show ?thesis unfolding live_inv_def by simp
qed

lemma live_inv_ram [simp]: "live_inv bo F (m\<lparr>ram := r\<rparr>, bs) \<longleftrightarrow> live_inv bo F (m, bs)"
  by (simp add: live_inv_def machine_ok_def)

section \<open>The invariant\<close>

definition hid_ok :: "HidResources \<Rightarrow> bool" where
  "hid_ok h \<longleftrightarrow> hid_producer h < TRANSFER_RING_ENTRIES \<and> 4096 \<le> dma_len (interrupt_ring h) \<and>
     unat (h_max_packet_size (hid_endpoint h)) \<le> dma_len (report h)"

definition disk_ok :: "MscResources \<Rightarrow> bool" where
  "disk_ok m \<longleftrightarrow> in_producer m < TRANSFER_RING_ENTRIES \<and> out_producer m < TRANSFER_RING_ENTRIES \<and>
     4096 \<le> dma_len (bulk_in_ring m) \<and> 4096 \<le> dma_len (bulk_out_ring m) \<and> CBW_LEN \<le> dma_len (cbw_buffer m) \<and>
     CSW_LEN \<le> dma_len (csw_buffer m) \<and> MAX_READ_BYTES \<le> dma_len (data_buffer m)"

definition device_ok :: "RootDevice \<Rightarrow> bool" where
  "device_ok d \<longleftrightarrow> 18 \<le> dma_len (device_descriptor d) \<and> (case d_kind d of HidKind h \<Rightarrow> hid_ok h | MscKind m \<Rightarrow> disk_ok m)"

definition ctl_inv :: "ControllerResources \<Rightarrow> bool" where
  "ctl_inv c \<longleftrightarrow> event_consumer c < EVENT_RING_ENTRIES \<and> command_producer c < TRANSFER_RING_ENTRIES \<and>
     2048 \<le> dma_len (dcbaa c) \<and> 4096 \<le> dma_len (command_ring c) \<and> 512 \<le> dma_len (event_buffer c) \<and>
     (\<forall>r\<in>set (root_ports c). port r \<noteq> 0) \<and> (\<forall>d\<in>set (root_devices c). device_ok d)"

definition own :: "bit_ops \<Rightarrow> nat set \<Rightarrow> bool \<Rightarrow> dma_buffer list \<Rightarrow> 'h xhci \<Rightarrow> bool" where
  "own bo F w bs s \<longleftrightarrow> ctl_inv (ctl s) \<and> context_64 (ctl s) = w \<and> (\<exists>L. live_inv bo F (mach s, bs @ owned (ctl s) @ L))"

text \<open>
  \<open>F\<close> is the set of pages that were free before the driver started, \<open>w\<close> the width of the contexts, \<open>bs\<close> the buffers
  that a function under way holds besides those of the controller; other buffers may be live as well.
\<close>

text \<open>What register and memory accesses change, and what waiting for the hardware changes.\<close>

definition hw_part :: "('h, 'z) world_scheme \<Rightarrow> ('h, 'z) world_scheme" where
  "hw_part s = s\<lparr>hw := undefined, mach := (mach s)\<lparr>ram := undefined\<rparr>\<rparr>"

definition hw_only :: "('h, 'z) world_scheme \<Rightarrow> ('h, 'z) world_scheme \<Rightarrow> bool" where
  "hw_only s s' \<longleftrightarrow> hw_part s' = hw_part s"

definition wait_part :: "'h xhci \<Rightarrow> 'h xhci" where
  "wait_part s = hw_part (s\<lparr>ctl := (ctl s)\<lparr>event_consumer := 0, event_cycle := True, event_count := 0, command_producer := 0,
     command_cycle := True, root_ports := [], healthy := True\<rparr>\<rparr>)"

definition quiet :: "'h xhci \<Rightarrow> 'h xhci \<Rightarrow> bool" where
  "quiet s s' \<longleftrightarrow> wait_part s' = wait_part s \<and> map port (root_ports (ctl s')) = map port (root_ports (ctl s))"

lemma hw_only_refl [simp]: "hw_only s s"
  by (simp add: hw_only_def)

lemma hw_only_trans: "\<lbrakk>hw_only a b; hw_only b c\<rbrakk> \<Longrightarrow> hw_only a c"
  by (simp add: hw_only_def)

lemma quiet_refl [simp]: "quiet s s"
  by (simp add: quiet_def)

lemma quiet_trans: "\<lbrakk>quiet a b; quiet b c\<rbrakk> \<Longrightarrow> quiet a c"
  by (simp add: quiet_def)

lemma hw_only_machine:
  assumes "hw_only s s'"
  shows "mach s' = (mach s)\<lparr>ram := ram (mach s')\<rparr>" "usb_disks s' = usb_disks s"
    "submitted_scancodes s' = submitted_scancodes s" "submitted_events s' = submitted_events s"
proof -
  have e: "hw_part s' = hw_part s" using assms by (simp add: hw_only_def)
  from arg_cong [OF e, of mach] show "mach s' = (mach s)\<lparr>ram := ram (mach s')\<rparr>"
    by (cases "mach s'"; cases "mach s") (simp add: hw_part_def)
  show "usb_disks s' = usb_disks s" using arg_cong [OF e, of usb_disks] by (simp add: hw_part_def)
  show "submitted_scancodes s' = submitted_scancodes s" using arg_cong [OF e, of submitted_scancodes] by (simp add: hw_part_def)
  show "submitted_events s' = submitted_events s" using arg_cong [OF e, of submitted_events] by (simp add: hw_part_def)
qed

lemma hw_only_ctl: "hw_only s s' \<Longrightarrow> ctl s' = ctl s"
proof -
  assume "hw_only s s'"
  then have "ctl (hw_part s') = ctl (hw_part s)" by (simp add: hw_only_def)
  then show ?thesis by (simp add: hw_part_def)
qed

lemma hw_only_quiet: "hw_only s s' \<Longrightarrow> quiet s s'"
  using hw_only_ctl [of s s'] unfolding quiet_def wait_part_def hw_only_def hw_part_def
  by (cases s; cases s') simp

text \<open>An update of the parts that waiting may change.\<close>

lemma quiet_upd:
  assumes "\<And>c. (f c)\<lparr>event_consumer := 0, event_cycle := True, event_count := 0, command_producer := 0,
     command_cycle := True, root_ports := [], healthy := True\<rparr> = c\<lparr>event_consumer := 0, event_cycle := True, event_count := 0,
     command_producer := 0, command_cycle := True, root_ports := [], healthy := True\<rparr>"
    and "map port (root_ports (f (ctl s))) = map port (root_ports (ctl s))"
  shows "quiet s (upd_ctl f s)"
  using assms by (simp add: quiet_def upd_ctl_def wait_part_def)

lemma quiet_fields:
  assumes "quiet s s'"
  shows "usb_disks s' = usb_disks s" "submitted_scancodes s' = submitted_scancodes s"
    "submitted_events s' = submitted_events s" "mach s' = (mach s)\<lparr>ram := ram (mach s')\<rparr>"
    "root_devices (ctl s') = root_devices (ctl s)" "owned (ctl s') = owned (ctl s)" "poll_ticks (ctl s') = poll_ticks (ctl s)"
    "context_64 (ctl s') = context_64 (ctl s)" "mapping (ctl s') = mapping (ctl s)" "op_base (ctl s') = op_base (ctl s)"
    "dcbaa (ctl s') = dcbaa (ctl s)" "event_buffer (ctl s') = event_buffer (ctl s)" "command_ring (ctl s') = command_ring (ctl s)"
    "map port (root_ports (ctl s')) = map port (root_ports (ctl s))" "doorbell (ctl s') = doorbell (ctl s)"
proof -
  have e: "wait_part s' = wait_part s" and p: "map port (root_ports (ctl s')) = map port (root_ports (ctl s))"
    using assms by (simp_all add: quiet_def)
  have h: "hw_only (s\<lparr>ctl := c\<rparr>) (s'\<lparr>ctl := c\<rparr>)" for c
    using e unfolding hw_only_def wait_part_def hw_part_def by (cases s; cases s') simp
  note c = arg_cong [OF e, of ctl, unfolded wait_part_def hw_part_def, simplified]
  show "usb_disks s' = usb_disks s" "submitted_scancodes s' = submitted_scancodes s"
    "submitted_events s' = submitted_events s" "mach s' = (mach s)\<lparr>ram := ram (mach s')\<rparr>"
    using hw_only_machine [OF h] by simp_all
  show "root_devices (ctl s') = root_devices (ctl s)" using arg_cong [OF c, of root_devices] by simp
  show "poll_ticks (ctl s') = poll_ticks (ctl s)" using arg_cong [OF c, of poll_ticks] by simp
  show "context_64 (ctl s') = context_64 (ctl s)" using arg_cong [OF c, of context_64] by simp
  show "mapping (ctl s') = mapping (ctl s)" using arg_cong [OF c, of mapping] by simp
  show "op_base (ctl s') = op_base (ctl s)" using arg_cong [OF c, of op_base] by simp
  show "dcbaa (ctl s') = dcbaa (ctl s)" using arg_cong [OF c, of dcbaa] by simp
  show "event_buffer (ctl s') = event_buffer (ctl s)" using arg_cong [OF c, of event_buffer] by simp
  show "command_ring (ctl s') = command_ring (ctl s)" using arg_cong [OF c, of command_ring] by simp
  show "doorbell (ctl s') = doorbell (ctl s)" using arg_cong [OF c, of doorbell] by simp
  show "owned (ctl s') = owned (ctl s)" using arg_cong [OF c, of owned] by (simp add: owned_def)
  show "map port (root_ports (ctl s')) = map port (root_ports (ctl s))" by (rule p)
qed

definition calm :: "bit_ops \<Rightarrow> nat set \<Rightarrow> bool \<Rightarrow> dma_buffer list \<Rightarrow> 'h xhci \<Rightarrow> 'h xhci \<Rightarrow> bool" where
  "calm bo F w bs s0 s \<longleftrightarrow> own bo F w bs s \<and> quiet s0 s"

lemma calm_self: "own bo F w bs s \<Longrightarrow> calm bo F w bs s s"
  by (simp add: calm_def)

lemma calm_own: "calm bo F w bs s0 s \<Longrightarrow> own bo F w bs s"
  by (simp add: calm_def)

lemma calm_fields:
  assumes "calm bo F w bs s0 s"
  shows "root_devices (ctl s) = root_devices (ctl s0)" "map port (root_ports (ctl s)) = map port (root_ports (ctl s0))"
    "usb_disks s = usb_disks s0" "poll_ticks (ctl s) = poll_ticks (ctl s0)" "context_64 (ctl s) = w"
    "event_consumer (ctl s) < EVENT_RING_ENTRIES" "command_producer (ctl s) < TRANSFER_RING_ENTRIES"
    "2048 \<le> dma_len (dcbaa (ctl s))" "4096 \<le> dma_len (command_ring (ctl s))" "512 \<le> dma_len (event_buffer (ctl s))"
  using assms quiet_fields [of s0 s] by (simp_all add: calm_def own_def ctl_inv_def)

lemma calm_hw:
  assumes "calm bo F w bs s0 s" and h: "hw_only s s'"
  shows "calm bo F w bs s0 s'"
proof -
  have "live_inv bo F (mach s', X) \<longleftrightarrow> live_inv bo F (mach s, X)" for X
    by (subst hw_only_machine(1) [OF h]) simp
  then show ?thesis using assms quiet_trans [OF _ hw_only_quiet [OF h]] by (simp add: calm_def own_def hw_only_ctl [OF h])
qed

lemma owned_quiet:
  "owned (c\<lparr>event_consumer := a1, event_cycle := a2, event_count := a3, command_producer := a4, command_cycle := a5,
     root_ports := a6, healthy := a7\<rparr>) = owned c"
  by (simp add: owned_def)

lemma calm_upd:
  assumes c: "calm bo F w bs s0 s" and q: "quiet s (upd_ctl f s)" and i: "ctl_inv (f (ctl s))"
  shows "calm bo F w bs s0 (upd_ctl f s)"
proof -
  have "owned (f (ctl s)) = owned (ctl s)" "context_64 (f (ctl s)) = context_64 (ctl s)"
    using quiet_fields(6,8) [OF q] by (simp_all add: upd_ctl_def)
  then show ?thesis using c i quiet_trans [OF _ q] by (auto simp: calm_def own_def) (auto simp: upd_ctl_def)
qed

section \<open>Rules for the access to the hardware\<close>

lemma hw_part_hw [simp]: "hw_part (s\<lparr>hw := h\<rparr>) = hw_part s"
  by (simp add: hw_part_def)

lemma hw_part_ram [simp]: "hw_part (s\<lparr>mach := (mach s)\<lparr>ram := r\<rparr>\<rparr>) = hw_part s"
  by (simp add: hw_part_def)

lemma hw_part_both [simp]: "hw_part (s\<lparr>hw := h, mach := (mach s)\<lparr>ram := r\<rparr>\<rparr>) = hw_part s"
  by (simp add: hw_part_def)

lemma hw_only_sync [simp]: "hw_only s (dma_sync e s)"
  by (simp add: dma_sync_def hw_only_def split: prod.splits)

lemma read32_hw: "(\<And>v s'. hw_only s s' \<Longrightarrow> Q (v, s')) \<Longrightarrow> returns (read32 e b off s) Q"
  by (simp add: read32_def hw_only_def split: prod.splits)

lemma write32_hw: "(\<And>s'. hw_only s s' \<Longrightarrow> Q s') \<Longrightarrow> returns (write32 e b off v s) Q"
  by (simp add: write32_def hw_only_def)

lemma write64_hw: "(\<And>s'. hw_only s s' \<Longrightarrow> Q s') \<Longrightarrow> returns (write64 e b off v s) Q"
  by (simp add: write64_def hw_only_def)

lemma load_hw:
  "\<lbrakk>off + n \<le> dma_len b; \<And>bs s'. hw_only s s' \<Longrightarrow> length bs = n \<Longrightarrow> Q (bs, s')\<rbrakk> \<Longrightarrow> returns (load e b off n s) Q"
  by (simp add: load_def mem_bytes_def Let_def)

lemma store_hw:
  "\<lbrakk>off + length bs \<le> dma_len b; \<And>s'. hw_only s s' \<Longrightarrow> Q s'\<rbrakk> \<Longrightarrow> returns (store e b off bs s) Q"
  using hw_only_sync [of s e] by (simp add: store_def hw_only_def Let_def)

lemma length_trb_bytes [simp]: "length (trb_bytes t) = 16"
  by (simp add: trb_bytes_def u32_to_le_def)

lemma load_trb_hw:
  "\<lbrakk>(i + 1) * 16 \<le> dma_len b; \<And>t s'. hw_only s s' \<Longrightarrow> Q (t, s')\<rbrakk> \<Longrightarrow> returns (load_trb e b i s) Q"
  unfolding load_trb_def by (intro returns_step) (rule load_hw, simp, simp)

lemma store_trb_hw:
  "\<lbrakk>(i + 1) * 16 \<le> dma_len b; \<And>s'. hw_only s s' \<Longrightarrow> Q s'\<rbrakk> \<Longrightarrow> returns (store_trb e b i t s) Q"
  unfolding store_trb_def by (rule store_hw) simp_all

lemma store32_hw: "\<lbrakk>off + 4 \<le> dma_len b; \<And>s'. hw_only s s' \<Longrightarrow> Q s'\<rbrakk> \<Longrightarrow> returns (store32 e b off v s) Q"
  unfolding store32_def by (rule store_hw) (simp_all add: u32_to_le_def)

lemma store64_hw: "\<lbrakk>off + 8 \<le> dma_len b; \<And>s'. hw_only s s' \<Longrightarrow> Q s'\<rbrakk> \<Longrightarrow> returns (store64 e b off v s) Q"
  unfolding store64_def by (rule store_hw) simp_all

lemma load32_hw: "\<lbrakk>off + 4 \<le> dma_len b; \<And>v s'. hw_only s s' \<Longrightarrow> Q (v, s')\<rbrakk> \<Longrightarrow> returns (load32 e b off s) Q"
  unfolding load32_def by (intro returns_step) (rule load_hw, simp, simp)

text \<open>The same for a state of which the invariant is known.\<close>

lemma calm_read32: "\<lbrakk>calm bo F w bs s0 s; \<And>v s'. calm bo F w bs s0 s' \<Longrightarrow> Q (v, s')\<rbrakk> \<Longrightarrow> returns (read32 e b off s) Q"
  by (rule read32_hw) (blast intro: calm_hw)

lemma calm_write32: "\<lbrakk>calm bo F w bs s0 s; \<And>s'. calm bo F w bs s0 s' \<Longrightarrow> Q s'\<rbrakk> \<Longrightarrow> returns (write32 e b off v s) Q"
  by (rule write32_hw) (blast intro: calm_hw)

lemma calm_write64: "\<lbrakk>calm bo F w bs s0 s; \<And>s'. calm bo F w bs s0 s' \<Longrightarrow> Q s'\<rbrakk> \<Longrightarrow> returns (write64 e b off v s) Q"
  by (rule write64_hw) (blast intro: calm_hw)

lemma calm_load:
  "\<lbrakk>calm bo F w bs s0 s; off + n \<le> dma_len b; \<And>d s'. calm bo F w bs s0 s' \<Longrightarrow> length d = n \<Longrightarrow> Q (d, s')\<rbrakk> \<Longrightarrow>
   returns (load e b off n s) Q"
  by (erule load_hw) (blast intro: calm_hw)

lemma calm_store:
  "\<lbrakk>calm bo F w bs s0 s; off + length d \<le> dma_len b; \<And>s'. calm bo F w bs s0 s' \<Longrightarrow> Q s'\<rbrakk> \<Longrightarrow> returns (store e b off d s) Q"
  by (erule store_hw) (blast intro: calm_hw)

lemma calm_load_trb:
  "\<lbrakk>calm bo F w bs s0 s; (i + 1) * 16 \<le> dma_len b; \<And>t s'. calm bo F w bs s0 s' \<Longrightarrow> Q (t, s')\<rbrakk> \<Longrightarrow> returns (load_trb e b i s) Q"
  by (erule load_trb_hw) (blast intro: calm_hw)

lemma calm_store_trb:
  "\<lbrakk>calm bo F w bs s0 s; (i + 1) * 16 \<le> dma_len b; \<And>s'. calm bo F w bs s0 s' \<Longrightarrow> Q s'\<rbrakk> \<Longrightarrow> returns (store_trb e b i t s) Q"
  by (erule store_trb_hw) (blast intro: calm_hw)

lemma calm_store32:
  "\<lbrakk>calm bo F w bs s0 s; off + 4 \<le> dma_len b; \<And>s'. calm bo F w bs s0 s' \<Longrightarrow> Q s'\<rbrakk> \<Longrightarrow> returns (store32 e b off v s) Q"
  by (erule store32_hw) (blast intro: calm_hw)

lemma calm_store64:
  "\<lbrakk>calm bo F w bs s0 s; off + 8 \<le> dma_len b; \<And>s'. calm bo F w bs s0 s' \<Longrightarrow> Q s'\<rbrakk> \<Longrightarrow> returns (store64 e b off v s) Q"
  by (erule store64_hw) (blast intro: calm_hw)

lemma calm_load32:
  "\<lbrakk>calm bo F w bs s0 s; off + 4 \<le> dma_len b; \<And>v s'. calm bo F w bs s0 s' \<Longrightarrow> Q (v, s')\<rbrakk> \<Longrightarrow> returns (load32 e b off s) Q"
  by (erule load32_hw) (blast intro: calm_hw)

lemmas calm_io = calm_read32 calm_write32 calm_write64
lemmas calm_mem = calm_load calm_store calm_load_trb calm_store_trb calm_store32 calm_store64 calm_load32


section \<open>Events, commands and transfers\<close>

lemma map_update_first: "(\<And>x. P x \<Longrightarrow> g (f x) = g x) \<Longrightarrow> map g (update_first P f xs) = map g xs"
  by (induction xs) simp_all

lemma set_update_first: "y \<in> set (update_first P f xs) \<Longrightarrow> y \<in> set xs \<or> (\<exists>x\<in>set xs. P x \<and> y = f x)"
  by (induction xs) (auto split: if_splits)

text \<open>An update of records that keeps their port numbers.\<close>

lemma ctl_inv_records:
  assumes "ctl_inv c" and "\<And>r. port (f r) = port r"
  shows "ctl_inv (c\<lparr>root_ports := update_first P f (root_ports c)\<rparr>)"
  using assms set_update_first [of _ P f "root_ports c"] by (fastforce simp: ctl_inv_def)

lemma calm_records:
  assumes "calm bo F w bs s0 s" and "\<And>r. port (f r) = port r"
  shows "calm bo F w bs s0 (upd_ctl (\<lambda>c. c\<lparr>root_ports := update_first P f (root_ports c)\<rparr>) s)"
proof (rule calm_upd [OF assms(1)])
  show "quiet s (upd_ctl (\<lambda>c. c\<lparr>root_ports := update_first P f (root_ports c)\<rparr>) s)"
    by (rule quiet_upd) (simp_all add: map_update_first assms(2))
  show "ctl_inv ((ctl s)\<lparr>root_ports := update_first P f (root_ports (ctl s))\<rparr>)"
    using assms by (intro ctl_inv_records) (simp_all add: calm_def own_def)
qed

lemma calm_record:
  "\<lbrakk>calm bo F w bs s0 s; \<And>r. port (f r) = port r\<rbrakk> \<Longrightarrow> calm bo F w bs s0 (upd_record p f s)"
  unfolding upd_record_def by (rule calm_records)

lemma port_keepers [simp]:
  "port (fst (observe r v t)) = port r" "port (mark_failed r t) = port r" "port (mark_stage r st) = port r"
  "port (mark_active r) = port r" "port (port_new p pr sc) = p"
  by (simp_all add: observe_def acknowledge_changes_def Let_def mark_failed_def mark_stage_def mark_active_def port_new_def)

lemma calm_note: "calm bo F w bs s0 s \<Longrightarrow> calm bo F w bs s0 (note_portsc p v s)"
  unfolding note_portsc_def by (auto intro: calm_record split: option.split)

lemma calm_acknowledge_port:
  "\<lbrakk>calm bo F w bs s0 s; \<And>v s'. calm bo F w bs s0 s' \<Longrightarrow> Q (v, s')\<rbrakk> \<Longrightarrow> returns (acknowledge_port e register off s) Q"
  unfolding acknowledge_port_def
  by (intro returns_step, erule calm_io, intro returns_step, erule calm_io) (simp_all add: returns_def)

lemma port_offset_ok: "p \<noteq> 0 \<Longrightarrow> \<exists>off. port_offset s p = Some off"
  by (simp add: port_offset_def checked_sub_def Let_def) (simp add: word_le_nat_alt [symmetric] word_coorder.not_eq_extremum Suc_le_eq unat_gt_0)

lemma calm_port_offset: "\<lbrakk>p \<noteq> 0; \<And>off. Q off\<rbrakk> \<Longrightarrow> returns (port_offset s p) Q"
  using port_offset_ok [of p s] by (auto simp: returns_def)

lemma calm_status_change:
  "\<lbrakk>calm bo F w bs s0 s; \<And>s'. calm bo F w bs s0 s' \<Longrightarrow> Q s'\<rbrakk> \<Longrightarrow> returns (handle_port_status_change e register p s) Q"
  unfolding handle_port_status_change_def
  by (rule returns_step calm_port_offset | erule calm_acknowledge_port | (simp add: calm_note; fail))+

lemma calm_observe_port:
  "\<lbrakk>calm bo F w bs s0 s; p \<noteq> 0; \<And>s'. calm bo F w bs s0 s' \<Longrightarrow> Q s'\<rbrakk> \<Longrightarrow> returns (observe_port e register p s) Q"
  unfolding observe_port_def
  by (rule returns_step calm_port_offset | erule calm_acknowledge_port | (simp add: calm_note; fail))+

lemma calm_write_erdp:
  "\<lbrakk>calm bo F w bs s0 s; \<And>s'. calm bo F w bs s0 s' \<Longrightarrow> Q s'\<rbrakk> \<Longrightarrow> returns (write_erdp e register s) Q"
  unfolding write_erdp_def by (rule returns_step | erule calm_io | (simp; fail))+

lemma calm_next_event:
  assumes c: "calm bo F w bs s0 s" and q: "\<And>ev s'. calm bo F w bs s0 s' \<Longrightarrow> Q (ev, s')"
  shows "returns (next_event e s) Q"
proof -
  have "(event_consumer (ctl s) + 1) * 16 \<le> dma_len (event_buffer (ctl s))"
    using calm_fields(6,10) [OF c] by (simp add: EVENT_RING_ENTRIES_def)
  then show ?thesis unfolding next_event_def
    by (intro returns_step) (rule calm_load_trb [OF c], simp_all add: q)
qed

text \<open>Advancing the position in the event ring.\<close>

lemma calm_advance: "calm bo F w bs s0 s \<Longrightarrow> calm bo F w bs s0 (advance_consumer s)"
  unfolding advance_consumer_def
  by (rule calm_upd, assumption, rule quiet_upd)
    (auto simp: Let_def calm_def own_def ctl_inv_def EVENT_RING_ENTRIES_def)

lemma calm_count: "calm bo F w bs s0 s \<Longrightarrow> calm bo F w bs s0 (upd_ctl (\<lambda>c. c\<lparr>event_count := event_count c + 1\<rparr>) s)"
  by (rule calm_upd, assumption, rule quiet_upd) (simp_all add: calm_def own_def ctl_inv_def)

lemma calm_acknowledge_event:
  "\<lbrakk>calm bo F w bs s0 s; \<And>s'. calm bo F w bs s0 s' \<Longrightarrow> Q s'\<rbrakk> \<Longrightarrow> returns (acknowledge_event e register s) Q"
  unfolding acknowledge_event_def by (drule calm_advance, drule calm_count, erule calm_write_erdp)

text \<open>The step of the consumer in \<^verbatim>\<open>poll_command\<close>.\<close>

lemma calm_command_advance:
  "calm bo F w bs s0 s \<Longrightarrow> calm bo F w bs s0 (upd_ctl (\<lambda>c.
     let n = event_consumer c + 1; wrap = (n = EVENT_RING_ENTRIES) in
     c\<lparr>event_consumer := (if wrap then 0 else n), event_cycle := (if wrap then \<not> event_cycle c else event_cycle c),
       event_count := event_count c + 1\<rparr>) s)"
  by (rule calm_upd, assumption, rule quiet_upd)
    (auto simp: Let_def calm_def own_def ctl_inv_def EVENT_RING_ENTRIES_def)

lemma calm_poll_command_loop:
  "\<lbrakk>calm bo F w bs s0 s; \<And>r s'. calm bo F w bs s0 s' \<Longrightarrow> Q (r, s')\<rbrakk> \<Longrightarrow> returns (poll_command_loop e register a n s) Q"
proof (induction n arbitrary: s)
  case (Suc n)
  show ?case unfolding poll_command_loop.simps
    by (insert Suc.prems(1), (rule returns_step | erule calm_next_event calm_write_erdp calm_status_change
        | (drule calm_command_advance, erule calm_write_erdp) | erule Suc.IH [OF _ Suc.prems(2)] | (simp add: Suc.prems(2); fail))+)
qed simp

lemma calm_yield:
  "\<lbrakk>calm bo F w bs s0 s; \<And>s'. calm bo F w bs s0 s' \<Longrightarrow> Q s'\<rbrakk> \<Longrightarrow> returns (yield_read e register n s) Q"
  unfolding yield_read_def by (rule returns_step | erule calm_io | (simp; fail))+

lemma calm_poll_transfer_loop:
  "\<lbrakk>calm bo F w bs s0 s; \<And>r s'. calm bo F w bs s0 s' \<Longrightarrow> Q (r, s')\<rbrakk> \<Longrightarrow> returns (poll_transfer_loop e register a n s) Q"
proof (induction n arbitrary: s)
  case 0
  show ?case unfolding poll_transfer_loop.simps
    by (insert 0(1), (rule returns_step | erule calm_io | (simp add: 0(2); fail))+)
next
  case (Suc n)
  show ?case unfolding poll_transfer_loop.simps
    by (insert Suc.prems(1), (rule returns_step | erule calm_yield calm_next_event calm_write_erdp calm_status_change
        | (drule calm_advance, erule calm_write_erdp) | erule Suc.IH [OF _ Suc.prems(2)] | (simp add: Suc.prems(2); fail))+)
qed

lemma calm_poll_bulk_loop:
  "\<lbrakk>calm bo F w bs s0 s; \<And>r s'. calm bo F w bs s0 s' \<Longrightarrow> Q (r, s')\<rbrakk> \<Longrightarrow> returns (poll_bulk_loop e register a n s) Q"
proof (induction n arbitrary: s)
  case (Suc n)
  show ?case unfolding poll_bulk_loop.simps
    by (insert Suc.prems(1), (rule returns_step | erule calm_yield calm_next_event calm_acknowledge_event calm_status_change
        | erule Suc.IH [OF _ Suc.prems(2)] | (simp add: Suc.prems(2); fail))+)
qed simp

lemmas calm_polls = calm_poll_command_loop calm_poll_transfer_loop calm_poll_bulk_loop

lemma calm_producer_upd:
  "\<lbrakk>calm bo F w bs s0 s; n < TRANSFER_RING_ENTRIES\<rbrakk> \<Longrightarrow>
   calm bo F w bs s0 (upd_ctl (\<lambda>c. c\<lparr>command_producer := n, command_cycle := y\<rparr>) s)"
  by (rule calm_upd, assumption, rule quiet_upd) (auto simp: calm_def own_def ctl_inv_def)

lemma calm_producer_next:
  "\<lbrakk>calm bo F w bs s0 s; command_producer (ctl s) + 1 < TRANSFER_RING_ENTRIES\<rbrakk> \<Longrightarrow>
   calm bo F w bs s0 (upd_ctl (\<lambda>c. c\<lparr>command_producer := command_producer c + 1\<rparr>) s)"
  by (rule calm_upd, assumption, rule quiet_upd) (auto simp: calm_def own_def ctl_inv_def)

lemma calm_submit:
  assumes c: "calm bo F w bs s0 s" and q: "\<And>r s'. calm bo F w bs s0 s' \<Longrightarrow> Q (r, s')"
  shows "returns (submit_command e register t s) Q"
proof -
  let ?i = "command_producer (ctl s)"
  let ?next = "\<lambda>s. if command_producer (ctl (upd_ctl (\<lambda>c. c\<lparr>command_producer := command_producer c + 1\<rparr>) s)) = COMMAND_RING_ENTRIES - 1
     then let s = upd_ctl (\<lambda>c. c\<lparr>command_producer := 0, command_cycle := \<not> command_cycle c\<rparr>)
                   (upd_ctl (\<lambda>c. c\<lparr>command_producer := command_producer c + 1\<rparr>) s) in
       store_trb e (command_ring (ctl s)) (COMMAND_RING_ENTRIES - 1) (link_to (command_ring (ctl s)) (command_cycle (ctl s))) s
     else Some (upd_ctl (\<lambda>c. c\<lparr>command_producer := command_producer c + 1\<rparr>) s)"
  have i: "(?i + 1) * 16 \<le> dma_len (command_ring (ctl s))"
    using calm_fields(7,9) [OF c] by (simp add: TRANSFER_RING_ENTRIES_def COMMAND_RING_ENTRIES_def)
  have advance: "returns (?next s) R" if s: "calm bo F w bs s0 s" and R: "\<And>s'. calm bo F w bs s0 s' \<Longrightarrow> R s'" for s R
  proof (cases "command_producer (ctl s) + 1 = TRANSFER_RING_ENTRIES")
    case True
    let ?s = "upd_ctl (\<lambda>c. c\<lparr>command_producer := 0, command_cycle := \<not> command_cycle (ctl s)\<rparr>) s"
    have "calm bo F w bs s0 ?s" by (rule calm_producer_upd [OF s]) (simp add: TRANSFER_RING_ENTRIES_def COMMAND_RING_ENTRIES_def)
    from this calm_fields(9) [OF s] R show ?thesis using True
      by (auto simp: upd_ctl_def TRANSFER_RING_ENTRIES_def COMMAND_RING_ENTRIES_def intro!: calm_store_trb)
  next
    case False
    then have "command_producer (ctl s) + 1 < TRANSFER_RING_ENTRIES" using calm_fields(7) [OF s] by simp
    from R [OF calm_producer_next [OF s this]] False show ?thesis by (simp add: upd_ctl_def TRANSFER_RING_ENTRIES_def)
  qed
  show ?thesis unfolding submit_command_def poll_command_def Let_def [where s = ?i]
    using c i by - (rule advance | rule returns_step | erule calm_store_trb calm_io calm_polls | assumption | (simp add: q; fail))+
qed


lemma calm_health: "calm bo F w bs s0 s \<Longrightarrow> calm bo F w bs s0 (upd_ctl (\<lambda>c. c\<lparr>healthy := False\<rparr>) s)"
  by (rule calm_upd, assumption, rule quiet_upd) (auto simp: calm_def own_def ctl_inv_def)

lemma calm_disable_slot:
  "\<lbrakk>calm bo F w bs s0 s; \<And>r s'. calm bo F w bs s0 s' \<Longrightarrow> Q (r, s')\<rbrakk> \<Longrightarrow> returns (disable_slot e register sl s) Q"
  unfolding disable_slot_def by (rule returns_step | erule calm_submit | (simp add: calm_health; fail))+

lemma calm_clear_dcbaa:
  assumes c: "calm bo F w bs s0 s" and q: "\<And>s'. calm bo F w bs s0 s' \<Longrightarrow> Q s'"
  shows "returns (clear_dcbaa e sl s) Q"
proof -
  have "unat sl * 8 + 8 \<le> dma_len (dcbaa (ctl s))" using calm_fields(8) [OF c] unsigned_less [of sl, where ?'a = nat] by simp
  then show ?thesis unfolding clear_dcbaa_def using q by (rule calm_store64 [OF c])
qed

text \<open>Control transfers: the ring of the endpoint has room for its 255 blocks and the link.\<close>

lemma calm_control_transfer:
  assumes c: "calm bo F w bs s0 s" and r: "4096 \<le> dma_len ring" and q: "\<And>r s'. calm bo F w bs s0 s' \<Longrightarrow> Q (r, s')"
  shows "returns (control_transfer e register sl ring idx req data s) Q"
proof -
  define k where "k = (if data \<noteq> None then 3 else 2 :: nat)"
  have fit: "(idx + i + 1) * 16 \<le> dma_len ring" if "idx + k \<le> TRANSFER_RING_ENTRIES" "i < k" for i
    using that r by (simp add: TRANSFER_RING_ENTRIES_def COMMAND_RING_ENTRIES_def)
  show ?thesis
  proof (cases "idx + k > TRANSFER_RING_ENTRIES")
    case True
    then show ?thesis using q [OF c] by (simp add: control_transfer_def k_def)
  next
    case False
    have 0: "(idx + 1) * 16 \<le> dma_len ring" "(idx + 1 + 1) * 16 \<le> dma_len ring"
      using fit [of 0] fit [of 1] False by (simp_all add: k_def)
    have 2: "(idx + 2 + 1) * 16 \<le> dma_len ring" if "data \<noteq> None" using fit [of 2] False that by (simp add: k_def)
    show ?thesis unfolding control_transfer_def k_def [symmetric] Let_def poll_transfer_def
      using c False 0
      by - (rule returns_step | erule calm_store_trb calm_io calm_polls | assumption | (simp add: q; fail) | (rule 2, simp; fail))+
  qed
qed

lemma calm_bulk_transfer:
  assumes c: "calm bo F w bs s0 s" and r: "4096 \<le> dma_len ring"
    and q: "\<And>r idx' cyc' s'. calm bo F w bs s0 s' \<Longrightarrow> (idx < TRANSFER_RING_ENTRIES \<Longrightarrow> idx' < TRANSFER_RING_ENTRIES) \<Longrightarrow> Q ((r, idx', cyc'), s')"
  shows "returns (bulk_transfer e register sl a ring idx cyc buffer len s) Q"
proof (cases "idx \<ge> TRANSFER_RING_ENTRIES \<or> len > dma_len buffer")
  case True
  then show ?thesis using q [OF c] by (simp add: bulk_transfer_def)
next
  case False
  have "(TRANSFER_RING_ENTRIES + 1) * 16 \<le> dma_len ring" "(idx + 1) * 16 \<le> dma_len ring"
    using r False by (simp_all add: TRANSFER_RING_ENTRIES_def COMMAND_RING_ENTRIES_def)
  note fit = this
  show ?thesis unfolding bulk_transfer_def Let_def poll_bulk_completion_def
    using c False fit
    by - (rule returns_step returns_SomeI | erule calm_store_trb calm_io calm_polls | assumption | (simp; fail)
        | (rule q, assumption, simp add: TRANSFER_RING_ENTRIES_def COMMAND_RING_ENTRIES_def split: if_splits; fail))+
qed

lemma acc_store_trb:
  "\<lbrakk>hw_only s0 s; (i + 1) * 16 \<le> dma_len b; \<And>s'. hw_only s0 s' \<Longrightarrow> Q s'\<rbrakk> \<Longrightarrow> returns (store_trb e b i t s) Q"
  by (erule store_trb_hw) (blast intro: hw_only_trans)

lemma acc_write32: "\<lbrakk>hw_only s0 s; \<And>s'. hw_only s0 s' \<Longrightarrow> Q s'\<rbrakk> \<Longrightarrow> returns (write32 e b off v s) Q"
  by (rule write32_hw) (blast intro: hw_only_trans)

lemma hw_queue_interrupt_in:
  assumes h: "hid_ok h" and q: "\<And>h' s'. hw_only s s' \<Longrightarrow> hid_ok h' \<Longrightarrow> hid_buffers h' = hid_buffers h \<Longrightarrow> Q (h', s')"
  shows "returns (queue_interrupt_in e register db sl h s) Q"
proof -
  have fit: "(hid_producer h + 1) * 16 \<le> dma_len (interrupt_ring h)" "(TRANSFER_RING_ENTRIES + 1) * 16 \<le> dma_len (interrupt_ring h)"
    using h by (simp_all add: hid_ok_def TRANSFER_RING_ENTRIES_def COMMAND_RING_ENTRIES_def)
  let ?h = "h\<lparr>hid_producer := hid_producer h + 1\<rparr>"
  have wrap: "hid_ok (?h\<lparr>hid_producer := 0, hid_cycle := c\<rparr>)" "hid_buffers (?h\<lparr>hid_producer := 0, hid_cycle := c\<rparr>) = hid_buffers h"
    and ok: "hid_producer ?h \<noteq> TRANSFER_RING_ENTRIES \<Longrightarrow> hid_ok ?h" "hid_buffers ?h = hid_buffers h" for c
    using h by (simp_all add: hid_ok_def hid_buffers_def TRANSFER_RING_ENTRIES_def COMMAND_RING_ENTRIES_def)
  have "hw_only s s" by simp
  then show ?thesis unfolding queue_interrupt_in_def using fit
    by - (rule returns_step returns_SomeI | erule acc_store_trb acc_write32 | (simp; fail) | (erule q, rule wrap, rule wrap)
        | (erule q, erule ok, rule ok))+
qed

section \<open>Rules with allocation\<close>

lemma own_mset: "\<lbrakk>own bo F w bs s; mset bs = mset bs'\<rbrakk> \<Longrightarrow> own bo F w bs' s"
  unfolding own_def using live_inv_mset by (metis (no_types, lifting) mset_append)

text \<open>A function may forget a buffer it holds, as \<^verbatim>\<open>core::mem::forget\<close> does.\<close>

lemma own_forget: "own bo F w (xs @ bs) s \<Longrightarrow> own bo F w bs s"
proof -
  assume o: "own bo F w (xs @ bs) s"
  then obtain L where l: "live_inv bo F (mach s, (xs @ bs) @ owned (ctl s) @ L)" by (auto simp: own_def)
  have "mset ((xs @ bs) @ owned (ctl s) @ L) = mset (bs @ owned (ctl s) @ L @ xs)" by simp
  from live_inv_mset [OF l this] o show ?thesis by (auto simp: own_def)
qed

lemma own_hw: "\<lbrakk>own bo F w bs s; hw_only s s'\<rbrakk> \<Longrightarrow> own bo F w bs s'"
  using calm_hw [OF calm_self] calm_own by blast

lemma own_calm: "\<lbrakk>own bo F w bs s; calm bo F w bs s s \<Longrightarrow> R\<rbrakk> \<Longrightarrow> R"
  by (simp add: calm_self)

text \<open>The rules above for functions that need no frame.\<close>

lemma own_submit:
  "\<lbrakk>own bo F w bs s; \<And>r s'. own bo F w bs s' \<Longrightarrow> Q (r, s')\<rbrakk> \<Longrightarrow> returns (submit_command e register t s) Q"
  by (rule calm_submit, erule calm_self) (blast dest: calm_own)

lemma own_disable_slot:
  "\<lbrakk>own bo F w bs s; \<And>r s'. own bo F w bs s' \<Longrightarrow> Q (r, s')\<rbrakk> \<Longrightarrow> returns (disable_slot e register sl s) Q"
  by (rule calm_disable_slot, erule calm_self) (blast dest: calm_own)

lemma own_clear_dcbaa:
  "\<lbrakk>own bo F w bs s; \<And>s'. own bo F w bs s' \<Longrightarrow> Q s'\<rbrakk> \<Longrightarrow> returns (clear_dcbaa e sl s) Q"
  by (rule calm_clear_dcbaa, erule calm_self) (blast dest: calm_own)

lemma own_control_transfer:
  "\<lbrakk>own bo F w bs s; 4096 \<le> dma_len ring; \<And>r s'. own bo F w bs s' \<Longrightarrow> Q (r, s')\<rbrakk> \<Longrightarrow>
   returns (control_transfer e register sl ring idx req data s) Q"
  by (rule calm_control_transfer, erule calm_self, assumption) (blast dest: calm_own)

lemma own_load:
  "\<lbrakk>own bo F w bs s; off + n \<le> dma_len b; \<And>d s'. own bo F w bs s' \<Longrightarrow> length d = n \<Longrightarrow> Q (d, s')\<rbrakk> \<Longrightarrow> returns (load e b off n s) Q"
  by (erule load_hw) (blast intro: own_hw)

lemma own_load32:
  "\<lbrakk>own bo F w bs s; off + 4 \<le> dma_len b; \<And>v s'. own bo F w bs s' \<Longrightarrow> Q (v, s')\<rbrakk> \<Longrightarrow> returns (load32 e b off s) Q"
  by (erule load32_hw) (blast intro: own_hw)

lemma own_store32:
  "\<lbrakk>own bo F w bs s; off + 4 \<le> dma_len b; \<And>s'. own bo F w bs s' \<Longrightarrow> Q s'\<rbrakk> \<Longrightarrow> returns (store32 e b off v s) Q"
  by (erule store32_hw) (blast intro: own_hw)

lemma own_store64:
  "\<lbrakk>own bo F w bs s; off + 8 \<le> dma_len b; \<And>s'. own bo F w bs s' \<Longrightarrow> Q s'\<rbrakk> \<Longrightarrow> returns (store64 e b off v s) Q"
  by (erule store64_hw) (blast intro: own_hw)

lemma own_store_trb:
  "\<lbrakk>own bo F w bs s; (i + 1) * 16 \<le> dma_len b; \<And>s'. own bo F w bs s' \<Longrightarrow> Q s'\<rbrakk> \<Longrightarrow> returns (store_trb e b i t s) Q"
  by (erule store_trb_hw) (blast intro: own_hw)

lemma own_read32: "\<lbrakk>own bo F w bs s; \<And>v s'. own bo F w bs s' \<Longrightarrow> Q (v, s')\<rbrakk> \<Longrightarrow> returns (read32 e b off s) Q"
  by (rule read32_hw) (blast intro: own_hw)

lemma own_write32: "\<lbrakk>own bo F w bs s; \<And>s'. own bo F w bs s' \<Longrightarrow> Q s'\<rbrakk> \<Longrightarrow> returns (write32 e b off v s) Q"
  by (rule write32_hw) (blast intro: own_hw)

lemma own_write64: "\<lbrakk>own bo F w bs s; \<And>s'. own bo F w bs s' \<Longrightarrow> Q s'\<rbrakk> \<Longrightarrow> returns (write64 e b off v s) Q"
  by (rule write64_hw) (blast intro: own_hw)

lemmas own_io = own_read32 own_write32 own_write64 own_submit own_disable_slot own_clear_dcbaa
lemmas own_mem = own_load own_load32 own_store32 own_store64 own_store_trb

text \<open>
  The contract of allocation: a predicate \<open>H bs\<close> on states that says that the buffers \<open>bs\<close> are held is kept by a failed
  allocation, extended by a successful one, and a buffer that is held may be dropped. It is kept by the running controller
  and by the state before there is one.
\<close>

locale buffer_owner =
  fixes e :: "'h xhci_env" and H :: "dma_buffer list \<Rightarrow> ('h, 'z) world_scheme \<Rightarrow> bool"
  assumes H_new: "\<lbrakk>H bs s; \<And>s'. H bs s' \<Longrightarrow> Q (Inl Allocation, s'); \<And>b s'. H (b # bs) s' \<Longrightarrow> len \<le> dma_len b \<Longrightarrow> Q (Inr b, s')\<rbrakk> \<Longrightarrow>
      returns (new_buffer e len al s) Q"
    and H_drop: "\<lbrakk>H (xs @ bs) s; \<And>s'. H bs s' \<Longrightarrow> R s'\<rbrakk> \<Longrightarrow> returns (drop_buffers e xs s) R"
begin

lemma H_with_buffer:
  assumes "H bs s" and "\<And>s'. H bs s' \<Longrightarrow> returns (failed s') Q"
    and "\<And>b s'. H (b # bs) s' \<Longrightarrow> len \<le> dma_len b \<Longrightarrow> returns (rest b s') Q"
  shows "returns (with_buffer e len failed rest s) Q"
  unfolding with_buffer_def
  by (intro returns_step, rule H_new [OF assms(1)]) (simp_all add: assms(2,3))

text \<open>\<open>yields bs G m\<close>: on an error the buffers \<open>bs\<close> are held, on success \<open>G\<close> says what is.\<close>

definition yields :: "dma_buffer list \<Rightarrow> ('a \<Rightarrow> ('h, 'z) world_scheme \<Rightarrow> bool) \<Rightarrow> ((InitError + 'a) \<times> ('h, 'z) world_scheme) option \<Rightarrow> bool" where
  "yields bs G m \<longleftrightarrow> returns m (\<lambda>(r, s). case r of Inl _ \<Rightarrow> H bs s | Inr x \<Rightarrow> G x s)"

lemma H_drop_one: "\<lbrakk>H (b # bs) s; \<And>s'. H bs s' \<Longrightarrow> Q s'\<rbrakk> \<Longrightarrow> returns (drop_buffers e [b] s) Q"
  by (rule H_drop [of "[b]"]) simp_all

lemma yields_owned:
  assumes "H bs s" and "\<And>b s'. H (b # bs) s' \<Longrightarrow> len \<le> dma_len b \<Longrightarrow> yields (b # bs) G (rest b s')"
  shows "yields bs G (owned_buffer e len al rest s)"
  unfolding owned_buffer_def yields_def
proof (rule returns_attemptI, rule H_new [OF assms(1)]; simp only: prod.case sum.case)
  fix b s'
  assume "H (b # bs) s'" and "len \<le> dma_len b"
  from assms(2) [OF this]
  show "returns (rest b s' \<bind> (\<lambda>(r, s). case r of Inl err \<Rightarrow> drop_buffers e [b] s \<bind> (\<lambda>s. Some (Inl err, s)) | Inr x \<Rightarrow> Some (Inr x, s)))
      (\<lambda>(r, s). case r of Inl _ \<Rightarrow> H bs s | Inr x \<Rightarrow> G x s)"
    unfolding yields_def
    by (intro returns_bindI, elim returns_mono)
      (auto split: sum.splits simp del: drop_buffers.simps intro!: H_drop_one)
qed

lemma yields_scoped:
  assumes "H bs s"
    and "\<And>b s'. H (b # bs) s' \<Longrightarrow> len \<le> dma_len b \<Longrightarrow> yields (b # bs) (\<lambda>x s. H (b # f x) s \<and> P x) (rest b s')"
  shows "yields bs (\<lambda>x s. H (f x) s \<and> P x) (scoped_buffer e len rest s)"
  unfolding scoped_buffer_def yields_def
proof (rule returns_attemptI, rule H_new [OF assms(1)]; simp only: prod.case sum.case)
  fix b s'
  assume "H (b # bs) s'" and "len \<le> dma_len b"
  from assms(2) [OF this, unfolded yields_def]
  show "returns (rest b s' \<bind> (\<lambda>(r, s). drop_buffers e [b] s \<bind> (\<lambda>s. Some (r, s))))
      (\<lambda>(r, s). case r of Inl _ \<Rightarrow> H bs s | Inr x \<Rightarrow> H (f x) s \<and> P x)"
  proof (intro returns_bindI, elim returns_mono)
    fix x
    assume x: "case x of (r, s) \<Rightarrow> case r of Inl _ \<Rightarrow> H (b # bs) s | Inr x \<Rightarrow> H (b # f x) s \<and> P x"
    obtain r t where "x = (r, t)" by (cases x)
    with x show "returns (case x of (r, s) \<Rightarrow> drop_buffers e [b] s \<bind> (\<lambda>s. Some (r, s)))
        (\<lambda>(r, s). case r of Inl _ \<Rightarrow> H bs s | Inr x \<Rightarrow> H (f x) s \<and> P x)"
      by (cases r) (auto simp del: drop_buffers.simps intro: H_drop_one)
  qed
qed

lemma yields_attempt:
  assumes "yields bs (\<lambda>x s. yields bs G (f x s)) m"
  shows "yields bs G (attempt m f)"
  using assms unfolding yields_def returns_attempt
  by (elim returns_mono, case_tac x, case_tac a) simp_all

end

locale xhci_driver =
  fixes e :: "'h xhci_env" and F :: "nat set" and w :: bool
  assumes bits: "bit_field (xh_bits e)"
begin

abbreviation holds :: "dma_buffer list \<Rightarrow> 'h xhci \<Rightarrow> bool" where
  "holds \<equiv> own (xh_bits e) F w"

text \<open>Allocation and release, first on any state with a machine.\<close>

lemma new_buffer_live:
  assumes l: "live_inv (xh_bits e) F (mach s, X)"
    and "\<And>m. m = mach s \<Longrightarrow> Q (Inl Allocation, s\<lparr>mach := m\<rparr>)"
    and "\<And>b m. live_inv (xh_bits e) F (m, b # X) \<Longrightarrow> len \<le> dma_len b \<Longrightarrow> Q (Inr b, s\<lparr>mach := m\<rparr>)"
  shows "returns (new_buffer e len al s) Q"
proof -
  have ok: "machine_ok (xh_bits e) (mach s)" using l by (simp add: live_inv_def)
  show ?thesis
  proof (cases "\<exists>err. dma_new (xh_bits e) (mach s) len al = Some (mach s, Inl err)")
    case True
    then show ?thesis using assms(2) by (auto simp: new_buffer_def)
  next
    case False
    then obtain m b where n: "dma_new (xh_bits e) (mach s) len al = Some (m, Inr b)" "buf_pages b = div_ceil len PAGE_SIZE"
      using bit_field.dma_new_cases [OF bits ok, of len al] by blast
    have "len \<le> dma_len b" using div_ceil_bounds(1) [of PAGE_SIZE len] by (simp add: dma_len_def n(2) PAGE_SIZE_def)
    with n(1) bit_field.live_inv_new [OF bits l n(1)] assms(3) show ?thesis by (simp add: new_buffer_def)
  qed
qed

lemma drop_buffers_live:
  assumes "live_inv (xh_bits e) F (mach s, xs @ X)"
    and "\<And>m. live_inv (xh_bits e) F (m, X) \<Longrightarrow> Q (s\<lparr>mach := m\<rparr>)"
  shows "returns (drop_buffers e xs s) Q"
  using assms
proof (induction xs arbitrary: s)
  case Nil
  then show ?case using Nil(2) [of "mach s"] by simp
next
  case (Cons b xs)
  have l: "live_inv (xh_bits e) F (mach s, [] @ b # (xs @ X))" using Cons.prems(1) by simp
  then obtain m ws where d: "dma_drop (xh_bits e) (mach s) b = Some (m, ws)"
    using bit_field.dma_drop_ok [OF bits, of "mach s" b] by (fastforce simp: live_inv_def)
  have "returns (drop_buffers e xs (s\<lparr>mach := m\<rparr>)) Q"
    using bit_field.live_inv_drop(2) [OF bits l d] Cons.prems(2) by (intro Cons.IH) simp_all
  then show ?case using d by simp
qed

lemma hold_machine:
  assumes "holds bs s" and "live_inv (xh_bits e) F (m, bs' @ owned (ctl s) @ L)"
  shows "holds bs' (s\<lparr>mach := m\<rparr>)"
  using assms by (auto simp: own_def)

lemma hold_new_buffer:
  assumes o: "holds bs s" and "\<And>s'. holds bs s' \<Longrightarrow> Q (Inl Allocation, s')"
    and "\<And>b s'. holds (b # bs) s' \<Longrightarrow> len \<le> dma_len b \<Longrightarrow> Q (Inr b, s')"
  shows "returns (new_buffer e len al s) Q"
proof -
  from o obtain L where l: "live_inv (xh_bits e) F (mach s, bs @ owned (ctl s) @ L)" by (auto simp: own_def)
  show ?thesis
  proof (rule new_buffer_live [OF l])
    show "Q (Inl Allocation, s\<lparr>mach := m\<rparr>)" if "m = mach s" for m using that o by (intro assms(2)) simp
    show "Q (Inr b, s\<lparr>mach := m\<rparr>)" if "live_inv (xh_bits e) F (m, b # bs @ owned (ctl s) @ L)" "len \<le> dma_len b" for b m
      using that by (intro assms(3) hold_machine [OF o]) simp_all
  qed
qed

lemma hold_drop:
  assumes o: "holds (xs @ bs) s" and q: "\<And>s'. holds bs s' \<Longrightarrow> Q s'"
  shows "returns (drop_buffers e xs s) Q"
proof -
  from o obtain L where "live_inv (xh_bits e) F (mach s, xs @ (bs @ owned (ctl s) @ L))" by (auto simp: own_def)
  then show ?thesis by (rule drop_buffers_live) (intro q hold_machine [OF o])
qed

end

sublocale xhci_driver < buffer_owner e "own (xh_bits e) F w"
  by unfold_locales (rule hold_new_buffer, assumption, blast, blast, rule hold_drop)

section \<open>Endpoints and disks\<close>

lemma own_fields:
  assumes "own bo F w bs s"
  shows "context_size s = (if w then 64 else 32)" "2048 \<le> dma_len (dcbaa (ctl s))" "\<forall>r\<in>set (root_ports (ctl s)). port r \<noteq> 0"
    "\<forall>d\<in>set (root_devices (ctl s)). device_ok d"
  using assms by (simp_all add: own_def ctl_inv_def context_size_def)

text \<open>The input context of an addressed slot has 33 parts, its output context 32.\<close>

abbreviation context_fits :: "bool \<Rightarrow> dma_buffer \<Rightarrow> bool" where
  "context_fits w b \<equiv> (if w then 64 else 32) * 33 \<le> dma_len b"

lemma own_slot_entries:
  "\<lbrakk>own bo F w bs s; context_fits w inp; \<And>s'. own bo F w bs s' \<Longrightarrow> Q s'\<rbrakk> \<Longrightarrow>
   returns (set_slot_entries e inp (if w then 64 else 32) eid s) Q"
  unfolding set_slot_entries_def by (rule returns_step | erule own_mem | (simp; fail) | (auto split: if_splits; fail))+

lemma context_in_bounds:
  assumes "context_fits w inp" and "\<not> (eid = 0 \<or> 32 \<le> eid)"
  shows "(if w then 64 else 32) * (eid + 1) + 16 \<le> dma_len inp"
proof -
  have "(if w then 64 else 32) * (eid + 1) \<le> (if w then 64 else 32) * (32 :: nat)" using assms(2) by (intro mult_le_mono2) simp
  then show ?thesis using assms(1) by (auto split: if_splits)
qed

lemma own_configure_endpoint:
  assumes o: "own bo F w bs s" and inp: "context_fits w inp" and r: "4096 \<le> dma_len ring"
    and q: "\<And>x s'. own bo F w bs s' \<Longrightarrow> Q (x, s')"
  shows "returns (configure_endpoint e register sl inp endpoint ring s) Q"
proof -
  let ?eid = "unat (endpoint_id (h_endpoint_address endpoint))"
  show ?thesis
  proof (cases "?eid = 0 \<or> 32 \<le> ?eid")
    case True
    then show ?thesis using q [OF o] by (simp add: configure_endpoint_def Let_def)
  next
    case False
    note b = context_in_bounds [OF inp False]
    have i: "8 \<le> dma_len inp" "(if w then 64 else 32) + 4 \<le> dma_len inp" using inp by (auto split: if_splits)
    from o inp r b i q False show ?thesis unfolding configure_endpoint_def Let_def own_fields(1) [OF o] if_not_P [OF False]
      by - (rule returns_step | rule returns_attemptI | erule own_slot_entries own_mem own_submit | assumption
          | (simp add: COMMAND_RING_ENTRIES_def; fail) | (simp split: sum.split; fail))+
  qed
qed

lemma own_configure_bulk_endpoint:
  assumes o: "own bo F w bs s" and inp: "context_fits w inp" and r: "4096 \<le> dma_len ring"
    and q: "\<And>x s'. own bo F w bs s' \<Longrightarrow> Q (x, s')"
  shows "returns (configure_bulk_endpoint e register sl inp endpoint ring s) Q"
proof -
  let ?eid = "unat (endpoint_id (e_address endpoint))"
  show ?thesis
  proof (cases "?eid = 0 \<or> ?eid \<ge> 32 \<or> e_attributes endpoint \<noteq> 0x02 \<or> e_max_packet_size endpoint = 0")
    case True
    then show ?thesis using q [OF o] by (simp add: configure_bulk_endpoint_def Let_def)
  next
    case False
    have b: "(if w then 64 else 32) * (?eid + 1) + 16 \<le> dma_len inp" by (rule context_in_bounds [OF inp]) (use False in blast)
    from o inp r b q False show ?thesis unfolding configure_bulk_endpoint_def Let_def own_fields(1) [OF o] if_not_P [OF False]
      by - (rule returns_step | rule returns_attemptI | erule own_slot_entries own_mem own_submit | assumption
          | (simp add: TRANSFER_RING_ENTRIES_def COMMAND_RING_ENTRIES_def; fail) | (simp split: sum.split; fail))+
  qed
qed

text \<open>A command to a disk keeps the positions in both rings inside them.\<close>

definition pipes_ok :: "pipes \<Rightarrow> bool" where
  "pipes_ok ps \<longleftrightarrow> p_in ps < TRANSFER_RING_ENTRIES \<and> p_out ps < TRANSFER_RING_ENTRIES"

lemma calm_bulk_send:
  assumes "calm bo F w bs s0 s" and "4096 \<le> dma_len ring" and "pipes_ok ps"
    and q: "\<And>r ps' s'. calm bo F w bs s0 s' \<Longrightarrow> pipes_ok ps' \<Longrightarrow> Q ((r, ps'), s')"
  shows "returns (bulk_send_on e register sl iface ring buffer len ps s) Q"
  unfolding bulk_send_on_def using assms(3)
  by (intro returns_bindI, intro calm_bulk_transfer [OF assms(1,2)]) (auto simp: pipes_ok_def intro!: q)

lemma calm_bulk_receive:
  assumes "calm bo F w bs s0 s" and "4096 \<le> dma_len ring" and "pipes_ok ps"
    and q: "\<And>r ps' s'. calm bo F w bs s0 s' \<Longrightarrow> pipes_ok ps' \<Longrightarrow> Q ((r, ps'), s')"
  shows "returns (bulk_receive_on e register sl iface ring buffer len ps s) Q"
  unfolding bulk_receive_on_def using assms(3)
  by (intro returns_bindI, intro calm_bulk_transfer [OF assms(1,2)]) (auto simp: pipes_ok_def intro!: q)

lemma length_cbw_len: "length (cbw tag n d lun cdb) = CBW_LEN"
  by (simp add: cbw_def CBW_LEN_def u32_to_le_def Let_def)

lemma calm_msc_status:
  "\<lbrakk>calm bo F w bs s0 s; CSW_LEN \<le> dma_len csw_b; \<And>r s'. calm bo F w bs s0 s' \<Longrightarrow> Q ((r, ps), s')\<rbrakk> \<Longrightarrow>
   returns (msc_status e csw_b tag n ps s) Q"
  unfolding msc_status_def by (rule returns_step returns_SomeI | erule calm_load | (simp; fail))+

lemma calm_msc_command:
  assumes "calm bo F w bs s0 s" and "4096 \<le> dma_len ring_in" "4096 \<le> dma_len ring_out" "CBW_LEN \<le> dma_len cbw_b" "CSW_LEN \<le> dma_len csw_b"
    and "pipes_ok ps" and q: "\<And>r ps' s'. calm bo F w bs s0 s' \<Longrightarrow> pipes_ok ps' \<Longrightarrow> Q ((r, ps'), s')"
  shows "returns (msc_command e register sl iface ring_in ring_out ps cbw_b csw_b data n cdb s) Q"
  unfolding msc_command_def Let_def length_cbw_len using assms(1-6)
  by - (rule returns_step returns_SomeI | erule calm_bulk_send calm_bulk_receive calm_msc_status calm_store | assumption
      | (simp only: length_cbw_len add_0; fail) | (simp only: length_cbw_len add_0, assumption) | (erule q, assumption))+

lemma own_msc_command:
  assumes "own bo F w bs s" and "4096 \<le> dma_len ring_in" "4096 \<le> dma_len ring_out" "CBW_LEN \<le> dma_len cbw_b" "CSW_LEN \<le> dma_len csw_b"
    and "pipes_ok ps" and q: "\<And>r ps' s'. own bo F w bs s' \<Longrightarrow> pipes_ok ps' \<Longrightarrow> Q ((r, ps'), s')"
  shows "returns (msc_command e register sl iface ring_in ring_out ps cbw_b csw_b data n cdb s) Q"
  using assms by (intro calm_msc_command [OF calm_self]) (auto dest: calm_own)


lemma own_check_max_lun:
  assumes "own bo F w bs s" "4096 \<le> dma_len ep0" "1 \<le> dma_len lun" and q: "\<And>r s'. own bo F w bs s' \<Longrightarrow> Q (r, s')"
  shows "returns (check_max_lun e register sl ep0 idx k lun s) Q"
  unfolding check_max_lun_def using assms(1-3)
  by - (rule returns_step returns_SomeI | erule own_control_transfer own_load | assumption | (simp; fail) | erule q)+

context xhci_driver
begin

lemma yields_of_own:
  "(\<And>Q. (\<And>r s'. holds bs s' \<Longrightarrow> Q (r, s')) \<Longrightarrow> returns m Q) \<Longrightarrow> (\<And>x s'. holds bs s' \<Longrightarrow> G x s') \<Longrightarrow> yields bs G m"
  unfolding yields_def by (auto split: sum.split)

lemma yields_commands:
  assumes o: "holds bs s" and b: "4096 \<le> dma_len ring_in" "4096 \<le> dma_len ring_out" "CBW_LEN \<le> dma_len cbw_b" "CSW_LEN \<le> dma_len csw_b"
      "MAX_READ_BYTES \<le> dma_len data"
  shows "yields bs (\<lambda>m s. holds bs s \<and> msc_buffers m = [ring_in, ring_out, cbw_b, csw_b, data] \<and> disk_ok m)
    (probe_commands e register sl iface ring_in ring_out cbw_b csw_b data s)"
proof -
  have start: "pipes_ok \<lparr>p_in = 0, p_out = 0, c_in = True, c_out = True\<rparr>"
    by (simp add: pipes_ok_def TRANSFER_RING_ENTRIES_def COMMAND_RING_ENTRIES_def)
  have l: "36 \<le> dma_len data" "8 \<le> dma_len data" using b(5) by (simp_all add: MAX_READ_BYTES_def)
  show ?thesis unfolding probe_commands_def yields_def Let_def using o b start l
    by - (rule returns_step returns_SomeI | erule own_msc_command own_load | assumption | (simp; fail)
        | (simp add: msc_buffers_def disk_ok_def pipes_ok_def; fail))+
qed

lemma yields_probe:
  assumes o: "holds bs s" and ep0: "4096 \<le> dma_len ep0" and inp: "context_fits w inp"
  shows "yields bs (\<lambda>m s. holds (msc_buffers m @ bs) s \<and> disk_ok m) (configure_and_probe_msc e register sl ep0 idx inp iface s)"
proof -
  have last: "yields (data # csw_b # cbw_b # lun # rout # rin # bs)
      (\<lambda>m s. holds (lun # msc_buffers m @ bs) s \<and> disk_ok m) (probe_commands e register sl iface rin rout cbw_b csw_b data s)"
    if "holds (data # csw_b # cbw_b # lun # rout # rin # bs) s" "4096 \<le> dma_len rin" "4096 \<le> dma_len rout"
      "CBW_LEN \<le> dma_len cbw_b" "CSW_LEN \<le> dma_len csw_b" "MAX_READ_BYTES \<le> dma_len data" for data csw_b cbw_b lun rout rin s
    using yields_commands [OF that] unfolding yields_def
    by (rule returns_mono) (auto split: sum.splits elim!: own_mset)
  have check: "yields B (\<lambda>x s. yields B G (f x s)) (check_max_lun e register sl ep0 idx k lun s)"
    if "holds B s" "1 \<le> dma_len lun" "\<And>x s. holds B s \<Longrightarrow> yields B G (f x s)" for B G f idx k lun s
    by (rule yields_of_own, rule own_check_max_lun [OF that(1) ep0 that(2)]) (auto intro: that(3))
  have endpoint: "yields B (\<lambda>x s. yields B G (f x s)) (configure_bulk_endpoint e register sl inp ep ring s)"
    if "holds B s" "4096 \<le> dma_len ring" "\<And>x s. holds B s \<Longrightarrow> yields B G (f x s)" for B G f ep ring s
    by (rule yields_of_own, rule own_configure_bulk_endpoint [OF that(1) inp that(2)]) (auto intro: that(3))
  have rest: "yields bs (\<lambda>m s. holds (msc_buffers m @ bs) s \<and> disk_ok m)
      (owned_buffer e 4096 64 (\<lambda>ring_in. owned_buffer e 4096 64 (\<lambda>ring_out s.
        attempt (configure_bulk_endpoint e register sl inp (bulk_out iface) ring_out s) (\<lambda>_ s.
        attempt (configure_bulk_endpoint e register sl inp (bulk_in iface) ring_in s) (\<lambda>_.
        scoped_buffer e 1 (\<lambda>lun s.
          attempt (check_max_lun e register sl ep0 idx (m_interface_number iface) lun s) (\<lambda>_.
          owned_buffer e CBW_LEN 64 (\<lambda>cbw_b. owned_buffer e CSW_LEN 64 (\<lambda>csw_b. owned_buffer e MAX_READ_BYTES 64 (\<lambda>data.
            probe_commands e register sl iface ring_in ring_out cbw_b csw_b data))))))))) s)" if "holds bs s" for idx s
    by (insert that, (erule yields_owned | rule yields_attempt | erule endpoint check yields_scoped last | assumption)+)
  show ?thesis unfolding configure_and_probe_msc_def yields_def
    by (insert o ep0, (rule returns_step returns_SomeI | erule own_control_transfer | assumption | erule rest [unfolded yields_def] | (simp; fail))+)
qed

end


section \<open>Addressing a device\<close>

context xhci_driver
begin

text \<open>What giving up does with the buffers of a slot: they are freed, or kept for ever.\<close>

lemma hold_release:
  assumes o: "holds (xs @ bs) s" and q: "\<And>s'. holds bs s' \<Longrightarrow> Q s'"
  shows "returns (release_or_retain_slot_resources e register sl xs s) Q"
  unfolding release_or_retain_slot_resources_def
  by (insert o, (rule returns_step returns_SomeI | erule own_disable_slot own_clear_dcbaa hold_drop | (drule own_forget, erule q) | erule q)+)

lemma yields_fail: "holds (xs @ bs) s \<Longrightarrow> yields bs G (fail_published e register sl xs err s)"
  unfolding fail_published_def yields_def
  by (rule returns_step returns_SomeI | erule hold_release | (simp; fail))+

lemma yields_slot_failed: "holds (xs @ bs) s \<Longrightarrow> yields bs G (slot_failed e register sl xs s)"
  unfolding slot_failed_def release_failed_slot_def yields_def
  by (rule returns_step returns_SomeI | erule own_disable_slot own_clear_dcbaa hold_drop | (simp; fail))+

lemma yields_with_buffer:
  assumes "holds bs s" and "\<And>s'. holds bs s' \<Longrightarrow> yields B G (failed s')"
    and "\<And>b s'. holds (b # bs) s' \<Longrightarrow> len \<le> dma_len b \<Longrightarrow> yields B G (rest b s')"
  shows "yields B G (with_buffer e len failed rest s)"
  using assms unfolding yields_def by (rule H_with_buffer)

lemma own_log_ep0:
  "\<lbrakk>holds bs s; (if w then 64 else 32) * 32 \<le> dma_len out; \<And>s'. holds bs s' \<Longrightarrow> Q s'\<rbrakk> \<Longrightarrow> returns (log_ep0_context e out s) Q"
proof -
  assume o: "holds bs s" and l: "(if w then 64 else 32) * 32 \<le> dma_len out" and q: "\<And>s'. holds bs s' \<Longrightarrow> Q s'"
  have "(if w then 64 else 32) + 16 \<le> dma_len out" using l by (auto split: if_splits)
  with o show ?thesis unfolding log_ep0_context_def Let_def own_fields(1) [OF o]
    by - (rule returns_step returns_SomeI | erule own_mem | (simp; fail) | erule q)+
qed

definition sp_ok :: "slot_parts \<Rightarrow> bool" where
  "sp_ok sp \<longleftrightarrow> context_fits w (sp_input sp) \<and> (if w then 64 else 32) * 32 \<le> dma_len (sp_output sp) \<and>
     4096 \<le> dma_len (sp_ep0 sp) \<and> 18 \<le> dma_len (sp_descriptor sp)"

lemma own_publish_slot:
  assumes o: "holds bs s" and sp: "sp_ok sp" and q: "\<And>s'. holds bs s' \<Longrightarrow> Q s'"
  shows "returns (publish_slot e p speed sl (sp_input sp) (sp_output sp) (sp_ep0 sp) s) Q"
proof -
  have i: "8 \<le> dma_len (sp_input sp)" "(if w then 64 else 32) * 2 + 16 \<le> dma_len (sp_input sp)" "4096 \<le> dma_len (sp_ep0 sp)"
    using sp by (auto simp: sp_ok_def split: if_splits)
  have d: "unat sl * 8 + 8 \<le> dma_len (dcbaa (ctl s))"
    using own_fields(2) [OF o] unsigned_less [of sl, where ?'a = nat] by simp
  from o i d show ?thesis unfolding publish_slot_def Let_def own_fields(1) [OF o]
    by - (rule returns_step returns_SomeI | erule own_mem | assumption | (simp add: COMMAND_RING_ENTRIES_def; fail) | erule q)+
qed

definition ready :: "dma_buffer list \<Rightarrow> RootDevice \<Rightarrow> 'h xhci \<Rightarrow> bool" where
  "ready bs d s \<longleftrightarrow> holds (device_buffers d @ bs) s \<and> device_ok d"

lemma yields_hid:
  assumes o: "holds (slot_buffers sp @ conf # bs) s" and sp: "sp_ok sp"
  shows "yields (conf # bs) (ready bs) (configure_hid e register sp idx conf endpoint s)"
proof -
  have parts: "context_fits w (sp_input sp)" "4096 \<le> dma_len (sp_ep0 sp)" "18 \<le> dma_len (sp_descriptor sp)" using sp by (simp_all add: sp_ok_def)
  have last: "yields (conf # bs) (ready bs)
      (do { (h, s) \<leftarrow> queue_interrupt_in e register (doorbell (ctl s)) sl
              \<lparr>interrupt_ring = ring, report = rep, hid_endpoint = endpoint, hid_producer = 0, hid_cycle = True,
               hid_input = (if h_protocol endpoint = 1 then Keyboard keyboard_new else Mouse mouse_new)\<rparr> s;
            Some (Inr (root_device sp conf (HidKind h)), s) })"
    if "holds (rep # ring # slot_buffers sp @ conf # bs) s" "4096 \<le> dma_len ring" "unat (h_max_packet_size endpoint) \<le> dma_len rep"
    for rep ring sl s
    unfolding yields_def
  proof (intro returns_bindI, rule hw_queue_interrupt_in)
    show "hid_ok \<lparr>interrupt_ring = ring, report = rep, hid_endpoint = endpoint, hid_producer = 0, hid_cycle = True,
        hid_input = (if h_protocol endpoint = 1 then Keyboard keyboard_new else Mouse mouse_new)\<rparr>"
      using that by (simp add: hid_ok_def TRANSFER_RING_ENTRIES_def COMMAND_RING_ENTRIES_def)
    fix h s'
    assume h: "hw_only s s'" "hid_ok h" "hid_buffers h = hid_buffers \<lparr>interrupt_ring = ring, report = rep, hid_endpoint = endpoint,
        hid_producer = 0, hid_cycle = True, hid_input = (if h_protocol endpoint = 1 then Keyboard keyboard_new else Mouse mouse_new)\<rparr>"
    let ?d = "root_device sp conf (HidKind h)"
    have "mset (rep # ring # slot_buffers sp @ conf # bs) = mset (device_buffers ?d @ bs)"
      using h(3) by (simp add: device_buffers_def root_device_def slot_buffers_def hid_buffers_def)
    then have "holds (device_buffers ?d @ bs) s'" by (rule own_mset [OF own_hw [OF that(1) h(1)]])
    then show "returns (case (h, s') of (h, s) \<Rightarrow> Some (Inr (root_device sp conf (HidKind h)), s))
        (\<lambda>(r, s). case r of Inl _ \<Rightarrow> holds (conf # bs) s | Inr d \<Rightarrow> ready bs d s)"
      using h(2) parts(3) by (simp add: ready_def device_ok_def root_device_def)
  qed
  have swap: "holds ((slot_buffers sp @ [ring]) @ conf # bs) s" if "holds (ring # slot_buffers sp @ conf # bs) s" for ring s
    by (rule own_mset [OF that]) simp
  have with_ring: "yields (conf # bs) (ready bs)
      (do { (r, s) \<leftarrow> configure_endpoint e register sl (sp_input sp) endpoint ring s;
            let fail = fail_published e register sl (slot_buffers sp @ [ring]);
            case r of Inl err \<Rightarrow> fail err s | Inr _ \<Rightarrow>
            with_buffer e (unat (h_max_packet_size endpoint)) (fail Allocation) (\<lambda>rep s.
       do { (h, s) \<leftarrow> queue_interrupt_in e register (doorbell (ctl s)) sl
              \<lparr>interrupt_ring = ring, report = rep, hid_endpoint = endpoint, hid_producer = 0, hid_cycle = True,
               hid_input = (if h_protocol endpoint = 1 then Keyboard keyboard_new else Mouse mouse_new)\<rparr> s;
            Some (Inr (root_device sp conf (HidKind h)), s) }) s })"
    if "holds (ring # slot_buffers sp @ conf # bs) s" "4096 \<le> dma_len ring" for ring sl s
    unfolding yields_def using that parts
    by - ((erule last [unfolded yields_def], assumption, assumption) | rule returns_step | erule own_configure_endpoint | assumption
        | (drule swap, erule yields_fail [unfolded yields_def])
        | (erule yields_with_buffer [unfolded yields_def], drule swap, erule yields_fail [unfolded yields_def]))+
  show ?thesis unfolding configure_hid_def Let_def yields_def using o parts(2)
    by - ((erule with_ring [unfolded yields_def Let_def], assumption) | rule returns_step | erule own_control_transfer | assumption
        | erule yields_fail [unfolded yields_def]
        | (erule yields_with_buffer [unfolded yields_def], erule yields_fail [unfolded yields_def]))+
qed

end


text \<open>The parsers return on every byte string.\<close>

lemma returns_configuration: "(\<And>r. Q r) \<Longrightarrow> returns (parse_configuration bs) Q"
proof -
  assume q: "\<And>r. Q r"
  have "\<exists>r. parse_hid_boot_endpoint bs = Some r"
  proof (cases "\<exists>ds cv. configuration_parse bs = Some (Inr (ds, cv))")
    case True
    then obtain ds cv where c: "configuration_parse bs = Some (Inr (ds, cv))" by blast
    then have "9 \<le> length ds" using configuration_parse_ok(2) by blast
    from hid_scan_correct [OF this, of cv None] show ?thesis
      by (auto simp: c parse_hid_boot_endpoint_def try_bind_def split: sum.splits option.splits)
  next
    case False
    then show ?thesis using configuration_parse_ok(1) [of bs]
      by (cases "configuration_parse bs") (auto simp: parse_hid_boot_endpoint_def try_bind_def split: sum.split)
  qed
  then show ?thesis using q by (auto simp: returns_def parse_configuration_def)
qed

lemma returns_msc_interface: "(\<And>r. Q r) \<Longrightarrow> returns (parse_msc_bot_interface bs) Q"
proof -
  assume q: "\<And>r. Q r"
  have "\<exists>r. parse_msc_bot_interface bs = Some r"
  proof (cases "\<exists>ds cv. configuration_parse bs = Some (Inr (ds, cv))")
    case True
    then obtain ds cv where c: "configuration_parse bs = Some (Inr (ds, cv))" by blast
    then have "9 \<le> length ds" using configuration_parse_ok(2) by blast
    from msc_interfaces_ok [OF this, of None cv] show ?thesis
      by (auto simp: c parse_msc_bot_interface_def try_bind_def split: sum.splits option.splits)
  next
    case False
    then show ?thesis using configuration_parse_ok(1) [of bs]
      by (cases "configuration_parse bs") (auto simp: parse_msc_bot_interface_def try_bind_def split: sum.split)
  qed
  then show ?thesis using q by (auto simp: returns_def)
qed

context xhci_driver
begin

lemma yields_device:
  assumes o: "holds (slot_buffers sp @ conf # bs) s" and sp: "sp_ok sp" and l: "n \<le> dma_len conf"
  shows "yields (conf # bs) (ready bs) (configure_device e register sp idx n conf s)"
proof -
  have parts: "context_fits w (sp_input sp)" "4096 \<le> dma_len (sp_ep0 sp)" "18 \<le> dma_len (sp_descriptor sp)" using sp by (simp_all add: sp_ok_def)
  have disk: "ready bs (root_device sp conf (MscKind m)) s"
    if "holds (msc_buffers m @ slot_buffers sp @ conf # bs) s" "disk_ok m" for m s
  proof -
    let ?d = "root_device sp conf (MscKind m)"
    have "mset (msc_buffers m @ slot_buffers sp @ conf # bs) = mset (device_buffers ?d @ bs)"
      by (simp add: device_buffers_def root_device_def slot_buffers_def)
    from own_mset [OF that(1) this] that(2) parts(3) show ?thesis by (simp add: ready_def device_ok_def root_device_def)
  qed
  have probe: "returns (configure_and_probe_msc e register sl (sp_ep0 sp) idx (sp_input sp) iface s) (\<lambda>x. returns
      (case x of (r, s) \<Rightarrow> (case r of Inl err \<Rightarrow> fail_published e register sl (slot_buffers sp) err s
         | Inr msc \<Rightarrow> Some (Inr (root_device sp conf (MscKind msc)), s)))
      (\<lambda>(r, s). case r of Inl _ \<Rightarrow> holds (conf # bs) s | Inr d \<Rightarrow> ready bs d s))"
    if "holds (slot_buffers sp @ conf # bs) s" for sl idx iface s
    using yields_probe [OF that parts(2,1)] unfolding yields_def
  proof (rule returns_mono)
    fix x :: "(InitError + MscResources) \<times> 'h xhci"
    assume x: "case x of (r, s) \<Rightarrow> case r of Inl _ \<Rightarrow> holds (slot_buffers sp @ conf # bs) s
       | Inr m \<Rightarrow> holds (msc_buffers m @ slot_buffers sp @ conf # bs) s \<and> disk_ok m"
    obtain r t where "x = (r, t)" by (cases x)
    with x show "returns (case x of (r, s) \<Rightarrow> (case r of Inl err \<Rightarrow> fail_published e register sl (slot_buffers sp) err s
         | Inr msc \<Rightarrow> Some (Inr (root_device sp conf (MscKind msc)), s)))
      (\<lambda>(r, s). case r of Inl _ \<Rightarrow> holds (conf # bs) s | Inr d \<Rightarrow> ready bs d s)"
      using disk yields_fail [unfolded yields_def] by (cases r) auto
  qed
  show ?thesis unfolding configure_device_def Let_def yields_def using o parts(2) l
    by - (erule probe | rule returns_step | erule own_control_transfer own_load | assumption | (simp; fail)
        | rule returns_configuration returns_msc_interface
        | erule yields_fail [unfolded yields_def] | erule yields_hid [OF _ sp, unfolded yields_def])+
qed

lemma yields_configuration:
  assumes o: "holds (slot_buffers sp @ bs) s" and sp: "sp_ok sp" and h: "9 \<le> dma_len header"
  shows "yields bs (ready bs) (read_configuration e register sp idx header s)"
proof -
  have ep0: "4096 \<le> dma_len (sp_ep0 sp)" using sp by (simp add: sp_ok_def)
  have dev: "returns (configure_device e register sp idx n conf s) (\<lambda>x. returns
      (case x of (r, s) \<Rightarrow> (case r of Inl err \<Rightarrow> drop_buffers e [conf] s \<bind> (\<lambda>s. Some (Inl err, s)) | Inr d \<Rightarrow> Some (Inr d, s)))
      (\<lambda>(r, s). case r of Inl _ \<Rightarrow> holds bs s | Inr d \<Rightarrow> ready bs d s))"
    if "holds (conf # slot_buffers sp @ bs) s" "n \<le> dma_len conf" for n conf idx s
  proof -
    have "holds (slot_buffers sp @ conf # bs) s" by (rule own_mset [OF that(1)]) simp
    from yields_device [OF this sp that(2)] show ?thesis unfolding yields_def
    proof (rule returns_mono)
      fix x :: "(InitError + RootDevice) \<times> 'h xhci"
      assume x: "case x of (r, s) \<Rightarrow> case r of Inl _ \<Rightarrow> holds (conf # bs) s | Inr d \<Rightarrow> ready bs d s"
      obtain r t where "x = (r, t)" by (cases x)
      with x show "returns (case x of (r, s) \<Rightarrow> (case r of Inl err \<Rightarrow> drop_buffers e [conf] s \<bind> (\<lambda>s. Some (Inl err, s)) | Inr d \<Rightarrow> Some (Inr d, s)))
        (\<lambda>(r, s). case r of Inl _ \<Rightarrow> holds bs s | Inr d \<Rightarrow> ready bs d s)"
        by (cases r) (auto simp del: drop_buffers.simps intro: H_drop_one)
    qed
  qed
  show ?thesis unfolding read_configuration_def Let_def yields_def using o ep0 h
    by - ((erule dev, assumption) | rule returns_step | erule own_control_transfer own_load | assumption | (simp; fail)
        | erule yields_fail [unfolded yields_def]
        | (erule yields_with_buffer [unfolded yields_def], erule yields_fail [unfolded yields_def]))+
qed

lemma yields_slot:
  assumes o: "holds (slot_buffers sp @ bs) s" and sp: "sp_ok sp"
  shows "yields bs (ready bs) (address_slot e register sp s)"
proof -
  have parts: "4096 \<le> dma_len (sp_ep0 sp)" "(if w then 64 else 32) * 32 \<le> dma_len (sp_output sp)" using sp by (simp_all add: sp_ok_def)
  have conf: "returns (read_configuration e register sp idx header s \<bind> (\<lambda>(r, s). drop_buffers e [header] s \<bind> (\<lambda>s. Some (r, s))))
      (\<lambda>(r, s). case r of Inl _ \<Rightarrow> holds bs s | Inr d \<Rightarrow> ready bs d s)"
    if "holds (header # slot_buffers sp @ bs) s" "9 \<le> dma_len header" for idx header s
  proof (intro returns_bindI)
    have "holds (slot_buffers sp @ header # bs) s" by (rule own_mset [OF that(1)]) simp
    from yields_configuration [OF this sp that(2)]
    show "returns (read_configuration e register sp idx header s) (\<lambda>x. returns
        (case x of (r, s) \<Rightarrow> drop_buffers e [header] s \<bind> (\<lambda>s. Some (r, s)))
        (\<lambda>(r, s). case r of Inl _ \<Rightarrow> holds bs s | Inr d \<Rightarrow> ready bs d s))"
      unfolding yields_def
    proof (rule returns_mono)
      fix x :: "(InitError + RootDevice) \<times> 'h xhci"
      assume x: "case x of (r, s) \<Rightarrow> case r of Inl _ \<Rightarrow> holds (header # bs) s | Inr d \<Rightarrow> ready (header # bs) d s"
      obtain r t where xr: "x = (r, t)" by (cases x)
      have swap: "holds (header # device_buffers d @ bs) t" if "holds (device_buffers d @ header # bs) t" for d
        by (rule own_mset [OF that]) simp
      from x show "returns (case x of (r, s) \<Rightarrow> drop_buffers e [header] s \<bind> (\<lambda>s. Some (r, s)))
        (\<lambda>(r, s). case r of Inl _ \<Rightarrow> holds bs s | Inr d \<Rightarrow> ready bs d s)"
        unfolding xr by (cases r) (auto simp del: drop_buffers.simps simp: ready_def intro: H_drop_one dest!: swap)
    qed
  qed
  show ?thesis unfolding address_slot_def Let_def yields_def using o parts sp
    by - ((erule conf, assumption) | rule returns_step | erule own_publish_slot own_submit own_log_ep0 own_control_transfer | assumption
        | erule yields_fail [unfolded yields_def]
        | (erule yields_with_buffer [unfolded yields_def], erule yields_fail [unfolded yields_def]))+
qed

lemma yields_port: "holds bs s \<Longrightarrow> yields bs (ready bs) (address_port e register p speed gen s)"
proof -
  assume o: "holds bs s"
  have slot: "yields bs (ready bs) (address_slot e register
      \<lparr>sp_port = p, sp_generation = gen, sp_speed = speed, sp_slot = sl, sp_input = inp, sp_output = out, sp_ep0 = ep0, sp_descriptor = desc\<rparr> s)"
    if "holds (desc # ep0 # out # inp # bs) s" "context_fits w inp" "(if w then 64 else 32) * 32 \<le> dma_len out" "4096 \<le> dma_len ep0"
      "18 \<le> dma_len desc" for sl inp out ep0 desc s
  proof (rule yields_slot)
    show "holds (slot_buffers \<lparr>sp_port = p, sp_generation = gen, sp_speed = speed, sp_slot = sl, sp_input = inp, sp_output = out,
        sp_ep0 = ep0, sp_descriptor = desc\<rparr> @ bs) s" by (rule own_mset [OF that(1)]) (simp add: slot_buffers_def)
  qed (use that in \<open>simp add: sp_ok_def\<close>)
  have alloc: "yields bs (ready bs) (with_buffer e ((if w then 64 else 32) * 33) (slot_failed e register sl []) (\<lambda>inp.
      with_buffer e ((if w then 64 else 32) * 32) (slot_failed e register sl [inp]) (\<lambda>out.
      with_buffer e 4096 (slot_failed e register sl [out, inp]) (\<lambda>ep0.
      with_buffer e 18 (slot_failed e register sl [ep0, out, inp]) (\<lambda>desc. address_slot e register
        \<lparr>sp_port = p, sp_generation = gen, sp_speed = speed, sp_slot = sl, sp_input = inp, sp_output = out, sp_ep0 = ep0, sp_descriptor = desc\<rparr>)))) s)"
    if "holds bs s" for sl s
    using that
    by - (erule slot | erule yields_with_buffer | rule yields_slot_failed | assumption | (simp; fail))+
  show ?thesis unfolding address_port_def
  proof (rule yields_attempt, rule yields_of_own)
    show "returns (submit_command e register (slot_command TRB_TYPE_ENABLE_SLOT 0 0) s) Q" if "\<And>r s'. holds bs s' \<Longrightarrow> Q (r, s')" for Q
      by (rule own_submit [OF o]) (rule that)
    fix sl s'
    assume h: "holds bs s'"
    from alloc [OF h, of sl] h
    show "yields bs (ready bs) (if sl = 0 then Some (Inl (CommandFailedWith Invalid), s') else
       let csize = context_size s'; failed = slot_failed e register sl in
         with_buffer e (csize * 33) (failed []) (\<lambda>inp. with_buffer e (csize * 32) (failed [inp]) (\<lambda>out.
         with_buffer e 4096 (failed [out, inp]) (\<lambda>ep0. with_buffer e 18 (failed [ep0, out, inp]) (\<lambda>desc.
           address_slot e register \<lparr>sp_port = p, sp_generation = gen, sp_speed = speed, sp_slot = sl, sp_input = inp, sp_output = out,
              sp_ep0 = ep0, sp_descriptor = desc\<rparr>)))) s')"
      by (simp only: Let_def own_fields(1) [OF h]) (simp add: yields_def)
  qed
qed

end


section \<open>Root ports\<close>

lemma own_cong: "\<lbrakk>own bo F w bs s; ctl s' = ctl s; mach s' = mach s\<rbrakk> \<Longrightarrow> own bo F w bs s'"
  by (simp add: own_def)

lemma own_record: "\<lbrakk>own bo F w bs s; \<And>r. port (f r) = port r\<rbrakk> \<Longrightarrow> own bo F w bs (upd_record p f s)"
  using calm_record [OF calm_self] calm_own by blast

lemma own_disconnect: "own bo F w bs s \<Longrightarrow> own bo F w bs (disconnect_record p gen s)"
  unfolding disconnect_record_def by (rule calm_own, rule calm_records, erule calm_self) simp

lemma own_fail_record: "own bo F w bs s \<Longrightarrow> own bo F w bs (fail_record p s)"
  unfolding fail_record_def by (erule own_record) simp

lemma own_stage: "own bo F w bs s \<Longrightarrow> own bo F w bs (snd (stage_record p gen st s))"
  by (auto simp: stage_record_def intro: own_record split: option.split)

lemma own_observe_port:
  "\<lbrakk>own bo F w bs s; p \<noteq> 0; \<And>s'. own bo F w bs s' \<Longrightarrow> Q s'\<rbrakk> \<Longrightarrow> returns (observe_port e register p s) Q"
  by (rule calm_observe_port, erule calm_self, assumption) (blast dest: calm_own)

lemma own_status_change:
  "\<lbrakk>own bo F w bs s; \<And>s'. own bo F w bs s' \<Longrightarrow> Q s'\<rbrakk> \<Longrightarrow> returns (handle_port_status_change e register p s) Q"
  by (rule calm_status_change, erule calm_self) (blast dest: calm_own)

lemma own_push:
  assumes o: "own bo F w (device_buffers d @ bs) s" and d: "device_ok d"
  shows "own bo F w bs (push_device d s)"
proof -
  from o obtain L where l: "live_inv bo F (mach s, (device_buffers d @ bs) @ owned (ctl s) @ L)" by (auto simp: own_def)
  have "mset ((device_buffers d @ bs) @ owned (ctl s) @ L) = mset (bs @ owned (ctl (push_device d s)) @ L)"
    by (simp add: push_device_def upd_ctl_def owned_def)
  from live_inv_mset [OF l this] o d show ?thesis
    by (auto simp: own_def push_device_def upd_ctl_def ctl_inv_def)
qed

lemma register_disk_keeps:
  "device_buffers (fst (register_disk d s)) = device_buffers d" "device_ok (fst (register_disk d s)) = device_ok d"
  "ctl (snd (register_disk d s)) = ctl s" "mach (snd (register_disk d s)) = mach s"
  by (cases "d_kind d"; simp add: register_disk_def device_buffers_def msc_buffers_def device_ok_def disk_ok_def split: prod.split)+

lemma own_add:
  assumes "own bo F w (device_buffers d @ bs) s" and "device_ok d"
  shows "own bo F w bs (add_device d p s)"
proof -
  obtain d' s' where r: "register_disk d s = (d', s')" by (cases "register_disk d s")
  have "own bo F w (device_buffers d' @ bs) s'" "device_ok d'"
    using register_disk_keeps [of d s] own_cong [OF assms(1), of s'] assms(2) by (simp_all add: r)
  then show ?thesis by (simp add: add_device_def r own_record own_push)
qed

lemma wait_for_rule:
  assumes "I s" and step: "\<And>s Q. I s \<Longrightarrow> (\<And>r s'. I s' \<Longrightarrow> Q (r, s')) \<Longrightarrow> returns (ready s) Q" and q: "\<And>r s'. I s' \<Longrightarrow> Q (r, s')"
  shows "returns (wait_for n ready s) Q"
  using assms(1)
proof (induction n arbitrary: s)
  case (Suc n)
  show ?case unfolding wait_for.simps
    by (rule returns_bindI, rule step [OF Suc.prems]) (auto intro: q Suc.IH)
qed (simp add: q)

lemma own_reset:
  assumes "own bo F w bs s" and q: "\<And>r s'. own bo F w bs s' \<Longrightarrow> Q (r, s')"
  shows "returns (reset_port e register off s) Q"
  unfolding reset_port_def
  by (insert assms(1), (rule returns_step returns_SomeI | erule own_io | (erule wait_for_rule [where I = "own bo F w bs"], rule returns_step)
      | erule q | assumption | (simp; fail))+)

context xhci_driver
begin

lemma hold_finish:
  assumes r: "case r of Inl _ \<Rightarrow> holds bs s | Inr d \<Rightarrow> ready bs d s" and p: "p \<noteq> 0" and q: "\<And>s'. holds bs s' \<Longrightarrow> Q s'"
  shows "returns (finish_port e register p gen r s) Q"
proof (cases r)
  case (Inl err)
  then show ?thesis using r by (simp add: finish_port_def q own_fail_record)
next
  case (Inr d)
  then have o: "holds (device_buffers d @ bs) s" and d: "device_ok d" using r by (simp_all add: ready_def)
  have cur: "returns (port_is_current e p gen s) R" if "\<And>x s'. holds (device_buffers d @ bs) s' \<Longrightarrow> R (x, s')" for R
    unfolding port_is_current_def using o p
    by - (rule returns_step returns_SomeI calm_port_offset | erule own_io | assumption | erule that)+
  show ?thesis unfolding finish_port_def Inr sum.case
    by (rule returns_step returns_SomeI cur | erule own_disable_slot own_clear_dcbaa hold_drop
        | (rule q, erule own_add, rule d) | (rule q, erule own_push, rule d) | erule q)+
qed

lemma hold_enumerate:
  assumes o: "holds bs s" and p: "p \<noteq> 0" and q: "\<And>s'. holds bs s' \<Longrightarrow> Q s'"
  shows "returns (enumerate_port e register p gen s) Q"
proof -
  have stage: "returns (case stage_record p gen st s of (go, s) \<Rightarrow> f go s) Q" if "holds bs s" "\<And>go s. holds bs s \<Longrightarrow> returns (f go s) Q" for st s f
    using own_stage [OF that(1), of p gen st] that(2) by (cases "stage_record p gen st s") simp
  have addr: "returns (address_port e register p speed gen s) (\<lambda>x. returns (case x of (r, s) \<Rightarrow> finish_port e register p gen r s) Q)"
    if "holds bs s" for speed s
    using yields_port [OF that] unfolding yields_def
    by (rule returns_mono) (auto intro!: hold_finish [OF _ p] q split: prod.splits)
  show ?thesis unfolding enumerate_port_def Let_def [where f = "\<lambda>(go, s). f go s" for f] using o p
    by - (rule returns_bindI | rule calm_port_offset | (erule stage) | erule addr | rule returns_step returns_SomeI
        | erule own_io own_observe_port own_reset | assumption | (erule q) | (rule q, erule own_fail_record))+
qed

end


lemma mset_remove_at: "k < length xs \<Longrightarrow> mset (concat (map f xs)) = mset (f (xs ! k)) + mset (concat (map f (remove_at k xs)))"
proof -
  assume "k < length xs"
  then obtain as x bs where "xs = as @ x # bs" "length as = k" by (metis id_take_nth_drop length_take less_imp_le_nat min.absorb2)
  then show ?thesis by (auto simp: remove_at_def)
qed

lemma own_remove:
  assumes o: "own bo F w bs s" and k: "k < length (root_devices (ctl s))"
  shows "own bo F w (device_buffers (root_devices (ctl s) ! k) @ bs) (upd_ctl (\<lambda>c. c\<lparr>root_devices := remove_at k (root_devices c)\<rparr>) s)"
proof -
  let ?s = "upd_ctl (\<lambda>c. c\<lparr>root_devices := remove_at k (root_devices c)\<rparr>) s"
  from o obtain L where l: "live_inv bo F (mach s, bs @ owned (ctl s) @ L)" by (auto simp: own_def)
  have "mset (bs @ owned (ctl s) @ L) = mset ((device_buffers (root_devices (ctl s) ! k) @ bs) @ owned (ctl ?s) @ L)"
    using mset_remove_at [OF k, of device_buffers] by (simp add: owned_def upd_ctl_def)
  from live_inv_mset [OF l this]
  have "\<exists>L. live_inv bo F (mach ?s, (device_buffers (root_devices (ctl s) ! k) @ bs) @ owned (ctl ?s) @ L)"
    by (intro exI) (simp add: upd_ctl_def)
  moreover have "d \<in> set xs" if "d \<in> set (remove_at k xs)" for d :: RootDevice and xs
    using that unfolding remove_at_def by (auto dest: in_set_takeD in_set_dropD)
  ultimately show ?thesis using o unfolding own_def by (auto simp: upd_ctl_def ctl_inv_def)
qed

lemma own_set_device:
  assumes o: "own bo F w bs s" and k: "k < length (root_devices (ctl s))"
    and b: "device_buffers d = device_buffers (root_devices (ctl s) ! k)" and d: "device_ok d"
  shows "own bo F w bs (set_device k d s)"
proof -
  have "map device_buffers ((root_devices (ctl s))[k := d]) = map device_buffers (root_devices (ctl s))"
    using b k by (simp add: map_update list_update_same_conv)
  then have "owned (ctl (set_device k d s)) = owned (ctl s)" by (simp add: owned_def set_device_def upd_ctl_def)
  moreover have "set ((root_devices (ctl s))[k := d]) \<subseteq> insert d (set (root_devices (ctl s)))" by (rule set_update_subset_insert)
  ultimately show ?thesis using o d by (auto simp: own_def set_device_def upd_ctl_def ctl_inv_def)
qed

lemma own_upd:
  "\<lbrakk>own bo F w bs s; ctl_inv (f (ctl s)); owned (f (ctl s)) = owned (ctl s); context_64 (f (ctl s)) = context_64 (ctl s)\<rbrakk> \<Longrightarrow>
   own bo F w bs (upd_ctl f s)"
  by (simp add: own_def upd_ctl_def)

context xhci_driver
begin

lemma hold_remove:
  assumes o: "holds bs s" and q: "\<And>s'. holds bs s' \<Longrightarrow> Q s'"
  shows "returns (remove_port e register p gen s) Q"
proof (cases "position (\<lambda>d. d_port d = p) (root_devices (ctl s))")
  case None
  then show ?thesis using o by (simp add: remove_port_def q own_disconnect)
next
  case (Some k)
  let ?d = "root_devices (ctl s) ! k"
  have k: "k < length (root_devices (ctl s))" using position_SomeD [OF Some] by simp
  have off: "ctl (offline_disk ?d s) = ctl s" "mach (offline_disk ?d s) = mach s"
    by (auto simp: offline_disk_def split: DeviceKind.split option.split)
  have c: "calm (xh_bits e) F w bs (offline_disk ?d s) (offline_disk ?d s)" by (rule calm_self, rule own_cong [OF o]) (simp_all add: off)
  have drop: "returns (drop_buffers e (device_buffers (root_devices (ctl s') ! k))
      (upd_ctl (\<lambda>c. c\<lparr>root_devices := remove_at k (root_devices c)\<rparr>) s')) R"
    if "calm (xh_bits e) F w bs (offline_disk ?d s) s'" "\<And>s'. holds bs s' \<Longrightarrow> R s'" for s' R
  proof -
    have "k < length (root_devices (ctl s'))" using calm_fields(1) [OF that(1)] k off by simp
    from hold_drop [OF own_remove [OF calm_own [OF that(1)] this]] that(2) show ?thesis by blast
  qed
  show ?thesis unfolding remove_port_def Some option.case Let_def using c
    by - (rule returns_bindI | erule drop | rule returns_step returns_SomeI | erule calm_disable_slot calm_clear_dcbaa
        | (rule q, erule own_disconnect) | (rule q, erule calm_own) | (rule q, rule own_disconnect, assumption))+
qed

lemma hold_port_work:
  assumes "holds bs s" and q: "\<And>s'. holds bs s' \<Longrightarrow> Q s'"
  shows "returns (root_port_work e register n s) Q"
  using assms(1)
proof (induction n arbitrary: s)
  case (Suc n)
  have port: "p \<noteq> 0" if "find_map (port_work t) rs = Some (p, g, c)" "\<forall>r\<in>set rs. port r \<noteq> 0" for t rs p g c
    using that by (induction rs) (auto simp: port_work_def split: RootPortState.splits if_splits option.splits)
  show ?case
  proof (cases "find_map (port_work (poll_ticks (ctl s))) (root_ports (ctl s))")
    case None
    then show ?thesis by (simp add: q Suc.prems)
  next
    case (Some x)
    obtain p g c where x: "x = (p, g, c)" by (cases x)
    have "p \<noteq> 0" using port own_fields(3) [OF Suc.prems] Some unfolding x by blast
    with hold_remove [OF Suc.prems] hold_enumerate [OF Suc.prems] Suc.IH show ?thesis by (cases c) (simp_all add: Some x)
  qed
qed (simp add: q)

lemma hold_service:
  assumes o: "holds bs s" and q: "\<And>s'. holds bs s' \<Longrightarrow> Q s'"
  shows "returns (service_root_ports e register s) Q"
proof -
  have each: "returns (for_each (observe_port e register) ps s) R" if "holds bs s" "\<forall>p\<in>set ps. p \<noteq> 0" "\<And>s'. holds bs s' \<Longrightarrow> R s'" for ps s R
    using that(1,2)
  proof (induction ps arbitrary: s)
    case (Cons p ps)
    then show ?case by (simp, intro own_observe_port) auto
  qed (simp add: that(3))
  show ?thesis unfolding service_root_ports_def
    using own_fields(3) [OF o] o by (auto intro!: each hold_port_work q)
qed

lemma own_submit_report:
  "ctl (snd (submit_report i rep s)) = ctl s" "mach (snd (submit_report i rep s)) = mach s"
  by (cases i; simp add: submit_report_def split: prod.split)+

lemma hold_hid_event:
  assumes o: "holds bs s" and k: "k < length (root_devices (ctl s))" and q: "\<And>s'. holds bs s' \<Longrightarrow> Q s'"
  shows "returns (hid_event e register event sl k s) Q"
proof (cases "d_kind (root_devices (ctl s) ! k)")
  case (MscKind m)
  then show ?thesis by (simp add: hid_event_def Let_def q o)
next
  case (HidKind h)
  let ?d = "root_devices (ctl s) ! k"
  have ok: "device_ok ?d" using own_fields(4) [OF o] k by simp
  then have h: "hid_ok h" by (simp add: device_ok_def HidKind)
  have finish: "returns (queue_interrupt_in e register (doorbell (ctl s')) sl (h\<lparr>hid_input := i\<rparr>) s')
      (\<lambda>x. returns (case x of (h, s) \<Rightarrow> Some (set_device k (?d\<lparr>d_kind := HidKind h\<rparr>) s)) Q)"
    if "holds bs s'" "ctl s' = ctl s" for i s'
  proof (rule hw_queue_interrupt_in)
    show "hid_ok (h\<lparr>hid_input := i\<rparr>)" using h by (simp add: hid_ok_def)
    fix h' s''
    assume "hw_only s' s''" and h': "hid_ok h'" "hid_buffers h' = hid_buffers (h\<lparr>hid_input := i\<rparr>)"
    then have "holds bs s''" "ctl s'' = ctl s" using own_hw [OF that(1)] hw_only_ctl [of s' s''] that(2) by auto
    then have "holds bs (set_device k (?d\<lparr>d_kind := HidKind h'\<rparr>) s'')"
      using k h' ok by (intro own_set_device) (simp_all add: device_buffers_def HidKind hid_buffers_def device_ok_def)
    then show "returns (case (h', s'') of (h, s) \<Rightarrow> Some (set_device k (?d\<lparr>d_kind := HidKind h\<rparr>) s)) Q" by (simp add: q)
  qed
  have report: "returns (do { (rep, s) \<leftarrow> load e (report h) 0 (unat (h_max_packet_size (hid_endpoint h)) - residual) s;
        let (i, s) = submit_report (hid_input h) rep s; Some (h\<lparr>hid_input := i\<rparr>, s) })
      (\<lambda>x. returns (case x of (h, s) \<Rightarrow> do { (h, s) \<leftarrow> queue_interrupt_in e register (doorbell (ctl s)) sl h s;
         Some (set_device k (?d\<lparr>d_kind := HidKind h\<rparr>) s) }) Q)" for residual
  proof (intro returns_bindI, rule load_hw)
    show "0 + (unat (h_max_packet_size (hid_endpoint h)) - residual) \<le> dma_len (report h)"
      using h le_trans [OF diff_le_self] by (simp add: hid_ok_def)
    fix rep s'
    assume s': "hw_only s s'"
    obtain i s'' where r: "submit_report (hid_input h) rep s' = (i, s'')" by (cases "submit_report (hid_input h) rep s'")
    have e: "ctl s'' = ctl s'" "mach s'' = mach s'" using own_submit_report [of "hid_input h" rep s'] by (simp_all add: r)
    have "holds bs s''" "ctl s'' = ctl s" using own_cong [OF own_hw [OF o s'] e] e(1) hw_only_ctl [OF s'] by simp_all
    from finish [OF this] show "returns (case (rep, s') of (rep, s) \<Rightarrow> let (i, s) = submit_report (hid_input h) rep s in Some (h\<lparr>hid_input := i\<rparr>, s))
      (\<lambda>x. returns (case x of (h, s) \<Rightarrow> do { (h, s) \<leftarrow> queue_interrupt_in e register (doorbell (ctl s)) sl h s;
         Some (set_device k (?d\<lparr>d_kind := HidKind h\<rparr>) s) }) Q)" by (simp add: r)
  qed
  have "h\<lparr>hid_input := hid_input h\<rparr> = h" by simp
  then show ?thesis using finish [OF o, of "hid_input h"] report
    by (simp add: hid_event_def Let_def HidKind split: if_split)
qed

end


section \<open>The polling loop\<close>

lemma own_acknowledge_event:
  "\<lbrakk>own bo F w bs s; \<And>s'. own bo F w bs s' \<Longrightarrow> Q s'\<rbrakk> \<Longrightarrow> returns (acknowledge_event e register s) Q"
  by (rule calm_acknowledge_event, erule calm_self) (blast dest: calm_own)

lemma own_next_event:
  "\<lbrakk>own bo F w bs s; \<And>ev s'. own bo F w bs s' \<Longrightarrow> Q (ev, s')\<rbrakk> \<Longrightarrow> returns (next_event e s) Q"
  by (rule calm_next_event, erule calm_self) (blast dest: calm_own)

text \<open>A change of the counters of the controller.\<close>

lemma own_counters:
  "own bo F w bs s \<Longrightarrow> own bo F w bs (upd_ctl (\<lambda>c. c\<lparr>poll_ticks := poll_ticks c + 1\<rparr>) s)"
  "own bo F w bs s \<Longrightarrow> own bo F w bs (take_interrupt s)"
  "own bo F w bs s \<Longrightarrow> own bo F w bs (upd_ctl (\<lambda>c. c\<lparr>interrupt_count := interrupt_count c + 1, interrupt_pending := True\<rparr>) s)"
  unfolding take_interrupt_def by (rule own_upd; simp add: own_def ctl_inv_def owned_def)+

lemma own_acknowledge_interrupt:
  "\<lbrakk>own bo F w bs s; \<And>r s'. own bo F w bs s' \<Longrightarrow> Q (r, s')\<rbrakk> \<Longrightarrow> returns (acknowledge_interrupt e s) Q"
  unfolding acknowledge_interrupt_def
  by (rule returns_step returns_SomeI | erule own_io | (drule own_counters(3), assumption) | assumption | (simp add: own_counters; fail))+

context xhci_driver
begin

lemma hold_poll_event:
  assumes "holds bs s" and q: "\<And>s'. holds bs s' \<Longrightarrow> Q s'"
  shows "returns (poll_event e register event s) Q"
  unfolding poll_event_def using assms(1)
  by - (rule returns_step returns_SomeI | erule own_acknowledge_event own_status_change | erule q
      | (erule hold_hid_event, simp add: hid_target_def Let_def position_SomeD(1)) | (simp add: q; fail))+

lemma hold_poll_events:
  assumes "holds bs s" and q: "\<And>s'. holds bs s' \<Longrightarrow> Q s'"
  shows "returns (poll_events e register n s) Q"
  using assms(1)
proof (induction n arbitrary: s)
  case (Suc n)
  then show ?case
    by (simp, intro own_next_event [OF Suc.prems]) (auto split: option.split simp: q intro!: hold_poll_event)
qed (simp add: q)

lemma hold_poll:
  assumes o: "holds bs s" and q: "\<And>s'. holds bs s' \<Longrightarrow> Q s'"
  shows "returns (poll e n s) Q"
  unfolding poll_def Let_def
  by (insert own_counters(2) [OF own_counters(1) [OF o]] o, (rule returns_step returns_SomeI | erule hold_poll_events hold_service | erule q)+)

end

section \<open>Reads from a disk\<close>

lemma own_read_blocks:
  assumes o: "own bo F w bs s" and q: "\<And>r s'. own bo F w bs s' \<Longrightarrow> Q (r, s')"
  shows "returns (read_usb_blocks e i lba len s) Q"
proof (cases "len = 0 \<or> \<not> is_multiple_of len BLOCK_SIZE \<or> len > MAX_READ_BYTES \<or> lba > 0xffffffff \<or>
    position (has_usb_id i) (root_devices (ctl s)) = None")
  case True
  then show ?thesis using q [OF o] by (auto simp: read_usb_blocks_def)
next
  case False
  then obtain k where args: "\<not> (len = 0 \<or> \<not> is_multiple_of len BLOCK_SIZE \<or> len > MAX_READ_BYTES \<or> lba > 0xffffffff)"
    and pos: "position (has_usb_id i) (root_devices (ctl s)) = Some k" by blast
  let ?d = "root_devices (ctl s) ! k"
  have k: "k < length (root_devices (ctl s))" by (rule position_SomeD(1) [OF pos])
  then have d: "device_ok ?d" using own_fields(4) [OF o] by simp
  show ?thesis
  proof (cases "d_kind ?d")
    case (HidKind h)
    then show ?thesis using q [OF o] by (simp add: read_usb_blocks_def pos)
  next
    case (MscKind m)
    then have m: "disk_ok m" using d by (simp add: device_ok_def)
    then have b: "4096 \<le> dma_len (bulk_in_ring m)" "4096 \<le> dma_len (bulk_out_ring m)" "CBW_LEN \<le> dma_len (cbw_buffer m)"
      "CSW_LEN \<le> dma_len (csw_buffer m)" "pipes_ok (pipes_of m)" "0 + len \<le> dma_len (data_buffer m)"
      using args by (simp_all add: disk_ok_def pipes_ok_def pipes_of_def)
    have set: "own bo F w bs (set_device k (?d\<lparr>d_kind := MscKind (set_pipes m ps)\<rparr>) s')"
      if "calm bo F w bs s s'" "pipes_ok ps" for ps s'
    proof (rule own_set_device)
      have "root_devices (ctl s') = root_devices (ctl s)" using calm_fields(1) [OF that(1)] .
      then show "k < length (root_devices (ctl s'))"
        "device_buffers (?d\<lparr>d_kind := MscKind (set_pipes m ps)\<rparr>) = device_buffers (root_devices (ctl s') ! k)"
        using k by (simp_all add: device_buffers_def MscKind msc_buffers_def set_pipes_def)
      show "device_ok (?d\<lparr>d_kind := MscKind (set_pipes m ps)\<rparr>)"
        using d that(2) by (simp add: device_ok_def MscKind disk_ok_def pipes_ok_def set_pipes_def)
    qed (use that in \<open>simp add: calm_def\<close>)
    have tail: "returns (case r of Inl _ \<Rightarrow> Some (None, t) | Inr _ \<Rightarrow> do { (bs, s) \<leftarrow> load e (data_buffer m) 0 len t; Some (Some bs, s) }) Q"
      if "own bo F w bs t" for r :: "InitError + 'b" and t
      using that b(6) by - (rule returns_step returns_SomeI | erule own_load | assumption | erule q)+
    show ?thesis unfolding read_usb_blocks_def if_not_P [OF args] pos option.case Let_def MscKind DeviceKind.case
    proof (rule returns_ifI)
      show "returns (Some (None, s)) Q" by (simp add: q o)
    qed (rule returns_bindI, rule calm_msc_command [OF calm_self [OF o] b(1-5)], simp only: prod.case, rule tail, erule (1) set)
  qed
qed

text \<open>A block read that succeeds is of a registered disk and within its capacity.\<close>

lemma read_blocks_data:
  assumes "read_usb_blocks e i lba len s = Some (Some data, s')"
  shows "length data = len" "len \<noteq> 0" "len mod BLOCK_SIZE = 0" "len \<le> MAX_READ_BYTES"
    "\<exists>d m. d \<in> set (root_devices (ctl s)) \<and> d_kind d = MscKind m \<and> usb_id m = Some i \<and>
       unat lba + len div BLOCK_SIZE \<le> unat (blocks (msc_capacity m))"
proof -
  show len: "len \<noteq> 0" "len mod BLOCK_SIZE = 0" "len \<le> MAX_READ_BYTES"
    using assms by (auto simp: read_usb_blocks_def is_multiple_of_def BLOCK_SIZE_def split: if_splits)
  obtain k where pos: "position (has_usb_id i) (root_devices (ctl s)) = Some k"
    using assms by (cases "position (has_usb_id i) (root_devices (ctl s))") (auto simp: read_usb_blocks_def split: if_splits)
  let ?d = "root_devices (ctl s) ! k"
  obtain m where m: "d_kind ?d = MscKind m"
    using assms pos by (cases "d_kind ?d") (auto simp: read_usb_blocks_def split: if_splits)
  have id: "usb_id m = Some i" and k: "k < length (root_devices (ctl s))"
    using position_SomeD [OF pos] m by (simp_all add: has_usb_id_def)
  have "unat lba + len div BLOCK_SIZE \<le> unat (blocks (msc_capacity m))"
    using assms pos m by (auto simp: read_usb_blocks_def Let_def split: if_splits)
  then show "\<exists>d m. d \<in> set (root_devices (ctl s)) \<and> d_kind d = MscKind m \<and> usb_id m = Some i \<and>
       unat lba + len div BLOCK_SIZE \<le> unat (blocks (msc_capacity m))" using m id k by (meson nth_mem)
  show "length data = len"
    using assms pos m
    by (auto simp: read_usb_blocks_def Let_def load_def mem_bytes_def Option.bind_eq_Some_conv split: if_splits sum.splits prod.splits)
      (metis old.unit.exhaust sumE)+
qed

section \<open>Bringing a controller up\<close>

lemma port_range_nonzero: "\<lbrakk>port_start pr \<noteq> 0; p \<in> set (port_range pr)\<rbrakk> \<Longrightarrow> p \<noteq> 0"
proof -
  assume s: "port_start pr \<noteq> 0" and p: "p \<in> set (port_range pr)"
  from p obtain i where i: "p = of_nat i" "unat (port_start pr) \<le> i" "i < unat (wsat_add (port_start pr) (port_count pr))"
    by (auto simp: port_range_def)
  have "0 < i" using s i(2) by (metis gr0I le_zero_eq unsigned_eq_0_iff)
  have "i < 256" using i(3) unsigned_less [of "wsat_add (port_start pr) (port_count pr)", where ?'a = nat] by simp
  then have "unat p = i" using i(1) by (simp add: unat_of_nat)
  with \<open>0 < i\<close> show "p \<noteq> 0" by auto
qed

lemma supported_protocol_start: "supported_protocol h i = Some pr \<Longrightarrow> port_start pr \<noteq> 0"
  by (auto simp: supported_protocol_def Let_def split: if_splits)

lemma own_protocols_loop:
  assumes "own bo F w bs s" and q: "\<And>prs s'. own bo F w bs s' \<Longrightarrow> \<forall>pr\<in>set prs. port_start pr \<noteq> 0 \<Longrightarrow> Q (prs, s')"
  shows "returns (supported_protocols_loop e register n offset s) Q"
  using assms
proof (induction n arbitrary: s offset Q)
  case (Suc n)
  have tail: "returns (let nxt = unat (drop_bit XECAP_NEXT_SHIFT (h AND XECAP_NEXT_MASK)) * 4 in
      if nxt = 0 \<or> nxt = offset then Some (found, s)
      else do { (rest, s) \<leftarrow> supported_protocols_loop e register n (saturating_add offset nxt) s; Some (found @ rest, s) }) Q"
    if "own bo F w bs s" "\<forall>pr\<in>set found. port_start pr \<noteq> 0" for h found s
    using that by - (rule returns_step returns_SomeI | erule Suc.IH | (erule (1) Suc.prems(2)) | (rule Suc.prems(2), assumption, auto))+
  have protocol: "\<forall>pr\<in>set (case supported_protocol v u of Some pr \<Rightarrow> [pr] | None \<Rightarrow> []). port_start pr \<noteq> 0" for v u
    by (auto split: option.splits dest: supported_protocol_start [OF sym])
  have none: "\<forall>pr\<in>set []. port_start pr \<noteq> 0" by simp
  show ?case
  proof (cases "offset = 0")
    case True
    then show ?thesis using Suc.prems by simp
  next
    case False
    show ?thesis unfolding supported_protocols_loop.simps if_not_P [OF False]
      by (insert Suc.prems(1), (erule tail [OF _ protocol] tail [OF _ none] | rule returns_bindI returns_SomeI returns_prodI returns_ifI | erule own_io)+)
  qed
qed simp

lemma own_protocols:
  assumes "own bo F w bs s" and q: "\<And>prs s'. own bo F w bs s' \<Longrightarrow> \<forall>pr\<in>set prs. port_start pr \<noteq> 0 \<Longrightarrow> Q (prs, s')"
  shows "returns (supported_protocols e register s) Q"
  unfolding supported_protocols_def
  by (insert assms(1), (rule returns_step | erule own_io own_protocols_loop | (erule (1) q))+)

lemma own_port_records:
  "\<lbrakk>own bo F w bs s; \<forall>pr\<in>set prs. port_start pr \<noteq> 0\<rbrakk> \<Longrightarrow>
   own bo F w bs (upd_ctl (\<lambda>c. c\<lparr>protocols := prs,
     root_ports := concat (map (\<lambda>pr. map (\<lambda>p. port_new p pr 0) (port_range pr)) (filter usb2 prs))\<rparr>) s)"
  by (rule own_upd) (auto simp: own_def ctl_inv_def owned_def dest: port_range_nonzero)

context xhci_driver
begin

lemma hold_for_each:
  assumes "\<And>x s Q. \<lbrakk>x \<in> set xs; holds bs s; \<And>s'. holds bs s' \<Longrightarrow> Q s'\<rbrakk> \<Longrightarrow> returns (f x s) Q"
    and "holds bs s" and q: "\<And>s'. holds bs s' \<Longrightarrow> R s'"
  shows "returns (for_each f xs s) R"
  using assms(1,2)
proof (induction xs arbitrary: s)
  case (Cons x xs)
  show ?case unfolding for_each.simps
    by (rule returns_bindI, rule Cons.prems(1)) (use Cons in auto)
qed (simp add: q)

lemma hold_enumerate_at_boot:
  assumes o: "holds bs s" and p: "p \<noteq> 0" and q: "\<And>s'. holds bs s' \<Longrightarrow> Q s'"
  shows "returns (enumerate_at_boot e register p s) Q"
proof -
  have finish: "returns (case r of Inl _ \<Rightarrow> Some (upd_record p (\<lambda>r. mark_failed r 0) s)
      | Inr d \<Rightarrow> do { (_, s) \<leftarrow> load e (device_descriptor d) 0 18 s; Some (add_device d p s) }) Q"
    if "case r of Inl _ \<Rightarrow> holds bs s | Inr d \<Rightarrow> ready bs d s" for r s
  proof (cases r)
    case (Inl err)
    then show ?thesis using that by (simp add: q own_record)
  next
    case (Inr d)
    then have d: "holds (device_buffers d @ bs) s" "device_ok d" "0 + 18 \<le> dma_len (device_descriptor d)"
      using that by (simp_all add: ready_def device_ok_def)
    show ?thesis unfolding Inr sum.case
      by (insert d, (rule returns_step returns_SomeI | erule own_load | assumption | (rule q, erule own_add, assumption))+)
  qed
  have addr: "returns (address_port e register p speed gen s) (\<lambda>x. returns (case x of (r, s) \<Rightarrow>
      (case r of Inl _ \<Rightarrow> Some (upd_record p (\<lambda>r. mark_failed r 0) s)
       | Inr d \<Rightarrow> do { (_, s) \<leftarrow> load e (device_descriptor d) 0 18 s; Some (add_device d p s) })) Q)"
    if "holds bs s" for speed gen s
    using yields_port [OF that] unfolding yields_def
    by (rule returns_mono) (auto intro!: finish simp del: add_device_def split: prod.splits)
  have noted: "returns (let s = upd_record p (\<lambda>r. mark_stage (r\<lparr>portsc := v\<rparr>) st) s in f s) Q"
    if "holds bs s" "\<And>s'. holds bs s' \<Longrightarrow> returns (f s') Q" for v st s f
    using that(2) [OF own_record [OF that(1)]] by simp
  have gone: "holds bs (upd_record p (\<lambda>r. mark_stage r st) s)" if "holds bs s" for st s
    by (rule own_record [OF that]) simp
  show ?thesis unfolding enumerate_at_boot_def using o p
    by - (erule addr | rule returns_bindI returns_ifI | rule calm_port_offset | erule own_io
        | assumption | erule noted | rule returns_step returns_SomeI | (erule own_reset) | (erule q) | (rule q, erule gone))+
qed

lemma hold_boot:
  assumes o: "holds bs s" and q: "\<And>s'. holds bs s' \<Longrightarrow> Q s'"
  shows "returns (enumerate_root_ports e register s) Q"
proof -
  have each: "returns (for_each (\<lambda>pr s. if \<not> usb2 pr then Some s else for_each (enumerate_at_boot e register) (port_range pr) s) prs s) Q"
    if "holds bs s" "\<forall>pr\<in>set prs. port_start pr \<noteq> 0" for prs s
  proof (rule hold_for_each [OF _ that(1) q])
    fix pr s Q
    assume pr: "pr \<in> set prs" and h: "holds bs s" and Q: "\<And>s'. holds bs s' \<Longrightarrow> Q s'"
    have "p \<noteq> 0" if "p \<in> set (port_range pr)" for p
      using port_range_nonzero [OF _ that] \<open>\<forall>pr\<in>set prs. port_start pr \<noteq> 0\<close> pr by blast
    then show "returns (if \<not> usb2 pr then Some s else for_each (enumerate_at_boot e register) (port_range pr) s) Q"
      using h Q by (auto intro!: hold_for_each [where bs = bs] hold_enumerate_at_boot)
  qed
  have go: "returns (let s = upd_ctl (\<lambda>c. c\<lparr>protocols := prs,
            root_ports := concat (map (\<lambda>pr. map (\<lambda>p. port_new p pr 0) (port_range pr)) (filter usb2 prs))\<rparr>) s in
          for_each (\<lambda>pr s. if \<not> usb2 pr then Some s else for_each (enumerate_at_boot e register) (port_range pr) s) prs s) Q"
    if "holds bs s" "\<forall>pr\<in>set prs. port_start pr \<noteq> 0" for prs s
    using each [OF own_port_records [OF that] that(2)] by simp
  show ?thesis unfolding enumerate_root_ports_def using o
    by - (erule go | rule returns_bindI returns_prodI returns_ifI returns_SomeI | erule own_protocols own_io | (simp; fail) | assumption
        | rule returns_letI)+
qed

end

text \<open>The buffers of a controller that does not exist yet.\<close>

definition spare :: "bit_ops \<Rightarrow> nat set \<Rightarrow> dma_buffer list \<Rightarrow> 'h world \<Rightarrow> bool" where
  "spare bo F bs s \<longleftrightarrow> (\<exists>L. live_inv bo F (mach s, bs @ L))"

lemma spare_mset: "\<lbrakk>spare bo F bs s; mset bs = mset bs'\<rbrakk> \<Longrightarrow> spare bo F bs' s"
  unfolding spare_def using live_inv_mset by (metis mset_append)

lemma spare_hw:
  assumes "spare bo F bs s" and h: "hw_only s s'"
  shows "spare bo F bs s'"
proof -
  have "live_inv bo F (mach s', X) \<longleftrightarrow> live_inv bo F (mach s, X)" for X
    by (subst hw_only_machine(1) [OF h]) simp
  then show ?thesis using assms(1) by (simp add: spare_def)
qed

lemma spare_store:
  "\<lbrakk>spare bo F bs s; off + length d \<le> dma_len b; \<And>s'. spare bo F bs s' \<Longrightarrow> Q s'\<rbrakk> \<Longrightarrow> returns (store e b off d s) Q"
  by (erule store_hw) (blast intro: spare_hw)

lemma spare_store64:
  "\<lbrakk>spare bo F bs s; off + 8 \<le> dma_len b; \<And>s'. spare bo F bs s' \<Longrightarrow> Q s'\<rbrakk> \<Longrightarrow> returns (store64 e b off v s) Q"
  by (erule store64_hw) (blast intro: spare_hw)

lemma spare_store_trb:
  "\<lbrakk>spare bo F bs s; (i + 1) * 16 \<le> dma_len b; \<And>s'. spare bo F bs s' \<Longrightarrow> Q s'\<rbrakk> \<Longrightarrow> returns (store_trb e b i t s) Q"
  by (erule store_trb_hw) (blast intro: spare_hw)

sublocale xhci_driver < fresh: buffer_owner e "spare (xh_bits e) F"
proof
  fix bs :: "dma_buffer list" and s :: "'h world" and Q :: "(InitError + dma_buffer) \<times> 'h world \<Rightarrow> bool" and len al
  assume s: "spare (xh_bits e) F bs s" and q: "\<And>s'. spare (xh_bits e) F bs s' \<Longrightarrow> Q (Inl Allocation, s')"
    "\<And>b s'. spare (xh_bits e) F (b # bs) s' \<Longrightarrow> len \<le> dma_len b \<Longrightarrow> Q (Inr b, s')"
  from s obtain L where l: "live_inv (xh_bits e) F (mach s, bs @ L)" by (auto simp: spare_def)
  show "returns (new_buffer e len al s) Q"
    by (rule new_buffer_live [OF l]) (use l in \<open>auto intro!: q simp: spare_def\<close>)
next
  fix xs bs :: "dma_buffer list" and s :: "'h world" and R :: "'h world \<Rightarrow> bool"
  assume s: "spare (xh_bits e) F (xs @ bs) s" and r: "\<And>s'. spare (xh_bits e) F bs s' \<Longrightarrow> R s'"
  from s obtain L where "live_inv (xh_bits e) F (mach s, xs @ bs @ L)" by (auto simp: spare_def)
  then show "returns (drop_buffers e xs s) R" by (rule drop_buffers_live) (auto intro!: r simp: spare_def)
qed

context xhci_driver
begin

lemma spare_yields_mset: "\<lbrakk>fresh.yields bs G m; mset bs = mset bs'\<rbrakk> \<Longrightarrow> fresh.yields bs' G m"
  unfolding fresh.yields_def by (erule returns_mono) (auto split: sum.splits elim: spare_mset)

text \<open>What \<^verbatim>\<open>new\<close> establishes, with \<open>bs\<close> the buffers of others.\<close>

definition fresh_controller :: "dma_buffer list \<Rightarrow> ControllerResources \<Rightarrow> 'h world \<Rightarrow> bool" where
  "fresh_controller bs c s \<longleftrightarrow> spare (xh_bits e) F (owned c @ bs) s \<and> ctl_inv c \<and> \<not> context_64 c"

lemma yields_finish_new:
  assumes B: "spare (xh_bits e) F B s" and d: "2048 \<le> dma_len dcb" and arr: "\<And>a. arr = Some a \<Longrightarrow> 8 \<le> dma_len a"
    and own: "mset B = mset (dcb # (case arr of Some a \<Rightarrow> [a] | None \<Rightarrow> []) @ pads @ bs)"
  shows "fresh.yields B (fresh_controller bs) (finish_new e m dcb arr pads s)"
proof -
  define ready_controller where "ready_controller cmd evs seg =
    \<lparr>mapping = m, dcbaa = dcb, scratchpad_array = arr, scratchpads = pads, command_ring = cmd,
       event_buffer = evs, erst = seg, event_consumer = 0, event_cycle = True, event_count = 0, command_producer = 0,
       command_cycle = True, runtime = 0, doorbell = 0, op_base = 0, context_64 = False, root_devices = [],
       root_ports = [], protocols = [], interrupt_pending = False, interrupt_count = 0, msi_vector = None,
       logged_interrupt_count = 0, poll_ticks = 0, healthy = True\<rparr>" for cmd evs seg
  have all: "fresh_controller bs (ready_controller cmd evs seg) t"
    if "spare (xh_bits e) F (seg # evs # cmd # B) t" "4096 \<le> dma_len cmd" "EVENT_RING_ENTRIES * 16 \<le> dma_len evs" for cmd evs seg t
  proof -
    have "mset (seg # evs # cmd # B) = mset (owned (ready_controller cmd evs seg) @ bs)"
      using own by (simp add: owned_def ready_controller_def)
    from spare_mset [OF that(1) this] that(2,3) d show ?thesis
      by (simp add: fresh_controller_def ctl_inv_def ready_controller_def EVENT_RING_ENTRIES_def TRANSFER_RING_ENTRIES_def COMMAND_RING_ENTRIES_def)
  qed
  have stores: "fresh.yields (seg # evs # cmd # B) (fresh_controller bs)
      (do { w \<leftarrow> store_trb e cmd (COMMAND_RING_ENTRIES - 1) (link_to cmd True) t;
            w \<leftarrow> store e seg 0 (u64_to_le (of_nat (physical_address evs)) @ u32_to_le (of_nat EVENT_RING_ENTRIES) @ u32_to_le 0) w;
            w \<leftarrow> (case arr of Some a \<Rightarrow> store64 e dcb 0 (of_nat (physical_address a)) w | None \<Rightarrow> Some w);
            Some (Inr (ready_controller cmd evs seg), w) })"
    if "spare (xh_bits e) F (seg # evs # cmd # B) t" "4096 \<le> dma_len cmd" "EVENT_RING_ENTRIES * 16 \<le> dma_len evs" "16 \<le> dma_len seg"
    for cmd evs seg t
    unfolding fresh.yields_def using that d
    by - (rule returns_step returns_SomeI | erule spare_store_trb spare_store64 | (erule spare_store, simp add: u32_to_le_def) | assumption
        | (simp add: all COMMAND_RING_ENTRIES_def; fail))+
  show ?thesis unfolding finish_new_def ready_controller_def [symmetric]
    by (insert B, (erule fresh.yields_owned | (erule stores, assumption, assumption, assumption))+)
qed

lemma yields_scratchpad_pages:
  assumes "spare (xh_bits e) F B s" and "(index + n) * 8 \<le> dma_len arr"
    and "\<And>pages s. spare (xh_bits e) F (pages @ B) s \<Longrightarrow> fresh.yields (pages @ B) G (rest pages s)"
  shows "fresh.yields B G (scratchpad_pages e arr index n rest s)"
  using assms
proof (induction n arbitrary: B index rest s)
  case 0
  then show ?case using 0(3) [of "[]"] by simp
next
  case (Suc n)
  show ?case unfolding scratchpad_pages.simps
  proof (rule fresh.yields_owned [OF Suc.prems(1)])
    fix b and t :: "'h world"
    assume b: "spare (xh_bits e) F (b # B) t"
    have rest: "fresh.yields (pages @ b # B) G (rest (b # pages) u)" if "spare (xh_bits e) F (pages @ b # B) u" for pages u
    proof (rule spare_yields_mset [of "(b # pages) @ B"], rule Suc.prems(3), rule spare_mset [OF that])
    qed simp_all
    show "fresh.yields (b # B) G (do { w \<leftarrow> store64 e arr (index * 8) (of_nat (physical_address b)) t;
        scratchpad_pages e arr (index + 1) n (\<lambda>pages. rest (b # pages)) w })"
      unfolding fresh.yields_def
      by (rule returns_bindI, rule spare_store64 [OF b])
        (use Suc.prems(2) Suc.IH [OF _ _ rest] in \<open>auto simp: fresh.yields_def\<close>)
  qed
qed

lemma yields_new:
  assumes "spare (xh_bits e) F bs s"
  shows "fresh.yields bs (fresh_controller bs) (controller_new e m hcs2 s)"
proof -
  have none: "fresh.yields (dcb # bs) (fresh_controller bs) (finish_new e m dcb None [] t)"
    if "spare (xh_bits e) F (dcb # bs) t" "256 * 8 \<le> dma_len dcb" for dcb t
    using that by (intro yields_finish_new) simp_all
  have some: "fresh.yields (arr # dcb # bs) (fresh_controller bs) (scratchpad_pages e arr 0 n (finish_new e m dcb (Some arr)) t)"
    if "spare (xh_bits e) F (arr # dcb # bs) t" "n * 8 \<le> dma_len arr" "n \<noteq> 0" "256 * 8 \<le> dma_len dcb" for n arr dcb t
  proof (rule yields_scratchpad_pages [OF that(1)])
    fix pages and u :: "'h world"
    assume u: "spare (xh_bits e) F (pages @ arr # dcb # bs) u"
    show "fresh.yields (pages @ arr # dcb # bs) (fresh_controller bs) (finish_new e m dcb (Some arr) pages u)"
      using that(2-4) by (intro yields_finish_new [OF u]) auto
  qed (use that in simp)
  show ?thesis unfolding controller_new_def Let_def
  proof (rule fresh.yields_owned [OF assms])
    fix dcb and t :: "'h world"
    assume t: "spare (xh_bits e) F (dcb # bs) t" "256 * 8 \<le> dma_len dcb"
    show "fresh.yields (dcb # bs) (fresh_controller bs) ((if scratch_count hcs2 = 0 then finish_new e m dcb None []
        else owned_buffer e (scratch_count hcs2 * 8) 64 (\<lambda>arr. scratchpad_pages e arr 0 (scratch_count hcs2) (finish_new e m dcb (Some arr)))) t)"
      using t by (auto intro!: none fresh.yields_owned some)
  qed
qed

end

text \<open>Starting the controller; when that fails the controller and its buffers are dropped.\<close>

lemma own_program_registers:
  "\<lbrakk>own bo F w bs s; \<And>s'. own bo F w bs s' \<Longrightarrow> Q s'\<rbrakk> \<Longrightarrow> returns (program_registers e base op rt n s) Q"
  unfolding program_registers_def by (rule returns_step | erule own_io | assumption)+

lemma own_width:
  "own bo F v bs s \<Longrightarrow>
   own bo F w bs (upd_ctl (\<lambda>c. c\<lparr>runtime := rt, doorbell := db, op_base := cap, context_64 := w\<rparr>) s)"
  by (simp add: own_def upd_ctl_def ctl_inv_def owned_def)

context xhci_driver
begin

lemma drop_controller:
  assumes o: "own (xh_bits e) F v bs s" and q: "\<And>s'. \<exists>L. live_inv (xh_bits e) F (mach s', bs @ L) \<Longrightarrow> Q s'"
  shows "returns (drop_buffers e (owned (ctl s)) s) Q"
proof -
  from o obtain L where l: "live_inv (xh_bits e) F (mach s, bs @ owned (ctl s) @ L)" by (auto simp: own_def)
  have "mset (bs @ owned (ctl s) @ L) = mset (owned (ctl s) @ bs @ L)" by simp
  from live_inv_mset [OF l this] show ?thesis by (rule drop_buffers_live) (auto intro!: q)
qed

lemma hold_start:
  assumes o: "own (xh_bits e) F v bs s"
    and fail: "\<And>err s'. \<exists>L. live_inv (xh_bits e) F (mach s', bs @ L) \<Longrightarrow> Q (Inl err, s')"
    and q: "\<And>s'. holds bs s' \<Longrightarrow> Q (Inr (), s')"
  shows "returns (start_controller e base cap n w s) Q"
proof -
  have dropped: "returns (do { s \<leftarrow> drop_buffers e (owned (ctl s)) s; Some (Inl err, s) }) Q" if "own (xh_bits e) F x bs s" for x err s
    by (intro returns_bindI drop_controller [OF that]) (simp add: fail)
  have wait: "returns (wait_for k (\<lambda>s. do { (v, s) \<leftarrow> read32 e base off s; Some (v AND USBSTS_HCHALTED = 0, s) }) s) R"
    if "own (xh_bits e) F v bs s" "\<And>r s'. own (xh_bits e) F v bs s' \<Longrightarrow> R (r, s')" for k off s R
    by (rule wait_for_rule [where I = "own (xh_bits e) F v bs", OF that(1)])
      ((rule returns_step returns_SomeI | erule own_io that(2) | assumption)+)
  have run: "returns (let s = upd_ctl (\<lambda>c. c\<lparr>runtime := rt, doorbell := db, op_base := cap, context_64 := w\<rparr>) s in
      do { (r, s) \<leftarrow> submit_command e base t s;
           case r of Inl err \<Rightarrow> do { s \<leftarrow> drop_buffers e (owned (ctl s)) s; Some (Inl err, s) }
             | Inr _ \<Rightarrow> do { s \<leftarrow> enumerate_root_ports e base s; Some (Inr (), s) } }) Q"
    if "own (xh_bits e) F v bs s" for rt db t s
    by (insert own_width [OF that, where w = w and rt = rt and db = db and cap = cap], rule returns_letI)
      (erule dropped | rule returns_step returns_SomeI | erule own_io hold_boot | erule q)+
  show ?thesis unfolding start_controller_def
    by (insert o, (erule run dropped | rule returns_bindI returns_prodI returns_ifI | erule own_program_registers wait own_io | rule returns_letI)+)
qed

end

end
