(* ===== verification/Pcie.thy ===== *)
theory Pcie
  imports Dma
begin

text \<open>
  PCI Express configuration space, \<^verbatim>\<open>kernel/src/pcie/enumrate.rs\<close>: typed access with its bounds, the capability list,
  memory bars and the enumeration of the functions of all buses.

  The configuration space is memory of the devices, so that a read may give anything and may change the
  state of the hardware: the record \<open>pci_env\<close> is a parameter. Addresses are virtual addresses in the
  direct map. The regions come from the ACPI tables and are an argument.
\<close>

section \<open>Addresses\<close>

record Bdf =
  bdf_bus :: u8
  bdf_device :: u8
  bdf_function :: u8

definition bdf_new :: "u8 \<Rightarrow> u8 \<Rightarrow> u8 \<Rightarrow> Bdf option" where
  "bdf_new b d f = (if d < 32 \<and> f < 8 then Some \<lparr>bdf_bus = b, bdf_device = d, bdf_function = f\<rparr> else None)"

definition bdf_offset :: "Bdf \<Rightarrow> u8 \<Rightarrow> u64 option" where
  "bdf_offset b bus_start =
     (if bdf_bus b < bus_start then None
      else Some (push_bit 20 (ucast (bdf_bus b - bus_start)) OR push_bit 15 (ucast (bdf_device b)) OR push_bit 12 (ucast (bdf_function b))))"

datatype MemoryBar = Bits32 u64 | Bits64 u64

definition decode_memory_bar :: "u32 \<Rightarrow> u32 \<Rightarrow> MemoryBar option" where
  "decode_memory_bar low high =
     (if low AND 1 \<noteq> 0 then None
      else
        let kind = drop_bit 1 low AND 3;
            address = (ucast low AND 0xfffffff0) OR push_bit 32 (ucast high) in
        if kind = 0 then Some (Bits32 address) else if kind = 2 then Some (Bits64 address) else None)"

section \<open>Access to the configuration space\<close>

record 's pci_env =
  cfg_read8 :: "'s \<Rightarrow> nat \<Rightarrow> u8 \<times> 's"
  cfg_read16 :: "'s \<Rightarrow> nat \<Rightarrow> u16 \<times> 's"
  cfg_read32 :: "'s \<Rightarrow> nat \<Rightarrow> u32 \<times> 's"
  cfg_write8 :: "'s \<Rightarrow> nat \<Rightarrow> u8 \<Rightarrow> 's"
  cfg_write16 :: "'s \<Rightarrow> nat \<Rightarrow> u16 \<Rightarrow> 's"
  cfg_write32 :: "'s \<Rightarrow> nat \<Rightarrow> u32 \<Rightarrow> 's"

text \<open>The methods of \<^verbatim>\<open>PCIConfigSpace\<close>; \<open>cfg\<close> is the address of the space.\<close>

definition read_u8 :: "'s pci_env \<Rightarrow> nat \<Rightarrow> nat \<Rightarrow> 's \<Rightarrow> (u8 \<times> 's) option" where
  "read_u8 pe cfg off s = (if off < 4096 then Some (cfg_read8 pe s (cfg + off)) else None)"

definition read_u16 :: "'s pci_env \<Rightarrow> nat \<Rightarrow> nat \<Rightarrow> 's \<Rightarrow> (u16 \<times> 's) option" where
  "read_u16 pe cfg off s = (if off + 2 \<le> 4096 \<and> off mod 2 = 0 then Some (cfg_read16 pe s (cfg + off)) else None)"

definition read_u32 :: "'s pci_env \<Rightarrow> nat \<Rightarrow> nat \<Rightarrow> 's \<Rightarrow> (u32 \<times> 's) option" where
  "read_u32 pe cfg off s = (if off + 4 \<le> 4096 \<and> off mod 4 = 0 then Some (cfg_read32 pe s (cfg + off)) else None)"

definition write_u8 :: "'s pci_env \<Rightarrow> nat \<Rightarrow> nat \<Rightarrow> u8 \<Rightarrow> 's \<Rightarrow> 's option" where
  "write_u8 pe cfg off v s = (if off < 4096 then Some (cfg_write8 pe s (cfg + off) v) else None)"

definition write_u16 :: "'s pci_env \<Rightarrow> nat \<Rightarrow> nat \<Rightarrow> u16 \<Rightarrow> 's \<Rightarrow> 's option" where
  "write_u16 pe cfg off v s = (if off + 2 \<le> 4096 \<and> off mod 2 = 0 then Some (cfg_write16 pe s (cfg + off) v) else None)"

definition write_u32 :: "'s pci_env \<Rightarrow> nat \<Rightarrow> nat \<Rightarrow> u32 \<Rightarrow> 's \<Rightarrow> 's option" where
  "write_u32 pe cfg off v s = (if off + 4 \<le> 4096 \<and> off mod 4 = 0 then Some (cfg_write32 pe s (cfg + off) v) else None)"

definition update_command :: "'s pci_env \<Rightarrow> nat \<Rightarrow> u16 \<Rightarrow> u16 \<Rightarrow> 's \<Rightarrow> 's option" where
  "update_command pe cfg bits_set bits_clear s =
     do { (v, s) \<leftarrow> read_u16 pe cfg 0x04 s;
          write_u16 pe cfg 0x04 ((v OR bits_set) AND NOT bits_clear) s }"

text \<open>The fields of the record that the drivers read directly.\<close>

definition vendor_id :: "'s pci_env \<Rightarrow> nat \<Rightarrow> 's \<Rightarrow> u16 \<times> 's" where
  "vendor_id pe cfg s = cfg_read16 pe s (cfg + 0x00)"

definition prog_if :: "'s pci_env \<Rightarrow> nat \<Rightarrow> 's \<Rightarrow> u8 \<times> 's" where
  "prog_if pe cfg s = cfg_read8 pe s (cfg + 0x09)"

definition sub_class :: "'s pci_env \<Rightarrow> nat \<Rightarrow> 's \<Rightarrow> u8 \<times> 's" where
  "sub_class pe cfg s = cfg_read8 pe s (cfg + 0x0a)"

definition class_code :: "'s pci_env \<Rightarrow> nat \<Rightarrow> 's \<Rightarrow> u8 \<times> 's" where
  "class_code pe cfg s = cfg_read8 pe s (cfg + 0x0b)"

definition header_type :: "'s pci_env \<Rightarrow> nat \<Rightarrow> 's \<Rightarrow> u8 \<times> 's" where
  "header_type pe cfg s = cfg_read8 pe s (cfg + 0x0e)"

section \<open>Capabilities\<close>

record Capability =
  cap_id :: u8
  cap_offset :: u8

record CapabilityIter =
  ci_next :: u8
  ci_seen :: "u8 list"
  ci_count :: nat

definition capabilities :: "'s pci_env \<Rightarrow> nat \<Rightarrow> 's \<Rightarrow> (CapabilityIter \<times> 's) option" where
  "capabilities pe cfg s =
     do { (st, s) \<leftarrow> read_u16 pe cfg 0x06 s;
          (first, s) \<leftarrow> (if st AND push_bit 4 1 \<noteq> 0 then read_u8 pe cfg 0x34 s else Some (0, s));
          Some (\<lparr>ci_next = first, ci_seen = replicate 256 0, ci_count = 0\<rparr>, s) }"

definition capability_next :: "'s pci_env \<Rightarrow> nat \<Rightarrow> CapabilityIter \<Rightarrow> 's \<Rightarrow> ((Capability option \<times> CapabilityIter) \<times> 's) option" where
  "capability_next pe cfg it s =
     (let offset = ci_next it in
      if offset < 0x40 \<or> offset AND 3 \<noteq> 0 \<or> ci_count it \<ge> length (ci_seen it) \<or> ci_seen it ! unat offset \<noteq> 0
      then Some ((None, it\<lparr>ci_next := 0\<rparr>), s)
      else
        do { let it = it\<lparr>ci_seen := (ci_seen it)[unat offset := 1], ci_count := ci_count it + 1\<rparr>;
             (i, s) \<leftarrow> read_u8 pe cfg (unat offset) s;
             (n, s) \<leftarrow> read_u8 pe cfg (unat offset + 1) s;
             Some ((Some \<lparr>cap_id = i, cap_offset = offset\<rparr>, it\<lparr>ci_next := n\<rparr>), s) })"

lemma capability_next_count:
  "capability_next pe cfg it s = Some ((Some c, it'), s') \<Longrightarrow>
   length (ci_seen it') - ci_count it' < length (ci_seen it) - ci_count it"
  by (auto simp: capability_next_def Let_def Option.bind_eq_Some_conv split: if_splits)

text \<open>\<^verbatim>\<open>capabilities().find(P)\<close>; the iterator gives a bounded number of capabilities.\<close>

function capability_find ::
  "'s pci_env \<Rightarrow> nat \<Rightarrow> (Capability \<Rightarrow> bool) \<Rightarrow> CapabilityIter \<Rightarrow> 's \<Rightarrow> (Capability option \<times> 's) option" where
  "capability_find pe cfg P it s =
     (case capability_next pe cfg it s of
        None \<Rightarrow> None
      | Some ((None, it), s) \<Rightarrow> Some (None, s)
      | Some ((Some c, it), s) \<Rightarrow> if P c then Some (Some c, s) else capability_find pe cfg P it s)"
  by pat_completeness auto
termination
  by (relation "measure (\<lambda>(pe, cfg, P, it, s). length (ci_seen it) - ci_count it)") (auto dest: capability_next_count)

declare capability_find.simps [simp del]

section \<open>Enumeration\<close>

record pci_region =
  region_address :: nat
  bus_first :: u8
  bus_last :: u8

definition get_config_space :: "nat \<Rightarrow> u8 \<Rightarrow> u8 \<Rightarrow> u8 \<Rightarrow> nat option" where
  "get_config_space base b d f =
     do { a \<leftarrow> checked_add base (unat b * 2 ^ 20);
          a \<leftarrow> checked_add a (unat d * 2 ^ 15);
          checked_add a (unat f * 2 ^ 12) }"

definition check_at :: "'s pci_env \<Rightarrow> nat \<Rightarrow> Bdf \<Rightarrow> (u8 \<Rightarrow> u8 \<Rightarrow> u8 \<Rightarrow> nat \<Rightarrow> 's \<Rightarrow> 's option) \<Rightarrow> 's \<Rightarrow> (bool \<times> 's) option" where
  "check_at pe base b hook s =
     do { cfg \<leftarrow> get_config_space base 0 (bdf_device b) (bdf_function b);
          let (v, s) = vendor_id pe cfg s;
          let (present, s) = (if v \<noteq> 0xffff then let (v, s) = vendor_id pe cfg s in (v \<noteq> 0, s) else (False, s));
          s \<leftarrow> (if present then hook (bdf_bus b) (bdf_device b) (bdf_function b) cfg s else Some s);
          Some (if present then let (h, s) = header_type pe cfg s in (h AND 0x80 \<noteq> 0, s) else (False, s)) }"

definition check_device ::
  "'s pci_env \<Rightarrow> nat \<Rightarrow> u8 \<Rightarrow> (u8 \<Rightarrow> u8 \<Rightarrow> u8 \<Rightarrow> nat \<Rightarrow> 's \<Rightarrow> 's option) \<Rightarrow> u8 \<Rightarrow> 's \<Rightarrow> 's option" where
  "check_device pe base b hook d s =
     do { bdf \<leftarrow> bdf_new b d 0;
          (multi, s) \<leftarrow> check_at pe base bdf hook s;
          if multi then for_each (\<lambda>f s. do { bdf \<leftarrow> bdf_new b d f; (_, s) \<leftarrow> check_at pe base bdf hook s; Some s }) (map of_nat [1..<8]) s
          else Some s }"

definition check_bus ::
  "'s pci_env \<Rightarrow> nat \<Rightarrow> pci_region \<Rightarrow> (u8 \<Rightarrow> u8 \<Rightarrow> u8 \<Rightarrow> nat \<Rightarrow> 's \<Rightarrow> 's option) \<Rightarrow> u8 \<Rightarrow> 's \<Rightarrow> 's option" where
  "check_bus pe offset region hook b s =
     for_each (\<lambda>d s.
       do { v \<leftarrow> checked_add (region_address region) offset;
            base \<leftarrow> checked_add v (unat (b - bus_first region) * 2 ^ 20);
            check_device pe base b hook d s }) (map of_nat [0..<32]) s"

definition region_buses :: "pci_region \<Rightarrow> u8 list" where
  "region_buses r = map of_nat [unat (bus_first r)..<Suc (unat (bus_last r))]"

definition doit ::
  "'s pci_env \<Rightarrow> nat \<Rightarrow> pci_region list \<Rightarrow> (u8 \<Rightarrow> u8 \<Rightarrow> u8 \<Rightarrow> nat \<Rightarrow> 's \<Rightarrow> 's option) \<Rightarrow> 's \<Rightarrow> 's option" where
  "doit pe offset regions hook s =
     for_each (\<lambda>r s. for_each (check_bus pe offset r hook) (region_buses r) s) regions s"

section \<open>The capability list\<close>

text \<open>The walk ends whatever the devices answer: an offset is visited once, and it lies behind the header.\<close>

definition cap_valid :: "Capability \<Rightarrow> bool" where
  "cap_valid c \<longleftrightarrow> 0x40 \<le> unat (cap_offset c) \<and> cap_offset c AND 3 = 0"

lemma capability_next_ok:
  assumes "length (ci_seen it) = 256"
  shows "\<exists>c it' s'. capability_next pe cfg it s = Some ((c, it'), s') \<and> length (ci_seen it') = 256 \<and> (\<forall>x. c = Some x \<longrightarrow> cap_valid x)"
proof (cases "ci_next it < 0x40 \<or> ci_next it AND 3 \<noteq> 0 \<or> ci_count it \<ge> length (ci_seen it) \<or> ci_seen it ! unat (ci_next it) \<noteq> 0")
  case True
  then show ?thesis using assms by (simp add: capability_next_def Let_def)
next
  case False
  have b: "unat (ci_next it) < 256" using unsigned_less [of "ci_next it", where ?'a = nat] by simp
  obtain i s1 where r1: "cfg_read8 pe s (cfg + unat (ci_next it)) = (i, s1)" by force
  obtain n s2 where r2: "cfg_read8 pe s1 (cfg + (unat (ci_next it) + 1)) = (n, s2)" by force
  have "0x40 \<le> unat (ci_next it)" using False by (simp add: not_less word_le_nat_alt)
  with False b r1 r2 assms show ?thesis
    by (simp add: capability_next_def Let_def read_u8_def cap_valid_def)
qed

lemma capability_find_total:
  "length (ci_seen it) = 256 \<Longrightarrow>
   \<exists>c s'. capability_find pe cfg P it s = Some (c, s') \<and> (\<forall>x. c = Some x \<longrightarrow> P x \<and> cap_valid x)"
proof (induction pe cfg P it s rule: capability_find.induct)
  case (1 pe cfg P it s)
  from capability_next_ok [OF 1(2), of pe cfg s] obtain c it' s' where
    n: "capability_next pe cfg it s = Some ((c, it'), s')" "length (ci_seen it') = 256"
    and x: "\<And>x. c = Some x \<Longrightarrow> cap_valid x" by (elim exE conjE) simp
  show ?case
  proof (cases "\<exists>x. c = Some x \<and> \<not> P x")
    case True
    then obtain x where c: "c = Some x" "\<not> P x" by (elim exE conjE)
    from 1(1) [OF n(1) refl refl c(1) c(2) n(2)] n(1) c show ?thesis by (subst capability_find.simps) simp
  next
    case False
    with n(1) x show ?thesis by (subst capability_find.simps) (cases c; simp)
  qed
qed

lemma capabilities_start:
  "\<exists>it s'. capabilities pe cfg s = Some (it, s') \<and> length (ci_seen it) = 256 \<and> ci_count it = 0"
  by (auto simp: capabilities_def read_u16_def read_u8_def split: prod.split)

text \<open>
  Property C32 (termination). The search of the capability list of a function ends without a panic for every answer of the
  devices, also when the list is cyclic or leads out of the space: the result is a capability that satisfies
  the predicate, at an offset behind the header and aligned to four bytes, or none.
\<close>

theorem capability_search_ends:
  "\<exists>it s1 c s2. capabilities pe cfg s = Some (it, s1) \<and> capability_find pe cfg P it s1 = Some (c, s2) \<and>
     (case c of None \<Rightarrow> True | Some x \<Rightarrow> P x \<and> 0x40 \<le> unat (cap_offset x) \<and> cap_offset x AND 3 = 0)"
proof -
  from capabilities_start [of pe cfg s] obtain it s1 where "capabilities pe cfg s = Some (it, s1)" "length (ci_seen it) = 256"
    by (elim exE conjE)
  with capability_find_total [of it pe cfg P s1] show ?thesis by (fastforce simp: cap_valid_def split: option.split)
qed

section \<open>The functions that are visited\<close>

lemma for_each_append: "for_each f (xs @ ys) s = do { s \<leftarrow> for_each f xs s; for_each f ys s }"
  by (induction xs arbitrary: s) (auto split: Option.bind_split)

lemma for_each_concat: "for_each f (concat (map g xs)) s = for_each (\<lambda>x. for_each f (g x)) xs s"
  by (induction xs arbitrary: s) (auto simp: for_each_append split: Option.bind_split)

lemma for_each_cong: "(\<And>x s. x \<in> set xs \<Longrightarrow> f x s = g x s) \<Longrightarrow> for_each f xs s = for_each g xs s"
  by (induction xs arbitrary: s) (auto split: Option.bind_split)

lemma for_each_map: "for_each f (map g xs) s = for_each (\<lambda>x. f (g x)) xs s"
  by (induction xs arbitrary: s) (auto split: Option.bind_split)

lemma or_disjoint: "(x :: 'a :: len word) AND y = 0 \<Longrightarrow> x OR y = x + y"
  using word_plus_and_or [of x y] by simp

lemma bdf_offset_value:
  assumes "bus_start \<le> b" and "d < 32" and "f < 8"
  shows "bdf_offset \<lparr>bdf_bus = b, bdf_device = d, bdf_function = f\<rparr> bus_start =
    Some (of_nat (unat (b - bus_start) * 2 ^ 20 + unat d * 2 ^ 15 + unat f * 2 ^ 12))"
proof -
  have d: "bit d n \<Longrightarrow> n < 5" and f: "bit f n \<Longrightarrow> n < 3" for n
  proof -
    have "unat d < 2 ^ 5" "unat f < 2 ^ 3" using assms(2,3) by (simp_all add: word_less_nat_alt)
    then have "unat (take_bit 5 d) = unat d" "unat (take_bit 3 f) = unat f"
      by (simp_all add: unsigned_take_bit_eq take_bit_nat_eq_self)
    then have "take_bit 5 d = d" "take_bit 3 f = f" by (simp_all only: word_unat_eq_iff)
    then show "bit d n \<Longrightarrow> n < 5" "bit f n \<Longrightarrow> n < 3" by (metis bit_take_bit_iff)+
  qed
  let ?b = "ucast (b - bus_start) :: u64" and ?d = "ucast d :: u64" and ?f = "ucast f :: u64"
  have 1: "push_bit 15 ?d AND push_bit 12 ?f = 0" by (rule bit_word_eqI) (auto simp: bit_simps dest: f)
  have 2: "push_bit 20 ?b AND (push_bit 15 ?d OR push_bit 12 ?f) = 0" by (rule bit_word_eqI) (auto simp: bit_simps dest: d f)
  have p: "push_bit k (ucast (x :: u8) :: u64) = of_nat (unat x * 2 ^ k)" for k x
    by (simp add: push_bit_eq_mult)
  have "push_bit 20 ?b OR push_bit 15 ?d OR push_bit 12 ?f = of_nat (unat (b - bus_start) * 2 ^ 20 + unat d * 2 ^ 15 + unat f * 2 ^ 12)"
    by (subst or_disjoint [OF 2], subst or_disjoint [OF 1]) (simp only: p of_nat_add add.assoc)
  then show ?thesis using assms(1) by (simp add: bdf_offset_def)
qed

text \<open>Memory that gives the same answer to every read, and the functions of its regions.\<close>

definition stable :: "'s pci_env \<Rightarrow> (nat \<Rightarrow> u8) \<Rightarrow> (nat \<Rightarrow> u16) \<Rightarrow> bool" where
  "stable pe m8 m16 \<longleftrightarrow> (\<forall>s a. cfg_read8 pe s a = (m8 a, s) \<and> cfg_read16 pe s a = (m16 a, s))"

definition present_at :: "(nat \<Rightarrow> u16) \<Rightarrow> nat \<Rightarrow> bool" where
  "present_at m16 cfg \<longleftrightarrow> m16 cfg \<noteq> 0xffff \<and> m16 cfg \<noteq> 0"

definition config_address :: "nat \<Rightarrow> pci_region \<Rightarrow> u8 \<Rightarrow> u8 \<Rightarrow> u8 \<Rightarrow> nat" where
  "config_address offset r b d f =
     region_address r + offset + unat (the (bdf_offset \<lparr>bdf_bus = b, bdf_device = d, bdf_function = f\<rparr> (bus_first r)))"

definition device_functions :: "(nat \<Rightarrow> u8) \<Rightarrow> (nat \<Rightarrow> u16) \<Rightarrow> nat \<Rightarrow> pci_region \<Rightarrow> u8 \<Rightarrow> u8 \<Rightarrow> u8 list" where
  "device_functions m8 m16 offset r b d =
     (let cfg = config_address offset r b d in
      filter (\<lambda>f. present_at m16 (cfg f))
        (if present_at m16 (cfg 0) \<and> m8 (cfg 0 + 0x0e) AND 0x80 \<noteq> 0 then map of_nat [0..<8] else [0]))"

definition pci_functions :: "(nat \<Rightarrow> u8) \<Rightarrow> (nat \<Rightarrow> u16) \<Rightarrow> nat \<Rightarrow> pci_region list \<Rightarrow> (u8 \<times> u8 \<times> u8 \<times> nat) list" where
  "pci_functions m8 m16 offset regions =
     concat (map (\<lambda>r. concat (map (\<lambda>b. concat (map (\<lambda>d.
       map (\<lambda>f. (b, d, f, config_address offset r b d f)) (device_functions m8 m16 offset r b d))
         (map of_nat [0..<32]))) (region_buses r))) regions)"

definition region_fits :: "nat \<Rightarrow> pci_region \<Rightarrow> bool" where
  "region_fits offset r \<longleftrightarrow> region_address r + offset + 2 ^ 28 \<le> 2 ^ 64"

lemma u8_of_nat: "\<lbrakk>x \<in> set (map (of_nat :: nat \<Rightarrow> u8) [k..<n]); n \<le> 256\<rbrakk> \<Longrightarrow> k \<le> unat x \<and> unat x < n"
  by (auto simp: unat_of_nat)

lemma region_buses_ge: "b \<in> set (region_buses r) \<Longrightarrow> bus_first r \<le> b"
proof -
  assume "b \<in> set (region_buses r)"
  moreover have "Suc (unat (bus_last r)) \<le> 256" using unsigned_less [of "bus_last r", where ?'a = nat] by simp
  ultimately show ?thesis unfolding region_buses_def word_le_nat_alt using u8_of_nat by blast
qed

lemma config_address_value:
  assumes b: "bus_first r \<le> b" and d: "d < 32" and f: "f < 8"
  shows "config_address offset r b d f = region_address r + offset + (unat (b - bus_first r) * 2 ^ 20 + unat d * 2 ^ 15 + unat f * 2 ^ 12)"
    and "unat (b - bus_first r) * 2 ^ 20 + unat d * 2 ^ 15 + unat f * 2 ^ 12 < 2 ^ 28"
proof -
  have x: "unat (b - bus_first r) < 256" using unsigned_less [of "b - bus_first r", where ?'a = nat] by simp
  have df: "unat d < 32" "unat f < 8" using d f by (simp_all add: word_less_nat_alt)
  let ?o = "unat (b - bus_first r) * 2 ^ 20 + unat d * 2 ^ 15 + unat f * 2 ^ 12"
  show o: "?o < 2 ^ 28" using x df by simp
  have "unat (of_nat ?o :: u64) = ?o" by (subst unat_of_nat) (use o in simp)
  then show "config_address offset r b d f = region_address r + offset + ?o"
    by (simp only: config_address_def bdf_offset_value [OF b d f] option.sel)
qed

lemma config_space_address:
  assumes r: "region_fits offset r" and bdf: "bus_first r \<le> b" "d < 32" "f < 8"
  shows "checked_add (region_address r) offset = Some (region_address r + offset)"
    and "checked_add (region_address r + offset) (unat (b - bus_first r) * 2 ^ 20) = Some (region_address r + offset + unat (b - bus_first r) * 2 ^ 20)"
    and "get_config_space (region_address r + offset + unat (b - bus_first r) * 2 ^ 20) 0 d f = Some (config_address offset r b d f)"
  using r config_address_value(2) [OF bdf] unfolding config_address_value(1) [OF bdf]
  by (simp_all add: region_fits_def checked_add_def get_config_space_def)

lemma check_at_stable:
  assumes st: "stable pe m8 m16" and a: "get_config_space base 0 (bdf_device bdf) (bdf_function bdf) = Some cfg"
  shows "check_at pe base bdf hook s =
    (if present_at m16 cfg
     then do { s \<leftarrow> hook (bdf_bus bdf) (bdf_device bdf) (bdf_function bdf) cfg s; Some (m8 (cfg + 0x0e) AND 0x80 \<noteq> 0, s) }
     else Some (False, s))"
  using st by (auto simp: check_at_def a stable_def vendor_id_def header_type_def present_at_def Let_def)

lemma check_device_stable:
  assumes st: "stable pe m8 m16" and r: "region_fits offset r" and b: "bus_first r \<le> b" and d: "d < 32"
  shows "check_device pe (region_address r + offset + unat (b - bus_first r) * 2 ^ 20) b hook d s =
    for_each (\<lambda>f. hook b d f (config_address offset r b d f)) (device_functions m8 m16 offset r b d) s"
proof -
  let ?base = "region_address r + offset + unat (b - bus_first r) * 2 ^ 20" and ?cfg = "config_address offset r b d"
  have at: "do { bdf \<leftarrow> bdf_new b d f; (m, s) \<leftarrow> check_at pe ?base bdf hook s; g m s } =
      (if present_at m16 (?cfg f) then do { s \<leftarrow> hook b d f (?cfg f) s; g (m8 (?cfg f + 0x0e) AND 0x80 \<noteq> 0) s } else g False s)"
    if "f < 8" for f s and g :: "bool \<Rightarrow> 'a \<Rightarrow> 'a option"
  proof -
    let ?bdf = "\<lparr>bdf_bus = b, bdf_device = d, bdf_function = f\<rparr>"
    have "get_config_space ?base 0 (bdf_device ?bdf) (bdf_function ?bdf) = Some (?cfg f)"
      using config_space_address(3) [OF r b d that] by simp
    from check_at_stable [OF st this] d that show ?thesis by (simp add: bdf_new_def)
  qed
  have filt: "for_each (\<lambda>f s. if P f then h f s else Some s) fs s = for_each h (filter P fs) s" for P :: "u8 \<Rightarrow> bool" and h fs s
    by (induction fs arbitrary: s) (auto split: Option.bind_split)
  define fs :: "u8 list" where "fs = map of_nat [1..<8]"
  have rest: "for_each (\<lambda>f s. do { bdf \<leftarrow> bdf_new b d f; (_, s) \<leftarrow> check_at pe ?base bdf hook s; Some s }) fs s =
      for_each (\<lambda>f. hook b d f (?cfg f)) (filter (\<lambda>f. present_at m16 (?cfg f)) fs) s" for s
  proof -
    have "do { bdf \<leftarrow> bdf_new b d f; (m, s) \<leftarrow> check_at pe ?base bdf hook s; Some s } =
        (if present_at m16 (?cfg f) then hook b d f (?cfg f) s else Some s)" if "f \<in> set fs" for f s
      using at [where f = f and s = s and g = "\<lambda>_. Some"] u8_of_nat [OF that [unfolded fs_def]] by (simp add: word_less_nat_alt)
    then show ?thesis unfolding filt [symmetric] by (rule for_each_cong)
  qed
  have zero: "map of_nat [0..<8] = 0 # fs" by (simp add: fs_def upt_rec)
  show ?thesis unfolding check_device_def fs_def [symmetric] rest
    by (subst at) (auto simp: device_functions_def Let_def zero split: Option.bind_split)
qed

text \<open>
  Property C30 (equivalence). On a configuration space that answers reads as memory does, the enumeration calls its hook for
  exactly the functions that are present, bus by bus, in the order of their numbers, and for functions other than 0 only
  when function 0 is present and says that there are more; the address it passes is the start of the
  region plus the offset that \<^verbatim>\<open>Bdf::offset\<close> computes.
\<close>

theorem doit_visits_functions:
  assumes st: "stable pe m8 m16" and fits: "\<forall>r\<in>set regions. region_fits offset r"
  shows "doit pe offset regions hook s =
    for_each (\<lambda>(b, d, f, cfg). hook b d f cfg) (pci_functions m8 m16 offset regions) s"
proof -
  have bus: "check_bus pe offset r hook b s =
      for_each (\<lambda>(b, d, f, cfg). hook b d f cfg) (concat (map (\<lambda>d.
        map (\<lambda>f. (b, d, f, config_address offset r b d f)) (device_functions m8 m16 offset r b d)) (map of_nat [0..<32]))) s"
    if r: "r \<in> set regions" and b: "b \<in> set (region_buses r)" for r b s
  proof -
    have f: "region_fits offset r" and b: "bus_first r \<le> b" using fits r region_buses_ge [OF b] by simp_all
    show ?thesis unfolding check_bus_def for_each_concat
    proof (rule for_each_cong)
      fix d :: u8 and s :: 'a
      assume "d \<in> set (map of_nat [0..<32])"
      then have d: "d < 32" using u8_of_nat [of d 0 32] by (simp add: word_less_nat_alt)
      show "do { v \<leftarrow> checked_add (region_address r) offset; base \<leftarrow> checked_add v (unat (b - bus_first r) * 2 ^ 20);
            check_device pe base b hook d s } =
          for_each (\<lambda>(b, d, f, cfg). hook b d f cfg)
            (map (\<lambda>f. (b, d, f, config_address offset r b d f)) (device_functions m8 m16 offset r b d)) s"
        using config_space_address(1,2) [OF f b d, of 0] check_device_stable [OF st f b d]
        by (simp add: for_each_map)
    qed
  qed
  show ?thesis unfolding doit_def pci_functions_def for_each_concat
    using bus [unfolded for_each_concat] by (intro for_each_cong) blast
qed

text \<open>One bus with a function 0 and a function 2 of device 3.\<close>

definition sample_region :: pci_region where
  "sample_region = \<lparr>region_address = 0x30000, bus_first = 1, bus_last = 1\<rparr>"

definition sample_vendor :: "nat \<Rightarrow> u16" where
  "sample_vendor a = (if a = 0x48000 \<or> a = 0x4a000 then 0x8086 else 0xffff)"

definition sample_pci :: "(u8 \<times> u8 \<times> u8 \<times> nat) list pci_env" where
  "sample_pci = \<lparr>cfg_read8 = (\<lambda>s a. (if a = 0x4800e then 0x80 else 0, s)), cfg_read16 = (\<lambda>s a. (sample_vendor a, s)),
     cfg_read32 = (\<lambda>s a. (0, s)), cfg_write8 = (\<lambda>s a v. s), cfg_write16 = (\<lambda>s a v. s), cfg_write32 = (\<lambda>s a v. s)\<rparr>"

lemma sample_address: "\<lbrakk>d < 32; f < 8\<rbrakk> \<Longrightarrow> config_address 0 sample_region 1 d f = 0x30000 + unat d * 0x8000 + unat f * 0x1000"
  using config_address_value(1) [of sample_region 1 d f 0] by (simp add: sample_region_def)

lemma sample_functions:
  "pci_functions (\<lambda>a. if a = 0x4800e then 0x80 else 0) sample_vendor 0 [sample_region] = [(1, 3, 0, 0x48000), (1, 3, 2, 0x4a000)]"
proof -
  have b: "region_buses sample_region = [1]" by (simp add: region_buses_def sample_region_def)
  have n: "map of_nat [0..<8] = [0, 1, 2, 3, 4, 5, 6, 7 :: u8]" by (simp add: upt_conv_Cons)
  have present: "present_at sample_vendor (config_address 0 sample_region 1 d f) \<longleftrightarrow> d = 3 \<and> (f = 0 \<or> f = 2)"
    if "d < 32" "f < 8" for d f
  proof -
    have f: "unat f < 8" using that(2) by (simp add: word_less_nat_alt)
    have "config_address 0 sample_region 1 d f = 0x1000 * (0x30 + unat d * 8 + unat f)" using sample_address [OF that] by simp
    then have "present_at sample_vendor (config_address 0 sample_region 1 d f) \<longleftrightarrow> unat d * 8 + unat f = 24 \<or> unat d * 8 + unat f = 26"
      by (simp add: present_at_def sample_vendor_def)
    also have "\<dots> \<longleftrightarrow> unat d = 3 \<and> (unat f = 0 \<or> unat f = 2)" using f by presburger
    also have "\<dots> \<longleftrightarrow> d = 3 \<and> (f = 0 \<or> f = 2)" by (simp add: word_unat_eq_iff)
    finally show ?thesis .
  qed
  have d: "device_functions (\<lambda>a. if a = 0x4800e then 0x80 else 0) sample_vendor 0 sample_region 1 d = (if d = 3 then [0, 2] else [])"
    if "d < 32" for d
    using that sample_address [of 3 0] unfolding device_functions_def Let_def n by (cases "d = 3") (simp_all add: present, simp add: present_at_def sample_vendor_def)
  show ?thesis by (simp add: pci_functions_def b d sample_address upt_conv_Cons)
qed

theorem doit_visits_functions_witness:
  "doit sample_pci 0 [sample_region] (\<lambda>b d f cfg s. Some (s @ [(b, d, f, cfg)])) [] = Some [(1, 3, 0, 0x48000), (1, 3, 2, 0x4a000)]"
  by (subst doit_visits_functions [of _ "\<lambda>a. if a = 0x4800e then 0x80 else 0" sample_vendor])
    (simp_all add: sample_functions, simp_all add: stable_def sample_pci_def region_fits_def sample_region_def)

end
