(* ===== verification/XhciInit.thy ===== *)
theory XhciInit
  imports Controller Pcie
begin

text \<open>
  Discovery of the xHCI controllers, \<^verbatim>\<open>kernel/src/xhci/controller.rs\<close>: the memory bar, the hand-over from the firmware,
  the reset, the message signalled interrupt, the table of controllers, and the entry points of the module, which run
  over that table: \<^verbatim>\<open>init\<close>, \<^verbatim>\<open>poll\<close>, \<^verbatim>\<open>read_usb_blocks\<close> and \<^verbatim>\<open>interrupt_handler\<close>.
\<close>

section \<open>Constants\<close>

definition MIN_BAR_LEN :: nat where "MIN_BAR_LEN = 0x1000"
definition PCI_CAP_ID_MSI :: u8 where "PCI_CAP_ID_MSI = 0x05"
definition MSI_CONTROL_ENABLE :: u16 where "MSI_CONTROL_ENABLE = 1"
definition MSI_CONTROL_MME_MASK :: u16 where "MSI_CONTROL_MME_MASK = push_bit 4 7"
definition MSI_CONTROL_64BIT :: u16 where "MSI_CONTROL_64BIT = push_bit 7 1"
definition MAX_CONTROLLERS :: nat where "MAX_CONTROLLERS = 4"
definition XHCI_MSI_VECTOR :: u8 where "XHCI_MSI_VECTOR = 0x50"

datatype ControllerState = Discovered | Reset | FailedState

section \<open>The environment\<close>

text \<open>
  Besides the controller there is the configuration space, the page tables behind the mapper crate, whose operations may take
  frames from the page allocator, and the register with the number of the processor.
\<close>

record 'h usb_env =
  xe :: "'h xhci_env"
  pe :: "'h pci_env"
  pt_ops :: "'h world mapper_ops"
  lapic_id :: "'h \<Rightarrow> u32 \<times> 'h"
  regions :: "pci_region list"

text \<open>The configuration space as a part of a larger state.\<close>

definition on_hw :: "('h \<Rightarrow> 'a \<times> 'h) \<Rightarrow> ('h, 'z) world_scheme \<Rightarrow> 'a \<times> ('h, 'z) world_scheme" where
  "on_hw f s = (let (v, h) = f (hw s) in (v, s\<lparr>hw := h\<rparr>))"

definition pci_world :: "'h pci_env \<Rightarrow> ('h, 'z) world_scheme pci_env" where
  "pci_world p = \<lparr>cfg_read8 = (\<lambda>s a. on_hw (\<lambda>h. cfg_read8 p h a) s), cfg_read16 = (\<lambda>s a. on_hw (\<lambda>h. cfg_read16 p h a) s),
     cfg_read32 = (\<lambda>s a. on_hw (\<lambda>h. cfg_read32 p h a) s), cfg_write8 = (\<lambda>s a v. s\<lparr>hw := cfg_write8 p (hw s) a v\<rparr>),
     cfg_write16 = (\<lambda>s a v. s\<lparr>hw := cfg_write16 p (hw s) a v\<rparr>), cfg_write32 = (\<lambda>s a v. s\<lparr>hw := cfg_write32 p (hw s) a v\<rparr>)\<rparr>"

section \<open>The memory bar\<close>

definition bar0 :: "'s pci_env \<Rightarrow> nat \<Rightarrow> 's \<Rightarrow> ((u64 \<times> u64) option \<times> 's) option" where
  "bar0 p cfg s =
     do { (low, s) \<leftarrow> read_u32 p cfg 0x10 s;
          (high, s) \<leftarrow> read_u32 p cfg 0x14 s;
          case decode_memory_bar low high of
            None \<Rightarrow> Some (None, s)
          | Some decoded \<Rightarrow>
              do { let address = (case decoded of Bits32 a \<Rightarrow> a | Bits64 a \<Rightarrow> a);
                   let wide = (case decoded of Bits32 _ \<Rightarrow> False | Bits64 _ \<Rightarrow> True);
                   s \<leftarrow> write_u32 p cfg 0x10 0xffffffff s;
                   (mask_low, s) \<leftarrow> read_u32 p cfg 0x10 s;
                   (mask_high, s) \<leftarrow> (if wide then do { s \<leftarrow> write_u32 p cfg 0x14 0xffffffff s; read_u32 p cfg 0x14 s } else Some (0, s));
                   s \<leftarrow> write_u32 p cfg 0x10 low s;
                   s \<leftarrow> (if wide then write_u32 p cfg 0x14 high s else Some s);
                   let mask = (ucast mask_low AND 0xfffffff0) OR push_bit 32 (ucast mask_high);
                   let len = NOT mask + 1;
                   Some (if address = 0 \<or> unat len < MIN_BAR_LEN \<or> \<not> is_power_of_two (unat len) then None
                         else Some (address, len), s) } }"

section \<open>Reset\<close>

primrec ownership_loop :: "'h xhci_env \<Rightarrow> nat \<Rightarrow> nat \<Rightarrow> nat \<Rightarrow> ('h, 'z) world_scheme \<Rightarrow> (bool \<times> ('h, 'z) world_scheme) option" where
  "ownership_loop e base 0 offset s = Some (True, s)"
| "ownership_loop e base (Suc n) offset s =
     do { (header, s) \<leftarrow> read32 e base offset s;
          let nxt = unat (drop_bit XECAP_NEXT_SHIFT (header AND XECAP_NEXT_MASK)) * 4;
          if header AND XECAP_ID_MASK = XECAP_USB_LEGACY_SUPPORT then
            do { (value, s) \<leftarrow> read32 e base offset s;
                 if value AND USBLEGSUP_BIOS_OWNED \<noteq> 0 then
                   do { s \<leftarrow> write32 e base offset (value OR USBLEGSUP_OS_OWNED) s;
                        wait_for POLL_LIMIT (\<lambda>s. do { (v, s) \<leftarrow> read32 e base offset s; Some (v AND USBLEGSUP_BIOS_OWNED = 0, s) }) s }
                 else Some (True, s) }
          else if nxt = 0 \<or> nxt = offset then Some (True, s)
          else ownership_loop e base n (saturating_add offset nxt) s }"

definition ownership :: "'h xhci_env \<Rightarrow> nat \<Rightarrow> nat \<Rightarrow> ('h, 'z) world_scheme \<Rightarrow> (bool \<times> ('h, 'z) world_scheme) option" where
  "ownership e base xecp s = ownership_loop e base 256 xecp s"

record reset_info =
  ri_version :: u16
  ri_ports :: u8
  ri_hcs2 :: u32
  ri_context_64 :: bool
  ri_cap_len :: nat

text \<open>An error is the stage that timed out.\<close>

definition reset_controller :: "'h xhci_env \<Rightarrow> nat \<Rightarrow> ('h, 'z) world_scheme \<Rightarrow> ((string + reset_info) \<times> ('h, 'z) world_scheme) option" where
  "reset_controller e base s =
     do { (cl, s) \<leftarrow> read32 e base CAPLENGTH s;
          let cap_len = unat (cl AND 0xff);
          (version, s) \<leftarrow> read16 e base HCIVERSION s;
          (hcs1, s) \<leftarrow> read32 e base HCSPARAMS1 s;
          (hcs2, s) \<leftarrow> read32 e base (HCSPARAMS1 + 4) s;
          (hcc1, s) \<leftarrow> read32 e base HCCPARAMS1 s;
          let ports = ucast (drop_bit 24 hcs1);
          let xecp = unat (drop_bit HCCPARAMS1_XECP_SHIFT (hcc1 AND HCCPARAMS1_XECP_MASK)) * 4;
          (ok, s) \<leftarrow> (if cap_len < 0x20 then Some (False, s) else ownership e base xecp s);
          if \<not> ok then Some (Inl ''BIOS ownership'', s) else
     do { (cmd, s) \<leftarrow> read32 e base (cap_len + USBCMD) s;
          s \<leftarrow> write32 e base (cap_len + USBCMD) (cmd AND NOT USBCMD_RUN) s;
          (ok, s) \<leftarrow> wait_for POLL_LIMIT (\<lambda>s. do { (v, s) \<leftarrow> read32 e base (cap_len + USBSTS) s; Some (v AND USBSTS_HCHALTED \<noteq> 0, s) }) s;
          if \<not> ok then Some (Inl ''halt'', s) else
     do { (cmd, s) \<leftarrow> read32 e base (cap_len + USBCMD) s;
          s \<leftarrow> write32 e base (cap_len + USBCMD) (cmd OR USBCMD_HCRST) s;
          (ok, s) \<leftarrow> wait_for POLL_LIMIT (\<lambda>s. do { (v, s) \<leftarrow> read32 e base (cap_len + USBCMD) s; Some (v AND USBCMD_HCRST = 0, s) }) s;
          if \<not> ok then Some (Inl ''reset'', s) else
     do { (ok, s) \<leftarrow> wait_for POLL_LIMIT (\<lambda>s. do { (v, s) \<leftarrow> read32 e base (cap_len + USBSTS) s; Some (v AND USBSTS_CNR = 0, s) }) s;
          if \<not> ok then Some (Inl ''CNR'', s)
          else Some (Inr \<lparr>ri_version = version, ri_ports = ports, ri_hcs2 = hcs2,
                          ri_context_64 = (hcc1 AND push_bit 2 1 \<noteq> 0), ri_cap_len = cap_len\<rparr>, s) } } } }"

section \<open>Bringing a function up\<close>

text \<open>A controller and the rest of the world together, and apart.\<close>

definition attach :: "ControllerResources \<Rightarrow> 'h world \<Rightarrow> 'h xhci" where
  "attach c w = \<lparr>hw = hw w, mach = mach w, usb_disks = usb_disks w, submitted_scancodes = submitted_scancodes w,
     submitted_events = submitted_events w, ctl = c\<rparr>"

definition detach :: "'h xhci \<Rightarrow> 'h world" where
  "detach s = \<lparr>hw = hw s, mach = mach s, usb_disks = usb_disks s, submitted_scancodes = submitted_scancodes s,
     submitted_events = submitted_events s\<rparr>"

text \<open>From the reset to a running controller; the driver drops the mapping of a controller that fails, which has no effect.\<close>

definition bring_up :: "'h xhci_env \<Rightarrow> mmio_mapping \<Rightarrow> 'h world \<Rightarrow> (ControllerResources option \<times> 'h world) option" where
  "bring_up e m w =
     do { (r, w) \<leftarrow> reset_controller e (mm_virtual_address m) w;
          case r of
            Inl stage \<Rightarrow> Some (None, w)
          | Inr info \<Rightarrow>
              do { (hcs1, w) \<leftarrow> read32 e (mm_virtual_address m) HCSPARAMS1 w;
                   (r, w) \<leftarrow> controller_new e m (ri_hcs2 info) w;
                   case r of
                     Inl err \<Rightarrow> Some (None, w)
                   | Inr c \<Rightarrow>
                       do { (r, s) \<leftarrow> start_controller e (mm_virtual_address m) (ri_cap_len info) (ucast (hcs1 AND 0xff))
                              (ri_context_64 info) (attach c w);
                            case r of Inl err \<Rightarrow> Some (None, detach s) | Inr _ \<Rightarrow> Some (Some (ctl s), detach s) } } }"

text \<open>
  \<^verbatim>\<open>discover_one\<close> up to the registration; \<open>None\<close> is the state \<^verbatim>\<open>Failed\<close>. The argument \<open>offset\<close> is the constant by which
  \<^verbatim>\<open>phys_to_virt\<close> moves an address.
\<close>

definition probe_function :: "'h usb_env \<Rightarrow> nat \<Rightarrow> nat \<Rightarrow> 'h world \<Rightarrow> (ControllerResources option \<times> 'h world) option" where
  "probe_function e offset cfg w =
     do { let p = pci_world (pe e);
          let (c, w) = class_code p cfg w;
          let (same, w) = (if c = 0x0c then
              let (sc, w) = sub_class p cfg w in
              if sc = 0x03 then let (pi, w) = prog_if p cfg w in (pi = 0x30, w) else (False, w)
            else (False, w));
          if \<not> same then Some (None, w) else
     do { (bar, w) \<leftarrow> bar0 p cfg w;
          case bar of
            None \<Rightarrow> Some (None, w)
          | Some (address, len) \<Rightarrow>
              do { w \<leftarrow> update_command p cfg (push_bit 1 1 OR push_bit 2 1) 0 w;
                   (r, w) \<leftarrow> mmio_map (pt_ops e) offset w address (unat len);
                   case r of Inl _ \<Rightarrow> Some (None, w) | Inr m \<Rightarrow> bring_up (xe e) m w } } }"

definition msi_data_offset :: "nat \<Rightarrow> u16 \<Rightarrow> nat" where
  "msi_data_offset capability_offset ctrl = (if ctrl AND MSI_CONTROL_64BIT \<noteq> 0 then capability_offset + 12 else capability_offset + 8)"

definition program_msi :: "'h usb_env \<Rightarrow> nat \<Rightarrow> nat \<Rightarrow> 'h xhci \<Rightarrow> 'h xhci option" where
  "program_msi e cfg off s =
     do { let p = pci_world (pe e);
          (ctrl, s) \<leftarrow> read_u16 p cfg (off + 2) s;
          let data_offset = msi_data_offset off ctrl;
          let (destination, s) = on_hw (lapic_id e) s;
          let address = (0xfee00000 :: u64) OR push_bit 12 (ucast destination);
          s \<leftarrow> write_u32 p cfg (off + 4) (ucast address) s;
          s \<leftarrow> (if ctrl AND MSI_CONTROL_64BIT \<noteq> 0 then write_u32 p cfg (off + 8) (ucast (drop_bit 32 address)) s else Some s);
          s \<leftarrow> write_u16 p cfg data_offset (ucast XHCI_MSI_VECTOR) s;
          s \<leftarrow> write_u16 p cfg (off + 2) ((ctrl AND NOT MSI_CONTROL_MME_MASK) OR MSI_CONTROL_ENABLE) s;
          let register = mm_virtual_address (mapping (ctl s));
          (cmd, s) \<leftarrow> read32 (xe e) register (op_base (ctl s) + USBCMD) s;
          s \<leftarrow> write32 (xe e) register (op_base (ctl s) + USBCMD) (cmd OR USBCMD_INTE) s;
          Some (upd_ctl (\<lambda>c. c\<lparr>msi_vector := Some XHCI_MSI_VECTOR\<rparr>) s) }"

definition enable_msi :: "'h usb_env \<Rightarrow> nat \<Rightarrow> 'h xhci \<Rightarrow> 'h xhci option" where
  "enable_msi e cfg s =
     do { let p = pci_world (pe e);
          (it, s) \<leftarrow> capabilities p cfg s;
          (found, s) \<leftarrow> capability_find p cfg (\<lambda>c. cap_id c = PCI_CAP_ID_MSI) it s;
          case found of None \<Rightarrow> Some s | Some c \<Rightarrow> program_msi e cfg (unat (cap_offset c)) s }"

section \<open>The table of controllers\<close>

text \<open>
  A controller is leaked once it runs; the table has the address of the first four. One that found no free
  place is never polled, and its buffers stay allocated.
\<close>

record 'h usb_host =
  around :: "'h world"
  controllers :: "ControllerResources option list"
  unregistered :: "ControllerResources list"

definition on_controller ::
  "nat \<Rightarrow> ('h xhci \<Rightarrow> ('a \<times> 'h xhci) option) \<Rightarrow> ControllerResources \<Rightarrow> 'h usb_host \<Rightarrow> ('a \<times> 'h usb_host) option" where
  "on_controller k f c h =
     do { (r, s) \<leftarrow> f (attach c (around h));
          Some (r, h\<lparr>around := detach s, controllers := (controllers h)[k := Some (ctl s)]\<rparr>) }"

text \<open>\<^verbatim>\<open>register_controller\<close>: the first free place, if there is one.\<close>

definition register_controller :: "ControllerResources \<Rightarrow> 'h usb_host \<Rightarrow> nat option \<times> 'h usb_host" where
  "register_controller c h =
     (case position (\<lambda>slot. slot = None) (controllers h) of
        Some k \<Rightarrow> (Some k, h\<lparr>controllers := (controllers h)[k := Some c]\<rparr>)
      | None \<Rightarrow> (None, h\<lparr>unregistered := unregistered h @ [c]\<rparr>))"

definition discover_one :: "'h usb_env \<Rightarrow> nat \<Rightarrow> nat \<Rightarrow> 'h usb_host \<Rightarrow> (ControllerState \<times> 'h usb_host) option" where
  "discover_one e offset cfg h =
     do { (found, w) \<leftarrow> probe_function e offset cfg (around h);
          let h = h\<lparr>around := w\<rparr>;
          case found of
            None \<Rightarrow> Some (FailedState, h)
          | Some c \<Rightarrow>
              (case register_controller c h of
                 (None, h) \<Rightarrow> Some (Reset, h)
               | (Some k, h) \<Rightarrow>
                   do { (_, h) \<leftarrow> on_controller k (\<lambda>s. do { s \<leftarrow> enable_msi e cfg s; Some ((), s) }) c h; Some (Reset, h) }) }"

text \<open>The hook of \<^verbatim>\<open>init\<close> counts the controllers it finds; the count is only logged.\<close>

definition host_pci :: "'h usb_env \<Rightarrow> 'h usb_host pci_env" where
  "host_pci e =
     (let p = pci_world (pe e) in
      \<lparr>cfg_read8 = (\<lambda>h a. let (v, w) = cfg_read8 p (around h) a in (v, h\<lparr>around := w\<rparr>)),
       cfg_read16 = (\<lambda>h a. let (v, w) = cfg_read16 p (around h) a in (v, h\<lparr>around := w\<rparr>)),
       cfg_read32 = (\<lambda>h a. let (v, w) = cfg_read32 p (around h) a in (v, h\<lparr>around := w\<rparr>)),
       cfg_write8 = (\<lambda>h a v. h\<lparr>around := cfg_write8 p (around h) a v\<rparr>),
       cfg_write16 = (\<lambda>h a v. h\<lparr>around := cfg_write16 p (around h) a v\<rparr>),
       cfg_write32 = (\<lambda>h a v. h\<lparr>around := cfg_write32 p (around h) a v\<rparr>)\<rparr>)"

definition init_hook :: "'h usb_env \<Rightarrow> nat \<Rightarrow> u8 \<Rightarrow> u8 \<Rightarrow> u8 \<Rightarrow> nat \<Rightarrow> 'h usb_host \<Rightarrow> 'h usb_host option" where
  "init_hook e offset b d f cfg h =
     (let p = host_pci e; (c, h) = class_code p cfg h in
      if c \<noteq> 0x0c then Some h
      else let (sc, h) = sub_class p cfg h in
           if sc \<noteq> 0x03 then Some h
           else let (pi, h) = prog_if p cfg h in
                if pi \<noteq> 0x30 then Some h
                else do { (_, h) \<leftarrow> discover_one e offset cfg h; Some h })"

definition xhci_init :: "'h usb_env \<Rightarrow> 'h world \<Rightarrow> 'h usb_host option" where
  "xhci_init e w =
     (let offset = hhdm (mach w) in
      doit (host_pci e) offset (regions e) (init_hook e offset)
       \<lparr>around = w, controllers = replicate MAX_CONTROLLERS None, unregistered = []\<rparr>)"

section \<open>The entry points\<close>

definition visit ::
  "('h xhci \<Rightarrow> (unit \<times> 'h xhci) option) \<Rightarrow> nat \<Rightarrow> 'h usb_host \<Rightarrow> 'h usb_host option" where
  "visit f k h =
     (case controllers h ! k of
        None \<Rightarrow> Some h
      | Some c \<Rightarrow> do { (_, h) \<leftarrow> on_controller k f c h; Some h })"

definition usb_poll :: "'h usb_env \<Rightarrow> 'h usb_host \<Rightarrow> 'h usb_host option" where
  "usb_poll e h = for_each (visit (\<lambda>s. do { s \<leftarrow> poll (xe e) POLL_EVENT_BUDGET s; Some ((), s) })) [0..<length (controllers h)] h"

definition interrupt_handler :: "'h usb_env \<Rightarrow> 'h usb_host \<Rightarrow> 'h usb_host option" where
  "interrupt_handler e h =
     for_each (visit (\<lambda>s. do { (_, s) \<leftarrow> acknowledge_interrupt (xe e) s; Some ((), s) })) [0..<length (controllers h)] h"

text \<open>The first controller that answers; \<open>Some bs\<close> is \<^verbatim>\<open>true\<close> with the buffer filled.\<close>

primrec read_from :: "'h usb_env \<Rightarrow> nat \<Rightarrow> u64 \<Rightarrow> nat \<Rightarrow> nat list \<Rightarrow> 'h usb_host \<Rightarrow> (bytes option \<times> 'h usb_host) option" where
  "read_from e i lba len [] h = Some (None, h)"
| "read_from e i lba len (k # ks) h =
     (case controllers h ! k of
        None \<Rightarrow> read_from e i lba len ks h
      | Some c \<Rightarrow>
          do { (r, h) \<leftarrow> on_controller k (read_usb_blocks (xe e) i lba len) c h;
               case r of Some bs \<Rightarrow> Some (Some bs, h) | None \<Rightarrow> read_from e i lba len ks h })"

definition usb_read_blocks :: "'h usb_env \<Rightarrow> nat \<Rightarrow> u64 \<Rightarrow> nat \<Rightarrow> 'h usb_host \<Rightarrow> (bytes option \<times> 'h usb_host) option" where
  "usb_read_blocks e i lba len h = read_from e i lba len [0..<length (controllers h)] h"

end
