(* ===== verification/XhciHost.thy ===== *)
theory XhciHost
  imports XhciSafe XhciInit
begin

text \<open>
  The driver as the kernel sees it: the invariant of the table of controllers, its proof for every entry point, and what
  the entry points promise to the rest of the kernel. Everything holds for every behaviour of the hardware;
  the hypotheses are about the memory map of the machine and the operations of the mapper crate.
\<close>

section \<open>Register and configuration accesses\<close>

lemma acc_read32: "\<lbrakk>hw_only s0 s; \<And>v s'. hw_only s0 s' \<Longrightarrow> Q (v, s')\<rbrakk> \<Longrightarrow> returns (read32 e b off s) Q"
  by (rule read32_hw) (blast intro: hw_only_trans)

lemma acc_read16: "\<lbrakk>hw_only s0 s; \<And>v s'. hw_only s0 s' \<Longrightarrow> Q (v, s')\<rbrakk> \<Longrightarrow> returns (read16 e b off s) Q"
  by (simp add: read16_def hw_only_def split: prod.splits)

lemma acc_wait_for:
  assumes "hw_only s0 s" and "\<And>s Q. hw_only s0 s \<Longrightarrow> (\<And>r s'. hw_only s0 s' \<Longrightarrow> Q (r, s')) \<Longrightarrow> returns (ready s) Q"
    and "\<And>r s'. hw_only s0 s' \<Longrightarrow> Q (r, s')"
  shows "returns (wait_for n ready s) Q"
  using assms by (rule wait_for_rule)

lemmas acc_io = acc_read32 acc_read16 acc_write32

lemma acc_wait_read:
  assumes "hw_only s0 s" and "\<And>r s'. hw_only s0 s' \<Longrightarrow> Q (r, s')"
  shows "returns (wait_for n (\<lambda>s. do { (v, s) \<leftarrow> read32 e b off s; Some (P v, s) }) s) Q"
  using assms(1) by (rule acc_wait_for) (rule returns_step returns_SomeI | erule acc_io | erule assms(2) | assumption)+

lemma acc_ownership:
  assumes "hw_only s0 s" and q: "\<And>r s'. hw_only s0 s' \<Longrightarrow> Q (r, s')"
  shows "returns (ownership e base xecp s) Q"
proof -
  have "returns (ownership_loop e base n offset s) Q" if "hw_only s0 s" for n offset s
    using that
  proof (induction n arbitrary: s offset)
    case (Suc n)
    show ?case unfolding ownership_loop.simps
      by (insert Suc.prems, (erule Suc.IH acc_io acc_wait_read | rule returns_step returns_SomeI | erule q)+)
  qed (simp add: q)
  with assms(1) show ?thesis by (simp add: ownership_def)
qed

lemma acc_reset_controller:
  assumes "hw_only s0 s" and q: "\<And>r s'. hw_only s0 s' \<Longrightarrow> Q (r, s')"
  shows "returns (reset_controller e base s) Q"
  unfolding reset_controller_def using assms(1)
  by - (erule acc_io acc_wait_read acc_ownership | rule returns_step returns_SomeI | erule q)+

lemma on_hw_only: "hw_only s (snd (on_hw f s))"
  by (simp add: on_hw_def hw_only_def split: prod.split)

text \<open>What every access to the configuration space keeps.\<close>

definition cfg_keeps :: "'s pci_env \<Rightarrow> ('s \<Rightarrow> bool) \<Rightarrow> bool" where
  "cfg_keeps p I \<longleftrightarrow> (\<forall>s a u v x. I s \<longrightarrow> I (snd (cfg_read8 p s a)) \<and> I (snd (cfg_read16 p s a)) \<and> I (snd (cfg_read32 p s a)) \<and>
     I (cfg_write8 p s a u) \<and> I (cfg_write16 p s a v) \<and> I (cfg_write32 p s a x))"

lemma cfg_keepsD:
  assumes "cfg_keeps p I" and "I s"
  shows "I (snd (cfg_read8 p s a))" "I (snd (cfg_read16 p s a))" "I (snd (cfg_read32 p s a))"
    "I (cfg_write8 p s a u)" "I (cfg_write16 p s a v)" "I (cfg_write32 p s a x)"
  using assms unfolding cfg_keeps_def by blast+

lemma pci_world_keeps: "cfg_keeps (pci_world p) (hw_only s0)"
proof -
  have w: "hw_only s0 (s\<lparr>hw := h\<rparr>)" if "hw_only s0 s" for s and h
    using that by (simp add: hw_only_def)
  show ?thesis unfolding cfg_keeps_def pci_world_def
    by (auto intro: w hw_only_trans [OF _ on_hw_only])
qed

lemma keep_read_u8: "\<lbrakk>cfg_keeps p I; I s; off < 4096; \<And>v s'. I s' \<Longrightarrow> Q (v, s')\<rbrakk> \<Longrightarrow> returns (read_u8 p cfg off s) Q"
  using cfg_keepsD(1) [of p I s "cfg + off"] by (cases "cfg_read8 p s (cfg + off)") (auto simp: read_u8_def)

lemma keep_read_u16: "\<lbrakk>cfg_keeps p I; I s; off + 2 \<le> 4096 \<and> off mod 2 = 0; \<And>v s'. I s' \<Longrightarrow> Q (v, s')\<rbrakk> \<Longrightarrow> returns (read_u16 p cfg off s) Q"
  using cfg_keepsD(2) [of p I s "cfg + off"] by (cases "cfg_read16 p s (cfg + off)") (auto simp: read_u16_def)

lemma keep_read_u32: "\<lbrakk>cfg_keeps p I; I s; off + 4 \<le> 4096 \<and> off mod 4 = 0; \<And>v s'. I s' \<Longrightarrow> Q (v, s')\<rbrakk> \<Longrightarrow> returns (read_u32 p cfg off s) Q"
  using cfg_keepsD(3) [of p I s "cfg + off"] by (cases "cfg_read32 p s (cfg + off)") (auto simp: read_u32_def)

lemma keep_write_u16: "\<lbrakk>cfg_keeps p I; I s; off + 2 \<le> 4096 \<and> off mod 2 = 0; \<And>s'. I s' \<Longrightarrow> Q s'\<rbrakk> \<Longrightarrow> returns (write_u16 p cfg off v s) Q"
  using cfg_keepsD(5) [of p I s "cfg + off" v] by (auto simp: write_u16_def)

lemma keep_write_u32: "\<lbrakk>cfg_keeps p I; I s; off + 4 \<le> 4096 \<and> off mod 4 = 0; \<And>s'. I s' \<Longrightarrow> Q s'\<rbrakk> \<Longrightarrow> returns (write_u32 p cfg off v s) Q"
  using cfg_keepsD(6) [of p I s "cfg + off" v] by (auto simp: write_u32_def)

lemma keep_field8: "\<lbrakk>cfg_keeps p I; I s; \<And>v s'. I s' \<Longrightarrow> returns (f v s') Q\<rbrakk> \<Longrightarrow> returns (let (v, s) = cfg_read8 p s a in f v s) Q"
  using cfg_keepsD(1) [of p I s a] by (cases "cfg_read8 p s a") auto

lemmas keep_mem = keep_read_u8 keep_read_u16 keep_read_u32 keep_write_u16 keep_write_u32

lemma keep_capabilities:
  assumes k: "cfg_keeps p I" and "I s" and q: "\<And>it s'. I s' \<Longrightarrow> length (ci_seen it) = 256 \<Longrightarrow> Q (it, s')"
  shows "returns (capabilities p cfg s) Q"
  unfolding capabilities_def
  by (insert assms(2), (erule keep_read_u8 [OF k] keep_read_u16 [OF k] | rule returns_step returns_SomeI | (erule q, simp; fail) | (simp; fail))+)

lemma keep_capability_next:
  assumes k: "cfg_keeps p I" and "I s" and len: "length (ci_seen it) = 256"
    and q: "\<And>c it' s'. I s' \<Longrightarrow> length (ci_seen it') = 256 \<Longrightarrow> (\<And>x. c = Some x \<Longrightarrow> cap_valid x) \<Longrightarrow> Q ((c, it'), s')"
  shows "returns (capability_next p cfg it s) Q"
proof (cases "ci_next it < 0x40 \<or> ci_next it AND 3 \<noteq> 0 \<or> ci_count it \<ge> length (ci_seen it) \<or> ci_seen it ! unat (ci_next it) \<noteq> 0")
  case True
  then show ?thesis using q [OF assms(2), of "it\<lparr>ci_next := 0\<rparr>" None] len by (simp add: capability_next_def Let_def)
next
  case False
  have b: "unat (ci_next it) < 256" using unsigned_less [of "ci_next it", where ?'a = nat] by simp
  have v: "cap_valid \<lparr>cap_id = i, cap_offset = ci_next it\<rparr>" for i
    using False by (simp add: cap_valid_def not_less word_le_nat_alt)
  show ?thesis unfolding capability_next_def Let_def if_not_P [OF False]
    by (insert assms(2) b len, (erule keep_read_u8 [OF k] | rule returns_step returns_SomeI | (simp; fail) | (erule q; auto simp: v; fail))+)
qed

lemma keep_capability_find:
  assumes k: "cfg_keeps p I" and "I s" and "length (ci_seen it) = 256"
    and q: "\<And>c s'. I s' \<Longrightarrow> (\<And>x. c = Some x \<Longrightarrow> cap_valid x) \<Longrightarrow> Q (c, s')"
  shows "returns (capability_find p cfg P it s) Q"
  using assms
proof (induction p cfg P it s rule: capability_find.induct)
  case (1 p cfg P it s)
  have "returns (capability_next p cfg it s) (\<lambda>((c, it'), s'). capability_next p cfg it s = Some ((c, it'), s') \<longrightarrow>
      I s' \<and> length (ci_seen it') = 256 \<and> (\<forall>x. c = Some x \<longrightarrow> cap_valid x))"
    by (rule keep_capability_next [OF 1(2,3,4)]) auto
  then obtain c it' s' where n: "capability_next p cfg it s = Some ((c, it'), s')"
    and i: "I s'" "length (ci_seen it') = 256" "\<And>x. c = Some x \<Longrightarrow> cap_valid x" by (auto simp: returns_def)
  show ?case
  proof (cases "\<exists>x. c = Some x \<and> \<not> P x")
    case True
    then obtain x where c: "c = Some x" "\<not> P x" by (elim exE conjE)
    from 1(1) [OF n refl refl c 1(2) i(1,2) 1(5)] n c show ?thesis by (subst capability_find.simps) simp
  next
    case False
    with n i 1(5) [OF i(1), of c] show ?thesis by (subst capability_find.simps) (cases c; simp)
  qed
qed

lemma keep_bar0:
  assumes k: "cfg_keeps p I" and "I s" and q: "\<And>r s'. I s' \<Longrightarrow> bar0 p cfg s = Some (r, s') \<Longrightarrow> Q (r, s')"
  shows "returns (bar0 p cfg s) Q"
proof -
  have "returns (bar0 p cfg s) (\<lambda>(r, s'). I s')"
    unfolding bar0_def
    by (insert assms(2), (erule keep_mem [OF k] | rule returns_step returns_SomeI | (simp; fail))+)
  then show ?thesis using q by (auto simp: returns_def)
qed

lemma keep_update_command:
  assumes k: "cfg_keeps p I" and "I s" and q: "\<And>s'. I s' \<Longrightarrow> Q s'"
  shows "returns (update_command p cfg a b s) Q"
  unfolding update_command_def by (insert assms(2), (erule keep_mem [OF k] | rule returns_step | (simp add: q; fail))+)

section \<open>The machine\<close>

text \<open>
  The hypotheses about the machine: the bit operations, a mapper that takes no page the drivers hold, the direct map at
  \<open>offset\<close> in the upper half, and a memory map in which the direct map covers the bars and the
  configuration regions.
\<close>

locale usb_machine =
  fixes e :: "'h usb_env" and F :: "nat set" and offset :: nat
  assumes machine_bits: "bit_field (xh_bits (xe e))"
    and mapper: "mapper_keeps (pt_ops e) (spare (xh_bits (xe e)) F bs)"
    and upper_half: "2 ^ 64 - 2 ^ 47 \<le> offset"
    and bars: "bar0 (pci_world (pe e)) cfg (s :: 'h world) = Some (Some (a, len), s') \<Longrightarrow> offset + unat a + unat len \<le> 2 ^ 64"
    and configuration: "r \<in> set (regions e) \<Longrightarrow> region_fits offset r"

sublocale usb_machine < xhci_driver "xe e" F w for w
  by (rule xhci_driver.intro) (rule machine_bits)

lemma attach_simps [simp]:
  "ctl (attach c s) = c" "mach (attach c s) = mach s" "mach (detach x) = mach x"
  by (simp_all add: attach_def detach_def)

lemma detach_attach [simp]: "detach (attach c s) = s"
  by (cases s) (simp add: attach_def detach_def)

lemma own_attach: "own bo F w bs (attach c s) \<longleftrightarrow> ctl_inv c \<and> context_64 c = w \<and> spare bo F (owned c @ bs) s"
proof -
  have "(\<exists>L. live_inv bo F (mach s, bs @ owned c @ L)) = spare bo F (bs @ owned c) s" by (simp add: spare_def)
  also have "\<dots> = spare bo F (owned c @ bs) s" by (rule iffI; erule spare_mset; simp)
  finally show ?thesis by (simp add: own_def)
qed

lemma own_detach: "own bo F w bs x \<Longrightarrow> ctl_inv (ctl x) \<and> spare bo F (owned (ctl x) @ bs) (detach x)"
proof -
  assume o: "own bo F w bs x"
  then have "spare bo F (bs @ owned (ctl x)) (detach x)" by (auto simp: own_def spare_def)
  from spare_mset [OF this, of "owned (ctl x) @ bs"] o show ?thesis by (simp add: own_def)
qed

context usb_machine
begin

abbreviation bits :: bit_ops where "bits \<equiv> xh_bits (xe e)"

lemma up_bring_up:
  assumes s: "spare bits F bs s" and no: "\<And>s'. spare bits F bs s' \<Longrightarrow> Q (None, s')"
    and yes: "\<And>c s'. spare bits F (owned c @ bs) s' \<Longrightarrow> ctl_inv c \<Longrightarrow> Q (Some c, s')"
  shows "returns (bring_up (xe e) m s) Q"
proof -
  have start: "returns (start_controller (xe e) base cap n w (attach c t)) (\<lambda>x. returns
      (case x of (r, s) \<Rightarrow> (case r of Inl err \<Rightarrow> Some (None, detach s) | Inr _ \<Rightarrow> Some (Some (ctl s), detach s))) Q)"
    if "fresh_controller bs c t" for base cap n w c t
  proof (rule hold_start [where v = False and bs = bs and w = w])
    show "own bits F False bs (attach c t)" using that by (simp add: own_attach fresh_controller_def)
    show "returns (case (Inl err, s') of (r, s) \<Rightarrow> (case r of Inl err \<Rightarrow> Some (None, detach s) | Inr _ \<Rightarrow> Some (Some (ctl s), detach s))) Q"
      if "\<exists>L. live_inv bits F (mach s', bs @ L)" for err and s' :: "'h xhci"
      using that by (auto intro!: no simp: spare_def)
    show "returns (case (Inr (), s') of (r, s) \<Rightarrow> (case r of Inl err \<Rightarrow> Some (None, detach s) | Inr _ \<Rightarrow> Some (Some (ctl s), detach s))) Q"
      if "own bits F w bs s'" for s'
      using own_detach [OF that] by (auto intro!: yes)
  qed
  have new: "returns (controller_new (xe e) m hcs2 t) (\<lambda>x. returns (case x of (r, w) \<Rightarrow> (case r of Inl err \<Rightarrow> Some (None, w) | Inr c \<Rightarrow>
      do { (r, s) \<leftarrow> start_controller (xe e) base cap n c64 (attach c w);
           case r of Inl err \<Rightarrow> Some (None, detach s) | Inr _ \<Rightarrow> Some (Some (ctl s), detach s) })) Q)"
    if "spare bits F bs t" for hcs2 t base cap n c64
    using yields_new [OF that, of m hcs2] unfolding fresh.yields_def
  proof (rule returns_mono)
    fix x :: "(InitError + ControllerResources) \<times> 'h world"
    assume x: "case x of (r, s) \<Rightarrow> case r of Inl _ \<Rightarrow> spare bits F bs s | Inr c \<Rightarrow> fresh_controller bs c s"
    obtain r t where "x = (r, t)" by (cases x)
    with x start show "returns (case x of (r, w) \<Rightarrow> (case r of Inl err \<Rightarrow> Some (None, w) | Inr c \<Rightarrow>
      do { (r, s) \<leftarrow> start_controller (xe e) base cap n c64 (attach c w);
           case r of Inl err \<Rightarrow> Some (None, detach s) | Inr _ \<Rightarrow> Some (Some (ctl s), detach s) })) Q"
      by (cases r) (auto intro: no)
  qed
  have keep: "spare bits F bs t" if "hw_only s t" for t using spare_hw [OF s that] .
  have self: "hw_only s s" by simp
  show ?thesis unfolding bring_up_def
    by (insert self, (erule acc_reset_controller acc_io | (drule keep, erule new) | rule returns_step returns_SomeI | (drule keep, erule no))+)
qed

lemma up_probe:
  assumes s: "spare bits F bs s" and no: "\<And>s'. spare bits F bs s' \<Longrightarrow> Q (None, s')"
    and yes: "\<And>c s'. spare bits F (owned c @ bs) s' \<Longrightarrow> ctl_inv c \<Longrightarrow> Q (Some c, s')"
  shows "returns (probe_function e offset cfg s) Q"
proof -
  let ?p = "pci_world (pe e)"
  have k: "cfg_keeps ?p (spare bits F bs)"
  proof -
    have "spare bits F bs t" if "spare bits F bs u" "hw_only u t" for u t using spare_hw [OF that] .
    with pci_world_keeps [of "pe e"] show ?thesis unfolding cfg_keeps_def by (meson hw_only_refl)
  qed
  have map: "returns (mmio_map (pt_ops e) offset t a (unat len)) R"
    if "spare bits F bs t" "bar0 ?p cfg u = Some (Some (a, len), v)" "\<And>r t. spare bits F bs t \<Longrightarrow> R (r, t)" for t and u v :: "'h world" and a len R
    using mmio_map_total [OF that(1) mapper upper_half bars [OF that(2)]] that(3) by (auto simp: returns_def)
  have bar: "returns (do { (bar, w) \<leftarrow> bar0 ?p cfg t;
      case bar of None \<Rightarrow> Some (None, w)
        | Some (address, len) \<Rightarrow>
            do { w \<leftarrow> update_command ?p cfg (push_bit 1 1 OR push_bit 2 1) 0 w;
                 (r, w) \<leftarrow> mmio_map (pt_ops e) offset w address (unat len);
                 case r of Inl _ \<Rightarrow> Some (None, w) | Inr m \<Rightarrow> bring_up (xe e) m w } }) Q" if "spare bits F bs t" for t
  proof (rule returns_bindI, rule keep_bar0 [OF k that])
    fix r w
    assume w: "spare bits F bs w" and b: "bar0 ?p cfg t = Some (r, w)"
    show "returns (case (r, w) of (bar, w) \<Rightarrow> (case bar of None \<Rightarrow> Some (None, w)
        | Some (address, len) \<Rightarrow>
            do { w \<leftarrow> update_command ?p cfg (push_bit 1 1 OR push_bit 2 1) 0 w;
                 (r, w) \<leftarrow> mmio_map (pt_ops e) offset w address (unat len);
                 case r of Inl _ \<Rightarrow> Some (None, w) | Inr m \<Rightarrow> bring_up (xe e) m w })) Q"
    proof (cases r)
      case (Some x)
      obtain a len where x: "x = (a, len)" by (cases x)
      show ?thesis unfolding prod.case Some x option.case
        by (insert w, (erule keep_update_command [OF k] | (erule map [OF _ b [unfolded Some x]]) | rule returns_step returns_SomeI
          | erule up_bring_up | erule no | (erule (1) yes))+)
    qed (simp add: no w)
  qed
  have same: "returns (let (c, w) = class_code ?p cfg s; (same, w) = (if c = 0x0c then
        let (sc, w) = sub_class ?p cfg w in if sc = 0x03 then let (pi, w) = prog_if ?p cfg w in (pi = 0x30, w) else (False, w)
      else (False, w)) in R same w) Q" if "\<And>same w. spare bits F bs w \<Longrightarrow> returns (R same w) Q" for R
  proof -
    obtain c s1 where 1: "class_code ?p cfg s = (c, s1)" by force
    obtain sc s2 where 2: "sub_class ?p cfg s1 = (sc, s2)" by force
    obtain pi s3 where 3: "prog_if ?p cfg s2 = (pi, s3)" by force
    have "spare bits F bs s1" using cfg_keepsD(1) [OF k s] 1 by (simp add: class_code_def) (metis snd_conv)
    moreover from cfg_keepsD(1) [OF k this] have "spare bits F bs s2" using 2 by (simp add: sub_class_def) (metis snd_conv)
    moreover from cfg_keepsD(1) [OF k this] have "spare bits F bs s3" using 3 by (simp add: prog_if_def) (metis snd_conv)
    ultimately show ?thesis by (simp add: 1 2 3 that)
  qed
  show ?thesis unfolding probe_function_def Let_def [where s = ?p]
    by (rule same, rule returns_ifI) (rule returns_SomeI, erule no, erule bar)
qed

end

section \<open>The table of controllers\<close>

definition slot_owned :: "ControllerResources option \<Rightarrow> dma_buffer list" where
  "slot_owned slot = (case slot of Some c \<Rightarrow> owned c | None \<Rightarrow> [])"

definition host_owned :: "'h usb_host \<Rightarrow> dma_buffer list" where
  "host_owned h = concat (map slot_owned (controllers h)) @ concat (map owned (unregistered h))"

definition host_ok :: "bit_ops \<Rightarrow> nat set \<Rightarrow> 'h usb_host \<Rightarrow> bool" where
  "host_ok bo F h \<longleftrightarrow> length (controllers h) = MAX_CONTROLLERS \<and>
     (\<forall>c. Some c \<in> set (controllers h) \<or> c \<in> set (unregistered h) \<longrightarrow> ctl_inv c) \<and> spare bo F (host_owned h) (around h)"

text \<open>The controllers other than the one at a place.\<close>

definition others :: "nat \<Rightarrow> 'h usb_host \<Rightarrow> dma_buffer list" where
  "others k h = host_owned (h\<lparr>controllers := (controllers h)[k := None]\<rparr>)"

lemma mset_concat_update:
  assumes "k < length xs"
  shows "mset (concat (map f (xs[k := x]))) + mset (f (xs ! k)) = mset (concat (map f xs)) + mset (f x)"
proof -
  have 1: "xs = take k xs @ xs ! k # drop (Suc k) xs" by (rule id_take_nth_drop [OF assms])
  show ?thesis by (subst (3) 1, subst upd_conv_take_nth_drop [OF assms]) simp
qed

lemma host_owned_update:
  assumes "k < length (controllers h)"
  shows "mset (host_owned (h\<lparr>around := w, controllers := (controllers h)[k := Some c]\<rparr>)) = mset (owned c @ others k h)"
proof -
  let ?f = "\<lambda>x. mset (concat (map slot_owned ((controllers h)[k := x])))" and ?r = "mset (slot_owned (controllers h ! k))"
  have "?f (Some c) + ?r = (mset (owned c) + ?f None) + ?r"
    using mset_concat_update [OF assms, of slot_owned "Some c"] mset_concat_update [OF assms, of slot_owned None]
    by (simp add: slot_owned_def ac_simps)
  then have "?f (Some c) = mset (owned c) + ?f None" by (rule add_right_imp_eq)
  then show ?thesis by (simp add: host_owned_def others_def)
qed

lemma others_update [simp]: "others k (h\<lparr>around := w, controllers := (controllers h)[k := x]\<rparr>) = others k h"
  by (simp add: others_def host_owned_def)

lemma host_ok_slot:
  assumes h: "host_ok bo F h" and c: "k < length (controllers h)" "controllers h ! k = Some c"
  shows "own bo F (context_64 c) (others k h) (attach c (around h))"
proof -
  have "h\<lparr>around := around h, controllers := (controllers h)[k := Some c]\<rparr> = h"
    using c(2) by (simp add: list_update_same_conv [OF c(1), THEN iffD2])
  with host_owned_update [OF c(1), where w = "around h" and c = c] have m: "mset (host_owned h) = mset (owned c @ others k h)" by simp
  have "Some c \<in> set (controllers h)" using nth_mem [OF c(1)] c(2) by simp
  then show ?thesis using h spare_mset [OF _ m, of bo F "around h"] by (simp add: host_ok_def own_attach)
qed

lemma host_ok_put:
  assumes h: "host_ok bo F h" and k: "k < length (controllers h)" and o: "own bo F w (others k h) s"
  shows "host_ok bo F (h\<lparr>around := detach s, controllers := (controllers h)[k := Some (ctl s)]\<rparr>)"
proof -
  from own_detach [OF o] have c: "ctl_inv (ctl s)" and "spare bo F (owned (ctl s) @ others k h) (detach s)" by simp_all
  from spare_mset [OF this(2) host_owned_update [OF k, symmetric]]
  have "spare bo F (host_owned (h\<lparr>around := detach s, controllers := (controllers h)[k := Some (ctl s)]\<rparr>)) (detach s)" .
  moreover have "set ((controllers h)[k := Some (ctl s)]) \<subseteq> insert (Some (ctl s)) (set (controllers h))" by (rule set_update_subset_insert)
  ultimately show ?thesis using h c by (auto simp: host_ok_def)
qed

text \<open>An operation of one controller, for the table.\<close>

lemma host_on_controller:
  assumes h: "host_ok bo F h" and c: "k < length (controllers h)" "controllers h ! k = Some c"
    and f: "\<And>bs w s Q. own bo F w bs s \<Longrightarrow> (\<And>r s'. own bo F w bs s' \<Longrightarrow> Q (r, s')) \<Longrightarrow> returns (f s) Q"
    and q: "\<And>r h'. host_ok bo F h' \<Longrightarrow> Q (r, h')"
  shows "returns (on_controller k f c h) Q"
  unfolding on_controller_def
  by (rule returns_bindI, rule f [OF host_ok_slot [OF h c]]) (auto intro!: q host_ok_put [OF h c(1)])

lemma host_for_each:
  assumes "host_ok bo F h" and "\<And>x h Q. \<lbrakk>x \<in> set xs; host_ok bo F h; \<And>h'. host_ok bo F h' \<Longrightarrow> Q h'\<rbrakk> \<Longrightarrow> returns (f x h) Q"
    and "\<And>h'. host_ok bo F h' \<Longrightarrow> Q h'"
  shows "returns (for_each f xs h) Q"
  using assms(1,2)
proof (induction xs arbitrary: h)
  case (Cons x xs)
  show ?case unfolding for_each.simps
    by (rule returns_bindI, rule Cons.prems(2)) (use Cons in auto)
qed (simp add: assms(3))

lemma host_visit_all:
  fixes h :: "'a usb_host"
  assumes h: "host_ok bo F h"
    and f: "\<And>bs w s Q. own bo F w bs s \<Longrightarrow> (\<And>r s'. own bo F w bs s' \<Longrightarrow> Q (r, s')) \<Longrightarrow> returns (f s) Q"
    and q: "\<And>h'. host_ok bo F h' \<Longrightarrow> Q h'"
  shows "returns (for_each (visit f) [0..<length (controllers h)] h) Q"
proof (rule host_for_each [OF h _ q])
  fix k and h' :: "'a usb_host" and Q :: "'a usb_host \<Rightarrow> bool"
  assume k: "k \<in> set [0..<length (controllers h)]" and h': "host_ok bo F h'" and Q: "\<And>h'. host_ok bo F h' \<Longrightarrow> Q h'"
  have k: "k < length (controllers h')" using k h h' by (simp add: host_ok_def)
  show "returns (visit f k h') Q"
  proof (cases "controllers h' ! k")
    case (Some c)
    show ?thesis unfolding visit_def Some option.case
      by (rule returns_bindI, rule host_on_controller [OF h' k Some f]) (auto intro: Q)
  qed (simp add: visit_def Q h')
qed

context usb_machine
begin

abbreviation ok :: "'h usb_host \<Rightarrow> bool" where "ok \<equiv> host_ok bits F"

lemma cap_valid_bounds:
  assumes "cap_valid c"
  shows "unat (cap_offset c) + 2 + 2 \<le> 4096 \<and> (unat (cap_offset c) + 2) mod 2 = 0"
    "unat (cap_offset c) + 4 + 4 \<le> 4096 \<and> (unat (cap_offset c) + 4) mod 4 = 0"
    "unat (cap_offset c) + 8 + 4 \<le> 4096 \<and> (unat (cap_offset c) + 8) mod 4 = 0"
    "msi_data_offset (unat (cap_offset c)) ctrl + 2 \<le> 4096 \<and> msi_data_offset (unat (cap_offset c)) ctrl mod 2 = 0"
proof -
  have "cap_offset c AND mask 2 = 0" using assms by (simp add: cap_valid_def mask_eq_exp_minus_1)
  then have "take_bit 2 (unat (cap_offset c)) = 0" by (metis take_bit_eq_mask unsigned_0 unsigned_take_bit_eq)
  then have "unat (cap_offset c) mod 4 = 0" by (simp add: take_bit_eq_mod)
  moreover have "unat (cap_offset c) < 256" using unsigned_less [of "cap_offset c", where ?'a = nat] by simp
  ultimately show "unat (cap_offset c) + 2 + 2 \<le> 4096 \<and> (unat (cap_offset c) + 2) mod 2 = 0"
    "unat (cap_offset c) + 4 + 4 \<le> 4096 \<and> (unat (cap_offset c) + 4) mod 4 = 0"
    "unat (cap_offset c) + 8 + 4 \<le> 4096 \<and> (unat (cap_offset c) + 8) mod 4 = 0"
    "msi_data_offset (unat (cap_offset c)) ctrl + 2 \<le> 4096 \<and> msi_data_offset (unat (cap_offset c)) ctrl mod 2 = 0"
    unfolding msi_data_offset_def by (cases "ctrl AND MSI_CONTROL_64BIT \<noteq> 0"; simp; presburger)+
qed

lemma pci_keeps_own: "cfg_keeps (pci_world (pe e)) (own bits F w bs)"
proof -
  have "own bits F w bs t" if "own bits F w bs u" "hw_only u t" for t u using own_hw [OF that] .
  with pci_world_keeps [of "pe e"] show ?thesis unfolding cfg_keeps_def by (meson hw_only_refl)
qed

lemma up_program_msi:
  assumes "own bits F w bs s" and c: "cap_valid c" and q: "\<And>s'. own bits F w bs s' \<Longrightarrow> Q s'"
  shows "returns (program_msi e cfg (unat (cap_offset c)) s) Q"
proof -
  let ?p = "pci_world (pe e)"
  note k = pci_keeps_own and b = cap_valid_bounds [OF c]
  have lapic: "returns (let (d, s) = on_hw (lapic_id e) s in f d s) R" if "own bits F w bs s" "\<And>d s. own bits F w bs s \<Longrightarrow> returns (f d s) R" for s f R
    using own_hw [OF that(1) on_hw_only [of s "lapic_id e"]] that(2) by (auto split: prod.split)
  have msi: "own bits F w bs (upd_ctl (\<lambda>c. c\<lparr>msi_vector := v\<rparr>) s)" if "own bits F w bs s" for v s
    by (rule own_upd [OF that]) (use that in \<open>simp_all add: own_def ctl_inv_def owned_def\<close>)
  show ?thesis unfolding program_msi_def Let_def [where s = ?p]
    by (insert assms(1), (erule keep_read_u16 [OF k _ b(1)] keep_write_u32 [OF k _ b(2)] keep_write_u32 [OF k _ b(3)]
        keep_write_u16 [OF k _ b(4)] keep_write_u16 [OF k _ b(1)]
      | erule lapic own_io | rule returns_step returns_SomeI | (drule msi, erule q))+)
qed

lemma up_enable_msi:
  assumes "own bits F w bs s" and q: "\<And>s'. own bits F w bs s' \<Longrightarrow> Q s'"
  shows "returns (enable_msi e cfg s) Q"
  unfolding enable_msi_def Let_def
proof (rule returns_bindI, rule keep_capabilities [OF pci_keeps_own assms(1)], unfold prod.case, rule returns_bindI,
    rule keep_capability_find [OF pci_keeps_own], assumption, assumption)
  fix c and s2 :: "'h xhci"
  assume "own bits F w bs s2" and "\<And>x. c = Some x \<Longrightarrow> cap_valid x"
  then show "returns (case (c, s2) of (found, s) \<Rightarrow> (case found of None \<Rightarrow> Some s | Some c \<Rightarrow> program_msi e cfg (unat (cap_offset c)) s)) Q"
    by (cases c) (auto intro: q up_program_msi)
qed

end

section \<open>Discovery\<close>

text \<open>The enumeration keeps what its accesses and its hook keep.\<close>

lemma keep_check_at:
  assumes k: "cfg_keeps p I" and "I s" and a: "get_config_space base 0 (bdf_device b) (bdf_function b) = Some cfg"
    and hook: "\<And>s Q. I s \<Longrightarrow> (\<And>s'. I s' \<Longrightarrow> Q s') \<Longrightarrow> returns (hook (bdf_bus b) (bdf_device b) (bdf_function b) cfg s) Q"
    and q: "\<And>r s'. I s' \<Longrightarrow> Q (r, s')"
  shows "returns (check_at p base b hook s) Q"
proof -
  obtain v s1 where 1: "vendor_id p cfg s = (v, s1)" by force
  obtain v2 s2 where 2: "vendor_id p cfg s1 = (v2, s2)" by force
  have i: "I s1" using cfg_keepsD(2) [OF k assms(2)] 1 by (simp add: vendor_id_def) (metis snd_conv)
  with cfg_keepsD(2) [OF k] 2 have i2: "I s2" by (simp add: vendor_id_def) (metis snd_conv)
  have ty: "Q (case header_type p cfg s of (h, x) \<Rightarrow> (h AND 0x80 \<noteq> 0, x))" if "I s" for s
    using cfg_keepsD(1) [OF k that, of "cfg + 0x0e"] by (cases "cfg_read8 p s (cfg + 0x0e)") (simp add: header_type_def q)
  show ?thesis unfolding check_at_def
    by (auto simp: a 1 2 Let_def intro!: q i i2 hook [OF i2] ty)
qed

lemma keep_doit:
  fixes I :: "'s \<Rightarrow> bool"
  assumes k: "cfg_keeps p I" and "I s" and r: "\<forall>r\<in>set rs. region_fits offset r"
    and hook: "\<And>b d f cfg s Q. I s \<Longrightarrow> (\<And>s'. I s' \<Longrightarrow> Q s') \<Longrightarrow> returns (hook b d f cfg s) Q"
    and q: "\<And>s'. I s' \<Longrightarrow> Q s'"
  shows "returns (doit p offset rs hook s) Q"
proof -
  have each: "returns (for_each f xs s) R"
    if "I s" "\<And>x s R. \<lbrakk>x \<in> set xs; I s; \<And>s'. I s' \<Longrightarrow> R s'\<rbrakk> \<Longrightarrow> returns (f x s) R" "\<And>s'. I s' \<Longrightarrow> R s'"
    for f and xs :: "'x list" and s and R
    using that(1,2)
  proof (induction xs arbitrary: s)
    case (Cons x xs)
    show ?case unfolding for_each.simps by (rule returns_bindI, rule Cons.prems(2)) (use Cons in auto)
  qed (simp add: that(3))
  have device: "returns (check_device p (region_address r + offset + unat (b - bus_first r) * 2 ^ 20) b hook d s) R"
    if "region_fits offset r" "bus_first r \<le> b" "d < 32" "I s" "\<And>s'. I s' \<Longrightarrow> R s'" for r b d s R
  proof -
    let ?base = "region_address r + offset + unat (b - bus_first r) * 2 ^ 20"
    have at: "returns (check_at p ?base \<lparr>bdf_bus = b, bdf_device = d, bdf_function = f\<rparr> hook s) R"
      if "f < 8" "I s" "\<And>m s'. I s' \<Longrightarrow> R (m, s')" for f s R
      by (rule keep_check_at [OF k that(2)]) (use config_space_address(3) [OF \<open>region_fits offset r\<close> \<open>bus_first r \<le> b\<close> \<open>d < 32\<close> that(1)] hook that(3) in auto)
    have rest: "returns (for_each (\<lambda>f s. do { bdf \<leftarrow> bdf_new b d f; (_, s) \<leftarrow> check_at p ?base bdf hook s; Some s }) (map of_nat [1..<8]) s) R"
      if "I s" for s
    proof (rule each [OF that _ \<open>\<And>s'. I s' \<Longrightarrow> R s'\<close>])
      fix f :: u8 and s Q
      assume "f \<in> set (map of_nat [1..<8])" and s: "I s" and Q: "\<And>s'. I s' \<Longrightarrow> Q s'"
      then have "f < 8" using u8_of_nat [of f 1 8] by (simp add: word_less_nat_alt)
      then have new: "bdf_new b d f = Some \<lparr>bdf_bus = b, bdf_device = d, bdf_function = f\<rparr>" using \<open>d < 32\<close> by (simp add: bdf_new_def)
      show "returns (do { bdf \<leftarrow> bdf_new b d f; (_, s) \<leftarrow> check_at p ?base bdf hook s; Some s }) Q"
        unfolding new Option.bind.simps by (rule returns_bindI, rule at [OF \<open>f < 8\<close> s]) (simp add: Q)
    qed
    have "bdf_new b d 0 = Some \<lparr>bdf_bus = b, bdf_device = d, bdf_function = 0\<rparr>" using \<open>d < 32\<close> by (simp add: bdf_new_def)
    then show ?thesis unfolding check_device_def
      by (simp only: Option.bind.simps) (rule returns_bindI, rule at [OF _ \<open>I s\<close>], simp, simp only: prod.case, rule returns_ifI,
        rule rest, assumption, simp add: that(5))
  qed
  have bus: "returns (check_bus p offset r hook b s) R"
    if r: "region_fits offset r" and b: "bus_first r \<le> b" and "I s" "\<And>s'. I s' \<Longrightarrow> R s'" for r b s R
    unfolding check_bus_def
  proof (rule each [OF that(3) _ that(4)])
    fix d :: u8 and s Q
    assume "d \<in> set (map of_nat [0..<32])" and s: "I s" and Q: "\<And>s'. I s' \<Longrightarrow> Q s'"
    then have d: "d < 32" using u8_of_nat [of d 0 32] by (simp add: word_less_nat_alt)
    show "returns (do { v \<leftarrow> checked_add (region_address r) offset; base \<leftarrow> checked_add v (unat (b - bus_first r) * 2 ^ 20);
        check_device p base b hook d s }) Q"
      using config_space_address(1,2) [OF r b d, of 0] device [OF r b d s Q] by simp
  qed
  show ?thesis unfolding doit_def
    by (rule each [OF assms(2) _ q], rule each) (use r bus region_buses_ge in auto)
qed

context usb_machine
begin

lemma up_discover:
  assumes h: "ok h" and q: "\<And>r h'. ok h' \<Longrightarrow> Q (r, h')"
  shows "returns (discover_one e offset cfg h) Q"
  unfolding discover_one_def
proof (rule returns_bindI, rule up_probe [where bs = "host_owned h"])
  show "spare bits F (host_owned h) (around h)" using h by (simp add: host_ok_def)
  show "returns (case (None, w) of (found, w) \<Rightarrow> let h = h\<lparr>around := w\<rparr> in
      (case found of None \<Rightarrow> Some (FailedState, h) | Some c \<Rightarrow> (case register_controller c h of (None, h) \<Rightarrow> Some (Reset, h)
         | (Some k, h) \<Rightarrow> do { (_, h) \<leftarrow> on_controller k (\<lambda>s. do { s \<leftarrow> enable_msi e cfg s; Some ((), s) }) c h; Some (Reset, h) }))) Q"
    if "spare bits F (host_owned h) w" for w
    using h that by (auto intro!: q simp: host_ok_def host_owned_def)
  fix c and w :: "'h world"
  assume c: "spare bits F (owned c @ host_owned h) w" "ctl_inv c"
  have len: "length (controllers h) = MAX_CONTROLLERS" using h by (simp add: host_ok_def)
  show "returns (case (Some c, w) of (found, w) \<Rightarrow> let h = h\<lparr>around := w\<rparr> in
      (case found of None \<Rightarrow> Some (FailedState, h) | Some c \<Rightarrow> (case register_controller c h of (None, h) \<Rightarrow> Some (Reset, h)
         | (Some k, h) \<Rightarrow> do { (_, h) \<leftarrow> on_controller k (\<lambda>s. do { s \<leftarrow> enable_msi e cfg s; Some ((), s) }) c h; Some (Reset, h) }))) Q"
  proof (cases "position (\<lambda>slot. slot = None) (controllers h)")
    case None
    have "ok (h\<lparr>around := w, unregistered := unregistered h @ [c]\<rparr>)"
      using h c spare_mset [OF c(1), of "host_owned (h\<lparr>around := w, unregistered := unregistered h @ [c]\<rparr>)"]
      by (auto simp: host_ok_def host_owned_def)
    then show ?thesis by (simp add: register_controller_def None q)
  next
    case (Some k)
    let ?h = "h\<lparr>around := w, controllers := (controllers h)[k := Some c]\<rparr>"
    have k: "k < length (controllers h)" "controllers h ! k = None" using position_SomeD [OF Some] by simp_all
    then have "(controllers h)[k := None] = controllers h" by (simp add: list_update_same_conv [OF k(1), THEN iffD2])
    then have o: "others k h = host_owned h" by (simp add: others_def)
    have "attach c w = attach c w" ..
    have "own bits F (context_64 c) (others k h) (attach c w)" using c o by (simp add: own_attach)
    from host_ok_put [OF h k(1) this] have ok: "ok ?h" by simp
    show ?thesis
      unfolding prod.case option.case Let_def register_controller_def using Some
      by simp (rule host_on_controller [OF ok], simp add: k, simp add: k, rule returns_bindI, erule up_enable_msi, simp, simp add: q)
  qed
qed

lemma host_cfg_keeps: "cfg_keeps (host_pci e) ok"
proof -
  have w: "ok (h\<lparr>around := w\<rparr>)" if "ok h" "hw_only (around h) w" for h w
    using that spare_hw by (auto simp: host_ok_def host_owned_def)
  have k: "hw_only (around h) (snd (cfg_read8 (pci_world (pe e)) (around h) a))" "hw_only (around h) (snd (cfg_read16 (pci_world (pe e)) (around h) a))"
    "hw_only (around h) (snd (cfg_read32 (pci_world (pe e)) (around h) a))" "hw_only (around h) (cfg_write8 (pci_world (pe e)) (around h) a u)"
    "hw_only (around h) (cfg_write16 (pci_world (pe e)) (around h) a v)" "hw_only (around h) (cfg_write32 (pci_world (pe e)) (around h) a x)"
    for a u v x and h :: "'h usb_host"
    by (simp_all add: cfg_keepsD [OF pci_world_keeps])
  show ?thesis unfolding cfg_keeps_def host_pci_def Let_def
    using k by (auto split: prod.split intro!: w) (metis snd_conv)+
qed

lemma up_init:
  assumes "live_inv bits F (mach w, L)" and off: "hhdm (mach w) = offset" and q: "\<And>h. ok h \<Longrightarrow> Q h"
  shows "returns (xhci_init e w) Q"
  unfolding xhci_init_def Let_def off
proof (rule keep_doit [OF host_cfg_keeps])
  show "ok \<lparr>around = w, controllers = replicate MAX_CONTROLLERS None, unregistered = []\<rparr>"
    using assms(1) by (auto simp: host_ok_def host_owned_def spare_def slot_owned_def)
  show "\<forall>r\<in>set (regions e). region_fits offset r" using configuration by blast
  fix b d f cfg h Q
  assume h: "ok h" and Q: "\<And>h'. ok h' \<Longrightarrow> Q h'"
  let ?p = "host_pci e"
  obtain c h1 where 1: "class_code ?p cfg h = (c, h1)" by force
  obtain sc h2 where 2: "sub_class ?p cfg h1 = (sc, h2)" by force
  obtain pi h3 where 3: "prog_if ?p cfg h2 = (pi, h3)" by force
  note k = cfg_keepsD(1) [OF host_cfg_keeps]
  have h1: "ok h1" using k [OF h] 1 by (simp add: class_code_def) (metis snd_conv)
  have h2: "ok h2" using k [OF h1] 2 by (simp add: sub_class_def) (metis snd_conv)
  have h3: "ok h3" using k [OF h2] 3 by (simp add: prog_if_def) (metis snd_conv)
  show "returns (init_hook e offset b d f cfg h) Q"
    unfolding init_hook_def by (auto simp: 1 2 3 Let_def Q h1 h2 h3 intro!: up_discover)
qed (rule q)

lemma up_poll: "\<lbrakk>ok h; \<And>h'. ok h' \<Longrightarrow> Q h'\<rbrakk> \<Longrightarrow> returns (usb_poll e h) Q"
  unfolding usb_poll_def
  by (erule host_visit_all) (rule returns_bindI, erule hold_poll, simp_all)

lemma up_interrupt: "\<lbrakk>ok h; \<And>h'. ok h' \<Longrightarrow> Q h'\<rbrakk> \<Longrightarrow> returns (interrupt_handler e h) Q"
  unfolding interrupt_handler_def
  by (erule host_visit_all) (rule returns_bindI, erule own_acknowledge_interrupt, simp_all)

lemma up_read: "\<lbrakk>ok h; \<And>r h'. ok h' \<Longrightarrow> Q (r, h')\<rbrakk> \<Longrightarrow> returns (usb_read_blocks e i lba len h) Q"
proof -
  assume h: "ok h" and q: "\<And>r h'. ok h' \<Longrightarrow> Q (r, h')"
  have "returns (read_from e i lba len ks h) Q" if "ok h" "\<forall>k\<in>set ks. k < MAX_CONTROLLERS" for ks h
    using that
  proof (induction ks arbitrary: h)
    case (Cons k ks)
    show ?case
    proof (cases "controllers h ! k")
      case (Some c)
      have k: "k < length (controllers h)" using Cons.prems by (simp add: host_ok_def)
      show ?thesis
        by (simp add: Some, rule host_on_controller [OF Cons.prems(1) k Some]) (erule own_read_blocks, assumption, use Cons.prems(2) in \<open>auto split: option.split simp: q intro: Cons.IH\<close>)
    qed (use Cons in simp)
  qed (simp add: q)
  from this [OF h] h show ?thesis by (simp add: usb_read_blocks_def host_ok_def)
qed

end

section \<open>Runs of the driver\<close>

text \<open>
  After discovery the kernel polls, handles interrupts and reads disks in any order. Between these calls the hardware
  goes on, and the rest of the kernel allocates, frees and writes memory as long as the buffers of
  the driver stay allocated. \<open>None\<close> is a panic or an access outside a buffer.
\<close>

inductive usb_step :: "'h usb_env \<Rightarrow> nat set \<Rightarrow> 'h usb_host \<Rightarrow> 'h usb_host option \<Rightarrow> bool" for e F where
  step_poll: "usb_step e F h (usb_poll e h)"
| step_interrupt: "usb_step e F h (interrupt_handler e h)"
| step_read: "usb_step e F h (map_option snd (usb_read_blocks e i lba len h))"
| step_kernel: "spare (xh_bits (xe e)) F (host_owned h) w \<Longrightarrow> usb_step e F h (Some (h\<lparr>around := w\<rparr>))"

inductive usb_run :: "'h usb_env \<Rightarrow> nat set \<Rightarrow> 'h usb_host \<Rightarrow> 'h usb_host option \<Rightarrow> bool" for e F h where
  run_start: "usb_run e F h (Some h)"
| run_step: "\<lbrakk>usb_run e F h (Some h1); usb_step e F h1 r\<rbrakk> \<Longrightarrow> usb_run e F h r"

inductive_cases usb_stepE: "usb_step e F h r"

context usb_machine
begin

lemma step_keeps: "\<lbrakk>usb_step e F h r; ok h\<rbrakk> \<Longrightarrow> \<exists>h'. r = Some h' \<and> ok h'"
proof (erule usb_stepE)
  assume h: "ok h"
  show "r = usb_poll e h \<Longrightarrow> \<exists>h'. r = Some h' \<and> ok h'" using up_poll [OF h, of ok] by (simp add: returns_def)
  show "r = interrupt_handler e h \<Longrightarrow> \<exists>h'. r = Some h' \<and> ok h'" using up_interrupt [OF h, of ok] by (simp add: returns_def)
  show "r = map_option snd (usb_read_blocks e i lba len h) \<Longrightarrow> \<exists>h'. r = Some h' \<and> ok h'" for i lba len
    using up_read [OF h, of "\<lambda>(r, h). ok h" i lba len] by (auto simp: returns_def)
  show "r = Some (h\<lparr>around := w\<rparr>) \<Longrightarrow> spare bits F (host_owned h) w \<Longrightarrow> \<exists>h'. r = Some h' \<and> ok h'" for w
    using h by (simp add: host_ok_def host_owned_def)
qed

lemma run_keeps: "\<lbrakk>usb_run e F h r; ok h\<rbrakk> \<Longrightarrow> \<exists>h'. r = Some h' \<and> ok h'"
proof (induction rule: usb_run.induct)
  case (run_step h1 r)
  then obtain h' where "Some h1 = Some h'" "ok h'" by blast
  with step_keeps [OF run_step(2)] show ?case by simp
qed simp

lemma init_run_ok:
  assumes "live_inv bits F (mach w, L)" and "hhdm (mach w) = offset"
  shows "\<exists>h. xhci_init e w = Some h \<and> (\<forall>r. usb_run e F h r \<longrightarrow> (\<exists>h'. r = Some h' \<and> ok h'))"
  using up_init [OF assms, of "\<lambda>h. \<forall>r. usb_run e F h r \<longrightarrow> (\<exists>h'. r = Some h' \<and> ok h')"] run_keeps by (auto simp: returns_def)

end

text \<open>What the invariant says of the buffers.\<close>

lemma host_ok_buffers:
  assumes "host_ok bo F h"
  shows "sorted_wrt (\<lambda>b c. buffer_pages b \<inter> buffer_pages c = {}) (host_owned h)"
    "\<forall>b\<in>set (host_owned h). buffer_pages b \<inter> free_set bo (allocator (mach (around h))) = {} \<and> buffer_pages b \<subseteq> F"
  using assms by (auto simp: host_ok_def spare_def live_inv_def sorted_wrt_append)


text \<open>
  A machine with one bus. Its first function has a 64-bit bar, the hardware counts the accesses to the configuration
  space and answers as a device does that is asked for the size of the bar.
\<close>

definition sample_reads :: "nat \<Rightarrow> u32" where
  "sample_reads k = (if k = 0 then 0xfe010004 else if k = 1 then 8 else if k = 3 then 0xffff0004 else if k = 5 then 0xffffffff else 1)"

definition sample_usb :: "nat usb_env" where
  "sample_usb =
     \<lparr>xe = \<lparr>xh_bits = word_bits, mmio_read16 = (\<lambda>h a. (0, h)), mmio_read32 = (\<lambda>h a. (0x20, h)), mmio_write32 = (\<lambda>h a v. h),
        mmio_write64 = (\<lambda>h a v. h), dma_activity = (\<lambda>h m. (h, m(0 := m 0 + 1)))\<rparr>,
      pe = \<lparr>cfg_read8 = (\<lambda>h a. (if a mod 16 = 0xb then 0x0c else if a mod 16 = 0xa then 0x03 else if a mod 16 = 0x9 then 0x30 else 0, h)),
        cfg_read16 = (\<lambda>h a. (0x8086, h)), cfg_read32 = (\<lambda>h a. (sample_reads h, h + 1)),
        cfg_write8 = (\<lambda>h a v. h), cfg_write16 = (\<lambda>h a v. h), cfg_write32 = (\<lambda>h a v. h + 1)\<rparr>,
      pt_ops = \<lparr>update_flags_4k = (\<lambda>w a f. (None, w)), update_flags_2m = (\<lambda>w a f. (None, w)), map_to_4k = (\<lambda>w a b f. (True, w))\<rparr>,
      lapic_id = (\<lambda>h. (0, h)), regions = [sample_region]\<rparr>"

definition sample_world :: "nat world" where
  "sample_world = \<lparr>hw = 0, mach = small_machine\<lparr>hhdm := 0xffff800000000000\<rparr>, usb_disks = [], submitted_scancodes = [], submitted_events = []\<rparr>"

lemma sample_bar:
  "bar0 (pci_world (pe sample_usb)) cfg (v :: nat world) = Some (Some (a, len), v') \<Longrightarrow> a = 0x8fe010000 \<and> len = 0x10000"
proof -
  have p: "\<not> is_power_of_two 0xffffffff00000000"
  proof
    assume "is_power_of_two 0xffffffff00000000"
    then obtain k :: nat where "k < 64" and "0xffffffff00000000 = (2 :: nat) ^ k" unfolding is_power_of_two_iff by blast
    moreover from this have "(2 :: nat) ^ k \<le> 2 ^ 63" by (intro power_increasing) simp_all
    ultimately show False by simp
  qed
  consider "hw v = 0" | "hw v = 1" | "hw v = 3" | "hw v = 5" | "hw v \<noteq> 0" "hw v \<noteq> 1" "hw v \<noteq> 3" "hw v \<noteq> 5" by fastforce
  then show "bar0 (pci_world (pe sample_usb)) cfg (v :: nat world) = Some (Some (a, len), v') \<Longrightarrow> a = 0x8fe010000 \<and> len = 0x10000"
    by cases (auto simp: bar0_def read_u32_def write_u32_def pci_world_def on_hw_def sample_usb_def sample_reads_def decode_memory_bar_def
        Let_def push_bit_eq_mult p MIN_BAR_LEN_def split: if_splits)
qed

lemma sample_live: "live_inv word_bits (free_set word_bits (allocator (mach sample_world))) (mach sample_world, [])"
  using small_machine_ok
  by (auto simp: live_inv_def machine_ok_def sample_world_def small_machine_def small_pm_def pm_len_def PAGE_SIZE_def free_set_def free_page_def)

interpretation sample_usb: usb_machine sample_usb "free_set word_bits (allocator (mach sample_world))" "0xffff800000000000"
proof (rule usb_machine.intro)
  show "bit_field (xh_bits (xe sample_usb))" using word_bits.bit_field_axioms by (simp add: sample_usb_def)
  show "mapper_keeps (pt_ops sample_usb) (spare (xh_bits (xe sample_usb)) (free_set word_bits (allocator (mach sample_world))) bs)" for bs
    by (simp add: mapper_keeps_def sample_usb_def)
  show "2 ^ 64 - 2 ^ 47 \<le> (0xffff800000000000 :: nat)" by simp
  show "0xffff800000000000 + unat a + unat len \<le> 2 ^ 64"
    if "bar0 (pci_world (pe sample_usb)) cfg s = Some (Some (a, len), s')" for cfg and s :: "nat world" and a len s'
    using sample_bar [OF that] by simp
  show "region_fits 0xffff800000000000 r" if "r \<in> set (regions sample_usb)" for r
    using that by (simp add: sample_usb_def region_fits_def sample_region_def)
qed


end
