(* ===== verification/XhciSpec.thy ===== *)
theory XhciSpec
  imports XhciHost
begin

text \<open>
  What the entry points of the xHCI driver promise besides memory safety: a device that is unplugged, input reports, block reads,
  and the places where the driver falls short of the hardware it means to serve.
\<close>

section \<open>Removal of a device\<close>

lemma live_inv_release:
  assumes "live_inv bo F (m, xs @ X)" and "live_inv bo F (m', X)"
  shows "free_set bo (allocator m') = free_set bo (allocator m) \<union> (\<Union>b\<in>set xs. buffer_pages b)"
  using assms unfolding live_inv_def by (fastforce simp: sorted_wrt_append)

lemma disable_slot_health:
  assumes d: "disable_slot e register sl s = Some (False, s')"
  shows "\<not> healthy (ctl s')"
proof -
  from d obtain r t where "submit_command e register (slot_command TRB_TYPE_DISABLE_SLOT sl 0) s = Some (r, t)"
    by (auto simp: disable_slot_def Option.bind_eq_Some_conv)
  with d show ?thesis by (cases r) (auto simp: disable_slot_def upd_ctl_def)
qed

lemma offline_disk_simps [simp]: "ctl (offline_disk d s) = ctl s" "mach (offline_disk d s) = mach s"
  by (auto simp: offline_disk_def split: DeviceKind.split option.split)

lemma disconnect_record_simps [simp]:
  "root_devices (ctl (disconnect_record p gen s)) = root_devices (ctl s)" "mach (disconnect_record p gen s) = mach s"
  "usb_disks (disconnect_record p gen s) = usb_disks s"
  by (simp_all add: disconnect_record_def upd_ctl_def)

context xhci_driver
begin

lemma drop_exact:
  assumes "live_inv (xh_bits e) F (mach s, xs @ X)"
  shows "\<exists>m. drop_buffers e xs s = Some (s\<lparr>mach := m\<rparr>) \<and>
    free_set (xh_bits e) (allocator m) = free_set (xh_bits e) (allocator (mach s)) \<union> (\<Union>b\<in>set xs. buffer_pages b)"
proof -
  have "returns (drop_buffers e xs s) (\<lambda>t. \<exists>m. t = s\<lparr>mach := m\<rparr> \<and> live_inv (xh_bits e) F (m, X))"
    by (rule drop_buffers_live [OF assms]) blast
  then show ?thesis using live_inv_release [OF assms] unfolding returns_def by blast
qed

end


text \<open>A controller with a keyboard on its first port, in a machine where its buffers are all the memory there is.\<close>

definition page_buffer :: "nat \<Rightarrow> dma_buffer" where
  "page_buffer k = \<lparr>physical_address = k * PAGE_SIZE, virtual_address = 2 ^ 63 + k * PAGE_SIZE, buf_pages = 1, buf_alignment = 64\<rparr>"

definition sample_keyboard :: RootDevice where
  "sample_keyboard = \<lparr>d_port = 1, d_generation = 3, d_state = Addressed 2 1 8, input_context = page_buffer 1, output_context = page_buffer 2,
     ep0_ring = page_buffer 3, device_descriptor = page_buffer 4, configuration_descriptor = page_buffer 5,
     d_kind = HidKind \<lparr>interrupt_ring = page_buffer 6, report = page_buffer 7,
       hid_endpoint = \<lparr>h_configuration_value = 1, h_interface_number = 0, h_endpoint_address = 0x81, h_max_packet_size = 8,
         h_interval = 10, h_protocol = 1\<rparr>,
       hid_producer = 0, hid_cycle = True, hid_input = Keyboard keyboard_new\<rparr>\<rparr>"

definition sample_controller :: ControllerResources where
  "sample_controller = \<lparr>mapping = \<lparr>mm_physical_address = 2 ^ 40, mm_virtual_address = 2 ^ 63 + 2 ^ 40, mm_len = PAGE_SIZE, mm_page_base = 2 ^ 40, mm_pages = 1\<rparr>,
     dcbaa = page_buffer 8, scratchpad_array = None, scratchpads = [], command_ring = page_buffer 9, event_buffer = page_buffer 10,
     erst = page_buffer 11, event_consumer = 0, event_cycle = True, event_count = 0, command_producer = 0, command_cycle = True,
     runtime = 0x600, doorbell = 0x800, op_base = 0x20, context_64 = False, root_devices = [sample_keyboard],
     root_ports = [(port_new 1 \<lparr>major = 2, minor = 0, port_start = 1, port_count = 4, usb2 = True\<rparr> 0)\<lparr>generation := 3, pstate := Active\<rparr>],
     protocols = [\<lparr>major = 2, minor = 0, port_start = 1, port_count = 4, usb2 = True\<rparr>], interrupt_pending = False, interrupt_count = 0,
     msi_vector = None, logged_interrupt_count = 0, poll_ticks = 0, healthy = True\<rparr>"

definition sample_driver :: "nat xhci" where
  "sample_driver = \<lparr>hw = 0, mach = \<lparr>allocator = \<lparr>bmp = [0], refcnt = replicate 16 0\<rparr>, ram = (\<lambda>_. 0), hhdm = 2 ^ 63\<rparr>, usb_disks = [],
     submitted_scancodes = [], submitted_events = [], ctl = sample_controller\<rparr>"

lemma sample_pages: "buffer_pages (page_buffer k) = {k}"
  by (auto simp: buffer_pages_def page_buffer_def pages_def PAGE_SIZE_def)

lemma sample_own: "own word_bits {1..11} False [] sample_driver"
proof -
  have o: "owned sample_controller = map page_buffer ([8, 9, 10, 11] @ [1, 2, 3, 4, 5, 6, 7])"
    by (simp add: owned_def sample_controller_def device_buffers_def sample_keyboard_def hid_buffers_def)
  have "sorted_wrt (\<lambda>b c. buffer_pages b \<inter> buffer_pages c = {}) (owned sample_controller)"
    unfolding o by (simp add: sample_pages)
  moreover have "\<forall>b\<in>set (owned sample_controller). buffer_ok b" unfolding o by (simp add: buffer_ok_def page_buffer_def PAGE_SIZE_def)
  moreover have "(\<Union>b\<in>set (owned sample_controller). buffer_pages b) = {1..11}" unfolding o by (simp add: sample_pages) (auto; presburger)
  moreover have f: "free_set word_bits \<lparr>bmp = [0], refcnt = replicate 16 0\<rparr> = {}"
    by (auto simp: free_set_def free_page_def word_bits_def pm_len_def)
  ultimately have l: "live_inv word_bits {1..11} (mach sample_driver, owned sample_controller)"
    by (auto simp: live_inv_def machine_ok_def alloc_inv_def sample_driver_def pm_len_def PAGE_SIZE_def)
  have p: "dma_len (page_buffer k) = 4096" for k by (simp add: dma_len_def page_buffer_def PAGE_SIZE_def)
  have "device_ok sample_keyboard" by (simp add: device_ok_def sample_keyboard_def hid_ok_def p TRANSFER_RING_ENTRIES_def COMMAND_RING_ENTRIES_def)
  then have "ctl_inv sample_controller"
    by (simp add: ctl_inv_def sample_controller_def p EVENT_RING_ENTRIES_def TRANSFER_RING_ENTRIES_def COMMAND_RING_ENTRIES_def port_new_def)
  with l show ?thesis unfolding own_def by (intro conjI exI [of _ "[]"]) (simp_all add: sample_driver_def sample_controller_def)
qed



section \<open>Input reports\<close>

lemma find_map_SomeD: "find_map f xs = Some y \<Longrightarrow> \<exists>x\<in>set xs. f x = Some y"
  by (induction xs) (auto split: option.splits)

lemma find_map_None: "find_map f xs = None \<longleftrightarrow> (\<forall>x\<in>set xs. f x = None)"
  by (induction xs) (auto split: option.splits)

lemma find_map_unique:
  assumes "x \<in> set xs" and "f x = Some y" and "\<And>z. z \<in> set xs \<Longrightarrow> f z \<noteq> None \<Longrightarrow> z = x"
  shows "find_map f xs = Some y"
proof (cases "find_map f xs")
  case None
  with assms(1) have "f x = None" by (simp add: find_map_None)
  with assms(2) show ?thesis by simp
next
  case (Some v)
  from find_map_SomeD [OF this] obtain z where "z \<in> set xs" "f z = Some v" by blast
  then have "z = x" by (intro assms(3)) simp_all
  with \<open>f z = Some v\<close> assms(2) Some show ?thesis by simp
qed

lemma position_unique:
  assumes "k < length xs" and "P (xs ! k)" and "\<And>i. i < length xs \<Longrightarrow> P (xs ! i) \<Longrightarrow> i = k"
  shows "position P xs = Some k"
proof (cases "position P xs")
  case None
  then have "\<not> P (xs ! k)" unfolding position_None using assms(1) by (rule bspec [OF _ nth_mem])
  with assms(2) show ?thesis by simp
next
  case (Some i)
  with position_SomeD [OF Some] assms(3) [of i] show ?thesis by simp
qed

lemma find_by_key: "\<lbrakk>distinct (map g xs); x \<in> set xs\<rbrakk> \<Longrightarrow> List.find (\<lambda>y. g y = g x) xs = Some x"
  by (induction xs) auto

text \<open>The input of a device is current when its port is active in the generation in which the device was addressed.\<close>

definition device_current :: "RootDevice \<Rightarrow> 'h xhci \<Rightarrow> bool" where
  "device_current d s \<longleftrightarrow> (\<exists>r\<in>set (root_ports (ctl s)). port r = d_port d \<and> pstate r = Active \<and> generation r = d_generation d)"

definition transfer_event :: "Trb \<Rightarrow> u8 \<Rightarrow> u8 \<Rightarrow> bool" where
  "transfer_event ev sl ep \<longleftrightarrow> control ev AND TRB_TYPE_MASK = TRB_TYPE_TRANSFER_EVENT \<and>
     sl = ucast (drop_bit 24 (control ev)) \<and> ep = ucast (drop_bit 16 (control ev) AND 0x1f)"

lemma hid_target_stale:
  assumes "distinct (map slot_of (root_devices (ctl s)))"
    and "\<And>d. d \<in> set (root_devices (ctl s)) \<Longrightarrow> slot_of d = sl \<Longrightarrow> is_hid_endpoint ep (d_kind d) \<Longrightarrow> \<not> device_current d s"
  shows "hid_target sl ep s = None"
proof -
  have "slot_generation (slot_of d) s \<noteq> Some (d_generation d)"
    if d: "d \<in> set (root_devices (ctl s))" "slot_of d = sl" "is_hid_endpoint ep (d_kind d)" for d
  proof
    assume "slot_generation (slot_of d) s = Some (d_generation d)"
    then have "\<exists>r\<in>set (root_ports (ctl s)). (if port r = d_port d \<and> pstate r = Active then Some (generation r) else None) = Some (d_generation d)"
      unfolding slot_generation_def find_by_key [OF assms(1) d(1)] option.case by (rule find_map_SomeD)
    then have "device_current d s" by (auto simp: device_current_def split: if_splits)
    with assms(2) [OF d] show False by blast
  qed
  then show ?thesis by (auto simp: hid_target_def position_None Let_def)
qed

lemma hid_target_current:
  assumes dev: "distinct (map slot_of (root_devices (ctl s)))" and ports: "distinct (map port (root_ports (ctl s)))"
    and k: "k < length (root_devices (ctl s))" and d: "d = root_devices (ctl s) ! k"
    and cur: "device_current d s" and ep: "is_hid_endpoint ep (d_kind d)"
  shows "hid_target (slot_of d) ep s = Some k"
proof -
  have i: "d \<in> set (root_devices (ctl s))" using k d by simp
  from cur obtain r where r: "r \<in> set (root_ports (ctl s))" "port r = d_port d" "pstate r = Active" "generation r = d_generation d"
    by (auto simp: device_current_def)
  have "find_map (\<lambda>r. if port r = d_port d \<and> pstate r = Active then Some (generation r) else None) (root_ports (ctl s)) = Some (generation r)"
    using r ports by (intro find_map_unique [OF r(1)]) (auto simp: distinct_map inj_on_def split: if_splits)
  then have g: "slot_generation (slot_of d) s = Some (d_generation d)"
    by (simp add: slot_generation_def find_by_key [OF dev i] r(4))
  show ?thesis unfolding hid_target_def Let_def
  proof (rule position_unique [OF k])
    show "i = k" if "i < length (root_devices (ctl s))" "slot_of (root_devices (ctl s) ! i) = slot_of d \<and>
        slot_generation (slot_of d) s = Some (d_generation (root_devices (ctl s) ! i)) \<and> is_hid_endpoint ep (d_kind (root_devices (ctl s) ! i))" for i
      using that dev k nth_eq_iff_index_eq [OF dev, of i k] by (simp add: d)
  qed (simp add: g ep flip: d)
qed

definition acknowledged :: "'h \<Rightarrow> 'h xhci \<Rightarrow> 'h xhci" where
  "acknowledged h s = (upd_ctl (\<lambda>c. c\<lparr>event_count := event_count c + 1\<rparr>) (advance_consumer s))\<lparr>hw := h\<rparr>"

lemma acknowledge_exact: "\<exists>h. acknowledge_event e register s = Some (acknowledged h s)"
  by (auto simp: acknowledge_event_def acknowledged_def write_erdp_def write64_def write32_def read32_def Let_def split: prod.split)

lemma acknowledged_simps [simp]:
  "root_devices (ctl (acknowledged h s)) = root_devices (ctl s)" "root_ports (ctl (acknowledged h s)) = root_ports (ctl s)"
  "mach (acknowledged h s) = mach s" "submitted_scancodes (acknowledged h s) = submitted_scancodes s"
  "submitted_events (acknowledged h s) = submitted_events s"
  by (simp_all add: acknowledged_def advance_consumer_def upd_ctl_def Let_def)

lemma acknowledged_target [simp]: "hid_target sl ep (acknowledged h s) = hid_target sl ep s"
  by (simp add: hid_target_def slot_generation_def cong: option.case_cong)

lemma poll_transfer_event:
  assumes "transfer_event ev sl ep"
  shows "poll_event e register ev s = do { s \<leftarrow> acknowledge_event e register s;
    case hid_target sl ep s of None \<Rightarrow> Some s | Some k \<Rightarrow> hid_event e register ev sl k s }"
proof -
  have "port_status_change_event ev = None"
    using assms by (simp add: transfer_event_def port_status_change_event_def TRB_TYPE_TRANSFER_EVENT_def TRB_TYPE_PORT_STATUS_CHANGE_def)
  with assms show ?thesis by (simp add: poll_event_def transfer_event_def Let_def cong: option.case_cong)
qed

text \<open>
  Property C29 (safety). Input that does not belong to the device that is plugged in now. When no device with the slot and the
  endpoint of a transfer event has an active port in the generation in which the device was addressed, because it was
  unplugged, replaced or never finished, the event is acknowledged and nothing else happens: no key and
  no motion reaches the input system, and no memory and no device of the driver changes.
\<close>

theorem stale_report_dropped:
  assumes "transfer_event ev sl ep" and "distinct (map slot_of (root_devices (ctl s)))"
    and "\<And>d. d \<in> set (root_devices (ctl s)) \<Longrightarrow> slot_of d = sl \<Longrightarrow> is_hid_endpoint ep (d_kind d) \<Longrightarrow> \<not> device_current d s"
  shows "\<exists>s'. poll_event e register ev s = Some s' \<and> submitted_scancodes s' = submitted_scancodes s \<and>
    submitted_events s' = submitted_events s \<and> mach s' = mach s \<and> root_devices (ctl s') = root_devices (ctl s) \<and>
    root_ports (ctl s') = root_ports (ctl s)"
proof -
  obtain h where "acknowledge_event e register s = Some (acknowledged h s)"
    using acknowledge_exact [of e register s] by blast
  then show ?thesis by (simp add: poll_transfer_event [OF assms(1)] hid_target_stale [OF assms(2,3)])
qed


definition sample_event :: Trb where
  "sample_event = \<lparr>parameter = 0, status = push_bit 24 1, control = push_bit 24 2 OR push_bit 16 3 OR TRB_TYPE_TRANSFER_EVENT OR 1\<rparr>"

lemma sample_event_slot: "transfer_event sample_event 2 3"
  by (simp add: transfer_event_def sample_event_def TRB_TYPE_TRANSFER_EVENT_def TRB_TYPE_MASK_def)

definition replugged :: "nat xhci" where
  "replugged = upd_ctl (\<lambda>c. c\<lparr>root_ports := map (\<lambda>r. r\<lparr>generation := 4\<rparr>) (root_ports c)\<rparr>) sample_driver"

theorem stale_report_dropped_witness:
  "\<exists>s'. poll_event (xe sample_usb) 0 sample_event replugged = Some s' \<and> submitted_scancodes s' = []"
proof -
  have d: "root_devices (ctl replugged) = [sample_keyboard]" "submitted_scancodes replugged = []"
    by (simp_all add: replugged_def upd_ctl_def sample_driver_def sample_controller_def)
  have "\<not> device_current sample_keyboard replugged"
    by (simp add: device_current_def replugged_def upd_ctl_def sample_driver_def sample_controller_def sample_keyboard_def)
  then show ?thesis
    using stale_report_dropped [OF sample_event_slot, of replugged "xe sample_usb" 0] by (auto simp: d)
qed

lemma queue_exact:
  assumes h: "hid_ok h"
  shows "returns (queue_interrupt_in e register db sl h s) (\<lambda>(h', s'). hw_only s s' \<and> hid_input h' = hid_input h \<and>
    hid_producer h' = (hid_producer h + 1) mod TRANSFER_RING_ENTRIES)"
proof -
  have fit: "(hid_producer h + 1) * 16 \<le> dma_len (interrupt_ring h)" "(TRANSFER_RING_ENTRIES + 1) * 16 \<le> dma_len (interrupt_ring h)"
    "hid_producer h + 1 \<le> TRANSFER_RING_ENTRIES"
    using h by (simp_all add: hid_ok_def TRANSFER_RING_ENTRIES_def COMMAND_RING_ENTRIES_def)
  have "hw_only s s" by simp
  then show ?thesis unfolding queue_interrupt_in_def using fit
    by - (rule returns_step returns_SomeI | erule acc_store_trb acc_write32 | (simp; fail))+
qed

lemma load_exact:
  assumes "off + n \<le> dma_len b"
  shows "load e b off n s = Some (mem_bytes (snd (dma_activity e (hw s) (ram (mach s)))) (physical_address b + off) n, dma_sync e s)"
  using assms by (simp add: load_def dma_sync_def split: prod.split)




section \<open>Reading blocks\<close>

text \<open>The controllers have a disk with number \<open>i\<close> in whose capacity the blocks lie.\<close>

definition disk_has_blocks :: "ControllerResources option list \<Rightarrow> nat \<Rightarrow> u64 \<Rightarrow> nat \<Rightarrow> bool" where
  "disk_has_blocks cs i lba n \<longleftrightarrow> (\<exists>c d m. Some c \<in> set cs \<and> d \<in> set (root_devices c) \<and> d_kind d = MscKind m \<and> usb_id m = Some i \<and>
     unat lba + n \<le> unat (blocks (msc_capacity m)))"

lemma read_blocks_refused:
  assumes "len = 0 \<or> \<not> BLOCK_SIZE dvd len \<or> len > MAX_READ_BYTES \<or> lba > 0xffffffff \<or> \<not> disk_has_blocks [Some (ctl s)] i lba (len div BLOCK_SIZE)"
  shows "read_usb_blocks e i lba len s = Some (None, s)"
proof (cases "len = 0 \<or> \<not> is_multiple_of len BLOCK_SIZE \<or> len > MAX_READ_BYTES \<or> lba > 0xffffffff")
  case True
  then show ?thesis by (simp add: read_usb_blocks_def)
next
  case False
  then have no: "\<not> disk_has_blocks [Some (ctl s)] i lba (len div BLOCK_SIZE)"
    using assms by (auto simp: is_multiple_of_def BLOCK_SIZE_def dvd_eq_mod_eq_0)
  show ?thesis
  proof (cases "position (has_usb_id i) (root_devices (ctl s))")
    case None
    then show ?thesis using False by (simp add: read_usb_blocks_def)
  next
    case (Some k)
    note k = position_SomeD [OF Some]
    then obtain m where m: "d_kind (root_devices (ctl s) ! k) = MscKind m" "usb_id m = Some i"
      by (auto simp: has_usb_id_def split: DeviceKind.splits)
    with no k have "\<not> unat lba + len div BLOCK_SIZE \<le> unat (blocks (msc_capacity m))"
      unfolding disk_has_blocks_def by (auto dest: nth_mem)
    then show ?thesis using False Some m by (simp add: read_usb_blocks_def Let_def)
  qed
qed

lemma on_controller_refused:
  "\<lbrakk>controllers h ! k = Some c; k < length (controllers h); f (attach c (around h)) = Some (r, attach c (around h))\<rbrakk> \<Longrightarrow>
   on_controller k f c h = Some (r, h)"
  using list_update_id [of "controllers h" k] by (simp add: on_controller_def)

text \<open>
  Property C31 (bounds). A block read reaches a device only inside its capacity. A read of no bytes, of a part of a block, of more than the
  data buffer holds, beyond the range of READ(10), or that is not inside the capacity of a disk with the number asked
  for, fails, and nothing in the kernel or in the hardware changes: no command is sent. So a read that
  succeeds was of a registered disk and within its capacity.
\<close>

theorem usb_read_confined:
  assumes "len = 0 \<or> \<not> BLOCK_SIZE dvd len \<or> len > MAX_READ_BYTES \<or> lba > 0xffffffff \<or>
    \<not> disk_has_blocks (controllers h) i lba (len div BLOCK_SIZE)"
  shows "usb_read_blocks e i lba len h = Some (None, h)"
proof -
  have "read_from e i lba len ks h = Some (None, h)" if "\<And>k. k \<in> set ks \<Longrightarrow> k < length (controllers h)" for ks
    using that
  proof (induction ks)
    case (Cons k ks)
    have k: "k < length (controllers h)" using Cons.prems by simp
    have "on_controller k (read_usb_blocks (xe e) i lba len) c h = Some (None, h)" if c: "controllers h ! k = Some c" for c
    proof (rule on_controller_refused [OF c k])
      have "Some c \<in> set (controllers h)" using nth_mem [OF k] c by simp
      then show "read_usb_blocks (xe e) i lba len (attach c (around h)) = Some (None, attach c (around h))"
        using assms by (intro read_blocks_refused) (auto simp: disk_has_blocks_def)
    qed
    with Cons show ?case by (simp split: option.split)
  qed simp
  from this [of "[0..<length (controllers h)]"] show ?thesis by (simp add: usb_read_blocks_def)
qed

definition sample_host :: "nat usb_host" where
  "sample_host = \<lparr>around = sample_world, controllers = [None, Some sample_controller], unregistered = []\<rparr>"

theorem usb_read_confined_witness: "usb_read_blocks sample_usb 0 0 512 sample_host = Some (None, sample_host)"
  by (rule usb_read_confined)
    (simp add: disk_has_blocks_def sample_host_def sample_controller_def sample_keyboard_def)

section \<open>Hardware the driver does not serve\<close>

lemma above_half_not_power:
  assumes "2 ^ 63 < n" and "n < 2 ^ 64"
  shows "\<not> is_power_of_two n"
proof
  assume "is_power_of_two n"
  then obtain k :: nat where "k < 64" and n: "n = 2 ^ k" unfolding is_power_of_two_iff by blast
  then have "n \<le> 2 ^ 63" unfolding n by (intro power_increasing) simp_all
  with assms(1) show False by simp
qed

lemma small_mask_length:
  assumes "x \<noteq> 0" and "unat (x :: u64) < 2 ^ 32"
  shows "2 ^ 63 < unat (NOT x + 1)"
proof -
  have "NOT x + 1 = - x" by (simp add: minus_eq_not_plus_1)
  moreover have "unat (0 - x) = 2 ^ 64 - unat x" using assms(1) by (subst unat_sub_if_size) (simp add: word_size word_le_nat_alt unat_eq_0)
  ultimately have "unat (NOT x + 1) = 2 ^ 64 - unat x" by simp
  with assms(2) show ?thesis by simp
qed

text \<open>
  A controller with a 32-bit bar is never used. Whatever its bar contains and whatever the device answers when it is
  asked for the size, \<^verbatim>\<open>bar0\<close> finds no usable bar: it extends the mask of a 32-bit bar with zeros, not with ones,
  so that the complement is near the end of the 64-bit range and never a power of two. The bar is left as it was found.
\<close>

lemma bar0_rejects_32bit:
  assumes "cfg_read32 p s (cfg + 0x10) = (low, s1)" and "low AND 1 = 0" and "drop_bit 1 low AND 3 = 0"
  shows "\<exists>s'. bar0 p cfg s = Some (None, s') \<and> (\<exists>t. s' = cfg_write32 p t (cfg + 0x10) low)"
proof -
  obtain high s2 where h: "cfg_read32 p s1 (cfg + 0x14) = (high, s2)" by force
  obtain m s3 where m: "cfg_read32 p (cfg_write32 p s2 (cfg + 0x10) 0xffffffff) (cfg + 0x10) = (m, s3)" by force
  let ?mask = "ucast m AND 0xfffffff0 :: u64"
  have "unat ?mask \<le> unat (ucast m :: u64)" unfolding word_le_nat_alt [symmetric] by (rule word_and_le2)
  also have "\<dots> < 2 ^ 32" using unsigned_less [of m, where ?'a = nat] by (simp add: unsigned_ucast_eq take_bit_nat_eq_self)
  finally have "?mask \<noteq> 0 \<Longrightarrow> \<not> is_power_of_two (unat (NOT ?mask + 1))"
    using small_mask_length [of ?mask] unsigned_less [of "NOT ?mask + 1", where ?'a = nat] by (intro above_half_not_power) simp_all
  then have "unat (NOT ?mask + 1) < MIN_BAR_LEN \<or> \<not> is_power_of_two (unat (NOT ?mask + 1))" by (cases "?mask = 0") (simp_all add: MIN_BAR_LEN_def)
  with assms h m show ?thesis
    by (auto simp: bar0_def read_u32_def write_u32_def decode_memory_bar_def Let_def)
qed

definition device_32bit :: "nat pci_env" where
  "device_32bit = \<lparr>cfg_read8 = (\<lambda>h a. (0, h)), cfg_read16 = (\<lambda>h a. (0, h)),
     cfg_read32 = (\<lambda>h a. (if h = 0 then 0xfe010000 else 0xffff0000, h)), cfg_write8 = (\<lambda>h a v. h), cfg_write16 = (\<lambda>h a v. h),
     cfg_write32 = (\<lambda>h a v. if v = 0xffffffff then 1 else 0)\<rparr>"

lemma bar0_rejects_32bit_example: "bar0 device_32bit 0 0 = Some (None, 0)"
  using bar0_rejects_32bit [where p = device_32bit and s = 0 and cfg = 0 and low = "0xfe010000" and ?s1.0 = 0] by (auto simp: device_32bit_def)


lemma next_field:
  fixes H :: u32
  shows "unat (drop_bit XECAP_NEXT_SHIFT (H AND XECAP_NEXT_MASK)) = unat (drop_bit 8 H AND 0xff) + 256 * unat (drop_bit 16 H AND 0xff)"
proof -
  have m: "(0xff :: u32) = mask 8" "(0xffff :: u32) = mask 16" by (simp_all add: mask_eq_exp_minus_1)
  have t: "drop_bit XECAP_NEXT_SHIFT (H AND XECAP_NEXT_MASK) = take_bit 16 (drop_bit 8 H)"
    unfolding XECAP_NEXT_SHIFT_def XECAP_NEXT_MASK_def m by (rule bit_word_eqI) (auto simp: bit_simps)
  have "take_bit 16 (drop_bit 8 H) = take_bit 8 (drop_bit 8 H) OR push_bit 8 (take_bit 8 (drop_bit 16 H))"
    by (rule bit_word_eqI) (auto simp: bit_simps)
  also have "\<dots> = take_bit 8 (drop_bit 8 H) + push_bit 8 (take_bit 8 (drop_bit 16 H))"
    by (rule or_disjoint, rule bit_word_eqI) (auto simp: bit_simps)
  finally have "unat (take_bit 16 (drop_bit 8 H)) = unat (take_bit 8 (drop_bit 8 H) + push_bit 8 (take_bit 8 (drop_bit 16 H)))" by simp
  moreover have b: "unat (take_bit 8 (drop_bit k H)) < 256" for k
    using take_bit_nat_less_exp [of 8 "unat (drop_bit k H)"] by (simp add: unsigned_take_bit_eq)
  moreover have "unat (push_bit 8 (take_bit 8 (drop_bit 16 H))) = 256 * unat (take_bit 8 (drop_bit 16 H))"
    using b [of 16] by (simp add: push_bit_eq_mult unat_word_ariths)
  ultimately show ?thesis using b [of 8] b [of 16] unfolding t m take_bit_eq_mask [symmetric]
    by (simp add: unat_word_ariths)
qed

text \<open>
  The list of protocols behind a controller with USB 3.1. The driver takes the sixteen bits from bit 8 on for the distance
  to the next capability, which has eight; the rest is the minor revision. So after a protocol with a minor revision,
  as \<^verbatim>\<open>0x10\<close> in USB 3.1, it goes on at a place more than four kilobytes away, and where no capability is there the list ends: a
  USB 2 protocol that follows is not found, whatever it contains.
\<close>

lemma minor_revision_hides_protocols:
  assumes "\<And>h a. mmio_read32 e h a = (R a, h)" and "R (register + offset) = H" and "offset \<noteq> 0" and "H AND 0xff = 2"
    and "d = 4 * (unat (drop_bit 8 H AND 0xff) + 256 * unat (drop_bit 16 H AND 0xff))" and "drop_bit 16 H AND 0xff \<noteq> 0"
    and "offset + d < USIZE_LIMIT" and "R (register + (offset + d)) = 0"
  shows "1024 \<le> d \<and> supported_protocols_loop e register (Suc (Suc n)) offset s =
    Some (case supported_protocol H (R (register + (offset + 8))) of None \<Rightarrow> [] | Some pr \<Rightarrow> [pr], s)"
proof -
  have "unat (drop_bit 16 H AND 0xff) \<noteq> 0" using assms(6) by (simp add: unat_eq_0)
  then have d: "1024 \<le> d" "d \<noteq> 0" "offset + d \<noteq> offset" by (simp_all add: assms(5))
  have r: "read32 e register a s = Some (R (register + a), s)" for a by (simp add: read32_def assms(1))
  have sat: "saturating_add offset d = offset + d" using assms(7) by (simp add: saturating_add_def)
  have nx: "unat (drop_bit XECAP_NEXT_SHIFT (H AND XECAP_NEXT_MASK)) * 4 = d"
    unfolding next_field assms(5) by simp
  have last: "supported_protocols_loop e register (Suc n) (offset + d) s = Some ([], s)"
    using assms(3,8) by (simp add: r supported_protocol_def)
  have first: "(if H AND XECAP_ID_MASK = 2
      then do { (info, s) \<leftarrow> read32 e register (offset + 8) s;
                Some (case supported_protocol H info of Some pr \<Rightarrow> [pr] | None \<Rightarrow> [], s) }
      else Some ([], s)) = Some (case supported_protocol H (R (register + (offset + 8))) of None \<Rightarrow> [] | Some pr \<Rightarrow> [pr], s)"
    using assms(4) by (simp add: r XECAP_ID_MASK_def)
  show ?thesis
    unfolding supported_protocols_loop.simps(2) [of e register "Suc n" offset] r Option.bind.simps(2) prod.case assms(2) Let_def nx sat
      first [unfolded r Option.bind.simps(2) prod.case]
    using d(1,2) assms(3) last by (simp del: supported_protocols_loop.simps)
qed


text \<open>A controller with USB 3.1 at \<open>0x500\<close> and USB 2.0 four words after it, on ports 5 to 8.\<close>

definition usb31_registers :: "nat \<Rightarrow> u32" where
  "usb31_registers a = (if a = 0x500 then 0x03100402 else if a = 0x508 then 0x0401 else if a = 0x510 then 0x02000002 else if a = 0x518 then 0x0405 else 0)"

definition usb31_env :: "nat xhci_env" where
  "usb31_env = (xe sample_usb)\<lparr>mmio_read32 := (\<lambda>h a. (usb31_registers a, h))\<rparr>"

lemma minor_revision_hides_protocols_example:
  "map usb2 (fst (the (supported_protocols_loop usb31_env 0 256 0x500 sample_driver))) = [False]"
proof -
  have "supported_protocols_loop usb31_env 0 (Suc (Suc 254)) 0x500 sample_driver =
      Some (case supported_protocol 0x03100402 0x0401 of None \<Rightarrow> [] | Some pr \<Rightarrow> [pr], sample_driver)"
    using minor_revision_hides_protocols [of usb31_env usb31_registers 0 "0x500" "0x03100402" 16400 254 sample_driver]
    by (simp add: usb31_env_def usb31_registers_def)
  then show ?thesis by (simp add: supported_protocol_def Let_def)
qed


lemma find_record_update:
  assumes "find_record p s = Some r" and "\<And>r. port (f r) = port r"
  shows "find_record p (upd_record p f s) = Some (f r)"
proof -
  have "List.find (\<lambda>r. port r = p) (update_first (\<lambda>r. port r = p) f rs) = map_option f (List.find (\<lambda>r. port r = p) rs)" for rs
    by (induction rs) (simp_all add: assms(2))
  with assms(1) show ?thesis by (simp add: find_record_def upd_record_def upd_ctl_def)
qed

text \<open>
  A device that is exchanged for another between two looks at the port. The status then shows a connection and a connection change
  on a port that is active, with the old device in the table: the event is acknowledged, and the port stays
  active in its old generation, with the old device. The new one is not addressed, and reports and
  reads go to the slot of the old one. The value written to acknowledge is the value read, with the bit for an enabled
  port, which the hardware takes for an order to disable the port.
\<close>

lemma fast_replug_ignored:
  assumes "p \<noteq> 0" and "port_offset s p = Some off" and "mmio_read32 e (hw s) (register + off) = (v, h)"
    and "v AND PORTSC_CCS \<noteq> 0" and "v AND PORTSC_CSC \<noteq> 0" and "find_record p s = Some r" and "pstate r = Active"
    and "d \<in> set (root_devices (ctl s))" and "d_port d = p"
  shows "\<exists>s'. handle_port_status_change e register p s = Some s' \<and> hw s' = mmio_write32 e h (register + off) v \<and>
    root_devices (ctl s') = root_devices (ctl s) \<and> find_record p s' = Some (r\<lparr>portsc := v AND NOT PORTSC_CHANGE_MASK\<rparr>)"
proof -
  have "(v AND PORTSC_CHANGE_MASK) AND PORTSC_CSC = v AND PORTSC_CSC"
    by (simp add: PORTSC_CHANGE_MASK_def PORTSC_CSC_def and.assoc)
  then have c: "v AND PORTSC_CHANGE_MASK \<noteq> 0" using assms(5) by auto
  have w: "(v AND NOT PORTSC_CHANGE_MASK) OR (v AND PORTSC_CHANGE_MASK) = v" by (rule bit_word_eqI) (auto simp: bit_simps)
  let ?s = "s\<lparr>hw := mmio_write32 e h (register + off) v\<rparr>" and ?f = "\<lambda>r. r\<lparr>portsc := v AND NOT PORTSC_CHANGE_MASK\<rparr>"
  have a: "acknowledge_port e register off s = Some (v, ?s)"
    using assms(3) c w by (simp add: acknowledge_port_def read32_def write32_def)
  have r: "find_record p ?s = Some r" using assms(6) by (simp add: find_record_def)
  have "note_portsc p v ?s = upd_record p ?f ?s" using assms(4,7,8,9) by (auto simp: note_portsc_def r)
  then have "handle_port_status_change e register p s = Some (upd_record p ?f ?s)"
    using assms(1,2) a by (simp add: handle_port_status_change_def)
  moreover have "find_record p (upd_record p ?f ?s) = Some (?f r)" by (rule find_record_update [OF r]) simp
  ultimately show ?thesis by (simp add: upd_record_def upd_ctl_def)
qed


definition replug_env :: "nat xhci_env" where
  "replug_env = (xe sample_usb)\<lparr>mmio_read32 := (\<lambda>h a. (PORTSC_CCS OR PORTSC_PED OR PORTSC_CSC, h)), mmio_write32 := (\<lambda>h a v. unat v)\<rparr>"

lemma fast_replug_ignored_example:
  "\<exists>s'. handle_port_status_change replug_env 0 1 sample_driver = Some s' \<and> hw s' = 0x20003 \<and>
     root_devices (ctl s') = [sample_keyboard]"
proof -
  have d: "root_devices (ctl sample_driver) = [sample_keyboard]" "d_port sample_keyboard = 1" "hw sample_driver = 0"
    and o: "port_offset sample_driver 1 = Some 0x420"
    by (simp_all add: sample_driver_def sample_controller_def sample_keyboard_def port_offset_def checked_sub_def PORTSC_def)
  obtain r where r: "find_record 1 sample_driver = Some r" "pstate r = Active"
    by (simp add: find_record_def sample_driver_def sample_controller_def port_new_def)
  have v: "PORTSC_CCS OR PORTSC_PED OR PORTSC_CSC = 0x20003" by (simp add: PORTSC_CCS_def PORTSC_PED_def PORTSC_CSC_def)
  have "mmio_read32 replug_env (hw sample_driver) (0 + 0x420) = (0x20003, 0)" by (simp add: replug_env_def v d)
  from fast_replug_ignored [OF _ o this _ _ r, of sample_keyboard] show ?thesis
    by (auto simp: d replug_env_def PORTSC_CCS_def PORTSC_CSC_def)
qed

end
