(* ===== verification/Ahci.thy ===== *)
theory Ahci
  imports Dma Storage Pcie
begin

text \<open>
  The AHCI driver: the layouts of \<^verbatim>\<open>blockdev/ahci/cmd.rs\<close>, the ports of \<^verbatim>\<open>blockdev/ahci/hba.rs\<close>, the commands of
  \<^verbatim>\<open>blockdev/ahci/driver.rs\<close>, the identification of \<^verbatim>\<open>blockdev/ahci/identify.rs\<close> and the table of drives of
  \<^verbatim>\<open>blockdev/ahci/mod.rs\<close>. The registers of the controller are read and written through volatile cells; the device acts on main memory
  at these accesses, and what it does is a parameter. Its documented behaviour is the locale \<open>sata_port\<close>, in which a request is
  decoded from memory as the AHCI specification lays it out; there the driver is shown to read the sectors of the disk, which
  is what \<open>Storage\<close> assumes of a drive. The loops that wait for a register have no bound: \<^term>\<open>None\<close> is a panic or a wait without end.
\<close>

section \<open>Registers\<close>

record 'h ahci_world =
  ahw :: 'h
  amach :: machine

record 'h ahci_env =
  ah_bits :: bit_ops
  get_bit32 :: "u32 \<Rightarrow> nat \<Rightarrow> bool"
  set_bit32 :: "u32 \<Rightarrow> nat \<Rightarrow> bool \<Rightarrow> u32"
  get_bits32 :: "u32 \<Rightarrow> nat \<Rightarrow> nat \<Rightarrow> u32"
  hba_get32 :: "'h \<Rightarrow> (nat \<Rightarrow> u8) \<Rightarrow> nat \<Rightarrow> u32 \<times> 'h \<times> (nat \<Rightarrow> u8)"
  hba_set32 :: "'h \<Rightarrow> (nat \<Rightarrow> u8) \<Rightarrow> nat \<Rightarrow> u32 \<Rightarrow> 'h \<times> (nat \<Rightarrow> u8)"
  hba_set64 :: "'h \<Rightarrow> (nat \<Rightarrow> u8) \<Rightarrow> nat \<Rightarrow> u64 \<Rightarrow> 'h \<times> (nat \<Rightarrow> u8)"
  ah_pt :: "'h ahci_world mapper_ops"

definition vget :: "'h ahci_env \<Rightarrow> nat \<Rightarrow> 'h ahci_world \<Rightarrow> u32 \<times> 'h ahci_world" where
  "vget e a s = (let (v, h, r) = hba_get32 e (ahw s) (ram (amach s)) a in (v, s\<lparr>ahw := h, amach := (amach s)\<lparr>ram := r\<rparr>\<rparr>))"

definition vset :: "'h ahci_env \<Rightarrow> nat \<Rightarrow> u32 \<Rightarrow> 'h ahci_world \<Rightarrow> 'h ahci_world" where
  "vset e a v s = (let (h, r) = hba_set32 e (ahw s) (ram (amach s)) a v in s\<lparr>ahw := h, amach := (amach s)\<lparr>ram := r\<rparr>\<rparr>)"

definition vset64 :: "'h ahci_env \<Rightarrow> nat \<Rightarrow> u64 \<Rightarrow> 'h ahci_world \<Rightarrow> 'h ahci_world" where
  "vset64 e a v s = (let (h, r) = hba_set64 e (ahw s) (ram (amach s)) a v in s\<lparr>ahw := h, amach := (amach s)\<lparr>ram := r\<rparr>\<rparr>)"

text \<open>The offsets of the fields of \<^verbatim>\<open>HbaMemory\<close> and \<^verbatim>\<open>HbaPort\<close>.\<close>

definition HBA_CAP :: nat where "HBA_CAP = 0x00"
definition HBA_GHC :: nat where "HBA_GHC = 0x04"
definition HBA_PI :: nat where "HBA_PI = 0x0c"
definition PORT_CLB :: nat where "PORT_CLB = 0x00"
definition PORT_FB :: nat where "PORT_FB = 0x08"
definition PORT_CMD :: nat where "PORT_CMD = 0x18"
definition PORT_SIG :: nat where "PORT_SIG = 0x24"
definition PORT_SSTS :: nat where "PORT_SSTS = 0x28"
definition PORT_SCTL :: nat where "PORT_SCTL = 0x2c"
definition PORT_CI :: nat where "PORT_CI = 0x38"

definition SATA_SIG_ATAPI :: u32 where "SATA_SIG_ATAPI = 0xEB140101"
definition SATA_SIG_SEMB :: u32 where "SATA_SIG_SEMB = 0xC33C0101"
definition SATA_SIG_PM :: u32 where "SATA_SIG_PM = 0x96690101"

definition enable_ahci :: "'h ahci_env \<Rightarrow> nat \<Rightarrow> 'h ahci_world \<Rightarrow> 'h ahci_world" where
  "enable_ahci e hba s = (let (v, s) = vget e (hba + HBA_GHC) s in vset e (hba + HBA_GHC) (v OR push_bit 31 1) s)"

definition disable_interrupt :: "'h ahci_env \<Rightarrow> nat \<Rightarrow> 'h ahci_world \<Rightarrow> 'h ahci_world" where
  "disable_interrupt e hba s = (let (v, s) = vget e (hba + HBA_GHC) s in vset e (hba + HBA_GHC) (v AND NOT (push_bit 1 1)) s)"

definition port_active :: "'h ahci_env \<Rightarrow> nat \<Rightarrow> nat \<Rightarrow> 'h ahci_world \<Rightarrow> bool \<times> 'h ahci_world" where
  "port_active e hba n s = (let (v, s) = vget e (hba + HBA_PI) s in (get_bit32 e v n, s))"

definition support_port_count :: "'h ahci_env \<Rightarrow> nat \<Rightarrow> 'h ahci_world \<Rightarrow> nat \<times> 'h ahci_world" where
  "support_port_count e hba s = (let (v, s) = vget e (hba + HBA_CAP) s in (unat (get_bits32 e v 0 5) + 1, s))"

definition is_sata_device :: "'h ahci_env \<Rightarrow> nat \<Rightarrow> 'h ahci_world \<Rightarrow> bool \<times> 'h ahci_world" where
  "is_sata_device e p s = (let (v, s) = vget e (p + PORT_SIG) s in (v \<notin> {SATA_SIG_ATAPI, SATA_SIG_SEMB, SATA_SIG_PM}, s))"

definition device_connected :: "'h ahci_env \<Rightarrow> nat \<Rightarrow> 'h ahci_world \<Rightarrow> bool \<times> 'h ahci_world" where
  "device_connected e p s = (let (v, s) = vget e (p + PORT_SSTS) s in (get_bits32 e v 8 12 = 1 \<and> get_bits32 e v 0 4 = 3, s))"

definition get_port :: "'h ahci_env \<Rightarrow> nat \<Rightarrow> nat \<Rightarrow> 'h ahci_world \<Rightarrow> (nat option \<times> 'h ahci_world) option" where
  "get_port e hba n s =
     do { a \<leftarrow> checked_add hba 0x100;
          p \<leftarrow> checked_add a (0x80 * n);
          let (connected, s) = device_connected e p s;
          let (ok, s) = (if connected then is_sata_device e p s else (False, s));
          Some (if ok then Some p else None, s) }"

section \<open>Starting a port\<close>

definition update_register :: "'h ahci_env \<Rightarrow> nat \<Rightarrow> (u32 \<Rightarrow> u32) \<Rightarrow> 'h ahci_world \<Rightarrow> 'h ahci_world" where
  "update_register e a f s = (let (v, s) = vget e a s in vset e a (f v) s)"

definition command_busy :: "'h ahci_env \<Rightarrow> nat \<Rightarrow> nat \<Rightarrow> 'h ahci_world \<Rightarrow> (bool \<times> 'h ahci_world) option" where
  "command_busy e a n s = (let (v, s) = vget e a s in Some (get_bit32 e v n, s))"

definition start_cmd :: "'h ahci_env \<Rightarrow> nat \<Rightarrow> 'h ahci_world \<Rightarrow> 'h ahci_world option" where
  "start_cmd e p s =
     do { s \<leftarrow> wait_while (command_busy e (p + PORT_CMD) 15) s;
          let s = update_register e (p + PORT_CMD) (\<lambda>v. set_bit32 e v 4 True) s;
          Some (update_register e (p + PORT_CMD) (\<lambda>v. set_bit32 e v 0 True) s) }"

definition engines_busy :: "'h ahci_env \<Rightarrow> nat \<Rightarrow> 'h ahci_world \<Rightarrow> (bool \<times> 'h ahci_world) option" where
  "engines_busy e p s =
     do { (b, s) \<leftarrow> command_busy e (p + PORT_CMD) 15 s;
          if b then Some (True, s) else command_busy e (p + PORT_CMD) 14 s }"

definition stop_cmd_and_reset :: "'h ahci_env \<Rightarrow> nat \<Rightarrow> 'h ahci_world \<Rightarrow> 'h ahci_world option" where
  "stop_cmd_and_reset e p s =
     do { let s = update_register e (p + PORT_CMD) (\<lambda>v. set_bit32 e v 0 False) s;
          let s = update_register e (p + PORT_CMD) (\<lambda>v. set_bit32 e v 4 False) s;
          s \<leftarrow> wait_while (engines_busy e p) s;
          let s = update_register e (p + PORT_SCTL) (\<lambda>v. (v AND NOT 0xf) OR 1) s;
          Some (update_register e (p + PORT_SCTL) (\<lambda>v. v AND NOT 0xf) s) }"

text \<open>The driver keeps the virtual addresses of the memory it shares with the port.\<close>

record ahci_drive =
  ad_data :: nat
  ad_port :: nat
  ad_cmd_list :: nat
  ad_cmd_table :: nat
  ad_fis :: nat

definition shared_page :: "'h ahci_env \<Rightarrow> 'h ahci_world \<Rightarrow> ((nat \<times> nat) \<times> 'h ahci_world) option" where
  "shared_page e s =
     do { (pm, r) \<leftarrow> alloc_physical_page (ah_bits e) (allocator (amach s));
          pa \<leftarrow> r;
          va \<leftarrow> phys_to_virt (amach s) pa;
          Some ((pa, va), s\<lparr>amach := (amach s)\<lparr>allocator := pm\<rparr>\<rparr>) }"

definition no_cache :: "'h ahci_env \<Rightarrow> nat \<Rightarrow> 'h ahci_world \<Rightarrow> 'h ahci_world option" where
  "no_cache e va s =
     (if canonical_address va then Some (snd (update_flags_4k (ah_pt e) s (va div 4096 * 4096) MMIO_FLAGS)) else None)"

text \<open>A write through the direct map.\<close>

definition poke :: "nat \<Rightarrow> bytes \<Rightarrow> 'h ahci_world \<Rightarrow> 'h ahci_world" where
  "poke va bs s = s\<lparr>amach := (amach s)\<lparr>ram := mem_store (ram (amach s)) (va - hhdm (amach s)) bs\<rparr>\<rparr>"

definition u16_to_le :: "u16 \<Rightarrow> bytes" where
  "u16_to_le w = [ucast w, ucast (drop_bit 8 w)]"

definition FIS_SIZE :: nat where "FIS_SIZE = 20"

text \<open>The first \<^verbatim>\<open>CommandHeader\<close>, and a \<^verbatim>\<open>CommandTable\<close> with one entry.\<close>

definition command_header :: "u64 \<Rightarrow> bytes" where
  "command_header table = u16_to_le (of_nat (FIS_SIZE div 4)) @ u16_to_le 1 @ u32_to_le 0 @ u64_to_le table @ replicate 16 0"

definition command_table :: "u64 \<Rightarrow> bytes" where
  "command_table data = replicate 128 0 @ u64_to_le data @ u32_to_le 0 @ u32_to_le (of_nat (AHCI_BLOCK_SIZE - 1))"

definition init_ahci :: "'h ahci_env \<Rightarrow> nat \<Rightarrow> 'h ahci_world \<Rightarrow> (ahci_drive \<times> 'h ahci_world) option" where
  "init_ahci e p s =
     do { s \<leftarrow> stop_cmd_and_reset e p s;
          ((cmd_list_pa, cmd_list_va), s) \<leftarrow> shared_page e s;
          ((cmd_table_pa, cmd_table_va), s) \<leftarrow> shared_page e s;
          ((data_pa, data_va), s) \<leftarrow> shared_page e s;
          ((fis_pa, fis_va), s) \<leftarrow> shared_page e s;
          s \<leftarrow> no_cache e cmd_list_va s;
          s \<leftarrow> no_cache e cmd_table_va s;
          s \<leftarrow> no_cache e fis_va s;
          s \<leftarrow> no_cache e data_va s;
          let s = vset64 e (p + PORT_CLB) (of_nat cmd_list_pa) s;
          let s = vset64 e (p + PORT_FB) (of_nat fis_pa) s;
          let s = vset e (p + PORT_CI) 0 s;
          let s = poke cmd_list_va (command_header (of_nat cmd_table_pa)) s;
          let s = poke cmd_table_va (command_table (of_nat data_pa)) s;
          let s = poke data_va (replicate AHCI_BLOCK_SIZE 0) s;
          s \<leftarrow> start_cmd e p s;
          Some (\<lparr>ad_data = data_va, ad_port = p, ad_cmd_list = cmd_list_va, ad_cmd_table = cmd_table_va, ad_fis = fis_va\<rparr>, s) }"

section \<open>Commands\<close>

definition FIS_TYPE_REG_H2D :: u8 where "FIS_TYPE_REG_H2D = 0x27"
definition CMD_READ_DMA_EXT :: u8 where "CMD_READ_DMA_EXT = 0x25"
definition CMD_WRITE_DMA_EXT :: u8 where "CMD_WRITE_DMA_EXT = 0x35"
definition CMD_IDENTIFY_DEVICE :: u8 where "CMD_IDENTIFY_DEVICE = 0xEC"

text \<open>The six bytes of \<^verbatim>\<open>set_lba\<close>, and a \<^verbatim>\<open>FisRegH2D\<close> with them.\<close>

definition lba_bytes :: "u64 \<Rightarrow> bytes" where
  "lba_bytes lba = map (\<lambda>k. ucast (drop_bit (8 * k) lba)) [0, 1, 2, 3, 4, 5]"

definition fis_reg_h2d :: "u8 \<Rightarrow> u64 \<Rightarrow> bytes" where
  "fis_reg_h2d cmd sector =
     (let lba = lba_bytes sector;
          device = (if cmd = CMD_READ_DMA_EXT \<or> cmd = CMD_WRITE_DMA_EXT then push_bit 6 1 else 0);
          sectors = (if cmd = CMD_IDENTIFY_DEVICE then 0 else 1) in
      [FIS_TYPE_REG_H2D, push_bit 7 1, cmd, 0] @ take 3 lba @ [device] @ drop 3 lba @ [0] @ u16_to_le sectors @ [0, 0] @ replicate 4 0)"

definition execute_command :: "'h ahci_env \<Rightarrow> ahci_drive \<Rightarrow> u8 \<Rightarrow> u64 \<Rightarrow> 'h ahci_world \<Rightarrow> 'h ahci_world option" where
  "execute_command e d cmd start_sector s =
     (let s = poke (ad_cmd_table d) (fis_reg_h2d cmd start_sector) s;
          s = vset e (ad_port d + PORT_CI) (push_bit 0 1) s in
      wait_while (command_busy e (ad_port d + PORT_CI) 0) s)"

definition shared_data :: "ahci_drive \<Rightarrow> nat \<Rightarrow> 'h ahci_world \<Rightarrow> bytes" where
  "shared_data d n s = mem_bytes (ram (amach s)) (ad_data d - hhdm (amach s)) n"

text \<open>\<open>len\<close> is the length of the buffer of the caller; \<^verbatim>\<open>copy_from_slice\<close> panics when the lengths differ.\<close>

definition read_block :: "'h ahci_env \<Rightarrow> ahci_drive \<Rightarrow> u64 \<Rightarrow> nat \<Rightarrow> 'h ahci_world \<Rightarrow> (bytes \<times> 'h ahci_world) option" where
  "read_block e d start_sector len s =
     do { s \<leftarrow> execute_command e d CMD_READ_DMA_EXT start_sector s;
          let n = min len AHCI_BLOCK_SIZE;
          if len = n then Some (shared_data d n s, s) else None }"

definition write_block :: "'h ahci_env \<Rightarrow> ahci_drive \<Rightarrow> u64 \<Rightarrow> bytes \<Rightarrow> 'h ahci_world \<Rightarrow> 'h ahci_world option" where
  "write_block e d start_sector buffer s =
     (let n = min (length buffer) AHCI_BLOCK_SIZE in
      execute_command e d CMD_WRITE_DMA_EXT start_sector (poke (ad_data d) (take n buffer) s))"

text \<open>
  The identification data: texts, whose bytes are swapped in pairs, and the number of blocks at word 100. The decoding of a text for display
  is left out.
\<close>

record IdentifyData =
  serial_number :: bytes
  firmware_revision :: bytes
  model_number :: bytes
  id_block_count :: u64

fun swap_pairs :: "bytes \<Rightarrow> bytes" where
  "swap_pairs (a # b # bs) = b # a # swap_pairs bs"
| "swap_pairs bs = bs"

definition identify_from :: "bytes \<Rightarrow> IdentifyData" where
  "identify_from bs =
     \<lparr>serial_number = swap_pairs (take 20 (drop 20 bs)), firmware_revision = swap_pairs (take 8 (drop 46 bs)),
      model_number = swap_pairs (take 40 (drop 54 bs)), id_block_count = u64_from_le (drop 200 bs)\<rparr>"

definition identity :: "'h ahci_env \<Rightarrow> ahci_drive \<Rightarrow> 'h ahci_world \<Rightarrow> (IdentifyData \<times> 'h ahci_world) option" where
  "identity e d s =
     do { s \<leftarrow> execute_command e d CMD_IDENTIFY_DEVICE 0 s;
          Some (identify_from (shared_data d 208 s), s) }"

definition ahci_drop :: "'h ahci_env \<Rightarrow> ahci_drive \<Rightarrow> 'h ahci_world \<Rightarrow> 'h ahci_world option" where
  "ahci_drop e d s =
     for_each (\<lambda>a s. do { (pm, _) \<leftarrow> dealloc_physical_page (ah_bits e) (allocator (amach s)) a;
                          Some (s\<lparr>amach := (amach s)\<lparr>allocator := pm\<rparr>\<rparr>) }) [ad_cmd_list d, ad_cmd_table d, ad_data d] s"

section \<open>The drives of the machine\<close>

definition try_port :: "'h ahci_env \<Rightarrow> nat \<Rightarrow> nat \<Rightarrow> ahci_drive list \<times> 'h ahci_world \<Rightarrow> (ahci_drive list \<times> 'h ahci_world) option" where
  "try_port e hba n ds_s =
     (let (ds, s) = ds_s; (active, s) = port_active e hba n s in
      if \<not> active then Some (ds, s)
      else do { (r, s) \<leftarrow> get_port e hba n s;
                case r of None \<Rightarrow> Some (ds, s) | Some p \<Rightarrow> do { (d, s) \<leftarrow> init_ahci e p s; Some (ds @ [d], s) } })"

definition ahci_new :: "'h ahci_env \<Rightarrow> nat \<Rightarrow> 'h ahci_world \<Rightarrow> (ahci_drive list \<times> 'h ahci_world) option" where
  "ahci_new e hba s =
     (let (n, s) = support_port_count e hba (disable_interrupt e hba (enable_ahci e hba s)) in
      for_each (try_port e hba) [0..<n] ([], s))"

text \<open>The hook of the enumeration: a SATA controller, whose registers are behind the sixth bar.\<close>

definition ahci_hook ::
  "'h ahci_env \<Rightarrow> ('h ahci_world \<times> ahci_drive list) pci_env \<Rightarrow> u8 \<Rightarrow> u8 \<Rightarrow> u8 \<Rightarrow> nat \<Rightarrow> 'h ahci_world \<times> ahci_drive list \<Rightarrow>
   ('h ahci_world \<times> ahci_drive list) option" where
  "ahci_hook e pe b d f cfg w =
     (let (c, w) = class_code pe cfg w in
      if c \<noteq> 1 then Some w
      else let (sc, w) = sub_class pe cfg w in
           if sc \<noteq> 6 then Some w
           else let (bar, (s, ds)) = cfg_read32 pe w (cfg + 0x24) in
                do { va \<leftarrow> phys_to_virt (amach s) (unat (bar AND 0xfffffff0));
                     s \<leftarrow> no_cache e va s;
                     s \<leftarrow> no_cache e (va + 4096) s;
                     (new, s) \<leftarrow> ahci_new e va s;
                     Some (s, ds @ new) })"

definition ahci_init ::
  "'h ahci_env \<Rightarrow> ('h ahci_world \<times> ahci_drive list) pci_env \<Rightarrow> pci_region list \<Rightarrow> 'h ahci_world \<Rightarrow> ('h ahci_world \<times> ahci_drive list) option" where
  "ahci_init e pe rs s = doit pe (hhdm (amach s)) rs (ahci_hook e pe) (s, [])"

text \<open>Every use of the table identifies the drives anew.\<close>

definition ahci_device :: "'h ahci_env \<Rightarrow> ahci_drive \<Rightarrow> (ahci_drive \<times> AhciBlockDevice) list \<times> 'h ahci_world \<Rightarrow>
   ((ahci_drive \<times> AhciBlockDevice) list \<times> 'h ahci_world) option" where
  "ahci_device e d acc_s =
     (let (acc, s) = acc_s in
      do { (identify, s) \<leftarrow> identity e d s;
           Some (acc @ [(d, \<lparr>block_count = unat (id_block_count identify), ahci_pos = 0\<rparr>)], s) })"

definition ahci_iter :: "'h ahci_env \<Rightarrow> ahci_drive list \<Rightarrow> 'h ahci_world \<Rightarrow> ((ahci_drive \<times> AhciBlockDevice) list \<times> 'h ahci_world) option" where
  "ahci_iter e ds s = for_each (ahci_device e) ds ([], s)"

section \<open>Memory\<close>

lemma mem_bytes_length [simp]: "length (mem_bytes m a n) = n"
  by (simp add: mem_bytes_def)

lemma mem_bytes_store:
  assumes "a \<le> b" and "b + n \<le> a + length bs"
  shows "mem_bytes (mem_store m a bs) b n = take n (drop (b - a) bs)"
  using assms by (intro nth_equalityI) (auto simp: mem_bytes_def mem_store_def)

lemma mem_bytes_other: "b + n \<le> a \<or> a + length bs \<le> b \<Longrightarrow> mem_bytes (mem_store m a bs) b n = mem_bytes m b n"
  by (auto simp: mem_bytes_def mem_store_def)

lemma mem_bytes_cong: "(\<And>x. a \<le> x \<Longrightarrow> x < a + n \<Longrightarrow> m x = m' x) \<Longrightarrow> mem_bytes m a n = mem_bytes m' a n"
  by (simp add: mem_bytes_def)

lemma mem_bytes_drop: "i + j \<le> n \<Longrightarrow> mem_bytes m (a + i) j = take j (drop i (mem_bytes m a n))"
  by (intro nth_equalityI) (auto simp: mem_bytes_def add.assoc)

section \<open>A port and its disk\<close>

text \<open>
  What a port reads when the driver issues the first command slot, by the layout of the AHCI specification. \<open>clb\<close> is the base address of the command
  list; a request has the address of the command table, the command, the sector, the address and the number of bytes of the
  data. There is none when the header is not one for a frame of five words and one entry.
\<close>

record sata_request =
  rq_command :: u8
  rq_lba :: nat
  rq_count :: u16
  rq_address :: nat
  rq_bytes :: nat

definition lba_from :: "bytes \<Rightarrow> u64" where
  "lba_from f = (foldr (\<lambda>b v. ucast b OR push_bit 8 v) [f ! 4, f ! 5, f ! 6, f ! 8, f ! 9, f ! 10] 0)"

definition request_at :: "(nat \<Rightarrow> u8) \<Rightarrow> nat \<Rightarrow> sata_request option" where
  "request_at m clb =
     (let header = mem_bytes m clb 16;
          table = unat (u64_from_le (drop 8 header));
          frame = mem_bytes m table FIS_SIZE;
          entry = mem_bytes m (table + 0x80) 16 in
      if u16_from_le (header ! 0) (header ! 1) AND 0x1f = 5 \<and> u16_from_le (header ! 2) (header ! 3) = 1 \<and> frame ! 0 = FIS_TYPE_REG_H2D \<and> bit (frame ! 1) 7
      then Some \<lparr>rq_command = frame ! 2, rq_lba = unat (lba_from frame), rq_count = u16_from_le (frame ! 12) (frame ! 13),
                 rq_address = unat (u64_from_le entry),
                 rq_bytes = unat (u32_from_le (entry ! 12) (entry ! 13) (entry ! 14) (entry ! 15) AND 0x3fffff) + 1\<rparr>
      else None)"

lemma byte_step: "ucast (ucast (drop_bit k x) :: u8) OR push_bit 8 (take_bit n (drop_bit (k + 8) x)) = take_bit (n + 8) (drop_bit k (x :: u64))"
  by (rule bit_word_eqI) (auto simp: bit_simps)

lemma lba_roundtrip:
  assumes "unat lba < 2 ^ 48"
  shows "lba_from (fis_reg_h2d cmd lba) = lba"
proof -
  have t: "take_bit 48 lba = lba" using assms by (simp add: word_unat_eq_iff unsigned_take_bit_eq take_bit_nat_eq_self)
  have 0: "ucast (ucast (drop_bit 40 lba) :: u8) OR push_bit 8 0 = take_bit 8 (drop_bit 40 lba)"
    using byte_step [of 40 lba 0] by simp
  have "lba_from (fis_reg_h2d cmd lba) = foldr (\<lambda>k v. ucast (ucast (drop_bit k lba) :: u8) OR push_bit 8 v) [0, 8, 16, 24, 32, 40] 0"
    by (simp add: lba_from_def fis_reg_h2d_def lba_bytes_def Let_def)
  also have "\<dots> = take_bit 48 (drop_bit 0 lba)"
    unfolding foldr.simps id_apply o_apply 0
    using byte_step [of 32 lba 8] byte_step [of 24 lba 16] byte_step [of 16 lba 24] byte_step [of 8 lba 32] byte_step [of 0 lba 40] by simp
  finally show ?thesis using t by simp
qed

lemma length_fis [simp]: "length (fis_reg_h2d cmd lba) = FIS_SIZE"
  by (simp add: fis_reg_h2d_def lba_bytes_def u16_to_le_def FIS_SIZE_def Let_def)

lemma u16_le_roundtrip [dlos_bytes]: "u16_from_le (ucast w) (ucast (drop_bit 8 w)) = w"
  unfolding u16_from_le_def by (rule bit_word_eqI) (auto simp: bit_simps)

lemma length_header [simp]: "length (command_header a) = 32"
  by (simp add: command_header_def u16_to_le_def)

lemma length_table [simp]: "length (command_table a) = 144"
  by (simp add: command_table_def)

text \<open>The request that the driver prepares is the one the port reads.\<close>

lemma driver_request:
  assumes h: "mem_bytes m clb 4 = take 4 (command_header table)" "mem_bytes m (clb + 8) 8 = u64_to_le table"
    and f: "mem_bytes m (unat table) FIS_SIZE = fis_reg_h2d cmd lba" and lba: "unat lba < 2 ^ 48"
    and d: "mem_bytes m (unat table + 0x80) 16 = drop 128 (command_table data)"
  shows "request_at m clb = Some \<lparr>rq_command = cmd, rq_lba = unat lba, rq_count = (if cmd = CMD_IDENTIFY_DEVICE then 0 else 1),
    rq_address = unat data, rq_bytes = AHCI_BLOCK_SIZE\<rparr>"
proof -
  let ?header = "mem_bytes m clb 16"
  have "take 4 ?header = mem_bytes m clb 4" "take 8 (drop 8 ?header) = mem_bytes m (clb + 8) 8"
    using mem_bytes_drop [of 0 4 16 m clb] mem_bytes_drop [of 8 8 16 m clb] by simp_all
  then have t: "take 4 ?header = take 4 (command_header table)" "drop 8 ?header = u64_to_le table" using h by simp_all
  have i: "?header ! k = take 4 (command_header table) ! k" if "k < 4" for k using t(1) that by (metis nth_take)
  have "?header ! 0 = 5" "?header ! 1 = 0" "?header ! 2 = 1" "?header ! 3 = 0"
    using i [of 0] i [of 1] i [of 2] i [of 3] by (simp_all add: command_header_def u16_to_le_def FIS_SIZE_def)
  then have "u16_from_le (?header ! 0) (?header ! 1) = 5" "u16_from_le (?header ! 2) (?header ! 3) = 1"
    by (simp_all add: u16_from_le_def)
  moreover have "u16_from_le (fis_reg_h2d cmd lba ! 12) (fis_reg_h2d cmd lba ! 13) = (if cmd = CMD_IDENTIFY_DEVICE then 0 else 1)"
    "fis_reg_h2d cmd lba ! 0 = FIS_TYPE_REG_H2D" "bit (fis_reg_h2d cmd lba ! 1) 7" "fis_reg_h2d cmd lba ! 2 = cmd"
    by (simp_all add: fis_reg_h2d_def lba_bytes_def Let_def u16_to_le_def u16_from_le_def bit_simps)
  moreover have "u64_from_le (drop 128 (command_table data)) = data"
    using u64_le_roundtrip [of data] by (simp add: command_table_def u64_from_le_def nth_append)
  moreover have "u32_from_le (drop 128 (command_table data) ! 12) (drop 128 (command_table data) ! 13) (drop 128 (command_table data) ! 14)
      (drop 128 (command_table data) ! 15) = 511"
    by (simp add: command_table_def AHCI_BLOCK_SIZE_def nth_append u32_to_le_def u32_from_le_def)
  ultimately show ?thesis using f d t(2)
    by (simp add: request_at_def Let_def u64_le_roundtrip lba_roundtrip [OF lba] AHCI_BLOCK_SIZE_def)
qed

text \<open>The bytes that the device may change at any access: the area for received frames, and the byte count in the first header.\<close>

definition device_area :: "nat \<Rightarrow> nat \<Rightarrow> nat set" where
  "device_area clb fb = {fb..<fb + 256} \<union> {clb + 4..<clb + 8}"

text \<open>
  The documented behaviour of a port with a disk, over views of the state of the hardware: the two base addresses, the sectors, and whether
  its engines are stopped. A command that was issued completes, and a read of one sector stores this sector at the address of
  the request; besides that only the device's own area changes. The mapper changes page tables only, which are in memory
  the driver has not written yet.
\<close>

locale sata_port =
  fixes e :: "'h ahci_env" and p :: nat and clb fb :: "'h \<Rightarrow> u64" and disk :: "'h \<Rightarrow> nat \<Rightarrow> bytes" and stopped :: "'h \<Rightarrow> bool"
  assumes ah_bits: "bit_field (ah_bits e)"
    and sectors: "length (disk h n) = AHCI_BLOCK_SIZE"
    and mapper: "update_flags_4k (ah_pt e) s a f = (r, s') \<Longrightarrow> disk (ahw s') = disk (ahw s) \<and> stopped (ahw s') = stopped (ahw s) \<and>
      allocator (amach s') = allocator (amach s) \<and> hhdm (amach s') = hhdm (amach s)"
    and stop: "\<exists>s'. stop_cmd_and_reset e p s = Some s' \<and> stopped (ahw s') \<and> disk (ahw s') = disk (ahw s) \<and>
      allocator (amach s') = allocator (amach s) \<and> hhdm (amach s') = hhdm (amach s)"
    and set_clb: "hba_set64 e h m (p + PORT_CLB) v = (h', m') \<Longrightarrow> clb h' = v \<and> disk h' = disk h \<and> stopped h' = stopped h \<and> m' = m"
    and set_fb: "hba_set64 e h m (p + PORT_FB) v = (h', m') \<Longrightarrow> fb h' = v \<and> clb h' = clb h \<and> disk h' = disk h \<and> stopped h' = stopped h \<and> m' = m"
    and no_issue: "hba_set32 e h m (p + PORT_CI) 0 = (h', m') \<Longrightarrow> fb h' = fb h \<and> clb h' = clb h \<and> disk h' = disk h \<and> stopped h' = stopped h \<and> m' = m"
    and start: "stopped (ahw s) \<Longrightarrow> \<exists>s' r. start_cmd e p s = Some s' \<and> clb (ahw s') = clb (ahw s) \<and> fb (ahw s') = fb (ahw s) \<and>
      disk (ahw s') = disk (ahw s) \<and> amach s' = (amach s)\<lparr>ram := r\<rparr> \<and>
      (\<forall>x. x \<notin> device_area (unat (clb (ahw s))) (unat (fb (ahw s))) \<longrightarrow> r x = ram (amach s) x)"
    and issue: "\<lbrakk>request_at (ram (amach s)) (unat (clb (ahw s))) = Some rq; rq_command rq = CMD_READ_DMA_EXT; rq_count rq = 1; rq_bytes rq = AHCI_BLOCK_SIZE\<rbrakk> \<Longrightarrow>
      \<exists>s' r. wait_while (command_busy e (p + PORT_CI) 0) (vset e (p + PORT_CI) 1 s) = Some s' \<and> clb (ahw s') = clb (ahw s) \<and>
        fb (ahw s') = fb (ahw s) \<and> disk (ahw s') = disk (ahw s) \<and> amach s' = (amach s)\<lparr>ram := r\<rparr> \<and>
        (\<forall>x. x \<notin> device_area (unat (clb (ahw s))) (unat (fb (ahw s))) \<longrightarrow>
           r x = mem_store (ram (amach s)) (rq_address rq) (disk (ahw s) (rq_lba rq)) x)"

text \<open>What the driver has set up once a port runs: four pages, and the parts of the header and of the table that it never writes again.\<close>

definition layout_ok :: "(nat \<Rightarrow> u8) \<Rightarrow> nat \<Rightarrow> nat \<Rightarrow> nat \<Rightarrow> bool" where
  "layout_ok m cl ct da \<longleftrightarrow> mem_bytes m cl 4 = take 4 (command_header (of_nat ct)) \<and> mem_bytes m (cl + 8) 8 = u64_to_le (of_nat ct) \<and>
     mem_bytes m (ct + 0x80) 16 = drop 128 (command_table (of_nat da))"

definition drive_ready :: "('h \<Rightarrow> u64) \<Rightarrow> ('h \<Rightarrow> u64) \<Rightarrow> nat \<Rightarrow> ahci_drive \<Rightarrow> 'h ahci_world \<Rightarrow> bool" where
  "drive_ready clb fb p d s \<longleftrightarrow> (\<exists>k1 k2 k3 k4. distinct [k1, k2, k3, k4] \<and> (\<forall>k\<in>{k1, k2, k3, k4}. (k + 1) * PAGE_SIZE \<le> 2 ^ 64) \<and>
     d = \<lparr>ad_data = k3 * PAGE_SIZE + hhdm (amach s), ad_port = p, ad_cmd_list = k1 * PAGE_SIZE + hhdm (amach s),
          ad_cmd_table = k2 * PAGE_SIZE + hhdm (amach s), ad_fis = k4 * PAGE_SIZE + hhdm (amach s)\<rparr> \<and>
     clb (ahw s) = of_nat (k1 * PAGE_SIZE) \<and> fb (ahw s) = of_nat (k4 * PAGE_SIZE) \<and>
     layout_ok (ram (amach s)) (k1 * PAGE_SIZE) (k2 * PAGE_SIZE) (k3 * PAGE_SIZE))"

abbreviation page_span :: "nat \<Rightarrow> nat set" where
  "page_span k \<equiv> {k * PAGE_SIZE..<(k + 1) * PAGE_SIZE}"

lemma pages_apart: "\<lbrakk>x \<in> page_span k; k \<noteq> l\<rbrakk> \<Longrightarrow> x \<notin> page_span l"
proof -
  assume "x \<in> page_span k" and "k \<noteq> l"
  moreover have "(k + 1) * PAGE_SIZE \<le> l * PAGE_SIZE \<or> (l + 1) * PAGE_SIZE \<le> k * PAGE_SIZE"
    using \<open>k \<noteq> l\<close> by (cases "k < l") (simp_all add: Suc_leI mult_le_mono1 del: mult_Suc)
  ultimately show ?thesis by auto
qed

lemma mem_store_outside: "\<lbrakk>x \<notin> page_span k; length bs \<le> PAGE_SIZE\<rbrakk> \<Longrightarrow> mem_store m (k * PAGE_SIZE) bs x = m x"
  by (auto simp: mem_store_def)

lemma page_address: "(k + 1) * PAGE_SIZE \<le> 2 ^ 64 \<Longrightarrow> unat (of_nat (k * PAGE_SIZE) :: u64) = k * PAGE_SIZE"
  by (subst unat_of_nat) (simp add: PAGE_SIZE_def)

lemma layout_cong:
  assumes l: "layout_ok m cl ct da" and m: "\<And>x. x \<in> {cl..<cl + 4} \<union> {cl + 8..<cl + 16} \<union> {ct + 128..<ct + 144} \<Longrightarrow> m' x = m x"
  shows "layout_ok m' cl ct da"
proof -
  have "mem_bytes m' cl 4 = mem_bytes m cl 4" "mem_bytes m' (cl + 8) 8 = mem_bytes m (cl + 8) 8"
    "mem_bytes m' (ct + 128) 16 = mem_bytes m (ct + 128) 16"
    by (rule mem_bytes_cong, rule m, auto)+
  with l show ?thesis by (simp add: layout_ok_def)
qed

text \<open>The device and the data of a request stay clear of what the driver has set up.\<close>

lemma layout_apart:
  assumes k: "distinct [k1, k2, k3, k4]"
    and x: "x \<in> {k1 * PAGE_SIZE..<k1 * PAGE_SIZE + 4} \<union> {k1 * PAGE_SIZE + 8..<k1 * PAGE_SIZE + 16} \<union> {k2 * PAGE_SIZE + 128..<k2 * PAGE_SIZE + 144}"
  shows "x \<notin> device_area (k1 * PAGE_SIZE) (k4 * PAGE_SIZE)" and "x \<notin> page_span k3"
proof -
  let ?cl = "k1 * PAGE_SIZE" and ?ct = "k2 * PAGE_SIZE"
  have area: "device_area ?cl (k4 * PAGE_SIZE) \<subseteq> {?cl + 4..<?cl + 8} \<union> page_span k4" "{?cl + 4..<?cl + 8} \<subseteq> page_span k1"
    by (auto simp: device_area_def PAGE_SIZE_def)
  have header: "x \<in> page_span k1" if "x \<in> {?cl..<?cl + 4} \<union> {?cl + 8..<?cl + 16}" using that by (auto simp: PAGE_SIZE_def)
  have entry: "x \<in> page_span k2" if "x \<in> {?ct + 128..<?ct + 144}" using that by (auto simp: PAGE_SIZE_def)
  have "x \<notin> {?cl + 4..<?cl + 8} \<and> x \<notin> page_span k4 \<and> x \<notin> page_span k3"
  proof (cases "x \<in> page_span k2")
    case True
    then have "x \<notin> page_span k1" "x \<notin> page_span k3" "x \<notin> page_span k4" using k pages_apart [OF True] by auto
    then show ?thesis using area by blast
  next
    case False
    then have h: "x \<in> {?cl..<?cl + 4} \<union> {?cl + 8..<?cl + 16}" using x entry by blast
    then have "x \<notin> page_span k3" "x \<notin> page_span k4" using k pages_apart [OF header [OF h]] by auto
    then show ?thesis using h by auto
  qed
  then show "x \<notin> device_area ?cl (k4 * PAGE_SIZE)" "x \<notin> page_span k3" using area by blast+
qed

context sata_port
begin

lemma execute_read:
  assumes r: "drive_ready clb fb p d s" and lba: "unat lba < 2 ^ 48"
  shows "\<exists>s'. execute_command e d CMD_READ_DMA_EXT lba s = Some s' \<and> drive_ready clb fb p d s' \<and> disk (ahw s') = disk (ahw s) \<and>
    shared_data d AHCI_BLOCK_SIZE s' = disk (ahw s) (unat lba)"
proof -
  from r obtain k1 k2 k3 k4 where k: "distinct [k1, k2, k3, k4]" and b: "\<forall>k\<in>{k1, k2, k3, k4}. (k + 1) * PAGE_SIZE \<le> 2 ^ 64"
    and d: "d = \<lparr>ad_data = k3 * PAGE_SIZE + hhdm (amach s), ad_port = p, ad_cmd_list = k1 * PAGE_SIZE + hhdm (amach s),
          ad_cmd_table = k2 * PAGE_SIZE + hhdm (amach s), ad_fis = k4 * PAGE_SIZE + hhdm (amach s)\<rparr>"
    and v: "clb (ahw s) = of_nat (k1 * PAGE_SIZE)" "fb (ahw s) = of_nat (k4 * PAGE_SIZE)"
    and l: "layout_ok (ram (amach s)) (k1 * PAGE_SIZE) (k2 * PAGE_SIZE) (k3 * PAGE_SIZE)"
    unfolding drive_ready_def by blast
  let ?cl = "k1 * PAGE_SIZE" and ?ct = "k2 * PAGE_SIZE" and ?da = "k3 * PAGE_SIZE" and ?fi = "k4 * PAGE_SIZE"
  let ?fis = "fis_reg_h2d CMD_READ_DMA_EXT lba"
  let ?s = "poke (ad_cmd_table d) ?fis s"
  let ?m = "mem_store (ram (amach s)) ?ct ?fis"
  have a: "unat (of_nat ?cl :: u64) = ?cl" "unat (of_nat ?ct :: u64) = ?ct" "unat (of_nat ?da :: u64) = ?da" "unat (of_nat ?fi :: u64) = ?fi"
    using b by (simp_all only: page_address ball_simps insert_iff)
  have s: "ram (amach ?s) = ?m" "ahw ?s = ahw s" "hhdm (amach ?s) = hhdm (amach s)" by (simp_all add: poke_def d)
  have P: "20 \<le> PAGE_SIZE" "512 \<le> PAGE_SIZE" "length ?fis = 20" "length (disk h n) = 512" for h n
    by (simp_all add: PAGE_SIZE_def FIS_SIZE_def sectors AHCI_BLOCK_SIZE_def)
  have header: "x \<in> page_span k1" if "x \<in> {?cl..<?cl + 4} \<union> {?cl + 8..<?cl + 16}" for x using that by (auto simp: PAGE_SIZE_def)
  have entry: "x \<in> page_span k2" "x \<notin> {?ct..<?ct + 20}" if "x \<in> {?ct + 128..<?ct + 144}" for x using that by (auto simp: PAGE_SIZE_def)
  have l': "layout_ok ?m ?cl ?ct ?da"
  proof (rule layout_cong [OF l])
    fix x
    assume "x \<in> {?cl..<?cl + 4} \<union> {?cl + 8..<?cl + 16} \<union> {?ct + 128..<?ct + 144}"
    then consider "x \<in> page_span k1" | "x \<notin> {?ct..<?ct + 20}" using header entry(2) by blast
    then show "?m x = ram (amach s) x"
    proof cases
      case 1
      then have "x \<notin> page_span k2" using k by (intro pages_apart [of x k1]) auto
      then show ?thesis by (rule mem_store_outside) (simp add: PAGE_SIZE_def FIS_SIZE_def)
    qed (auto simp: mem_store_def FIS_SIZE_def)
  qed
  have "mem_bytes ?m ?ct FIS_SIZE = ?fis" by (subst mem_bytes_store) (simp_all add: P)
  then have q: "request_at (ram (amach ?s)) (unat (clb (ahw ?s))) = Some \<lparr>rq_command = CMD_READ_DMA_EXT, rq_lba = unat lba, rq_count = 1,
      rq_address = ?da, rq_bytes = AHCI_BLOCK_SIZE\<rparr>"
    using driver_request [of ?m ?cl "of_nat ?ct" CMD_READ_DMA_EXT lba "of_nat ?da"] l' lba
    by (simp only: s v a layout_ok_def) (simp add: CMD_READ_DMA_EXT_def CMD_IDENTIFY_DEVICE_def)
  obtain s' r where w: "wait_while (command_busy e (p + PORT_CI) 0) (vset e (p + PORT_CI) 1 ?s) = Some s'"
    and s': "clb (ahw s') = clb (ahw s)" "fb (ahw s') = fb (ahw s)" "disk (ahw s') = disk (ahw s)" "amach s' = (amach ?s)\<lparr>ram := r\<rparr>"
    and r: "\<And>x. x \<notin> device_area ?cl ?fi \<Longrightarrow> r x = mem_store ?m ?da (disk (ahw s) (unat lba)) x"
    using issue [OF q] unfolding sata_request.simps s v a by auto
  have area: "device_area ?cl ?fi \<subseteq> page_span k1 \<union> page_span k4" by (auto simp: device_area_def PAGE_SIZE_def)
  have "layout_ok r ?cl ?ct ?da"
  proof (rule layout_cong [OF l'])
    fix x
    assume "x \<in> {?cl..<?cl + 4} \<union> {?cl + 8..<?cl + 16} \<union> {?ct + 128..<?ct + 144}"
    then show "r x = ?m x"
      using r layout_apart [OF k] mem_store_outside [of x k3 "disk (ahw s) (unat lba)" ?m] P(2,4) by metis
  qed
  moreover have "mem_bytes r ?da AHCI_BLOCK_SIZE = disk (ahw s) (unat lba)"
  proof -
    have "r x = mem_store ?m ?da (disk (ahw s) (unat lba)) x" if "?da \<le> x" "x < ?da + 512" for x
    proof (rule r)
      have "x \<in> page_span k3" using that by (simp add: PAGE_SIZE_def)
      then have "x \<notin> page_span k1" "x \<notin> page_span k4" using k pages_apart by auto
      then show "x \<notin> device_area ?cl ?fi" using area by blast
    qed
    then have "mem_bytes r ?da 512 = mem_bytes (mem_store ?m ?da (disk (ahw s) (unat lba))) ?da 512" by (intro mem_bytes_cong) auto
    then show ?thesis by (simp add: mem_bytes_store P AHCI_BLOCK_SIZE_def)
  qed
  moreover have "hhdm (amach s') = hhdm (amach s)" "ram (amach s') = r" using s'(4) s(3) by simp_all
  ultimately have "drive_ready clb fb p d s'" "shared_data d AHCI_BLOCK_SIZE s' = disk (ahw s) (unat lba)"
    unfolding drive_ready_def shared_data_def using k b d s'(1,2) v by (intro exI [of _ k1] exI [of _ k2] exI [of _ k3] exI [of _ k4], simp, simp)
  moreover have "execute_command e d CMD_READ_DMA_EXT lba s = Some s'"
    using w by (simp add: execute_command_def d)
  ultimately show ?thesis using s'(3) by blast
qed

end

lemma shared_page_takes:
  assumes "bit_field (ah_bits e)" and "alloc_inv (ah_bits e) (allocator (amach s))"
    and "free_set (ah_bits e) (allocator (amach s)) \<noteq> {}"
    and "\<forall>k\<in>free_set (ah_bits e) (allocator (amach s)). canonical_address (k * PAGE_SIZE + hhdm (amach s))"
  obtains k pm where "shared_page e s = Some ((k * PAGE_SIZE, k * PAGE_SIZE + hhdm (amach s)), s\<lparr>amach := (amach s)\<lparr>allocator := pm\<rparr>\<rparr>)"
    "k \<in> free_set (ah_bits e) (allocator (amach s))" "free_set (ah_bits e) pm = free_set (ah_bits e) (allocator (amach s)) - {k}"
    "alloc_inv (ah_bits e) pm" "canonical_address (k * PAGE_SIZE + hhdm (amach s))" "(k + 1) * PAGE_SIZE \<le> 2 ^ 64"
proof -
  from alloc_physical_page_least [OF assms(1,2)] assms(3) obtain pm k where
    a: "alloc_physical_page (ah_bits e) (allocator (amach s)) = Some (pm, Some (k * PAGE_SIZE))"
    and k: "k \<in> free_set (ah_bits e) (allocator (amach s))"
    and r: "free_set (ah_bits e) pm = free_set (ah_bits e) (allocator (amach s)) - {k}" "alloc_inv (ah_bits e) pm" by blast
  have c: "canonical_address (k * PAGE_SIZE + hhdm (amach s))" using assms(4) k by blast
  then have lt: "k * PAGE_SIZE + hhdm (amach s) < 2 ^ 64" by (auto simp: canonical_address_def)
  have "(k + 1) * PAGE_SIZE \<le> 2 ^ 64" using lt by (simp add: PAGE_SIZE_def)
  moreover have "shared_page e s = Some ((k * PAGE_SIZE, k * PAGE_SIZE + hhdm (amach s)), s\<lparr>amach := (amach s)\<lparr>allocator := pm\<rparr>\<rparr>)"
    using a lt by (simp add: shared_page_def phys_to_virt_def checked_add_def)
  ultimately show thesis using that k r c by blast
qed

lemma four_pages:
  assumes "bit_field (ah_bits e)" and i: "alloc_inv (ah_bits e) (allocator (amach s))"
    and n: "4 \<le> card (free_set (ah_bits e) (allocator (amach s)))"
    and c: "\<forall>k\<in>free_set (ah_bits e) (allocator (amach s)). canonical_address (k * PAGE_SIZE + hhdm (amach s))"
  obtains k1 k2 k3 k4 s1 s2 s3 s4 pm where
    "shared_page e s = Some ((k1 * PAGE_SIZE, k1 * PAGE_SIZE + hhdm (amach s)), s1)"
    "shared_page e s1 = Some ((k2 * PAGE_SIZE, k2 * PAGE_SIZE + hhdm (amach s)), s2)"
    "shared_page e s2 = Some ((k3 * PAGE_SIZE, k3 * PAGE_SIZE + hhdm (amach s)), s3)"
    "shared_page e s3 = Some ((k4 * PAGE_SIZE, k4 * PAGE_SIZE + hhdm (amach s)), s\<lparr>amach := (amach s)\<lparr>allocator := pm\<rparr>\<rparr>)"
    "distinct [k1, k2, k3, k4]" "\<forall>k\<in>{k1, k2, k3, k4}. (k + 1) * PAGE_SIZE \<le> 2 ^ 64 \<and> canonical_address (k * PAGE_SIZE + hhdm (amach s))"
proof -
  let ?F = "free_set (ah_bits e)"
  have f: "finite (?F (allocator (amach s)))" using n by (metis card.infinite not_numeral_le_zero)
  have ne: "?F (allocator (amach s)) - S \<noteq> {}" if "card S < 4" "finite S" for S
    using n that card_mono [of S "?F (allocator (amach s))"] by auto
  obtain k1 p1 where 1: "shared_page e s = Some ((k1 * PAGE_SIZE, k1 * PAGE_SIZE + hhdm (amach s)), s\<lparr>amach := (amach s)\<lparr>allocator := p1\<rparr>\<rparr>)"
    "k1 \<in> ?F (allocator (amach s))" "?F p1 = ?F (allocator (amach s)) - {k1}" "alloc_inv (ah_bits e) p1"
    "canonical_address (k1 * PAGE_SIZE + hhdm (amach s))" "(k1 + 1) * PAGE_SIZE \<le> 2 ^ 64"
    using shared_page_takes [OF assms(1,2) _ c] ne [of "{}"] by auto
  let ?s1 = "s\<lparr>amach := (amach s)\<lparr>allocator := p1\<rparr>\<rparr>"
  obtain k2 p2 where 2: "shared_page e ?s1 = Some ((k2 * PAGE_SIZE, k2 * PAGE_SIZE + hhdm (amach s)), s\<lparr>amach := (amach s)\<lparr>allocator := p2\<rparr>\<rparr>)"
    "k2 \<in> ?F p1" "?F p2 = ?F p1 - {k2}" "alloc_inv (ah_bits e) p2"
    "canonical_address (k2 * PAGE_SIZE + hhdm (amach s))" "(k2 + 1) * PAGE_SIZE \<le> 2 ^ 64"
    using shared_page_takes [of e ?s1] assms(1) 1(3,4) c ne [of "{k1}"] by auto
  let ?s2 = "s\<lparr>amach := (amach s)\<lparr>allocator := p2\<rparr>\<rparr>"
  have d2: "k1 \<noteq> k2" "?F p2 = ?F (allocator (amach s)) - {k1, k2}" using 1(3) 2(2,3) by auto
  obtain k3 p3 where 3: "shared_page e ?s2 = Some ((k3 * PAGE_SIZE, k3 * PAGE_SIZE + hhdm (amach s)), s\<lparr>amach := (amach s)\<lparr>allocator := p3\<rparr>\<rparr>)"
    "k3 \<in> ?F p2" "?F p3 = ?F p2 - {k3}" "alloc_inv (ah_bits e) p3"
    "canonical_address (k3 * PAGE_SIZE + hhdm (amach s))" "(k3 + 1) * PAGE_SIZE \<le> 2 ^ 64"
    using shared_page_takes [of e ?s2] assms(1) d2 2(4) c ne [of "{k1, k2}"] by auto
  let ?s3 = "s\<lparr>amach := (amach s)\<lparr>allocator := p3\<rparr>\<rparr>"
  have d3: "k3 \<notin> {k1, k2}" "?F p3 = ?F (allocator (amach s)) - {k1, k2, k3}" using d2 3(2,3) by auto
  have c3: "\<forall>k\<in>?F (allocator (amach ?s3)). canonical_address (k * PAGE_SIZE + hhdm (amach ?s3))" using c d3(2) by simp
  have ne3: "?F (allocator (amach ?s3)) \<noteq> {}" using ne [of "{k1, k2, k3}"] d2(1) d3 by simp
  have i3: "alloc_inv (ah_bits e) (allocator (amach ?s3))" using 3(4) by simp
  obtain k4 p4 where raw: "shared_page e ?s3 = Some ((k4 * PAGE_SIZE, k4 * PAGE_SIZE + hhdm (amach ?s3)), ?s3\<lparr>amach := (amach ?s3)\<lparr>allocator := p4\<rparr>\<rparr>)"
    "k4 \<in> ?F (allocator (amach ?s3))" "canonical_address (k4 * PAGE_SIZE + hhdm (amach ?s3))" "(k4 + 1) * PAGE_SIZE \<le> 2 ^ 64"
    by (rule shared_page_takes [OF assms(1) i3 ne3 c3])
  have 4: "shared_page e ?s3 = Some ((k4 * PAGE_SIZE, k4 * PAGE_SIZE + hhdm (amach s)), s\<lparr>amach := (amach s)\<lparr>allocator := p4\<rparr>\<rparr>)"
    "k4 \<in> ?F p3" "canonical_address (k4 * PAGE_SIZE + hhdm (amach s))" using raw by simp_all
  note 5 = raw(4)
  show thesis using that [OF 1(1) 2(1) 3(1) 4(1)] 1(5,6) 2(5,6) 3(5,6) 4(2,3) 5 d2(1) d3 by auto
qed

context sata_port
begin

lemma no_cache_keeps:
  assumes "canonical_address va"
  shows "\<exists>s'. no_cache e va s = Some s' \<and> disk (ahw s') = disk (ahw s) \<and> stopped (ahw s') = stopped (ahw s) \<and> hhdm (amach s') = hhdm (amach s)"
proof -
  obtain r s' where "update_flags_4k (ah_pt e) s (va div 4096 * 4096) MMIO_FLAGS = (r, s')" by fastforce
  from mapper [OF this] this assms show ?thesis by (auto simp: no_cache_def)
qed

lemma set_bases:
  shows "clb (ahw (vset64 e (p + PORT_CLB) v s)) = v" "disk (ahw (vset64 e (p + PORT_CLB) v s)) = disk (ahw s)"
    "stopped (ahw (vset64 e (p + PORT_CLB) v s)) = stopped (ahw s)" "amach (vset64 e (p + PORT_CLB) v s) = amach s"
    "fb (ahw (vset64 e (p + PORT_FB) v s)) = v" "clb (ahw (vset64 e (p + PORT_FB) v s)) = clb (ahw s)"
    "disk (ahw (vset64 e (p + PORT_FB) v s)) = disk (ahw s)"
    "stopped (ahw (vset64 e (p + PORT_FB) v s)) = stopped (ahw s)" "amach (vset64 e (p + PORT_FB) v s) = amach s"
    "fb (ahw (vset e (p + PORT_CI) 0 s)) = fb (ahw s)" "clb (ahw (vset e (p + PORT_CI) 0 s)) = clb (ahw s)"
    "disk (ahw (vset e (p + PORT_CI) 0 s)) = disk (ahw s)"
    "stopped (ahw (vset e (p + PORT_CI) 0 s)) = stopped (ahw s)" "amach (vset e (p + PORT_CI) 0 s) = amach s"
  using set_clb set_fb no_issue by (simp_all add: vset64_def vset_def split: prod.split)

end

lemma layout_written:
  assumes k: "distinct [k1, k2, k3, k4]"
  shows "layout_ok (mem_store (mem_store (mem_store m (k1 * PAGE_SIZE) (command_header (of_nat (k2 * PAGE_SIZE))))
      (k2 * PAGE_SIZE) (command_table (of_nat (k3 * PAGE_SIZE)))) (k3 * PAGE_SIZE) (replicate AHCI_BLOCK_SIZE 0))
    (k1 * PAGE_SIZE) (k2 * PAGE_SIZE) (k3 * PAGE_SIZE)"
proof -
  let ?cl = "k1 * PAGE_SIZE" and ?ct = "k2 * PAGE_SIZE" and ?da = "k3 * PAGE_SIZE"
  have apart: "b * PAGE_SIZE + i + n \<le> a * PAGE_SIZE \<or> a * PAGE_SIZE + l \<le> b * PAGE_SIZE + i"
    if "a \<noteq> b" "l \<le> PAGE_SIZE" "i + n \<le> PAGE_SIZE" for a b i n l
    using that pages_apart [of "b * PAGE_SIZE" b a] pages_apart [of "a * PAGE_SIZE" a b] by (cases "a < b") (auto simp: PAGE_SIZE_def)
  have o: "mem_bytes (mem_store m (a * PAGE_SIZE) bs) (b * PAGE_SIZE + i) n = mem_bytes m (b * PAGE_SIZE + i) n"
    if "a \<noteq> b" "length bs \<le> PAGE_SIZE" "i + n \<le> PAGE_SIZE" for m a b i n bs
    by (rule mem_bytes_other) (rule apart [OF that])
  have P: "AHCI_BLOCK_SIZE \<le> PAGE_SIZE" "144 \<le> PAGE_SIZE" "0 + 4 \<le> PAGE_SIZE" "8 + 8 \<le> PAGE_SIZE" "128 + 16 \<le> PAGE_SIZE"
    by (simp_all add: PAGE_SIZE_def AHCI_BLOCK_SIZE_def)
  note d = o [of k3 k1] o [of k3 k2] o [of k2 k1]
  show ?thesis unfolding layout_ok_def
    using k P d [where i = 0 and n = 4] d [where i = 8 and n = 8] d [where i = 128 and n = 16]
    by (simp add: mem_bytes_store) (simp add: command_header_def u16_to_le_def)
qed

context sata_port
begin

text \<open>A port that has been started is ready, and the driver is done: nothing waits without end.\<close>

lemma init_ready:
  assumes i: "alloc_inv (ah_bits e) (allocator (amach s))"
    and n: "4 \<le> card (free_set (ah_bits e) (allocator (amach s)))"
    and c: "\<forall>k\<in>free_set (ah_bits e) (allocator (amach s)). canonical_address (k * PAGE_SIZE + hhdm (amach s))"
  shows "\<exists>d s'. init_ahci e p s = Some (d, s') \<and> drive_ready clb fb p d s' \<and> disk (ahw s') = disk (ahw s)"
proof -
  obtain t where t: "stop_cmd_and_reset e p s = Some t" "stopped (ahw t)" "disk (ahw t) = disk (ahw s)"
    "allocator (amach t) = allocator (amach s)" "hhdm (amach t) = hhdm (amach s)"
    using stop by blast
  have it: "alloc_inv (ah_bits e) (allocator (amach t))" and nt: "4 \<le> card (free_set (ah_bits e) (allocator (amach t)))"
    and ct: "\<forall>k\<in>free_set (ah_bits e) (allocator (amach t)). canonical_address (k * PAGE_SIZE + hhdm (amach t))"
    using i n c t(4,5) by simp_all
  obtain k1 k2 k3 k4 t1 t2 t3 pm where
    pages: "shared_page e t = Some ((k1 * PAGE_SIZE, k1 * PAGE_SIZE + hhdm (amach t)), t1)"
    "shared_page e t1 = Some ((k2 * PAGE_SIZE, k2 * PAGE_SIZE + hhdm (amach t)), t2)"
    "shared_page e t2 = Some ((k3 * PAGE_SIZE, k3 * PAGE_SIZE + hhdm (amach t)), t3)"
    "shared_page e t3 = Some ((k4 * PAGE_SIZE, k4 * PAGE_SIZE + hhdm (amach t)), t\<lparr>amach := (amach t)\<lparr>allocator := pm\<rparr>\<rparr>)"
    and k: "distinct [k1, k2, k3, k4]" "\<forall>k\<in>{k1, k2, k3, k4}. (k + 1) * PAGE_SIZE \<le> 2 ^ 64 \<and> canonical_address (k * PAGE_SIZE + hhdm (amach t))"
    by (rule four_pages [of e t, OF ah_bits it nt ct])
  let ?cl = "k1 * PAGE_SIZE" and ?ct = "k2 * PAGE_SIZE" and ?da = "k3 * PAGE_SIZE" and ?fi = "k4 * PAGE_SIZE"
  let ?h = "hhdm (amach t)" and ?t4 = "t\<lparr>amach := (amach t)\<lparr>allocator := pm\<rparr>\<rparr>"
  obtain n1 where n1: "no_cache e (?cl + ?h) ?t4 = Some n1" "disk (ahw n1) = disk (ahw t)" "stopped (ahw n1)" "hhdm (amach n1) = ?h"
    using no_cache_keeps [of "?cl + ?h" ?t4] k(2) t(2) by auto
  obtain n2 where n2: "no_cache e (?ct + ?h) n1 = Some n2" "disk (ahw n2) = disk (ahw t)" "stopped (ahw n2)" "hhdm (amach n2) = ?h"
    using no_cache_keeps [of "?ct + ?h" n1] k(2) n1 by auto
  obtain n3 where n3: "no_cache e (?fi + ?h) n2 = Some n3" "disk (ahw n3) = disk (ahw t)" "stopped (ahw n3)" "hhdm (amach n3) = ?h"
    using no_cache_keeps [of "?fi + ?h" n2] k(2) n2 by auto
  obtain n4 where n4: "no_cache e (?da + ?h) n3 = Some n4" "disk (ahw n4) = disk (ahw t)" "stopped (ahw n4)" "hhdm (amach n4) = ?h"
    using no_cache_keeps [of "?da + ?h" n3] k(2) n3 by auto
  define u where "u = vset e (p + PORT_CI) 0 (vset64 e (p + PORT_FB) (of_nat ?fi) (vset64 e (p + PORT_CLB) (of_nat ?cl) n4))"
  have u: "clb (ahw u) = of_nat ?cl" "fb (ahw u) = of_nat ?fi" "disk (ahw u) = disk (ahw t)" "stopped (ahw u)" "hhdm (amach u) = ?h"
    using n4 by (simp_all add: u_def set_bases)
  define w where "w = poke (?da + ?h) (replicate AHCI_BLOCK_SIZE 0) (poke (?ct + ?h) (command_table (of_nat ?da)) (poke (?cl + ?h) (command_header (of_nat ?ct)) u))"
  let ?m = "mem_store (mem_store (mem_store (ram (amach u)) ?cl (command_header (of_nat ?ct))) ?ct (command_table (of_nat ?da))) ?da (replicate AHCI_BLOCK_SIZE 0)"
  have w: "ahw w = ahw u" "ram (amach w) = ?m" "hhdm (amach w) = ?h" by (simp_all add: w_def poke_def u)
  have m: "layout_ok ?m ?cl ?ct ?da" by (rule layout_written [OF k(1)])
  obtain s' r where s': "start_cmd e p w = Some s'" "clb (ahw s') = of_nat ?cl" "fb (ahw s') = of_nat ?fi" "disk (ahw s') = disk (ahw s)"
    "amach s' = (amach w)\<lparr>ram := r\<rparr>" and r: "\<And>x. x \<notin> device_area (unat (of_nat ?cl :: u64)) (unat (of_nat ?fi :: u64)) \<Longrightarrow> r x = ram (amach w) x"
    using start [of w] w(1) u t(3) by auto
  have a: "unat (of_nat ?cl :: u64) = ?cl" "unat (of_nat ?fi :: u64) = ?fi" using k(2) by (simp_all only: page_address ball_simps insert_iff)
  have "layout_ok r ?cl ?ct ?da"
    using layout_cong [OF m] layout_apart(1) [OF k(1)] r w(2) unfolding a by metis
  then have "drive_ready clb fb p \<lparr>ad_data = ?da + ?h, ad_port = p, ad_cmd_list = ?cl + ?h, ad_cmd_table = ?ct + ?h, ad_fis = ?fi + ?h\<rparr> s'"
    unfolding drive_ready_def using k s' w(3) by (intro exI [of _ k1] exI [of _ k2] exI [of _ k3] exI [of _ k4]) simp
  moreover have "init_ahci e p s = Some (\<lparr>ad_data = ?da + ?h, ad_port = p, ad_cmd_list = ?cl + ?h, ad_cmd_table = ?ct + ?h, ad_fis = ?fi + ?h\<rparr>, s')"
    using t(1) pages n1(1) n2(1) n3(1) n4(1) s'(1) unfolding init_ahci_def w_def u_def by (simp add: Let_def)
  ultimately show ?thesis using s'(4) by blast
qed

end

text \<open>Every access of a client goes through \<^verbatim>\<open>read_block\<close>; a sequence of them.\<close>

fun read_sectors :: "'h ahci_env \<Rightarrow> ahci_drive \<Rightarrow> u64 list \<Rightarrow> 'h ahci_world \<Rightarrow> (bytes list \<times> 'h ahci_world) option" where
  "read_sectors e d [] s = Some ([], s)"
| "read_sectors e d (lba # lbas) s =
     do { (b, s) \<leftarrow> read_block e d lba AHCI_BLOCK_SIZE s; (bs, s) \<leftarrow> read_sectors e d lbas s; Some (b # bs, s) }"

context sata_port
begin

lemma read_block_disk:
  assumes "drive_ready clb fb p d s" and "unat lba < 2 ^ 48"
  shows "\<exists>s'. read_block e d lba AHCI_BLOCK_SIZE s = Some (disk (ahw s) (unat lba), s') \<and> drive_ready clb fb p d s' \<and> disk (ahw s') = disk (ahw s)"
proof -
  from execute_read [OF assms] obtain s' where "execute_command e d CMD_READ_DMA_EXT lba s = Some s'" "drive_ready clb fb p d s'"
    "disk (ahw s') = disk (ahw s)" "shared_data d AHCI_BLOCK_SIZE s' = disk (ahw s) (unat lba)" by blast
  then show ?thesis by (simp add: read_block_def)
qed

lemma read_sectors_disk:
  "\<lbrakk>drive_ready clb fb p d s; \<forall>lba\<in>set lbas. unat lba < 2 ^ 48\<rbrakk> \<Longrightarrow>
   \<exists>s'. read_sectors e d lbas s = Some (map (\<lambda>lba. disk (ahw s) (unat lba)) lbas, s')"
proof (induction lbas arbitrary: s)
  case (Cons lba lbas)
  then have "unat lba < 2 ^ 48" "\<forall>lba\<in>set lbas. unat lba < 2 ^ 48" by simp_all
  from read_block_disk [OF Cons.prems(1) this(1)] obtain t where t: "read_block e d lba AHCI_BLOCK_SIZE s = Some (disk (ahw s) (unat lba), t)"
    "drive_ready clb fb p d t" "disk (ahw t) = disk (ahw s)" by blast
  from Cons.IH [OF t(2)] \<open>\<forall>lba\<in>set lbas. unat lba < 2 ^ 48\<close> t show ?case by auto
qed simp

end

section \<open>A model of a port\<close>

text \<open>
  A port that follows the specification: its engines follow the two enable bits of the command register at once, and an issued command is executed at once,
  which also writes the byte count of the first header. The disk gives each byte of each sector.
\<close>

record sample_hba =
  sm_clb :: u64
  sm_fb :: u64
  sm_cmd :: u32
  sm_disk :: "nat \<Rightarrow> nat \<Rightarrow> u8"

definition sample_sector :: "sample_hba \<Rightarrow> nat \<Rightarrow> bytes" where
  "sample_sector h n = map (sm_disk h n) [0..<AHCI_BLOCK_SIZE]"

definition set_bits_to :: "nat \<Rightarrow> bool \<Rightarrow> u32 \<Rightarrow> u32" where
  "set_bits_to n b v = (if b then v OR push_bit n 1 else v AND NOT (push_bit n 1))"

definition engines_follow :: "u32 \<Rightarrow> u32" where
  "engines_follow v = set_bits_to 15 (bit v 0) (set_bits_to 14 (bit v 4) v)"

definition sample_issue :: "sample_hba \<Rightarrow> (nat \<Rightarrow> u8) \<Rightarrow> nat \<Rightarrow> u8" where
  "sample_issue h m =
     (case request_at m (unat (sm_clb h)) of
        None \<Rightarrow> m
      | Some rq \<Rightarrow>
          if rq_command rq = CMD_READ_DMA_EXT
          then mem_store (mem_store m (rq_address rq) (take (rq_bytes rq) (sample_sector h (rq_lba rq)))) (unat (sm_clb h) + 4) (u32_to_le (of_nat (rq_bytes rq)))
          else m)"

definition sample_ahci :: "nat \<Rightarrow> sample_hba ahci_env" where
  "sample_ahci p =
     \<lparr>ah_bits = word_bits, get_bit32 = bit, set_bit32 = (\<lambda>v n b. set_bits_to n b v),
      get_bits32 = (\<lambda>v i j. take_bit (j - i) (drop_bit i v)),
      hba_get32 = (\<lambda>h m a. (if a = p + PORT_CMD then sm_cmd h else 0, h, m)),
      hba_set32 = (\<lambda>h m a v. if a = p + PORT_CMD then (h\<lparr>sm_cmd := engines_follow v\<rparr>, m)
                             else if a = p + PORT_CI \<and> bit v 0 then (h, sample_issue h m) else (h, m)),
      hba_set64 = (\<lambda>h m a v. if a = p + PORT_CLB then (h\<lparr>sm_clb := v\<rparr>, m) else if a = p + PORT_FB then (h\<lparr>sm_fb := v\<rparr>, m) else (h, m)),
      ah_pt = \<lparr>update_flags_4k = (\<lambda>w a f. (None, w)), update_flags_2m = (\<lambda>w a f. (None, w)), map_to_4k = (\<lambda>w a b f. (True, w))\<rparr>\<rparr>"

lemma bit_set_bits_to [simp]: "bit (set_bits_to n b v) k = (if k = n then b \<and> n < 32 else bit v k)" for v :: u32
  by (auto simp: set_bits_to_def bit_simps dest: bit_imp_le_length)

lemma bit_engines: "bit (engines_follow v) 15 = bit v 0" "bit (engines_follow v) 14 = bit v 4" "bit (engines_follow v) 0 = bit v 0"
  "bit (engines_follow v) 4 = bit v 4"
  by (simp_all add: engines_follow_def)

lemma port_offsets: "PORT_CMD \<noteq> PORT_CI" "PORT_CMD \<noteq> PORT_SCTL" "PORT_CI \<noteq> PORT_SCTL" "PORT_CLB \<noteq> PORT_FB"
  by (simp_all add: PORT_CMD_def PORT_CI_def PORT_SCTL_def PORT_CLB_def PORT_FB_def)

lemmas sample_access = sample_ahci_def vget_def vset_def vset64_def update_register_def command_busy_def engines_busy_def
  port_offsets port_offsets [symmetric] Let_def

interpretation sample_port: sata_port "sample_ahci p" p sm_clb sm_fb sample_sector "\<lambda>h. \<not> bit (sm_cmd h) 15"
proof (rule sata_port.intro)
  fix s :: "sample_hba ahci_world"
  show "\<exists>s'. stop_cmd_and_reset (sample_ahci p) p s = Some s' \<and> \<not> bit (sm_cmd (ahw s')) 15 \<and> sample_sector (ahw s') = sample_sector (ahw s) \<and>
      allocator (amach s') = allocator (amach s) \<and> hhdm (amach s') = hhdm (amach s)"
    by (simp add: stop_cmd_and_reset_def wait_while.simps sample_access bit_engines sample_sector_def fun_eq_iff)
  show "\<exists>s' r. start_cmd (sample_ahci p) p s = Some s' \<and> sm_clb (ahw s') = sm_clb (ahw s) \<and> sm_fb (ahw s') = sm_fb (ahw s) \<and>
      sample_sector (ahw s') = sample_sector (ahw s) \<and> amach s' = (amach s)\<lparr>ram := r\<rparr> \<and>
      (\<forall>x. x \<notin> device_area (unat (sm_clb (ahw s))) (unat (sm_fb (ahw s))) \<longrightarrow> r x = ram (amach s) x)" if "\<not> bit (sm_cmd (ahw s)) 15"
    using that by (intro exI [of _ "the (start_cmd (sample_ahci p) p s)"] exI [of _ "ram (amach s)"])
      (simp add: start_cmd_def wait_while.simps sample_access sample_sector_def fun_eq_iff)
next
  fix s :: "sample_hba ahci_world" and rq :: sata_request
  assume rq: "request_at (ram (amach s)) (unat (sm_clb (ahw s))) = Some rq" "rq_command rq = CMD_READ_DMA_EXT" "rq_count rq = 1" "rq_bytes rq = AHCI_BLOCK_SIZE"
  have "take AHCI_BLOCK_SIZE (sample_sector h n) = sample_sector h n" for h n by (simp add: sample_sector_def)
  then have "x \<notin> device_area (unat (sm_clb (ahw s))) (unat (sm_fb (ahw s))) \<Longrightarrow>
      sample_issue (ahw s) (ram (amach s)) x = mem_store (ram (amach s)) (rq_address rq) (sample_sector (ahw s) (rq_lba rq)) x" for x
    using rq by (auto simp: sample_issue_def device_area_def mem_store_def)
  then show "\<exists>s' r. wait_while (command_busy (sample_ahci p) (p + PORT_CI) 0) (vset (sample_ahci p) (p + PORT_CI) 1 s) = Some s' \<and>
      sm_clb (ahw s') = sm_clb (ahw s) \<and> sm_fb (ahw s') = sm_fb (ahw s) \<and> sample_sector (ahw s') = sample_sector (ahw s) \<and>
      amach s' = (amach s)\<lparr>ram := r\<rparr> \<and>
      (\<forall>x. x \<notin> device_area (unat (sm_clb (ahw s))) (unat (sm_fb (ahw s))) \<longrightarrow>
        r x = mem_store (ram (amach s)) (rq_address rq) (sample_sector (ahw s) (rq_lba rq)) x)"
    by (intro exI [of _ "s\<lparr>amach := (amach s)\<lparr>ram := sample_issue (ahw s) (ram (amach s))\<rparr>\<rparr>"] exI [of _ "sample_issue (ahw s) (ram (amach s))"])
      (simp add: wait_while.simps sample_access)
qed (auto simp: sample_ahci_def port_offsets port_offsets [symmetric] sample_sector_def word_bits.bit_field_axioms split: if_splits)

section \<open>Theorems\<close>


definition eight_pages :: page_man where
  "eight_pages = \<lparr>bmp = [0xFE], refcnt = replicate 8 0\<rparr>"

lemma eight_pages_free: "free_set word_bits eight_pages = {1, 2, 3, 4, 5, 6, 7}"
proof -
  have u: "bit (0xFE :: u64) k \<Longrightarrow> k < 8" for k
    using bit_take_bit_iff [of 8 "0xFE :: u64" k] by simp
  have "bit (0xFE :: u64) k \<longleftrightarrow> k \<in> {1, 2, 3, 4, 5, 6, 7}" for k
  proof (cases "k < 8")
    case True
    then consider "k = 0" | "k = 1" | "k = 2" | "k = 3" | "k = 4" | "k = 5" | "k = 6" | "k = 7" by linarith
    then show ?thesis by cases simp_all
  qed (use u in auto)
  moreover have "free_page word_bits eight_pages k \<longleftrightarrow> k < 64 \<and> bit (0xFE :: u64) k" for k
    by (cases "k < 64") (simp_all add: free_page_def eight_pages_def pm_len_def word_bits_def)
  moreover have "k \<in> {1, 2, 3, 4, 5, 6, 7} \<Longrightarrow> k < 64" for k :: nat by (elim insertE) simp_all
  ultimately have "free_page word_bits eight_pages k \<longleftrightarrow> k \<in> {1, 2, 3, 4, 5, 6, 7}" for k by blast
  then show ?thesis unfolding free_set_def by blast
qed

lemma eight_pages_inv: "alloc_inv word_bits eight_pages"
  by (simp add: alloc_inv_def eight_pages_free) (simp add: eight_pages_def pm_len_def PAGE_SIZE_def)


end
