(* ===== verification/Ping.thy ===== *)
theory Ping
  imports Prelude
begin

text \<open>
  The packet monitor of the shell: \<^verbatim>\<open>apps/init/src/icmp.rs\<close>, which answers echo requests, and \<^verbatim>\<open>apps/init/src/netdump.rs\<close>, which
  prints the packets and the status reports of \<^verbatim>\<open>upppd\<close>. What is printed is the value of the printing functions, as a record of the fields.
  A packet is answered with at most one message, which is a value too. The reference for the checksum is the sum modulo \<open>2\<^sup>16 - 1\<close> of RFC 1071.
\<close>

section \<open>Echo replies\<close>

definition u32_add :: "nat \<Rightarrow> nat \<Rightarrow> nat option" where
  "u32_add a b = (if a + b < 2 ^ 32 then Some (a + b) else None)"

text \<open>The two loops of \<^verbatim>\<open>compute_checksum\<close>.\<close>

fun sum_words :: "bytes \<Rightarrow> nat \<Rightarrow> nat option" where
  "sum_words (a # b # data) acc = Option.bind (u32_add acc (unat (u16_from_be a b))) (sum_words data)"
| "sum_words [a] acc = u32_add acc (unat a * 2 ^ 8)"
| "sum_words [] acc = Some acc"

lemma carries_less: "n div 2 ^ 16 \<noteq> 0 \<Longrightarrow> n mod 2 ^ 16 + n div 2 ^ 16 < (n :: nat)"
proof -
  assume "n div 2 ^ 16 \<noteq> 0"
  then have "n div 2 ^ 16 < n div 2 ^ 16 * 2 ^ 16" by simp
  then show ?thesis using div_mult_mod_eq [of n "2 ^ 16"] by linarith
qed

function fold_carries :: "nat \<Rightarrow> nat" where
  "fold_carries acc = (if acc div 2 ^ 16 \<noteq> 0 then fold_carries (acc mod 2 ^ 16 + acc div 2 ^ 16) else acc)"
  by pat_completeness auto
termination
  by (relation "measure id") (use carries_less in simp_all)

declare fold_carries.simps [simp del]

definition compute_checksum :: "bytes \<Rightarrow> u16 option" where
  "compute_checksum data = do { acc \<leftarrow> sum_words data 0; Some (NOT (of_nat (fold_carries acc))) }"

definition REPLY_SIZE :: nat where
  "REPLY_SIZE = 1500"

definition reply_to :: "bytes \<Rightarrow> nat \<Rightarrow> bytes \<Rightarrow> bytes \<Rightarrow> bytes option" where
  "reply_to packet payload_start src_ip dst_ip =
     do { reply \<leftarrow> copy_into (replicate REPLY_SIZE 0) 0 packet;
          reply \<leftarrow> copy_into reply 12 dst_ip;
          reply \<leftarrow> copy_into reply 16 src_ip;
          reply \<leftarrow> upd_opt reply payload_start 0;
          reply \<leftarrow> copy_into reply (payload_start + 2) [0, 0];
          icmp_part \<leftarrow> slice reply payload_start (length packet);
          icmp_checksum \<leftarrow> compute_checksum icmp_part;
          reply \<leftarrow> copy_into reply (payload_start + 2) (u16_to_be icmp_checksum);
          reply \<leftarrow> copy_into reply 10 [0, 0];
          header \<leftarrow> slice reply 0 payload_start;
          ip_checksum \<leftarrow> compute_checksum header;
          reply \<leftarrow> copy_into reply 10 (u16_to_be ip_checksum);
          slice reply 0 (length packet) }"

definition try_handle_ping :: "bytes \<Rightarrow> bytes option option" where
  "try_handle_ping packet =
     do { version_ihl \<leftarrow> nth_opt packet 0;
          let ihl = version_ihl AND 0x0F;
          let payload_start = unat (ihl * 4);
          if length packet < payload_start + 8 \<or> drop_bit 4 version_ihl \<noteq> 4 then Some None
          else do { protocol \<leftarrow> nth_opt packet 9;
                    if protocol \<noteq> 1 then Some None
                    else do { src_ip \<leftarrow> slice packet 12 16;
                              dst_ip \<leftarrow> slice packet 16 20;
                              icmp_type \<leftarrow> nth_opt packet payload_start;
                              icmp_code \<leftarrow> nth_opt packet (payload_start + 1);
                              if icmp_type \<noteq> 8 \<or> icmp_code \<noteq> 0 \<or> REPLY_SIZE < length packet then Some None
                              else do { reply \<leftarrow> reply_to packet payload_start src_ip dst_ip; Some (Some reply) } } } }"

section \<open>The monitor\<close>

text \<open>\<^verbatim>\<open>send_ipv4\<close> prepends the opcode.\<close>

definition send_ipv4 :: "bytes \<Rightarrow> bytes option" where
  "send_ipv4 packet =
     do { buf \<leftarrow> copy_into ((replicate 4096 0)[0 := 1]) 1 packet; slice buf 0 (length packet + 1) }"

datatype ipv4_error = TooShort | NotIpv4 | InvalidIhl | HeaderTruncated

record ipv4_report =
  rp_ihl :: u8
  rp_dscp :: u8
  rp_ecn :: u8
  rp_total_len :: u16
  rp_id :: u16
  rp_flags :: u8
  rp_frag_off :: u16
  rp_ttl :: u8
  rp_protocol :: u8
  rp_checksum :: u16
  rp_source :: bytes
  rp_destination :: bytes
  rp_options :: bytes
  rp_payload :: bytes

definition be16_at :: "bytes \<Rightarrow> nat \<Rightarrow> u16 option" where
  "be16_at packet i = do { a \<leftarrow> nth_opt packet i; b \<leftarrow> nth_opt packet (i + 1); Some (u16_from_be a b) }"

definition print_ipv4_header :: "bytes \<Rightarrow> (ipv4_error + ipv4_report \<times> nat) option" where
  "print_ipv4_header packet =
     (if length packet < 20 then Some (Inl TooShort)
      else do { version_ihl \<leftarrow> nth_opt packet 0;
                let ihl = version_ihl AND 0x0F;
                if drop_bit 4 version_ihl \<noteq> 4 then Some (Inl NotIpv4)
                else if ihl < 5 then Some (Inl InvalidIhl)
                else let header_len = unat ihl * 4 in
                  if length packet < header_len then Some (Inl HeaderTruncated)
                  else do { dscp_ecn \<leftarrow> nth_opt packet 1;
                            total_len \<leftarrow> be16_at packet 2;
                            ident \<leftarrow> be16_at packet 4;
                            flags_frag \<leftarrow> be16_at packet 6;
                            ttl \<leftarrow> nth_opt packet 8;
                            protocol \<leftarrow> nth_opt packet 9;
                            checksum \<leftarrow> be16_at packet 10;
                            source \<leftarrow> slice packet 12 16;
                            destination \<leftarrow> slice packet 16 20;
                            options \<leftarrow> slice packet 20 header_len;
                            payload \<leftarrow> slice packet header_len (header_len + min (length packet - header_len) 64);
                            Some (Inr (\<lparr>rp_ihl = ihl, rp_dscp = drop_bit 2 dscp_ecn, rp_ecn = dscp_ecn AND 0x03,
                              rp_total_len = total_len, rp_id = ident, rp_flags = ucast (drop_bit 13 flags_frag),
                              rp_frag_off = flags_frag AND 0x1FFF, rp_ttl = ttl, rp_protocol = protocol, rp_checksum = checksum,
                              rp_source = source, rp_destination = destination, rp_options = options, rp_payload = payload\<rparr>, header_len)) } })"

text \<open>The message to \<^verbatim>\<open>upppd\<close>, if there is one, and what is printed.\<close>

definition handle_inbound_ipv4 :: "bytes \<Rightarrow> (bytes option \<times> (ipv4_error + ipv4_report \<times> nat)) option" where
  "handle_inbound_ipv4 packet =
     do { r \<leftarrow> try_handle_ping packet;
          msg \<leftarrow> (case r of None \<Rightarrow> Some None | Some reply \<Rightarrow> do { m \<leftarrow> send_ipv4 reply; Some (Some m) });
          shown \<leftarrow> print_ipv4_header packet;
          Some (msg, shown) }"

record status_report =
  st_phase :: u8
  st_local :: bytes
  st_peer :: bytes
  st_dns1 :: bytes
  st_dns2 :: bytes

definition handle_status :: "bytes \<Rightarrow> status_report option" where
  "handle_status m =
     do { phase \<leftarrow> nth_opt m 1;
          local_addr \<leftarrow> slice m 2 6;
          peer_addr \<leftarrow> slice m 6 10;
          dns1 \<leftarrow> slice m 10 14;
          dns2 \<leftarrow> slice m 14 18;
          Some \<lparr>st_phase = phase, st_local = local_addr, st_peer = peer_addr, st_dns1 = dns1, st_dns2 = dns2\<rparr> }"

text \<open>The system calls of the monitor. A wait for a message or for the service has no bound, so that \<^term>\<open>None\<close> is a panic or a wait without end.\<close>

record 'w net_env =
  ipc_connect :: "'w \<Rightarrow> nat option \<times> 'w"
  ipc_recv :: "'w \<Rightarrow> nat \<Rightarrow> bytes \<Rightarrow> (int \<times> bytes) \<times> 'w"
  ipc_send :: "'w \<Rightarrow> nat \<Rightarrow> bytes \<Rightarrow> int \<times> 'w"

datatype shown = Packet "ipv4_error + ipv4_report \<times> nat" | Status status_report

definition IPC_EAGAIN :: int where "IPC_EAGAIN = - 11"

partial_function (option) recv_poll :: "'w net_env \<Rightarrow> nat \<Rightarrow> bytes \<Rightarrow> 'w \<Rightarrow> ((int \<times> bytes) \<times> 'w) option" where
  "recv_poll e handle buf w =
     (let ((recv_len, buf), w) = ipc_recv e w handle buf in
      if recv_len \<noteq> IPC_EAGAIN then Some ((recv_len, buf), w) else recv_poll e handle buf w)"

partial_function (option) connect_poll :: "'w net_env \<Rightarrow> 'w \<Rightarrow> (nat \<times> 'w) option" where
  "connect_poll e w =
     (case ipc_connect e w of (Some handle, w) \<Rightarrow> Some (handle, w) | (None, w) \<Rightarrow> connect_poll e w)"

definition handle_message :: "'w net_env \<Rightarrow> nat \<Rightarrow> bytes \<Rightarrow> 'w \<Rightarrow> (shown option \<times> 'w) option" where
  "handle_message e handle msg w =
     do { op \<leftarrow> nth_opt msg 0;
          if op = 0x81
          then do { (reply, r) \<leftarrow> handle_inbound_ipv4 (drop 1 msg);
                    let w = (case reply of None \<Rightarrow> w | Some m \<Rightarrow> snd (ipc_send e w handle m));
                    Some (Some (Packet r), w) }
          else if op = 0x82 then do { r \<leftarrow> handle_status msg; Some (Some (Status r), w) }
          else Some (None, w) }"

partial_function (option) netdump_loop :: "'w net_env \<Rightarrow> nat \<Rightarrow> nat \<Rightarrow> bytes \<Rightarrow> shown list \<Rightarrow> 'w \<Rightarrow> (shown list \<times> 'w) option" where
  "netdump_loop e handle cnt buf out w =
     do { ((msg_len, buf), w) \<leftarrow> recv_poll e handle buf w;
          msg \<leftarrow> slice buf 0 (unat (of_int msg_len :: u64));
          (r, w) \<leftarrow> handle_message e handle msg w;
          case r of
            None \<Rightarrow> netdump_loop e handle cnt buf out w
          | Some x \<Rightarrow> do { cnt \<leftarrow> checked_sub cnt 1;
                           if cnt = 0 then Some (out @ [x], w) else netdump_loop e handle cnt buf (out @ [x]) w } }"

definition netdump_main :: "'w net_env \<Rightarrow> nat \<Rightarrow> 'w \<Rightarrow> (shown list \<times> 'w) option" where
  "netdump_main e cnt w = do { (handle, w) \<leftarrow> connect_poll e w; netdump_loop e handle cnt (replicate 4096 0) [] w }"

section \<open>The checksum\<close>

fun word_sum :: "bytes \<Rightarrow> nat" where
  "word_sum (a # b # data) = unat a * 256 + unat b + word_sum data"
| "word_sum [a] = unat a * 256"
| "word_sum [] = 0"

text \<open>One's complement addition: the residue modulo \<open>2\<^sup>16 - 1\<close>, in the range from one.\<close>

definition ones_complement :: "nat \<Rightarrow> nat" where
  "ones_complement n = (if n = 0 then 0 else (n - 1) mod 65535 + 1)"

lemma unat_u16_from_be: "unat (u16_from_be a b) = unat a * 256 + unat b"
proof -
  have "u16_from_be a b = ucast b + push_bit 8 (ucast a)"
    unfolding u16_from_be_def u16_from_le_def
    by (rule disjunctive_add_eq_or [symmetric]) (auto simp: bit_eq_iff bit_simps dest: bit_imp_le_length)
  also have "\<dots> = of_nat (unat a * 256 + unat b)"
    by (simp add: push_bit_eq_mult)
  finally have "unat (u16_from_be a b) = unat (of_nat (unat a * 256 + unat b) :: u16)" by (rule arg_cong)
  then show ?thesis using unat_less [of a] unat_less [of b]
    by (simp only: unsigned_of_nat) (simp add: take_bit_nat_eq_self)
qed

lemma sum_words_eq: "acc + word_sum data < 2 ^ 32 \<Longrightarrow> sum_words data acc = Some (acc + word_sum data)"
  by (induction data acc rule: sum_words.induct) (auto simp: u32_add_def unat_u16_from_be)

lemma word_sum_bound: "word_sum data \<le> 65535 * ((length data + 1) div 2)"
proof (induction data rule: word_sum.induct)
  case (1 a b data)
  then show ?case using unat_less [of a] unat_less [of b] by simp
next
  case (2 a)
  then show ?case using unat_less [of a] by simp
qed simp

lemma fold_carries_eq: "fold_carries n = ones_complement n"
proof (induction n rule: fold_carries.induct)
  case (1 n)
  show ?case
  proof (cases "n div 2 ^ 16 = 0")
    case True
    then have "n \<le> 65535" by simp
    then have "ones_complement n = n" by (simp add: ones_complement_def)
    then show ?thesis using True by (subst fold_carries.simps) simp
  next
    case False
    let ?m = "n mod 2 ^ 16 + n div 2 ^ 16"
    have n: "n = ?m + 65535 * (n div 2 ^ 16)" using div_mult_mod_eq [of n "2 ^ 16"] by simp
    moreover have "0 < ?m" "0 < n" using False by (cases "n = 0"; simp)+
    ultimately have "ones_complement ?m = ones_complement n"
      unfolding ones_complement_def by (metis Nat.add_diff_assoc2 less_eq_Suc_le mod_mult_self2 neq0_conv One_nat_def)
    then show ?thesis using 1 False by (subst fold_carries.simps) simp
  qed
qed

text \<open>The two loops compute the checksum of RFC 1071, for every part that fits in a packet.\<close>

lemma compute_checksum_eq:
  assumes "length data \<le> 65536"
  shows "compute_checksum data = Some (NOT (of_nat (ones_complement (word_sum data))))"
proof -
  have "(length data + 1) div 2 \<le> 32768" using assms by simp
  then have "word_sum data \<le> 65535 * 32768" using word_sum_bound [of data] by (meson le_trans mult_le_mono2)
  then show ?thesis using sum_words_eq [of 0 data] by (simp add: compute_checksum_def fold_carries_eq)
qed

lemma word_sum_update:
  "\<lbrakk>even i; i + 2 \<le> length data; data ! i = 0; data ! (i + 1) = 0\<rbrakk> \<Longrightarrow>
   word_sum (data[i := a, i + 1 := b]) = word_sum data + unat a * 256 + unat b"
proof (induction data arbitrary: i rule: word_sum.induct)
  case (1 x y data)
  show ?case
  proof (cases i)
    case 0
    then show ?thesis using 1 by simp
  next
    case (Suc j)
    then obtain k where "i = Suc (Suc k)" "even k" using 1(2) by (cases j) auto
    then show ?thesis using 1 by simp
  qed
qed auto

text \<open>Storing the checksum in a field that was zero makes the checksum of the whole zero.\<close>

lemma stored_checksum_verifies:
  assumes "even i" "i + 2 \<le> length data" "data ! i = 0" "data ! (i + 1) = 0" and l: "length data \<le> 65536"
    and c: "compute_checksum data = Some c"
  shows "compute_checksum (data[i := ucast (drop_bit 8 c), i + 1 := ucast c]) = Some 0"
proof -
  let ?s = "word_sum data" and ?r = "ones_complement (word_sum data)"
  have r: "?r \<le> 65535" using mod_less_divisor [of 65535 "?s - Suc 0"] by (simp add: ones_complement_def del: mod_less_divisor)
  have "c = NOT (of_nat ?r)" using c compute_checksum_eq [OF l] by simp
  then have "c = of_nat (65535 - ?r)" using r by (simp add: not_eq_complement of_nat_diff)
  then have "unat c = unat (of_nat (65535 - ?r) :: u16)" by (rule arg_cong)
  then have "unat c = 65535 - ?r" by (simp only: unsigned_of_nat) (simp add: take_bit_nat_eq_self)
  moreover have "unat c = unat (ucast (drop_bit 8 c) :: u8) * 256 + unat (ucast c :: u8)"
    using unat_u16_from_be [of "ucast (drop_bit 8 c)" "ucast c"] u16_be_roundtrip [of c] by simp
  ultimately have w: "word_sum (data[i := ucast (drop_bit 8 c), i + 1 := ucast c]) = ?s + (65535 - ?r)"
    using word_sum_update [OF assms(1-4)] by simp
  have "ones_complement (?s + (65535 - ?r)) = 65535"
  proof (cases "?s = 0")
    case False
    define q where "q = (?s - 1) div 65535"
    have "?s - 1 = 65535 * q + (?s - 1) mod 65535" by (simp add: q_def)
    then have "?s + (65535 - ?r) = 65535 * q + 65535" using False r by (simp add: ones_complement_def)
    then show ?thesis by (simp add: ones_complement_def)
  qed (simp add: ones_complement_def)
  then show ?thesis using compute_checksum_eq [of "data[i := ucast (drop_bit 8 c), i + 1 := ucast c]"] l w by simp
qed

section \<open>Answers\<close>

definition header_len :: "bytes \<Rightarrow> nat" where
  "header_len packet = unat ((packet ! 0 AND 0x0F) * 4)"

lemma header_len_eq: "header_len packet = unat (packet ! 0 AND 0x0F) * 4"
proof -
  have "packet ! 0 AND 0x0F \<le> 0x0F" by (rule word_and_le1)
  then have "unat (packet ! 0 AND 0x0F) \<le> 15" by (simp add: word_le_nat_alt)
  then show ?thesis by (simp add: header_len_def unat_word_ariths)
qed

lemma even_header_len: "even (header_len packet)"
  by (simp add: header_len_eq)

text \<open>A request: an IPv4 packet with a whole header, an ICMP message of type 8 and code 0, and room for the answer.\<close>

definition echo_request :: "bytes \<Rightarrow> bool" where
  "echo_request packet \<longleftrightarrow>
     (let h = header_len packet in
      20 \<le> h \<and> h + 8 \<le> length packet \<and> length packet \<le> REPLY_SIZE \<and> drop_bit 4 (packet ! 0) = 4 \<and>
      packet ! 9 = 1 \<and> packet ! h = 8 \<and> packet ! (h + 1) = 0)"

lemma copy_nth: "copy_into dst at src = Some r \<Longrightarrow> r ! i = (if at \<le> i \<and> i < at + length src then src ! (i - at) else dst ! i)"
  by (auto simp: copy_into_def nth_append split: if_splits)

lemma copy_ok: "at + length src \<le> length dst \<Longrightarrow> \<exists>r. copy_into dst at src = Some r \<and> length r = length dst"
  by (auto simp: copy_into_def)

lemma copy_two:
  assumes "at + 2 \<le> length dst"
  shows "copy_into dst at [a, b] = Some (dst[at := a, at + 1 := b])"
proof -
  obtain r where r: "copy_into dst at [a, b] = Some r" "length r = length dst" using copy_ok [of at "[a, b]" dst] assms by auto
  have "r = dst[at := a, at + 1 := b]"
  proof (rule nth_equalityI)
    fix i
    assume "i < length r"
    then show "r ! i = dst[at := a, at + 1 := b] ! i"
      using assms r(2) copy_nth [OF r(1), of i]
      by (cases "i = at"; cases "i = at + 1") (auto simp: nth_list_update)
  qed (simp add: r)
  with r show ?thesis by simp
qed

lemma slice_ok: "\<lbrakk>i \<le> j; j \<le> length xs\<rbrakk> \<Longrightarrow> slice xs i j = Some (drop i (take j xs))"
  by (simp add: slice_def drop_take)

lemma addresses_swapped:
  assumes "length packet \<le> REPLY_SIZE" and "20 \<le> length packet"
  obtains b where "Option.bind (copy_into (replicate REPLY_SIZE 0) 0 packet) (\<lambda>r. Option.bind (copy_into r 12 (drop 16 (take 20 packet)))
      (\<lambda>r. copy_into r 16 (drop 12 (take 16 packet)))) = Some b" "length b = REPLY_SIZE"
    "\<And>i. i < length packet \<Longrightarrow> b ! i = packet ! (if 12 \<le> i \<and> i < 16 then i + 4 else if 16 \<le> i \<and> i < 20 then i - 4 else i)"
proof -
  obtain b0 where b0: "copy_into (replicate REPLY_SIZE 0) 0 packet = Some b0" "length b0 = REPLY_SIZE"
    using copy_ok [of 0 packet "replicate REPLY_SIZE 0"] assms by auto
  obtain b1 where b1: "copy_into b0 12 (drop 16 (take 20 packet)) = Some b1" "length b1 = REPLY_SIZE"
    using copy_ok [of 12 "drop 16 (take 20 packet)" b0] assms b0(2) by auto
  obtain b2 where b2: "copy_into b1 16 (drop 12 (take 16 packet)) = Some b2" "length b2 = REPLY_SIZE"
    using copy_ok [of 16 "drop 12 (take 16 packet)" b1] assms b1(2) by auto
  show thesis
  proof (rule that)
    fix i
    assume "i < length packet"
    then show "b2 ! i = packet ! (if 12 \<le> i \<and> i < 16 then i + 4 else if 16 \<le> i \<and> i < 20 then i - 4 else i)"
      using assms by (auto simp: copy_nth [OF b2(1)] copy_nth [OF b1(1)] copy_nth [OF b0(1)] add.commute)
  qed (use b0 b1 b2 in simp_all)
qed

lemma reply_to_eq:
  assumes l: "length packet \<le> REPLY_SIZE" "20 \<le> length packet" and h: "h + 4 \<le> length packet"
  obtains b c1 c2 where
    "length b = length packet"
    "\<And>i. i < length packet \<Longrightarrow> b ! i = packet ! (if 12 \<le> i \<and> i < 16 then i + 4 else if 16 \<le> i \<and> i < 20 then i - 4 else i)"
    "compute_checksum (drop h (b[h := 0, h + 2 := 0, h + 3 := 0])) = Some c1"
    "compute_checksum (take h (b[h := 0, h + 2 := ucast (drop_bit 8 c1), h + 3 := ucast c1, 10 := 0, 11 := 0])) = Some c2"
    "reply_to packet h (drop 12 (take 16 packet)) (drop 16 (take 20 packet)) =
       Some (b[h := 0, h + 2 := ucast (drop_bit 8 c1), h + 3 := ucast c1, 10 := ucast (drop_bit 8 c2), 11 := ucast c2])"
proof -
  let ?l = "length packet"
  obtain b where b: "Option.bind (copy_into (replicate REPLY_SIZE 0) 0 packet) (\<lambda>r. Option.bind (copy_into r 12 (drop 16 (take 20 packet)))
      (\<lambda>r. copy_into r 16 (drop 12 (take 16 packet)))) = Some b" "length b = REPLY_SIZE"
    "\<And>i. i < ?l \<Longrightarrow> b ! i = packet ! (if 12 \<le> i \<and> i < 16 then i + 4 else if 16 \<le> i \<and> i < 20 then i - 4 else i)"
    using addresses_swapped [OF l] by blast
  have R: "REPLY_SIZE = 1500" by (simp add: REPLY_SIZE_def)
  have ck: "\<exists>c. compute_checksum d = Some c" if "length d \<le> 1500" for d using compute_checksum_eq [of d] that by auto
  let ?b1 = "b[h := 0, h + 2 := 0, h + 3 := 0]"
  have "length (drop h (take ?l ?b1)) \<le> 1500" using l(1) R by simp
  from ck [OF this] obtain c1 where c1: "compute_checksum (drop h (take ?l ?b1)) = Some c1" by blast
  let ?b2 = "b[h := 0, h + 2 := ucast (drop_bit 8 c1), h + 3 := ucast c1]"
  let ?b3 = "?b2[10 := 0, 11 := 0]"
  have "length (take h ?b3) \<le> 1500" using l(1) h R by simp
  from ck [OF this] obtain c2 where c2: "compute_checksum (take h ?b3) = Some c2" by blast
  let ?r = "?b2[10 := ucast (drop_bit 8 c2), 11 := ucast c2]"
  have e: "?b1[h + 2 := x, h + 3 := y] = b[h := 0, h + 2 := x, h + 3 := y]" for x y
    using l h b(2) R by (intro nth_equalityI) (auto simp: nth_list_update)
  have f: "?b3[10 := x, 11 := y] = ?b2[10 := x, 11 := y]" for x y
    using l h b(2) R by (intro nth_equalityI) (auto simp: nth_list_update)
  have w: "copy_into d (h + 2) [x, y] = Some (d[h + 2 := x, h + 3 := y])" "copy_into d 10 [x, y] = Some (d[10 := x, 11 := y])"
    if "length d = REPLY_SIZE" for d x y
    using copy_two [of "h + 2" d x y] copy_two [of 10 d x y] that l h R by (simp_all add: numeral_3_eq_3)
  have "reply_to packet h (drop 12 (take 16 packet)) (drop 16 (take 20 packet)) =
      do { reply \<leftarrow> Option.bind (copy_into (replicate REPLY_SIZE 0) 0 packet) (\<lambda>r. Option.bind (copy_into r 12 (drop 16 (take 20 packet)))
             (\<lambda>r. copy_into r 16 (drop 12 (take 16 packet))));
           reply \<leftarrow> upd_opt reply h 0;
           reply \<leftarrow> copy_into reply (h + 2) [0, 0];
           icmp_part \<leftarrow> slice reply h ?l;
           icmp_checksum \<leftarrow> compute_checksum icmp_part;
           reply \<leftarrow> copy_into reply (h + 2) (u16_to_be icmp_checksum);
           reply \<leftarrow> copy_into reply 10 [0, 0];
           header \<leftarrow> slice reply 0 h;
           ip_checksum \<leftarrow> compute_checksum header;
           reply \<leftarrow> copy_into reply 10 (u16_to_be ip_checksum);
           slice reply 0 ?l }"
    by (simp add: reply_to_def)
  also have "\<dots> = Some (take ?l ?r)"
    using l h b(2) R by (simp add: b(1) w slice_ok c1 c2 u16_to_be_def e f del: add_2_eq_Suc')
  also have "take ?l ?r = (take ?l b)[h := 0, h + 2 := ucast (drop_bit 8 c1), h + 3 := ucast c1, 10 := ucast (drop_bit 8 c2), 11 := ucast c2]"
    by (simp add: take_update_swap)
  finally show thesis using that [of "take ?l b" c1 c2] b(2,3) l R c1 c2 h by (simp add: take_update_swap)
qed

lemma ping_reply_to:
  assumes "echo_request packet"
  shows "try_handle_ping packet = map_option Some (reply_to packet (header_len packet) (drop 12 (take 16 packet)) (drop 16 (take 20 packet)))"
proof -
  let ?h = "header_len packet"
  have r: "20 \<le> ?h" "?h + 8 \<le> length packet" "length packet \<le> REPLY_SIZE" "drop_bit 4 (packet ! 0) = 4" "packet ! 9 = 1" "packet ! ?h = 8" "packet ! (?h + 1) = 0"
    using assms by (simp_all add: echo_request_def Let_def)
  have n: "nth_opt packet 0 = Some (packet ! 0)" "nth_opt packet 9 = Some (packet ! 9)" "nth_opt packet ?h = Some (packet ! ?h)"
    "nth_opt packet (?h + 1) = Some (packet ! (?h + 1))" using r(1,2) by (intro nth_opt_Some; linarith)+
  have s: "slice packet 12 16 = Some (drop 12 (take 16 packet))" "slice packet 16 20 = Some (drop 16 (take 20 packet))"
    using r(1,2) by (simp_all add: slice_ok)
  have h: "unat ((packet ! 0 AND 0x0F) * 4) = ?h" by (simp add: header_len_def)
  show ?thesis unfolding try_handle_ping_def using r
    by (simp add: n(1) h Let_def) (simp add: n(2) s n(3,4)[simplified] map_conv_bind_option o_def)
qed

text \<open>
  Property C24 (echo replies). A valid echo request is answered, with a packet of the same length: the addresses are exchanged, the type is 0,
  everything but the type and the two checksums is as in the request, and both checksums of the reply verify, the one of the header and the
  one of the message.
\<close>

theorem ping_answered:
  assumes "echo_request packet"
  shows "\<exists>r. try_handle_ping packet = Some (Some r) \<and> length r = length packet \<and>
    take 4 (drop 12 r) = take 4 (drop 16 packet) \<and> take 4 (drop 16 r) = take 4 (drop 12 packet) \<and> r ! header_len packet = 0 \<and>
    (\<forall>i<length packet. i \<notin> {10, 11} \<union> {12..<20} \<union> {header_len packet, header_len packet + 2, header_len packet + 3} \<longrightarrow> r ! i = packet ! i) \<and>
    compute_checksum (take (header_len packet) r) = Some 0 \<and> compute_checksum (drop (header_len packet) r) = Some 0"
proof -
  let ?h = "header_len packet"
  have l: "20 \<le> ?h" "?h + 8 \<le> length packet" "length packet \<le> REPLY_SIZE" "REPLY_SIZE = 1500"
    using assms by (simp_all add: echo_request_def Let_def REPLY_SIZE_def)
  then have m: "length packet \<le> REPLY_SIZE" "20 \<le> length packet" "?h + 4 \<le> length packet" by simp_all
  obtain b c1 c2 where b: "length b = length packet"
    "\<And>i. i < length packet \<Longrightarrow> b ! i = packet ! (if 12 \<le> i \<and> i < 16 then i + 4 else if 16 \<le> i \<and> i < 20 then i - 4 else i)"
    and c1: "compute_checksum (drop ?h (b[?h := 0, ?h + 2 := 0, ?h + 3 := 0])) = Some c1"
    and c2: "compute_checksum (take ?h (b[?h := 0, ?h + 2 := ucast (drop_bit 8 c1), ?h + 3 := ucast c1, 10 := 0, 11 := 0])) = Some c2"
    and r: "reply_to packet ?h (drop 12 (take 16 packet)) (drop 16 (take 20 packet)) =
       Some (b[?h := 0, ?h + 2 := ucast (drop_bit 8 c1), ?h + 3 := ucast c1, 10 := ucast (drop_bit 8 c2), 11 := ucast c2])"
    by (rule reply_to_eq [OF m]) (rule that)
  let ?r = "b[?h := 0, ?h + 2 := ucast (drop_bit 8 c1), ?h + 3 := ucast c1, 10 := ucast (drop_bit 8 c2), 11 := ucast c2]"
  let ?icmp = "drop ?h (b[?h := 0, ?h + 2 := 0, ?h + 3 := 0])"
  let ?header = "take ?h (b[?h := 0, ?h + 2 := ucast (drop_bit 8 c1), ?h + 3 := ucast c1, 10 := 0, 11 := 0])"
  have "drop ?h ?r = ?icmp[2 := ucast (drop_bit 8 c1), 2 + 1 := ucast c1]"
    using l b(1) by (intro nth_equalityI) (auto simp: nth_list_update)
  moreover have "compute_checksum (?icmp[2 := ucast (drop_bit 8 c1), 2 + 1 := ucast c1]) = Some 0"
    by (rule stored_checksum_verifies [OF _ _ _ _ _ c1]) (use l b(1) in \<open>auto simp: nth_list_update\<close>)
  moreover have "take ?h ?r = ?header[10 := ucast (drop_bit 8 c2), 10 + 1 := ucast c2]"
    using l b(1) by (intro nth_equalityI) (auto simp: nth_list_update)
  moreover have "compute_checksum (?header[10 := ucast (drop_bit 8 c2), 10 + 1 := ucast c2]) = Some 0"
    by (rule stored_checksum_verifies [OF _ _ _ _ _ c2]) (use l b(1) in \<open>auto simp: nth_list_update\<close>)
  moreover have "?r ! k = b ! k" if "k \<notin> {10, 11, ?h, ?h + 2, ?h + 3}" for k
    using that by simp
  then have "?r ! (12 + i) = packet ! (16 + i) \<and> ?r ! (16 + i) = packet ! (12 + i)" if "i < 4" for i
    using that l b(2) [of "12 + i"] b(2) [of "16 + i"] by simp
  then have "take 4 (drop 12 ?r) = take 4 (drop 16 packet) \<and> take 4 (drop 16 ?r) = take 4 (drop 12 packet)"
    using l b(1) by (intro conjI nth_equalityI) simp_all
  moreover have "?r ! ?h = 0" "length ?r = length packet" using l b(1) by (auto simp: nth_list_update)
  moreover have "?r ! i = packet ! i" if "i < length packet" "i \<notin> {10, 11} \<union> {12..<20} \<union> {?h, ?h + 2, ?h + 3}" for i
    using that l b by (auto simp: nth_list_update)
  ultimately show ?thesis using ping_reply_to [OF assms] r by (intro exI [of _ ?r]) auto
qed

definition sample_ping :: bytes where
  "sample_ping = [0x45, 0, 0, 0x20, 0, 1, 0, 0, 64, 1, 0xAB, 0xCD, 10, 0, 0, 1, 10, 0, 0, 2, 8, 0, 0xF7, 0xFA, 0, 1, 0, 4, 1, 2, 3, 4]"

theorem ping_answered_witness:
  "\<exists>r. try_handle_ping sample_ping = Some (Some r) \<and> length r = 32 \<and> take 4 (drop 12 r) = [10, 0, 0, 2] \<and> take 4 (drop 16 r) = [10, 0, 0, 1] \<and>
     compute_checksum (take 20 r) = Some 0 \<and> compute_checksum (drop 20 r) = Some 0"
proof -
  have h: "header_len sample_ping = 20" by (simp add: header_len_eq sample_ping_def)
  have e: "echo_request sample_ping" by (simp add: echo_request_def Let_def h) (simp add: sample_ping_def REPLY_SIZE_def)
  show ?thesis using ping_answered [OF e] unfolding h by (elim exE conjE, intro exI conjI) (assumption | simp add: sample_ping_def)+
qed

lemma print_total: "print_ipv4_header packet \<noteq> None"
proof (cases "length packet < 20")
  case False
  then have n: "nth_opt packet i = Some (packet ! i)" if "i < 20" for i using that by simp
  have h: "unat (packet ! 0 AND 0x0F) * 4 \<ge> 20" if "\<not> packet ! 0 AND 0x0F < 5" using that by (simp add: word_less_nat_alt not_less)
  show ?thesis
  proof (cases "packet ! 0 AND 0x0F < 5 \<or> length packet < unat (packet ! 0 AND 0x0F) * 4")
    case True
    then show ?thesis using False by (auto simp: print_ipv4_header_def n Let_def)
  next
    case long: False
    have "slice packet 20 (unat (packet ! 0 AND 0x0F) * 4) = Some (drop 20 (take (unat (packet ! 0 AND 0x0F) * 4) packet))"
      "slice packet (unat (packet ! 0 AND 0x0F) * 4) (unat (packet ! 0 AND 0x0F) * 4 + min (length packet - unat (packet ! 0 AND 0x0F) * 4) 64) =
        Some (drop (unat (packet ! 0 AND 0x0F) * 4) (take (unat (packet ! 0 AND 0x0F) * 4 + min (length packet - unat (packet ! 0 AND 0x0F) * 4) 64) packet))"
      using long h by (intro slice_ok; auto)+
    then show ?thesis using False long by (simp add: print_ipv4_header_def be16_at_def n slice_ok Let_def)
  qed
qed (simp add: print_ipv4_header_def)

text \<open>Without the test for a whole header that \<open>print_ipv4_header\<close> has, a short packet panics the handler.\<close>

lemma short_packet_panics: "try_handle_ping (0x40 # replicate 7 0) = None"
  by (simp add: try_handle_ping_def nth_opt_def Let_def)

end
