(* ===== verification/Upppd.thy ===== *)
theory Upppd
  imports Ping "HOL-Library.Multiset"
begin

text \<open>
  The network service: \<^verbatim>\<open>apps/upppd/src/main.rs\<close>. It forwards packets between a PPP connection over the serial line and its
  clients. The protocol is the crate \<^verbatim>\<open>ppproto\<close> and the kernel is behind the system calls; both are parameters of the model, functions of
  the state of the connection and of the world. The loops over the clients remove a client by moving the last one to its place;
  they are shown to visit every client exactly once.
\<close>

section \<open>Loops that may remove the element they visit\<close>

text \<open>
  \<^verbatim>\<open>while idx < clients.len()\<close> with a body that either goes on to the next index or removes the element at the index by \<^verbatim>\<open>swap_remove\<close>.
  The body says whether to keep the element.
\<close>

function retain_loop :: "('a \<Rightarrow> 's \<Rightarrow> (bool \<times> 's) option) \<Rightarrow> nat \<Rightarrow> 'a list \<Rightarrow> 's \<Rightarrow> ('a list \<times> 's) option" where
  "retain_loop f idx cs s =
     (if idx < length cs
      then do { (keep, s) \<leftarrow> f (cs ! idx) s;
                if keep then retain_loop f (idx + 1) cs s else retain_loop f idx (swap_remove cs idx) s }
      else Some (cs, s))"
  by pat_completeness auto
termination
  by (relation "measure (\<lambda>(f, idx, cs, s). length cs - idx)") (auto simp: swap_remove_def)

declare retain_loop.simps [simp del]

text \<open>One visit of every element of a list, in order.\<close>

fun visit_each :: "('a \<Rightarrow> 's \<Rightarrow> (bool \<times> 's) option) \<Rightarrow> 'a list \<Rightarrow> 's \<Rightarrow> ('a list \<times> 's) option" where
  "visit_each f [] s = Some ([], s)"
| "visit_each f (c # cs) s =
     do { (keep, s) \<leftarrow> f c s; (kept, s) \<leftarrow> visit_each f cs s; Some (if keep then c # kept else kept, s) }"

section \<open>Messages\<close>

datatype phase = Dead | Establish | Auth | Network | Open

type_synonym addr = "u8 \<times> u8 \<times> u8 \<times> u8"

definition octets :: "addr \<Rightarrow> bytes" where
  "octets a = (case a of (x, y, z, w) \<Rightarrow> [x, y, z, w])"

record ipv4_status =
  ip_address :: "addr option"
  ip_peer :: "addr option"
  ip_dns1 :: "addr option"
  ip_dns2 :: "addr option"

definition OP_SEND_IPV4 :: u8 where "OP_SEND_IPV4 = 1"
definition OP_QUERY_STATUS :: u8 where "OP_QUERY_STATUS = 2"
definition EVT_ACK :: u8 where "EVT_ACK = 0x80"
definition EVT_RX_IPV4 :: u8 where "EVT_RX_IPV4 = 0x81"
definition EVT_STATUS :: u8 where "EVT_STATUS = 0x82"
definition EVT_ERROR :: u8 where "EVT_ERROR = 0xFF"

definition build_ack :: "u8 \<Rightarrow> bytes" where
  "build_ack code = (replicate 32 0)[0 := EVT_ACK, 1 := code]"

definition build_error :: "u8 \<Rightarrow> bytes" where
  "build_error code = (replicate 32 0)[0 := EVT_ERROR, 1 := code]"

definition phase_code :: "phase \<Rightarrow> u8" where
  "phase_code p = (case p of Dead \<Rightarrow> 0 | Establish \<Rightarrow> 1 | Auth \<Rightarrow> 2 | Network \<Rightarrow> 3 | Open \<Rightarrow> 4)"

definition put_addr :: "bytes \<Rightarrow> nat \<Rightarrow> addr option \<Rightarrow> bytes option" where
  "put_addr buf at a = (case a of None \<Rightarrow> Some buf | Some a \<Rightarrow> copy_into buf at (octets a))"

definition build_status_event :: "phase \<Rightarrow> ipv4_status option \<Rightarrow> bytes option" where
  "build_status_event phase ipv4 =
     (let buf = (replicate 32 0)[0 := EVT_STATUS, 1 := phase_code phase] in
      case ipv4 of
        None \<Rightarrow> Some buf
      | Some st \<Rightarrow>
          do { buf \<leftarrow> put_addr buf 2 (ip_address st);
               buf \<leftarrow> put_addr buf 6 (ip_peer st);
               buf \<leftarrow> put_addr buf 10 (ip_dns1 st);
               put_addr buf 14 (ip_dns2 st) })"

section \<open>The service\<close>

datatype ppp_action = NoAction | Transmit nat | Received nat nat

text \<open>
  The connection and the kernel. \<open>p_consume\<close>, \<open>p_poll\<close> and \<open>p_send\<close> may write the buffers they are given; a received packet is a range of
  the receive buffer. \<open>k_read\<close> fills a prefix of its buffer.
\<close>

record ('w, 'p) ppp_env =
  p_new :: 'p
  p_open :: "'p \<Rightarrow> bool \<times> 'p"
  p_status :: "'p \<Rightarrow> phase \<times> ipv4_status option"
  p_consume :: "'p \<Rightarrow> bytes \<Rightarrow> bytes \<Rightarrow> nat \<times> bytes \<times> 'p"
  p_poll :: "'p \<Rightarrow> bytes \<Rightarrow> bytes \<Rightarrow> ppp_action \<times> bytes \<times> bytes \<times> 'p"
  p_send :: "'p \<Rightarrow> bytes \<Rightarrow> bytes \<Rightarrow> nat option \<times> bytes \<times> 'p"
  k_open :: "'w \<Rightarrow> nat option \<times> 'w"
  k_close :: "'w \<Rightarrow> nat \<Rightarrow> 'w"
  k_read :: "'w \<Rightarrow> nat \<Rightarrow> bytes \<Rightarrow> nat \<times> bytes \<times> 'w"
  k_write :: "'w \<Rightarrow> nat \<Rightarrow> bytes \<Rightarrow> 'w"
  k_bind :: "'w \<Rightarrow> nat option \<times> 'w"
  k_accept :: "'w \<Rightarrow> nat \<Rightarrow> nat option \<times> 'w"
  k_ipc_send :: "'w \<Rightarrow> nat \<Rightarrow> bytes \<Rightarrow> int \<times> 'w"
  k_ipc_recv :: "'w \<Rightarrow> nat \<Rightarrow> bytes \<Rightarrow> int \<times> bytes \<times> 'w"
  k_ipc_close :: "'w \<Rightarrow> nat \<Rightarrow> 'w"

record ('w, 'p) service =
  sv_world :: 'w
  sv_ppp :: 'p
  sv_clients :: "nat list"
  sv_serial_in :: bytes
  sv_rx :: bytes
  sv_tx :: bytes
  sv_ipc :: bytes
  sv_phase :: phase

datatype ClientReply = Immediate bytes | TransmitReply nat

definition process_client_request :: "('w, 'p) ppp_env \<Rightarrow> bytes \<Rightarrow> bytes \<Rightarrow> 'p \<Rightarrow> (ClientReply \<times> bytes \<times> 'p) option" where
  "process_client_request e req tx p =
     (case req of
        [] \<Rightarrow> Some (Immediate (build_error 1), tx, p)
      | op # payload \<Rightarrow>
          if op = OP_SEND_IPV4
          then (case p_send e p payload tx of
                  (Some len, tx, p) \<Rightarrow> Some (TransmitReply len, tx, p)
                | (None, tx, p) \<Rightarrow> Some (Immediate (build_error 2), tx, p))
          else if op = OP_QUERY_STATUS
          then do { ev \<leftarrow> build_status_event (fst (p_status e p)) (snd (p_status e p)); Some (Immediate ev, tx, p) }
          else Some (Immediate (build_error 3), tx, p))"

text \<open>A message to one client; a client that cannot be reached is closed and dropped.\<close>

definition send_or_close :: "('w, 'p) ppp_env \<Rightarrow> bytes \<Rightarrow> nat \<Rightarrow> 'w \<Rightarrow> (bool \<times> 'w) option" where
  "send_or_close e payload handle w =
     (let (r, w) = k_ipc_send e w handle payload in
      if r < 0 then Some (False, k_ipc_close e w handle) else Some (True, w))"

definition broadcast :: "('w, 'p) ppp_env \<Rightarrow> bytes \<Rightarrow> ('w, 'p) service \<Rightarrow> ('w, 'p) service option" where
  "broadcast e payload s =
     do { (cs, w) \<leftarrow> retain_loop (send_or_close e payload) 0 (sv_clients s) (sv_world s);
          Some (s\<lparr>sv_clients := cs, sv_world := w\<rparr>) }"

definition handle_ppp_actions :: "('w, 'p) ppp_env \<Rightarrow> nat \<Rightarrow> ('w, 'p) service \<Rightarrow> (bool \<times> ('w, 'p) service) option" where
  "handle_ppp_actions e serial_fd s =
     (let (action, tx, rx, p) = p_poll e (sv_ppp s) (sv_tx s) (sv_rx s);
          s = s\<lparr>sv_tx := tx, sv_rx := rx, sv_ppp := p\<rparr> in
      case action of
        NoAction \<Rightarrow> Some (False, s)
      | Transmit len \<Rightarrow>
          do { out \<leftarrow> slice (sv_tx s) 0 len; Some (True, s\<lparr>sv_world := k_write e (sv_world s) serial_fd out\<rparr>) }
      | Received l r \<Rightarrow>
          do { packet \<leftarrow> slice (sv_rx s) l r; s \<leftarrow> broadcast e (EVT_RX_IPV4 # packet) s; Some (True, s) })"

text \<open>
  The bytes of one read: when the protocol takes none, its actions are carried out until there are no more, and the rest is dropped if there
  was none at all.
\<close>

definition drain :: "('w, 'p) ppp_env \<Rightarrow> nat \<Rightarrow> bool \<times> ('w, 'p) service \<Rightarrow> (bool \<times> bool \<times> ('w, 'p) service) option" where
  "drain e serial_fd st =
     do { (more, s) \<leftarrow> handle_ppp_actions e serial_fd (snd st); Some (more, fst st \<or> more, s) }"

definition consume_step :: "('w, 'p) ppp_env \<Rightarrow> nat \<Rightarrow> nat \<Rightarrow> nat \<times> ('w, 'p) service \<Rightarrow> (bool \<times> nat \<times> ('w, 'p) service) option" where
  "consume_step e serial_fd read_len st =
     (let (consumed, s) = st in
      if consumed < read_len
      then do { input \<leftarrow> slice (sv_serial_in s) consumed read_len;
                let (used, rx, p) = p_consume e (sv_ppp s) input (sv_rx s);
                let s = s\<lparr>sv_rx := rx, sv_ppp := p\<rparr>;
                if used = 0
                then do { (progressed, s) \<leftarrow> wait_while (drain e serial_fd) (False, s); Some (progressed, consumed, s) }
                else do { consumed \<leftarrow> checked_add consumed used; Some (True, consumed, s) } }
      else Some (False, consumed, s))"

definition accept_step :: "('w, 'p) ppp_env \<Rightarrow> nat \<Rightarrow> ('w, 'p) service \<Rightarrow> (bool \<times> ('w, 'p) service) option" where
  "accept_step e listener s =
     (case k_accept e (sv_world s) listener of
        (None, w) \<Rightarrow> Some (False, s\<lparr>sv_world := w\<rparr>)
      | (Some handle, w) \<Rightarrow>
          do { status \<leftarrow> build_status_event (fst (p_status e (sv_ppp s))) (snd (p_status e (sv_ppp s)));
               let (_, w) = k_ipc_send e w handle status;
               Some (True, s\<lparr>sv_world := w, sv_clients := sv_clients s @ [handle]\<rparr>) })"

text \<open>One client: a pending request is answered, and a client whose end is closed or that cannot be answered is dropped.\<close>

definition serve_client :: "('w, 'p) ppp_env \<Rightarrow> nat \<Rightarrow> nat \<Rightarrow> ('w, 'p) service \<Rightarrow> (bool \<times> ('w, 'p) service) option" where
  "serve_client e serial_fd handle s =
     (let (recv_len, buf, w) = k_ipc_recv e (sv_world s) handle (sv_ipc s);
          s = s\<lparr>sv_world := w, sv_ipc := buf\<rparr> in
      if recv_len = IPC_EAGAIN then Some (True, s)
      else if recv_len \<le> 0 then Some (False, s\<lparr>sv_world := k_ipc_close e (sv_world s) handle\<rparr>)
      else do { req \<leftarrow> slice (sv_ipc s) 0 (nat recv_len);
                (reply, tx, p) \<leftarrow> process_client_request e req (sv_tx s) (sv_ppp s);
                let s = s\<lparr>sv_tx := tx, sv_ppp := p\<rparr>;
                (msg, s) \<leftarrow> (case reply of
                    Immediate buf \<Rightarrow> Some (buf, s)
                  | TransmitReply len \<Rightarrow>
                      do { out \<leftarrow> slice (sv_tx s) 0 len;
                           Some (build_ack 0, s\<lparr>sv_world := k_write e (sv_world s) serial_fd out\<rparr>) });
                (keep, w) \<leftarrow> send_or_close e msg handle (sv_world s);
                Some (keep, s\<lparr>sv_world := w\<rparr>) })"

text \<open>One round of the main loop.\<close>

definition service_round :: "('w, 'p) ppp_env \<Rightarrow> nat \<Rightarrow> nat \<Rightarrow> ('w, 'p) service \<Rightarrow> ('w, 'p) service option" where
  "service_round e serial_fd listener s =
     do { s \<leftarrow> wait_while (accept_step e listener) s;
          let (read_len, input, w) = k_read e (sv_world s) serial_fd (sv_serial_in s);
          let s = s\<lparr>sv_world := w, sv_serial_in := input\<rparr>;
          (_, s) \<leftarrow> (if read_len \<noteq> 0 then wait_while (consume_step e serial_fd read_len) (0, s) else Some (0, s));
          s \<leftarrow> wait_while (handle_ppp_actions e serial_fd) s;
          let (phase, ipv4) = p_status e (sv_ppp s);
          s \<leftarrow> (if phase \<noteq> sv_phase s
                 then do { event \<leftarrow> build_status_event phase ipv4; broadcast e event (s\<lparr>sv_phase := phase\<rparr>) }
                 else Some s);
          (cs, s) \<leftarrow> retain_loop (serve_client e serial_fd) 0 (sv_clients s) s;
          Some (s\<lparr>sv_clients := cs\<rparr>) }"

text \<open>What precedes the loop: the serial line, the name of the service and the connection, given back in reverse order on a failure.\<close>

definition service_start :: "('w, 'p) ppp_env \<Rightarrow> 'w \<Rightarrow> (nat \<times> nat \<times> ('w, 'p) service) option \<times> 'w" where
  "service_start e w =
     (case k_open e w of
        (None, w) \<Rightarrow> (None, w)
      | (Some serial_fd, w) \<Rightarrow>
          (case k_bind e w of
             (None, w) \<Rightarrow> (None, k_close e w serial_fd)
           | (Some listener, w) \<Rightarrow>
               (let (ok, p) = p_open e (p_new e) in
                if \<not> ok then (None, k_close e (k_ipc_close e w listener) serial_fd)
                else (Some (serial_fd, listener,
                       \<lparr>sv_world = w, sv_ppp = p, sv_clients = [], sv_serial_in = replicate 256 0, sv_rx = replicate 2048 0,
                        sv_tx = replicate 2304 0, sv_ipc = replicate 4096 0, sv_phase = Dead\<rparr>), w))))"

fun service_rounds :: "('w, 'p) ppp_env \<Rightarrow> nat \<Rightarrow> nat \<Rightarrow> nat \<Rightarrow> ('w, 'p) service \<Rightarrow> ('w, 'p) service option" where
  "service_rounds e serial_fd listener 0 s = Some s"
| "service_rounds e serial_fd listener (Suc n) s =
     do { s \<leftarrow> service_round e serial_fd listener s; service_rounds e serial_fd listener n s }"

section \<open>Every client is visited once\<close>

lemma drop_swap_remove: "idx < length cs \<Longrightarrow> drop idx (swap_remove cs idx) = swap_remove (drop idx cs) 0"
  by (simp add: swap_remove_def drop_butlast drop_update_swap)

lemma take_swap_remove:
  assumes "idx < length cs"
  shows "take idx (swap_remove cs idx) = take idx cs"
proof -
  have "idx \<le> length cs - 1" using assms by simp
  then show ?thesis by (simp add: swap_remove_def butlast_conv_take min_absorb1)
qed

lemma mset_swap_remove_first: "mset (swap_remove (c # cs) 0) = mset cs"
  by (cases cs rule: rev_cases) (simp_all add: swap_remove_def butlast_append)

lemma retain_loop_visits:
  "idx \<le> length cs \<Longrightarrow> \<exists>order. mset order = mset (drop idx cs) \<and>
     (case visit_each f order s of
        None \<Rightarrow> retain_loop f idx cs s = None
      | Some (kept, s') \<Rightarrow> \<exists>cs'. retain_loop f idx cs s = Some (cs', s') \<and> mset cs' = mset (take idx cs) + mset kept)"
proof (induction f idx cs s rule: retain_loop.induct)
  case (1 f idx cs s)
  show ?case
  proof (cases "idx < length cs")
    case False
    then have "retain_loop f idx cs s = Some (cs, s)" by (subst retain_loop.simps) simp
    with False show ?thesis by (intro exI [of _ "[]"]) simp
  next
    case True
    then have d: "drop idx cs = cs ! idx # drop (idx + 1) cs" by (simp add: Cons_nth_drop_Suc)
    show ?thesis
    proof (cases "f (cs ! idx) s")
      case None
      then show ?thesis using True d
        by (intro exI [of _ "drop idx cs"]) (simp add: retain_loop.simps [of f idx cs s])
    next
      case (Some r)
      then obtain keep t where f: "f (cs ! idx) s = Some (keep, t)" by (cases r) auto
      show ?thesis
      proof (cases keep)
        case k: True
        have "idx + 1 \<le> length cs" using True by simp
        from 1(1) [OF True f refl k this] obtain order where
          o: "mset order = mset (drop (idx + 1) cs)" "case visit_each f order t of
              None \<Rightarrow> retain_loop f (idx + 1) cs t = None
            | Some (kept, s') \<Rightarrow> \<exists>cs'. retain_loop f (idx + 1) cs t = Some (cs', s') \<and> mset cs' = mset (take (idx + 1) cs) + mset kept" by auto
        have "mset (take (idx + 1) cs) = mset (take idx cs) + {#cs ! idx#}" using True by (simp add: take_Suc_conv_app_nth)
        with o True d f k show ?thesis
          by (intro exI [of _ "cs ! idx # order"]) (auto simp: retain_loop.simps [of f idx cs s] split: option.splits)
      next
        case k: False
        have "idx \<le> length (swap_remove cs idx)" using True by (simp add: swap_remove_def)
        from 1(2) [OF True f refl k this] obtain order where
          o: "mset order = mset (drop idx (swap_remove cs idx))" "case visit_each f order t of
              None \<Rightarrow> retain_loop f idx (swap_remove cs idx) t = None
            | Some (kept, s') \<Rightarrow> \<exists>cs'. retain_loop f idx (swap_remove cs idx) t = Some (cs', s') \<and>
                mset cs' = mset (take idx (swap_remove cs idx)) + mset kept" by auto
        have "mset (drop idx (swap_remove cs idx)) = mset (drop (idx + 1) cs)"
          using True d by (simp add: drop_swap_remove mset_swap_remove_first)
        with o True d f k take_swap_remove [OF True] show ?thesis
          by (intro exI [of _ "cs ! idx # order"]) (auto simp: retain_loop.simps [of f idx cs s] split: option.splits)
      qed
    qed
  qed
qed

lemma visit_each_total: "\<forall>c s. f c s \<noteq> None \<Longrightarrow> visit_each f cs s \<noteq> None"
proof (induction cs arbitrary: s)
  case (Cons c cs)
  then obtain keep t where "f c s = Some (keep, t)" by fastforce
  moreover obtain kept u where "visit_each f cs t = Some (kept, u)" using Cons by fastforce
  ultimately show ?case by simp
qed simp

section \<open>Theorems\<close>


definition addr_bytes :: "addr option \<Rightarrow> bytes" where
  "addr_bytes a = (case a of None \<Rightarrow> [0, 0, 0, 0] | Some a \<Rightarrow> octets a)"

text \<open>
  The monitor reads from a status event what the service put there: the phase and the four addresses, with zeroes for
  an address that is not known and for all of them without a status of the network layer; the phases have different codes.
\<close>

lemma status_event_read:
  "\<exists>m. build_status_event ph ipv4 = Some m \<and> length m = 32 \<and> m ! 0 = EVT_STATUS \<and> inj phase_code \<and>
     handle_status m = Some \<lparr>st_phase = phase_code ph, st_local = addr_bytes (Option.bind ipv4 ip_address), st_peer = addr_bytes (Option.bind ipv4 ip_peer),
       st_dns1 = addr_bytes (Option.bind ipv4 ip_dns1), st_dns2 = addr_bytes (Option.bind ipv4 ip_dns2)\<rparr>"
proof -
  have i: "inj phase_code" by (auto simp: inj_def phase_code_def split: phase.splits)
  have four: "length (octets a) = 4" for a by (simp add: octets_def split: prod.split)
  have len: "length (addr_bytes a) = 4" for a using four by (simp add: addr_bytes_def split: option.split)
  let ?z = "[0, 0, 0, 0] :: bytes" and ?h = "[EVT_STATUS, phase_code ph]"
  have put: "put_addr (xs @ ?z @ ys) n a = Some (xs @ addr_bytes a @ ys)" if "length xs = n" for xs ys n a
    using that four by (cases a) (simp_all add: put_addr_def addr_bytes_def copy_into_def)
  have b: "(replicate 32 0)[0 := EVT_STATUS, 1 := phase_code ph] = ?h @ ?z @ ?z @ ?z @ ?z @ replicate 14 0"
    by (simp add: numeral_eq_Suc)
  show ?thesis
  proof (cases ipv4)
    case None
    then show ?thesis using i
      by (simp add: build_status_event_def b handle_status_def slice_def addr_bytes_def numeral_eq_Suc)
  next
    case (Some st)
    let ?a = "addr_bytes (ip_address st)" and ?p = "addr_bytes (ip_peer st)" and ?d = "addr_bytes (ip_dns1 st)" and ?r = "replicate 14 (0 :: u8)"
    have "put_addr (?h @ ?z @ ?z @ ?z @ ?z @ ?r) 2 (ip_address st) = Some (?h @ ?a @ ?z @ ?z @ ?z @ ?r)"
      "put_addr (?h @ ?a @ ?z @ ?z @ ?z @ ?r) 6 (ip_peer st) = Some (?h @ ?a @ ?p @ ?z @ ?z @ ?r)"
      "put_addr (?h @ ?a @ ?p @ ?z @ ?z @ ?r) 10 (ip_dns1 st) = Some (?h @ ?a @ ?p @ ?d @ ?z @ ?r)"
      "put_addr (?h @ ?a @ ?p @ ?d @ ?z @ ?r) 14 (ip_dns2 st) = Some (?h @ ?a @ ?p @ ?d @ addr_bytes (ip_dns2 st) @ ?r)"
      using put [of ?h 2 "?z @ ?z @ ?z @ ?r"] put [of "?h @ ?a" 6 "?z @ ?z @ ?r"] put [of "?h @ ?a @ ?p" 10 "?z @ ?r"]
        put [of "?h @ ?a @ ?p @ ?d" 14 ?r] len by simp_all
    then have "build_status_event ph ipv4 = Some (?h @ ?a @ ?p @ ?d @ addr_bytes (ip_dns2 st) @ ?r)"
      unfolding build_status_event_def Let_def b using Some by (simp only: option.case bind.bind_lunit)
    then show ?thesis using Some i len by (simp add: handle_status_def slice_def)
  qed
qed

text \<open>The answer that the monitor gives to an echo request is handed by the service to the connection as it is.\<close>

lemma send_ipv4_message: "length r < 4096 \<Longrightarrow> send_ipv4 r = Some (OP_SEND_IPV4 # r)"
  by (simp add: send_ipv4_def copy_into_def slice_def OP_SEND_IPV4_def) (simp add: numeral_eq_Suc)

lemma reply_forwarded:
  "length r < 4096 \<Longrightarrow> \<exists>m. send_ipv4 r = Some m \<and>
     process_client_request e m tx p =
       (case p_send e p r tx of (Some len, tx, p) \<Rightarrow> Some (TransmitReply len, tx, p) | (None, tx, p) \<Rightarrow> Some (Immediate (build_error 2), tx, p))"
  by (simp add: send_ipv4_message process_client_request_def)

end
