(* ===== verification/AppRt.thy ===== *)
theory AppRt
  imports Kernel
begin

text \<open>
  The run-time library of the applications, \<^verbatim>\<open>app-rt/src/lib.rs\<close>: the wrappers of the system calls. A wrapper is an \<^verbatim>\<open>asm!\<close> block
  that loads registers, traps, and reads the registers it declares as outputs; the compiler takes all others to be unchanged. A string or a
  slice is its address and its length. The trap is a parameter of the wrappers; with \<open>kernel_trap\<close> it is the dispatcher
  of \<open>Kernel\<close>. The decoding of directory entries is in \<open>Vfs\<close>; formatting is the standard library.
\<close>

section \<open>Blocks of assembly\<close>

datatype register = RAX | RBX | RCX | RDX | RSI | RBP | RDI | R8 | R9 | R10 | R11 | R12 | R13 | R14 | R15 | RSP

primrec reg :: "register \<Rightarrow> process_context \<Rightarrow> u64" where
"reg RAX c = process_context.rax c"
| "reg RBX c = process_context.rbx c"
| "reg RCX c = process_context.rcx c"
| "reg RDX c = process_context.rdx c"
| "reg RSI c = process_context.rsi c"
| "reg RBP c = process_context.rbp c"
| "reg RDI c = process_context.rdi c"
| "reg R8 c = process_context.r8 c"
| "reg R9 c = process_context.r9 c"
| "reg R10 c = process_context.r10 c"
| "reg R11 c = process_context.r11 c"
| "reg R12 c = process_context.r12 c"
| "reg R13 c = process_context.r13 c"
| "reg R14 c = process_context.r14 c"
| "reg R15 c = process_context.r15 c"
| "reg RSP c = process_context.rsp c"

primrec set_reg :: "register \<Rightarrow> u64 \<Rightarrow> process_context \<Rightarrow> process_context" where
"set_reg RAX v c = c\<lparr>process_context.rax := v\<rparr>"
| "set_reg RBX v c = c\<lparr>process_context.rbx := v\<rparr>"
| "set_reg RCX v c = c\<lparr>process_context.rcx := v\<rparr>"
| "set_reg RDX v c = c\<lparr>process_context.rdx := v\<rparr>"
| "set_reg RSI v c = c\<lparr>process_context.rsi := v\<rparr>"
| "set_reg RBP v c = c\<lparr>process_context.rbp := v\<rparr>"
| "set_reg RDI v c = c\<lparr>process_context.rdi := v\<rparr>"
| "set_reg R8 v c = c\<lparr>process_context.r8 := v\<rparr>"
| "set_reg R9 v c = c\<lparr>process_context.r9 := v\<rparr>"
| "set_reg R10 v c = c\<lparr>process_context.r10 := v\<rparr>"
| "set_reg R11 v c = c\<lparr>process_context.r11 := v\<rparr>"
| "set_reg R12 v c = c\<lparr>process_context.r12 := v\<rparr>"
| "set_reg R13 v c = c\<lparr>process_context.r13 := v\<rparr>"
| "set_reg R14 v c = c\<lparr>process_context.r14 := v\<rparr>"
| "set_reg R15 v c = c\<lparr>process_context.r15 := v\<rparr>"
| "set_reg RSP v c = c\<lparr>process_context.rsp := v\<rparr>"

record asm_block =
  ab_in :: "(register \<times> u64) list"
  ab_out :: "register list"

definition load_inputs :: "asm_block \<Rightarrow> process_context \<Rightarrow> process_context" where
  "load_inputs b c = fold (\<lambda>(r, v). set_reg r v) (ab_in b) c"

definition IPC_CMD_CREATE :: u64 where "IPC_CMD_CREATE = 0"
definition IPC_CMD_SEND :: u64 where "IPC_CMD_SEND = 1"
definition IPC_CMD_RECV :: u64 where "IPC_CMD_RECV = 2"
definition IPC_CMD_CLOSE :: u64 where "IPC_CMD_CLOSE = 3"
definition IPC_CMD_DUP :: u64 where "IPC_CMD_DUP = 4"
definition IPC_CMD_BIND :: u64 where "IPC_CMD_BIND = 5"
definition IPC_CMD_CONNECT :: u64 where "IPC_CMD_CONNECT = 6"
definition IPC_CMD_ACCEPT :: u64 where "IPC_CMD_ACCEPT = 7"

definition asm_test :: "asm_block" where
  "asm_test = \<lparr>ab_in = [(RAX, 0)], ab_out = []\<rparr>"

definition asm_write :: "u64 \<Rightarrow> u64 \<Rightarrow> u64 \<Rightarrow> asm_block" where
  "asm_write fd buf len = \<lparr>ab_in = [(RAX, 1), (RDI, fd), (RSI, buf), (RCX, len)], ab_out = []\<rparr>"

definition asm_fork :: "asm_block" where
  "asm_fork = \<lparr>ab_in = [(RAX, 2)], ab_out = [RCX]\<rparr>"

definition asm_exec :: "u64 \<Rightarrow> u64 \<Rightarrow> asm_block" where
  "asm_exec path len = \<lparr>ab_in = [(RAX, 3), (RDI, path), (RCX, len)], ab_out = []\<rparr>"

definition asm_exit :: "asm_block" where
  "asm_exit = \<lparr>ab_in = [(RAX, 4)], ab_out = []\<rparr>"

definition asm_read :: "asm_block" where
  "asm_read = \<lparr>ab_in = [(RAX, 5)], ab_out = [RCX]\<rparr>"

definition asm_waitpid :: "u64 \<Rightarrow> asm_block" where
  "asm_waitpid pid = \<lparr>ab_in = [(RAX, 8), (RDI, pid)], ab_out = []\<rparr>"

definition asm_getpid :: "asm_block" where
  "asm_getpid = \<lparr>ab_in = [(RAX, 9)], ab_out = [RCX]\<rparr>"

definition asm_getticks :: "asm_block" where
  "asm_getticks = \<lparr>ab_in = [(RAX, 10)], ab_out = [RCX]\<rparr>"

definition asm_info :: "u64 \<Rightarrow> asm_block" where
  "asm_info tp = \<lparr>ab_in = [(RAX, 11), (RDI, tp)], ab_out = [RCX]\<rparr>"

definition asm_open :: "u64 \<Rightarrow> u64 \<Rightarrow> u64 \<Rightarrow> asm_block" where
  "asm_open name len do_create = \<lparr>ab_in = [(RAX, 12), (RDI, name), (RCX, len), (R10, do_create)], ab_out = [RSI]\<rparr>"

definition asm_read2 :: "u64 \<Rightarrow> u64 \<Rightarrow> u64 \<Rightarrow> asm_block" where
  "asm_read2 fd buf len = \<lparr>ab_in = [(RAX, 13), (RSI, fd), (RDI, buf), (RCX, len)], ab_out = []\<rparr>"

definition asm_seek :: "u64 \<Rightarrow> u64 \<Rightarrow> u64 \<Rightarrow> asm_block" where
  "asm_seek fd off origin = \<lparr>ab_in = [(RAX, 14), (RSI, fd), (RDI, origin), (RCX, off)], ab_out = [R10]\<rparr>"

definition asm_close :: "u64 \<Rightarrow> asm_block" where
  "asm_close fd = \<lparr>ab_in = [(RAX, 15), (RSI, fd)], ab_out = []\<rparr>"

definition asm_remove :: "u64 \<Rightarrow> u64 \<Rightarrow> asm_block" where
  "asm_remove name len = \<lparr>ab_in = [(RAX, 16), (RDI, name), (RCX, len)], ab_out = []\<rparr>"

definition asm_mount :: "u64 \<Rightarrow> u64 \<Rightarrow> u64 \<Rightarrow> u64 \<Rightarrow> u64 \<Rightarrow> asm_block" where
  "asm_mount typ disk part mountpoint len = \<lparr>ab_in = [(RAX, 17), (RDI, mountpoint), (RCX, len), (RSI, typ), (RDX, disk), (R9, part)], ab_out = []\<rparr>"

definition asm_opendir :: "u64 \<Rightarrow> u64 \<Rightarrow> asm_block" where
  "asm_opendir path len = \<lparr>ab_in = [(RAX, 18), (RDI, path), (RCX, len)], ab_out = [RSI]\<rparr>"

definition asm_getdents :: "u64 \<Rightarrow> u64 \<Rightarrow> u64 \<Rightarrow> asm_block" where
  "asm_getdents fd ents len = \<lparr>ab_in = [(RAX, 19), (RSI, fd), (RDI, ents), (RCX, len)], ab_out = [R10]\<rparr>"

definition asm_closedir :: "u64 \<Rightarrow> asm_block" where
  "asm_closedir fd = \<lparr>ab_in = [(RAX, 20), (RSI, fd)], ab_out = []\<rparr>"

definition asm_ipc :: "u64 \<Rightarrow> u64 \<Rightarrow> u64 \<Rightarrow> u64 \<Rightarrow> u64 \<Rightarrow> u64 \<Rightarrow> asm_block" where
  "asm_ipc cmd arg0 arg1 arg2 arg3 arg4 = \<lparr>ab_in = [(RAX, 21), (RDI, cmd), (RSI, arg0), (RDX, arg1), (RCX, arg2), (R8, arg3), (R9, arg4)], ab_out = [RAX]\<rparr>"

definition asm_ipc_create :: "asm_block" where
  "asm_ipc_create = \<lparr>ab_in = [(RAX, 21), (RDI, IPC_CMD_CREATE)], ab_out = [RAX, RDX]\<rparr>"

definition asm_read3 :: "u64 \<Rightarrow> u64 \<Rightarrow> u64 \<Rightarrow> asm_block" where
  "asm_read3 fd buf len = \<lparr>ab_in = [(RAX, 22), (RSI, fd), (RDI, buf), (RCX, len)], ab_out = [R10]\<rparr>"

section \<open>The wrappers\<close>

record 'k app =
  ap_regs :: process_context
  ap_mem :: user_mem
  ap_kernel :: 'k

type_synonym 'k trap = "process_context \<Rightarrow> user_mem \<Rightarrow> 'k \<Rightarrow> ('k \<times> user_mem \<times> process_context) option"

definition int80 :: "'k trap \<Rightarrow> asm_block \<Rightarrow> 'k app \<Rightarrow> 'k app option" where
  "int80 trap b a =
     do { (k, mem, c) \<leftarrow> trap (load_inputs b (ap_regs a)) (ap_mem a) (ap_kernel a);
          Some \<lparr>ap_regs = c, ap_mem = mem, ap_kernel = k\<rparr> }"

definition call_out :: "'k trap \<Rightarrow> asm_block \<Rightarrow> register \<Rightarrow> 'k app \<Rightarrow> (u64 \<times> 'k app) option" where
  "call_out trap b r a = do { a \<leftarrow> int80 trap b a; Some (reg r (ap_regs a), a) }"

text \<open>\<^verbatim>\<open>usize::MAX\<close> stands for a failure, and a negative result of an IPC command.\<close>

definition found :: "u64 \<times> 'k app \<Rightarrow> u64 option \<times> 'k app" where
  "found r = (if fst r = - 1 then None else Some (fst r), snd r)"

definition positive :: "int \<times> 'k app \<Rightarrow> u64 option \<times> 'k app" where
  "positive r = (if fst r < 0 then None else Some (word_of_int (fst r)), snd r)"

definition rt_sys_test :: "'k trap \<Rightarrow> 'k app \<Rightarrow> 'k app option" where
  "rt_sys_test trap a = int80 trap asm_test a"

definition rt_sys_write :: "'k trap \<Rightarrow> u64 \<Rightarrow> u64 \<Rightarrow> u64 \<Rightarrow> 'k app \<Rightarrow> 'k app option" where
  "rt_sys_write trap fd buf len a = int80 trap (asm_write fd buf len) a"

definition rt_sys_fork :: "'k trap \<Rightarrow> 'k app \<Rightarrow> (u64 \<times> 'k app) option" where
  "rt_sys_fork trap a = call_out trap asm_fork RCX a"

definition rt_sys_exec :: "'k trap \<Rightarrow> u64 \<Rightarrow> u64 \<Rightarrow> 'k app \<Rightarrow> 'k app option" where
  "rt_sys_exec trap path len a = int80 trap (asm_exec path len) a"

text \<open>\<^verbatim>\<open>sys_exit\<close> does not return; it panics if the trap does.\<close>

definition rt_sys_exit :: "'k trap \<Rightarrow> 'k app \<Rightarrow> unit option" where
  "rt_sys_exit trap a = do { _ \<leftarrow> int80 trap asm_exit a; None }"

definition rt_raw_sys_read :: "'k trap \<Rightarrow> 'k app \<Rightarrow> (u8 \<times> 'k app) option" where
  "rt_raw_sys_read trap a = do { (r, a) \<leftarrow> call_out trap asm_read RCX a; Some (ucast r, a) }"

partial_function (option) rt_sys_read :: "'k trap \<Rightarrow> 'k app \<Rightarrow> (u8 \<times> 'k app) option" where
  "rt_sys_read trap a = do { (ch, a) \<leftarrow> rt_raw_sys_read trap a; if ch = 0xff then rt_sys_read trap a else Some (ch, a) }"

definition rt_sys_waitpid :: "'k trap \<Rightarrow> u64 \<Rightarrow> 'k app \<Rightarrow> 'k app option" where
  "rt_sys_waitpid trap pid a = int80 trap (asm_waitpid pid) a"

definition rt_sys_getpid :: "'k trap \<Rightarrow> 'k app \<Rightarrow> (u64 \<times> 'k app) option" where
  "rt_sys_getpid trap a = call_out trap asm_getpid RCX a"

definition rt_sys_getticks :: "'k trap \<Rightarrow> 'k app \<Rightarrow> (u64 \<times> 'k app) option" where
  "rt_sys_getticks trap a = call_out trap asm_getticks RCX a"

definition rt_sys_info :: "'k trap \<Rightarrow> u64 \<Rightarrow> 'k app \<Rightarrow> (u64 option \<times> 'k app) option" where
  "rt_sys_info trap tp a = map_option found (call_out trap (asm_info tp) RCX a)"

definition rt_sys_open :: "'k trap \<Rightarrow> u64 \<Rightarrow> u64 \<Rightarrow> bool \<Rightarrow> 'k app \<Rightarrow> (u64 option \<times> 'k app) option" where
  "rt_sys_open trap name len do_create a = map_option found (call_out trap (asm_open name len (of_bool do_create)) RSI a)"

definition rt_sys_read2 :: "'k trap \<Rightarrow> u64 \<Rightarrow> u64 \<Rightarrow> u64 \<Rightarrow> 'k app \<Rightarrow> 'k app option" where
  "rt_sys_read2 trap fd buf len a = int80 trap (asm_read2 fd buf len) a"

definition rt_sys_read3 :: "'k trap \<Rightarrow> u64 \<Rightarrow> u64 \<Rightarrow> u64 \<Rightarrow> 'k app \<Rightarrow> (u64 \<times> 'k app) option" where
  "rt_sys_read3 trap fd buf len a = call_out trap (asm_read3 fd buf len) R10 a"

definition rt_sys_seek :: "'k trap \<Rightarrow> u64 \<Rightarrow> u64 \<Rightarrow> u64 \<Rightarrow> 'k app \<Rightarrow> (u64 \<times> 'k app) option" where
  "rt_sys_seek trap fd off origin a = call_out trap (asm_seek fd off origin) R10 a"

definition rt_sys_close :: "'k trap \<Rightarrow> u64 \<Rightarrow> 'k app \<Rightarrow> 'k app option" where
  "rt_sys_close trap fd a = int80 trap (asm_close fd) a"

definition rt_sys_remove :: "'k trap \<Rightarrow> u64 \<Rightarrow> u64 \<Rightarrow> 'k app \<Rightarrow> 'k app option" where
  "rt_sys_remove trap name len a = int80 trap (asm_remove name len) a"

definition rt_sys_mount :: "'k trap \<Rightarrow> u64 \<Rightarrow> u64 \<Rightarrow> u64 \<Rightarrow> u64 \<Rightarrow> u64 \<Rightarrow> 'k app \<Rightarrow> 'k app option" where
  "rt_sys_mount trap typ disk part mountpoint len a = int80 trap (asm_mount typ disk part mountpoint len) a"

definition rt_sys_opendir :: "'k trap \<Rightarrow> u64 \<Rightarrow> u64 \<Rightarrow> 'k app \<Rightarrow> (u64 option \<times> 'k app) option" where
  "rt_sys_opendir trap path len a = map_option found (call_out trap (asm_opendir path len) RSI a)"

definition rt_sys_getdents :: "'k trap \<Rightarrow> u64 \<Rightarrow> u64 \<Rightarrow> u64 \<Rightarrow> 'k app \<Rightarrow> (u64 option \<times> 'k app) option" where
  "rt_sys_getdents trap fd ents len a = map_option found (call_out trap (asm_getdents fd ents len) R10 a)"

definition rt_sys_closedir :: "'k trap \<Rightarrow> u64 \<Rightarrow> 'k app \<Rightarrow> 'k app option" where
  "rt_sys_closedir trap fd a = int80 trap (asm_closedir fd) a"

definition rt_sys_ipc :: "'k trap \<Rightarrow> u64 \<Rightarrow> u64 \<Rightarrow> u64 \<Rightarrow> u64 \<Rightarrow> u64 \<Rightarrow> u64 \<Rightarrow> 'k app \<Rightarrow> (int \<times> 'k app) option" where
  "rt_sys_ipc trap cmd arg0 arg1 arg2 arg3 arg4 a = 
     do { (r, a) \<leftarrow> call_out trap (asm_ipc cmd arg0 arg1 arg2 arg3 arg4) RAX a; Some (sint r, a) }"

definition rt_sys_ipc_create :: "'k trap \<Rightarrow> 'k app \<Rightarrow> ((u64 \<times> u64) option \<times> 'k app) option" where
  "rt_sys_ipc_create trap a =
     do { (left, a) \<leftarrow> call_out trap asm_ipc_create RAX a;
          Some (if sint left < 0 then None else Some (left, reg RDX (ap_regs a)), a) }"

definition rt_sys_ipc_send :: "'k trap \<Rightarrow> u64 \<Rightarrow> u64 \<Rightarrow> u64 \<Rightarrow> 'k app \<Rightarrow> (int \<times> 'k app) option" where
  "rt_sys_ipc_send trap handle buf len a = rt_sys_ipc trap IPC_CMD_SEND handle buf len 0 0 a"

definition rt_sys_ipc_recv :: "'k trap \<Rightarrow> u64 \<Rightarrow> u64 \<Rightarrow> u64 \<Rightarrow> 'k app \<Rightarrow> (int \<times> 'k app) option" where
  "rt_sys_ipc_recv trap handle buf len a = rt_sys_ipc trap IPC_CMD_RECV handle buf len 0 0 a"

definition rt_sys_ipc_close :: "'k trap \<Rightarrow> u64 \<Rightarrow> 'k app \<Rightarrow> (int \<times> 'k app) option" where
  "rt_sys_ipc_close trap handle a = rt_sys_ipc trap IPC_CMD_CLOSE handle 0 0 0 0 a"

definition rt_sys_ipc_dup :: "'k trap \<Rightarrow> u64 \<Rightarrow> 'k app \<Rightarrow> (u64 option \<times> 'k app) option" where
  "rt_sys_ipc_dup trap handle a = map_option positive (rt_sys_ipc trap IPC_CMD_DUP handle 0 0 0 0 a)"

definition rt_sys_ipc_bind :: "'k trap \<Rightarrow> u64 \<Rightarrow> u64 \<Rightarrow> 'k app \<Rightarrow> (u64 option \<times> 'k app) option" where
  "rt_sys_ipc_bind trap name len a = map_option positive (rt_sys_ipc trap IPC_CMD_BIND name len 0 0 0 a)"

definition rt_sys_ipc_connect :: "'k trap \<Rightarrow> u64 \<Rightarrow> u64 \<Rightarrow> 'k app \<Rightarrow> (u64 option \<times> 'k app) option" where
  "rt_sys_ipc_connect trap name len a = map_option positive (rt_sys_ipc trap IPC_CMD_CONNECT name len 0 0 0 a)"

definition rt_sys_ipc_accept :: "'k trap \<Rightarrow> u64 \<Rightarrow> 'k app \<Rightarrow> (u64 option \<times> 'k app) option" where
  "rt_sys_ipc_accept trap handle a = map_option positive (rt_sys_ipc trap IPC_CMD_ACCEPT handle 0 0 0 0 a)"

text \<open>The standard output is descriptor 1, the standard error descriptor 0.\<close>

definition rt_stdout_write :: "'k trap \<Rightarrow> u64 \<Rightarrow> u64 \<Rightarrow> 'k app \<Rightarrow> 'k app option" where
  "rt_stdout_write trap s len a = rt_sys_write trap 1 s len a"

definition rt_stderr_write :: "'k trap \<Rightarrow> u64 \<Rightarrow> u64 \<Rightarrow> 'k app \<Rightarrow> 'k app option" where
  "rt_stderr_write trap s len a = rt_sys_write trap 0 s len a"

section \<open>The registers that a call changes\<close>

text \<open>
  The calls of the library that return to the caller with its own registers: all but \<^verbatim>\<open>exec\<close>, \<^verbatim>\<open>exit\<close> and \<^verbatim>\<open>waitpid\<close>, which load the
  registers of a program or of another task, and \<^verbatim>\<open>mount\<close>.
\<close>

definition library_calls :: "asm_block set" where
  "library_calls = {asm_test, asm_fork, asm_read, asm_getpid, asm_getticks, asm_ipc_create} \<union>
     (\<Union>x y z. {asm_write x y z, asm_info x, asm_open x y z, asm_read2 x y z, asm_seek x y z, asm_close x, asm_remove x y,
       asm_opendir x y, asm_getdents x y z, asm_closedir x, asm_read3 x y z}) \<union>
     (\<Union>cmd\<in>- {IPC_CMD_CREATE}. \<Union>a0 a1 a2 a3 a4. {asm_ipc cmd a0 a1 a2 a3 a4})"

definition kernel_trap :: "('fs, 'w, 'p) kernel_env \<Rightarrow> ('fs, 'w) kernel trap" where
  "kernel_trap e c mem k = do_syscall e k mem c"

definition changes_only :: "register list \<Rightarrow> process_context \<Rightarrow> process_context \<Rightarrow> bool" where
  "changes_only rs c c' \<longleftrightarrow> (\<forall>r. r \<notin> set rs \<longrightarrow> reg r c' = reg r c)"

lemma changes_only_set_reg [simp]: "r \<in> set rs \<Longrightarrow> changes_only rs c (set_reg r v c)"
proof -
  have "reg x (set_reg r v c) = (if x = r then v else reg x c)" for x by (cases x; cases r; simp)
  then show "r \<in> set rs \<Longrightarrow> changes_only rs c (set_reg r v c)" by (auto simp: changes_only_def)
qed

lemma changes_only_refl [simp]: "changes_only rs c c"
  by (simp add: changes_only_def)

lemma changes_only_updates:
  "RCX \<in> set rs \<Longrightarrow> changes_only rs c (c\<lparr>process_context.rcx := v\<rparr>)"
  "RSI \<in> set rs \<Longrightarrow> changes_only rs c (c\<lparr>process_context.rsi := v\<rparr>)"
  "R10 \<in> set rs \<Longrightarrow> changes_only rs c (c\<lparr>process_context.r10 := v\<rparr>)"
  "RCX \<in> set rs \<Longrightarrow> changes_only rs c (c\<lparr>process_context.cs := x, process_context.ss := y, process_context.rcx := v\<rparr>)"
proof -
  have "reg r (c\<lparr>process_context.rcx := v\<rparr>) = (if r = RCX then v else reg r c)" for r by (cases r) simp_all
  moreover have "reg r (c\<lparr>process_context.rsi := v\<rparr>) = (if r = RSI then v else reg r c)" for r by (cases r) simp_all
  moreover have "reg r (c\<lparr>process_context.r10 := v\<rparr>) = (if r = R10 then v else reg r c)" for r by (cases r) simp_all
  moreover have "reg r (c\<lparr>process_context.cs := x, process_context.ss := y, process_context.rcx := v\<rparr>) = (if r = RCX then v else reg r c)" for r
    by (cases r) simp_all
  ultimately show "RCX \<in> set rs \<Longrightarrow> changes_only rs c (c\<lparr>process_context.rcx := v\<rparr>)"
    "RSI \<in> set rs \<Longrightarrow> changes_only rs c (c\<lparr>process_context.rsi := v\<rparr>)"
    "R10 \<in> set rs \<Longrightarrow> changes_only rs c (c\<lparr>process_context.r10 := v\<rparr>)"
    "RCX \<in> set rs \<Longrightarrow> changes_only rs c (c\<lparr>process_context.cs := x, process_context.ss := y, process_context.rcx := v\<rparr>)"
    by (auto simp: changes_only_def)
qed

lemma ipc_syscall_registers:
  assumes "ipc_syscall s mem args = Some (s', mem', a)"
  shows "\<exists>b ret. a = b\<lparr>ipc_args.rax := word_of_int ret\<rparr> \<and> (b = args \<or> unat (ipc_args.rdi args) = 0 \<and> (\<exists>v. b = args\<lparr>ipc_args.rdx := v\<rparr>))"
proof (cases "unat (ipc_args.rdi args) = 0")
  case True
  with assms obtain b ret t where "sys_create s args = Some (t, b, ret)" "a = b\<lparr>ipc_args.rax := word_of_int ret\<rparr>"
    by (auto simp: ipc_syscall_def split: bind_splits)
  moreover from this(1) have "b = args \<or> (\<exists>v. b = args\<lparr>ipc_args.rdx := v\<rparr>)"
    by (auto simp: sys_create_def Let_def split: bind_splits prod.splits option.splits)
  ultimately show ?thesis using True by blast
next
  case False
  then consider "unat (ipc_args.rdi args) = 1" | "unat (ipc_args.rdi args) = 2" | "unat (ipc_args.rdi args) = 3" | "unat (ipc_args.rdi args) = 4"
    | "unat (ipc_args.rdi args) = 5" | "unat (ipc_args.rdi args) = 6" | "unat (ipc_args.rdi args) = 7" | "unat (ipc_args.rdi args) > 7" by linarith
  then have "\<exists>ret. a = args\<lparr>ipc_args.rax := word_of_int ret\<rparr>"
    using assms by cases (auto simp: ipc_syscall_def split: bind_splits)
  then show ?thesis by blast
qed

lemma ipc_registers:
  assumes "sys_ipc k mem args = Some (k', mem', args')"
  shows "changes_only [RAX, RDX] args args'" and "process_context.rdi args \<noteq> IPC_CMD_CREATE \<Longrightarrow> changes_only [RAX] args args'"
proof -
  obtain s a where i: "ipc_syscall (k_ipc k) mem (ipc_args_of args) = Some (s, mem', a)"
    and a': "args' = args\<lparr>process_context.rax := ipc_args.rax a, process_context.rdi := ipc_args.rdi a, process_context.rsi := ipc_args.rsi a,
       process_context.rdx := ipc_args.rdx a, process_context.rcx := ipc_args.rcx a\<rparr>"
    using assms by (auto simp: sys_ipc_def split: bind_splits)
  obtain b ret where e: "a = b\<lparr>ipc_args.rax := word_of_int ret\<rparr>"
    and b: "b = ipc_args_of args \<or> unat (process_context.rdi args) = 0 \<and> (\<exists>v. b = (ipc_args_of args)\<lparr>ipc_args.rdx := v\<rparr>)"
    using ipc_syscall_registers [OF i] by (auto simp: ipc_args_of_def)
  have r: "reg r args' = reg r args" if "r \<notin> {RAX, RDX}" for r using that a' b e by (cases r) (auto simp: ipc_args_of_def)
  then show "changes_only [RAX, RDX] args args'" by (simp add: changes_only_def)
  assume "process_context.rdi args \<noteq> IPC_CMD_CREATE"
  then have "reg RDX args' = reg RDX args" using a' b e by (auto simp: ipc_args_of_def IPC_CMD_CREATE_def unat_eq_0)
  then have "reg x args' = reg x args" if "x \<noteq> RAX" for x using r [of x] that by (cases "x = RDX") simp_all
  then show "changes_only [RAX] args args'" by (simp add: changes_only_def)
qed

lemma call_registers:
  "do_fork e k args = Some (k', args') \<Longrightarrow> changes_only [RCX] args args'"
  "sys_write e k mem args = Some (k', mem', args') \<Longrightarrow> changes_only [] args args'"
  "sys_read e k mem args = Some (k', mem', args') \<Longrightarrow> changes_only [RCX] args args'"
  "sys_info e k args = (k', args') \<Longrightarrow> changes_only [RCX] args args'"
  "sys_open e k mem args = Some (k', args') \<Longrightarrow> changes_only [RSI] args args'"
  "sys_read2 e k mem args = Some (k', mem', args') \<Longrightarrow> changes_only [] args args'"
  "sys_read3 e k mem args = Some (k', mem', args') \<Longrightarrow> changes_only [R10] args args'"
  "sys_seek e k args = Some (k', args') \<Longrightarrow> changes_only [R10] args args'"
  "sys_opendir e k mem args = Some (k', args') \<Longrightarrow> changes_only [RSI] args args'"
  "sys_getdents e k mem args = Some (k', mem', args') \<Longrightarrow> changes_only [R10] args args'"
proof -
  show "do_fork e k args = Some (k', args') \<Longrightarrow> changes_only [RCX] args args'"
    by (auto simp: do_fork_def copy_process_def Let_def changes_only_updates split: bind_splits option.splits prod.splits if_splits)
  show "sys_write e k mem args = Some (k', mem', args') \<Longrightarrow> changes_only [] args args'"
    by (auto simp: sys_write_def Let_def changes_only_updates split: bind_splits option.splits prod.splits if_splits)
  show "sys_read e k mem args = Some (k', mem', args') \<Longrightarrow> changes_only [RCX] args args'"
    by (auto simp: sys_read_def Let_def changes_only_updates split: bind_splits option.splits prod.splits if_splits)
  show "sys_info e k args = (k', args') \<Longrightarrow> changes_only [RCX] args args'"
    by (auto simp: sys_info_def Let_def changes_only_updates split: bind_splits option.splits prod.splits if_splits)
  show "sys_open e k mem args = Some (k', args') \<Longrightarrow> changes_only [RSI] args args'"
    by (auto simp: sys_open_def Let_def changes_only_updates split: bind_splits option.splits prod.splits if_splits)
  show "sys_read2 e k mem args = Some (k', mem', args') \<Longrightarrow> changes_only [] args args'"
    by (auto simp: sys_read2_def Let_def changes_only_updates split: bind_splits option.splits prod.splits if_splits)
  show "sys_read3 e k mem args = Some (k', mem', args') \<Longrightarrow> changes_only [R10] args args'"
    by (auto simp: sys_read3_def Let_def changes_only_updates split: bind_splits option.splits prod.splits if_splits)
  show "sys_seek e k args = Some (k', args') \<Longrightarrow> changes_only [R10] args args'"
    by (auto simp: sys_seek_def Let_def changes_only_updates split: bind_splits option.splits prod.splits if_splits)
  show "sys_opendir e k mem args = Some (k', args') \<Longrightarrow> changes_only [RSI] args args'"
    by (auto simp: sys_opendir_def Let_def changes_only_updates split: bind_splits option.splits prod.splits if_splits)
  show "sys_getdents e k mem args = Some (k', mem', args') \<Longrightarrow> changes_only [R10] args args'"
    by (auto simp: sys_getdents_def Let_def changes_only_updates split: bind_splits option.splits prod.splits if_splits)
qed

text \<open>The registers that a system call may change, by its number and, for IPC, the command.\<close>

definition call_outputs :: "nat \<Rightarrow> u64 \<Rightarrow> register list" where
  "call_outputs n cmd =
     (if n \<in> {2, 5, 9, 10, 11} then [RCX] else if n \<in> {7, 12, 18} then [RSI] else if n \<in> {14, 19, 22} then [R10]
      else if n = 21 then (if cmd = IPC_CMD_CREATE then [RAX, RDX] else [RAX]) else [])"

lemma dispatch_registers:
  assumes s: "do_syscall e k mem args = Some (k', mem', args')" and n: "unat (process_context.rax args) \<notin> {3, 4, 8, 17}"
  shows "changes_only (call_outputs (unat (process_context.rax args)) (process_context.rdi args)) args args'"
proof -
  let ?n = "unat (process_context.rax args)"
  note parts = do_syscall_def with_mem_def keep_args_def call_outputs_def sys_brk_def sys_getpid_def sys_getticks_def
  consider "?n \<in> {2, 5, 9, 10, 11}" | "?n \<in> {7, 12, 18}" | "?n \<in> {14, 19, 22}" | "?n = 21" | "?n \<in> {0, 1, 6, 13, 15, 16, 20}"
    | "?n \<notin> {2, 5, 9, 10, 11} \<union> {7, 12, 18} \<union> {14, 19, 22} \<union> {21} \<union> {0, 1, 6, 13, 15, 16, 20}"
    by blast
  then show ?thesis
  proof cases
    case 1
    then show ?thesis using s
      by (elim insertE) (auto simp: parts changes_only_updates dest: call_registers split: prod.splits)
  next
    case 2
    then show ?thesis using s
      by (elim insertE) (auto simp: parts changes_only_updates Let_def dest: call_registers split: bind_splits)
  next
    case 3
    then show ?thesis using s
      by (elim insertE) (auto simp: parts dest: call_registers)
  next
    case 4
    then show ?thesis using s ipc_registers [of k mem args k' mem' args'] by (simp add: parts)
  next
    case 5
    then show ?thesis using s
      by (elim insertE) (auto simp: parts dest: call_registers)
  next
    case 6
    then show ?thesis using s n by (simp add: parts)
  qed
qed

lemmas asm_defs = asm_test_def asm_write_def asm_fork_def asm_exec_def asm_exit_def asm_read_def asm_waitpid_def asm_getpid_def asm_getticks_def
  asm_info_def asm_open_def asm_read2_def asm_seek_def asm_close_def asm_remove_def asm_mount_def asm_opendir_def asm_getdents_def
  asm_closedir_def asm_ipc_def asm_ipc_create_def asm_read3_def

lemma library_call_number:
  assumes "b \<in> library_calls"
  shows "unat (process_context.rax (load_inputs b c)) \<notin> {3, 4, 8, 17}"
    and "call_outputs (unat (process_context.rax (load_inputs b c))) (process_context.rdi (load_inputs b c)) = ab_out b"
  using assms unfolding library_calls_def
  by (elim UnE UN_E insertE emptyE; simp add: asm_defs load_inputs_def call_outputs_def IPC_CMD_CREATE_def)+

section \<open>Theorems\<close>



text \<open>The wrapper of \<^verbatim>\<open>mount\<close> declares no output, and the kernel returns the result of the call in a register.\<close>

lemma mount_changes_undeclared:
  assumes "kernel_trap e (load_inputs (asm_mount typ disk part mountpoint len) c) mem k = Some (k', mem', c')"
  shows "ab_out (asm_mount typ disk part mountpoint len) = [] \<and> reg R10 c' \<in> {0, - 1}"
  using assms
  by (auto simp: kernel_trap_def do_syscall_def load_inputs_def asm_mount_def sys_mount_def with_mem_def Let_def
      split: option.splits bind_splits prod.splits if_splits)

end
