(* ===== verification/Console.thy ===== *)
theory Console
  imports Vfs Hid
begin

text \<open>
  The console: the serial port (\<^verbatim>\<open>console/serial.rs\<close>), the standard streams and their mode (\<^verbatim>\<open>stdio.rs\<close>, \<^verbatim>\<open>console/mod.rs\<close>,
  \<^verbatim>\<open>cmdline.rs\<close>), the input sink (\<^verbatim>\<open>inputdev.rs\<close>), the speaker (\<^verbatim>\<open>sound/pcspk.rs\<close>) and the device files on top of them
  (\<^verbatim>\<open>vfs/devfs\<close>: \<^verbatim>\<open>stdout\<close>, \<^verbatim>\<open>stderr\<close>, \<^verbatim>\<open>tty\<close>, \<^verbatim>\<open>serial\<close>, \<^verbatim>\<open>cmdline\<close>, \<^verbatim>\<open>pcspk\<close>, \<^verbatim>\<open>power\<close>). The I/O ports, the crate \<^verbatim>\<open>os_terminal\<close> and the
  queues of \<^verbatim>\<open>crossbeam\<close> are parameters. The terminal answers a call with the bytes that it writes to its
  back channel, which go to the echo queue. A wait for the serial port has no bound: \<^term>\<open>None\<close> is a panic or a wait
  without end. The formatting of \<^verbatim>\<open>print!\<close> is the standard library.
\<close>

section \<open>State and parameters\<close>

datatype TerminalInput = InputMove nat nat | InputScroll int | Pressed MouseButtonKind | Released MouseButtonKind

record ('h, 'q) console_env =
  port_in :: "'h \<Rightarrow> nat \<Rightarrow> u8 \<times> 'h"
  port_out :: "'h \<Rightarrow> nat \<Rightarrow> u8 \<Rightarrow> 'h"
  term_process :: "'h \<Rightarrow> bytes \<Rightarrow> bytes \<times> 'h"
  term_keyboard :: "'h \<Rightarrow> u8 \<Rightarrow> bytes \<times> 'h"
  term_mouse :: "'h \<Rightarrow> TerminalInput \<Rightarrow> bytes \<times> 'h"
  q_push :: "'q \<Rightarrow> u8 \<Rightarrow> 'q"
  q_pop :: "'q \<Rightarrow> u8 option \<times> 'q"

record ('h, 'q) console =
  c_hw :: 'h
  ECHO_BUFFER :: 'q
  INPUT_BUFFER :: 'q
  echo_on :: bool
  SERIAL_OK :: bool
  MODE :: u8

definition inb :: "('h, 'q) console_env \<Rightarrow> nat \<Rightarrow> ('h, 'q) console \<Rightarrow> u8 \<times> ('h, 'q) console" where
  "inb e port s = (let (v, h) = port_in e (c_hw s) port in (v, s\<lparr>c_hw := h\<rparr>))"

definition outb :: "('h, 'q) console_env \<Rightarrow> nat \<Rightarrow> u8 \<Rightarrow> ('h, 'q) console \<Rightarrow> ('h, 'q) console" where
  "outb e port v s = s\<lparr>c_hw := port_out e (c_hw s) port v\<rparr>"

definition pty_write :: "('h, 'q) console_env \<Rightarrow> bytes \<times> 'h \<Rightarrow> ('h, 'q) console \<Rightarrow> ('h, 'q) console" where
  "pty_write e r s = s\<lparr>c_hw := snd r, ECHO_BUFFER := fold (\<lambda>b q. q_push e q b) (fst r) (ECHO_BUFFER s)\<rparr>"

definition process :: "('h, 'q) console_env \<Rightarrow> bytes \<Rightarrow> ('h, 'q) console \<Rightarrow> ('h, 'q) console" where
  "process e buf s = pty_write e (term_process e (c_hw s) buf) s"

section \<open>The serial port\<close>

definition PORT :: nat where "PORT = 0x3f8"

definition serial_init :: "('h, 'q) console_env \<Rightarrow> ('h, 'q) console \<Rightarrow> ('h, 'q) console" where
  "serial_init e s =
     (let s = outb e (PORT + 1) 0x00 s;
          s = outb e (PORT + 3) 0x80 s;
          s = outb e PORT 0x01 s;
          s = outb e (PORT + 1) 0x00 s;
          s = outb e (PORT + 3) 0x03 s;
          s = outb e (PORT + 2) 0xC7 s;
          s = outb e (PORT + 4) 0x0B s;
          s = outb e (PORT + 4) 0x1E s;
          s = outb e PORT 0xAE s;
          (v, s) = inb e PORT s in
      if v \<noteq> 0xAE then s else (outb e (PORT + 4) 0x0F s)\<lparr>SERIAL_OK := True\<rparr>)"

definition received :: "('h, 'q) console_env \<Rightarrow> ('h, 'q) console \<Rightarrow> bool \<times> ('h, 'q) console" where
  "received e s = (let (v, s) = inb e (PORT + 5) s in (v AND 1 = 1, s))"

definition serial_read :: "('h, 'q) console_env \<Rightarrow> ('h, 'q) console \<Rightarrow> u8 option \<times> ('h, 'q) console" where
  "serial_read e s =
     (let (r, s) = received e s in
      if r then (let (b, s) = inb e PORT s in (Some b, s)) else (None, s))"

definition is_transmit_empty :: "('h, 'q) console_env \<Rightarrow> ('h, 'q) console \<Rightarrow> bool \<times> ('h, 'q) console" where
  "is_transmit_empty e s = (let (v, s) = inb e (PORT + 5) s in (v AND 0x20 = 0x20, s))"

definition transmit_busy :: "('h, 'q) console_env \<Rightarrow> ('h, 'q) console \<Rightarrow> (bool \<times> ('h, 'q) console) option" where
  "transmit_busy e s = (let (r, s) = is_transmit_empty e s in Some (\<not> r, s))"

definition serial_write :: "('h, 'q) console_env \<Rightarrow> u8 \<Rightarrow> ('h, 'q) console \<Rightarrow> ('h, 'q) console option" where
  "serial_write e data s = do { s \<leftarrow> wait_while (transmit_busy e) s; Some (outb e PORT data s) }"

definition write_bytes :: "('h, 'q) console_env \<Rightarrow> bytes \<Rightarrow> ('h, 'q) console \<Rightarrow> ('h, 'q) console option" where
  "write_bytes e buf s = for_each (serial_write e) buf s"

section \<open>The standard streams\<close>

datatype Mode = NoStdio | SerialOnly | TtyOnly | SerialTty

definition mode_code :: "Mode \<Rightarrow> u8" where
  "mode_code m = (case m of NoStdio \<Rightarrow> 0 | SerialOnly \<Rightarrow> 1 | TtyOnly \<Rightarrow> 2 | SerialTty \<Rightarrow> 3)"

definition parse_mode :: "bytes \<Rightarrow> Mode option" where
  "parse_mode v =
     (if v = ascii ''none'' then Some NoStdio else if v = ascii ''serial'' then Some SerialOnly
      else if v = ascii ''tty'' then Some TtyOnly
      else if v = ascii ''serial+tty'' \<or> v = ascii ''tty+serial'' then Some SerialTty else None)"

text \<open>\<^verbatim>\<open>split_ascii_whitespace\<close>\<close>

definition ascii_whitespace :: "u8 \<Rightarrow> bool" where
  "ascii_whitespace b \<longleftrightarrow> b \<in> {9, 10, 12, 13, 32}"

lemma word_rest_less: "dropWhile P s \<noteq> [] \<Longrightarrow> length (dropWhile (\<lambda>b. \<not> P b) (dropWhile P s)) < length s"
  by (induction s) (auto simp: le_imp_less_Suc length_dropWhile_le)

function split_ascii_whitespace :: "bytes \<Rightarrow> bytes list" where
  "split_ascii_whitespace s =
     (let rest = dropWhile ascii_whitespace s in
      if rest = [] then []
      else takeWhile (\<lambda>b. \<not> ascii_whitespace b) rest # split_ascii_whitespace (dropWhile (\<lambda>b. \<not> ascii_whitespace b) rest))"
  by pat_completeness auto
termination
  by (relation "measure length") (simp, simp only: in_measure word_rest_less not_False_eq_True)

declare split_ascii_whitespace.simps [simp del]

definition has_cmdline_flag :: "bytes \<Rightarrow> bytes \<Rightarrow> bool" where
  "has_cmdline_flag cmdline flag \<longleftrightarrow> (\<exists>arg\<in>set (split_ascii_whitespace cmdline). arg = flag)"

definition stdio_init :: "bytes \<Rightarrow> ('h, 'q) console \<Rightarrow> ('h, 'q) console" where
  "stdio_init cmdline s =
     (let found = List.map_filter (\<lambda>arg. Option.bind (strip_prefix arg (ascii ''stdio='')) parse_mode) (split_ascii_whitespace cmdline) in
      s\<lparr>MODE := mode_code (case found of [] \<Rightarrow> SerialTty | m # _ \<Rightarrow> m)\<rparr>)"

definition stdio_mode :: "('h, 'q) console \<Rightarrow> Mode" where
  "stdio_mode s = (if MODE s = 0 then NoStdio else if MODE s = 1 then SerialOnly else if MODE s = 2 then TtyOnly else SerialTty)"

definition serial_enabled :: "('h, 'q) console \<Rightarrow> bool" where
  "serial_enabled s \<longleftrightarrow> stdio_mode s \<in> {SerialOnly, SerialTty}"

definition tty_enabled :: "('h, 'q) console \<Rightarrow> bool" where
  "tty_enabled s \<longleftrightarrow> stdio_mode s \<in> {TtyOnly, SerialTty}"

definition to_serial :: "('h, 'q) console_env \<Rightarrow> bytes \<Rightarrow> ('h, 'q) console \<Rightarrow> ('h, 'q) console option" where
  "to_serial e buf s = (if serial_enabled s \<and> SERIAL_OK s then write_bytes e buf s else Some s)"

definition write_stdout :: "('h, 'q) console_env \<Rightarrow> bytes \<Rightarrow> ('h, 'q) console \<Rightarrow> ('h, 'q) console option" where
  "write_stdout e buf s = to_serial e buf (if tty_enabled s then process e buf s else s)"

definition write_stderr :: "('h, 'q) console_env \<Rightarrow> bytes \<Rightarrow> ('h, 'q) console \<Rightarrow> ('h, 'q) console option" where
  "write_stderr e buf s =
     to_serial e buf
       (if tty_enabled s
        then process e (27 # ascii ''[0m'') (process e buf (process e (27 # ascii ''[31m'') s))
        else s)"

text \<open>A carriage return from the serial line is a line feed.\<close>

definition read_serial :: "('h, 'q) console_env \<Rightarrow> ('h, 'q) console \<Rightarrow> (u8 option \<times> ('h, 'q) console) option" where
  "read_serial e s =
     (if \<not> SERIAL_OK s then Some (None, s)
      else case serial_read e s of
        (None, s) \<Rightarrow> Some (None, s)
      | (Some b, s) \<Rightarrow>
          (let b = (if b = 13 then 10 else b) in
           if echo_on s
           then do { s \<leftarrow> serial_write e b s; Some (Some b, if tty_enabled s then process e [b] s else s) }
           else Some (Some b, s)))"

definition pop_input :: "('h, 'q) console_env \<Rightarrow> ('h, 'q) console \<Rightarrow> u8 option \<times> ('h, 'q) console" where
  "pop_input e s = (let (r, q) = q_pop e (INPUT_BUFFER s) in (r, s\<lparr>INPUT_BUFFER := q\<rparr>))"

definition read_stdin :: "('h, 'q) console_env \<Rightarrow> ('h, 'q) console \<Rightarrow> (u8 option \<times> ('h, 'q) console) option" where
  "read_stdin e s =
     (case stdio_mode s of
        NoStdio \<Rightarrow> Some (None, s)
      | SerialOnly \<Rightarrow> read_serial e s
      | TtyOnly \<Rightarrow> Some (pop_input e s)
      | SerialTty \<Rightarrow> (case pop_input e s of (Some b, s) \<Rightarrow> Some (Some b, s) | (None, s) \<Rightarrow> read_serial e s))"

section \<open>The input sink\<close>

definition echo_step :: "('h, 'q) console_env \<Rightarrow> bool \<Rightarrow> ('h, 'q) console \<Rightarrow> (bool \<times> ('h, 'q) console) option" where
  "echo_step e echo s =
     (case q_pop e (ECHO_BUFFER s) of
        (None, q) \<Rightarrow> Some (False, s\<lparr>ECHO_BUFFER := q\<rparr>)
      | (Some b, q) \<Rightarrow>
          do { let s = s\<lparr>ECHO_BUFFER := q\<rparr>;
               s \<leftarrow> (if echo then map_option (process e [b]) (to_serial e [b] s) else Some s);
               Some (True, s\<lparr>INPUT_BUFFER := q_push e (INPUT_BUFFER s) b\<rparr>) })"

definition submit_echo :: "('h, 'q) console_env \<Rightarrow> ('h, 'q) console \<Rightarrow> ('h, 'q) console option" where
  "submit_echo e s = wait_while (echo_step e (echo_on s)) s"

definition submit_keyboard_scancode :: "('h, 'q) console_env \<Rightarrow> u8 \<Rightarrow> ('h, 'q) console \<Rightarrow> ('h, 'q) console option" where
  "submit_keyboard_scancode e scancode s =
     (if \<not> tty_enabled s then Some s else submit_echo e (pty_write e (term_keyboard e (c_hw s) scancode) s))"

definition terminal_input :: "MouseEvent \<Rightarrow> TerminalInput" where
  "terminal_input event =
     (case event of
        Move x y \<Rightarrow> InputMove (nat (max x 0)) (nat (max y 0))
      | Scroll lines \<Rightarrow> InputScroll lines
      | Button button down \<Rightarrow> if down then Pressed button else Released button)"

definition submit_mouse_event :: "('h, 'q) console_env \<Rightarrow> MouseEvent \<Rightarrow> ('h, 'q) console \<Rightarrow> ('h, 'q) console option" where
  "submit_mouse_event e event s =
     (if \<not> tty_enabled s then Some s else submit_echo e (pty_write e (term_mouse e (c_hw s) (terminal_input event)) s))"

definition submit_mouse_scroll :: "('h, 'q) console_env \<Rightarrow> int \<Rightarrow> ('h, 'q) console \<Rightarrow> ('h, 'q) console option" where
  "submit_mouse_scroll e lines s = submit_mouse_event e (Scroll lines) s"

section \<open>The PS/2 controller\<close>

datatype ps2_error = PsTimeout | PsTestFailed

type_synonym ('h, 'q, 'a) ps2_op = "('h, 'q) console \<Rightarrow> (ps2_error + 'a) \<times> ('h, 'q) console"

definition ps2_return :: "'a \<Rightarrow> ('h, 'q, 'a) ps2_op" where
  "ps2_return x = (\<lambda>s. (Inr x, s))"

definition ps2_fail :: "ps2_error \<Rightarrow> ('h, 'q, 'a) ps2_op" where
  "ps2_fail err = (\<lambda>s. (Inl err, s))"

definition ps2_then :: "('h, 'q, 'a) ps2_op \<Rightarrow> ('a \<Rightarrow> ('h, 'q, 'b) ps2_op) \<Rightarrow> ('h, 'q, 'b) ps2_op" where
  "ps2_then m f = (\<lambda>s. case m s of (Inl err, s) \<Rightarrow> (Inl err, s) | (Inr x, s) \<Rightarrow> f x s)"

definition ps2_and :: "('h, 'q, 'a) ps2_op \<Rightarrow> ('h, 'q, 'b) ps2_op \<Rightarrow> ('h, 'q, 'b) ps2_op" where
  "ps2_and m n = ps2_then m (\<lambda>_. n)"

text \<open>At most this many looks at the status port.\<close>

definition PS2_POLLS :: nat where "PS2_POLLS = 1000000"

primrec poll_status :: "('h, 'q) console_env \<Rightarrow> (u8 \<Rightarrow> bool) \<Rightarrow> nat \<Rightarrow> ('h, 'q, unit) ps2_op" where
  "poll_status e ready 0 s = (Inl PsTimeout, s)"
| "poll_status e ready (Suc n) s = (let (v, s) = inb e 0x64 s in if ready v then (Inr (), s) else poll_status e ready n s)"

definition wait_write :: "('h, 'q) console_env \<Rightarrow> ('h, 'q, unit) ps2_op" where
  "wait_write e = poll_status e (\<lambda>v. v AND 0x02 = 0) PS2_POLLS"

definition wait_read :: "('h, 'q) console_env \<Rightarrow> ('h, 'q, unit) ps2_op" where
  "wait_read e = poll_status e (\<lambda>v. v AND 0x01 = 1) PS2_POLLS"

definition read_data :: "('h, 'q) console_env \<Rightarrow> ('h, 'q, u8) ps2_op" where
  "read_data e = ps2_and (wait_read e) (\<lambda>s. let (v, s) = inb e 0x60 s in (Inr v, s))"

definition write_command :: "('h, 'q) console_env \<Rightarrow> u8 \<Rightarrow> ('h, 'q, unit) ps2_op" where
  "write_command e cmd = ps2_and (wait_write e) (\<lambda>s. (Inr (), outb e 0x64 cmd s))"

definition write_data :: "('h, 'q) console_env \<Rightarrow> u8 \<Rightarrow> ('h, 'q, unit) ps2_op" where
  "write_data e cmd = ps2_and (wait_write e) (\<lambda>s. (Inr (), outb e 0x60 cmd s))"

primrec flush_loop :: "('h, 'q) console_env \<Rightarrow> nat \<Rightarrow> ('h, 'q) console \<Rightarrow> ('h, 'q) console" where
  "flush_loop e 0 s = s"
| "flush_loop e (Suc n) s = (let (v, s) = inb e 0x64 s in if v AND 0x01 = 0 then s else flush_loop e n (snd (read_data e s)))"

definition flush_output :: "('h, 'q) console_env \<Rightarrow> ('h, 'q, unit) ps2_op" where
  "flush_output e s = (Inr (), flush_loop e 64 s)"

definition read_config :: "('h, 'q) console_env \<Rightarrow> ('h, 'q, u8) ps2_op" where
  "read_config e = ps2_and (write_command e 0x20) (read_data e)"

definition write_config :: "('h, 'q) console_env \<Rightarrow> u8 \<Rightarrow> ('h, 'q, unit) ps2_op" where
  "write_config e config = ps2_and (write_command e 0x60) (write_data e config)"

text \<open>Three attempts; a device asks for another one with \<open>0xfe\<close>.\<close>

primrec send_loop :: "('h, 'q) console_env \<Rightarrow> ('h, 'q, unit) ps2_op \<Rightarrow> nat \<Rightarrow> ('h, 'q, unit) ps2_op" where
  "send_loop e send 0 = ps2_fail PsTimeout"
| "send_loop e send (Suc n) =
     ps2_and send (ps2_then (read_data e) (\<lambda>response.
       if response = 0xfa then ps2_return () else if response \<noteq> 0xfe then ps2_fail PsTestFailed else send_loop e send n))"

definition send_to_port1 :: "('h, 'q) console_env \<Rightarrow> u8 \<Rightarrow> ('h, 'q, unit) ps2_op" where
  "send_to_port1 e cmd = send_loop e (write_data e cmd) 3"

definition send_to_port2 :: "('h, 'q) console_env \<Rightarrow> u8 \<Rightarrow> ('h, 'q, unit) ps2_op" where
  "send_to_port2 e cmd = send_loop e (ps2_and (write_command e 0xd4) (write_data e cmd)) 3"

definition expect_data :: "('h, 'q) console_env \<Rightarrow> u8 \<Rightarrow> ('h, 'q, unit) ps2_op" where
  "expect_data e v = ps2_then (read_data e) (\<lambda>response. if response \<noteq> v then ps2_fail PsTestFailed else ps2_return ())"

definition init_controller :: "('h, 'q) console_env \<Rightarrow> ('h, 'q, unit) ps2_op" where
  "init_controller e =
     ps2_and (write_command e 0xad) (ps2_and (write_command e 0xa7) (ps2_and (flush_output e)
       (ps2_then (read_config e) (\<lambda>config0. let config = config0 AND 0xFC in
         ps2_and (write_config e config) (ps2_and (write_command e 0xaa) (ps2_and (expect_data e 0x55)
           (ps2_and (write_config e config) (ps2_and (write_command e 0xa8)
             (ps2_then (read_config e) (\<lambda>config2.
               if config2 AND 0x20 \<noteq> 0 then ps2_fail PsTestFailed
               else ps2_and (write_command e 0xa7) (ps2_and (write_command e 0xab) (ps2_and (expect_data e 0)
                 (ps2_and (write_command e 0xa9) (expect_data e 0))))))))))))))"

definition init_keyboard :: "('h, 'q) console_env \<Rightarrow> ('h, 'q, unit) ps2_op" where
  "init_keyboard e =
     ps2_and (write_command e 0xae) (ps2_and (flush_output e) (ps2_and (send_to_port1 e 0xff) (ps2_and (expect_data e 0xaa)
       (ps2_and (send_to_port1 e 0xf4)
         (ps2_then (read_config e) (\<lambda>config. write_config e ((config OR 1) AND 0xEF)))))))"

definition init_mouse :: "('h, 'q) console_env \<Rightarrow> ('h, 'q, unit) ps2_op" where
  "init_mouse e =
     ps2_and (write_command e 0xa8) (ps2_and (flush_output e) (ps2_and (send_to_port2 e 0xff) (ps2_and (expect_data e 0xaa)
       (ps2_and (expect_data e 0) (ps2_and (send_to_port2 e 0xf4) (ps2_and (send_to_port2 e 0xf3) (ps2_and (send_to_port2 e 10)
         (ps2_then (read_config e) (\<lambda>config. write_config e ((config OR 3) AND 0xCF))))))))))"

text \<open>A device that fails is reported and does not stop the other one.\<close>

definition inputdev_init :: "('h, 'q) console_env \<Rightarrow> ('h, 'q) console \<Rightarrow> ('h, 'q) console" where
  "inputdev_init e s =
     (case init_controller e s of
        (Inl _, s) \<Rightarrow> s
      | (Inr _, s) \<Rightarrow> snd (init_mouse e (snd (init_keyboard e s))))"

section \<open>Mouse packets\<close>

record ps2 =
  CURRENT_PACKET :: u8
  FLAGS :: "16 word"
  X :: int

definition ps2_reset :: ps2 where
  "ps2_reset = \<lparr>CURRENT_PACKET = 0, FLAGS = 0, X = 0\<rparr>"

definition ps2_middle_button :: "u8 \<Rightarrow> bool" where
  "ps2_middle_button flags \<longleftrightarrow> flags AND 0x02 \<noteq> 0"

definition ps2_scroll_delta :: "u8 \<Rightarrow> u8 \<Rightarrow> int" where
  "ps2_scroll_delta flags packet = uint packet - uint (push_bit 3 (ucast flags :: 16 word) AND 0x100)"

definition is_break_scancode :: "u8 \<Rightarrow> bool" where
  "is_break_scancode scancode \<longleftrightarrow> scancode AND 0x80 \<noteq> 0"

definition handle_mouse :: "('h, 'q) console_env \<Rightarrow> u8 \<Rightarrow> ps2 \<times> ('h, 'q) console \<Rightarrow> (ps2 \<times> ('h, 'q) console) option" where
  "handle_mouse e packet st =
     (let (p, s) = st in
      if CURRENT_PACKET p = 0
      then Some (if drop_bit 3 packet AND 1 = 1 then p\<lparr>FLAGS := ucast packet, CURRENT_PACKET := 1\<rparr> else p, s)
      else if CURRENT_PACKET p = 1
      then Some (p\<lparr>X := uint packet - uint (push_bit 4 (FLAGS p) AND 0x100), CURRENT_PACKET := 2\<rparr>, s)
      else if CURRENT_PACKET p = 2
      then do { let flags = ucast (FLAGS p);
                s \<leftarrow> (if ps2_middle_button flags then submit_mouse_scroll e (ps2_scroll_delta flags packet) s else Some s);
                Some (p\<lparr>CURRENT_PACKET := 0\<rparr>, s) }
      else None)"

definition handle_status_data :: "('h, 'q) console_env \<Rightarrow> u8 \<Rightarrow> u8 \<Rightarrow> ps2 \<times> ('h, 'q) console \<Rightarrow> (ps2 \<times> ('h, 'q) console) option" where
  "handle_status_data e status data st =
     (if status AND 0x20 = 0x20 then handle_mouse e data st
      else do { s \<leftarrow> submit_keyboard_scancode e data (snd st); Some (fst st, s) })"

definition interrupt_step :: "('h, 'q) console_env \<Rightarrow> ps2 \<times> ('h, 'q) console \<Rightarrow> (bool \<times> ps2 \<times> ('h, 'q) console) option" where
  "interrupt_step e st =
     (let (p, s) = st; (status, s) = inb e 0x64 s in
      if status AND 1 = 0 then Some (False, p, s)
      else (let (data, s) = inb e 0x60 s in do { st \<leftarrow> handle_status_data e status data (p, s); Some (True, st) }))"

definition ps2_interrupt_handler :: "('h, 'q) console_env \<Rightarrow> ps2 \<times> ('h, 'q) console \<Rightarrow> (ps2 \<times> ('h, 'q) console) option" where
  "ps2_interrupt_handler e st = wait_while (interrupt_step e) st"

definition poll_once :: "('h, 'q) console_env \<Rightarrow> ps2 \<times> ('h, 'q) console \<Rightarrow> (ps2 \<times> ('h, 'q) console) option" where
  "poll_once e st =
     (let (p, s) = st; (status, s) = inb e 0x64 s in
      if status AND 1 = 1 then (let (data, s) = inb e 0x60 s in handle_status_data e status data (p, s)) else Some (p, s))"

section \<open>The speaker\<close>

definition play_sound :: "('h, 'q) console_env \<Rightarrow> u32 \<Rightarrow> ('h, 'q) console \<Rightarrow> ('h, 'q) console option" where
  "play_sound e freq s =
     (if freq = 0 then None
      else (let d = 1193180 div freq;
                s = outb e 0x43 0xb6 s;
                s = outb e 0x42 (ucast (d AND 0xff)) s;
                s = outb e 0x42 (ucast (drop_bit 8 d AND 0xff)) s;
                (tmp, s) = inb e 0x61 s in
            Some (if tmp \<noteq> tmp OR 3 then outb e 0x61 (tmp OR 3) s else s)))"

definition stop_sound :: "('h, 'q) console_env \<Rightarrow> ('h, 'q) console \<Rightarrow> ('h, 'q) console" where
  "stop_sound e s = (let (tmp, s) = inb e 0x61 s in outb e 0x61 (tmp AND 0xfc) s)"

section \<open>Device files\<close>

text \<open>\<^verbatim>\<open>str::trim\<close> on UTF-8: the white space of Unicode, by its encodings; the second function works from the end.\<close>

fun trim_start :: "bytes \<Rightarrow> bytes" where
  "trim_start (a # b # c # s) =
     (if a \<in> {9, 10, 11, 12, 13, 32} then trim_start (b # c # s)
      else if a = 0xC2 \<and> b \<in> {0x85, 0xA0} then trim_start (c # s)
      else if a = 0xE1 \<and> b = 0x9A \<and> c = 0x80 \<or> a = 0xE2 \<and> b = 0x80 \<and> (0x80 \<le> c \<and> c \<le> 0x8A \<or> c \<in> {0xA8, 0xA9, 0xAF}) \<or>
        a = 0xE2 \<and> b = 0x81 \<and> c = 0x9F \<or> a = 0xE3 \<and> b = 0x80 \<and> c = 0x80 then trim_start s
      else a # b # c # s)"
| "trim_start [a, b] =
     (if a \<in> {9, 10, 11, 12, 13, 32} then trim_start [b] else if a = 0xC2 \<and> b \<in> {0x85, 0xA0} then [] else [a, b])"
| "trim_start [a] = (if a \<in> {9, 10, 11, 12, 13, 32} then [] else [a])"
| "trim_start [] = []"

fun trim_rev :: "bytes \<Rightarrow> bytes" where
  "trim_rev (c # b # a # s) =
     (if c \<in> {9, 10, 11, 12, 13, 32} then trim_rev (b # a # s)
      else if b = 0xC2 \<and> c \<in> {0x85, 0xA0} then trim_rev (a # s)
      else if a = 0xE1 \<and> b = 0x9A \<and> c = 0x80 \<or> a = 0xE2 \<and> b = 0x80 \<and> (0x80 \<le> c \<and> c \<le> 0x8A \<or> c \<in> {0xA8, 0xA9, 0xAF}) \<or>
        a = 0xE2 \<and> b = 0x81 \<and> c = 0x9F \<or> a = 0xE3 \<and> b = 0x80 \<and> c = 0x80 then trim_rev s
      else c # b # a # s)"
| "trim_rev [c, b] =
     (if c \<in> {9, 10, 11, 12, 13, 32} then trim_rev [b] else if b = 0xC2 \<and> c \<in> {0x85, 0xA0} then [] else [c, b])"
| "trim_rev [c] = (if c \<in> {9, 10, 11, 12, 13, 32} then [] else [c])"
| "trim_rev [] = []"

definition trim :: "bytes \<Rightarrow> bytes" where
  "trim s = rev (trim_rev (rev (trim_start s)))"

text \<open>\<^verbatim>\<open>parse\<close> to a \<^verbatim>\<open>u32\<close> fails for the values beyond its range.\<close>

definition parse_u32 :: "bytes \<Rightarrow> u32 option" where
  "parse_u32 s = (case parse_usize s of None \<Rightarrow> None | Some n \<Rightarrow> if n < 2 ^ 32 then Some (of_nat n) else None)"

definition stdout_write :: "('h, 'q) console_env \<Rightarrow> bytes \<Rightarrow> ('h, 'q) console \<Rightarrow> (nat \<times> ('h, 'q) console) option" where
  "stdout_write e buf s = do { s \<leftarrow> write_stdout e buf s; Some (length buf, s) }"

definition stderr_write :: "('h, 'q) console_env \<Rightarrow> bytes \<Rightarrow> ('h, 'q) console \<Rightarrow> (nat \<times> ('h, 'q) console) option" where
  "stderr_write e buf s = do { s \<leftarrow> write_stderr e buf s; Some (length buf, s) }"

text \<open>The loops that fill a buffer of a given length until the source is empty.\<close>

primrec fill_buffer :: "('s \<Rightarrow> u8 option \<times> 's) \<Rightarrow> nat \<Rightarrow> 's \<Rightarrow> bytes \<times> 's" where
  "fill_buffer next 0 s = ([], s)"
| "fill_buffer next (Suc n) s =
     (case next s of (None, s) \<Rightarrow> ([], s) | (Some b, s) \<Rightarrow> (case fill_buffer next n s of (bs, s) \<Rightarrow> (b # bs, s)))"

definition tty_read :: "('h, 'q) console_env \<Rightarrow> nat \<Rightarrow> ('h, 'q) console \<Rightarrow> bytes \<times> ('h, 'q) console" where
  "tty_read e n s = fill_buffer (pop_input e) n s"

definition tty_write :: "('h, 'q) console_env \<Rightarrow> bytes \<Rightarrow> ('h, 'q) console \<Rightarrow> nat \<times> ('h, 'q) console" where
  "tty_write e buf s = (length buf, process e buf s)"

definition serial_file_read :: "('h, 'q) console_env \<Rightarrow> nat \<Rightarrow> ('h, 'q) console \<Rightarrow> bytes \<times> ('h, 'q) console" where
  "serial_file_read e n s = (if \<not> SERIAL_OK s then ([], s) else fill_buffer (serial_read e) n s)"

definition serial_file_write :: "('h, 'q) console_env \<Rightarrow> bytes \<Rightarrow> ('h, 'q) console \<Rightarrow> (nat \<times> ('h, 'q) console) option" where
  "serial_file_write e buf s =
     (if \<not> SERIAL_OK s then Some (length buf, s) else do { s \<leftarrow> write_bytes e buf s; Some (length buf, s) })"

text \<open>The command line as a file: the argument \<open>pos\<close> is the position of the open file.\<close>

definition cmdline_read :: "bytes \<Rightarrow> nat \<Rightarrow> nat \<Rightarrow> bytes \<times> nat" where
  "cmdline_read cmdline n pos =
     (if length cmdline \<le> pos then ([], pos)
      else let len = min n (length cmdline - pos) in (take len (drop pos cmdline), pos + len))"

definition cmdline_seek :: "bytes \<Rightarrow> SeekFrom \<Rightarrow> nat \<Rightarrow> nat" where
  "cmdline_seek cmdline frm pos =
     (let len = length cmdline in
      case frm of
        Start p \<Rightarrow> min p len
      | End off \<Rightarrow> min (saturating_add_signed len off) len
      | Current off \<Rightarrow> min (saturating_add_signed pos off) len)"

definition pcspk_write :: "('h, 'q) console_env \<Rightarrow> bytes \<Rightarrow> ('h, 'q) console \<Rightarrow> (nat \<times> ('h, 'q) console) option" where
  "pcspk_write e buf s =
     (if utf8_valid buf
      then do { s \<leftarrow> (if trim buf = ascii ''stop'' then Some (stop_sound e s)
                     else case parse_u32 (trim buf) of None \<Rightarrow> Some s | Some freq \<Rightarrow> play_sound e freq s);
                Some (length buf, s) }
      else Some (0, s))"

text \<open>Switching the machine off or on again does not return.\<close>

datatype power_action = PowerOff | Reboot

definition power_write :: "bytes \<Rightarrow> power_action + nat" where
  "power_write buf =
     (if utf8_valid buf
      then (if trim buf = ascii ''poweroff'' then Inl PowerOff
            else if trim buf = ascii ''reboot'' then Inl Reboot else Inr (length buf))
      else Inr 0)"

section \<open>The stream of mouse packets\<close>

text \<open>
  A packet starts with a byte whose bit 3 is set; other bytes are skipped until there is one. The middle byte is not used. A packet with the
  button bit scrolls by the last byte, with bit 5 of the first one as its sign.
\<close>

fun mouse_scrolls :: "bytes \<Rightarrow> int list" where
  "mouse_scrolls (f # bs) =
     (if \<not> bit f 3 then mouse_scrolls bs
      else case bs of
        x # y # rest \<Rightarrow> (if bit f 1 then [uint y - (if bit f 5 then 256 else 0)] else []) @ mouse_scrolls rest
      | _ \<Rightarrow> [])"
| "mouse_scrolls [] = []"

lemma sync_bit: "drop_bit 3 f AND 1 = (1 :: u8) \<longleftrightarrow> bit f 3"
  by (simp add: and_one_eq bit_iff_odd_drop_bit odd_iff_mod_2_eq_one)

lemma button_bit: "f AND 0x02 \<noteq> (0 :: u8) \<longleftrightarrow> bit f 1"
  using single_bit [of f 1] by simp

lemma sign_bit: "uint (push_bit 3 (ucast (f :: u8) :: 16 word) AND 0x100) = (if bit f 5 then 256 else 0)"
proof -
  have b: "bit (256 :: 16 word) n \<longleftrightarrow> n = 8" for n
    using bit_exp_iff [where 'a = "16 word", of 8 n] by auto
  have "push_bit 3 (ucast f :: 16 word) AND 256 = (if bit f 5 then 256 else 0)"
  proof (rule bit_word_eqI)
    fix n
    assume "n < LENGTH(16)"
    then show "bit (push_bit 3 (ucast f :: 16 word) AND 256) n = bit (if bit f 5 then 256 else 0 :: 16 word) n"
      using b [of n] by (cases "n = 8") (simp_all add: bit_simps)
  qed
  then show ?thesis by simp
qed

lemma ucast_back: "ucast (ucast (f :: u8) :: 16 word) = f"
  by (rule bit_word_eqI) (simp add: bit_simps)

lemma mouse_stream:
  "CURRENT_PACKET p = 0 \<Longrightarrow> map_option snd (for_each (handle_mouse e) bs (p, s)) = for_each (submit_mouse_scroll e) (mouse_scrolls bs) s"
proof (induction bs arbitrary: p s rule: mouse_scrolls.induct)
  case (1 f bs)
  show ?case
  proof (cases "bit f 3")
    case False
    with 1 show ?thesis by (simp add: handle_mouse_def sync_bit)
  next
    case True
    show ?thesis
    proof (cases "\<exists>x y rest. bs = x # y # rest")
      case True
      then obtain x y rest where bs: "bs = x # y # rest" by blast
      show ?thesis
      proof (cases "bit f 1")
        case b: True
        then show ?thesis using 1(2) [of x "y # rest" y rest] 1(3) \<open>bit f 3\<close> bs
          by (cases "submit_mouse_scroll e (uint y - (if bit f 5 then 256 else 0)) s")
            (simp_all add: handle_mouse_def sync_bit ps2_middle_button_def button_bit ucast_back ps2_scroll_delta_def sign_bit)
      next
        case b: False
        then show ?thesis using 1(2) [of x "y # rest" y rest] 1(3) \<open>bit f 3\<close> bs
          by (simp add: handle_mouse_def sync_bit ps2_middle_button_def button_bit ucast_back)
      qed
    next
      case short: False
      then consider "bs = []" | x where "bs = [x]" by (metis neq_Nil_conv)
      then show ?thesis using 1(3) True by cases (simp_all add: handle_mouse_def sync_bit)
    qed
  qed
qed simp

section \<open>Keys and their readers\<close>

text \<open>
  A bounded queue of bytes that drops the oldest byte when it is full, and a terminal and a line that do not hold the echo up: processing one byte has
  no answer, and the transmitter is ready when it is asked.
\<close>

definition QUEUE_CAPACITY :: nat where "QUEUE_CAPACITY = 128"

definition newest :: "bytes \<Rightarrow> bytes" where
  "newest bs = drop (length bs - QUEUE_CAPACITY) bs"

lemma newest_append: "newest (newest xs @ ys) = newest (xs @ ys)"
  by (cases "length xs \<le> QUEUE_CAPACITY") (simp_all add: newest_def add.commute)

locale byte_queue =
  fixes push :: "'q \<Rightarrow> u8 \<Rightarrow> 'q" and pop :: "'q \<Rightarrow> u8 option \<times> 'q" and contents :: "'q \<Rightarrow> bytes"
  assumes push: "contents (push q b) = newest (contents q @ [b])"
    and pop_empty: "contents q = [] \<Longrightarrow> fst (pop q) = None \<and> contents (snd (pop q)) = []"
    and pop_first: "contents q = b # bs \<Longrightarrow> fst (pop q) = Some b \<and> contents (snd (pop q)) = bs"
    and bounded: "length (contents q) \<le> QUEUE_CAPACITY"
begin

lemma push_all: "contents (fold (\<lambda>b q. push q b) bs q) = newest (contents q @ bs)"
proof (induction bs arbitrary: q)
  case Nil
  then show ?case using bounded [of q] by (simp add: newest_def)
next
  case (Cons b bs)
  have "newest (newest (contents q @ [b]) @ bs) = newest (contents q @ b # bs)"
    by (simp add: newest_append)
  with Cons show ?case by (simp add: push)
qed

end

locale echoing_console = byte_queue "q_push e" "q_pop e" contents
  for e :: "('h, 'q) console_env" and contents :: "'q \<Rightarrow> bytes" +
  assumes silent: "fst (term_process e h [b]) = []"
    and ready: "fst (port_in e h (PORT + 5)) AND 0x20 = 0x20"
begin

lemma serial_write_ready: "\<exists>h. serial_write e b s = Some (s\<lparr>c_hw := h\<rparr>)"
proof -
  obtain v h where p: "port_in e (c_hw s) (PORT + 5) = (v, h)" by fastforce
  with ready [of "c_hw s"] have "v AND 0x20 = 0x20" by simp
  with p have "transmit_busy e s = Some (False, s\<lparr>c_hw := h\<rparr>)" by (simp add: transmit_busy_def is_transmit_empty_def inb_def)
  then have "serial_write e b s = Some (outb e PORT b (s\<lparr>c_hw := h\<rparr>))"
    by (simp add: serial_write_def wait_while.simps [of "transmit_busy e" s])
  then show ?thesis by (auto simp: outb_def)
qed

lemma echoed: "\<exists>h. map_option (process e [b]) (to_serial e [b] s) = Some (s\<lparr>c_hw := h\<rparr>)"
proof -
  have p: "\<exists>h. process e [b] t = t\<lparr>c_hw := h\<rparr>" for t using silent [of "c_hw t" b] by (auto simp: process_def pty_write_def)
  obtain h where "to_serial e [b] s = Some (s\<lparr>c_hw := h\<rparr>)"
    using serial_write_ready [of b s] by (cases "serial_enabled s \<and> SERIAL_OK s") (auto simp: to_serial_def write_bytes_def intro: that [of "c_hw s"])
  then show ?thesis using p [of "s\<lparr>c_hw := h\<rparr>"] by auto
qed

lemma echo_loop:
  "contents (ECHO_BUFFER s) = bs \<Longrightarrow> \<exists>s'. wait_while (echo_step e echo) s = Some s' \<and> contents (ECHO_BUFFER s') = [] \<and>
     contents (INPUT_BUFFER s') = newest (contents (INPUT_BUFFER s) @ bs)"
proof (induction bs arbitrary: s)
  case Nil
  from pop_empty [OF Nil] have "fst (q_pop e (ECHO_BUFFER s)) = None" "contents (snd (q_pop e (ECHO_BUFFER s))) = []" by blast+
  then show ?case using bounded [of "INPUT_BUFFER s"]
    by (subst wait_while.simps) (auto simp: echo_step_def newest_def split: prod.split)
next
  case (Cons b bs)
  from pop_first [OF Cons.prems] obtain q where p: "q_pop e (ECHO_BUFFER s) = (Some b, q)" "contents q = bs" by (metis prod.collapse)
  let ?s = "s\<lparr>ECHO_BUFFER := q\<rparr>"
  obtain h where h: "(if echo then map_option (process e [b]) (to_serial e [b] ?s) else Some ?s) = Some (?s\<lparr>c_hw := h\<rparr>)"
    using echoed [of b ?s] by (cases echo) (auto intro: that [of "c_hw ?s"])
  let ?t = "?s\<lparr>c_hw := h, INPUT_BUFFER := q_push e (INPUT_BUFFER s) b\<rparr>"
  have "echo_step e echo s = Some (True, ?t)" using p(1) h by (simp add: echo_step_def Let_def)
  moreover have "newest (newest (contents (INPUT_BUFFER s) @ [b]) @ bs) = newest (contents (INPUT_BUFFER s) @ b # bs)"
    by (simp add: newest_append)
  ultimately show ?case using Cons.IH [of ?t] p(2) push [of "INPUT_BUFFER s" b]
    by (subst wait_while.simps) simp
qed

lemma key_queued:
  assumes "tty_enabled s" and "contents (ECHO_BUFFER s) = []"
  shows "\<exists>s'. submit_keyboard_scancode e sc s = Some s' \<and> contents (ECHO_BUFFER s') = [] \<and>
    contents (INPUT_BUFFER s') = newest (contents (INPUT_BUFFER s) @ newest (fst (term_keyboard e (c_hw s) sc)))"
  using assms echo_loop [of "pty_write e (term_keyboard e (c_hw s) sc) s"] push_all [of "fst (term_keyboard e (c_hw s) sc)" "ECHO_BUFFER s"]
  by (simp add: submit_keyboard_scancode_def submit_echo_def pty_write_def)

lemma reads_queued: "fst (tty_read e n s) = take n (contents (INPUT_BUFFER s))"
proof (induction n arbitrary: s)
  case (Suc n)
  show ?case
  proof (cases "contents (INPUT_BUFFER s)")
    case Nil
    from pop_empty [OF this] Nil show ?thesis by (auto simp: tty_read_def pop_input_def split: prod.split)
  next
    case (Cons b bs)
    from pop_first [OF this] Cons Suc [of "s\<lparr>INPUT_BUFFER := snd (q_pop e (INPUT_BUFFER s))\<rparr>"] show ?thesis
      by (auto simp: tty_read_def pop_input_def split: prod.split)
  qed
qed (simp add: tty_read_def)

end

section \<open>A console\<close>

text \<open>Queues as lists of which the newest bytes count, a terminal that gives the code of a key, and a line that is always ready.\<close>

definition list_push :: "bytes \<Rightarrow> u8 \<Rightarrow> bytes" where
  "list_push q b = newest q @ [b]"

definition list_pop :: "bytes \<Rightarrow> u8 option \<times> bytes" where
  "list_pop q = (case newest q of [] \<Rightarrow> (None, []) | b # bs \<Rightarrow> (Some b, bs))"

lemma length_newest: "length (newest q) \<le> QUEUE_CAPACITY"
  by (simp add: newest_def)

lemma newest_id: "length q \<le> QUEUE_CAPACITY \<Longrightarrow> newest q = q"
  by (simp add: newest_def)

interpretation list_queue: byte_queue list_push list_pop newest
proof
  fix q b bs
  show "newest (list_push q b) = newest (newest q @ [b])" by (simp add: list_push_def)
  show "newest q = [] \<Longrightarrow> fst (list_pop q) = None \<and> newest (snd (list_pop q)) = []" by (simp add: list_pop_def newest_def)
  show "newest q = b # bs \<Longrightarrow> fst (list_pop q) = Some b \<and> newest (snd (list_pop q)) = bs"
    using length_newest [of q] by (simp add: list_pop_def newest_id)
qed (rule length_newest)

definition sample_console_env :: "(bytes, bytes) console_env" where
  "sample_console_env =
     \<lparr>port_in = (\<lambda>h p. (0x20, h)), port_out = (\<lambda>h p v. h @ [v]), term_process = (\<lambda>h bs. ([], h)),
      term_keyboard = (\<lambda>h sc. (if sc = 0x1e then [97] else if sc = 0x1c then [13] else [], h)), term_mouse = (\<lambda>h i. ([], h)),
      q_push = list_push, q_pop = list_pop\<rparr>"

interpretation sample_console: echoing_console sample_console_env newest
  by (simp add: echoing_console_def echoing_console_axioms_def sample_console_env_def list_queue.byte_queue_axioms)

section \<open>Theorems\<close>

text \<open>
  Property C26 (mouse packets). Whatever bytes the mouse sends, the handler never meets an impossible state, and the scroll events it submits are
  those of the decoded stream: packets of three bytes that start with the synchronisation bit, with a signed value of nine bits.
\<close>

theorem mouse_stream_decoded:
  "map_option snd (for_each (handle_mouse e) bs (ps2_reset, s)) = for_each (submit_mouse_scroll e) (mouse_scrolls bs) s"
  by (rule mouse_stream) (simp add: ps2_reset_def)



text \<open>
  Writing to the speaker file panics the kernel exactly for the texts that are a zero, with white space around it
  or a plus sign: the divisor of the timer is computed before the frequency is looked at.
\<close>

lemma pcspk_write_panics_iff:
  "pcspk_write e buf s = None \<longleftrightarrow> utf8_valid buf \<and> parse_u32 (trim buf) = Some 0"
proof -
  have "parse_u32 (ascii ''stop'') = None"
    by (simp add: parse_u32_def parse_usize_def ascii_def of_char_def)
  then show ?thesis by (auto simp: pcspk_write_def play_sound_def Let_def split: option.splits prod.splits)
qed

end
