(* ===== verification/Entry.thy ===== *)
theory Entry
  imports AppRt
begin

text \<open>
  The entry code of interrupts: \<^verbatim>\<open>int.rs\<close> and the assembly of \<^verbatim>\<open>task/syscall.rs\<close> and \<^verbatim>\<open>task/mod.rs\<close>. The components treat the timer and the
  system calls as functions on the registers of the interrupted program; here the code that makes them so is run on a model of the processor: the stack
  switch, the pushes, the call with a pointer to the frame, the pops and \<^verbatim>\<open>iretq\<close>.
\<close>

section \<open>The processor\<close>

text \<open>The registers are those of a task, \<open>stk\<close> the memory in cells of eight bytes.\<close>

record cpu =
  ctx :: process_context
  stk :: "u64 \<Rightarrow> u64"

datatype instruction = Push register | PushImm u64 | PushFlags | Pop register | Mov register register | Lea register u64 | CallRust | Iretq

definition push64 :: "u64 \<Rightarrow> cpu \<Rightarrow> cpu" where
  "push64 v s = (let a = process_context.rsp (ctx s) - 8 in s\<lparr>ctx := (ctx s)\<lparr>process_context.rsp := a\<rparr>, stk := (stk s)(a := v)\<rparr>)"

definition iretq :: "cpu \<Rightarrow> cpu" where
  "iretq s =
     (let a = process_context.rsp (ctx s); m = stk s in
      s\<lparr>ctx := (ctx s)\<lparr>process_context.rip := m a, process_context.cs := m (a + 8), process_context.rflags := m (a + 16),
                      process_context.rsp := m (a + 24), process_context.ss := m (a + 32)\<rparr>\<rparr>)"

text \<open>The layout of \<^verbatim>\<open>ProcessContext\<close>, with \<^verbatim>\<open>repr(C)\<close>.\<close>

definition frame_at :: "(u64 \<Rightarrow> u64) \<Rightarrow> u64 \<Rightarrow> process_context" where
  "frame_at m a =
     \<lparr>process_context.rax = m a, process_context.rbx = m (a + 8), process_context.rcx = m (a + 16), process_context.rdx = m (a + 24), process_context.rsi = m (a + 32), process_context.rbp = m (a + 40), process_context.rdi = m (a + 48),
      process_context.r8 = m (a + 56), process_context.r9 = m (a + 64), process_context.r10 = m (a + 72), process_context.r11 = m (a + 80), process_context.r12 = m (a + 88), process_context.r13 = m (a + 96), process_context.r14 = m (a + 104),
      process_context.r15 = m (a + 112), process_context.rip = m (a + 120), process_context.cs = m (a + 128), process_context.rflags = m (a + 136), process_context.rsp = m (a + 144), process_context.ss = m (a + 152)\<rparr>"

definition put_frame :: "process_context \<Rightarrow> u64 \<Rightarrow> (u64 \<Rightarrow> u64) \<Rightarrow> u64 \<Rightarrow> u64" where
  "put_frame c a m =
     m(a := process_context.rax c, a + 8 := process_context.rbx c, a + 16 := process_context.rcx c, a + 24 := process_context.rdx c,
       a + 32 := process_context.rsi c, a + 40 := process_context.rbp c, a + 48 := process_context.rdi c, a + 56 := process_context.r8 c,
       a + 64 := process_context.r9 c, a + 72 := process_context.r10 c, a + 80 := process_context.r11 c, a + 88 := process_context.r12 c,
       a + 96 := process_context.r13 c, a + 104 := process_context.r14 c, a + 112 := process_context.r15 c,
       a + 120 := process_context.rip c, a + 128 := process_context.cs c, a + 136 := process_context.rflags c,
       a + 144 := process_context.rsp c, a + 152 := process_context.ss c)"

text \<open>
  A call of a compiled function with a pointer to a frame. The function is given as what it makes of the frame and of the state of the
  kernel. It may leave anything in the other cells of memory and in all registers but the stack pointer: \<open>j_mem\<close> and \<open>j_regs\<close>.
\<close>

type_synonym 'k rust_fn = "process_context \<Rightarrow> 'k \<Rightarrow> ('k \<times> process_context) option"

record junk =
  j_mem :: "cpu \<Rightarrow> u64 \<Rightarrow> u64"
  j_regs :: "cpu \<Rightarrow> process_context"

definition call_rust :: "'k rust_fn \<Rightarrow> junk \<Rightarrow> cpu \<times> 'k \<Rightarrow> (cpu \<times> 'k) option" where
  "call_rust f j = (\<lambda>(s, k).
     let a = process_context.rdi (ctx s) in
     do { (k, c) \<leftarrow> f (frame_at (stk s) a) k;
          Some (\<lparr>ctx = (j_regs j s)\<lparr>process_context.rsp := process_context.rsp (ctx s)\<rparr>, stk = put_frame c a (j_mem j s)\<rparr>, k) })"

fun execute :: "'k rust_fn \<Rightarrow> junk \<Rightarrow> instruction \<Rightarrow> cpu \<times> 'k \<Rightarrow> (cpu \<times> 'k) option" where
  "execute f j (Push r) (s, k) = Some (push64 (reg r (ctx s)) s, k)"
| "execute f j (PushImm v) (s, k) = Some (push64 v s, k)"
| "execute f j PushFlags (s, k) = Some (push64 (process_context.rflags (ctx s)) s, k)"
| "execute f j (Pop r) (s, k) =
     (let a = process_context.rsp (ctx s) in Some (s\<lparr>ctx := set_reg r (stk s a) ((ctx s)\<lparr>process_context.rsp := a + 8\<rparr>)\<rparr>, k))"
| "execute f j (Mov r q) (s, k) = Some (s\<lparr>ctx := set_reg r (reg q (ctx s)) (ctx s)\<rparr>, k)"
| "execute f j (Lea r a) (s, k) = Some (s\<lparr>ctx := set_reg r a (ctx s)\<rparr>, k)"
| "execute f j CallRust (s, k) = call_rust f j (s, k)"
| "execute f j Iretq (s, k) = Some (iretq s, k)"

definition run_code :: "'k rust_fn \<Rightarrow> junk \<Rightarrow> instruction list \<Rightarrow> cpu \<times> 'k \<Rightarrow> (cpu \<times> 'k) option" where
  "run_code f j code s = for_each (execute f j) code s"

text \<open>
  The delivery of an interrupt: the processor takes the stack of the task state segment if it comes from user mode, and aligns its own
  otherwise, and pushes the five words of the interrupt frame.
\<close>

definition deliver :: "u64 \<Rightarrow> cpu \<Rightarrow> cpu" where
  "deliver rsp0 s =
     (let c = ctx s;
          top = (if process_context.cs c AND 3 = 3 then rsp0 else process_context.rsp c AND NOT 0xF) in
      push64 (process_context.rip c) (push64 (process_context.cs c) (push64 (process_context.rflags c) (push64 (process_context.rsp c)
        (push64 (process_context.ss c) (s\<lparr>ctx := c\<lparr>process_context.rsp := top\<rparr>\<rparr>))))))"

definition interrupt :: "'k rust_fn \<Rightarrow> junk \<Rightarrow> u64 \<Rightarrow> instruction list \<Rightarrow> cpu \<times> 'k \<Rightarrow> (cpu \<times> 'k) option" where
  "interrupt f j rsp0 code = (\<lambda>(s, k). run_code f j code (deliver rsp0 s, k))"

section \<open>The handlers\<close>

definition timer_entry :: "instruction list" where
  "timer_entry =
     [Push R15, Push R14, Push R13, Push R12, Push R11, Push R10, Push R9, Push R8, Push RDI, Push RBP, Push RSI, Push RDX, Push RCX,
      Push RBX, Push RAX, Mov RDI RSP, CallRust,
      Pop RAX, Pop RBX, Pop RCX, Pop RDX, Pop RSI, Pop RBP, Pop RDI, Pop R8, Pop R9, Pop R10, Pop R11, Pop R12, Pop R13, Pop R14, Pop R15,
      Iretq]"

definition syscall_entry :: "instruction list" where
  "syscall_entry =
     [Push R15, Push R14, Push R13, Push R12, Push R11, Push R10, Push R9, Push R8, Push RDI, Push RBP, Push RSI, Push RDX, Push RCX,
      Push RBX, Push RAX, Mov RDI RSP, CallRust,
      Pop RAX, Pop RBX, Pop RCX, Pop RDX, Pop RSI, Pop RBP, Pop RDI, Pop R8, Pop R9, Pop R10, Pop R11, Pop R12, Pop R13, Pop R14, Pop R15,
      Iretq]"

text \<open>The end of \<^verbatim>\<open>task::init\<close>: the drop to ring 3, where \<open>label\<close> is the address after \<^verbatim>\<open>iretq\<close>.\<close>

definition enter_user_mode :: "u64 \<Rightarrow> instruction list" where
  "enter_user_mode label =
     [Mov RAX RSP, PushImm 0x23, Push RAX, PushFlags, PushImm 0x1b, Lea RAX label, Push RAX, Iretq]"

text \<open>The vectors that have a handler, with the privilege level that may raise them by an instruction.\<close>

datatype vector_handler = Timer | ErrorInterrupt | SpuriousInterrupt | InputInterrupt | XhciInterrupt | Syscall | PageFault | ProtectionFault

definition XHCI_MSI_VECTOR :: nat where "XHCI_MSI_VECTOR = 0x50"

definition IDT :: "bool \<Rightarrow> nat \<Rightarrow> (vector_handler \<times> nat) option" where
  "IDT ps2_poll =
     (let temp = (\<lambda>_. None)(32 := Some (Timer, 0), 33 := Some (ErrorInterrupt, 0), 34 := Some (SpuriousInterrupt, 0));
          temp = (if \<not> ps2_poll then temp(36 := Some (InputInterrupt, 0), 47 := Some (InputInterrupt, 0)) else temp);
          temp = temp(XHCI_MSI_VECTOR := Some (XhciInterrupt, 0));
          temp = temp(0x80 := Some (Syscall, 3)) in
      temp(14 := Some (PageFault, 0), 13 := Some (ProtectionFault, 0)))"

text \<open>A page fault goes by the privilege level of the code that caused it.\<close>

definition page_fault :: "('fs, 'w, 'p) kernel_env \<Rightarrow> ('fs, 'w) kernel \<Rightarrow> u64 \<Rightarrow> u64 \<Rightarrow> u64 \<Rightarrow> ('fs, 'w) kernel option" where
  "page_fault e k code_segment addr code =
     (if code_segment AND 3 = 0 then do_kernel_page_fault e k addr code
      else if code_segment AND 3 = 3 then do_user_page_fault e k addr code
      else None)"

section \<open>The entry is transparent\<close>


lemma frame_words:
  fixes a :: u64
  shows "frame_at (put_frame c a m) a = c"
  by (simp add: frame_at_def put_frame_def)

lemma minus_eight:
  fixes b :: u64
  shows "b + 160 - 8 = b + 152" "b + 152 - 8 = b + 144" "b + 144 - 8 = b + 136" "b + 136 - 8 = b + 128" "b + 128 - 8 = b + 120"
    "b + 120 - 8 = b + 112" "b + 112 - 8 = b + 104" "b + 104 - 8 = b + 96" "b + 96 - 8 = b + 88" "b + 88 - 8 = b + 80" "b + 80 - 8 = b + 72"
    "b + 72 - 8 = b + 64" "b + 64 - 8 = b + 56" "b + 56 - 8 = b + 48" "b + 48 - 8 = b + 40" "b + 40 - 8 = b + 32" "b + 32 - 8 = b + 24"
    "b + 24 - 8 = b + 16" "b + 16 - 8 = b + 8" "b + 8 - 8 = b"
  by simp_all

definition save_code :: "instruction list" where
  "save_code = map Push [R15, R14, R13, R12, R11, R10, R9, R8, RDI, RBP, RSI, RDX, RCX, RBX, RAX]"

definition restore_code :: "instruction list" where
  "restore_code = map Pop [RAX, RBX, RCX, RDX, RSI, RBP, RDI, R8, R9, R10, R11, R12, R13, R14, R15]"

lemma run_code_append: "run_code f j (xs @ ys) s = Option.bind (run_code f j xs s) (run_code f j ys)"
proof (induction xs arbitrary: s)
  case (Cons x xs)
  then show ?case by (cases "execute f j x s") (simp_all add: run_code_def)
qed (simp add: run_code_def)

text \<open>After the delivery and the pushes the stack pointer is at a frame with the registers of the interrupted program.\<close>

lemma save_frame:
  "\<exists>s'. run_code f j save_code (deliver rsp0 s, k) = Some (s', k) \<and> frame_at (stk s') (process_context.rsp (ctx s')) = ctx s"
proof -
  define top where "top = (if process_context.cs (ctx s) AND 3 = 3 then rsp0 else process_context.rsp (ctx s) AND NOT 0xF)"
  define b where "b = top - 160"
  have top: "top = b + 160" by (simp add: b_def)
  have d: "deliver rsp0 s =
      push64 (process_context.rip (ctx s)) (push64 (process_context.cs (ctx s)) (push64 (process_context.rflags (ctx s))
        (push64 (process_context.rsp (ctx s)) (push64 (process_context.ss (ctx s)) (s\<lparr>ctx := (ctx s)\<lparr>process_context.rsp := b + 160\<rparr>\<rparr>)))))"
    unfolding deliver_def Let_def top [symmetric] top_def by simp
  show ?thesis
    unfolding d save_code_def run_code_def
    by (simp add: push64_def Let_def minus_eight frame_at_def del: add_diff_eq)
qed

text \<open>Popping a frame loads its registers, and \<^verbatim>\<open>iretq\<close> the rest.\<close>

lemma restore_frame:
  "\<exists>s'. run_code f j (restore_code @ [Iretq]) (s, k) = Some (s', k) \<and> ctx s' = frame_at (stk s) (process_context.rsp (ctx s))"
  unfolding restore_code_def run_code_def
  by (simp add: Let_def iretq_def frame_at_def add.assoc)

lemma interrupt_transparent:
  assumes "code = save_code @ [Mov RDI RSP, CallRust] @ restore_code @ [Iretq]"
  shows "map_option (\<lambda>(s, k). (k, ctx s)) (interrupt f j rsp0 code (s, k)) = f (ctx s) k"
proof -
  obtain s1 where s1: "run_code f j save_code (deliver rsp0 s, k) = Some (s1, k)"
    "frame_at (stk s1) (process_context.rsp (ctx s1)) = ctx s"
    using save_frame [of f j rsp0 s k] by blast
  let ?s2 = "s1\<lparr>ctx := (ctx s1)\<lparr>process_context.rdi := process_context.rsp (ctx s1)\<rparr>\<rparr>"
  have call: "run_code f j [Mov RDI RSP, CallRust] (s1, k) = call_rust f j (?s2, k)"
    by (cases "call_rust f j (?s2, k)") (simp_all add: run_code_def)
  have "map_option (\<lambda>(s, k). (k, ctx s)) (Option.bind (call_rust f j (?s2, k)) (run_code f j (restore_code @ [Iretq]))) = f (ctx s) k"
  proof (cases "f (ctx s) k")
    case None
    then show ?thesis using s1(2) by (simp add: call_rust_def Let_def)
  next
    case (Some r)
    obtain k' c where r: "r = (k', c)" by (cases r)
    let ?a = "process_context.rsp (ctx s1)"
    let ?s3 = "\<lparr>ctx = (j_regs j ?s2)\<lparr>process_context.rsp := ?a\<rparr>, stk = put_frame c ?a (j_mem j ?s2)\<rparr>"
    have "call_rust f j (?s2, k) = Some (?s3, k')" using Some r s1(2) by (simp add: call_rust_def Let_def)
    then show ?thesis using restore_frame [of f j ?s3 k'] Some r by (auto simp: frame_words)
  qed
  then show ?thesis
    by (simp add: interrupt_def assms run_code_append s1 call bind_assoc [symmetric] del: append_assoc append.simps)
qed

lemma entry_code:
  "syscall_entry = save_code @ [Mov RDI RSP, CallRust] @ restore_code @ [Iretq]"
  "timer_entry = save_code @ [Mov RDI RSP, CallRust] @ restore_code @ [Iretq]"
  by (simp_all add: syscall_entry_def timer_entry_def save_code_def restore_code_def)

text \<open>The functions that the entry code calls, on the state of the kernel.\<close>

definition syscall_fn :: "('fs, 'w, 'p) kernel_env \<Rightarrow> (('fs, 'w) kernel \<times> user_mem) rust_fn" where
  "syscall_fn e c = (\<lambda>(k, mem). map_option (\<lambda>(k, mem, c). ((k, mem), c)) (do_syscall e k mem c))"

definition timer_fn :: "sched_state rust_fn" where
  "timer_fn c q = timer q c"

text \<open>
  Property C22 (refinement). The entry code of system calls and of the timer is transparent. Wherever the interrupted program
  runs and whatever the compiled handler leaves in the registers and on its stack, the program goes on with exactly the registers that
  the handler, as a function on the registers of the program, returns; and a panic of the handler is the only way not to return.
\<close>

theorem interrupt_entry_transparent:
  "map_option (\<lambda>(s, k). (k, ctx s)) (interrupt (syscall_fn e) j rsp0 syscall_entry (s, k, mem)) = syscall_fn e (ctx s) (k, mem) \<and>
   map_option (\<lambda>(s, q). (q, ctx s)) (interrupt timer_fn j rsp0 timer_entry (s, q)) = timer q (ctx s)"
  using interrupt_transparent [OF entry_code(1)] interrupt_transparent [OF entry_code(2), of timer_fn] by (simp add: timer_fn_def)

text \<open>The trap of the run-time library, with the processor in between, is the dispatcher.\<close>

definition entry_trap :: "('fs, 'w, 'p) kernel_env \<Rightarrow> junk \<Rightarrow> u64 \<Rightarrow> (u64 \<Rightarrow> u64) \<Rightarrow> ('fs, 'w) kernel trap" where
  "entry_trap e j rsp0 m c mem k =
     map_option (\<lambda>(s, k, mem). (k, mem, ctx s)) (interrupt (syscall_fn e) j rsp0 syscall_entry (\<lparr>ctx = c, stk = m\<rparr>, k, mem))"

lemma entry_trap_kernel: "entry_trap e j rsp0 m = kernel_trap e"
proof (intro ext)
  fix c mem k
  let ?i = "interrupt (syscall_fn e) j rsp0 syscall_entry (\<lparr>ctx = c, stk = m\<rparr>, k, mem)"
  have "entry_trap e j rsp0 m c mem k = map_option (\<lambda>((k, mem), c). (k, mem, c)) (map_option (\<lambda>(s, k). (k, ctx s)) ?i)"
    by (cases ?i) (auto simp: entry_trap_def)
  also have "\<dots> = map_option (\<lambda>((k, mem), c). (k, mem, c)) (syscall_fn e c (k, mem))"
    using interrupt_transparent [OF entry_code(1), of "syscall_fn e" j rsp0 "\<lparr>ctx = c, stk = m\<rparr>" "(k, mem)"] by simp
  also have "\<dots> = kernel_trap e c mem k"
    by (cases "do_syscall e k mem c") (auto simp: syscall_fn_def kernel_trap_def)
  finally show "entry_trap e j rsp0 m c mem k = kernel_trap e c mem k" .
qed

text \<open>The drop to user mode keeps the stack, and only the selectors, the instruction pointer and the scratch register change.\<close>

lemma enter_user_mode_context:
  "\<exists>s'. run_code f j (enter_user_mode label) (s, k) = Some (s', k) \<and>
    ctx s' = (ctx s)\<lparr>process_context.rax := label, process_context.rip := label, process_context.cs := 0x1b, process_context.ss := 0x23\<rparr>"
proof -
  define b where "b = process_context.rsp (ctx s) - 40"
  have b: "process_context.rsp (ctx s) = b + 40" by (simp add: b_def)
  show ?thesis
    unfolding enter_user_mode_def run_code_def
    by (simp add: push64_def Let_def iretq_def b minus_eight add.assoc del: add_diff_eq)
qed

lemma user_gates: "IDT ps2_poll v = Some (h, 3) \<longleftrightarrow> v = 0x80 \<and> h = Syscall"
  by (auto simp: IDT_def XHCI_MSI_VECTOR_def Let_def split: if_splits)

lemma xhci_vector_separate: "(\<exists>p. IDT ps2_poll v = Some (XhciInterrupt, p)) \<longleftrightarrow> v = XHCI_MSI_VECTOR"
  by (auto simp: IDT_def XHCI_MSI_VECTOR_def Let_def split: if_splits)

end
