(* ===== verification/Shell.thy ===== *)
theory Shell
  imports Ping Console
begin

text \<open>
  The shell, \<^verbatim>\<open>apps/init/src/main.rs\<close>: it reads command lines, runs the built-in commands and starts programs. The system
  calls are the parameter \<open>shell_env\<close>, functions of the state of the world; a formatted line is one write of its text. \<^term>\<open>None\<close> is a panic of the
  shell or a wait without end.
\<close>

section \<open>The system calls\<close>

text \<open>
  \<open>sh_exec\<close> says whether the program of the process has been replaced. \<open>sh_read\<close> waits for a character. \<open>sh_read2\<close> gives the new contents
  of its buffer, \<open>sh_getdents\<close> a number and the new contents of the array. \<open>sh_show\<close> prints a report of the network monitor.
\<close>

record 'w shell_env =
  sh_net :: "'w net_env"
  sh_show :: "shown \<Rightarrow> 'w \<Rightarrow> 'w"
  sh_read :: "'w \<Rightarrow> (u8 \<times> 'w) option"
  sh_write :: "nat \<Rightarrow> bytes \<Rightarrow> 'w \<Rightarrow> 'w"
  sh_open :: "bytes \<Rightarrow> bool \<Rightarrow> 'w \<Rightarrow> nat option \<times> 'w"
  sh_read2 :: "nat \<Rightarrow> bytes \<Rightarrow> 'w \<Rightarrow> bytes \<times> 'w"
  sh_seek :: "nat \<Rightarrow> nat \<Rightarrow> nat \<Rightarrow> 'w \<Rightarrow> nat \<times> 'w"
  sh_close :: "nat \<Rightarrow> 'w \<Rightarrow> 'w"
  sh_remove :: "bytes \<Rightarrow> 'w \<Rightarrow> 'w"
  sh_mount :: "nat \<Rightarrow> nat \<Rightarrow> nat \<Rightarrow> bytes \<Rightarrow> 'w \<Rightarrow> 'w"
  sh_opendir :: "bytes \<Rightarrow> 'w \<Rightarrow> nat option \<times> 'w"
  sh_getdents :: "nat \<Rightarrow> DirEntry list \<Rightarrow> 'w \<Rightarrow> (nat option \<times> DirEntry list) \<times> 'w"
  sh_closedir :: "nat \<Rightarrow> 'w \<Rightarrow> 'w"
  sh_info :: "nat \<Rightarrow> 'w \<Rightarrow> nat option \<times> 'w"
  sh_getticks :: "'w \<Rightarrow> nat \<times> 'w"
  sh_fork :: "'w \<Rightarrow> nat \<times> 'w"
  sh_waitpid :: "nat \<Rightarrow> 'w \<Rightarrow> 'w"
  sh_exec :: "bytes \<Rightarrow> 'w \<Rightarrow> bool \<times> 'w"
  sh_exit :: "'w \<Rightarrow> 'w"

definition SEEK_END :: nat where "SEEK_END = 1"
definition SEEK_SET :: nat where "SEEK_SET = 2"

definition say :: "'w shell_env \<Rightarrow> bytes \<Rightarrow> 'w \<Rightarrow> 'w" where
  "say e s w = sh_write e 1 s w"

definition say_line :: "'w shell_env \<Rightarrow> bytes \<Rightarrow> 'w \<Rightarrow> 'w" where
  "say_line e s w = say e (s @ [10]) w"

definition complain_line :: "'w shell_env \<Rightarrow> bytes \<Rightarrow> 'w \<Rightarrow> 'w" where
  "complain_line e s w = sh_write e 0 (s @ [10]) w"

text \<open>\<^verbatim>\<open>{:?}\<close> of an array of bytes.\<close>

fun fmt_items :: "bytes \<Rightarrow> bytes" where
  "fmt_items [] = []"
| "fmt_items [b] = fmt_usize (unat b)"
| "fmt_items (b # c # bs) = fmt_usize (unat b) @ ascii '', '' @ fmt_items (c # bs)"

definition fmt_array :: "bytes \<Rightarrow> bytes" where
  "fmt_array bs = ascii ''['' @ fmt_items bs @ ascii '']''"

section \<open>Lines and directories\<close>

function read_line_from :: "'w shell_env \<Rightarrow> nat \<Rightarrow> bytes \<Rightarrow> 'w \<Rightarrow> (nat \<times> bytes \<times> 'w) option" where
  "read_line_from e i buf w =
     (if i < length buf
      then do { (c, w) \<leftarrow> sh_read e w;
                if c = 10 then Some (i, buf, w) else read_line_from e (i + 1) (buf[i := c]) w }
      else Some (length buf, buf, w))"
  by pat_completeness auto
termination
  by (relation "measure (\<lambda>(e, i, buf, w). length buf - i)") auto

declare read_line_from.simps [simp del]

definition read_line :: "'w shell_env \<Rightarrow> bytes \<Rightarrow> 'w \<Rightarrow> (nat \<times> bytes \<times> 'w) option" where
  "read_line e buf w = read_line_from e 0 buf w"

definition print_entry :: "'w shell_env \<Rightarrow> DirEntry \<Rightarrow> 'w \<Rightarrow> 'w" where
  "print_entry e entry w =
     (if is_dir entry \<noteq> 0 then say_line e (dirent_name entry @ ascii ''/'') w else say_line e (dirent_name entry) w)"

partial_function (option) list_entries :: "'w shell_env \<Rightarrow> nat \<Rightarrow> bytes \<Rightarrow> DirEntry list \<Rightarrow> 'w \<Rightarrow> 'w option" where
  "list_entries e fd path ents w =
     (let ((count, ents), w) = sh_getdents e fd ents w in
      case count of
        None \<Rightarrow> Some (say_line e (ascii ''error while reading directory '' @ path) w)
      | Some n \<Rightarrow> if n = 0 then Some w
                  else do { found \<leftarrow> slice ents 0 n; list_entries e fd path ents (fold (print_entry e) found w) })"

definition list_dir :: "'w shell_env \<Rightarrow> bytes \<Rightarrow> 'w \<Rightarrow> 'w option" where
  "list_dir e path w =
     (case sh_opendir e path w of
        (Some fd, w) \<Rightarrow> do { w \<leftarrow> list_entries e fd path (replicate 16 dirent_empty) w; Some (sh_closedir e fd w) }
      | (None, w) \<Rightarrow> Some (say_line e (ascii ''directory '' @ path @ ascii '' not found'') w))"

definition help_lines :: "bytes list" where
  "help_lines = map ascii
     [''Builtin commands:'',
      ''  help               Show this help text'',
      ''  panic-test         Trigger a panic for testing'',
      ''  exit               Exit the shell'',
      ''  sysinfo            Show system information'',
      ''  echo <text>        Print text'',
      ''  clear              Clear the screen'',
      ''  disk-read          Read from /dev/disk0'',
      ''  nvme-read          Read from /dev/nvme0-0'',
      ''  usb-read           Read the first sector from /dev/usb0'',
      ''  disk-size          Show /dev/disk0 size'',
      ''  nvme-size          Show /dev/nvme0-0 size'',
      ''  usb-size           Show /dev/usb0 size'',
      ''  initrd-read        Read from /dev/initrd'',
      ''  file-read <path>   Print file contents'',
      ''  file-write <path>  Write lines to a file until EOF'',
      ''  ls [path]          List directory entries'',
      ''  mount <ahci|nvme|usb> <disk> <partition> <path/>'',
      ''  file-rm            Remove /test.txt'',
      ''  beep <freq>        Play a beep'',
      ''  poweroff           Power off the machine'',
      ''  reboot             Reboot the machine'',
      ''  netdump            Dump recieved packets from upppd'',
      [],
      ''External commands:'',
      ''  /bin/<name>        Execute a command from /bin'',
      ''  exiter             Do nothing'',
      ''  hello-std          A Rust std program that does not work properly'',
      ''  dins-empty         Do nothing'',
      ''  dins-hello         Print '' @ [CHR 34] @ ''Hello, World!'' @ [CHR 34],
      ''  pl_editor          An editor that can easily port to any OSes'',
      ''  lua                A powerful, efficient, lightweight, embeddable scripting language'',
      ''  huge-alloc-test    Memory allocation tester (requires at least 5 GiB of memory)'',
      ''  imgview            Draw an image on the framebuffer (can mess up the terminal and become hard to clear)'',
      ''  ipc-demo           Fork + bidirectional anonymous IPC test'',
      ''  upppd              PPPoS user-space network service over /dev/serial'']"

definition print_help :: "'w shell_env \<Rightarrow> 'w \<Rightarrow> 'w" where
  "print_help e w = fold (say_line e) help_lines w"

section \<open>Commands\<close>

text \<open>A command on an opened file that is closed at the end.\<close>

definition with_file :: "'w shell_env \<Rightarrow> bytes \<Rightarrow> bool \<Rightarrow> bytes \<Rightarrow> (nat \<Rightarrow> 'w \<Rightarrow> 'w option) \<Rightarrow> 'w \<Rightarrow> 'w option" where
  "with_file e name create message body w =
     (case sh_open e name create w of
        (Some fd, w) \<Rightarrow> do { w \<leftarrow> body fd w; Some (sh_close e fd w) }
      | (None, w) \<Rightarrow> Some (say_line e message w))"

definition open_failed :: "bytes \<Rightarrow> bytes" where
  "open_failed name = ascii ''error while open_failed '' @ name"

definition info :: "'w shell_env \<Rightarrow> nat \<Rightarrow> 'w \<Rightarrow> (nat \<times> 'w) option" where
  "info e tp w = (case sh_info e tp w of (None, w) \<Rightarrow> None | (Some v, w) \<Rightarrow> Some (v, w))"

definition sysinfo :: "'w shell_env \<Rightarrow> 'w \<Rightarrow> 'w option" where
  "sysinfo e w =
     (let w = say_line e (ascii ''DoglinkOS-2nd version 1.4.1'') w;
          w = say_line e (ascii ''DoglinkOS Shell version 1.4.1'') w;
          w = say_line e (ascii ''In user mode'') w in
      do { (rows, w) \<leftarrow> info e 1 w;
           (cols, w) \<leftarrow> info e 0 w;
           let w = say_line e (ascii ''Console: '' @ fmt_usize rows @ ascii '' rows, '' @ fmt_usize cols @ ascii '' cols'') w;
           (width, w) \<leftarrow> info e 6 w;
           (height, w) \<leftarrow> info e 7 w;
           (pitch, w) \<leftarrow> info e 9 w;
           let w = say_line e (ascii ''Framebuffer: '' @ fmt_usize width @ ascii '' x '' @ fmt_usize height @ ascii '', pitch '' @ fmt_usize pitch) w;
           (pid, w) \<leftarrow> info e 2 w;
           let w = say_line e (ascii ''Current shell PID: '' @ fmt_usize pid) w;
           (ticks, w) \<leftarrow> info e 3 w;
           Some (say_line e (ascii ''Current kernel ticks: '' @ fmt_usize ticks) w) })"

definition read_sector :: "'w shell_env \<Rightarrow> nat \<Rightarrow> bytes \<Rightarrow> 'w \<Rightarrow> bytes \<times> 'w" where
  "read_sector e fd content w = (let (content, w) = sh_read2 e fd content w in (content, say_line e (fmt_array content) w))"

definition device_read_once :: "'w shell_env \<Rightarrow> bytes \<Rightarrow> 'w \<Rightarrow> 'w option" where
  "device_read_once e name w =
     with_file e name False (open_failed name) (\<lambda>fd w. Some (snd (read_sector e fd (replicate 512 0) w))) w"

definition device_read :: "'w shell_env \<Rightarrow> bytes \<Rightarrow> 'w \<Rightarrow> 'w option" where
  "device_read e name w =
     with_file e name False (open_failed name)
       (\<lambda>fd w. let (content, w) = read_sector e fd (replicate 512 0) w;
                   (_, w) = sh_seek e fd 0 SEEK_SET w;
                   (front, w) = sh_read2 e fd (take 100 content) w;
                   (back, w) = sh_read2 e fd (drop 100 content) w in
               Some (say_line e (fmt_array (front @ back)) w)) w"

definition device_size :: "'w shell_env \<Rightarrow> bytes \<Rightarrow> 'w \<Rightarrow> 'w option" where
  "device_size e name w =
     with_file e name False (open_failed name)
       (\<lambda>fd w. let (sz, w) = sh_seek e fd 0 SEEK_END w in
               Some (say_line e (name @ ascii '' is '' @ fmt_usize sz @ ascii '' bytes'') w)) w"

function print_rest :: "'w shell_env \<Rightarrow> nat \<Rightarrow> nat \<Rightarrow> bytes \<Rightarrow> 'w \<Rightarrow> 'w option" where
  "print_rest e fd remaining_size buf w =
     (if remaining_size > 0
      then let will_read = min remaining_size 512;
               (chunk, w) = sh_read2 e fd (take will_read buf) w in
           if utf8_valid chunk
           then print_rest e fd (remaining_size - will_read) (chunk @ drop will_read buf) (sh_write e 1 chunk w)
           else None
      else Some w)"
  by pat_completeness auto
termination
  by (relation "measure (\<lambda>(e, fd, remaining_size, buf, w). remaining_size)") auto

declare print_rest.simps [simp del]

definition file_read :: "'w shell_env \<Rightarrow> bytes \<Rightarrow> 'w \<Rightarrow> 'w option" where
  "file_read e file_name w =
     with_file e file_name False (ascii ''file '' @ file_name @ ascii '' not found'')
       (\<lambda>fd w. let (remaining_size, w) = sh_seek e fd 0 SEEK_END w;
                   (_, w) = sh_seek e fd 0 SEEK_SET w in
               print_rest e fd remaining_size (replicate 512 0) w) w"

partial_function (option) write_lines :: "'w shell_env \<Rightarrow> nat \<Rightarrow> bytes \<Rightarrow> 'w \<Rightarrow> 'w option" where
  "write_lines e fd line_buf w =
     (if line_buf ! 0 \<noteq> 69 \<or> line_buf ! 1 \<noteq> 79 \<or> line_buf ! 2 \<noteq> 70
      then do { (len, line_buf, w) \<leftarrow> read_line e line_buf w;
                line \<leftarrow> slice line_buf 0 len;
                if utf8_valid line then write_lines e fd line_buf (sh_write e fd [10] (sh_write e fd line w)) else None }
      else Some w)"

definition file_write :: "'w shell_env \<Rightarrow> bytes \<Rightarrow> 'w \<Rightarrow> 'w option" where
  "file_write e file_name w =
     with_file e file_name True (open_failed file_name) (\<lambda>fd w. write_lines e fd (replicate 128 0) w) w"

text \<open>\<^verbatim>\<open>split\<close> at a byte.\<close>

fun split_at_byte :: "u8 \<Rightarrow> bytes \<Rightarrow> bytes list" where
  "split_at_byte b [] = [[]]"
| "split_at_byte b (c # s) =
     (if c = b then [] # split_at_byte b s
      else case split_at_byte b s of [] \<Rightarrow> [[c]] | p # ps \<Rightarrow> (c # p) # ps)"

definition mount_command :: "'w shell_env \<Rightarrow> bytes \<Rightarrow> 'w \<Rightarrow> 'w option" where
  "mount_command e params w =
     do { let it = split_at_byte 32 params;
          typs \<leftarrow> nth_opt it 0;
          let typ = (if typs = ascii ''ahci'' then Some 0 else if typs = ascii ''nvme'' then Some 1
                     else if typs = ascii ''usb'' then Some 2 else None);
          case typ of
            None \<Rightarrow> Some w
          | Some typ \<Rightarrow>
              do { disk \<leftarrow> Option.bind (nth_opt it 1) parse_usize;
                   part \<leftarrow> Option.bind (nth_opt it 2) parse_usize;
                   mountpoint \<leftarrow> nth_opt it 3;
                   if \<not> (mountpoint \<noteq> [] \<and> last mountpoint = 47)
                   then Some (complain_line e (ascii ''a mount point must end with /'') w)
                   else Some (sh_mount e typ disk part mountpoint w) } }"

definition beep :: "'w shell_env \<Rightarrow> bytes \<Rightarrow> 'w \<Rightarrow> 'w option" where
  "beep e freq w =
     with_file e (ascii ''/dev/pcspk'') False (open_failed (ascii ''/dev/pcspk''))
       (\<lambda>fd w. do { let w = sh_write e fd freq w;
                    let (start, w) = sh_getticks e w;
                    w \<leftarrow> wait_while (\<lambda>w. do { let (now, w) = sh_getticks e w;
                                              limit \<leftarrow> checked_add start 50;
                                              Some (now < limit, w) }) w;
                    Some (sh_write e fd (ascii ''stop'') w) }) w"

definition power_command :: "'w shell_env \<Rightarrow> bytes \<Rightarrow> 'w \<Rightarrow> 'w option" where
  "power_command e cmd w =
     with_file e (ascii ''/dev/power'') False (open_failed (ascii ''/dev/power'')) (\<lambda>fd w. Some (sh_write e fd cmd w)) w"

definition netdump_command :: "'w shell_env \<Rightarrow> nat \<Rightarrow> 'w \<Rightarrow> 'w option" where
  "netdump_command e cnt w = do { (shown, w) \<leftarrow> netdump_main (sh_net e) cnt w; Some (fold (sh_show e) shown w) }"

text \<open>
  What follows a command: the next prompt, the end of the loop, or nothing in a process that has become another program or has ended.
\<close>

datatype turn = Again | Leave | Gone

definition program_path :: "bytes \<Rightarrow> nat \<Rightarrow> bytes option" where
  "program_path buf len =
     do { first \<leftarrow> nth_opt buf 0;
          let buf2 = replicate 128 0;
          line \<leftarrow> slice buf 0 len;
          (buf2, len2) \<leftarrow> (if first \<noteq> 47
             then do { buf2 \<leftarrow> copy_into buf2 0 (ascii ''/bin/''); buf2 \<leftarrow> copy_into buf2 5 line; Some (buf2, len + 5) }
             else do { buf2 \<leftarrow> copy_into buf2 0 line; Some (buf2, len) });
          slice buf2 0 len2 }"

definition start_program :: "'w shell_env \<Rightarrow> bytes \<Rightarrow> bytes \<Rightarrow> 'w \<Rightarrow> turn \<times> 'w" where
  "start_program e path cmd w =
     (let (fork_result, w) = sh_fork e w in
      if fork_result = 0
      then case sh_exec e path w of
             (True, w) \<Rightarrow> (Gone, w)
           | (False, w) \<Rightarrow> (Gone, sh_exit e (complain_line e (ascii ''unknown command'') w))
      else if cmd \<noteq> ascii ''upppd'' then (Again, sh_waitpid e fork_result w)
      else (Again, w))"

definition run_program :: "'w shell_env \<Rightarrow> bytes \<Rightarrow> nat \<Rightarrow> bytes \<Rightarrow> 'w \<Rightarrow> (turn \<times> 'w) option" where
  "run_program e buf len cmd w = do { path \<leftarrow> program_path buf len; Some (start_program e path cmd w) }"

abbreviation again :: "'w option \<Rightarrow> (turn \<times> 'w) option" where
  "again r \<equiv> map_option (Pair Again) r"

text \<open>The commands that are given by a prefix of the line, in the order of the code.\<close>

definition prefix_commands :: "'w shell_env \<Rightarrow> bytes \<Rightarrow> nat \<Rightarrow> bytes \<Rightarrow> 'w \<Rightarrow> (turn \<times> 'w) option" where
  "prefix_commands e buf len cmd w =
     (case strip_prefix cmd (ascii ''file-read '') of Some file_name \<Rightarrow> again (file_read e file_name w) | None \<Rightarrow>
      case strip_prefix cmd (ascii ''file-write '') of Some file_name \<Rightarrow> again (file_write e file_name w) | None \<Rightarrow>
      if cmd = ascii ''ls'' then again (list_dir e (ascii ''/'') w) else
      case strip_prefix cmd (ascii ''ls '') of Some path \<Rightarrow> again (list_dir e path w) | None \<Rightarrow>
      case strip_prefix cmd (ascii ''mount '') of Some params \<Rightarrow> again (mount_command e params w) | None \<Rightarrow>
      if starts_with cmd (ascii ''file-rm'') then Some (Again, sh_remove e (ascii ''/test.txt'') w) else
      case strip_prefix cmd (ascii ''beep '') of Some freq \<Rightarrow> again (beep e freq w) | None \<Rightarrow>
      if cmd = ascii ''poweroff'' \<or> cmd = ascii ''reboot'' then again (power_command e cmd w) else
      case strip_prefix cmd (ascii ''netdump'') of
        Some x \<Rightarrow> again (netdump_command e (case parse_usize (trim x) of Some cnt \<Rightarrow> cnt | None \<Rightarrow> 4) w)
      | None \<Rightarrow> run_program e buf len cmd w)"

definition shell_command :: "'w shell_env \<Rightarrow> bytes \<Rightarrow> nat \<Rightarrow> 'w \<Rightarrow> (turn \<times> 'w) option" where
  "shell_command e buf len w =
     do { cmd \<leftarrow> slice buf 0 len;
          if \<not> utf8_valid cmd then None
          else if cmd = [] then Some (Again, w)
          else if cmd = ascii ''help'' then Some (Again, print_help e w)
          else if cmd = ascii ''panic-test'' then None
          else if cmd = ascii ''exit'' then Some (Leave, w)
          else if cmd = ascii ''sysinfo'' then again (sysinfo e w)
          else case strip_prefix cmd (ascii ''echo '') of Some content \<Rightarrow> Some (Again, say_line e content w) | None \<Rightarrow>
          if cmd = ascii ''clear'' then Some (Again, say e (27 # ascii ''[H'' @ 27 # ascii ''[2J'' @ 27 # ascii ''[3J'') w)
          else if cmd = ascii ''disk-read'' then again (device_read e (ascii ''/dev/disk0'') w)
          else if cmd = ascii ''nvme-read'' then again (device_read e (ascii ''/dev/nvme0-0'') w)
          else if cmd = ascii ''usb-read'' then again (device_read_once e (ascii ''/dev/usb0'') w)
          else if cmd = ascii ''disk-size'' then again (device_size e (ascii ''/dev/disk0'') w)
          else if cmd = ascii ''nvme-size'' then again (device_size e (ascii ''/dev/nvme0-0'') w)
          else if cmd = ascii ''usb-size'' then again (device_size e (ascii ''/dev/usb0'') w)
          else if cmd = ascii ''initrd-read'' then again (device_read_once e (ascii ''/dev/initrd'') w)
          else prefix_commands e buf len cmd w }"

definition prompt :: bytes where
  "prompt = ascii ''[User@DoglinkOS-2nd /]$ ''"

partial_function (option) shell_main_loop :: "'w shell_env \<Rightarrow> bytes \<Rightarrow> 'w \<Rightarrow> (bool \<times> 'w) option" where
  "shell_main_loop e buf w =
     do { (len, buf, w) \<leftarrow> read_line e buf (say e prompt w);
          (t, w) \<leftarrow> shell_command e buf len w;
          case t of Again \<Rightarrow> shell_main_loop e buf w | Leave \<Rightarrow> Some (True, w) | Gone \<Rightarrow> Some (False, w) }"

text \<open>The entry point: after \<^verbatim>\<open>exit\<close> both processes of a fork print the cell they have set, and leave.\<close>

definition shell_start :: "'w shell_env \<Rightarrow> 'w \<Rightarrow> 'w option" where
  "shell_start e w =
     do { let w = sh_write e 0 ([10, 10] @ ascii ''DoglinkOS Shell v1.4.1'' @ [10]) w;
          (left, w) \<leftarrow> shell_main_loop e (replicate 128 0) w;
          if \<not> left then Some w
          else do { let (fork_result, w) = sh_fork e w;
                    let t = (if fork_result = 0 then 5 else 4);
                    let w = say_line e (ascii ''Now TEST is '' @ fmt_usize t @ ascii ''!'') w;
                    case sh_exec e (ascii ''/bin/exiter'') w of (True, w) \<Rightarrow> Some w | (False, w) \<Rightarrow> Some (sh_exit e w) } }"

section \<open>Reading lines\<close>

text \<open>The input that waits for the shell: a character is read and removed.\<close>

definition feeds :: "'w shell_env \<Rightarrow> ('w \<Rightarrow> bytes) \<Rightarrow> bool" where
  "feeds e inp \<longleftrightarrow>
     (\<forall>w c later. inp w = c # later \<longrightarrow> (\<exists>w'. sh_read e w = Some (c, w') \<and> inp w' = later)) \<and> (\<forall>fd s w. inp (sh_write e fd s w) = inp w)"

lemma feedsD:
  assumes "feeds e inp"
  shows "inp w = c # later \<Longrightarrow> \<exists>w'. sh_read e w = Some (c, w') \<and> inp w' = later" and "inp (sh_write e fd s w) = inp w"
  using assms by (auto simp: feeds_def)

lemma read_line_from_newline:
  assumes "feeds e inp"
  shows "\<lbrakk>inp w = line @ 10 # rest; 10 \<notin> set line; i + length line < length buf\<rbrakk> \<Longrightarrow>
    \<exists>w'. read_line_from e i buf w = Some (i + length line, take i buf @ line @ drop (i + length line) buf, w') \<and> inp w' = rest"
proof (induction line arbitrary: i buf w)
  case Nil
  then show ?case using feedsD(1) [OF assms, of w 10 rest] by (auto simp: read_line_from.simps [of e i])
next
  case (Cons c line)
  obtain w1 where w1: "sh_read e w = Some (c, w1)" "inp w1 = line @ 10 # rest" using feedsD(1) [OF assms, of w c] Cons.prems(1) by auto
  obtain w2 where w2: "read_line_from e (i + 1) (buf[i := c]) w1 =
      Some (i + 1 + length line, take (i + 1) (buf[i := c]) @ line @ drop (i + 1 + length line) (buf[i := c]), w2)" "inp w2 = rest"
    using Cons.IH [of w1 "i + 1" "buf[i := c]"] w1(2) Cons.prems by auto
  have "take (i + 1) (buf[i := c]) = take i buf @ [c]" using Cons.prems(3) by (simp add: take_Suc_conv_app_nth)
  with w1 w2 Cons.prems show ?case by (simp add: read_line_from.simps [of e i])
qed

lemma read_line_from_full:
  assumes "feeds e inp"
  shows "\<lbrakk>inp w = line @ rest; 10 \<notin> set line; i + length line = length buf\<rbrakk> \<Longrightarrow>
    \<exists>w'. read_line_from e i buf w = Some (length buf, take i buf @ line, w') \<and> inp w' = rest"
proof (induction line arbitrary: i buf w)
  case Nil
  then show ?case by (subst read_line_from.simps) auto
next
  case (Cons c line)
  obtain w1 where w1: "sh_read e w = Some (c, w1)" "inp w1 = line @ rest" using feedsD(1) [OF assms, of w c] Cons.prems(1) by auto
  obtain w2 where w2: "read_line_from e (i + 1) (buf[i := c]) w1 = Some (length buf, take (i + 1) (buf[i := c]) @ line, w2)" "inp w2 = rest"
    using Cons.IH [of w1 "i + 1" "buf[i := c]"] w1(2) Cons.prems by auto
  have "take (i + 1) (buf[i := c]) = take i buf @ [c]" using Cons.prems(3) by (simp add: take_Suc_conv_app_nth)
  with w1 w2 Cons.prems show ?case by (simp add: read_line_from.simps [of e i])
qed

lemmas read_line_newline = read_line_from_newline [where i = 0, folded read_line_def, simplified]
lemmas read_line_full = read_line_from_full [where i = 0, folded read_line_def, simplified]

section \<open>Programs\<close>

definition builtin :: "bytes \<Rightarrow> bool" where
  "builtin cmd \<longleftrightarrow>
     cmd \<in> ascii ` {''help'', ''panic-test'', ''exit'', ''sysinfo'', ''clear'', ''disk-read'', ''nvme-read'', ''usb-read'', ''disk-size'',
       ''nvme-size'', ''usb-size'', ''initrd-read'', ''ls'', ''poweroff'', ''reboot''} \<or>
     (\<exists>p\<in>{''echo '', ''file-read '', ''file-write '', ''ls '', ''mount '', ''file-rm'', ''beep '', ''netdump''}. starts_with cmd (ascii p))"

definition path_of :: "bytes \<Rightarrow> bytes option" where
  "path_of cmd = (if hd cmd = 47 then Some cmd else if length cmd \<le> 123 then Some (ascii ''/bin/'' @ cmd) else None)"

lemma program_path_of:
  assumes "length buf = 128" and "0 < len" and "len \<le> 128"
  shows "program_path buf len = path_of (take len buf)"
proof -
  have hd: "hd (take len buf) = buf ! 0" using assms by (subst hd_conv_nth) auto
  have bin: "length (ascii ''/bin/'') = 5" by (simp add: ascii_def)
  have "copy_into (replicate 128 0) 0 (ascii ''/bin/'') = Some (ascii ''/bin/'' @ replicate 123 (0 :: u8))"
    by (simp add: copy_into_def bin)
  moreover have "copy_into (ascii ''/bin/'' @ replicate 123 (0 :: u8)) 5 (take len buf) =
      (if len \<le> 123 then Some (ascii ''/bin/'' @ take len buf @ replicate (123 - len) 0) else None)"
    using assms by (simp add: copy_into_def bin)
  moreover have "copy_into (replicate 128 (0 :: u8)) 0 (take len buf) = Some (take len buf @ replicate (128 - len) 0)"
    using assms by (simp add: copy_into_def)
  ultimately show ?thesis
    using assms by (simp add: program_path_def path_of_def slice_def hd bin)
qed

lemma shell_command_program:
  assumes "length buf = 128" and "0 < len" and "len \<le> 128" and "utf8_valid (take len buf)" and "\<not> builtin (take len buf)"
  shows "shell_command e buf len w = map_option (\<lambda>path. start_program e path (take len buf) w) (path_of (take len buf))"
proof -
  have cmd: "slice buf 0 len = Some (take len buf)" using assms by (simp add: slice_def)
  have ne: "take len buf \<noteq> []" using assms by auto
  have run: "run_program e buf len (take len buf) w = map_option (\<lambda>path. start_program e path (take len buf) w) (path_of (take len buf))"
    using program_path_of [OF assms(1-3)] by (simp add: run_program_def map_conv_bind_option comp_def)
  have "prefix_commands e buf len (take len buf) w = run_program e buf len (take len buf) w"
    using assms(5) unfolding builtin_def prefix_commands_def strip_prefix_def by simp
  then show ?thesis
    using assms(4,5) ne run unfolding builtin_def shell_command_def cmd strip_prefix_def by simp
qed

text \<open>A shell whose world is the input, the position in the only file, and the output.\<close>

definition sample_shell :: "bytes \<Rightarrow> (bytes \<times> nat \<times> bytes) shell_env" where
  "sample_shell content =
     \<lparr>sh_net = \<lparr>ipc_connect = \<lambda>w. (None, w), ipc_recv = \<lambda>w h b. ((0, b), w), ipc_send = \<lambda>w h m. (0, w)\<rparr>,
      sh_show = \<lambda>r w. w,
      sh_read = \<lambda>(i, p, s). (case i of [] \<Rightarrow> None | c # later \<Rightarrow> Some (c, later, p, s)),
      sh_write = \<lambda>fd t (i, p, s). (i, p, s @ t),
      sh_open = \<lambda>name create w. (Some 3, w),
      sh_read2 = \<lambda>fd b (i, p, s). (take (length b) (drop p content), i, p + length b, s),
      sh_seek = \<lambda>fd off origin (i, p, s). (let q = (if origin = SEEK_END then length content else 0) + off in (q, i, q, s)),
      sh_close = \<lambda>fd w. w, sh_remove = \<lambda>name w. w, sh_mount = \<lambda>typ disk part path w. w, sh_opendir = \<lambda>path w. (None, w),
      sh_getdents = \<lambda>fd es w. ((None, es), w), sh_closedir = \<lambda>fd w. w, sh_info = \<lambda>tp w. (None, w), sh_getticks = \<lambda>w. (0, w),
      sh_fork = \<lambda>w. (0, w), sh_waitpid = \<lambda>pid w. w, sh_exec = \<lambda>path (i, p, s). (True, i, p, s @ path), sh_exit = \<lambda>w. w\<rparr>"


lemma feeds_sample: "feeds (sample_shell c) fst"
  by (auto simp: feeds_def sample_shell_def)


section \<open>Files\<close>

function chunks :: "bytes \<Rightarrow> bytes list" where
  "chunks s = (if s = [] then [] else take 512 s # chunks (drop 512 s))"
  by pat_completeness auto
termination by (relation "measure length") auto

declare chunks.simps [simp del]

text \<open>
  A descriptor of a file with the given contents: \<open>P p\<close> holds of the worlds where its position is \<open>p\<close>; \<open>shown\<close> is what has been written to
  the standard output.
\<close>

definition file_at :: "'w shell_env \<Rightarrow> nat \<Rightarrow> bytes \<Rightarrow> (nat \<Rightarrow> 'w \<Rightarrow> bool) \<Rightarrow> ('w \<Rightarrow> bytes) \<Rightarrow> bool" where
  "file_at e fd content P output \<longleftrightarrow>
     (\<forall>p b w. P p w \<and> p + length b \<le> length content \<longrightarrow>
        (\<exists>w'. sh_read2 e fd b w = (take (length b) (drop p content), w') \<and> P (p + length b) w' \<and> output w' = output w)) \<and>
     (\<forall>p w. P p w \<longrightarrow>
        (\<exists>w'. sh_seek e fd 0 SEEK_END w = (length content, w') \<and> P (length content) w' \<and> output w' = output w) \<and>
        (\<exists>w'. sh_seek e fd 0 SEEK_SET w = (0, w') \<and> P 0 w' \<and> output w' = output w)) \<and>
     (\<forall>p s w. P p w \<longrightarrow> P p (sh_write e 1 s w) \<and> output (sh_write e 1 s w) = output w @ s) \<and>
     (\<forall>w. output (sh_close e fd w) = output w)"

lemma print_rest_output:
  assumes "file_at e fd content P output"
  shows "\<lbrakk>P p w; p + remaining = length content; length buf = 512\<rbrakk> \<Longrightarrow>
    (if \<forall>c\<in>set (chunks (drop p content)). utf8_valid c
     then \<exists>w'. print_rest e fd remaining buf w = Some w' \<and> output w' = output w @ drop p content
     else print_rest e fd remaining buf w = None)"
proof (induction remaining arbitrary: p buf w rule: less_induct)
  case (less remaining)
  show ?case
  proof (cases "remaining = 0")
    case True
    then show ?thesis using less.prems by (simp add: print_rest.simps [of e] chunks.simps)
  next
    case False
    define n where "n = min remaining 512"
    let ?c = "take 512 (drop p content)"
    have n: "0 < n" "n \<le> remaining" "n \<le> 512" "length (take n buf) = n" using False less.prems by (auto simp: n_def)
    have c: "take n (drop p content) = ?c" "drop 512 (drop p content) = drop (p + n) content"
      using less.prems(2) by (auto simp: n_def min_def add.commute)
    obtain w1 where w1: "sh_read2 e fd (take n buf) w = (?c, w1)" "P (p + n) w1" "output w1 = output w"
      using assms less.prems n c(1) unfolding file_at_def by (metis add_le_cancel_left)
    have w2: "P (p + n) (sh_write e 1 ?c w1)" "output (sh_write e 1 ?c w1) = output w @ ?c"
      using assms w1(2,3) unfolding file_at_def by metis+
    have len: "length (?c @ drop n buf) = 512" using less.prems(2,3) n c(1) [symmetric] by simp
    have step: "print_rest e fd remaining buf w =
        (if utf8_valid ?c then print_rest e fd (remaining - n) (?c @ drop n buf) (sh_write e 1 ?c w1) else None)"
      using False w1(1) by (subst print_rest.simps) (simp add: n_def Let_def)
    have ch: "chunks (drop p content) = ?c # chunks (drop (p + n) content)"
      using less.prems(2) False c(2) by (subst chunks.simps) simp
    have cat: "?c @ drop (p + n) content = drop p content" using c(2) by (metis append_take_drop_id)
    have "length content = p + n + (remaining - n)" "remaining - n < remaining" using n less.prems(2) by simp_all
    then have "(if \<forall>c\<in>set (chunks (drop (p + n) content)). utf8_valid c
       then \<exists>w'. print_rest e fd (remaining - n) (?c @ drop n buf) (sh_write e 1 ?c w1) = Some w' \<and>
              output w' = output (sh_write e 1 ?c w1) @ drop (p + n) content
       else print_rest e fd (remaining - n) (?c @ drop n buf) (sh_write e 1 ?c w1) = None)"
      using less.IH [OF _ w2(1) _ len] by metis
    then show ?thesis unfolding step ch w2(2) append_assoc cat by (auto simp del: One_nat_def)
  qed
qed

text \<open>
  The command \<^verbatim>\<open>file-read\<close> prints exactly the contents of the file if each of its blocks of 512 bytes is valid
  UTF-8, and panics if one is not, even when the file as a whole is.
\<close>

lemma file_read_prints:
  assumes "file_at e fd content P output" and "sh_open e name False w = (Some fd, w1)" and "P p w1" and "output w1 = output w"
  shows "(\<exists>w'. file_read e name w = Some w' \<and> output w' = output w @ content) \<and> (\<forall>c\<in>set (chunks content). utf8_valid c) \<or>
    file_read e name w = None \<and> (\<exists>c\<in>set (chunks content). \<not> utf8_valid c)"
proof -
  obtain w2 where w2: "sh_seek e fd 0 SEEK_END w1 = (length content, w2)" "P (length content) w2" "output w2 = output w1"
    using assms(1,3) unfolding file_at_def by metis
  obtain w3 where w3: "sh_seek e fd 0 SEEK_SET w2 = (0, w3)" "P 0 w3" "output w3 = output w2"
    using assms(1) w2(2) unfolding file_at_def by metis
  have r: "file_read e name w = map_option (sh_close e fd) (print_rest e fd (length content) (replicate 512 0) w3)"
    using assms(2) w2(1) w3(1) by (simp add: file_read_def with_file_def map_conv_bind_option comp_def)
  have close: "output (sh_close e fd w) = output w" for w using assms(1) unfolding file_at_def by blast
  show ?thesis
    using print_rest_output [OF assms(1) w3(2), of "length content" "replicate 512 0"] w3(3) w2(3) assms(4) close
    unfolding r by (auto split: if_splits)
qed

lemma file_at_sample: "file_at (sample_shell c) 3 c (\<lambda>p w. fst (snd w) = p) (\<lambda>w. snd (snd w))"
  by (auto simp: file_at_def sample_shell_def Let_def SEEK_END_def SEEK_SET_def)

lemma sample_shell_file:
  "sh_open (sample_shell c) name create w = (Some 3, w)"
  "sh_seek (sample_shell c) fd 0 SEEK_END (i, p, s) = (length c, i, length c, s)"
  "sh_seek (sample_shell c) fd 0 SEEK_SET (i, p, s) = (0, i, 0, s)"
  by (simp_all add: sample_shell_def SEEK_END_def SEEK_SET_def Let_def)

lemma file_read_prints_example:
  "\<exists>w'. file_read (sample_shell [104, 105]) (ascii ''/f'') ([], 0, []) = Some w' \<and> snd (snd w') = [104, 105]"
proof -
  have c: "chunks [104, 105] = [[104, 105]]" by (simp add: chunks.simps)
  show ?thesis
    using file_read_prints [OF file_at_sample, of "[104, 105]" "ascii ''/f''" "([], 0, [])" "([], 0, [])" 0] c
    by (simp add: sample_shell_file)
qed

text \<open>A valid file of 513 bytes on which \<^verbatim>\<open>file-read\<close> panics: a character of two bytes lies on the border of two blocks.\<close>

lemma file_read_splits_character:
  fixes c :: bytes
  defines "c \<equiv> replicate 511 65 @ [0xC3, 0xA9]"
  shows "utf8_valid c" and "file_read (sample_shell c) name ([], 0, []) = None"
proof -
  have run: "utf8_valid (replicate n 65 @ s) = utf8_valid s" for n s by (induction n) auto
  show "utf8_valid c" unfolding c_def run by (simp add: utf8_cont_def)
  have "take 512 c = replicate 511 65 @ [0xC3]" by (simp add: c_def)
  then have "\<not> utf8_valid (take 512 c)" by (simp only: run) simp
  moreover have "take 512 c \<in> set (chunks c)" by (subst chunks.simps) (simp add: c_def)
  ultimately have "\<not> (\<forall>x\<in>set (chunks c). utf8_valid x)" by blast
  then show "file_read (sample_shell c) name ([], 0, []) = None"
    using print_rest_output [OF file_at_sample, of "([], 0, [])" 0 "length c" c "replicate 512 0"]
    by (auto simp: file_read_def with_file_def sample_shell_file)
qed

text \<open>
  \<^verbatim>\<open>file-write\<close> ends at the letters \<^verbatim>\<open>EOF\<close> at the start of its buffer. That line is part of the file, and letters left from an
  earlier line count: after the line \<^verbatim>\<open>xOF\<close> the line \<^verbatim>\<open>E\<close> ends the file.
\<close>

lemma read_line_sample: "read_line_from (sample_shell c) i buf w = Some (n, b, w') \<Longrightarrow> snd w' = snd w"
proof (induction "length buf - i" arbitrary: i buf w rule: less_induct)
  case less
  show ?case
  proof (cases "i < length buf \<and> fst w \<noteq> []")
    case True
    then obtain x later where x: "fst w = x # later" "i < length buf" by (cases "fst w") auto
    then have "sh_read (sample_shell c) w = Some (x, later, snd w)" by (cases w) (simp add: sample_shell_def)
    then show ?thesis
      using less.prems less.hyps [of "buf[i := x]" "i + 1" "(later, snd w)"] x(2)
      by (subst (asm) read_line_from.simps) (auto split: if_splits)
  next
    case False
    then have "i < length buf \<Longrightarrow> sh_read (sample_shell c) w = None" by (cases w) (auto simp: sample_shell_def)
    then show ?thesis using less.prems by (subst (asm) read_line_from.simps) (simp split: if_splits)
  qed
qed

lemma file_write_stale_letters:
  "write_lines (sample_shell []) 3 (replicate 128 0) (ascii ''xOF'' @ 10 # ascii ''E'' @ 10 # rest, p, []) =
     Some (rest, p, ascii ''xOF'' @ [10] @ ascii ''E'' @ [10])"
proof -
  let ?e = "sample_shell []"
  let ?b = "ascii ''xOF'' @ drop 3 (replicate 128 0)"
  let ?d = "ascii ''E'' @ drop 1 ?b"
  let ?w = "(ascii ''xOF'' @ 10 # ascii ''E'' @ 10 # rest, p, [])"
  let ?v = "(ascii ''E'' @ 10 # rest, p, ascii ''xOF'' @ [10])"
  have l: "length (ascii ''xOF'') = 3" "length (ascii ''E'') = 1" "10 \<notin> set (ascii ''xOF'')" "10 \<notin> set (ascii ''E'')"
    by (simp_all add: ascii_def)
  obtain w1 where w1: "read_line ?e (replicate 128 0) ?w = Some (3, ?b, w1)" "fst w1 = ascii ''E'' @ 10 # rest"
    using read_line_newline [OF feeds_sample, of ?w "ascii ''xOF''" _ "replicate 128 0" "[]"] l by auto
  obtain w2 where w2: "read_line ?e ?b ?v = Some (1, ?d, w2)" "fst w2 = rest"
    using read_line_newline [OF feeds_sample, of ?v "ascii ''E''" rest ?b "[]"] l by auto
  have "w1 = (ascii ''E'' @ 10 # rest, p, [])" "w2 = (rest, p, ascii ''xOF'' @ [10])"
    using w1 w2 read_line_sample unfolding read_line_def by (metis prod.collapse snd_conv)+
  then have r: "read_line ?e (replicate 128 0) ?w = Some (3, ?b, ascii ''E'' @ 10 # rest, p, [])"
    "read_line ?e ?b ?v = Some (1, ?d, rest, p, ascii ''xOF'' @ [10])"
    using w1(1) w2(1) by simp_all
  have t: "slice ?b 0 3 = Some (ascii ''xOF'')" "slice ?d 0 1 = Some (ascii ''E'')" "utf8_valid (ascii ''xOF'')" "utf8_valid (ascii ''E'')"
    by (simp_all add: slice_def ascii_def)
  have d: "?b ! 0 \<noteq> 69" "?d ! 0 = 69" "?d ! 1 = 79" "?d ! 2 = 70" "(replicate 128 0 :: bytes) ! 0 \<noteq> 69" by (simp_all add: ascii_def)
  have w: "sh_write ?e fd t (i, q, s) = (i, q, s @ t)" for fd t i q s by (simp add: sample_shell_def)
  have "write_lines ?e 3 ?d (rest, p, ascii ''xOF'' @ [10] @ ascii ''E'' @ [10]) = Some (rest, p, ascii ''xOF'' @ [10] @ ascii ''E'' @ [10])"
    by (subst write_lines.simps) (simp only: d simp_thms if_False)
  then have "write_lines ?e 3 ?b ?v = Some (rest, p, ascii ''xOF'' @ [10] @ ascii ''E'' @ [10])"
    by (subst write_lines.simps) (simp only: d(1) r(2) t w Option.bind.bind_lunit split_conv simp_thms if_True append_assoc)
  then show ?thesis
    by (subst write_lines.simps) (simp only: d(5) r(1) t w Option.bind.bind_lunit split_conv simp_thms if_True append_assoc append_Nil append_Cons)
qed

end
