(* ===== verification/Screen.thy ===== *)
theory Screen
  imports Shell
begin

text \<open>
  The frame buffer \<^verbatim>\<open>console/framebuffer.rs\<close> and the image viewer \<^verbatim>\<open>apps/imgview/src/main.rs\<close>, which both write pixels of 32 bits. The
  memory of the frame buffer is a function from the address of a pixel to its value. The image decoders are crates and parameters of the viewer.
\<close>

section \<open>Pixels\<close>

type_synonym pixels = "nat \<Rightarrow> u32"

record FrameBuffer =
  fb_width :: nat
  fb_height :: nat
  fb_addr :: nat
  fb_pitch :: nat

definition fb_null :: FrameBuffer where
  "fb_null = \<lparr>fb_width = 0, fb_height = 0, fb_addr = 0, fb_pitch = 0\<rparr>"

definition fb_size :: "FrameBuffer \<Rightarrow> nat \<times> nat" where
  "fb_size fb = (fb_width fb, fb_height fb)"

definition rgb :: "u8 \<Rightarrow> u8 \<Rightarrow> u8 \<Rightarrow> u32" where
  "rgb r g b = push_bit 16 (ucast r) + push_bit 8 (ucast g) + ucast b"

text \<open>The offset of a pixel, with checked arithmetic.\<close>

definition pixel_offset :: "nat \<Rightarrow> nat \<Rightarrow> nat \<Rightarrow> nat option" where
  "pixel_offset pitch x y =
     do { a \<leftarrow> checked_mul y pitch; b \<leftarrow> checked_mul x 4; checked_add a b }"

definition draw_pixel :: "FrameBuffer \<Rightarrow> nat \<Rightarrow> nat \<Rightarrow> u8 \<times> u8 \<times> u8 \<Rightarrow> pixels \<Rightarrow> pixels option" where
  "draw_pixel fb x y color m =
     do { n \<leftarrow> pixel_offset (fb_pitch fb) x y;
          Some (m(fb_addr fb + n := (case color of (r, g, b) \<Rightarrow> rgb r g b))) }"

section \<open>The viewer\<close>

text \<open>A decoder gives the size of the image and its bytes, or words of 16 bits of which the upper halves count.\<close>

datatype samples = U8 bytes | U16 "u16 list"

record decoders =
  decode_jpeg :: "bytes \<Rightarrow> ((nat \<times> nat) \<times> bytes) option"
  decode_png :: "bytes \<Rightarrow> ((nat \<times> nat) \<times> samples) option"
  decode_ppm :: "bytes \<Rightarrow> ((nat \<times> nat) \<times> samples) option"
  decode_qoi :: "bytes \<Rightarrow> ((nat \<times> nat) \<times> bytes) option"

definition sample_bytes :: "samples \<Rightarrow> bytes" where
  "sample_bytes s = (case s of U8 data \<Rightarrow> data | U16 data \<Rightarrow> map (\<lambda>x. ucast (drop_bit 8 x)) data)"

definition ends_with :: "bytes \<Rightarrow> bytes \<Rightarrow> bool" where
  "ends_with s t \<longleftrightarrow> starts_with (rev s) (rev t)"

definition read_file :: "'w shell_env \<Rightarrow> bytes \<Rightarrow> 'w \<Rightarrow> bytes option \<times> 'w" where
  "read_file e path w =
     (case sh_open e path False w of
        (Some fd, w) \<Rightarrow>
          (let (sz, w) = sh_seek e fd 0 1 w;
               (_, w) = sh_seek e fd 0 2 w;
               (buf, w) = sh_read2 e fd (replicate sz 0) w in
           (Some buf, sh_close e fd w))
      | (None, w) \<Rightarrow> (None, w))"

definition process_file :: "'w shell_env \<Rightarrow> decoders \<Rightarrow> bytes \<Rightarrow> 'w \<Rightarrow> ((bytes \<times> nat \<times> nat) \<times> 'w) option" where
  "process_file e d path w =
     do { path \<leftarrow> (if utf8_valid path then Some path else None);
          let (r, w) = read_file e path w;
          content \<leftarrow> r;
          if ends_with path (ascii ''.jpg'') \<or> ends_with path (ascii ''.jpeg'')
          then do { ((width, height), buf) \<leftarrow> decode_jpeg d content; Some ((buf, width, height), w) }
          else if ends_with path (ascii ''.png'')
          then do { ((width, height), s) \<leftarrow> decode_png d content; Some ((sample_bytes s, width, height), w) }
          else if ends_with path (ascii ''.ppm'')
          then do { ((width, height), s) \<leftarrow> decode_ppm d content; Some ((sample_bytes s, width, height), w) }
          else if ends_with path (ascii ''.qoi'')
          then do { ((width, height), buf) \<leftarrow> decode_qoi d content; Some ((buf, width, height), w) }
          else Some (([], 0, 0), w) }"

definition get_framebuffer :: "'w shell_env \<Rightarrow> 'w \<Rightarrow> ((nat \<times> nat \<times> nat \<times> nat) \<times> 'w) option" where
  "get_framebuffer e w =
     do { (base_ptr, w) \<leftarrow> info e 8 w; (fb_w, w) \<leftarrow> info e 6 w; (fb_h, w) \<leftarrow> info e 7 w; (pitch, w) \<leftarrow> info e 9 w;
          Some ((base_ptr, fb_w, fb_h, pitch), w) }"

definition image_pixel :: "bytes \<Rightarrow> nat \<Rightarrow> nat \<Rightarrow> nat \<Rightarrow> u32 option" where
  "image_pixel buf width i j =
     do { a \<leftarrow> checked_mul i width; a \<leftarrow> checked_add a j; base \<leftarrow> checked_mul a 3;
          r \<leftarrow> nth_opt buf base; g \<leftarrow> nth_opt buf (base + 1); b \<leftarrow> nth_opt buf (base + 2);
          Some (rgb r g b) }"

definition draw_image :: "nat \<Rightarrow> nat \<Rightarrow> nat \<Rightarrow> nat \<Rightarrow> bytes \<Rightarrow> nat \<Rightarrow> nat \<Rightarrow> pixels \<Rightarrow> pixels option" where
  "draw_image base_ptr fb_w fb_h pitch buf width height m =
     for_each (\<lambda>i. for_each (\<lambda>j m. do { v \<leftarrow> image_pixel buf width i j; n \<leftarrow> pixel_offset pitch j i; Some (m(base_ptr + n := v)) })
       [0..<min width fb_w]) [0..<min height fb_h] m"

definition imgview_main :: "'w shell_env \<Rightarrow> decoders \<Rightarrow> pixels \<Rightarrow> 'w \<Rightarrow> (pixels \<times> 'w) option" where
  "imgview_main e d m w =
     do { (len, path_buf, w) \<leftarrow> read_line e (replicate 128 0) (say e (ascii ''Image file path: '') w);
          path \<leftarrow> slice path_buf 0 len;
          ((buf, width, height), w) \<leftarrow> process_file e d path w;
          ((base_ptr, fb_w, fb_h, pitch), w) \<leftarrow> get_framebuffer e w;
          m \<leftarrow> draw_image base_ptr fb_w fb_h pitch buf width height m;
          (_, w) \<leftarrow> sh_read e w;
          Some (m, w) }"

section \<open>The picture\<close>

text \<open>Nested loops are one loop over the pairs.\<close>

lemma for_each_nested:
  "for_each (\<lambda>i. for_each (\<lambda>j m. f i j m) ys) xs m = for_each (\<lambda>(i, j). f i j) (List.product xs ys) m"
proof (induction xs arbitrary: m)
  case (Cons x xs)
  have app: "for_each g (as @ bs) s = Option.bind (for_each g as s) (for_each g bs)" for g :: "'x \<Rightarrow> 's \<Rightarrow> 's option" and as bs s
  proof (induction as arbitrary: s)
    case (Cons a as)
    then show ?case by (cases "g a s") simp_all
  qed simp
  have map: "for_each (\<lambda>(i, j). f i j) (map (Pair x) ys) m = for_each (\<lambda>j m. f x j m) ys m" for m
  proof (induction ys arbitrary: m)
    case (Cons y ys)
    then show ?case by (cases "f x y m") simp_all
  qed simp
  show ?case by (cases "for_each (f x) ys m") (simp_all add: app map Cons.IH)
qed simp

lemma for_each_updates:
  assumes "\<And>p m. p \<in> set ps \<Longrightarrow> f p m = Some (m(a p := v p))"
  shows "for_each f ps m = Some (fold (\<lambda>p m. m(a p := v p)) ps m)"
  using assms by (induction ps arbitrary: m) simp_all

lemma fold_updates:
  assumes "inj_on a (set ps)"
  shows "q \<in> set ps \<Longrightarrow> fold (\<lambda>p m. m(a p := v p)) ps m (a q) = v q"
    and "x \<notin> a ` set ps \<Longrightarrow> fold (\<lambda>p m. m(a p := v p)) ps m x = m x"
proof -
  show out: "x \<notin> a ` set ps \<Longrightarrow> fold (\<lambda>p m. m(a p := v p)) ps m x = m x" for x m
    by (induction ps arbitrary: m) auto
  show "q \<in> set ps \<Longrightarrow> fold (\<lambda>p m. m(a p := v p)) ps m (a q) = v q" using assms
  proof (induction ps rule: rev_induct)
    case (snoc p ps)
    show ?case
    proof (cases "a q = a p")
      case True
      then have "q = p" using inj_onD [OF snoc.prems(2)] snoc.prems(1) by simp
      then show ?thesis by simp
    next
      case False
      then have "q \<in> set ps" using snoc.prems(1) by auto
      then show ?thesis using False snoc by (simp add: inj_on_Un)
    qed
  qed simp
qed

text \<open>
  The viewer draws the upper left part of the image that fits on the screen. If the decoder gives three bytes for
  every pixel, the loop does not panic, every visible pixel gets its colour, and no other memory is written.
\<close>

lemma image_drawn:
  assumes "3 * (width * height) \<le> length buf" and "length buf < USIZE_LIMIT" and "4 * fb_w \<le> pitch" and "fb_h * pitch < USIZE_LIMIT"
  shows "\<exists>m'. draw_image base_ptr fb_w fb_h pitch buf width height m = Some m' \<and>
    (\<forall>i<min height fb_h. \<forall>j<min width fb_w.
       m' (base_ptr + (i * pitch + j * 4)) =
         rgb (buf ! ((i * width + j) * 3)) (buf ! ((i * width + j) * 3 + 1)) (buf ! ((i * width + j) * 3 + 2))) \<and>
    (\<forall>a. (\<nexists>i j. i < min height fb_h \<and> j < min width fb_w \<and> a = base_ptr + (i * pitch + j * 4)) \<longrightarrow> m' a = m a)"
proof -
  let ?ps = "List.product [0..<min height fb_h] [0..<min width fb_w]"
  let ?a = "\<lambda>(i, j). base_ptr + (i * pitch + j * 4)"
  let ?v = "\<lambda>(i, j). rgb (buf ! ((i * width + j) * 3)) (buf ! ((i * width + j) * 3 + 1)) (buf ! ((i * width + j) * 3 + 2))"
  let ?f = "\<lambda>(i, j) m. do { v \<leftarrow> image_pixel buf width i j; n \<leftarrow> pixel_offset pitch j i; Some (m(base_ptr + n := v)) }"
  have inside: "i * width + j + 1 \<le> width * height" "(i * width + j) * 3 + 3 \<le> length buf" if "i < height" "j < width" for i j
  proof -
    have "i * width + j + 1 \<le> Suc i * width" using that by simp
    also have "\<dots> \<le> height * width" using that by (intro mult_le_mono1) simp
    finally show le: "i * width + j + 1 \<le> width * height" by (simp add: mult.commute)
    have "(i * width + j) * 3 + 3 = 3 * (i * width + j + 1)" by simp
    also have "\<dots> \<le> 3 * (width * height)" by (rule mult_le_mono2 [OF le])
    finally show "(i * width + j) * 3 + 3 \<le> length buf" using assms(1) by linarith
  qed
  have off: "i * pitch + j * 4 < USIZE_LIMIT" if "i < fb_h" "j < fb_w" for i j
  proof -
    have "i * pitch + j * 4 \<le> Suc i * pitch" using that assms(3) by simp
    also have "\<dots> \<le> fb_h * pitch" using that by (intro mult_le_mono1) simp
    finally show ?thesis using assms(4) by linarith
  qed
  have step: "?f p m = Some (m(?a p := ?v p))" if p: "p \<in> set ?ps" for p m
  proof -
    obtain i j where ij: "p = (i, j)" "i < height" "i < fb_h" "j < width" "j < fb_w" using p by auto
    note b = inside [OF ij(2,4)]
    have "(i * width + j) * 3 < USIZE_LIMIT" using b(2) assms(2) by linarith
    then have "image_pixel buf width i j = Some (?v p)"
      using b(2) ij(1) by (simp add: image_pixel_def checked_mul_def checked_add_def)
    moreover have "pixel_offset pitch j i = Some (i * pitch + j * 4)"
      using off [OF ij(3,5)] by (simp add: pixel_offset_def checked_mul_def checked_add_def)
    ultimately show ?thesis using ij(1) by simp
  qed
  have inj: "inj_on ?a (set ?ps)"
  proof (rule inj_onI, clarsimp)
    fix i j i' j'
    assume e: "i * pitch + j * 4 = i' * pitch + j' * 4" and j: "j < fb_w" "j' < fb_w"
    have lt: "j * 4 < pitch" "j' * 4 < pitch" using j assms(3) by linarith+
    then have "i = (i * pitch + j * 4) div pitch" "i' = (i' * pitch + j' * 4) div pitch" by simp_all
    then have "i = i'" using e by simp
    with e show "i = i' \<and> j = j'" by simp
  qed
  have r: "draw_image base_ptr fb_w fb_h pitch buf width height m = Some (fold (\<lambda>p m. m(?a p := ?v p)) ?ps m)"
    unfolding draw_image_def for_each_nested
    using for_each_updates [of ?ps ?f ?a ?v m] step by (simp add: case_prod_unfold)
  show ?thesis
  proof (intro exI conjI, rule r)
    show "\<forall>i<min height fb_h. \<forall>j<min width fb_w. fold (\<lambda>p m. m(?a p := ?v p)) ?ps m (base_ptr + (i * pitch + j * 4)) =
        rgb (buf ! ((i * width + j) * 3)) (buf ! ((i * width + j) * 3 + 1)) (buf ! ((i * width + j) * 3 + 2))"
      using fold_updates(1) [OF inj, of "(i, j)" ?v m for i j] by auto
    show "\<forall>a. (\<nexists>i j. i < min height fb_h \<and> j < min width fb_w \<and> a = base_ptr + (i * pitch + j * 4)) \<longrightarrow> fold (\<lambda>p m. m(?a p := ?v p)) ?ps m a = m a"
      using fold_updates(2) [OF inj, of a ?v m for a] by fastforce
  qed
qed

lemma image_drawn_example:
  "\<exists>m'. draw_image 0 1 1 4 [1, 2, 3] 1 1 (\<lambda>_. 0) = Some m' \<and> m' 0 = rgb 1 2 3"
proof -
  have "(3 :: nat) * (1 * 1) \<le> length ([1, 2, 3] :: bytes)" "length ([1, 2, 3] :: bytes) < USIZE_LIMIT" by simp_all
  from image_drawn [OF this, of 1 4 1 0 "\<lambda>_. 0"] show ?thesis by auto
qed

end
