(* ===== verification/IpcDemo.thy ===== *)
theory IpcDemo
  imports Vfs
begin

text \<open>
  The demonstration of the IPC channels, \<^verbatim>\<open>apps/ipc-demo/src/main.rs\<close>: a parent and a child on an anonymous channel, then a server and
  three clients on a named one. Every process runs this program; what a process does from its start to its exit is a function of the answers
  of the system calls. The parameter \<open>demo_env\<close> has these calls. \<^term>\<open>None\<close> is a panic or a wait without end.
\<close>

record 'w demo_env =
  dm_create :: "'w \<Rightarrow> (nat \<times> nat) option \<times> 'w"
  dm_send :: "nat \<Rightarrow> bytes \<Rightarrow> 'w \<Rightarrow> int \<times> 'w"
  dm_recv :: "nat \<Rightarrow> bytes \<Rightarrow> 'w \<Rightarrow> (int \<times> bytes) \<times> 'w"
  dm_close :: "nat \<Rightarrow> 'w \<Rightarrow> 'w"
  dm_bind :: "bytes \<Rightarrow> 'w \<Rightarrow> nat option \<times> 'w"
  dm_connect :: "bytes \<Rightarrow> 'w \<Rightarrow> nat option \<times> 'w"
  dm_accept :: "nat \<Rightarrow> 'w \<Rightarrow> nat option \<times> 'w"
  dm_fork :: "'w \<Rightarrow> nat \<times> 'w"
  dm_waitpid :: "nat \<Rightarrow> 'w \<Rightarrow> 'w"
  dm_write :: "nat \<Rightarrow> bytes \<Rightarrow> 'w \<Rightarrow> 'w"

definition NAMED_CHANNEL :: bytes where
  "NAMED_CHANNEL = ascii ''ipc-demo.named''"

text \<open>A formatted line on the standard output or error, as one write.\<close>

definition println :: "'w demo_env \<Rightarrow> bytes \<Rightarrow> 'w \<Rightarrow> 'w" where
  "println e s w = dm_write e 1 (s @ [10]) w"

definition eprintln :: "'w demo_env \<Rightarrow> bytes \<Rightarrow> 'w \<Rightarrow> 'w" where
  "eprintln e s w = dm_write e 0 (s @ [10]) w"

definition fmt_isize :: "int \<Rightarrow> bytes" where
  "fmt_isize n = (if n < 0 then 45 # fmt_usize (nat (- n)) else fmt_usize (nat n))"

partial_function (option) demo_recv_poll :: "'w demo_env \<Rightarrow> nat \<Rightarrow> bytes \<Rightarrow> 'w \<Rightarrow> ((int \<times> bytes) \<times> 'w) option" where
  "demo_recv_poll e handle buf w =
     (let ((recv_len, buf), w) = dm_recv e handle buf w in
      if recv_len \<noteq> - 11 then Some ((recv_len, buf), w) else demo_recv_poll e handle buf w)"

partial_function (option) demo_connect_poll :: "'w demo_env \<Rightarrow> bytes \<Rightarrow> 'w \<Rightarrow> (nat \<times> 'w) option" where
  "demo_connect_poll e name w =
     (case dm_connect e name w of (Some handle, w) \<Rightarrow> Some (handle, w) | (None, w) \<Rightarrow> demo_connect_poll e name w)"

partial_function (option) demo_accept_poll :: "'w demo_env \<Rightarrow> nat \<Rightarrow> 'w \<Rightarrow> (nat \<times> 'w) option" where
  "demo_accept_poll e listener w =
     (case dm_accept e listener w of (Some handle, w) \<Rightarrow> Some (handle, w) | (None, w) \<Rightarrow> demo_accept_poll e listener w)"

text \<open>The text of a received message.\<close>

definition message_text :: "int \<Rightarrow> bytes \<Rightarrow> bytes option" where
  "message_text recv_len buf =
     do { m \<leftarrow> slice buf 0 (nat recv_len); Some (if utf8_valid m then m else ascii ''<invalid utf8>'') }"

definition client_label :: "nat \<Rightarrow> bytes" where
  "client_label client_id = ascii ''ipc-demo client '' @ fmt_usize client_id"

definition client_message :: "nat \<Rightarrow> bytes option" where
  "client_message client_id =
     do { let msg = ascii ''hello from client '';
          outbound \<leftarrow> copy_into (replicate 32 0) 0 msg;
          digit \<leftarrow> (if 48 + unat (of_nat client_id :: u8) < 256 then Some (48 + of_nat client_id) else None);
          outbound \<leftarrow> upd_opt outbound (length msg) digit;
          slice outbound 0 (length msg + 1) }"

definition run_named_client :: "'w demo_env \<Rightarrow> nat \<Rightarrow> 'w \<Rightarrow> 'w option" where
  "run_named_client e client_id w =
     do { (handle, w) \<leftarrow> demo_connect_poll e NAMED_CHANNEL w;
          let w = println e (client_label client_id @ ascii '' connected'') w;
          outbound \<leftarrow> client_message client_id;
          let (send_len, w) = dm_send e handle outbound w;
          let w = (if send_len < 0 then eprintln e (client_label client_id @ ascii '': send failed '' @ fmt_isize send_len) w else w);
          ((recv_len, buf), w) \<leftarrow> demo_recv_poll e handle (replicate 128 0) w;
          w \<leftarrow> (if recv_len < 0
             then Some (eprintln e (client_label client_id @ ascii '': recv failed '' @ fmt_isize recv_len) w)
             else do { msg \<leftarrow> message_text recv_len buf; Some (println e (client_label client_id @ ascii '' received: '' @ msg) w) });
          Some (dm_close e handle w) }"

definition server_reply :: "nat \<Rightarrow> bytes option" where
  "server_reply client_id =
     do { let pre = ascii ''ack '';
          reply \<leftarrow> copy_into (replicate 32 0) 0 pre;
          digit \<leftarrow> (if 48 + unat (of_nat client_id :: u8) < 256 then Some (48 + of_nat client_id) else None);
          reply \<leftarrow> upd_opt reply (length pre) digit;
          slice reply 0 (length pre + 1) }"

definition serve_one :: "'w demo_env \<Rightarrow> nat \<Rightarrow> nat \<Rightarrow> 'w \<Rightarrow> 'w option" where
  "serve_one e listener client_id w =
     do { (conn, w) \<leftarrow> demo_accept_poll e listener w;
          ((recv_len, buf), w) \<leftarrow> demo_recv_poll e conn (replicate 128 0) w;
          w \<leftarrow> (if recv_len < 0
             then Some (eprintln e (ascii ''ipc-demo server: recv from client '' @ fmt_usize client_id @ ascii '' failed '' @ fmt_isize recv_len) w)
             else do { msg \<leftarrow> message_text recv_len buf;
                       let w = println e (ascii ''ipc-demo server accepted client '' @ fmt_usize client_id @ ascii '': '' @ msg) w;
                       reply \<leftarrow> server_reply client_id;
                       let (send_len, w) = dm_send e conn reply w;
                       Some (if send_len < 0
                             then eprintln e (ascii ''ipc-demo server: reply to client '' @ fmt_usize client_id @ ascii '' failed '' @
                               fmt_isize send_len) w
                             else w) });
          Some (dm_close e conn w) }"

definition run_named_server :: "'w demo_env \<Rightarrow> 'w \<Rightarrow> 'w option" where
  "run_named_server e w =
     (case dm_bind e NAMED_CHANNEL w of
        (None, w) \<Rightarrow> Some (eprintln e (ascii ''ipc-demo server: bind failed'') w)
      | (Some listener, w) \<Rightarrow>
          do { let w = println e (ascii ''ipc-demo server listening on '' @ NAMED_CHANNEL) w;
               w \<leftarrow> for_each (serve_one e listener) [1, 2, 3] w;
               Some (dm_close e listener w) })"

definition demo_child :: "'w demo_env \<Rightarrow> nat \<Rightarrow> nat \<Rightarrow> 'w \<Rightarrow> 'w option" where
  "demo_child e parent_end child_end w =
     do { let w = dm_close e parent_end w;
          ((recv_len, buf), w) \<leftarrow> demo_recv_poll e child_end (replicate 128 0) w;
          w \<leftarrow> (if recv_len < 0 then Some (eprintln e (ascii ''ipc-demo child: recv failed '' @ fmt_isize recv_len) w)
             else do { msg \<leftarrow> message_text recv_len buf;
                       let w = println e (ascii ''ipc-demo child received: '' @ msg) w;
                       let (send_len, w) = dm_send e child_end (ascii ''hello from child'') w;
                       Some (if send_len < 0 then eprintln e (ascii ''ipc-demo child: send failed '' @ fmt_isize send_len) w
                             else println e (ascii ''ipc-demo child sent '' @ fmt_isize send_len @ ascii '' bytes'') w) });
          Some (dm_close e child_end w) }"

text \<open>The clients: a child that runs client \<open>idx + 1\<close> ends there; the result says whether the process is still the parent.\<close>

fun start_clients :: "'w demo_env \<Rightarrow> nat list \<Rightarrow> nat list \<Rightarrow> 'w \<Rightarrow> (nat list option \<times> 'w) option" where
  "start_clients e [] pids w = Some (Some pids, w)"
| "start_clients e (idx # rest) pids w =
     (let (fork_pid, w) = dm_fork e w in
      if fork_pid = 0 then do { w \<leftarrow> run_named_client e (idx + 1) w; Some (None, w) }
      else start_clients e rest (pids[idx := fork_pid]) w)"

definition demo_start :: "'w demo_env \<Rightarrow> 'w \<Rightarrow> 'w option" where
  "demo_start e w =
     (case dm_create e w of
        (None, w) \<Rightarrow> Some (eprintln e (ascii ''ipc-demo: ipc_create failed'') w)
      | (Some (parent_end, child_end), w) \<Rightarrow>
          (let (pid, w) = dm_fork e w in
           if pid = 0 then demo_child e parent_end child_end w
           else do {
             let w = dm_close e child_end w;
             let (send_len, w) = dm_send e parent_end (ascii ''hello from parent'') w;
             let w = (if send_len < 0 then eprintln e (ascii ''ipc-demo parent: send failed '' @ fmt_isize send_len) w
                      else println e (ascii ''ipc-demo parent sent '' @ fmt_isize send_len @ ascii '' bytes'') w);
             ((recv_len, buf), w) \<leftarrow> demo_recv_poll e parent_end (replicate 128 0) w;
             w \<leftarrow> (if recv_len < 0 then Some (eprintln e (ascii ''ipc-demo parent: recv failed '' @ fmt_isize recv_len) w)
                else do { msg \<leftarrow> message_text recv_len buf; Some (println e (ascii ''ipc-demo parent received: '' @ msg) w) });
             let w = dm_waitpid e pid (dm_close e parent_end w);
             let (server_pid, w) = dm_fork e w;
             if server_pid = 0 then run_named_server e w
             else do {
               (r, w) \<leftarrow> start_clients e [0, 1, 2] [0, 0, 0] w;
               case r of
                 None \<Rightarrow> Some w
               | Some client_pids \<Rightarrow> Some (dm_waitpid e server_pid (fold (dm_waitpid e) client_pids w)) } }))"

section \<open>The messages\<close>

lemma client_message_text: "n < 10 \<Longrightarrow> client_message n = Some (ascii ''hello from client '' @ fmt_usize n)"
proof -
  assume n: "n < 10"
  have l: "length (ascii ''hello from client '') = 18" by (simp add: ascii_def)
  have u: "unat (of_nat n :: u8) = n" using n by (simp add: unat_of_nat)
  have r: "replicate 14 (0 :: u8) = 0 # replicate 13 0" by (simp flip: replicate_Suc)
  show ?thesis
    using n by (simp add: client_message_def r copy_into_def upd_opt_def slice_def l u fmt_usize.simps list_update_append take_Cons')
qed

text \<open>A message is shown whatever its bytes, if the receive call keeps to the buffer.\<close>

lemma message_text_total: "0 \<le> n \<Longrightarrow> n \<le> int (length buf) \<Longrightarrow> message_text n buf \<noteq> None"
  by (auto simp: message_text_def slice_def)

end
