(* ===== verification/Nic.thy ===== *)
theory Nic
  imports Dma Pcie Storage
begin

text \<open>
  The network cards: \<^verbatim>\<open>net/mod.rs\<close> and the RTL8139 driver \<^verbatim>\<open>net/rtl8139.rs\<close>. The ports of the card are functions of the state of the hardware and
  of main memory, into which the card writes the packets. A received packet is printed by the kernel; here it is a result. The driver reads
  the receive buffer without checks, so that what the card writes decides whether it stays inside and whether its arithmetic overflows.
\<close>

section \<open>Ports\<close>

record 'h nic_world =
  nihw :: 'h
  nimach :: machine

record 'h nic_env =
  ni_bits :: bit_ops
  ni_in8 :: "'h \<Rightarrow> (nat \<Rightarrow> u8) \<Rightarrow> u16 \<Rightarrow> u8 \<times> 'h \<times> (nat \<Rightarrow> u8)"
  ni_in16 :: "'h \<Rightarrow> (nat \<Rightarrow> u8) \<Rightarrow> u16 \<Rightarrow> u16 \<times> 'h \<times> (nat \<Rightarrow> u8)"
  ni_out8 :: "'h \<Rightarrow> (nat \<Rightarrow> u8) \<Rightarrow> u16 \<Rightarrow> u8 \<Rightarrow> 'h \<times> (nat \<Rightarrow> u8)"
  ni_out16 :: "'h \<Rightarrow> (nat \<Rightarrow> u8) \<Rightarrow> u16 \<Rightarrow> u16 \<Rightarrow> 'h \<times> (nat \<Rightarrow> u8)"
  ni_out32 :: "'h \<Rightarrow> (nat \<Rightarrow> u8) \<Rightarrow> u16 \<Rightarrow> u32 \<Rightarrow> 'h \<times> (nat \<Rightarrow> u8)"

definition after_port :: "'h nic_world \<Rightarrow> 'h \<times> (nat \<Rightarrow> u8) \<Rightarrow> 'h nic_world" where
  "after_port s r = s\<lparr>nihw := fst r, nimach := (nimach s)\<lparr>ram := snd r\<rparr>\<rparr>"

definition port_read8 :: "'h nic_env \<Rightarrow> u16 \<Rightarrow> 'h nic_world \<Rightarrow> u8 \<times> 'h nic_world" where
  "port_read8 e p s = (let (v, r) = ni_in8 e (nihw s) (ram (nimach s)) p in (v, after_port s r))"

definition port_read16 :: "'h nic_env \<Rightarrow> u16 \<Rightarrow> 'h nic_world \<Rightarrow> u16 \<times> 'h nic_world" where
  "port_read16 e p s = (let (v, r) = ni_in16 e (nihw s) (ram (nimach s)) p in (v, after_port s r))"

definition port_write8 :: "'h nic_env \<Rightarrow> u16 \<Rightarrow> u8 \<Rightarrow> 'h nic_world \<Rightarrow> 'h nic_world" where
  "port_write8 e p v s = after_port s (ni_out8 e (nihw s) (ram (nimach s)) p v)"

definition port_write16 :: "'h nic_env \<Rightarrow> u16 \<Rightarrow> u16 \<Rightarrow> 'h nic_world \<Rightarrow> 'h nic_world" where
  "port_write16 e p v s = after_port s (ni_out16 e (nihw s) (ram (nimach s)) p v)"

definition port_write32 :: "'h nic_env \<Rightarrow> u16 \<Rightarrow> u32 \<Rightarrow> 'h nic_world \<Rightarrow> 'h nic_world" where
  "port_write32 e p v s = after_port s (ni_out32 e (nihw s) (ram (nimach s)) p v)"

text \<open>Arithmetic on \<^verbatim>\<open>u16\<close> that is checked.\<close>

definition add16 :: "u16 \<Rightarrow> u16 \<Rightarrow> u16 option" where
  "add16 a b = (if unat a + unat b < 2 ^ 16 then Some (a + b) else None)"

definition sub16 :: "u16 \<Rightarrow> u16 \<Rightarrow> u16 option" where
  "sub16 a b = (if b \<le> a then Some (a - b) else None)"

section \<open>The card\<close>

record Rtl8139 =
  io_base :: u16
  mac :: bytes
  rx_buffer :: dma_buffer
  cur_rx :: u16

definition reset_busy :: "'h nic_env \<Rightarrow> u16 \<Rightarrow> 'h nic_world \<Rightarrow> (bool \<times> 'h nic_world) option" where
  "reset_busy e p s = (let (v, s) = port_read8 e p s in Some (v AND 0x10 \<noteq> 0, s))"

definition read_mac :: "'h nic_env \<Rightarrow> u16 \<Rightarrow> 'h nic_world \<Rightarrow> (bytes \<times> 'h nic_world) option" where
  "read_mac e io s =
     for_each (\<lambda>i (m, s). do { p \<leftarrow> add16 io (of_nat i); let (v, s) = port_read8 e p s; Some (m[i := v], s) }) [0..<6] (replicate 6 0, s)"

definition from_io_base :: "'h nic_env \<Rightarrow> u16 \<Rightarrow> 'h nic_world \<Rightarrow> (Rtl8139 \<times> 'h nic_world) option" where
  "from_io_base e io s =
     do { (m, s) \<leftarrow> read_mac e io s;
          cmd \<leftarrow> add16 io 0x37;
          s \<leftarrow> wait_while (reset_busy e cmd) (port_write8 e cmd 0x10 s);
          (mach, r) \<leftarrow> dma_new (ni_bits e) (nimach s) 8208 PAGE_SIZE;
          buf \<leftarrow> (case r of Inl err \<Rightarrow> None | Inr b \<Rightarrow> Some b);
          let s = s\<lparr>nimach := mach\<rparr>;
          phys \<leftarrow> (if physical_address buf < 2 ^ 32 then Some (of_nat (physical_address buf)) else None);
          p30 \<leftarrow> add16 io 0x30;
          let s = port_write32 e p30 phys s;
          p44 \<leftarrow> add16 io 0x44;
          let s = port_write8 e p44 0xf s;
          let s = port_write8 e cmd 0x0c s;
          Some (\<lparr>io_base = io, mac = m, rx_buffer = buf, cur_rx = 0\<rparr>, s) }"

text \<open>The constructor: bus mastering is enabled in the configuration space, and the bar names the ports.\<close>

definition rtl8139_new :: "'h nic_env \<Rightarrow> 'h nic_world pci_env \<Rightarrow> nat \<Rightarrow> 'h nic_world \<Rightarrow> (Rtl8139 \<times> 'h nic_world) option" where
  "rtl8139_new e pe cfg s =
     do { (command, s) \<leftarrow> read_u16 pe cfg 4 s;
          s \<leftarrow> write_u16 pe cfg 4 (command OR push_bit 2 1) s;
          let (bar, s) = cfg_read32 pe s (cfg + 0x10);
          from_io_base e (ucast (bar AND NOT 3)) s }"

definition hex_digit :: "u8 \<Rightarrow> u8" where
  "hex_digit d = (if d < 10 then 48 + d else 87 + d)"

text \<open>\<^verbatim>\<open>{:02x}\<close> of each byte, with colons.\<close>

definition format_mac :: "Rtl8139 \<Rightarrow> bytes" where
  "format_mac nic =
     tl (concat (map (\<lambda>b. [58, hex_digit (drop_bit 4 b), hex_digit (b AND 0xf)]) (take 6 (mac nic))))"

definition nic_header :: "Rtl8139 \<Rightarrow> u16 \<Rightarrow> 'h nic_world \<Rightarrow> u32" where
  "nic_header nic i s =
     (let bs = mem_bytes (ram (nimach s)) (physical_address (rx_buffer nic) + unat i) 4 in u32_from_le (bs ! 0) (bs ! 1) (bs ! 2) (bs ! 3))"

definition rx_status :: "u32 \<Rightarrow> u16" where
  "rx_status rx_header = ucast (rx_header AND 0xffff)"

definition rx_size :: "u32 \<Rightarrow> u16" where
  "rx_size rx_header = ucast (drop_bit 16 rx_header)"

text \<open>The place of the next packet: rounded up to a word, and back by the length of the ring.\<close>

definition next_index :: "u16 \<Rightarrow> u16 \<Rightarrow> u16 option" where
  "next_index read_index sz =
     do { step \<leftarrow> add16 sz 7;
          i \<leftarrow> add16 read_index step;
          let i = i AND NOT 3;
          Some (if i > 8192 then i - 8192 else i) }"

text \<open>One poll; the result has the packet that is printed.\<close>

definition nic_poll :: "'h nic_env \<Rightarrow> Rtl8139 \<Rightarrow> 'h nic_world \<Rightarrow> (bytes option \<times> Rtl8139 \<times> 'h nic_world) option" where
  "nic_poll e nic s =
     do { p3e \<leftarrow> add16 (io_base nic) 0x3e;
          let (status, s) = port_read16 e p3e s;
          let s = port_write16 e p3e status s;
          if status AND 1 = 0 then Some (None, nic, s)
          else do {
            let read_index = cur_rx nic;
            let rx_header = nic_header nic read_index s;
            packet \<leftarrow> (if rx_status rx_header AND 1 \<noteq> 0
               then do { len \<leftarrow> checked_sub (unat (rx_size rx_header)) 4;
                         Some (Some (mem_bytes (ram (nimach s)) (physical_address (rx_buffer nic) + (unat read_index + 4)) len)) }
               else Some None);
            read_index \<leftarrow> next_index read_index (rx_size rx_header);
            p38 \<leftarrow> add16 (io_base nic) 0x38;
            capr \<leftarrow> sub16 read_index 16;
            Some (packet, nic\<lparr>cur_rx := read_index\<rparr>, port_write16 e p38 capr s) } }"

text \<open>
  The hook of the enumeration, and the table of the cards. The access to the configuration space is given on the state of the driver and on
  that of the enumeration, which has the table of the cards beside it.
\<close>

definition rtl8139_hook ::
  "'h nic_env \<Rightarrow> 'h nic_world pci_env \<Rightarrow> u8 \<Rightarrow> u8 \<Rightarrow> u8 \<Rightarrow> nat \<Rightarrow> 'h nic_world \<times> Rtl8139 list \<Rightarrow> ('h nic_world \<times> Rtl8139 list) option" where
  "rtl8139_hook e pe b d f cfg = (\<lambda>(s, nics).
     let (v, s) = vendor_id pe cfg s in
     if v \<noteq> 0x10ec then Some (s, nics)
     else let (i, s) = cfg_read16 pe s (cfg + 2) in
          if i \<noteq> 0x8139 then Some (s, nics)
          else do { (nic, s) \<leftarrow> rtl8139_new e pe cfg s; Some (s, nics @ [nic]) })"

definition rtl8139_init :: "'h nic_env \<Rightarrow> ('h nic_world \<times> Rtl8139 list) pci_env \<Rightarrow> 'h nic_world pci_env \<Rightarrow> pci_region list \<Rightarrow> 'h nic_world \<times> Rtl8139 list \<Rightarrow>
   ('h nic_world \<times> Rtl8139 list) option" where
  "rtl8139_init e pt pe rs s = doit pt (hhdm (nimach (fst s))) rs (rtl8139_hook e pe) s"

definition net_poll :: "'h nic_env \<Rightarrow> Rtl8139 list \<Rightarrow> 'h nic_world \<Rightarrow> (Rtl8139 list \<times> 'h nic_world) option" where
  "net_poll e nics s =
     for_each (\<lambda>nic (done_nics, s). do { (_, nic, s) \<leftarrow> nic_poll e nic s; Some (done_nics @ [nic], s) }) nics ([], s)"

section \<open>The ring\<close>

lemma and_not_3: "unat ((a :: u16) AND NOT 3) = unat a div 4 * 4"
proof -
  have m: "(3 :: u16) = mask 2" by (simp add: mask_eq_exp_minus_1)
  have "a AND NOT (mask 2) = push_bit 2 (drop_bit 2 a)"
  proof (rule bit_word_eqI)
    fix n
    assume n: "n < LENGTH(16)"
    show "bit (a AND NOT (mask 2)) n = bit (push_bit 2 (drop_bit 2 a)) n"
    proof (cases "n < 2")
      case False
      then have "Suc (Suc (n - 2)) = n" by simp
      with False n show ?thesis by (simp add: bit_simps)
    qed (simp add: bit_simps)
  qed
  moreover have "take_bit 16 (unat a) = unat a"
    using unat_less [of a] by (intro take_bit_nat_eq_self) simp
  ultimately have "unat (a AND NOT (mask 2)) = take_bit 16 (push_bit 2 (drop_bit 2 (unat a)))"
    by (simp add: unsigned_push_bit_eq unsigned_drop_bit_eq unat_drop_bit_eq)
  also have "push_bit 2 (drop_bit 2 (unat a)) = unat a div 4 * 4"
    by (simp add: push_bit_eq_mult drop_bit_eq_div)
  also have "take_bit 16 \<dots> = \<dots>"
    using unat_less [of a] by (intro take_bit_nat_eq_self) (simp add: order_le_less_trans [OF div_times_less_eq_dividend])
  finally show ?thesis by (simp only: m)
qed

lemma add16_Some: "add16 a b = Some c \<longleftrightarrow> unat a + unat b < 65536 \<and> unat c = unat a + unat b"
proof -
  have "unat (a + b) = unat a + unat b" if "unat a + unat b < 65536" using that by (simp add: unat_word_ariths)
  then show ?thesis by (auto simp: add16_def word_unat_eq_iff)
qed

lemma sub16_Some: "sub16 a b = Some c \<longleftrightarrow> unat b \<le> unat a \<and> unat c = unat a - unat b"
proof -
  have "unat (a - b) = unat a - unat b" if "b \<le> a" using that by (simp add: unat_sub)
  then show ?thesis by (auto simp: sub16_def word_unat_eq_iff word_le_nat_alt)
qed

text \<open>The next place as a number: none if the sum does not fit in sixteen bits.\<close>

definition ring_place :: "nat \<Rightarrow> nat" where
  "ring_place n = (let m = n div 4 * 4 in if m > 8192 then m - 8192 else m)"

lemma next_index_place:
  "next_index i n = Some j \<longleftrightarrow> unat i + unat n + 7 < 65536 \<and> unat j = ring_place (unat i + unat n + 7)"
proof (cases "unat i + unat n + 7 < 65536")
  case True
  then obtain step k where step: "add16 n 7 = Some step" "unat step = unat n + 7" and k: "add16 i step = Some k" "unat k = unat i + unat n + 7"
    using add16_Some [of n 7 "n + 7"] add16_Some [of i "n + 7" "i + (n + 7)"] by (auto simp: unat_word_ariths)
  let ?k = "k AND NOT 3"
  have m: "unat ?k = (unat i + unat n + 7) div 4 * 4" using and_not_3 [of k] k(2) by simp
  have "?k > 8192 \<longleftrightarrow> unat ?k > 8192" by (simp add: word_less_nat_alt)
  moreover have "unat (?k - 8192) = unat ?k - 8192" if "?k > 8192" using that by (simp add: unat_sub)
  ultimately have "unat (if ?k > 8192 then ?k - 8192 else ?k) = ring_place (unat i + unat n + 7)"
    using m by (auto simp: ring_place_def Let_def)
  then show ?thesis using True step(1) k(1) by (auto simp: next_index_def word_unat_eq_iff Let_def)
next
  case False
  have "next_index i n = None"
  proof (cases "add16 n 7")
    case (Some step)
    then have "unat step = unat n + 7" using add16_Some by simp
    then have "add16 i step = None" using False by (simp add: add16_def)
    with Some show ?thesis by (simp add: next_index_def)
  qed (simp add: next_index_def)
  with False show ?thesis by simp
qed

definition header_status :: "u32 \<Rightarrow> bool" where
  "header_status h \<longleftrightarrow> rx_status h AND 1 \<noteq> 0"

definition header_size :: "u32 \<Rightarrow> nat" where
  "header_size h = unat (rx_size h)"

text \<open>
  A poll that finds a packet, after the acknowledgement: it fails, in a build with overflow checks, exactly if the size of a good packet
  is less than four bytes, the sum of the place and the size overflows, or the next place is one of the first sixteen bytes of the
  ring. Otherwise the packet is the bytes behind the header and the place advances.
\<close>

lemma ring_place_less: "m < 65536 \<Longrightarrow> ring_place m < 65536"
  by (auto simp: ring_place_def Let_def)

lemma next_index_eq:
  "next_index i n = (let m = unat i + unat n + 7 in if m < 65536 then Some (of_nat (ring_place m)) else None)"
proof (cases "next_index i n")
  case None
  then have "\<not> unat i + unat n + 7 < 65536"
    using next_index_place [of i n "of_nat (ring_place (unat i + unat n + 7))"]
      ring_place_less [of "unat i + unat n + 7"] by (auto simp: unat_of_nat)
  with None show ?thesis by simp
next
  case (Some j)
  then have j: "unat i + unat n + 7 < 65536" "unat j = ring_place (unat i + unat n + 7)" using next_index_place by blast+
  have "j = of_nat (unat j)" by simp
  with j Some show ?thesis by (simp add: Let_def)
qed

lemma ring_place_aligned: "m \<le> 16384 \<Longrightarrow> ring_place m \<le> 8192" "4 dvd ring_place m"
proof -
  have "m div 4 * 4 - 8192 = (m div 4 - 2048) * 4" by simp
  then show "4 dvd ring_place m" by (simp only: ring_place_def Let_def) auto
  show "m \<le> 16384 \<Longrightarrow> ring_place m \<le> 8192" unfolding ring_place_def Let_def by (cases "m div 4 * 4 > 8192") auto
qed

lemma sub16_place:
  assumes "p < 65536"
  shows "sub16 (of_nat p) 16 = (if p < 16 then None else Some (of_nat (p - 16)))"
proof -
  have "unat (of_nat p :: u16) = p" using assms by (simp add: unat_of_nat)
  then show ?thesis by (simp add: sub16_def word_le_nat_alt of_nat_diff not_less)
qed

lemma nic_poll_packet:
  assumes io: "unat (io_base nic) + 0x3e < 65536" and status: "port_read16 e (io_base nic + 0x3e) s = (status, s1)" "status AND 1 \<noteq> 0"
    and t: "t = port_write16 e (io_base nic + 0x3e) status s1"
  shows "nic_poll e nic s =
    (let h = nic_header nic (cur_rx nic) t; m = unat (cur_rx nic) + header_size h + 7 in
     if header_status h \<and> header_size h < 4 \<or> m \<ge> 65536 \<or> ring_place m < 16 then None
     else Some (if header_status h
                then Some (mem_bytes (ram (nimach t)) (physical_address (rx_buffer nic) + (unat (cur_rx nic) + 4)) (header_size h - 4)) else None,
                nic\<lparr>cur_rx := of_nat (ring_place m)\<rparr>, port_write16 e (io_base nic + 0x38) (of_nat (ring_place m - 16)) t))"
proof -
  define h where "h = nic_header nic (cur_rx nic) t"
  let ?m = "unat (cur_rx nic) + header_size h + 7"
  have p: "add16 (io_base nic) 0x3e = Some (io_base nic + 0x3e)" "add16 (io_base nic) 0x38 = Some (io_base nic + 0x38)"
    using io by (simp_all add: add16_def)
  have n: "next_index (cur_rx nic) (rx_size h) = (if ?m < 65536 then Some (of_nat (ring_place ?m)) else None)"
    by (simp add: next_index_eq header_size_def Let_def)
  have q: "?m < 65536 \<Longrightarrow> sub16 (of_nat (ring_place ?m)) 16 = (if ring_place ?m < 16 then None else Some (of_nat (ring_place ?m - 16)))"
    using sub16_place [OF ring_place_less] by blast
  have c: "(4 \<le> header_size h) = (\<not> header_size h < 4)" "(?m \<ge> 65536) = (\<not> ?m < 65536)" by auto
  show ?thesis
    unfolding nic_poll_def p status(1) Let_def split_conv Option.bind.bind_lunit t [symmetric] h_def [symmetric] n
      header_status_def [symmetric] header_size_def [symmetric] checked_sub_def
    by (cases "?m < 65536"; cases "header_status h"; cases "header_size h < 4"; cases "ring_place ?m < 16")
      (simp_all only: c status(2) q simp_thms if_True if_False Option.bind.simps split_conv)
qed

definition acknowledged :: "'h nic_env \<Rightarrow> Rtl8139 \<Rightarrow> 'h nic_world \<Rightarrow> 'h nic_world" where
  "acknowledged e nic s = (let (status, s) = port_read16 e (io_base nic + 0x3e) s in port_write16 e (io_base nic + 0x3e) status s)"

text \<open>
  The place stays a word-aligned place of the ring as long as the card gives sizes below its length, and the packet then lies in
  the three pages of the buffer if it has at most 4092 bytes.
\<close>

lemma nic_place_kept:
  assumes "nic_poll e nic s = Some (p, nic', s')" and "unat (cur_rx nic) \<le> 8192" and "4 dvd unat (cur_rx nic)"
    and io: "unat (io_base nic) + 0x3e < 65536"
    and size: "header_size (nic_header nic (cur_rx nic) (acknowledged e nic s)) \<le> 8185"
  shows "unat (cur_rx nic') \<le> 8192 \<and> 4 dvd unat (cur_rx nic') \<and> rx_buffer nic' = rx_buffer nic"
proof -
  obtain status s1 where st: "port_read16 e (io_base nic + 0x3e) s = (status, s1)" by (cases "port_read16 e (io_base nic + 0x3e) s")
  show ?thesis
  proof (cases "status AND 1 = 0")
    case True
    then have "nic' = nic" using assms(1) io st by (simp add: nic_poll_def add16_def)
    with assms(2,3) show ?thesis by simp
  next
    case False
    let ?m = "unat (cur_rx nic) + header_size (nic_header nic (cur_rx nic) (port_write16 e (io_base nic + 0x3e) status s1)) + 7"
    have n: "nic' = nic\<lparr>cur_rx := of_nat (ring_place ?m)\<rparr>"
      using assms(1) unfolding nic_poll_packet [OF io st False refl] Let_def by (simp split: if_splits)
    have "header_size (nic_header nic (cur_rx nic) (port_write16 e (io_base nic + 0x3e) status s1)) \<le> 8185"
      using size by (simp add: acknowledged_def st)
    then have m: "ring_place ?m \<le> 8192" "4 dvd ring_place ?m" using ring_place_aligned [of ?m] assms(2) by linarith+
    obtain r where r: "r = ring_place ?m" by blast
    have "unat (of_nat r :: u16) = r" using m(1) r by (simp add: unat_of_nat)
    then show ?thesis using m unfolding n r [symmetric] by simp
  qed
qed

text \<open>A sequence of packets of the size of an acknowledgement that ends in a panic: the place comes back to the start of the ring.\<close>

lemma next_place_near_start: "next_index 8000 189 = Some 4" "sub16 4 16 = None"
  by (simp_all add: next_index_eq ring_place_def sub16_def)

end
