(* ===== verification/Fat.thy ===== *)
theory Fat
  imports Vfs
begin

text \<open>
  The adapter \<^verbatim>\<open>vfs/fat.rs\<close> between the crate \<^verbatim>\<open>fatfs\<close> and the traits of the virtual file system. The crate is the parameter
  \<open>fat_crate\<close>; its errors carry nothing that the adapter uses. The adapter turns errors into missing files, reads and writes of no bytes and the
  position 0, and makes a snapshot of a directory, which the system calls deliver in parts.
\<close>

text \<open>
  \<open>ff_entries\<close> gives the results of the iterator of a directory up to its end or its first error. A file is a value of the crate
  whose state is in the world.
\<close>

record ('t, 'v, 'w, 'f, 'r) fat_crate =
  ff_new :: "'t \<Rightarrow> 'v option"
  ff_root :: "'v \<Rightarrow> 'r"
  ff_open_file :: "'v \<Rightarrow> 'w \<Rightarrow> bytes \<Rightarrow> 'w \<times> 'f option"
  ff_open_dir :: "'v \<Rightarrow> 'w \<Rightarrow> bytes \<Rightarrow> 'w \<times> 'r option"
  ff_create_file :: "'v \<Rightarrow> 'w \<Rightarrow> bytes \<Rightarrow> 'w \<times> 'f option"
  ff_remove :: "'v \<Rightarrow> 'w \<Rightarrow> bytes \<Rightarrow> 'w \<times> bool"
  ff_entries :: "'v \<Rightarrow> 'r \<Rightarrow> 'w \<Rightarrow> 'w \<times> (unit + bool \<times> bytes) list"
  ff_extents :: "'f \<Rightarrow> 'w \<Rightarrow> 'w \<times> (unit + u32) list"
  ff_read :: "'f \<Rightarrow> nat \<Rightarrow> 'w \<Rightarrow> 'w \<times> (unit + bytes)"
  ff_write :: "'f \<Rightarrow> bytes \<Rightarrow> 'w \<Rightarrow> 'w \<times> (unit + nat)"
  ff_seek :: "'f \<Rightarrow> SeekFrom \<Rightarrow> 'w \<Rightarrow> 'w \<times> (unit + nat)"

definition get_fs :: "('t, 'v, 'w, 'f, 'r) fat_crate \<Rightarrow> 't option \<Rightarrow> 'v option" where
  "get_fs c device = Option.bind device (ff_new c)"

definition fat_file :: "('t, 'v, 'w, 'f, 'r) fat_crate \<Rightarrow> 'v \<Rightarrow> 'w \<Rightarrow> bytes \<Rightarrow> ('w \<times> 'f option) option" where
  "fat_file c v w path = Some (ff_open_file c v w path)"

fun collect_entries :: "(unit + bool \<times> bytes) list \<Rightarrow> DirEntry list option" where
  "collect_entries [] = Some []"
| "collect_entries (Inl _ # rs) = None"
| "collect_entries (Inr (dir, name) # rs) = map_option ((#) (dirent_new dir name)) (collect_entries rs)"

definition fat_directory :: "('t, 'v, 'w, 'f, 'r) fat_crate \<Rightarrow> 'v \<Rightarrow> 'w \<Rightarrow> bytes \<Rightarrow> ('w \<times> SnapshotDirectory option) option" where
  "fat_directory c v w path =
     (let (w, dir) = (if path = ascii ''/'' \<or> path = [] then (w, Some (ff_root c v)) else ff_open_dir c v w path) in
      case dir of
        None \<Rightarrow> Some (w, None)
      | Some dir \<Rightarrow> (case ff_entries c v dir w of (w, rs) \<Rightarrow> Some (w, map_option snapshot_new (collect_entries rs))))"

definition fat_create :: "('t, 'v, 'w, 'f, 'r) fat_crate \<Rightarrow> 'v \<Rightarrow> 'w \<Rightarrow> bytes \<Rightarrow> ('w \<times> 'f option) option" where
  "fat_create c v w path = Some (ff_create_file c v w path)"

definition fat_remove :: "('t, 'v, 'w, 'f, 'r) fat_crate \<Rightarrow> 'v \<Rightarrow> 'w \<Rightarrow> bytes \<Rightarrow> ('w \<times> bool) option" where
  "fat_remove c v w path = Some (ff_remove c v w path)"

text \<open>The file system as one of the mount table.\<close>

definition fat_ops :: "('t, 'v, 'w, 'f, 'r) fat_crate \<Rightarrow> ('v, 'w, 'f, SnapshotDirectory) vfs_ops" where
  "fat_ops c = \<lparr>fs_file = fat_file c, fs_directory = fat_directory c, fs_create = fat_create c, fs_remove = fat_remove c\<rparr>"

fun extents_size :: "nat \<Rightarrow> (unit + u32) list \<Rightarrow> nat" where
  "extents_size res [] = res"
| "extents_size res (Inl _ # xs) = 0"
| "extents_size res (Inr n # xs) = extents_size (saturating_add res (unat n)) xs"

definition fat_size :: "('t, 'v, 'w, 'f, 'r) fat_crate \<Rightarrow> 'f \<Rightarrow> 'w \<Rightarrow> nat \<times> 'w" where
  "fat_size c f w = (let (w, xs) = ff_extents c f w in (extents_size 0 xs, w))"

definition fat_read :: "('t, 'v, 'w, 'f, 'r) fat_crate \<Rightarrow> 'f \<Rightarrow> nat \<Rightarrow> 'w \<Rightarrow> bytes \<times> 'w" where
  "fat_read c f n w = (let (w, r) = ff_read c f n w in (case r of Inl _ \<Rightarrow> [] | Inr bs \<Rightarrow> bs, w))"

definition fat_write :: "('t, 'v, 'w, 'f, 'r) fat_crate \<Rightarrow> 'f \<Rightarrow> bytes \<Rightarrow> 'w \<Rightarrow> nat \<times> 'w" where
  "fat_write c f bs w = (let (w, r) = ff_write c f bs w in (case r of Inl _ \<Rightarrow> 0 | Inr n \<Rightarrow> n, w))"

definition fat_seek :: "('t, 'v, 'w, 'f, 'r) fat_crate \<Rightarrow> 'f \<Rightarrow> SeekFrom \<Rightarrow> 'w \<Rightarrow> nat \<times> 'w" where
  "fat_seek c f pos w = (let (w, r) = ff_seek c f pos w in (case r of Inl _ \<Rightarrow> 0 | Inr n \<Rightarrow> n, w))"

section \<open>Listings\<close>

text \<open>
  What an application sees of a name: its first 254 bytes, or nothing if these end inside a character.
\<close>

definition shown_name :: "bytes \<Rightarrow> bytes" where
  "shown_name n = (if utf8_valid (take 254 n) then take 254 n else [])"

lemma dirent_name_shown:
  assumes "0 \<notin> set n"
  shows "dirent_name (dirent_new dir n) = shown_name n"
proof -
  let ?t = "take 254 n"
  let ?l = "min (length n) 254"
  have t: "take ?l n = ?t" by (simp add: min_def)
  have z: "drop ?l (replicate 255 (0 :: u8)) = 0 # replicate (254 - ?l) 0"
    by (simp add: Suc_diff_le flip: replicate_Suc)
  have nz: "n ! j \<noteq> 0" if "j < length n" for j using assms nth_mem [OF that] by metis
  have "position (\<lambda>x. x = 0) (?t @ drop ?l (replicate 255 0)) = Some ?l"
    unfolding z position_Some using nz by (auto simp: nth_append min_def)
  moreover have "take ?l (?t @ drop ?l (replicate 255 0)) = ?t" by (simp add: t)
  ultimately show ?thesis
    unfolding dirent_name_def dirent_new_def dirent_empty_def DIRENT_NAME_CAP_def shown_name_def Let_def
    by (simp add: t)
qed

lemma collect_entries_names:
  "collect_entries rs = Some es \<Longrightarrow> \<forall>n\<in>snd ` (projr ` set rs). 0 \<notin> set n \<Longrightarrow>
    map dirent_name es = map (\<lambda>r. shown_name (snd (projr r))) rs \<and> list_all (\<lambda>r. \<not> isl r) rs"
  by (induction rs arbitrary: es rule: collect_entries.induct) (auto simp: dirent_name_shown)

text \<open>
  The system calls list a FAT directory completely. When the adapter opens the directory, no entry
  of it was unreadable, and any sequence of calls with room enough for the entries delivers the name of each entry once and in order,
  cut to 254 bytes, or empty when the cut falls inside a character.
\<close>

lemma fat_listing_complete:
  assumes "fat_directory c v w path = Some (w', Some d)"
    and "\<And>v r w rs w'. ff_entries c v r w = (w', rs) \<Longrightarrow> \<forall>n\<in>snd ` (projr ` set rs). 0 \<notin> set n"
  shows "\<exists>r w1 rs. ff_entries c v r w1 = (w', rs) \<and> (\<forall>x\<in>set rs. \<not> isl x) \<and>
    (\<forall>ns. length rs \<le> sum_list ns \<longrightarrow> map dirent_name (getdents_calls d ns) = map (\<lambda>x. shown_name (snd (projr x))) rs)"
proof -
  obtain r w1 rs es where e: "ff_entries c v r w1 = (w', rs)" "collect_entries rs = Some es" "d = snapshot_new es"
    using assms(1) by (auto simp: fat_directory_def Let_def split: prod.splits option.splits)
  note n = collect_entries_names [OF e(2) assms(2) [OF e(1)]]
  have l: "length es = length rs" using n by (metis length_map)
  have "map dirent_name (getdents_calls d ns) = map (\<lambda>x. shown_name (snd (projr x))) rs" if "length rs \<le> sum_list ns" for ns
    using n l that by (simp add: getdents_calls_eq e(3) snapshot_new_def)
  with e(1) n show ?thesis by (auto simp: list_all_iff)
qed

text \<open>A valid name of 255 bytes that is listed as the empty name.\<close>

lemma long_name_hidden:
  fixes n :: bytes
  defines "n \<equiv> replicate 253 97 @ [0xC3, 0xA9]"
  shows "utf8_valid n" and "shown_name n = []"
proof -
  have run: "utf8_valid (replicate k 97 @ s) = utf8_valid s" for k s by (induction k) auto
  show "utf8_valid n" unfolding n_def run by (simp add: utf8_cont_def)
  have t: "take 254 n = replicate 253 97 @ [0xC3]" by (simp add: n_def)
  show "shown_name n = []" unfolding shown_name_def t run by simp
qed

definition sample_fat :: "(unit, unit, unit, unit, unit) fat_crate" where
  "sample_fat =
     \<lparr>ff_new = Some, ff_root = id, ff_open_file = \<lambda>v w p. (w, None), ff_open_dir = \<lambda>v w p. (w, None), ff_create_file = \<lambda>v w p. (w, None),
      ff_remove = \<lambda>v w p. (w, False), ff_entries = \<lambda>v r w. (w, [Inr (True, [98]), Inr (False, [99])]), ff_extents = \<lambda>f w. (w, []),
      ff_read = \<lambda>f n w. (w, Inr []), ff_write = \<lambda>f b w. (w, Inr 0), ff_seek = \<lambda>f p w. (w, Inr 0)\<rparr>"

lemma fat_listing_complete_example:
  "map dirent_name (getdents_calls (snapshot_new [dirent_new True [98], dirent_new False [99]]) [1, 1]) = [[98], [99]]"
proof -
  let ?d = "snapshot_new [dirent_new True [98], dirent_new False [99]]"
  have d: "fat_directory sample_fat () () [] = Some ((), Some ?d)"
    by (simp add: fat_directory_def sample_fat_def)
  have "shown_name [98] = [98]" "shown_name [99] = [99]" by (simp_all add: shown_name_def)
  then have l: "map dirent_name (getdents_calls ?d ns) = [[98], [99]]" if "2 \<le> sum_list ns" for ns
    using fat_listing_complete [OF d] that by (auto simp: sample_fat_def)
  show ?thesis by (rule l) simp
qed

end
