(* ===== verification/Blocks.thy ===== *)
theory Blocks
  imports Ahci
begin

text \<open>
  The AHCI and NVMe disks as block devices and as files: \<^verbatim>\<open>blockdev/partition/ahci.rs\<close> and \<^verbatim>\<open>blockdev/partition/nvme.rs\<close>, which read whole blocks
  for the GPT crate, the files of \<^verbatim>\<open>blockdev/ahci/mod.rs\<close> and \<^verbatim>\<open>blockdev/nvme.rs\<close>, and the discovery of the NVMe controllers. The queue pairs
  and the controllers are the crate \<^verbatim>\<open>nvme\<close>, and the heap is behind the allocator: both are the parameter \<open>nvme_env\<close>.
  \<^term>\<open>None\<close> is a panic.
\<close>

section \<open>Blocks of an AHCI disk\<close>

text \<open>The sectors come from an open range, which computes the number after the one that it gives out.\<close>

definition next_sector :: "u64 \<Rightarrow> u64 option" where
  "next_sector sector = (if unat sector + 1 < USIZE_LIMIT then Some (sector + 1) else None)"

fun ahci_chunks :: "'h ahci_env \<Rightarrow> ahci_drive \<Rightarrow> nat \<Rightarrow> u64 \<Rightarrow> 'h ahci_world \<Rightarrow> (bytes \<times> 'h ahci_world) option" where
  "ahci_chunks e d 0 sector s = do { _ \<leftarrow> next_sector sector; Some ([], s) }"
| "ahci_chunks e d (Suc k) sector s =
     do { following \<leftarrow> next_sector sector;
          (b, s) \<leftarrow> read_block e d sector AHCI_BLOCK_SIZE s;
          (bs, s) \<leftarrow> ahci_chunks e d k following s;
          Some (b @ bs, s) }"

definition ahci_read_blocks :: "'h ahci_env \<Rightarrow> ahci_drive \<Rightarrow> u64 \<Rightarrow> nat \<Rightarrow> 'h ahci_world \<Rightarrow> ((bool + bytes) \<times> 'h ahci_world) option" where
  "ahci_read_blocks e d start_lba len s =
     (if \<not> is_multiple_of len AHCI_BLOCK_SIZE then Some (Inl True, s)
      else do { (bs, s) \<leftarrow> ahci_chunks e d (len div AHCI_BLOCK_SIZE) start_lba s; Some (Inr bs, s) })"

definition ahci_num_blocks :: "AhciBlockDevice \<Rightarrow> nat" where
  "ahci_num_blocks d = block_count d"

text \<open>The file of the disk: an error of the adapter is unwrapped.\<close>

definition ahci_vfs_size :: "AhciBlockDevice \<Rightarrow> nat option" where
  "ahci_vfs_size d = checked_mul (block_count d) 512"

definition ahci_vfs_read :: "(nat \<Rightarrow> bytes) \<Rightarrow> AhciBlockDevice \<Rightarrow> nat \<Rightarrow> (bytes \<times> AhciBlockDevice) option" where
  "ahci_vfs_read rd d len = unwrap_result (ahci_read rd d len)"

definition ahci_vfs_write :: "AhciBlockDevice \<Rightarrow> bytes \<Rightarrow> (nat \<times> AhciBlockDevice) option" where
  "ahci_vfs_write d buf = unwrap_result (ahci_write d buf)"

definition ahci_vfs_seek :: "AhciBlockDevice \<Rightarrow> SeekFrom \<Rightarrow> (nat \<times> AhciBlockDevice) option" where
  "ahci_vfs_seek d frm = unwrap_result (ahci_seek d frm)"

section \<open>Blocks of an NVMe disk\<close>

text \<open>
  A queue pair reads one block into a buffer of the heap, and the driver flushes the queue. \<open>nv_alloc\<close> says whether the
  allocation succeeds.
\<close>

record ('c, 'n, 'q, 'w) nvme_env =
  nv_read :: "'q \<Rightarrow> nat \<Rightarrow> u64 \<Rightarrow> 'w \<Rightarrow> bytes option \<times> 'w"
  nv_flush :: "'q \<Rightarrow> 'w \<Rightarrow> bool \<times> 'w"
  nv_alloc :: "nat \<Rightarrow> 'w \<Rightarrow> bool \<times> 'w"
  nv_dealloc :: "nat \<Rightarrow> 'w \<Rightarrow> 'w"
  nv_identify :: "'c \<Rightarrow> 'w \<Rightarrow> 'n list option \<times> 'w"
  nv_pair :: "'c \<Rightarrow> 'n \<Rightarrow> 'w \<Rightarrow> 'q option \<times> 'w"
  nv_size :: "'n \<Rightarrow> nat \<times> nat"
  nv_device :: "nat \<Rightarrow> 'w \<Rightarrow> 'c option \<times> 'w"

record 'q nvme_disk =
  qpairs :: "'q list"
  nd_base :: NvmeBlockDevice

definition layout_ok_for :: "nat \<Rightarrow> bool" where
  "layout_ok_for n \<longleftrightarrow> is_power_of_two n \<and> n < 2 ^ 63"

fun nvme_chunks :: "('c, 'n, 'q, 'w) nvme_env \<Rightarrow> 'q \<Rightarrow> nat \<Rightarrow> nat \<Rightarrow> u64 \<Rightarrow> 'w \<Rightarrow> ((bool + bytes) \<times> 'w) option" where
  "nvme_chunks e q bsz 0 sector w = Some (Inr [], w)"
| "nvme_chunks e q bsz (Suc k) sector w =
     (case nv_read e q bsz sector w of
        (None, w) \<Rightarrow> Some (Inl True, w)
      | (Some b, w) \<Rightarrow>
          (case nv_flush e q w of
             (False, w) \<Rightarrow> Some (Inl True, w)
           | (True, w) \<Rightarrow>
               do { sector \<leftarrow> next_sector sector;
                    (r, w) \<leftarrow> nvme_chunks e q bsz k sector w;
                    Some (map_sum id (\<lambda>bs. b @ bs) r, w) }))"

definition nvme_read_blocks :: "('c, 'n, 'q, 'w) nvme_env \<Rightarrow> 'q nvme_disk \<Rightarrow> u64 \<Rightarrow> nat \<Rightarrow> 'w \<Rightarrow> ((bool + bytes) \<times> 'w) option" where
  "nvme_read_blocks e d start_lba len w =
     (let bsz = ns_block_size (nd_base d) in
      if \<not> is_multiple_of len bsz then Some (Inl True, w)
      else case qpairs d of
        [] \<Rightarrow> Some (Inl True, w)
      | q # _ \<Rightarrow>
          if \<not> layout_ok_for bsz then Some (Inl True, w)
          else case nv_alloc e bsz w of
            (False, w) \<Rightarrow> Some (Inl True, w)
          | (True, w) \<Rightarrow> do { (r, w) \<leftarrow> nvme_chunks e q bsz (len div bsz) start_lba w; Some (r, nv_dealloc e bsz w) })"

definition nvme_num_blocks :: "'q nvme_disk \<Rightarrow> nat" where
  "nvme_num_blocks d = ns_block_count (nd_base d)"

text \<open>The byte adapter as it uses the heap: the early returns do not give the buffer back.\<close>

definition nvme_fat_read :: "('c, 'n, 'q, 'w) nvme_env \<Rightarrow> 'q nvme_disk \<Rightarrow> nat \<Rightarrow> 'w \<Rightarrow> ((unit + bytes) \<times> 'q nvme_disk \<times> 'w) option" where
  "nvme_fat_read e d len w =
     (case qpairs d of
        [] \<Rightarrow> Some (Inl (), d, w)
      | q # _ \<Rightarrow>
          let bsz = ns_block_size (nd_base d); pos = nvme_pos (nd_base d) in
          if bsz = 0 then None
          else if \<not> layout_ok_for bsz then Some (Inl (), d, w)
          else
            let (_, w) = nv_alloc e bsz w in
            case nv_read e q bsz (of_nat (pos div bsz)) w of
              (None, w) \<Rightarrow> Some (Inl (), d, w)
            | (Some buf2, w) \<Rightarrow>
                (case nv_flush e q w of
                   (False, w) \<Rightarrow> Some (Inl (), d, w)
                 | (True, w) \<Rightarrow>
                     let t1 = pos mod bsz; will_read = min len (bsz - t1) in
                     do { bs \<leftarrow> slice buf2 t1 (t1 + will_read);
                          p \<leftarrow> checked_add pos will_read;
                          Some (Inr bs, d\<lparr>nd_base := (nd_base d)\<lparr>nvme_pos := p\<rparr>\<rparr>, nv_dealloc e bsz w) }))"

definition nvme_vfs_size :: "NvmeBlockDevice \<Rightarrow> nat option" where
  "nvme_vfs_size d = checked_mul (ns_block_count d) (ns_block_size d)"

definition nvme_vfs_read :: "(nat \<Rightarrow> bytes option) \<Rightarrow> NvmeBlockDevice \<Rightarrow> nat \<Rightarrow> (bytes \<times> NvmeBlockDevice) option" where
  "nvme_vfs_read rd d len = unwrap_result (nvme_read rd d len)"

definition nvme_vfs_write :: "NvmeBlockDevice \<Rightarrow> bytes \<Rightarrow> (nat \<times> NvmeBlockDevice) option" where
  "nvme_vfs_write d buf = unwrap_result (nvme_write d buf)"

definition nvme_vfs_seek :: "NvmeBlockDevice \<Rightarrow> SeekFrom \<Rightarrow> (nat \<times> NvmeBlockDevice) option" where
  "nvme_vfs_seek d frm = unwrap_result (nvme_seek d frm)"

section \<open>NVMe controllers\<close>

text \<open>The disks of a controller: the namespaces for which a queue pair can be created.\<close>

fun nvme_disks :: "('c, 'n, 'q, 'w) nvme_env \<Rightarrow> 'c \<Rightarrow> 'n list \<Rightarrow> 'w \<Rightarrow> 'q nvme_disk list \<times> 'w" where
  "nvme_disks e c [] w = ([], w)"
| "nvme_disks e c (n # ns) w =
     (case nv_pair e c n w of
        (None, w) \<Rightarrow> nvme_disks e c ns w
      | (Some q, w) \<Rightarrow>
          (let (ds, w) = nvme_disks e c ns w in
           (\<lparr>qpairs = [q], nd_base = \<lparr>ns_block_count = fst (nv_size e n), ns_block_size = snd (nv_size e n), nvme_pos = 0\<rparr>\<rparr> # ds, w)))"

definition nvme_iter_step :: "('c, 'n, 'q, 'w) nvme_env \<Rightarrow> 'c \<Rightarrow> 'q nvme_disk list list \<times> 'w \<Rightarrow> ('q nvme_disk list list \<times> 'w) option" where
  "nvme_iter_step e c = (\<lambda>(acc, w).
     case nv_identify e c w of
       (None, w) \<Rightarrow> None
     | (Some ns, w) \<Rightarrow> (let (ds, w) = nvme_disks e c ns w in Some (acc @ [ds], w)))"

definition nvme_iter :: "('c, 'n, 'q, 'w) nvme_env \<Rightarrow> 'c list \<Rightarrow> 'w \<Rightarrow> ('q nvme_disk list list \<times> 'w) option" where
  "nvme_iter e cs w = for_each (nvme_iter_step e) cs ([], w)"

text \<open>The registers are mapped with caching off; pages that are mapped already stay as they are.\<close>

definition nvme_map_pages :: "'w mapper_ops \<Rightarrow> nat \<Rightarrow> nat \<Rightarrow> 'w \<Rightarrow> 'w option" where
  "nvme_map_pages mo va pa w =
     for_each (\<lambda>pg w.
       do { v \<leftarrow> checked_add va (pg * 4096);
            p \<leftarrow> checked_add pa (pg * 4096);
            if \<not> canonical_address v \<or> \<not> p < 2 ^ 52 then None
            else Some (snd (map_to_4k mo w (v div 4096 * 4096) (p div 4096 * 4096) MMIO_FLAGS)) }) [0..<32] w"

definition nvme_bar :: "u32 \<Rightarrow> u32 \<Rightarrow> u64 option" where
  "nvme_bar bar0 bar1 = 
     (let low = (ucast (bar0 AND 0xfffffff0) :: u64); high = push_bit 32 (ucast bar1 :: u64) in
      if unat low + unat high < USIZE_LIMIT then Some (low + high) else None)"

definition nvme_hook ::
  "('c, 'n, 'q, 'w) nvme_env \<Rightarrow> ('w \<times> 'c list) pci_env \<Rightarrow> 'w mapper_ops \<Rightarrow> nat \<Rightarrow> u8 \<Rightarrow> u8 \<Rightarrow> u8 \<Rightarrow> nat \<Rightarrow> 'w \<times> 'c list \<Rightarrow> ('w \<times> 'c list) option" where
  "nvme_hook e pe mo offset b d f cfg s =
     (let (c, s) = class_code pe cfg s in
      if c \<noteq> 1 then Some s
      else let (sc, s) = sub_class pe cfg s in
           if sc \<noteq> 8 then Some s
           else let (bar0, s) = cfg_read32 pe s (cfg + 0x10); (bar1, (w, cs)) = cfg_read32 pe s (cfg + 0x14) in
                do { pa \<leftarrow> nvme_bar bar0 bar1;
                     va \<leftarrow> checked_add (unat pa) offset;
                     w \<leftarrow> nvme_map_pages mo va (unat pa) w;
                     case nv_device e va w of (None, w) \<Rightarrow> None | (Some c, w) \<Rightarrow> Some (w, cs @ [c]) })"

definition nvme_init :: "('c, 'n, 'q, 'w) nvme_env \<Rightarrow> ('w \<times> 'c list) pci_env \<Rightarrow> 'w mapper_ops \<Rightarrow> nat \<Rightarrow> pci_region list \<Rightarrow> 'w \<Rightarrow> ('w \<times> 'c list) option" where
  "nvme_init e pe mo offset rs w = doit pe offset rs (nvme_hook e pe mo offset) (w, [])"

section \<open>Reading blocks\<close>

lemma next_sector_Some: "unat a + 1 < USIZE_LIMIT \<Longrightarrow> next_sector a = Some (a + 1) \<and> unat (a + 1) = unat a + 1"
  by (simp add: next_sector_def unat_word_ariths)

context sata_port
begin

lemma chunks_disk:
  "\<lbrakk>drive_ready clb fb p d s; unat a + k \<le> 2 ^ 48\<rbrakk> \<Longrightarrow>
   \<exists>s'. ahci_chunks e d k a s = Some (concat (map (disk (ahw s)) [unat a..<unat a + k]), s') \<and> drive_ready clb fb p d s' \<and> disk (ahw s') = disk (ahw s)"
proof (induction k arbitrary: a s)
  case 0
  then have "unat a + 1 < USIZE_LIMIT" by simp
  with next_sector_Some [OF this] 0 show ?case by simp
next
  case (Suc k)
  then have n: "next_sector a = Some (a + 1)" "unat (a + 1) = unat a + 1" using next_sector_Some [of a] by simp_all
  have "unat a < 2 ^ 48" using Suc.prems(2) by simp
  from read_block_disk [OF Suc.prems(1) this] obtain t where t: "read_block e d a AHCI_BLOCK_SIZE s = Some (disk (ahw s) (unat a), t)"
    "drive_ready clb fb p d t" "disk (ahw t) = disk (ahw s)" by blast
  have "[unat a..<unat a + Suc k] = unat a # [unat a + 1..<unat a + 1 + k]" by (simp add: upt_conv_Cons del: upt_Suc)
  moreover obtain u where "ahci_chunks e d k (a + 1) t = Some (concat (map (disk (ahw s)) [unat a + 1..<unat a + 1 + k]), u)"
    "drive_ready clb fb p d u" "disk (ahw u) = disk (ahw s)"
    using Suc.IH [OF t(2), of "a + 1"] Suc.prems(2) n(2) t(3) by auto
  ultimately show ?case using n(1) t(1) by simp
qed

end

text \<open>The blocks that the GPT crate reads from an AHCI disk are those of the disk.\<close>

lemma ahci_blocks_of_disk:
  assumes "sata_port e p clb fb disk stopped" and "drive_ready clb fb p d s" and "unat start + n \<le> 2 ^ 48"
  shows "\<exists>s'. ahci_read_blocks e d start (n * 512) s = Some (Inr (concat (map (disk (ahw s)) [unat start..<unat start + n])), s') \<and>
    drive_ready clb fb p d s'"
  using sata_port.chunks_disk [OF assms] by (auto simp: ahci_read_blocks_def AHCI_BLOCK_SIZE_def is_multiple_of_def)

text \<open>
  The blocks of an NVMe disk, when its queue serves a disk; and the heap, of which \<open>held\<close> counts the buffers: \<open>nvme_read_blocks\<close> gives
  its buffer back on every path, and the byte adapter keeps it when the queue fails.
\<close>

definition heap_counted :: "('c, 'n, 'q, 'w) nvme_env \<Rightarrow> ('w \<Rightarrow> int) \<Rightarrow> bool" where
  "heap_counted e held \<longleftrightarrow>
     (\<forall>q n a w. held (snd (nv_read e q n a w)) = held w) \<and> (\<forall>q w. held (snd (nv_flush e q w)) = held w) \<and>
     (\<forall>n w. held (snd (nv_alloc e n w)) = (if fst (nv_alloc e n w) then held w + 1 else held w)) \<and>
     (\<forall>n w. held (nv_dealloc e n w) = held w - 1)"

lemma nvme_chunks_heap:
  assumes "heap_counted e held"
  shows "nvme_chunks e q bsz k a w = Some (r, w') \<Longrightarrow> held w' = held w"
proof (induction k arbitrary: a w r w')
  case (Suc k)
  have h: "held (snd (nv_read e q bsz a w)) = held w" "held (snd (nv_flush e q v)) = held v" for v
    using assms by (auto simp: heap_counted_def)
  show ?case
    using Suc.prems h(1) h(2) [of "snd (nv_read e q bsz a w)"] Suc.IH
    by (fastforce split: prod.splits option.splits bool.splits bind_splits)
qed simp

lemma nvme_read_blocks_heap:
  assumes "heap_counted e held" and "nvme_read_blocks e d start len w = Some (r, w')"
  shows "held w' = held w"
proof -
  have h: "held (snd (nv_alloc e n v)) = (if fst (nv_alloc e n v) then held v + 1 else held v)" "held (nv_dealloc e n v) = held v - 1" for n v
    using assms(1) by (auto simp: heap_counted_def)
  show ?thesis
    using assms(2) h(1) [of "ns_block_size (nd_base d)" w] h(2) nvme_chunks_heap [OF assms(1)]
    by (fastforce simp: nvme_read_blocks_def Let_def split: prod.splits list.splits bool.splits if_splits bind_splits)
qed

lemma nvme_fat_read_leaks:
  assumes "heap_counted e held" and "qpairs d = q # qs" and "layout_ok_for (ns_block_size (nd_base d))"
    and "fst (nv_alloc e (ns_block_size (nd_base d)) w)" and "\<And>n a w. fst (nv_read e q n a w) = None"
  shows "\<exists>w'. nvme_fat_read e d len w = Some (Inl (), d, w') \<and> held w' = held w + 1"
proof -
  let ?b = "ns_block_size (nd_base d)"
  have "?b \<noteq> 0" using assms(3) is_power_of_two_pos by (auto simp: layout_ok_for_def)
  moreover obtain w1 where w1: "nv_alloc e ?b w = (True, w1)" using assms(4) by (cases "nv_alloc e ?b w") simp
  moreover have "held w1 = held w + 1" using assms(1) w1 unfolding heap_counted_def by (metis fst_conv snd_conv)
  moreover obtain w2 where w2: "nv_read e q ?b (of_nat (nvme_pos (nd_base d) div ?b)) w1 = (None, w2)"
    using assms(5) [of ?b "of_nat (nvme_pos (nd_base d) div ?b)" w1] by (cases "nv_read e q ?b (of_nat (nvme_pos (nd_base d) div ?b)) w1") simp
  moreover have "held w2 = held w1" using assms(1) w2 unfolding heap_counted_def by (metis snd_conv)
  ultimately show ?thesis using assms(2,3) by (simp add: nvme_fat_read_def)
qed

lemma nvme_blocks_of_disk:
  assumes "\<And>a w. nv_read e q bsz a w = (Some (dsk (unat a)), w)" and "\<And>w. nv_flush e q w = (True, w)"
  shows "unat start + n < USIZE_LIMIT \<Longrightarrow> nvme_chunks e q bsz n start w = Some (Inr (concat (map dsk [unat start..<unat start + n])), w)"
proof (induction n arbitrary: start)
  case (Suc n)
  then have s: "next_sector start = Some (start + 1)" "unat (start + 1) = unat start + 1" using next_sector_Some [of start] by simp_all
  have "[unat start..<unat start + Suc n] = unat start # [unat start + 1..<unat start + 1 + n]" by (simp add: upt_conv_Cons del: upt_Suc)
  then show ?case using Suc.IH [of "start + 1"] Suc.prems s by (simp add: assms)
qed simp

section \<open>Device files\<close>

text \<open>
  A program that writes to the file of an AHCI or NVMe disk, or seeks outside the disk, panics the kernel: any
  write of at least one byte, and every seek to a place that is negative or behind the end.
\<close>

lemma disk_files_panic:
  "(buf \<noteq> [] \<longrightarrow> write_all ahci_vfs_write d buf = None \<and> write_all nvme_vfs_write n buf = None) \<and>
   (off < 0 \<longrightarrow> ahci_vfs_seek d (Current (off - int (ahci_pos d))) = None \<and> nvme_vfs_seek n (Current (off - int (nvme_pos n))) = None)"
proof -
  have "ahci_vfs_write d b = None" "nvme_vfs_write n b = None" for b
    by (simp_all add: ahci_vfs_write_def ahci_write_def nvme_vfs_write_def nvme_write_def unwrap_result_def)
  then have "buf \<noteq> [] \<Longrightarrow> write_all ahci_vfs_write d buf = None \<and> write_all nvme_vfs_write n buf = None"
    by (simp add: write_all.simps)
  moreover have le: "as_i64 k \<le> int k" for k
  proof -
    have k: "int (k mod 2 ^ 64) \<le> int k" by simp
    moreover have "int (k mod 2 ^ 64) - 2 ^ 64 \<le> int (k mod 2 ^ 64)" by simp
    ultimately have "int (k mod 2 ^ 64) - 2 ^ 64 \<le> int k" by (rule order_trans [rotated])
    with k show ?thesis unfolding as_i64_def by (simp only: split: if_split) blast
  qed
  moreover have "ahci_vfs_seek d (Current (off - int (ahci_pos d))) = None \<and> nvme_vfs_seek n (Current (off - int (nvme_pos n))) = None" if "off < 0"
    using that le [of "ahci_pos d"] le [of "nvme_pos n"]
    by (auto simp: checked_add_i64_def ahci_vfs_seek_def ahci_seek_def nvme_vfs_seek_def nvme_seek_def seek_within_def seek_target_def unwrap_result_def
      split: bind_splits option.splits)
  ultimately show ?thesis by blast
qed

end
