(* ===== verification/Spec2Isabelle.thy ===== *)
theory Spec2Isabelle
  imports PageAlloc Dma Ring UsbDesc UsbPort Msc Ipc Sched Storage Vfs Hid Bulk Paging Kernel XhciSpec Ahci Ping Upppd AppRt Console
    Entry Shell Screen IpcDemo Nic Fat Blocks
begin

text \<open>
  \<^bold>\<open>DoglinkOS-2nd.\<close> The program is an operating system kernel for x86-64 (\<^verbatim>\<open>src/kernel\<close>), with a small
  runtime library for applications (\<^verbatim>\<open>src/app-rt\<close>), a few applications and a tool that builds the disk image.
  One lock protects each global table of the kernel and system calls run with interrupts off, so that
  every operation here is one step of an explicit state; interleaving happens between operations.

  \<^bold>\<open>Parts and theories.\<close>
    \<^item> \<open>Prelude\<close>: machine integers, checked arithmetic (a panic is \<open>None\<close>), byte strings, UTF-8, the decimal
      printer and parser of \<^verbatim>\<open>core\<close>, the search functions of iterators.
    \<^item> \<open>Bitmap\<close>, \<open>PageAlloc\<close> (\<^verbatim>\<open>mm/bitmap.rs\<close>, \<^verbatim>\<open>mm/page_alloc.rs\<close>): one free bit and one reference count per
      physical page, first-fit allocation of aligned runs, initialisation from the memory map.
      The bit access of the \<^verbatim>\<open>bit_field\<close> crate is the parameter \<open>bit_ops\<close> with the laws of the locale
      \<open>bit_field\<close>, interpreted on the words of the library.
    \<^item> \<open>Dma\<close> (\<^verbatim>\<open>mm/dma.rs\<close>, the allocator of \<^verbatim>\<open>blockdev/nvme.rs\<close>): DMA buffers, MMIO mappings.
    \<^item> \<open>Paging\<close> (\<^verbatim>\<open>task/process.rs\<close>): the recursive copy of the four levels of page tables for \<^verbatim>\<open>fork\<close> and
      their release, on a memory of pages that holds the tables; the entry format is the parameter
      \<open>pte_ops\<close> with the locale \<open>page_entries\<close>, interpreted on the format of the processor.
      The abstract view of a table is the tree \<open>space\<close>.
    \<^item> \<open>Sched\<close> (\<^verbatim>\<open>task/sched.rs\<close>, the records of \<^verbatim>\<open>task/process.rs\<close>): timer, choice of the next task, context switch,
      blocking and waking.
    \<^item> \<open>Ipc\<close> (\<^verbatim>\<open>task/ipc/mod.rs\<close>): channels, listeners, handle tables; the step relation \<open>ipc_step\<close>.
    \<^item> \<open>Kernel\<close> (\<^verbatim>\<open>task/syscall.rs\<close>, \<^verbatim>\<open>task/process.rs\<close>, the page faults of \<^verbatim>\<open>mm/page_alloc.rs\<close>): the whole kernel state,
      \<^verbatim>\<open>fork\<close>, \<^verbatim>\<open>exec\<close>, \<^verbatim>\<open>exit\<close>, every system call and its dispatch, demand paging and copy-on-write; the step
      relation \<open>kernel_step\<close> of system calls, timer interrupts and faults. It composes
      \<open>Paging\<close>, \<open>Sched\<close>, \<open>Ipc\<close> and \<open>Vfs\<close>.
    \<^item> \<open>AppRt\<close> (\<^verbatim>\<open>app-rt/src/lib.rs\<close>): the wrappers of the system calls, blocks of assembly with declared registers around a trap.
    \<^item> \<open>Entry\<close> (\<^verbatim>\<open>int.rs\<close>, the assembly of \<^verbatim>\<open>task/syscall.rs\<close> and \<^verbatim>\<open>task/mod.rs\<close>): the entry code of interrupts on a small model of the
      processor. It shows that the components may treat the timer and the system calls as functions on the registers of a task, and that the trap of
      \<open>AppRt\<close> is the dispatcher of \<open>Kernel\<close>.
    \<^item> \<open>Storage\<close> (\<^verbatim>\<open>blockdev/*\<close>, \<^verbatim>\<open>vfs/mod.rs\<close>): RAM disk, AHCI, NVMe and USB byte adapters, partitions,
      the registry of USB disks, \<^verbatim>\<open>read_exact\<close> and \<^verbatim>\<open>write_all\<close>.
    \<^item> \<open>Vfs\<close> (\<^verbatim>\<open>vfs/mod.rs\<close>, \<^verbatim>\<open>vfs/devfs\<close>, \<^verbatim>\<open>vfs/procfs\<close>): mount table, path lookup, directory snapshots, device names.
    \<^item> \<open>Fat\<close> (\<^verbatim>\<open>vfs/fat.rs\<close>): the adapter of the \<^verbatim>\<open>fatfs\<close> crate, which is the parameter \<open>fat_crate\<close>, to the traits of \<open>Vfs\<close>.
    \<^item> \<open>Ahci\<close> (\<^verbatim>\<open>blockdev/ahci/*\<close>): the registers of a host bus adapter and of its ports, the command layouts in shared pages, the start of a port
      and the commands of a drive. The adapter with its disk is the parameter \<open>ahci_env\<close>.
    \<^item> \<open>Blocks\<close> (\<^verbatim>\<open>blockdev/partition/ahci.rs\<close>, \<^verbatim>\<open>blockdev/partition/nvme.rs\<close>, \<^verbatim>\<open>blockdev/nvme.rs\<close>): AHCI and NVMe disks as block devices
      and as files, and the discovery of NVMe controllers; the \<^verbatim>\<open>nvme\<close> crate and the heap are the parameter \<open>nvme_env\<close>.
    \<^item> \<open>Console\<close> (\<^verbatim>\<open>stdio.rs\<close>, \<^verbatim>\<open>inputdev.rs\<close>, \<^verbatim>\<open>console/serial.rs\<close>, \<^verbatim>\<open>console/mod.rs\<close>, \<^verbatim>\<open>sound/pcspk.rs\<close>, \<^verbatim>\<open>cmdline.rs\<close>, the character devices of
      \<^verbatim>\<open>vfs/devfs\<close>): the standard streams, keyboard and mouse of the PS/2 controller, the line discipline, the serial port and the speaker.
      The terminal, its queues and the ports are the parameter \<open>console_env\<close>; the queues have the laws of the locale \<open>byte_queue\<close>.
    \<^item> \<open>Nic\<close> (\<^verbatim>\<open>net/mod.rs\<close>, \<^verbatim>\<open>net/rtl8139.rs\<close>): the receive ring of the RTL8139 card.
    \<^item> \<open>Ring\<close> (\<^verbatim>\<open>xhci/ring.rs\<close>, \<^verbatim>\<open>xhci/trb.rs\<close>): transfer request blocks, producer and event rings.
    \<^item> \<open>UsbDesc\<close>, \<open>UsbPort\<close> (\<^verbatim>\<open>xhci/usb.rs\<close>, \<^verbatim>\<open>xhci/regs.rs\<close>): descriptor parsers, the state machine of a root port.
    \<^item> \<open>Msc\<close>, \<open>Bulk\<close>, \<open>Hid\<close> (\<^verbatim>\<open>xhci/msc.rs\<close>, \<^verbatim>\<open>xhci/bulk.rs\<close>, \<^verbatim>\<open>xhci/hid.rs\<close>): the bulk-only mass storage protocol with its
      recovery, bulk transfer states, boot keyboards and mice.
    \<^item> \<open>Pcie\<close> (\<^verbatim>\<open>pcie/enumrate.rs\<close>): the configuration space, the capability list, the enumeration of the functions.
    \<^item> \<open>XhciIo\<close>, \<open>Controller\<close>, \<open>XhciInit\<close> (\<^verbatim>\<open>xhci/controller.rs\<close>, \<^verbatim>\<open>xhci/regs.rs\<close>): the host controller driver. \<open>XhciIo\<close> has
      its state, the access to registers and shared memory, events, commands and transfers; \<open>Controller\<close>
      endpoints, disks, the enumeration and removal of devices and the polling loop; \<open>XhciInit\<close> the
      discovery on the PCI bus, the reset, interrupts, and the table of controllers with its entry points.
    \<^item> \<open>XhciSafe\<close>, \<open>XhciHost\<close>, \<open>XhciSpec\<close>: the ownership of DMA buffers through the driver (the locales \<open>buffer_owner\<close>,
      \<open>xhci_driver\<close>, \<open>usb_machine\<close>), memory safety of every entry point, and what they promise. The controller, the
      devices and the configuration space are the parameters \<open>xhci_env\<close> and \<open>pci_env\<close>: any functions of a state of the
      hardware, which may change main memory at every access of the driver to a shared buffer.
    \<^item> \<open>Shell\<close>, \<open>Ping\<close> (\<^verbatim>\<open>apps/init\<close>), \<open>Upppd\<close> (\<^verbatim>\<open>apps/upppd\<close>), \<open>Screen\<close> (\<^verbatim>\<open>apps/imgview\<close>, \<^verbatim>\<open>console/framebuffer.rs\<close>), \<open>IpcDemo\<close>
      (\<^verbatim>\<open>apps/ipc-demo\<close>): the applications. They see the kernel through records of system calls (\<open>shell_env\<close>, \<open>net_env\<close>, \<open>ppp_env\<close>,
      \<open>demo_env\<close>), functions of any state of the world.

  \<^bold>\<open>Conventions.\<close> A Rust function becomes a function of the same name. A panic (an index out of range, \<^verbatim>\<open>unwrap\<close> of
  nothing, checked arithmetic) is the value \<open>None\<close> of an outer \<open>option\<close>; a \<^verbatim>\<open>Result\<close> is a sum, an \<^verbatim>\<open>Option\<close> an \<open>option\<close>.
  Integers that meet the hardware or wrap are words of their width; \<^verbatim>\<open>usize\<close> values used as counts and
  indices are \<open>nat\<close> with the limit \<open>USIZE_LIMIT\<close> written where arithmetic is checked. Code outside
  the repository (crates, the firmware tables, devices) is a parameter: a record of operations whose laws are the
  \<open>assumes\<close> of a locale or named hypotheses of the properties, each with an instance. Loops are
  structural or have a termination proof. The bounds of the loops that poll a device a limited number of times
  (\<^verbatim>\<open>POLL_LIMIT\<close>, \<^verbatim>\<open>TRANSFER_POLL_LIMIT\<close>, 256 capabilities, 1000000 polls of the PS/2 controller) are those of the code, so that no fuel is
  added. A loop that waits without a bound, for a device or for a message, and the main loops of the applications are a
  \<^verbatim>\<open>partial_function\<close> of \<open>option\<close> or the function \<open>wait_while\<close>: there \<open>None\<close> also means an endless wait, and where a property
  says that such a loop returns it gives \<open>Some\<close>. In \<open>Msc\<close> a loop that polls a device is given the answers of the device as a list,
  and \<open>service_rounds\<close> of \<open>Upppd\<close> runs a given number of rounds of an endless loop.

  \<^bold>\<open>What is shown.\<close> Memory: an allocation is the least fitting block, DMA buffers and free pages partition the memory,
  \<^verbatim>\<open>fork\<close> copies an address space and \<^verbatim>\<open>exit\<close> gives everything back, \<^verbatim>\<open>exec\<close> frees exactly the user half, and a write
  fault on a shared page makes a private copy. Tasks: the scheduler picks a runnable task with the most
  ticks and starves none, waiting tasks wake exactly on their event, registers survive preemption.
  The kernel: every run of system calls, interrupts and faults keeps the kernel invariant and
  refines the IPC step relation, in which every reference count is exact; system calls keep the
  privilege of the caller. Storage and files: partitions confine reads, names open the devices they list,
  \<^verbatim>\<open>open\<close> and \<^verbatim>\<open>close\<close> are inverse. USB: the descriptor parsers are sound, the event ring is a queue, the storage protocol
  reads the disk with bounded retries, the keyboard reports mirror the held keys. The host controller driver is
  memory safe against every hardware, reclaims exactly the buffers of an unplugged device or keeps them all,
  drops the reports of devices that are gone and delivers those of the others. Other devices: an AHCI drive returns the
  sectors of its disk, a key press reaches the reader of the terminal, the mouse decoder follows the stream of bytes, the place in the receive ring
  of the network card stays in the ring. Interfaces: the entry code of interrupts is transparent, system calls change only the registers that their
  wrappers declare, a FAT directory is listed completely. Applications: a typed line starts its program, \<^verbatim>\<open>file-read\<close> prints
  the file, an echo request is answered with checksums that verify, a broadcast reaches every client once, the image viewer
  paints the pixels of the image. The error properties and the lemmas on panics record where a request of an application or a device panics the
  kernel or a program.

  \<^bold>\<open>Not modelled.\<close> The descriptor tables, the processor flags, the APICs, the ACPI tables, the clock and the order of
  the initialisations in \<^verbatim>\<open>main.rs\<close>: they are written once at boot and have no logic of their own. The terminal emulator, the FAT file
  system, the ELF parser, the NVMe queues, the PPP protocol and the image decoders are crates. Time and
  the order of interrupts are the order of steps. The self tests that run at boot are instances of the properties. Formatted lines that
  the kernel prints are left out, and those of the applications are one write. The builder of the disk image
  (\<^verbatim>\<open>src/builder\<close>) is a program of the host.
\<close>

end
